(* ===== verification/Prelude.thy ===== *)
theory Prelude
  imports Complex_Main "HOL-Library.Word" "HOL-Library.Char_ord" "HOL-Library.List_Lexorder"
begin

text \<open>
  What every component of the development shares: the exceptions of
  \<open>exception/Exception.hpp\<close> as values, decimal printing as in \<open>std::to_string\<close>, the ordered
  associative container \<open>std::map\<close> with its contract stated as a locale, and the fixed-width
  arithmetic of \<open>int64_t\<close>. The collections \<open>omap_simps\<close> and \<open>omap_wf_intros\<close> carry the map
  reasoning of all other theories.
\<close>

named_theorems omap_simps "lookups in updated ordered maps"
named_theorems omap_wf_intros "operations that keep an ordered map sorted"

section \<open>Exceptions and results\<close>

text \<open>
  The subclasses of \<open>Exception\<close> that the modelled code throws, with the message given to the
  constructor. \<open>NullDereference\<close> is no exception of the library: it is the undefined behaviour of
  reading through an empty \<open>shared_ptr\<close>, kept as a value so that its absence is a theorem;
  \<open>UndefinedBehaviour\<close> is any other. \<open>BadCast\<close> is \<open>std::bad_cast\<close>, \<open>TypeError\<close> is
  \<open>nlohmann::json::type_error\<close> and \<open>InvalidArgument\<close> is \<open>std::invalid_argument\<close> or
  \<open>std::out_of_range\<close> of \<open>std::stoul\<close>.
\<close>

datatype exn =
    BadParameter string
  | Error string
  | Unsupported string
  | Inconsistency string
  | CorruptedFile string
  | OutOfRange string
  | NullDereference
  | BadCast
  | TypeError
  | InvalidArgument
  | UndefinedBehaviour

type_synonym 'a result = "exn + 'a"

text \<open>What \<open>catch (const eprosima::statistics_backend::Exception&)\<close> catches.\<close>

fun is_backend_exception :: "exn \<Rightarrow> bool" where
  "is_backend_exception (BadParameter s) = True"
| "is_backend_exception (Error s) = True"
| "is_backend_exception (Unsupported s) = True"
| "is_backend_exception (Inconsistency s) = True"
| "is_backend_exception (CorruptedFile s) = True"
| "is_backend_exception _ = False"

fun is_ok :: "'a result \<Rightarrow> bool" where
  "is_ok (Inl _) = False"
| "is_ok (Inr _) = True"

definition bind_result :: "'a result \<Rightarrow> ('a \<Rightarrow> 'b result) \<Rightarrow> 'b result" where
  "bind_result r f = (case r of Inl e \<Rightarrow> Inl e | Inr x \<Rightarrow> f x)"

lemma bind_result_simps [simp]:
  "bind_result (Inl e) f = Inl e"
  "bind_result (Inr x) f = f x"
  by (simp_all add: bind_result_def)

lemma bind_result_Inr_iff:
  "bind_result r f = Inr y \<longleftrightarrow> (\<exists>x. r = Inr x \<and> f x = Inr y)"
  by (cases r) simp_all

lemma bind_result_assoc:
  "bind_result (bind_result r f) g = bind_result r (\<lambda>x. bind_result (f x) g)"
  by (cases r) simp_all

text \<open>
  A chain of checks, each of which may throw: the first failing check decides, as the sequence of
  \<open>if (...) throw ...\<close> statements of the code does.
\<close>

fun first_failure :: "(bool \<times> exn) list \<Rightarrow> exn option" where
  "first_failure [] = None"
| "first_failure ((c, e) # cs) = (if c then Some e else first_failure cs)"

lemma first_failure_None_iff:
  "first_failure cs = None \<longleftrightarrow> (\<forall>(c, e) \<in> set cs. \<not> c)"
  by (induction cs rule: first_failure.induct) auto

lemma first_failure_Some_in:
  "first_failure cs = Some e \<Longrightarrow> (True, e) \<in> set cs"
  by (induction cs rule: first_failure.induct) (auto split: if_splits)

section \<open>Decimal printing\<close>

fun digits_of :: "nat \<Rightarrow> string" where
  "digits_of n =
     (if n < 10 then [char_of (n + 48)] else digits_of (n div 10) @ [char_of (n mod 10 + 48)])"

declare digits_of.simps [simp del]

definition to_string_int :: "int \<Rightarrow> string" where
  "to_string_int i = (if i < 0 then ''-'' @ digits_of (nat (- i)) else digits_of (nat i))"

fun undigits :: "nat \<Rightarrow> string \<Rightarrow> nat" where
  "undigits acc [] = acc"
| "undigits acc (c # cs) = undigits (acc * 10 + (of_char c - 48)) cs"

lemma undigits_append: "undigits a (xs @ ys) = undigits (undigits a xs) ys"
  by (induction xs arbitrary: a) simp_all

lemma undigits_digits_of: "undigits 0 (digits_of n) = n"
proof (induction n rule: digits_of.induct)
  case (1 n)
  show ?case
  proof (cases "n < 10")
    case True
    then show ?thesis by (simp add: digits_of.simps [of n] of_char_of)
  next
    case False
    with "1.IH" have "undigits 0 (digits_of (n div 10)) = n div 10" by simp
    with False show ?thesis
      by (simp add: digits_of.simps [of n] undigits_append of_char_of)
  qed
qed

lemma digits_of_inj: "digits_of m = digits_of n \<longleftrightarrow> m = n"
  by (metis undigits_digits_of)

lemma digits_of_not_empty: "digits_of n \<noteq> []"
  by (subst digits_of.simps) simp

section \<open>Signed 64-bit arithmetic\<close>

text \<open>Two's complement wrap-around of \<open>std::atomic<int64_t>\<close>.\<close>

definition wrap64 :: "int \<Rightarrow> int" where
  "wrap64 i = (i + 2 ^ 63) mod 2 ^ 64 - 2 ^ 63"

definition int64_range :: "int \<Rightarrow> bool" where
  "int64_range i \<longleftrightarrow> - (2 ^ 63) \<le> i \<and> i < 2 ^ 63"

lemma wrap64_id: "int64_range i \<Longrightarrow> wrap64 i = i"
  by (simp add: wrap64_def int64_range_def)

lemma wrap64_range: "int64_range (wrap64 i)"
  by (simp add: wrap64_def int64_range_def)

section \<open>The ordered map std::map\<close>

text \<open>
  A \<open>std::map\<close> is the list of its entries in the order its iterators visit them, which is the
  order of the keys. \<open>om_put\<close> is \<open>m[k] = v\<close>, \<open>om_erase\<close> is \<open>m.erase(k)\<close>, \<open>om_find\<close> is
  \<open>m.find(k)\<close> with \<open>None\<close> for \<open>m.end()\<close>.
\<close>

type_synonym ('k, 'v) omap = "('k \<times> 'v) list"

abbreviation om_find :: "('k, 'v) omap \<Rightarrow> 'k \<Rightarrow> 'v option" where
  "om_find \<equiv> map_of"

abbreviation om_keys :: "('k, 'v) omap \<Rightarrow> 'k list" where
  "om_keys m \<equiv> map fst m"

abbreviation om_vals :: "('k, 'v) omap \<Rightarrow> 'v list" where
  "om_vals m \<equiv> map snd m"

definition om_wf :: "('k::linorder, 'v) omap \<Rightarrow> bool" where
  "om_wf m \<longleftrightarrow> sorted_wrt (<) (om_keys m)"

fun om_put :: "'k::linorder \<Rightarrow> 'v \<Rightarrow> ('k, 'v) omap \<Rightarrow> ('k, 'v) omap" where
  "om_put k v [] = [(k, v)]"
| "om_put k v (e # m) =
     (if fst e < k then e # om_put k v m
      else if fst e = k then (k, v) # m
      else (k, v) # e # m)"

definition om_erase :: "'k \<Rightarrow> ('k, 'v) omap \<Rightarrow> ('k, 'v) omap" where
  "om_erase k m = filter (\<lambda>e. fst e \<noteq> k) m"

text \<open>\<open>m[k]\<close> read through \<open>operator[]\<close>: a missing key reads as the value-initialised \<open>d\<close>.\<close>

definition om_get :: "'v \<Rightarrow> 'k \<Rightarrow> ('k, 'v) omap \<Rightarrow> 'v" where
  "om_get d k m = (case om_find m k of Some v \<Rightarrow> v | None \<Rightarrow> d)"

definition om_update :: "'v \<Rightarrow> 'k::linorder \<Rightarrow> ('v \<Rightarrow> 'v) \<Rightarrow> ('k, 'v) omap \<Rightarrow> ('k, 'v) omap" where
  "om_update d k f m = om_put k (f (om_get d k m)) m"

lemma om_wf_Nil [simp]: "om_wf []"
  by (simp add: om_wf_def)

lemma om_wf_Cons: "om_wf (e # m) \<longleftrightarrow> (\<forall>x \<in> set m. fst e < fst x) \<and> om_wf m"
  by (simp add: om_wf_def)

lemma om_wf_distinct: "om_wf m \<Longrightarrow> distinct (om_keys m)"
  unfolding om_wf_def by (induction m) auto

lemma om_put_keys: "set (om_keys (om_put k v m)) = insert k (set (om_keys m))"
  by (induction m) auto

lemma om_put_fst: "fst ` set (om_put k v m) = insert k (fst ` set m)"
  using om_put_keys [of k v m] by simp

lemma om_find_put [omap_simps]: "om_wf m \<Longrightarrow> om_find (om_put k v m) = (om_find m)(k \<mapsto> v)"
proof (induction m)
  case Nil
  then show ?case by simp
next
  case (Cons e m)
  obtain a b where e: "e = (a, b)" by (cases e)
  have nin: "k < a \<Longrightarrow> om_find m k = None"
    using Cons.prems e by (fastforce simp: om_wf_Cons map_of_eq_None_iff)
  show ?case
    using Cons e by (auto simp: om_wf_Cons fun_eq_iff nin)
qed

lemma om_put_wf [omap_wf_intros]: "om_wf m \<Longrightarrow> om_wf (om_put k v m)"
proof (induction m)
  case Nil
  then show ?case by (simp add: om_wf_def)
next
  case (Cons e m)
  have ks: "fst ` set (om_put k v m) = insert k (fst ` set m)" by (rule om_put_fst)
  show ?case
    using Cons ks by (fastforce simp: om_wf_Cons)
qed

lemma om_find_erase [omap_simps]: "om_find (om_erase k m) = (om_find m)(k := None)"
  by (induction m) (auto simp: om_erase_def fun_eq_iff)

lemma om_erase_wf [omap_wf_intros]: "om_wf m \<Longrightarrow> om_wf (om_erase k m)"
  by (induction m) (auto simp: om_erase_def om_wf_Cons)

lemma om_filter_wf [omap_wf_intros]: "om_wf m \<Longrightarrow> om_wf (filter p m)"
  by (induction m) (auto simp: om_wf_Cons)

lemma om_find_filter:
  "om_wf m \<Longrightarrow> om_find (filter p m) k =
     (case om_find m k of Some v \<Rightarrow> (if p (k, v) then Some v else None) | None \<Rightarrow> None)"
  by (induction m) (auto simp: om_wf_Cons map_of_eq_None_iff split: option.splits)

lemma om_map_wf [omap_wf_intros]: "om_wf m \<Longrightarrow> om_wf (map (\<lambda>(k, v). (k, f k v)) m)"
  by (induction m) (auto simp: om_wf_Cons)

lemma om_find_map: "om_find (map (\<lambda>(k, v). (k, f k v)) m) k = map_option (f k) (om_find m k)"
  by (induction m) auto

lemma om_in_set_iff: "om_wf m \<Longrightarrow> (k, v) \<in> set m \<longleftrightarrow> om_find m k = Some v"
  by (simp add: om_wf_distinct)

lemma om_put_set:
  "om_wf m \<Longrightarrow> set (om_put k v m) = insert (k, v) {e \<in> set m. fst e \<noteq> k}"
proof -
  assume wf: "om_wf m"
  have "e \<in> set (om_put k v m) \<longleftrightarrow> e = (k, v) \<or> e \<in> set m \<and> fst e \<noteq> k" for e
    using om_in_set_iff [OF om_put_wf [OF wf], of "fst e" "snd e" k v]
      om_in_set_iff [OF wf, of "fst e" "snd e"]
    by (cases e) (auto simp: om_find_put [OF wf])
  then show ?thesis by auto
qed

lemma om_put_set_fresh:
  "om_wf m \<Longrightarrow> k \<notin> fst ` set m \<Longrightarrow> set (om_put k v m) = insert (k, v) (set m)"
  by (auto simp: om_put_set)

lemma om_erase_set: "set (om_erase k m) = {e \<in> set m. fst e \<noteq> k}"
  by (auto simp: om_erase_def)

lemma om_get_put [omap_simps]:
  "om_wf m \<Longrightarrow> om_get d k (om_put k' v m) = (if k = k' then v else om_get d k m)"
  by (simp add: om_get_def om_find_put)

lemma om_update_wf [omap_wf_intros]: "om_wf m \<Longrightarrow> om_wf (om_update d k f m)"
  by (simp add: om_update_def om_put_wf)

lemma om_find_update [omap_simps]:
  "om_wf m \<Longrightarrow> om_find (om_update d k f m) = (om_find m)(k \<mapsto> f (om_get d k m))"
  by (simp add: om_update_def om_find_put)

lemma entries_of_keys:
  "distinct (map fst m) \<Longrightarrow> map (\<lambda>k. (k, the (map_of m k))) (map fst m) = m"
  by (auto intro!: map_idI)

lemma sorted_keys_set_unique:
  fixes m m' :: "('k::linorder \<times> 'v) list"
  assumes "sorted_wrt (<) (map fst m)" and "sorted_wrt (<) (map fst m')" and "set m = set m'"
  shows "m = m'"
proof -
  have "map fst m = map fst m'"
    using assms by (metis list.set_map strict_sorted_equal)
  moreover have d: "distinct (map fst m)" "distinct (map fst m')"
    using assms(1,2) by (simp_all add: strict_sorted_iff)
  moreover have "map_of m = map_of m'"
    using d assms(3) by (simp add: map_of_inject_set)
  ultimately show ?thesis
    by (metis entries_of_keys)
qed

text \<open>
  The contract of \<open>std::map\<close> that the components use: the clients' lemmas are proved from these
  laws once, and the interpretation below gives them for the lists of the model.
\<close>

locale ordered_map =
  fixes empty_map :: "'m"
    and put :: "'k::linorder \<Rightarrow> 'v \<Rightarrow> 'm \<Rightarrow> 'm"
    and erase :: "'k \<Rightarrow> 'm \<Rightarrow> 'm"
    and find :: "'m \<Rightarrow> 'k \<Rightarrow> 'v option"
    and entries :: "'m \<Rightarrow> ('k \<times> 'v) list"
    and wf :: "'m \<Rightarrow> bool"
  assumes wf_empty: "wf empty_map"
    and wf_put: "wf m \<Longrightarrow> wf (put k v m)"
    and wf_erase: "wf m \<Longrightarrow> wf (erase k m)"
    and find_empty: "find empty_map k = None"
    and find_put: "wf m \<Longrightarrow> find (put k v m) k' = (if k' = k then Some v else find m k')"
    and find_erase: "wf m \<Longrightarrow> find (erase k m) k' = (if k' = k then None else find m k')"
    and entries_sorted: "wf m \<Longrightarrow> sorted_wrt (<) (map fst (entries m))"
    and entries_find: "wf m \<Longrightarrow> (k, v) \<in> set (entries m) \<longleftrightarrow> find m k = Some v"
begin

lemma entries_put_fresh:
  assumes "wf m" and "find m k = None"
  shows "set (entries (put k v m)) = insert (k, v) (set (entries m))"
proof -
  have "e \<in> set (entries (put k v m)) \<longleftrightarrow> e = (k, v) \<or> e \<in> set (entries m)" for e
    using assms entries_find [OF wf_put [OF assms(1)], of "fst e" "snd e" k v]
      entries_find [OF assms(1), of "fst e" "snd e"]
    by (cases e) (auto simp: find_put)
  then show ?thesis by auto
qed

lemma put_put_same:
  assumes "wf m"
  shows "find (put k v (put k w m)) = find (put k v m)"
  using assms by (auto simp: fun_eq_iff find_put wf_put)

lemma erase_put_fresh:
  assumes "wf m" and "find m k = None"
  shows "find (erase k (put k v m)) = find m"
  using assms by (auto simp: fun_eq_iff find_put find_erase wf_put)

lemma entries_eq_iff_find_eq:
  assumes "wf m" and "wf m'"
  shows "entries m = entries m' \<longleftrightarrow> find m = find m'"
proof
  assume eq: "entries m = entries m'"
  show "find m = find m'"
  proof
    fix k
    show "find m k = find m' k"
      using entries_find [OF assms(1), of k] entries_find [OF assms(2), of k]
      by (cases "find m k"; cases "find m' k") (auto simp: eq)
  qed
next
  assume eq: "find m = find m'"
  have s: "set (entries m) = set (entries m')"
    using entries_find [OF assms(1)] entries_find [OF assms(2)] by (auto simp: eq)
  show "entries m = entries m'"
    using entries_sorted [OF assms(1)] entries_sorted [OF assms(2)] s
    by (rule sorted_keys_set_unique)
qed

end

interpretation om: ordered_map "[]" om_put om_erase om_find "\<lambda>m. m" om_wf
  by unfold_locales
    (simp_all add: om_find_put om_find_erase om_put_wf om_erase_wf om_in_set_iff,
      simp add: om_wf_def)

end
