(* ===== verification/DbQueue.thy ===== *)
theory DbQueue
  imports Prelude
begin

text \<open>
  \<open>DatabaseQueue\<close> (\<open>database/database_queue.hpp\<close>): the double-buffered queue between the DDS
  listeners, which push, and the one consumer thread, which processes. One step of the relation
  \<open>queue_step\<close> is one critical section under \<open>cv_mutex_\<close>, or one call of \<open>process_sample\<close>, which
  the consumer makes with the lock released. The lemmas show FIFO processing without loss or
  duplication, what \<open>flush\<close> guarantees, that the consumer drains the queue, and what goes wrong when
  a consumer is started before the stopped one has been joined.
\<close>

section \<open>The two buffers\<close>

record 'a buffers =
  foreground_queue :: "'a list"
  background_queue :: "'a list"

definition b_push :: "'a \<Rightarrow> 'a buffers \<Rightarrow> 'a buffers" where
  "b_push x q = q\<lparr>background_queue := background_queue q @ [x]\<rparr>"

text \<open>\<open>swap\<close> first replaces the foreground queue by an empty one.\<close>

definition b_swap :: "'a buffers \<Rightarrow> 'a buffers" where
  "b_swap q =
     (let q = q\<lparr>foreground_queue := []\<rparr>
      in \<lparr>foreground_queue = background_queue q, background_queue = foreground_queue q\<rparr>)"

text \<open>\<open>front\<close> and \<open>pop\<close> of an empty queue are undefined behaviour: \<open>None\<close>.\<close>

definition b_front :: "'a buffers \<Rightarrow> 'a option" where
  "b_front q = (case foreground_queue q of [] \<Rightarrow> None | x # xs \<Rightarrow> Some x)"

definition b_pop :: "'a buffers \<Rightarrow> 'a buffers option" where
  "b_pop q = (case foreground_queue q of [] \<Rightarrow> None | x # xs \<Rightarrow> Some (q\<lparr>foreground_queue := xs\<rparr>))"

definition b_empty :: "'a buffers \<Rightarrow> bool" where
  "b_empty q \<longleftrightarrow> foreground_queue q = []"

definition b_both_empty :: "'a buffers \<Rightarrow> bool" where
  "b_both_empty q \<longleftrightarrow> foreground_queue q = [] \<and> background_queue q = []"

text \<open>
  The contract of the buffers towards the consumer: seen as one list, a push appends, a swap changes
  nothing provided the foreground is used up, front and pop take the head.
\<close>

locale fifo =
  fixes content :: "'q \<Rightarrow> 'a list"
    and push :: "'a \<Rightarrow> 'q \<Rightarrow> 'q"
    and swap :: "'q \<Rightarrow> 'q"
    and front :: "'q \<Rightarrow> 'a option"
    and pop :: "'q \<Rightarrow> 'q option"
    and empty :: "'q \<Rightarrow> bool"
  assumes content_push: "content (push x q) = content q @ [x]"
    and content_swap: "empty q \<Longrightarrow> content (swap q) = content q"
    and swap_empty: "empty q \<Longrightarrow> empty (swap q) \<Longrightarrow> content q = []"
    and front_pop: "\<not> empty q \<Longrightarrow>
      \<exists>x q'. front q = Some x \<and> pop q = Some q' \<and> content q = x # content q'"
begin

fun drain :: "nat \<Rightarrow> 'q \<Rightarrow> 'a list \<times> 'q" where
  "drain 0 q = ([], q)"
| "drain (Suc n) q =
     (if empty q then ([], q)
      else case (front q, pop q) of
          (Some x, Some q') \<Rightarrow> (let (xs, q'') = drain n q' in (x # xs, q''))
        | _ \<Rightarrow> ([], q))"

lemma drain_content: "fst (drain n q) @ content (snd (drain n q)) = content q"
proof (induction n arbitrary: q)
  case 0
  then show ?case by simp
next
  case (Suc n)
  show ?case
  proof (cases "empty q")
    case True
    then show ?thesis by simp
  next
    case False
    then obtain x q' where "front q = Some x" "pop q = Some q'" "content q = x # content q'"
      using front_pop by blast
    with Suc [of q'] False show ?thesis by (simp add: split_beta Let_def)
  qed
qed

lemma drain_enough: "length (content q) \<le> n \<Longrightarrow> empty (snd (drain n q))"
proof (induction n arbitrary: q)
  case 0
  then show ?case using front_pop [of q] by fastforce
next
  case (Suc n)
  show ?case
  proof (cases "empty q")
    case True
    then show ?thesis by simp
  next
    case False
    then obtain x q' where "front q = Some x" "pop q = Some q'" "content q = x # content q'"
      using front_pop by blast
    with Suc.IH [of q'] Suc.prems False show ?thesis by (simp add: split_beta Let_def)
  qed
qed

end

definition b_content :: "'a buffers \<Rightarrow> 'a list" where
  "b_content q = foreground_queue q @ background_queue q"

lemmas buffer_defs = b_push_def b_swap_def b_front_def b_pop_def b_empty_def b_both_empty_def
  b_content_def

interpretation bq: fifo b_content b_push b_swap b_front b_pop b_empty
  by unfold_locales (auto simp: buffer_defs Let_def neq_Nil_conv)

section \<open>The threads\<close>

text \<open>
  Where a consumer thread is in \<open>run\<close>: before its first \<open>consume_all\<close>; about to process the front
  sample without the lock; about to take the lock again and pop; at the loop condition or in
  \<open>cv_.wait\<close>.
\<close>

datatype consumer_pc = Starting | Processing | Popping | Waiting

text \<open>
  \<open>pushed\<close> and \<open>processed\<close> record the history; \<open>undefined_access\<close> is set when the code would
  read or pop an empty queue. \<open>consumers\<close> are the threads that are executing \<open>run\<close>, whether or not
  \<open>consumer_thread_\<close> still holds them.
\<close>

record 'a dbqueue =
  buffers :: "'a buffers"
  consuming :: bool
  consumer_thread :: bool
  current_loop :: "8 word"
  consumers :: "consumer_pc list"
  pushed :: "'a list"
  processed :: "'a list"
  undefined_access :: bool

definition new_queue :: "'a dbqueue" where
  "new_queue = \<lparr>buffers = \<lparr>foreground_queue = [], background_queue = []\<rparr>, consuming = True,
     consumer_thread = True, current_loop = 0, consumers = [Starting], pushed = [], processed = [],
     undefined_access = False\<rparr>"

definition push :: "'a \<Rightarrow> 'a dbqueue \<Rightarrow> 'a dbqueue" where
  "push x s = s\<lparr>buffers := b_push x (buffers s), pushed := pushed s @ [x]\<rparr>"

text \<open>The critical section of \<open>stop_consumer\<close>; the join is the wait for the thread to leave \<open>consumers\<close>.\<close>

definition stop_consumer :: "'a dbqueue \<Rightarrow> 'a dbqueue \<times> bool" where
  "stop_consumer s =
     (if consuming s then (s\<lparr>consuming := False, consumer_thread := False\<rparr>, True) else (s, False))"

definition start_consumer :: "'a dbqueue \<Rightarrow> 'a dbqueue \<times> bool" where
  "start_consumer s =
     (if \<not> consuming s \<and> \<not> consumer_thread s
      then (s\<lparr>consuming := True, consumer_thread := True, consumers := consumers s @ [Starting]\<rparr>, True)
      else (s, False))"

text \<open>
  \<open>while (!empty())\<close> in \<open>consume_all\<close>: go on with the next sample, or count the loop and return to
  \<open>run\<close>.
\<close>

definition consume_check :: "'a dbqueue \<Rightarrow> consumer_pc option \<times> 'a dbqueue" where
  "consume_check s =
     (if b_empty (buffers s) then (Some Waiting, s\<lparr>current_loop := current_loop s + 1\<rparr>)
      else (Some Processing, s))"

definition consume_all_entry :: "'a dbqueue \<Rightarrow> consumer_pc option \<times> 'a dbqueue" where
  "consume_all_entry s = consume_check (s\<lparr>buffers := b_swap (buffers s)\<rparr>)"

text \<open>
  One step of a consumer thread: \<open>None\<close> when it is blocked, otherwise its next position
  (\<open>None\<close> when \<open>run\<close> returns) and the new state.
\<close>

fun consumer_step ::
  "consumer_pc \<Rightarrow> 'a dbqueue \<Rightarrow> (consumer_pc option \<times> 'a dbqueue) option" where
  "consumer_step Starting s = Some (consume_all_entry s)"
| "consumer_step Processing s =
     Some (Some Popping,
       case b_front (buffers s) of
         Some x \<Rightarrow> s\<lparr>processed := processed s @ [x]\<rparr>
       | None \<Rightarrow> s\<lparr>undefined_access := True\<rparr>)"
| "consumer_step Popping s =
     Some (consume_check
       (case b_pop (buffers s) of
          Some q \<Rightarrow> s\<lparr>buffers := q\<rparr>
        | None \<Rightarrow> s\<lparr>undefined_access := True\<rparr>))"
| "consumer_step Waiting s =
     (if \<not> consuming s then Some (None, s)
      else if b_both_empty (buffers s) then None
      else Some (consume_all_entry s))"

definition move_consumer :: "nat \<Rightarrow> consumer_pc option \<Rightarrow> 'a dbqueue \<Rightarrow> 'a dbqueue" where
  "move_consumer i p s = s\<lparr>consumers := (case p of
       Some pc \<Rightarrow> (consumers s)[i := pc]
     | None \<Rightarrow> take i (consumers s) @ drop (Suc i) (consumers s))\<rparr>"

text \<open>
  With \<open>joined\<close>, a consumer is started only when no thread executes \<open>run\<close> any more, that is after
  \<open>stop_consumer\<close> has returned. The code itself does not ask for this (\<open>joined = False\<close>).
\<close>

inductive queue_step :: "bool \<Rightarrow> 'a dbqueue \<Rightarrow> 'a dbqueue \<Rightarrow> bool" for joined where
  step_push: "queue_step joined s (push x s)"
| step_stop: "queue_step joined s (fst (stop_consumer s))"
| step_start: "joined \<longrightarrow> consumers s = [] \<Longrightarrow> queue_step joined s (fst (start_consumer s))"
| step_consume: "i < length (consumers s) \<Longrightarrow> consumer_step (consumers s ! i) s = Some (p, s') \<Longrightarrow>
    queue_step joined s (move_consumer i p s')"

inductive queue_run :: "bool \<Rightarrow> 'a dbqueue \<Rightarrow> 'a dbqueue \<Rightarrow> bool" for joined where
  run_refl: "queue_run joined s s"
| run_step: "queue_run joined s t \<Longrightarrow> queue_step joined t u \<Longrightarrow> queue_run joined s u"

text \<open>The condition of \<open>flush\<close>: \<open>None\<close> stands for the initial \<open>last_loop = -1\<close>.\<close>

definition flush_returns_at_once :: "'a dbqueue \<Rightarrow> bool" where
  "flush_returns_at_once s \<longleftrightarrow> \<not> consuming s \<and> \<not> consumer_thread s"

definition flush_passes :: "8 word option \<Rightarrow> 'a dbqueue \<Rightarrow> bool" where
  "flush_passes last_loop s \<longleftrightarrow>
     \<not> consuming s \<or> b_both_empty (buffers s) \<or>
     b_empty (buffers s) \<and> last_loop \<noteq> Some (current_loop s)"

section \<open>The invariant\<close>

text \<open>What was pushed is what was processed followed by what still waits, in this order.\<close>

fun pc_invariant :: "consumer_pc \<Rightarrow> 'a dbqueue \<Rightarrow> bool" where
  "pc_invariant Processing s \<longleftrightarrow>
     \<not> b_empty (buffers s) \<and> pushed s = processed s @ b_content (buffers s)"
| "pc_invariant Popping s \<longleftrightarrow>
     \<not> b_empty (buffers s) \<and> pushed s = processed s @ tl (b_content (buffers s))"
| "pc_invariant _ s \<longleftrightarrow> b_empty (buffers s) \<and> pushed s = processed s @ b_content (buffers s)"

definition queue_invariant :: "'a dbqueue \<Rightarrow> bool" where
  "queue_invariant s \<longleftrightarrow>
     \<not> undefined_access s \<and> consuming s = consumer_thread s \<and>
     (case consumers s of
        [] \<Rightarrow> \<not> consuming s \<and> pc_invariant Waiting s
      | [p] \<Rightarrow> pc_invariant p s
      | _ \<Rightarrow> False)"

lemma pc_invariant_consumers [simp]:
  "pc_invariant p (s\<lparr>consumers := ps\<rparr>) = pc_invariant p s"
  "pc_invariant p (s\<lparr>consuming := c\<rparr>) = pc_invariant p s"
  "pc_invariant p (s\<lparr>consumer_thread := c\<rparr>) = pc_invariant p s"
  "pc_invariant p (s\<lparr>current_loop := l\<rparr>) = pc_invariant p s"
  by (cases p; simp)+

lemma consume_check_invariant:
  assumes "pushed s = processed s @ b_content (buffers s)" and "consume_check s = (p, s')"
  shows "\<exists>pc. p = Some pc \<and> pc_invariant pc s' \<and> undefined_access s' = undefined_access s \<and>
    consuming s' = consuming s \<and> consumer_thread s' = consumer_thread s \<and> consumers s' = consumers s"
  using assms by (auto simp: consume_check_def split: if_splits)

lemma consumer_step_invariant:
  assumes "pc_invariant pc s" and "consumer_step pc s = Some (p, s')"
  shows "undefined_access s' = undefined_access s \<and> consuming s' = consuming s \<and>
    consumer_thread s' = consumer_thread s \<and> consumers s' = consumers s \<and>
    (case p of Some pc' \<Rightarrow> pc_invariant pc' s' | None \<Rightarrow> \<not> consuming s \<and> s' = s \<and> pc = Waiting)"
proof -
  have entry: "undefined_access s' = undefined_access s \<and> consuming s' = consuming s \<and>
      consumer_thread s' = consumer_thread s \<and> consumers s' = consumers s \<and>
      (\<exists>pc'. p = Some pc' \<and> pc_invariant pc' s')"
    if "consume_all_entry s = (p, s')" "b_empty (buffers s)"
      "pushed s = processed s @ b_content (buffers s)"
  proof -
    let ?s = "s\<lparr>buffers := b_swap (buffers s)\<rparr>"
    have "pushed ?s = processed ?s @ b_content (buffers ?s)"
      using that bq.content_swap [of "buffers s"] by simp
    from consume_check_invariant [OF this] that(1) show ?thesis
      by (auto simp: consume_all_entry_def)
  qed
  show ?thesis
  proof (cases pc)
    case Starting
    then show ?thesis using assms entry by auto
  next
    case Processing
    obtain x q' where "b_front (buffers s) = Some x" "b_content (buffers s) = x # b_content q'"
      using bq.front_pop [of "buffers s"] assms Processing by auto
    then show ?thesis using assms Processing by auto
  next
    case Popping
    obtain q' where q': "b_pop (buffers s) = Some q'" "tl (b_content (buffers s)) = b_content q'"
      using bq.front_pop [of "buffers s"] assms Popping by auto
    from q' show ?thesis
      using assms Popping consume_check_invariant [of "s\<lparr>buffers := q'\<rparr>" p s'] by auto
  next
    case Waiting
    then show ?thesis using assms entry by (auto split: if_splits)
  qed
qed

lemma push_invariant: "pc_invariant p s \<Longrightarrow> pc_invariant p (push x s)"
  by (cases p) (auto simp: push_def bq.content_push b_content_def b_empty_def b_push_def)

lemma push_fields:
  "consumers (push x s) = consumers s" "consuming (push x s) = consuming s"
  "consumer_thread (push x s) = consumer_thread s" "current_loop (push x s) = current_loop s"
  "undefined_access (push x s) = undefined_access s" "processed (push x s) = processed s"
  "pushed (push x s) = pushed s @ [x]"
  by (simp_all add: push_def)

lemma queue_step_invariant:
  assumes "queue_step True s t" and "queue_invariant s"
  shows "queue_invariant t"
  using assms
proof cases
  case (step_push x)
  then show ?thesis
    using assms(2)
    by (auto simp: queue_invariant_def push_fields push_invariant simp del: pc_invariant.simps
        split: list.splits)
next
  case step_stop
  then show ?thesis
    using assms(2) by (auto simp: queue_invariant_def stop_consumer_def split: list.splits)
next
  case step_start
  then show ?thesis
    using assms(2) by (auto simp: queue_invariant_def start_consumer_def split: list.splits)
next
  case (step_consume i p s')
  then obtain pc where pc: "consumers s = [pc]" "i = 0" "pc_invariant pc s"
    using assms(2) by (auto simp: queue_invariant_def split: list.splits)
  with consumer_step_invariant [of pc s p s'] step_consume assms(2) show ?thesis
    by (cases p) (auto simp: queue_invariant_def move_consumer_def)
qed

lemma queue_run_invariant:
  "queue_run True s t \<Longrightarrow> queue_invariant s \<Longrightarrow> queue_invariant t"
  by (induction rule: queue_run.induct) (auto intro: queue_step_invariant)

lemma new_queue_invariant: "queue_invariant new_queue"
  by (simp add: queue_invariant_def new_queue_def buffer_defs)


text \<open>
  C5: as long as a consumer is only started when none is running, in every reachable state the code
  has never read or popped an empty queue, at most one thread consumes, and the samples processed
  so far are the first ones pushed, in that order, each once; what is missing waits in the queues.
\<close>

theorem queue_fifo_no_loss:
  assumes "queue_run True new_queue s"
  shows "\<not> undefined_access s \<and> length (consumers s) \<le> 1 \<and>
    (\<exists>waiting. pushed s = processed s @ waiting \<and>
      (b_content (buffers s) = waiting \<or> tl (b_content (buffers s)) = waiting))"
proof -
  have inv: "queue_invariant s"
    using queue_run_invariant [OF assms new_queue_invariant] .
  have pc: "\<exists>waiting. pushed s = processed s @ waiting \<and>
      (b_content (buffers s) = waiting \<or> tl (b_content (buffers s)) = waiting)"
    if "pc_invariant p s" for p
    using that by (cases p) auto
  show ?thesis
    using inv pc by (auto simp: queue_invariant_def simp del: pc_invariant.simps split: list.splits)
qed

lemma run_trans: "queue_run j t u \<Longrightarrow> queue_run j s t \<Longrightarrow> queue_run j s u"
  by (induction rule: queue_run.induct) (auto intro: run_step)

lemma run_push: "queue_run j s t \<Longrightarrow> queue_run j s (push x t)"
  by (rule run_step [OF _ step_push])

lemma run_consume:
  "queue_run j s t \<Longrightarrow> i < length (consumers t) \<Longrightarrow>
     consumer_step (consumers t ! i) t = Some (p, t') \<Longrightarrow> queue_run j s (move_consumer i p t')"
  by (rule run_step [OF _ step_consume])

text \<open>The scripts of the witnesses: consumer 0 takes \<open>n\<close> steps.\<close>

fun consume_steps :: "nat \<Rightarrow> nat \<Rightarrow> 'a dbqueue \<Rightarrow> 'a dbqueue" where
  "consume_steps i 0 s = s"
| "consume_steps i (Suc n) s =
     (if i < length (consumers s)
      then case consumer_step (consumers s ! i) s of
          Some (p, s') \<Rightarrow> consume_steps i n (move_consumer i p s')
        | None \<Rightarrow> s
      else s)"

lemma run_consume_steps: "queue_run j s t \<Longrightarrow> queue_run j s (consume_steps i n t)"
proof (induction n arbitrary: t)
  case 0
  then show ?case by simp
next
  case (Suc n)
  then show ?case using run_consume [OF Suc.prems, of i] by (auto split: option.split)
qed

lemmas queue_script = run_consume_steps run_push run_refl
  run_step [OF _ step_start] run_step [OF _ step_stop]

lemmas queue_eval = new_queue_def push_def start_consumer_def stop_consumer_def
  consume_check_def consume_all_entry_def move_consumer_def eval_nat_numeral

theorem queue_fifo_no_loss_witness:
  "let s = consume_steps 0 3 (push 7 (push (3::nat) new_queue))
   in \<not> undefined_access s \<and> length (consumers s) \<le> 1 \<and> pushed s = [3, 7] \<and> processed s = [3]"
proof -
  have "queue_run True new_queue (consume_steps 0 3 (push 7 (push (3::nat) new_queue)))"
    by (intro queue_script)
  from queue_fifo_no_loss [OF this] show ?thesis
    by (simp add: queue_eval buffer_defs Let_def)
qed

section \<open>Flushing\<close>

text \<open>
  Between the two waits of \<open>flush\<close>: either every sample of \<open>old\<close> has left the background queue, or
  the consumer has not entered \<open>consume_all\<close> since the loop counter read \<open>l\<close>.
\<close>

definition flush_progress :: "'a list \<Rightarrow> 8 word \<Rightarrow> 'a dbqueue \<Rightarrow> bool" where
  "flush_progress old l s \<longleftrightarrow>
     (\<exists>new. pushed s = old @ new @ background_queue (buffers s)) \<or>
     current_loop s = l \<and> b_empty (buffers s) \<and> set (consumers s) \<subseteq> {Starting, Waiting} \<and>
     (\<exists>new. pushed s = old @ new)"

lemma consume_check_history:
  "consume_check s = (p, s') \<Longrightarrow> pushed s' = pushed s \<and> buffers s' = buffers s"
  by (auto simp: consume_check_def split: if_splits)

lemma consume_all_entry_history:
  "consume_all_entry s = (p, s') \<Longrightarrow> pushed s' = pushed s \<and> background_queue (buffers s') = []"
  using consume_check_history [of "s\<lparr>buffers := b_swap (buffers s)\<rparr>" p s']
  by (auto simp: consume_all_entry_def buffer_defs Let_def)

lemma consumer_step_background:
  assumes "consumer_step pc s = Some (p, s')" and "pc \<in> {Processing, Popping}"
  shows "pushed s' = pushed s \<and> background_queue (buffers s') = background_queue (buffers s)"
  using assms consume_check_history [of _ p s']
  by (cases pc) (fastforce simp: buffer_defs split: list.splits option.splits)+

lemma consumer_step_entry:
  assumes "consumer_step pc s = Some (p, s')" and "pc \<in> {Starting, Waiting}" and "p \<noteq> None"
  shows "pushed s' = pushed s \<and> background_queue (buffers s') = []"
  using assms consume_all_entry_history [of s p s'] by (auto split: if_splits)

lemma consumer_step_exit: "consumer_step pc s = Some (None, s') \<Longrightarrow> s' = s \<and> pc = Waiting"
  by (cases pc) (auto simp: consume_all_entry_def consume_check_def split: if_splits)

lemma flush_progress_step:
  assumes "queue_step True s t" and "queue_invariant s" and "flush_progress old l s"
  shows "flush_progress old l t"
  using assms(1)
proof cases
  case (step_push x)
  have b: "b_empty (buffers (push x s)) = b_empty (buffers s)"
    "background_queue (buffers (push x s)) = background_queue (buffers s) @ [x]"
    by (simp_all add: push_def buffer_defs)
  show ?thesis
    using assms(3) unfolding step_push flush_progress_def b push_fields by auto
next
  case step_stop
  then show ?thesis
    using assms(3) by (auto simp: flush_progress_def stop_consumer_def split: if_splits)
next
  case step_start
  then show ?thesis
    using assms(3) by (auto simp: flush_progress_def start_consumer_def split: if_splits)
next
  case (step_consume i p s')
  then obtain pc where pc: "consumers s = [pc]" "i = 0"
    using assms(2) by (auto simp: queue_invariant_def split: list.splits)
  have st: "consumer_step pc s = Some (p, s')" using step_consume pc by simp
  have fields: "pushed t = pushed s'" "buffers t = buffers s'" "current_loop t = current_loop s'"
    unfolding step_consume by (simp_all add: move_consumer_def)
  consider "p = None" | "pc \<in> {Processing, Popping}" | "pc \<in> {Starting, Waiting}" "p \<noteq> None"
    by (cases pc) auto
  then show ?thesis
  proof cases
    case 1
    then have "s' = s" using st consumer_step_exit by blast
    then show ?thesis
      using assms(3) pc 1 unfolding step_consume
      by (auto simp: flush_progress_def move_consumer_def)
  next
    case 2
    then show ?thesis
      using assms(3) pc consumer_step_background [OF st 2]
      by (auto simp: flush_progress_def fields)
  next
    case 3
    have "\<exists>new. pushed s = old @ new" using assms(3) by (auto simp: flush_progress_def)
    then show ?thesis
      using consumer_step_entry [OF st 3] by (auto simp: flush_progress_def fields)
  qed
qed

lemma flush_progress_run:
  "queue_run True s t \<Longrightarrow> queue_invariant s \<Longrightarrow> flush_progress old l s \<Longrightarrow> flush_progress old l t"
proof (induction rule: queue_run.induct)
  case (run_refl s)
  then show ?case by simp
next
  case (run_step s t u)
  then show ?case
    using flush_progress_step [of t u old l] queue_run_invariant [of s t] by blast
qed

lemma pushed_grows: "queue_step j s t \<Longrightarrow> \<exists>new. pushed t = pushed s @ new"
proof (induction rule: queue_step.induct)
  case (step_push s x)
  then show ?case by (simp add: push_fields)
next
  case (step_stop s)
  then show ?case by (simp add: stop_consumer_def)
next
  case (step_start s)
  then show ?case by (simp add: start_consumer_def)
next
  case (step_consume i s p s')
  then have "pushed s' = pushed s"
    using consumer_step_background [of "consumers s ! i" s p s']
      consumer_step_entry [of "consumers s ! i" s p s']
      consumer_step_exit [of "consumers s ! i" s s']
    by (cases "consumers s ! i"; cases p) auto
  then show ?case by (simp add: move_consumer_def)
qed

lemma pushed_grows_run: "queue_run j s t \<Longrightarrow> \<exists>new. pushed t = pushed s @ new"
proof (induction rule: queue_run.induct)
  case (run_refl s)
  then show ?case by simp
next
  case (run_step s t u)
  then show ?case using pushed_grows [of j t u] by auto
qed

lemma empty_foreground_processed:
  assumes "queue_invariant s" and "b_empty (buffers s)"
  shows "pushed s = processed s @ background_queue (buffers s) \<and>
    set (consumers s) \<subseteq> {Starting, Waiting}"
proof -
  have "pushed s = processed s @ background_queue (buffers s) \<and> p \<in> {Starting, Waiting}"
    if "pc_invariant p s" for p
    using that assms(2) by (cases p) (auto simp: buffer_defs)
  then show ?thesis
    using assms by (auto simp: queue_invariant_def buffer_defs split: list.splits)
qed

text \<open>
  C6: \<open>flush\<close> called in state \<open>s\<close> passes its first wait in \<open>t\<close> and its second in \<open>u\<close>. Whatever the
  other threads do in between, if the consumer was not stopped at either moment, every sample pushed
  before the call has been processed when it returns, even when the 8-bit loop counter wraps.
\<close>

theorem flush_consumes:
  assumes "queue_run True new_queue s" and "queue_run True s t" and "queue_run True t u"
    and "flush_passes None t" and "flush_passes (Some (current_loop t)) u"
    and "consuming t" and "consuming u"
  shows "\<exists>later. processed u = pushed s @ later"
proof -
  have inv: "queue_invariant s" "queue_invariant t" "queue_invariant u"
    using assms(1-3) queue_run_invariant new_queue_invariant by blast+
  have et: "b_empty (buffers t)" and eu: "b_empty (buffers u)"
    using assms(4-7) by (auto simp: flush_passes_def buffer_defs)
  obtain new where new: "pushed t = pushed s @ new" using pushed_grows_run [OF assms(2)] by blast
  have "flush_progress (pushed s) (current_loop t) t"
    using empty_foreground_processed [OF inv(2) et] et new unfolding flush_progress_def by blast
  then have fu: "flush_progress (pushed s) (current_loop t) u"
    using flush_progress_run assms(3) inv(2) by blast
  note pu = empty_foreground_processed [OF inv(3) eu]
  show ?thesis
  proof (cases "b_both_empty (buffers u)")
    case True
    then show ?thesis
      using pu fu by (auto simp: flush_progress_def buffer_defs)
  next
    case False
    then have "current_loop u \<noteq> current_loop t"
      using assms(5,7) by (auto simp: flush_passes_def)
    then show ?thesis using fu pu by (auto simp: flush_progress_def)
  qed
qed

theorem flush_consumes_witness:
  "let s = push (3::nat) new_queue; t = s; u = push 4 (consume_steps 0 3 t)
   in \<exists>later. processed u = pushed s @ later"
proof -
  let ?s = "push (3::nat) new_queue"
  let ?u = "push 4 (consume_steps 0 3 ?s)"
  have "queue_run True new_queue ?s" "queue_run True ?s ?s" "queue_run True ?s ?u"
    by (intro queue_script)+
  moreover have "flush_passes None ?s" "flush_passes (Some (current_loop ?s)) ?u" "consuming ?s"
    "consuming ?u"
    by (simp_all add: flush_passes_def queue_eval buffer_defs Let_def)
  ultimately have "\<exists>later. processed ?u = pushed ?s @ later"
    using flush_consumes [of ?s ?s ?u] by blast
  then show ?thesis unfolding Let_def .
qed

section \<open>Draining\<close>

text \<open>From any state in front of a sample, two steps per sample empty the foreground queue.\<close>

lemma consume_foreground:
  "foreground_queue (buffers s) = xs \<Longrightarrow> xs \<noteq> [] \<Longrightarrow> consumers s = [Processing] \<Longrightarrow>
     consume_steps 0 (2 * length xs) s =
       s\<lparr>buffers := (buffers s)\<lparr>foreground_queue := []\<rparr>, processed := processed s @ xs,
         current_loop := current_loop s + 1, consumers := [Waiting]\<rparr>"
proof (induction xs arbitrary: s)
  case Nil
  then show ?case by simp
next
  case (Cons x xs)
  show ?case
  proof (cases "xs = []")
    case True
    with Cons.prems show ?thesis
      by (simp add: queue_eval buffer_defs)
  next
    case False
    let ?s = "s\<lparr>processed := processed s @ [x], buffers := (buffers s)\<lparr>foreground_queue := xs\<rparr>,
      consumers := [Processing]\<rparr>"
    have "consume_steps 0 (2 * length (x # xs)) s = consume_steps 0 (2 * length xs) ?s"
      using Cons.prems False by (simp add: queue_eval buffer_defs)
    also have "\<dots> = ?s\<lparr>buffers := (buffers ?s)\<lparr>foreground_queue := []\<rparr>,
        processed := processed ?s @ xs, current_loop := current_loop ?s + 1, consumers := [Waiting]\<rparr>"
      using Cons.prems False by (intro Cons.IH) simp_all
    finally show ?thesis by (cases s) simp
  qed
qed

lemma consume_steps_add:
  "consume_steps i (m + n) s = consume_steps i n (consume_steps i m s)"
proof (induction m arbitrary: s)
  case 0
  then show ?case by simp
next
  case (Suc m)
  have blocked: "consume_steps i n s = s"
    if "i < length (consumers s) \<longrightarrow> consumer_step (consumers s ! i) s = None"
    using that by (cases n) auto
  show ?case using Suc blocked by (auto split: option.split)
qed

definition drained :: "'a dbqueue \<Rightarrow> bool" where
  "drained s \<longleftrightarrow> consumers s = [Waiting] \<and> b_both_empty (buffers s) \<and> consuming s"

lemma drained_stays: "drained s \<Longrightarrow> consume_steps 0 n s = s"
  by (cases n) (simp_all add: drained_def)

lemma drains_from_waiting:
  assumes "consumers s = [pc]" and "pc \<in> {Starting, Waiting}" and "b_empty (buffers s)"
    and "consuming s"
  shows "drained (consume_steps 0 (1 + 2 * length (background_queue (buffers s)) + k) s) \<and>
    processed (consume_steps 0 (1 + 2 * length (background_queue (buffers s)) + k) s) =
      processed s @ background_queue (buffers s)"
proof (cases "background_queue (buffers s) = []")
  case True
  let ?t = "consume_steps 0 1 s"
  have t: "drained ?t" "processed ?t = processed s"
    using assms True by (auto simp: drained_def queue_eval buffer_defs Let_def)
  show ?thesis
    unfolding True list.size mult_0_right add_0_right consume_steps_add drained_stays [OF t(1)]
    using t by simp
next
  case False
  let ?b = "background_queue (buffers s)"
  let ?t = "consume_steps 0 1 s"
  have t: "foreground_queue (buffers ?t) = ?b" "consumers ?t = [Processing]" "consuming ?t"
    "background_queue (buffers ?t) = []" "processed ?t = processed s"
    using assms False by (auto simp: queue_eval buffer_defs Let_def)
  have u: "drained (consume_steps 0 (2 * length ?b) ?t)"
    "processed (consume_steps 0 (2 * length ?b) ?t) = processed s @ ?b"
    using consume_foreground [OF t(1) False t(2)] t by (simp_all add: drained_def buffer_defs)
  show ?thesis
    unfolding consume_steps_add drained_stays [OF u(1)] using u by blast
qed

lemma drains_from_processing:
  assumes "consumers s = [Processing]" and "\<not> b_empty (buffers s)" and "consuming s"
  shows "drained (consume_steps 0 (2 * length (b_content (buffers s)) + 1 + k) s) \<and>
    processed (consume_steps 0 (2 * length (b_content (buffers s)) + 1 + k) s) =
      processed s @ b_content (buffers s)"
proof -
  let ?f = "foreground_queue (buffers s)" and ?b = "background_queue (buffers s)"
  let ?t = "consume_steps 0 (2 * length ?f) s"
  have ne: "?f \<noteq> []" using assms(2) by (simp add: b_empty_def)
  have t: "consumers ?t = [Waiting]" "b_empty (buffers ?t)" "consuming ?t"
    "background_queue (buffers ?t) = ?b" "processed ?t = processed s @ ?f"
    using consume_foreground [OF refl ne assms(1)] assms(3) by (simp_all add: b_empty_def)
  have e: "2 * length (b_content (buffers s)) + 1 + k = 2 * length ?f + (1 + 2 * length ?b + k)"
    by (simp add: b_content_def)
  show ?thesis
    unfolding e consume_steps_add [of 0 "2 * length ?f"]
    using drains_from_waiting [of ?t Waiting k] t by (simp add: b_content_def)
qed

text \<open>
  C7: a running consumer drains the queue: left alone in any reachable state, it has processed
  everything that was pushed after at most \<open>2 n + 2\<close> steps, for \<open>n\<close> samples in the two queues, and
  then waits with both queues empty.
\<close>

theorem consumer_drains:
  assumes "queue_run True new_queue s" and "consuming s"
  shows "let t = consume_steps 0 (2 * length (b_content (buffers s)) + 2) s
    in b_both_empty (buffers t) \<and> processed t = pushed s \<and> consumers t = [Waiting]"
proof -
  let ?n = "2 * length (b_content (buffers s)) + 2"
  have inv: "queue_invariant s" using queue_run_invariant [OF assms(1) new_queue_invariant] .
  then obtain pc where pc: "consumers s = [pc]" "pc_invariant pc s"
    using assms(2) by (auto simp: queue_invariant_def split: list.splits)
  have "drained (consume_steps 0 ?n s) \<and> processed (consume_steps 0 ?n s) = pushed s"
  proof (cases "b_empty (buffers s)")
    case True
    then have p: "pc \<in> {Starting, Waiting}" using pc by (cases pc) auto
    have "b_content (buffers s) = background_queue (buffers s)"
      using True by (simp add: buffer_defs)
    then show ?thesis
      using drains_from_waiting [OF pc(1) p True assms(2), of 1] empty_foreground_processed [OF inv True]
      by (simp add: add.commute)
  next
    case False
    then consider "pc = Processing" | "pc = Popping" using pc by (cases pc) auto
    then show ?thesis
    proof cases
      case 1
      then show ?thesis
        using drains_from_processing [of s 1] pc False assms(2) by simp
    next
      case 2
      obtain x f where f: "foreground_queue (buffers s) = x # f"
        using False by (auto simp: b_empty_def neq_Nil_conv)
      define t where "t = consume_steps 0 1 s"
      have t: "processed t = processed s" "b_content (buffers t) = tl (b_content (buffers s))"
        "consuming t" "consumers t = (if f = [] then [Waiting] else [Processing])"
        "foreground_queue (buffers t) = f"
        using pc 2 f assms(2) by (auto simp: t_def queue_eval buffer_defs)
      have n: "?n = 1 + (2 * length (b_content (buffers t)) + 1 + 2)"
        unfolding t using f by (simp add: b_content_def)
      have "drained (consume_steps 0 (2 * length (b_content (buffers t)) + 1 + 2) t) \<and>
          processed (consume_steps 0 (2 * length (b_content (buffers t)) + 1 + 2) t) =
            processed t @ b_content (buffers t)"
      proof (cases "f = []")
        case True
        then have c: "b_content (buffers t) = background_queue (buffers t)"
          using t by (simp add: b_content_def)
        have w: "consumers t = [Waiting]" "b_empty (buffers t)"
          using t True by (simp_all add: b_empty_def)
        show ?thesis
          unfolding c add.commute [of _ 1]
          by (rule drains_from_waiting [OF w(1) _ w(2) t(3)]) simp
      next
        case False
        then have w: "consumers t = [Processing]" "\<not> b_empty (buffers t)"
          using t by (simp_all add: b_empty_def)
        show ?thesis by (rule drains_from_processing [OF w t(3)])
      qed
      then show ?thesis
        using pc 2 unfolding n consume_steps_add t_def [symmetric] t(1,2) by simp
    qed
  qed
  then show ?thesis by (simp add: Let_def drained_def)
qed

theorem consumer_drains_witness:
  "let s = push 8 (consume_steps 0 2 (push 7 (push (3::nat) new_queue)));
       t = consume_steps 0 (2 * length (b_content (buffers s)) + 2) s
   in length (b_content (buffers s)) = 3 \<and> processed t = [3, 7, 8]"
proof -
  let ?s = "push 8 (consume_steps 0 2 (push 7 (push (3::nat) new_queue)))"
  have "queue_run True new_queue ?s" by (intro queue_script)
  moreover have "consuming ?s" "length (b_content (buffers ?s)) = 3" "pushed ?s = [3, 7, 8]"
    by (simp_all add: queue_eval buffer_defs Let_def)
  ultimately show ?thesis
    using consumer_drains [of ?s] unfolding Let_def by simp
qed

text \<open>
  Nothing in the code keeps a second thread from calling \<open>start_consumer\<close> while a first one is
  still joining the consumer it stopped. Then two threads consume: the second one's swap throws the
  unprocessed foreground queue away, and the first one reads an empty queue.
\<close>

theorem restart_before_join_loses_samples:
  "\<exists>s. queue_run False new_queue s \<and> pushed s = [1, 2, 3 :: nat] \<and> undefined_access s \<and>
     processed s = [] \<and> b_both_empty (buffers s) \<and> length (consumers s) = 2"
proof -
  let ?a = "consume_steps 0 1 (push 3 (push 2 (push (1::nat) new_queue)))"
  let ?s = "consume_steps 0 1 (consume_steps 1 1 (fst (start_consumer (fst (stop_consumer ?a)))))"
  have "queue_run False new_queue ?s"
    by (intro queue_script) simp
  moreover have "pushed ?s = [1, 2, 3] \<and> undefined_access ?s \<and> processed ?s = [] \<and>
      b_both_empty (buffers ?s) \<and> length (consumers ?s) = 2"
    by (simp add: queue_eval buffer_defs Let_def)
  ultimately show ?thesis by blast
qed

end
