(* ===== verification/Backend_Types.thy ===== *)
theory Backend_Types
  imports Prelude
begin

unbundle bit_operations_syntax

text \<open>
  The value types of \<open>include/fastdds_statistics_backend/types\<close>: entity identifiers, the
  enumerations, bit masks over them, time points and the IEEE doubles the samples carry. An
  \<open>int64_t\<close> identifier is an \<open>int\<close> whose arithmetic wraps where the code computes with it
  (\<open>wrap64\<close>); masks are \<open>32 word\<close> as in the code.
\<close>

section \<open>Entity identifiers\<close>

datatype EntityId = EntityId (entity_value: int)

definition ENTITY_ID_INVALID :: int where
  "ENTITY_ID_INVALID = -1"

definition ENTITY_ID_ALL :: int where
  "ENTITY_ID_ALL = -2"

definition invalid_id :: EntityId where
  "invalid_id = EntityId ENTITY_ID_INVALID"

definition all_id :: EntityId where
  "all_id = EntityId ENTITY_ID_ALL"

definition is_all :: "EntityId \<Rightarrow> bool" where
  "is_all e \<longleftrightarrow> entity_value e = ENTITY_ID_ALL"

definition is_valid :: "EntityId \<Rightarrow> bool" where
  "is_valid e \<longleftrightarrow> entity_value e \<ge> 0 \<or> is_all e"

definition is_valid_and_unique :: "EntityId \<Rightarrow> bool" where
  "is_valid_and_unique e \<longleftrightarrow> is_valid e \<and> \<not> is_all e"

text \<open>The comparison operators compare the internal values; they give the type its order.\<close>

definition entity_less :: "EntityId \<Rightarrow> EntityId \<Rightarrow> bool" where
  "entity_less a b \<longleftrightarrow> entity_value a < entity_value b"

definition entity_less_eq :: "EntityId \<Rightarrow> EntityId \<Rightarrow> bool" where
  "entity_less_eq a b \<longleftrightarrow> entity_value a \<le> entity_value b"

instantiation EntityId :: linorder
begin

definition less_eq_EntityId :: "EntityId \<Rightarrow> EntityId \<Rightarrow> bool" where
  "less_eq_EntityId = entity_less_eq"

definition less_EntityId :: "EntityId \<Rightarrow> EntityId \<Rightarrow> bool" where
  "less_EntityId = entity_less"

instance
  by standard (auto simp: less_eq_EntityId_def less_EntityId_def entity_less_def entity_less_eq_def
      EntityId.expand)

end

lemmas entity_order_simps = less_eq_EntityId_def less_EntityId_def entity_less_def entity_less_eq_def

lemma is_valid_and_unique_iff: "is_valid_and_unique e \<longleftrightarrow> 0 \<le> entity_value e"
  by (auto simp: is_valid_and_unique_def is_valid_def is_all_def ENTITY_ID_ALL_def)

lemma invalid_id_not_valid [simp]: "\<not> is_valid_and_unique invalid_id"
  by (simp add: is_valid_and_unique_iff invalid_id_def ENTITY_ID_INVALID_def)

lemma all_id_not_unique [simp]: "\<not> is_valid_and_unique all_id" "is_valid all_id"
  by (simp_all add: is_valid_and_unique_def is_valid_def is_all_def all_id_def)

section \<open>Enumerations\<close>

datatype EntityKind =
    INVALID_ENTITY | HOST | USER | PROCESS | DOMAIN | TOPIC | PARTICIPANT | DATAWRITER | DATAREADER
  | LOCATOR

datatype StatusLevel = OK_STATUS | WARNING_STATUS | ERROR_STATUS

datatype AppId =
    UNKNOWN_APP | DDS_MONITOR | DDS_ROUTER | SHAPES_DEMO | INTEGRATION_SERVICE
  | FASTDDS_VISUALIZER | FASTDDS_SPY | DDS_RECORDER | DDS_REPLAYER | AML_IP | SUSTAINML

datatype DdsVendor = UNKNOWN_VENDOR | FASTDDS | SAFEDDS

datatype DataKind =
    INVALID_DATA | FASTDDS_LATENCY | NETWORK_LATENCY | PUBLICATION_THROUGHPUT
  | SUBSCRIPTION_THROUGHPUT | RTPS_PACKETS_SENT | RTPS_BYTES_SENT | RTPS_PACKETS_LOST
  | RTPS_BYTES_LOST | RESENT_DATA | HEARTBEAT_COUNT | ACKNACK_COUNT | NACKFRAG_COUNT | GAP_COUNT
  | DATA_COUNT | PDP_PACKETS | EDP_PACKETS | DISCOVERY_TIME | SAMPLE_DATAS

datatype StatusKind =
    INVALID_STATUS | PROXY | CONNECTION_LIST | INCOMPATIBLE_QOS | INCONSISTENT_TOPIC
  | LIVELINESS_LOST | LIVELINESS_CHANGED | DEADLINE_MISSED | SAMPLE_LOST
  | EXTENDED_INCOMPATIBLE_QOS | STATUSES_SIZE

datatype DiscoverySource = UNKNOWN_SOURCE | DISCOVERY_SOURCE | PROXY_SOURCE | INFERRED_SOURCE

datatype DiscoveryStatus = DISCOVERY | UNDISCOVERY | UPDATE

section \<open>Bit masks\<close>

type_synonym mask = "32 word"

fun datakind_value :: "DataKind \<Rightarrow> mask" where
  "datakind_value INVALID_DATA = 0"
| "datakind_value FASTDDS_LATENCY = push_bit 0 1"
| "datakind_value NETWORK_LATENCY = push_bit 1 1"
| "datakind_value PUBLICATION_THROUGHPUT = push_bit 2 1"
| "datakind_value SUBSCRIPTION_THROUGHPUT = push_bit 3 1"
| "datakind_value RTPS_PACKETS_SENT = push_bit 4 1"
| "datakind_value RTPS_BYTES_SENT = push_bit 5 1"
| "datakind_value RTPS_PACKETS_LOST = push_bit 6 1"
| "datakind_value RTPS_BYTES_LOST = push_bit 7 1"
| "datakind_value RESENT_DATA = push_bit 8 1"
| "datakind_value HEARTBEAT_COUNT = push_bit 9 1"
| "datakind_value ACKNACK_COUNT = push_bit 10 1"
| "datakind_value NACKFRAG_COUNT = push_bit 11 1"
| "datakind_value GAP_COUNT = push_bit 12 1"
| "datakind_value DATA_COUNT = push_bit 13 1"
| "datakind_value PDP_PACKETS = push_bit 14 1"
| "datakind_value EDP_PACKETS = push_bit 15 1"
| "datakind_value DISCOVERY_TIME = push_bit 16 1"
| "datakind_value SAMPLE_DATAS = push_bit 17 1"

datatype CallbackKind =
    ON_TOPIC_DISCOVERY | ON_PARTICIPANT_DISCOVERY | ON_DATAWRITER_DISCOVERY
  | ON_DATAREADER_DISCOVERY | ON_HOST_DISCOVERY | ON_USER_DISCOVERY | ON_PROCESS_DISCOVERY
  | ON_LOCATOR_DISCOVERY | ON_DATA_AVAILABLE | ON_DOMAIN_VIEW_GRAPH_UPDATE | ON_STATUS_REPORTED
  | ON_ALERT_TRIGGERED | ON_ALERT_TIMEOUT

fun callback_value :: "CallbackKind \<Rightarrow> mask" where
  "callback_value ON_TOPIC_DISCOVERY = push_bit 0 1"
| "callback_value ON_PARTICIPANT_DISCOVERY = push_bit 1 1"
| "callback_value ON_DATAWRITER_DISCOVERY = push_bit 2 1"
| "callback_value ON_DATAREADER_DISCOVERY = push_bit 3 1"
| "callback_value ON_HOST_DISCOVERY = push_bit 4 1"
| "callback_value ON_USER_DISCOVERY = push_bit 5 1"
| "callback_value ON_PROCESS_DISCOVERY = push_bit 6 1"
| "callback_value ON_LOCATOR_DISCOVERY = push_bit 7 1"
| "callback_value ON_DATA_AVAILABLE = push_bit 8 1"
| "callback_value ON_DOMAIN_VIEW_GRAPH_UPDATE = push_bit 9 1"
| "callback_value ON_STATUS_REPORTED = push_bit 10 1"
| "callback_value ON_ALERT_TRIGGERED = push_bit 11 1"
| "callback_value ON_ALERT_TIMEOUT = push_bit 12 1"

definition bm_none :: mask where
  "bm_none = 0"

definition bm_all :: mask where
  "bm_all = -1"

definition bm_set :: "mask \<Rightarrow> mask \<Rightarrow> mask" where
  "bm_set m v = m OR v"

definition bm_clear :: "mask \<Rightarrow> mask \<Rightarrow> mask" where
  "bm_clear m v = m AND NOT v"

definition bm_is_set :: "mask \<Rightarrow> mask \<Rightarrow> bool" where
  "bm_is_set m v \<longleftrightarrow> m AND v = v"

definition bm_and :: "mask \<Rightarrow> mask \<Rightarrow> mask" where
  "bm_and m n = m AND n"

definition bm_or :: "mask \<Rightarrow> mask \<Rightarrow> mask" where
  "bm_or m n = m OR n"

definition bm_xor :: "mask \<Rightarrow> mask \<Rightarrow> mask" where
  "bm_xor m n = m XOR n"

definition bm_not :: "mask \<Rightarrow> mask" where
  "bm_not m = NOT m"

text \<open>
  Every \<open>DataKind\<close> other than \<open>INVALID\<close> and every \<open>CallbackKind\<close> is a bit of its own, so that
  \<open>set\<close> and \<open>clear\<close> of one kind leave the others as they are.
\<close>

definition single_bit :: "mask \<Rightarrow> nat \<Rightarrow> bool" where
  "single_bit v n \<longleftrightarrow> n < 32 \<and> v = push_bit n 1"

lemma bit_single: "single_bit v n \<Longrightarrow> bit v i \<longleftrightarrow> i = n"
  by (auto simp: single_bit_def bit_exp_iff)

lemma bm_is_set_single: "single_bit v n \<Longrightarrow> bm_is_set m v \<longleftrightarrow> bit m n"
  by (auto simp: bm_is_set_def bit_eq_iff [of "m AND v"] bit_simps bit_single)
    (auto simp: single_bit_def)

lemma bm_is_set_set_single:
  "single_bit v n \<Longrightarrow> single_bit w k \<Longrightarrow> bm_is_set (bm_set m v) w \<longleftrightarrow> n = k \<or> bm_is_set m w"
  by (auto simp: bm_is_set_single bm_set_def bit_simps bit_single)

lemma bm_is_set_clear_single:
  "single_bit v n \<Longrightarrow> single_bit w k \<Longrightarrow> bm_is_set (bm_clear m v) w \<longleftrightarrow> n \<noteq> k \<and> bm_is_set m w"
  by (auto simp: bm_is_set_single bm_clear_def bit_simps bit_single single_bit_def)

fun datakind_index :: "DataKind \<Rightarrow> nat" where
  "datakind_index INVALID_DATA = 18"
| "datakind_index FASTDDS_LATENCY = 0"
| "datakind_index NETWORK_LATENCY = 1"
| "datakind_index PUBLICATION_THROUGHPUT = 2"
| "datakind_index SUBSCRIPTION_THROUGHPUT = 3"
| "datakind_index RTPS_PACKETS_SENT = 4"
| "datakind_index RTPS_BYTES_SENT = 5"
| "datakind_index RTPS_PACKETS_LOST = 6"
| "datakind_index RTPS_BYTES_LOST = 7"
| "datakind_index RESENT_DATA = 8"
| "datakind_index HEARTBEAT_COUNT = 9"
| "datakind_index ACKNACK_COUNT = 10"
| "datakind_index NACKFRAG_COUNT = 11"
| "datakind_index GAP_COUNT = 12"
| "datakind_index DATA_COUNT = 13"
| "datakind_index PDP_PACKETS = 14"
| "datakind_index EDP_PACKETS = 15"
| "datakind_index DISCOVERY_TIME = 16"
| "datakind_index SAMPLE_DATAS = 17"

lemma datakind_index_inj: "datakind_index a = datakind_index b \<longleftrightarrow> a = b"
  by (cases a; cases b) simp_all

lemma datakind_single: "k \<noteq> INVALID_DATA \<Longrightarrow> single_bit (datakind_value k) (datakind_index k)"
  by (cases k) (simp_all add: single_bit_def)

text \<open>
  In a \<open>DataKindMask\<close>, setting a kind makes exactly that kind set in addition, clearing it
  makes exactly that kind unset, and the invalid kind (no bit at all) is set in every mask, which
  is why the listener code tests it separately.
\<close>

theorem datakind_mask_independent:
  assumes "a \<noteq> INVALID_DATA" and "b \<noteq> INVALID_DATA"
  shows "(bm_is_set (bm_set m (datakind_value a)) (datakind_value b) \<longleftrightarrow>
            a = b \<or> bm_is_set m (datakind_value b)) \<and>
         (bm_is_set (bm_clear m (datakind_value a)) (datakind_value b) \<longleftrightarrow>
            a \<noteq> b \<and> bm_is_set m (datakind_value b)) \<and>
         bm_is_set m (datakind_value INVALID_DATA)"
  using bm_is_set_set_single [OF datakind_single [OF assms(1)] datakind_single [OF assms(2)]]
    bm_is_set_clear_single [OF datakind_single [OF assms(1)] datakind_single [OF assms(2)]]
  by (simp add: datakind_index_inj) (simp add: bm_is_set_def)

theorem datakind_mask_independent_witness:
  "bm_is_set (bm_set bm_none (datakind_value DATA_COUNT)) (datakind_value DATA_COUNT) \<and>
   \<not> bm_is_set (bm_set bm_none (datakind_value DATA_COUNT)) (datakind_value GAP_COUNT)"
  using datakind_mask_independent [of DATA_COUNT DATA_COUNT bm_none]
    datakind_mask_independent [of DATA_COUNT GAP_COUNT bm_none]
  by (simp add: bm_is_set_def bm_none_def)

section \<open>Time points and doubles\<close>

text \<open>
  A \<open>system_clock::time_point\<close> is its count of clock ticks; the code only compares time points and
  subtracts them. \<open>the_end_of_time\<close> is \<open>time_point::max\<close>.
\<close>

type_synonym Timestamp = int

definition the_end_of_time :: Timestamp where
  "the_end_of_time = 2 ^ 63 - 1"

definition the_initial_time :: Timestamp where
  "the_initial_time = 0"

text \<open>
  A \<open>double\<close> is not-a-number, an infinity or a finite (dyadic) rational. Comparisons with
  not-a-number are false. \<open>u64_to_double\<close> is the conversion of an unsigned 64-bit integer: exact up
  to \<open>2^53\<close>, then to the nearest multiple of the unit in the last place, ties to even.
\<close>

datatype double = NaN | NegInf | Fin rat | PosInf

fun double_less :: "double \<Rightarrow> double \<Rightarrow> bool" where
  "double_less NaN y = False"
| "double_less x NaN = False"
| "double_less NegInf y = (y \<noteq> NegInf)"
| "double_less x NegInf = False"
| "double_less (Fin a) (Fin b) = (a < b)"
| "double_less (Fin a) PosInf = True"
| "double_less PosInf y = False"

fun double_eq :: "double \<Rightarrow> double \<Rightarrow> bool" where
  "double_eq NaN y = False"
| "double_eq x NaN = False"
| "double_eq x y = (x = y)"

lemma double_eq_iff: "double_eq x y \<longleftrightarrow> x = y \<and> x \<noteq> NaN"
  by (cases x; cases y) simp_all

lemma double_less_irrefl: "\<not> double_less x x"
  by (cases x) simp_all

lemma double_less_asym: "double_less x y \<Longrightarrow> \<not> double_less y x"
  by (cases x; cases y) simp_all

fun bit_length :: "nat \<Rightarrow> nat" where
  "bit_length n = (if n = 0 then 0 else Suc (bit_length (n div 2)))"

declare bit_length.simps [simp del]

definition u64_round :: "nat \<Rightarrow> nat" where
  "u64_round n =
     (if n < 2 ^ 53 then n
      else let e = bit_length n - 53; q = n div 2 ^ e; r = n mod 2 ^ e; half = 2 ^ (e - 1)
           in (if half < r \<or> half = r \<and> odd q then Suc q else q) * 2 ^ e)"

definition u64_to_double :: "64 word \<Rightarrow> double" where
  "u64_to_double w = Fin (of_nat (u64_round (unat w)))"

lemma u64_to_double_exact:
  "unat w < 2 ^ 53 \<Longrightarrow> u64_to_double w = Fin (of_nat (unat w))"
  by (simp add: u64_to_double_def u64_round_def)

end
