(* ===== verification/Samples.thy ===== *)
theory Samples
  imports Backend_Types
begin

text \<open>
  The statistics samples of \<open>database/samples.hpp\<close> and \<open>samples.cpp\<close>. The class hierarchy is the
  hierarchy of records: a derived sample extends its base, and storing it in a container of the
  base (object slicing) is the record's \<open>truncate\<close>. Counts are \<open>64 word\<close>, magnitude orders
  \<open>16 word\<close> read as two's complement.
\<close>

section \<open>The sample structures\<close>

record StatisticsSample =
  sample_kind :: DataKind
  src_ts :: Timestamp

record EntityDataSample = StatisticsSample +
  sample_data :: double

record EntityCountSample = StatisticsSample +
  sample_count :: "64 word"

record ByteCountSample = StatisticsSample +
  byte_count :: "64 word"
  magnitude_order :: "16 word"

record TimepointSample = StatisticsSample +
  sample_time :: Timestamp

record EntityToLocatorCountSample = EntityCountSample +
  count_remote_locator :: EntityId

record ByteToLocatorCountSample = ByteCountSample +
  byte_remote_locator :: EntityId

record HistoryLatencySample = EntityDataSample +
  latency_reader :: EntityId

record NetworkLatencySample = EntityDataSample +
  latency_remote_locator :: EntityId

record DiscoveryTimeSample = TimepointSample +
  remote_entity :: EntityId
  discovered :: bool

record SampleDatasCountSample = EntityCountSample +
  sequence_number :: "64 word"

text \<open>Value-initialised samples, as \<open>operator[]\<close> of a map or a member without initialiser gives.\<close>

definition default_count_sample :: EntityCountSample where
  "default_count_sample =
     \<lparr>sample_kind = INVALID_DATA, src_ts = the_initial_time, sample_count = 0\<rparr>"

definition default_byte_sample :: ByteCountSample where
  "default_byte_sample =
     \<lparr>sample_kind = INVALID_DATA, src_ts = the_initial_time, byte_count = 0, magnitude_order = 0\<rparr>"

section \<open>Clearing\<close>

definition clear_sample :: "'a StatisticsSample_scheme \<Rightarrow> 'a StatisticsSample_scheme" where
  "clear_sample s = s\<lparr>sample_kind := INVALID_DATA, src_ts := the_initial_time\<rparr>"

definition clear_data_sample :: "'a EntityDataSample_scheme \<Rightarrow> 'a EntityDataSample_scheme" where
  "clear_data_sample s = (clear_sample s)\<lparr>sample_data := Fin 0\<rparr>"

definition clear_count_sample :: "'a EntityCountSample_scheme \<Rightarrow> 'a EntityCountSample_scheme" where
  "clear_count_sample s = (clear_sample s)\<lparr>sample_count := 0\<rparr>"

definition clear_byte_sample :: "'a ByteCountSample_scheme \<Rightarrow> 'a ByteCountSample_scheme" where
  "clear_byte_sample s = (clear_sample s)\<lparr>byte_count := 0, magnitude_order := 0\<rparr>"

lemma clear_count_sample_default: "clear_count_sample s = default_count_sample"
  by (cases s) (simp add: clear_count_sample_def clear_sample_def default_count_sample_def)

lemma clear_byte_sample_default: "clear_byte_sample s = default_byte_sample"
  by (cases s) (simp add: clear_byte_sample_def clear_sample_def default_byte_sample_def)

section \<open>Comparison\<close>

definition sample_eq ::
  "'a StatisticsSample_scheme \<Rightarrow> 'b StatisticsSample_scheme \<Rightarrow> bool" where
  "sample_eq a b \<longleftrightarrow> sample_kind a = sample_kind b \<and> src_ts a = src_ts b"

definition data_sample_eq ::
  "'a EntityDataSample_scheme \<Rightarrow> 'b EntityDataSample_scheme \<Rightarrow> bool" where
  "data_sample_eq a b \<longleftrightarrow> sample_eq a b \<and> double_eq (sample_data a) (sample_data b)"

definition count_sample_eq ::
  "'a EntityCountSample_scheme \<Rightarrow> 'b EntityCountSample_scheme \<Rightarrow> bool" where
  "count_sample_eq a b \<longleftrightarrow> sample_eq a b \<and> sample_count a = sample_count b"

definition byte_sample_eq ::
  "'a ByteCountSample_scheme \<Rightarrow> 'b ByteCountSample_scheme \<Rightarrow> bool" where
  "byte_sample_eq a b \<longleftrightarrow>
     sample_eq a b \<and> byte_count a = byte_count b \<and> magnitude_order a = magnitude_order b"

definition timepoint_sample_eq ::
  "'a TimepointSample_scheme \<Rightarrow> 'b TimepointSample_scheme \<Rightarrow> bool" where
  "timepoint_sample_eq a b \<longleftrightarrow> sample_eq a b \<and> sample_time a = sample_time b"

definition count_locator_sample_eq ::
  "'a EntityToLocatorCountSample_scheme \<Rightarrow> 'b EntityToLocatorCountSample_scheme \<Rightarrow> bool" where
  "count_locator_sample_eq a b \<longleftrightarrow>
     count_sample_eq a b \<and> count_remote_locator a = count_remote_locator b"

definition byte_locator_sample_eq ::
  "'a ByteToLocatorCountSample_scheme \<Rightarrow> 'b ByteToLocatorCountSample_scheme \<Rightarrow> bool" where
  "byte_locator_sample_eq a b \<longleftrightarrow>
     byte_sample_eq a b \<and> byte_remote_locator a = byte_remote_locator b"

definition history_latency_eq ::
  "'a HistoryLatencySample_scheme \<Rightarrow> 'b HistoryLatencySample_scheme \<Rightarrow> bool" where
  "history_latency_eq a b \<longleftrightarrow> data_sample_eq a b \<and> latency_reader a = latency_reader b"

definition network_latency_eq ::
  "'a NetworkLatencySample_scheme \<Rightarrow> 'b NetworkLatencySample_scheme \<Rightarrow> bool" where
  "network_latency_eq a b \<longleftrightarrow>
     data_sample_eq a b \<and> latency_remote_locator a = latency_remote_locator b"

definition discovery_time_eq ::
  "'a DiscoveryTimeSample_scheme \<Rightarrow> 'b DiscoveryTimeSample_scheme \<Rightarrow> bool" where
  "discovery_time_eq a b \<longleftrightarrow>
     timepoint_sample_eq a b \<and> remote_entity a = remote_entity b \<and> discovered a = discovered b"

definition sample_datas_eq ::
  "'a SampleDatasCountSample_scheme \<Rightarrow> 'b SampleDatasCountSample_scheme \<Rightarrow> bool" where
  "sample_datas_eq a b \<longleftrightarrow> count_sample_eq a b \<and> sequence_number a = sequence_number b"

text \<open>
  On objects of exactly the compared class, the operators are equality of the objects, with the
  IEEE exception that a sample holding not-a-number differs from itself.
\<close>

lemmas sample_eq_defs = sample_eq_def data_sample_eq_def count_sample_eq_def byte_sample_eq_def
  timepoint_sample_eq_def count_locator_sample_eq_def byte_locator_sample_eq_def
  history_latency_eq_def network_latency_eq_def discovery_time_eq_def sample_datas_eq_def

lemma count_sample_eq_iff: "count_sample_eq (a :: EntityCountSample) b \<longleftrightarrow> a = b"
  by (cases a; cases b) (auto simp: sample_eq_defs)

lemma byte_sample_eq_iff: "byte_sample_eq (a :: ByteCountSample) b \<longleftrightarrow> a = b"
  by (cases a; cases b) (auto simp: sample_eq_defs)

lemma data_sample_eq_iff:
  "data_sample_eq (a :: EntityDataSample) b \<longleftrightarrow> a = b \<and> sample_data a \<noteq> NaN"
  by (cases a; cases b) (auto simp: sample_eq_defs double_eq_iff)

lemma discovery_time_eq_iff: "discovery_time_eq (a :: DiscoveryTimeSample) b \<longleftrightarrow> a = b"
  by (cases a; cases b) (auto simp: sample_eq_defs)

section \<open>Subtraction: the increment since the last report\<close>

definition count_minus ::
  "'a EntityCountSample_scheme \<Rightarrow> 'b EntityCountSample_scheme \<Rightarrow> EntityCountSample" where
  "count_minus a b =
     \<lparr>sample_kind = sample_kind a, src_ts = src_ts a,
      sample_count =
        (if sample_count b \<le> sample_count a then sample_count a - sample_count b else 0)\<rparr>"

definition byte_minus ::
  "'a ByteCountSample_scheme \<Rightarrow> 'b ByteCountSample_scheme \<Rightarrow> ByteCountSample result" where
  "byte_minus a b =
     (let c = byte_count a - byte_count b;
          m = magnitude_order a - magnitude_order b;
          m' = (if byte_count a < c then m - 1 else m)
      in if sint (magnitude_order a) < 0 \<and> 0 \<le> sint (magnitude_order b) \<and> 0 < sint m'
         then Inl (Unsupported
           ''The minimum possible representation is -2^15. The operation will yield a lower number'')
         else Inr \<lparr>sample_kind = sample_kind a, src_ts = src_ts a, byte_count = c,
                    magnitude_order = m'\<rparr>)"

lemma count_minus_fields [simp]:
  "sample_kind (count_minus a b) = sample_kind a"
  "src_ts (count_minus a b) = src_ts a"
  by (simp_all add: count_minus_def)

lemma unat_count_minus:
  "unat (sample_count (count_minus a b)) = unat (sample_count a) - unat (sample_count b)"
  by (simp add: count_minus_def unat_sub word_le_nat_alt)

text \<open>
  The number of bytes a \<open>ByteCountSample\<close> stands for: \<open>magnitude_order\<close> counts multiples of
  \<open>2^64\<close>.
\<close>

definition byte_value :: "'a ByteCountSample_scheme \<Rightarrow> int" where
  "byte_value s = uint (byte_count s) + sint (magnitude_order s) * 2 ^ 64"

definition byte_borrow :: "'a ByteCountSample_scheme \<Rightarrow> 'b ByteCountSample_scheme \<Rightarrow> int" where
  "byte_borrow a b = (if byte_count a < byte_count b then 1 else 0)"

text \<open>The exact magnitude order of the difference.\<close>

definition exact_magnitude :: "'a ByteCountSample_scheme \<Rightarrow> 'b ByteCountSample_scheme \<Rightarrow> int" where
  "exact_magnitude a b = sint (magnitude_order a) - sint (magnitude_order b) - byte_borrow a b"

lemma word_borrow_iff: "(x :: 64 word) < x - y \<longleftrightarrow> x < y"
  using uint_lt2p [of y] uint_ge_0 [of y]
  by (auto simp: word_less_def uint_sub_if')

definition wrap16 :: "int \<Rightarrow> int" where
  "wrap16 i = (i + 2 ^ 15) mod 2 ^ 16 - 2 ^ 15"

lemma sint_minus_wrap16: "sint ((x :: 16 word) - y) = wrap16 (sint x - sint y)"
  by (simp add: sint_word_ariths signed_take_bit_eq_take_bit_shift take_bit_eq_mod wrap16_def)

lemma sint_range16: "- (2 ^ 15) \<le> sint (x :: 16 word) \<and> sint x < 2 ^ 15"
  using sint_greater_eq [of x] sint_less [of x] by simp

lemma wrap16_minus_one: "wrap16 (wrap16 i - 1) = wrap16 (i - 1)"
  by (simp add: wrap16_def mod_simps)

lemma wrap16_idem: "wrap16 (wrap16 i) = wrap16 i"
  by (simp add: wrap16_def)

lemma wrap16_cases:
  assumes "- (2 ^ 16) \<le> i" and "i < 2 ^ 16"
  shows "wrap16 i =
    (if i < - (2 ^ 15) then i + 2 ^ 16 else if i < 2 ^ 15 then i else i - 2 ^ 16)"
proof -
  consider "i < - (2 ^ 15)" | "- (2 ^ 15) \<le> i" "i < 2 ^ 15" | "2 ^ 15 \<le> i" by linarith
  then show ?thesis
  proof cases
    case 1
    then have "(i + 2 ^ 15 + 2 ^ 16) mod 2 ^ 16 = i + 2 ^ 15 + 2 ^ 16"
      using assms(1) by (intro mod_pos_pos_trivial) simp_all
    moreover have "(i + 2 ^ 15 + 2 ^ 16) mod 2 ^ 16 = (i + 2 ^ 15) mod 2 ^ 16"
      by (rule mod_add_self2)
    ultimately show ?thesis using 1 by (simp add: wrap16_def)
  next
    case 2
    then show ?thesis by (simp add: wrap16_def)
  next
    case 3
    then have "(i + 2 ^ 15 - 2 ^ 16) mod 2 ^ 16 = i + 2 ^ 15 - 2 ^ 16"
      using assms(2) by (intro mod_pos_pos_trivial) simp_all
    then have "(i + 2 ^ 15) mod 2 ^ 16 = i + 2 ^ 15 - 2 ^ 16"
      by (metis minus_mod_self2)
    then show ?thesis using 3 by (simp add: wrap16_def)
  qed
qed

lemma exact_magnitude_bounds:
  "- (2 ^ 16) \<le> exact_magnitude a b" "exact_magnitude a b < 2 ^ 16"
  using sint_range16 [of "magnitude_order a"] sint_range16 [of "magnitude_order b"]
  by (auto simp: exact_magnitude_def byte_borrow_def)

text \<open>The 16-bit magnitude the operator computes is the exact one, wrapped around.\<close>

lemma byte_minus_eq:
  "byte_minus a b =
     (if sint (magnitude_order a) < 0 \<and> 0 \<le> sint (magnitude_order b) \<and>
         0 < wrap16 (exact_magnitude a b)
      then Inl (Unsupported
        ''The minimum possible representation is -2^15. The operation will yield a lower number'')
      else Inr \<lparr>sample_kind = sample_kind a, src_ts = src_ts a,
        byte_count = byte_count a - byte_count b,
        magnitude_order = magnitude_order a - magnitude_order b -
          (if byte_count a < byte_count b then 1 else 0)\<rparr>)"
  by (simp add: byte_minus_def word_borrow_iff exact_magnitude_def byte_borrow_def
      sint_minus_wrap16 wrap16_minus_one)

lemma uint_diff_borrow:
  "uint (byte_count a - byte_count b) = uint (byte_count a) - uint (byte_count b) +
     byte_borrow a b * 2 ^ 64"
  by (auto simp: uint_sub_if' byte_borrow_def word_less_def)

text \<open>
  C9: where the exact magnitude order of the difference fits 16 bits, the byte-count subtraction
  (wrap-around of the count, borrow into the magnitude order) does not throw and is exact
  subtraction of the numbers of bytes; kind and time stamp are those of the minuend.
\<close>

theorem byte_minus_exact:
  assumes "- (2 ^ 15) \<le> exact_magnitude a b" and "exact_magnitude a b < 2 ^ 15"
  shows "\<exists>r. byte_minus a b = Inr r \<and> byte_value r = byte_value a - byte_value b \<and>
    sample_kind r = sample_kind a \<and> src_ts r = src_ts a"
proof -
  have w: "wrap16 (exact_magnitude a b) = exact_magnitude a b"
    using assms by (simp add: wrap16_cases)
  have m: "sint (magnitude_order a - magnitude_order b -
      (if byte_count a < byte_count b then 1 else 0)) = exact_magnitude a b"
    using w by (simp add: sint_minus_wrap16 wrap16_minus_one wrap16_idem exact_magnitude_def
        byte_borrow_def split: if_splits)
  have n: "\<not> (sint (magnitude_order a) < 0 \<and> 0 \<le> sint (magnitude_order b) \<and>
      0 < exact_magnitude a b)"
    by (auto simp: exact_magnitude_def byte_borrow_def)
  let ?r = "\<lparr>sample_kind = sample_kind a, src_ts = src_ts a,
    byte_count = byte_count a - byte_count b,
    magnitude_order = magnitude_order a - magnitude_order b -
      (if byte_count a < byte_count b then 1 else 0)\<rparr>"
  have "byte_minus a b = Inr ?r"
    using n by (simp only: byte_minus_eq w) simp
  moreover have "byte_value ?r = byte_value a - byte_value b"
    unfolding byte_value_def ByteCountSample.simps StatisticsSample.simps m uint_diff_borrow
    by (simp add: exact_magnitude_def algebra_simps)
  ultimately show ?thesis by simp
qed

definition byte_sample_of :: "nat \<Rightarrow> int \<Rightarrow> ByteCountSample" where
  "byte_sample_of c m = \<lparr>sample_kind = RTPS_BYTES_SENT, src_ts = 1, byte_count = of_nat c,
     magnitude_order = word_of_int m\<rparr>"

theorem byte_minus_exact_witness:
  "\<exists>r. byte_minus (byte_sample_of 3 2) (byte_sample_of 5 1) = Inr r \<and>
     byte_value r = 2 ^ 64 - 2"
  using byte_minus_exact [of "byte_sample_of 3 2" "byte_sample_of 5 1"]
  by (auto simp: byte_sample_of_def exact_magnitude_def byte_borrow_def byte_value_def)

text \<open>
  The subtraction throws \<open>Unsupported\<close> exactly when the exact magnitude order lies below the
  16-bit range, except for the single value \<open>-2^16\<close>, whose wrap-around is 0 and passes the check.
\<close>

theorem byte_minus_throws_iff:
  "\<not> is_ok (byte_minus a b) \<longleftrightarrow>
     exact_magnitude a b < - (2 ^ 15) \<and> exact_magnitude a b \<noteq> - (2 ^ 16)"
proof -
  have s: "exact_magnitude a b < - (2 ^ 15) \<Longrightarrow>
      sint (magnitude_order a) < 0 \<and> 0 \<le> sint (magnitude_order b)"
    using sint_range16 [of "magnitude_order a"] sint_range16 [of "magnitude_order b"]
    by (auto simp: exact_magnitude_def byte_borrow_def split: if_splits)
  have w: "wrap16 (exact_magnitude a b) =
    (if exact_magnitude a b < - (2 ^ 15) then exact_magnitude a b + 2 ^ 16
     else if exact_magnitude a b < 2 ^ 15 then exact_magnitude a b
     else exact_magnitude a b - 2 ^ 16)"
    using exact_magnitude_bounds [of a b] by (rule wrap16_cases)
  have n: "sint (magnitude_order a) < 0 \<and> 0 \<le> sint (magnitude_order b) \<Longrightarrow>
      exact_magnitude a b < 0"
    by (auto simp: exact_magnitude_def byte_borrow_def)
  show ?thesis
    using s n exact_magnitude_bounds [of a b] by (auto simp: byte_minus_eq w)
qed

text \<open>
  The excepted value is reached, and there the operator returns a positive number of bytes for
  a difference that is negative.
\<close>

theorem byte_minus_undetected_underflow:
  "\<exists>r. byte_minus (byte_sample_of 0 (- (2 ^ 15))) (byte_sample_of 1 (2 ^ 15 - 1)) = Inr r \<and>
     0 < byte_value r \<and>
     byte_value (byte_sample_of 0 (- (2 ^ 15))) < byte_value (byte_sample_of 1 (2 ^ 15 - 1))"
  by (simp add: byte_minus_def byte_sample_of_def byte_value_def Let_def word_gt_0
      unsigned_minus_1_eq_mask mask_eq_exp_minus_1)

end
