(* ===== verification/Containers.thy ===== *)
theory Containers
  imports Samples
begin

text \<open>
  The sample containers of \<open>types/DataContainer.hpp\<close> and \<open>types/MapDataContainer.hpp\<close>. Both are
  templates over the sample type, of which they only read the time stamp; the model takes it as
  the function \<open>ts\<close>. The locale \<open>timed_store\<close> states what the database relies on (samples arrive
  in increasing time, old ones are cleared from the front) and derives the facts about windows.
\<close>

section \<open>DataContainer\<close>

definition dc_at :: "'a list \<Rightarrow> nat \<Rightarrow> 'a result" where
  "dc_at xs i =
     (if length xs \<le> i then Inl (OutOfRange ''Index out of range in DataContainer list.'')
      else Inr (xs ! i))"

text \<open>\<open>find_by_timestamp_\<close>: the position of the first sample that is not older, or the end.\<close>

fun dc_find :: "('a \<Rightarrow> Timestamp) \<Rightarrow> Timestamp \<Rightarrow> 'a list \<Rightarrow> nat" where
  "dc_find ts t [] = 0"
| "dc_find ts t (x # xs) = (if t \<le> ts x then 0 else Suc (dc_find ts t xs))"

definition dc_clear :: "('a \<Rightarrow> Timestamp) \<Rightarrow> Timestamp \<Rightarrow> 'a list \<Rightarrow> 'a list" where
  "dc_clear ts t xs = (if t = the_end_of_time then [] else drop (dc_find ts t xs) xs)"

definition dc_interval_limits ::
  "('a \<Rightarrow> Timestamp) \<Rightarrow> Timestamp \<Rightarrow> Timestamp \<Rightarrow> 'a list \<Rightarrow> nat \<times> nat" where
  "dc_interval_limits ts t_from t_to xs = (dc_find ts t_from xs, dc_find ts t_to xs)"

text \<open>The samples a loop from the first iterator to the second visits.\<close>

definition dc_interval ::
  "('a \<Rightarrow> Timestamp) \<Rightarrow> Timestamp \<Rightarrow> Timestamp \<Rightarrow> 'a list \<Rightarrow> 'a list" where
  "dc_interval ts t_from t_to xs =
     (let (i, j) = dc_interval_limits ts t_from t_to xs in drop i (take j xs))"

section \<open>MapDataContainer\<close>

fun mdc_clear_loop ::
  "('a \<Rightarrow> Timestamp) \<Rightarrow> Timestamp \<Rightarrow> ('k, 'a list) omap \<Rightarrow> ('k, 'a list) omap" where
  "mdc_clear_loop ts t [] = []"
| "mdc_clear_loop ts t ((k, xs) # m) =
     (let xs' = dc_clear ts t xs
      in if xs' = [] then mdc_clear_loop ts t m else (k, xs') # mdc_clear_loop ts t m)"

definition mdc_clear ::
  "('a \<Rightarrow> Timestamp) \<Rightarrow> Timestamp \<Rightarrow> ('k, 'a list) omap \<Rightarrow> ('k, 'a list) omap" where
  "mdc_clear ts t m = (if t = the_end_of_time then [] else mdc_clear_loop ts t m)"

section \<open>Strictly increasing time stamps\<close>

definition ts_sorted :: "('a \<Rightarrow> Timestamp) \<Rightarrow> 'a list \<Rightarrow> bool" where
  "ts_sorted ts xs \<longleftrightarrow> sorted_wrt (<) (map ts xs)"

lemma ts_sorted_simps [simp]:
  "ts_sorted ts []"
  "ts_sorted ts (x # xs) \<longleftrightarrow> (\<forall>y \<in> set xs. ts x < ts y) \<and> ts_sorted ts xs"
  by (simp_all add: ts_sorted_def)

lemma ts_sorted_append:
  "ts_sorted ts (xs @ ys) \<longleftrightarrow>
     ts_sorted ts xs \<and> ts_sorted ts ys \<and> (\<forall>x \<in> set xs. \<forall>y \<in> set ys. ts x < ts y)"
  by (auto simp: ts_sorted_def sorted_wrt_append)

lemma ts_sorted_last: "ts_sorted ts xs \<Longrightarrow> x \<in> set xs \<Longrightarrow> ts x \<le> ts (last xs)"
  by (induction xs) (auto intro: order.strict_implies_order)

lemma ts_sorted_filter: "ts_sorted ts xs \<Longrightarrow> ts_sorted ts (filter p xs)"
  by (induction xs) auto

lemma dc_find_drop_filter:
  "ts_sorted ts xs \<Longrightarrow> drop (dc_find ts t xs) xs = filter (\<lambda>x. t \<le> ts x) xs"
proof (induction xs)
  case Nil
  then show ?case by simp
next
  case (Cons x xs)
  have "t \<le> ts x \<Longrightarrow> filter (\<lambda>x. t \<le> ts x) xs = xs"
    using Cons.prems by (force simp: filter_id_conv)
  with Cons show ?case by auto
qed

lemma dc_find_take_filter:
  "ts_sorted ts xs \<Longrightarrow> take (dc_find ts t xs) xs = filter (\<lambda>x. ts x < t) xs"
proof (induction xs)
  case Nil
  then show ?case by simp
next
  case (Cons x xs)
  have "t \<le> ts x \<Longrightarrow> filter (\<lambda>x. ts x < t) xs = []"
    using Cons.prems by (force simp: filter_empty_conv)
  with Cons show ?case by auto
qed

lemma dc_find_mono: "t \<le> t' \<Longrightarrow> dc_find ts t xs \<le> dc_find ts t' xs"
  by (induction xs) auto

lemma dc_find_length: "dc_find ts t xs \<le> length xs"
  by (induction xs) auto

lemma dc_clear_sorted: "ts_sorted ts xs \<Longrightarrow> ts_sorted ts (dc_clear ts t xs)"
  by (simp add: dc_clear_def dc_find_drop_filter ts_sorted_filter)

lemma dc_clear_eq_filter:
  "ts_sorted ts xs \<Longrightarrow>
     dc_clear ts t xs = (if t = the_end_of_time then [] else filter (\<lambda>x. t \<le> ts x) xs)"
  by (simp add: dc_clear_def dc_find_drop_filter)

lemma mdc_clear_loop_eq:
  "mdc_clear_loop ts t m =
     filter (\<lambda>(k, xs). xs \<noteq> []) (map (\<lambda>(k, xs). (k, dc_clear ts t xs)) m)"
  by (induction ts t m rule: mdc_clear_loop.induct) (auto simp: Let_def)

lemma mdc_clear_wf: "om_wf m \<Longrightarrow> om_wf (mdc_clear ts t m)"
  using om_filter_wf [OF om_map_wf [of m "\<lambda>k. dc_clear ts t"]]
  by (simp add: mdc_clear_def mdc_clear_loop_eq)

lemma mdc_clear_find:
  "om_wf m \<Longrightarrow> t \<noteq> the_end_of_time \<Longrightarrow>
     om_find (mdc_clear ts t m) k =
       (case om_find m k of Some xs \<Rightarrow>
          (if dc_clear ts t xs = [] then None else Some (dc_clear ts t xs)) | None \<Rightarrow> None)"
  using om_find_filter [OF om_map_wf [of m "\<lambda>k. dc_clear ts t"], of "\<lambda>(k, xs). xs \<noteq> []" k]
  by (simp add: mdc_clear_def mdc_clear_loop_eq om_find_map split: option.splits)

section \<open>Accepting only newer samples\<close>

text \<open>
  The guard every insertion of the database starts with: a sample that is not newer than the last
  one stored is dropped.
\<close>

definition dc_is_old :: "('a \<Rightarrow> Timestamp) \<Rightarrow> Timestamp \<Rightarrow> 'a list \<Rightarrow> bool" where
  "dc_is_old ts t xs \<longleftrightarrow> xs \<noteq> [] \<and> t \<le> ts (last xs)"

definition dc_push_newer :: "('a \<Rightarrow> Timestamp) \<Rightarrow> 'a \<Rightarrow> 'a list \<Rightarrow> 'a list" where
  "dc_push_newer ts x xs = (if dc_is_old ts (ts x) xs then xs else xs @ [x])"

lemma dc_push_newer_sorted: "ts_sorted ts xs \<Longrightarrow> ts_sorted ts (dc_push_newer ts x xs)"
  using ts_sorted_last [of ts xs]
  by (fastforce simp: dc_push_newer_def dc_is_old_def ts_sorted_append)

text \<open>
  The contract of a store of time-stamped samples.
\<close>

locale timed_store =
  fixes ts :: "'x \<Rightarrow> Timestamp"
    and items :: "'s \<Rightarrow> 'x list"
    and push :: "'x \<Rightarrow> 's \<Rightarrow> 's"
    and clear :: "Timestamp \<Rightarrow> 's \<Rightarrow> 's"
    and wf :: "'s \<Rightarrow> bool"
  assumes wf_push: "wf s \<Longrightarrow> wf (push x s)"
    and wf_clear: "wf s \<Longrightarrow> wf (clear t s)"
    and wf_sorted: "wf s \<Longrightarrow> ts_sorted ts (items s)"
    and items_push: "wf s \<Longrightarrow>
      items (push x s) = (if \<exists>y \<in> set (items s). ts x \<le> ts y then items s else items s @ [x])"
    and items_clear: "wf s \<Longrightarrow> items (clear t s) =
      (if t = the_end_of_time then [] else filter (\<lambda>x. t \<le> ts x) (items s))"
begin

lemma push_all_wf: "wf s \<Longrightarrow> wf (fold push xs s)"
  by (induction xs arbitrary: s) (auto intro: wf_push)

lemma push_all_prefix: "wf s \<Longrightarrow> \<exists>ys. items (fold push xs s) = items s @ ys \<and> set ys \<subseteq> set xs"
proof (induction xs arbitrary: s)
  case Nil
  then show ?case by simp
next
  case (Cons x xs)
  from Cons.IH [OF wf_push [OF Cons.prems]]
  obtain ys where "items (fold push xs (push x s)) = items (push x s) @ ys" "set ys \<subseteq> set xs"
    by blast
  then show ?case
    by (auto simp: items_push [OF Cons.prems] split: if_splits)
qed

lemma push_all_increasing:
  assumes "wf s" and "ts_sorted ts (items s @ xs)"
  shows "items (fold push xs s) = items s @ xs"
  using assms
proof (induction xs arbitrary: s)
  case Nil
  then show ?case by simp
next
  case (Cons x xs)
  have "items (push x s) = items s @ [x]"
    using Cons.prems by (force simp: items_push ts_sorted_append)
  with Cons.IH [OF wf_push [OF Cons.prems(1)]] Cons.prems(2) show ?case by simp
qed

lemma clear_after_push:
  assumes "wf s" and "ts x < t" and "t \<noteq> the_end_of_time"
  shows "items (clear t (push x s)) = items (clear t s)"
  using assms by (simp add: items_clear wf_push items_push)

lemma push_newest:
  assumes "wf s" and "\<forall>y \<in> set (items s). ts y < ts x"
  shows "last (items (push x s)) = x"
  using assms by (auto simp: items_push not_le [symmetric])

end

lemma dc_is_old_iff: "ts_sorted ts xs \<Longrightarrow> dc_is_old ts t xs \<longleftrightarrow> (\<exists>y \<in> set xs. t \<le> ts y)"
  using ts_sorted_last [of ts xs] by (force simp: dc_is_old_def)

lemma dc_push_newer_eq:
  "ts_sorted ts xs \<Longrightarrow>
     dc_push_newer ts x xs = (if \<exists>y \<in> set xs. ts x \<le> ts y then xs else xs @ [x])"
  by (simp add: dc_push_newer_def dc_is_old_iff)

interpretation dc: timed_store ts "\<lambda>xs. xs" "dc_push_newer ts" "dc_clear ts" "ts_sorted ts"
  for ts :: "'a \<Rightarrow> Timestamp"
  by unfold_locales
    (fact dc_push_newer_sorted dc_clear_sorted dc_push_newer_eq dc_clear_eq_filter | assumption)+

text \<open>The list a map container keeps for one key.\<close>

definition mdc_wf :: "('a \<Rightarrow> Timestamp) \<Rightarrow> ('k::linorder, 'a list) omap \<Rightarrow> bool" where
  "mdc_wf ts m \<longleftrightarrow> om_wf m \<and> (\<forall>(k, xs) \<in> set m. xs \<noteq> [] \<and> ts_sorted ts xs)"

definition mdc_push_newer ::
  "('a \<Rightarrow> Timestamp) \<Rightarrow> 'k::linorder \<Rightarrow> 'a \<Rightarrow> ('k, 'a list) omap \<Rightarrow> ('k, 'a list) omap" where
  "mdc_push_newer ts k x m =
     (case om_find m k of
        Some xs \<Rightarrow> if dc_is_old ts (ts x) xs then m else om_put k (xs @ [x]) m
      | None \<Rightarrow> om_put k [x] m)"

lemma mdc_wf_om [simp]: "mdc_wf ts m \<Longrightarrow> om_wf m"
  by (simp add: mdc_wf_def)

lemma mdc_wf_find: "mdc_wf ts m \<Longrightarrow> om_find m k = Some xs \<Longrightarrow> xs \<noteq> [] \<and> ts_sorted ts xs"
  by (auto simp: mdc_wf_def dest: map_of_SomeD)

lemma mdc_wfI:
  "om_wf m \<Longrightarrow> (\<And>k xs. om_find m k = Some xs \<Longrightarrow> xs \<noteq> [] \<and> ts_sorted ts xs) \<Longrightarrow> mdc_wf ts m"
  by (fastforce simp: mdc_wf_def om_in_set_iff)

lemma mdc_get_sorted: "mdc_wf ts m \<Longrightarrow> ts_sorted ts (om_get [] k m)"
  by (auto simp: om_get_def dest: mdc_wf_find split: option.splits)

lemma mdc_push_get:
  assumes "mdc_wf ts m"
  shows "om_get [] k' (mdc_push_newer ts k x m) =
    (if k' = k then dc_push_newer ts x (om_get [] k m) else om_get [] k' m)"
  using assms
  by (auto simp: mdc_push_newer_def dc_push_newer_def om_get_def om_find_put dc_is_old_def
      split: option.splits)

lemma mdc_put_wf:
  "mdc_wf ts m \<Longrightarrow> xs \<noteq> [] \<Longrightarrow> ts_sorted ts xs \<Longrightarrow> mdc_wf ts (om_put k xs m)"
  by (rule mdc_wfI) (auto simp: om_put_wf om_find_put dest: mdc_wf_find split: if_splits)

lemma mdc_push_wf:
  assumes "mdc_wf ts m"
  shows "mdc_wf ts (mdc_push_newer ts k x m)"
proof (cases "om_find m k")
  case None
  then show ?thesis using assms by (simp add: mdc_push_newer_def mdc_put_wf)
next
  case (Some xs)
  then have "ts_sorted ts (dc_push_newer ts x xs)"
    using mdc_wf_find [OF assms] by (blast intro: dc_push_newer_sorted)
  with Some show ?thesis
    using assms by (auto simp: mdc_push_newer_def dc_push_newer_def intro: mdc_put_wf)
qed

lemma mdc_clear_mdc_wf: "mdc_wf ts m \<Longrightarrow> mdc_wf ts (mdc_clear ts t m)"
proof (cases "t = the_end_of_time")
  case True
  then show ?thesis by (simp add: mdc_clear_def mdc_wf_def)
next
  case False
  assume wf: "mdc_wf ts m"
  show ?thesis
    using wf False mdc_wf_find [OF wf]
    by (intro mdc_wfI)
      (auto simp: mdc_clear_wf mdc_clear_find dc_clear_sorted split: option.splits if_splits)
qed

lemma mdc_clear_get:
  assumes "mdc_wf ts m"
  shows "om_get [] k (mdc_clear ts t m) = dc_clear ts t (om_get [] k m)"
proof (cases "t = the_end_of_time")
  case True
  then show ?thesis by (simp add: mdc_clear_def dc_clear_def om_get_def)
next
  case False
  with assms show ?thesis
    by (auto simp: om_get_def mdc_clear_find dc_clear_def split: option.splits)
qed

interpretation mdc: timed_store ts "om_get [] k" "mdc_push_newer ts k" "mdc_clear ts" "mdc_wf ts"
  for ts :: "'a \<Rightarrow> Timestamp" and k :: "'k::linorder"
  by unfold_locales
    (fact mdc_push_wf mdc_clear_mdc_wf mdc_get_sorted |
      simp add: mdc_push_get mdc_clear_get dc_push_newer_eq dc_clear_eq_filter mdc_get_sorted)+

text \<open>
  Between the two iterators of \<open>get_interval_limits\<close> lie exactly the samples of the half-open
  interval, whatever the order of the limits.
\<close>

theorem dc_interval_eq_filter:
  assumes "ts_sorted ts xs"
  shows "dc_interval ts t_from t_to xs = filter (\<lambda>x. t_from \<le> ts x \<and> ts x < t_to) xs"
proof (cases "t_from \<le> t_to")
  case True
  have t: "ts_sorted ts (take (dc_find ts t_to xs) xs)"
    using ts_sorted_append [of ts "take (dc_find ts t_to xs) xs" "drop (dc_find ts t_to xs) xs"]
      assms by simp
  have f: "dc_find ts t_from (take (dc_find ts t_to ys) ys) = dc_find ts t_from ys" for ys
    using True by (induction ys) auto
  have "dc_interval ts t_from t_to xs = filter (\<lambda>x. t_from \<le> ts x) (take (dc_find ts t_to xs) xs)"
    using dc_find_drop_filter [OF t, of t_from]
    by (simp only: f dc_interval_def dc_interval_limits_def prod.case Let_def)
  then show ?thesis
    by (simp add: dc_find_take_filter [OF assms] conj_commute)
next
  case False
  then have "drop (dc_find ts t_from xs) (take (dc_find ts t_to xs) xs) = []"
    using dc_find_mono [of t_to t_from ts xs] by simp
  with False show ?thesis
    by (auto simp: dc_interval_def dc_interval_limits_def filter_empty_conv)
qed

theorem dc_interval_eq_filter_witness:
  "ts_sorted (\<lambda>x. x) [2, 5, 9 :: int] \<and> dc_interval (\<lambda>x. x) 3 9 [2, 5, 9 :: int] = [5]"
  using dc_interval_eq_filter [of "\<lambda>x. x" "[2, 5, 9 :: int]" 3 9] by simp

lemma push_all_covers:
  "ts_sorted ts s \<Longrightarrow> x \<in> set xs \<union> set s \<Longrightarrow>
     \<exists>y \<in> set (fold (dc_push_newer ts) xs s). ts x \<le> ts y"
proof (induction xs arbitrary: s)
  case Nil
  then show ?case by auto
next
  case (Cons a xs)
  have s': "ts_sorted ts (dc_push_newer ts a s)"
    using Cons.prems(1) by (rule dc_push_newer_sorted)
  show ?case
  proof (cases "x \<in> set xs")
    case True
    then show ?thesis
      using Cons.IH [OF s'] by simp
  next
    case False
    with Cons.prems(2) have "x = a \<or> x \<in> set s" by auto
    then have "\<exists>z \<in> set (dc_push_newer ts a s). ts x \<le> ts z"
      by (cases "\<exists>y \<in> set s. ts a \<le> ts y") (auto simp: dc_push_newer_eq [OF Cons.prems(1)])
    then obtain z where z: "z \<in> set (dc_push_newer ts a s)" "ts x \<le> ts z" by blast
    then have "z \<in> set (fold (dc_push_newer ts) xs (dc_push_newer ts a s))"
      using dc.push_all_prefix [OF s', of xs] by auto
    with z(2) show ?thesis by auto
  qed
qed

text \<open>
  Feeding any stream of samples to an initially empty container keeps it strictly increasing in
  time; nothing is invented; and every sample of the stream has in the end a stored sample at least
  as new, so the newest report is never lost.
\<close>

theorem dc_stream:
  "ts_sorted ts (fold (dc_push_newer ts) xs []) \<and>
   set (fold (dc_push_newer ts) xs []) \<subseteq> set xs \<and>
   (\<forall>x \<in> set xs. \<exists>y \<in> set (fold (dc_push_newer ts) xs []). ts x \<le> ts y)"
  using dc.push_all_wf [of ts "[]" xs] dc.push_all_prefix [of ts "[]" xs]
    push_all_covers [of ts "[]" _ xs]
  by auto

theorem dc_stream_witness:
  "\<exists>y \<in> set (fold (dc_push_newer (\<lambda>x :: int. x)) [3, 1, 7, 7] []). 7 \<le> y"
  using dc_stream [of "\<lambda>x :: int. x" "[3, 1, 7, 7]"] by simp

end
