(* ===== verification/StatData.thy ===== *)
theory StatData
  imports Containers
begin

text \<open>
  The per-entity collections of samples of \<open>database/data.hpp\<close> with the \<open>clear\<close> operations of
  \<open>data.cpp\<close>. A well-formedness predicate per structure says that every container is sorted by
  time stamp and that no map of containers holds an empty one.
\<close>

section \<open>The structures\<close>

record RTPSData =
  rtps_packets_sent :: "(EntityId, EntityCountSample list) omap"
  last_reported_rtps_packets_sent_count :: "(EntityId, EntityCountSample) omap"
  rtps_bytes_sent :: "(EntityId, ByteCountSample list) omap"
  last_reported_rtps_bytes_sent_count :: "(EntityId, ByteCountSample) omap"
  rtps_packets_lost :: "(EntityId, EntityCountSample list) omap"
  last_reported_rtps_packets_lost_count :: "(EntityId, EntityCountSample) omap"
  rtps_bytes_lost :: "(EntityId, ByteCountSample list) omap"
  last_reported_rtps_bytes_lost_count :: "(EntityId, ByteCountSample) omap"

record DomainParticipantStatisticsData = RTPSData +
  discovered_entity :: "(EntityId, DiscoveryTimeSample list) omap"
  pdp_packets :: "EntityCountSample list"
  last_reported_pdp_packets :: EntityCountSample
  edp_packets :: "EntityCountSample list"
  last_reported_edp_packets :: EntityCountSample
  network_latency_per_locator :: "(EntityId, EntityDataSample list) omap"

record DataReaderStatisticsData =
  subscription_throughput :: "EntityDataSample list"
  acknack_count :: "EntityCountSample list"
  last_reported_acknack_count :: EntityCountSample
  nackfrag_count :: "EntityCountSample list"
  last_reported_nackfrag_count :: EntityCountSample

record DataWriterStatisticsData =
  publication_throughput :: "EntityDataSample list"
  resent_datas :: "EntityCountSample list"
  last_reported_resent_datas :: EntityCountSample
  heartbeat_count :: "EntityCountSample list"
  last_reported_heartbeat_count :: EntityCountSample
  gap_count :: "EntityCountSample list"
  last_reported_gap_count :: EntityCountSample
  data_count :: "EntityCountSample list"
  last_reported_data_count :: EntityCountSample
  sample_datas :: "(64 word, EntityCountSample list) omap"
  history2history_latency :: "(EntityId, EntityDataSample list) omap"

definition empty_participant_data :: DomainParticipantStatisticsData where
  "empty_participant_data =
     \<lparr>rtps_packets_sent = [], last_reported_rtps_packets_sent_count = [],
      rtps_bytes_sent = [], last_reported_rtps_bytes_sent_count = [],
      rtps_packets_lost = [], last_reported_rtps_packets_lost_count = [],
      rtps_bytes_lost = [], last_reported_rtps_bytes_lost_count = [],
      discovered_entity = [], pdp_packets = [], last_reported_pdp_packets = default_count_sample,
      edp_packets = [], last_reported_edp_packets = default_count_sample,
      network_latency_per_locator = []\<rparr>"

definition empty_reader_data :: DataReaderStatisticsData where
  "empty_reader_data =
     \<lparr>subscription_throughput = [], acknack_count = [],
      last_reported_acknack_count = default_count_sample, nackfrag_count = [],
      last_reported_nackfrag_count = default_count_sample\<rparr>"

definition empty_writer_data :: DataWriterStatisticsData where
  "empty_writer_data =
     \<lparr>publication_throughput = [], resent_datas = [],
      last_reported_resent_datas = default_count_sample, heartbeat_count = [],
      last_reported_heartbeat_count = default_count_sample, gap_count = [],
      last_reported_gap_count = default_count_sample, data_count = [],
      last_reported_data_count = default_count_sample, sample_datas = [],
      history2history_latency = []\<rparr>"

section \<open>Clearing\<close>

definition clear_rtps_data ::
  "Timestamp \<Rightarrow> bool \<Rightarrow> 'a RTPSData_scheme \<Rightarrow> 'a RTPSData_scheme" where
  "clear_rtps_data t clear_last_reported d =
     (let d1 = d\<lparr>rtps_packets_sent := mdc_clear src_ts t (rtps_packets_sent d),
                 rtps_bytes_sent := mdc_clear src_ts t (rtps_bytes_sent d),
                 rtps_packets_lost := mdc_clear src_ts t (rtps_packets_lost d),
                 rtps_bytes_lost := mdc_clear src_ts t (rtps_bytes_lost d)\<rparr>
      in if clear_last_reported
         then d1\<lparr>last_reported_rtps_packets_sent_count := [],
                 last_reported_rtps_bytes_sent_count := [],
                 last_reported_rtps_packets_lost_count := [],
                 last_reported_rtps_bytes_lost_count := []\<rparr>
         else d1)"

definition clear_participant_data ::
  "Timestamp \<Rightarrow> bool \<Rightarrow> DomainParticipantStatisticsData \<Rightarrow> DomainParticipantStatisticsData" where
  "clear_participant_data t clear_last_reported d =
     (let d0 = clear_rtps_data t clear_last_reported d;
          d1 = d0\<lparr>discovered_entity := mdc_clear src_ts t (discovered_entity d0),
                  pdp_packets := dc_clear src_ts t (pdp_packets d0),
                  edp_packets := dc_clear src_ts t (edp_packets d0),
                  network_latency_per_locator :=
                    mdc_clear src_ts t (network_latency_per_locator d0)\<rparr>
      in if clear_last_reported
         then d1\<lparr>last_reported_pdp_packets := clear_count_sample (last_reported_pdp_packets d1),
                 last_reported_edp_packets := clear_count_sample (last_reported_edp_packets d1)\<rparr>
         else d1)"

definition clear_reader_data ::
  "Timestamp \<Rightarrow> bool \<Rightarrow> DataReaderStatisticsData \<Rightarrow> DataReaderStatisticsData" where
  "clear_reader_data t clear_last_reported d =
     (let d1 = d\<lparr>subscription_throughput := dc_clear src_ts t (subscription_throughput d),
                 acknack_count := dc_clear src_ts t (acknack_count d),
                 nackfrag_count := dc_clear src_ts t (nackfrag_count d)\<rparr>
      in if clear_last_reported
         then d1\<lparr>last_reported_acknack_count :=
                   clear_count_sample (last_reported_acknack_count d1),
                 last_reported_nackfrag_count :=
                   clear_count_sample (last_reported_nackfrag_count d1)\<rparr>
         else d1)"

definition clear_writer_data ::
  "Timestamp \<Rightarrow> bool \<Rightarrow> DataWriterStatisticsData \<Rightarrow> DataWriterStatisticsData" where
  "clear_writer_data t clear_last_reported d =
     (let d1 = d\<lparr>history2history_latency := mdc_clear src_ts t (history2history_latency d),
                 publication_throughput := dc_clear src_ts t (publication_throughput d),
                 resent_datas := dc_clear src_ts t (resent_datas d),
                 heartbeat_count := dc_clear src_ts t (heartbeat_count d),
                 gap_count := dc_clear src_ts t (gap_count d),
                 data_count := dc_clear src_ts t (data_count d),
                 sample_datas := mdc_clear src_ts t (sample_datas d)\<rparr>
      in if clear_last_reported
         then d1\<lparr>last_reported_resent_datas :=
                   clear_count_sample (last_reported_resent_datas d1),
                 last_reported_heartbeat_count :=
                   clear_count_sample (last_reported_heartbeat_count d1),
                 last_reported_gap_count := clear_count_sample (last_reported_gap_count d1),
                 last_reported_data_count := clear_count_sample (last_reported_data_count d1)\<rparr>
         else d1)"

text \<open>The overloads \<open>clear()\<close> of the base class \<open>Data\<close>: everything, up to the end of time.\<close>

definition clear_all_participant_data ::
  "DomainParticipantStatisticsData \<Rightarrow> DomainParticipantStatisticsData" where
  "clear_all_participant_data = clear_participant_data the_end_of_time True"

definition clear_all_reader_data :: "DataReaderStatisticsData \<Rightarrow> DataReaderStatisticsData" where
  "clear_all_reader_data = clear_reader_data the_end_of_time True"

definition clear_all_writer_data :: "DataWriterStatisticsData \<Rightarrow> DataWriterStatisticsData" where
  "clear_all_writer_data = clear_writer_data the_end_of_time True"

lemma dc_clear_end [simp]: "dc_clear ts the_end_of_time xs = []"
  by (simp add: dc_clear_def)

lemma mdc_clear_end [simp]: "mdc_clear ts the_end_of_time m = []"
  by (simp add: mdc_clear_def)

text \<open>
  The argument-less \<open>clear\<close> of the statistics of a participant, a reader and a writer gives the
  structure a freshly constructed entity has, so nothing of a previous life survives it.
\<close>

theorem clear_all_is_fresh:
  "clear_all_participant_data p = empty_participant_data \<and>
   clear_all_reader_data r = empty_reader_data \<and>
   clear_all_writer_data w = empty_writer_data"
  by (simp add: clear_all_participant_data_def clear_participant_data_def clear_rtps_data_def
      empty_participant_data_def clear_all_reader_data_def clear_reader_data_def
      empty_reader_data_def clear_all_writer_data_def clear_writer_data_def empty_writer_data_def
      clear_count_sample_default Let_def)

section \<open>Well-formedness\<close>

definition participant_data_wf :: "DomainParticipantStatisticsData \<Rightarrow> bool" where
  "participant_data_wf d \<longleftrightarrow>
     mdc_wf src_ts (rtps_packets_sent d) \<and> mdc_wf src_ts (rtps_bytes_sent d) \<and>
     mdc_wf src_ts (rtps_packets_lost d) \<and> mdc_wf src_ts (rtps_bytes_lost d) \<and>
     om_wf (last_reported_rtps_packets_sent_count d) \<and>
     om_wf (last_reported_rtps_bytes_sent_count d) \<and>
     om_wf (last_reported_rtps_packets_lost_count d) \<and>
     om_wf (last_reported_rtps_bytes_lost_count d) \<and>
     mdc_wf src_ts (discovered_entity d) \<and> mdc_wf src_ts (network_latency_per_locator d) \<and>
     ts_sorted src_ts (pdp_packets d) \<and> ts_sorted src_ts (edp_packets d)"

definition reader_data_wf :: "DataReaderStatisticsData \<Rightarrow> bool" where
  "reader_data_wf d \<longleftrightarrow>
     ts_sorted src_ts (subscription_throughput d) \<and> ts_sorted src_ts (acknack_count d) \<and>
     ts_sorted src_ts (nackfrag_count d)"

definition writer_data_wf :: "DataWriterStatisticsData \<Rightarrow> bool" where
  "writer_data_wf d \<longleftrightarrow>
     ts_sorted src_ts (publication_throughput d) \<and> ts_sorted src_ts (resent_datas d) \<and>
     ts_sorted src_ts (heartbeat_count d) \<and> ts_sorted src_ts (gap_count d) \<and>
     ts_sorted src_ts (data_count d) \<and> mdc_wf src_ts (sample_datas d) \<and>
     mdc_wf src_ts (history2history_latency d)"

lemmas data_wf_defs = participant_data_wf_def reader_data_wf_def writer_data_wf_def

lemma mdc_wf_Nil [simp]: "mdc_wf ts []"
  by (simp add: mdc_wf_def)

lemma empty_data_wf:
  "participant_data_wf empty_participant_data" "reader_data_wf empty_reader_data"
  "writer_data_wf empty_writer_data"
  by (simp_all add: data_wf_defs empty_participant_data_def empty_reader_data_def
      empty_writer_data_def)

lemma clear_participant_data_wf:
  "participant_data_wf d \<Longrightarrow> participant_data_wf (clear_participant_data t b d)"
  by (simp add: participant_data_wf_def clear_participant_data_def clear_rtps_data_def Let_def
      mdc_clear_mdc_wf dc_clear_sorted)

lemma clear_reader_data_wf: "reader_data_wf d \<Longrightarrow> reader_data_wf (clear_reader_data t b d)"
  by (simp add: reader_data_wf_def clear_reader_data_def Let_def dc_clear_sorted)

lemma clear_writer_data_wf: "writer_data_wf d \<Longrightarrow> writer_data_wf (clear_writer_data t b d)"
  by (simp add: writer_data_wf_def clear_writer_data_def Let_def dc_clear_sorted mdc_clear_mdc_wf)

text \<open>
  Clearing with \<open>clear_last_reported = false\<close> keeps what the next increment is computed from.
\<close>

lemma clear_participant_keeps_last_reported:
  "last_reported_rtps_packets_sent_count (clear_participant_data t False d) =
     last_reported_rtps_packets_sent_count d"
  "last_reported_pdp_packets (clear_participant_data t False d) = last_reported_pdp_packets d"
  by (simp_all add: clear_participant_data_def clear_rtps_data_def Let_def)

end
