(* ===== verification/MonitorData.thy ===== *)
theory MonitorData
  imports StatData
begin

text \<open>
  The data of the monitor service: the payload structures of the generated
  \<open>topic_types/monitorservice_types.hpp\<close> that the samples carry, the samples of \<open>types/types.hpp\<close>
  with their \<open>clear\<close> methods (\<open>types.cpp\<close>), and the structures of \<open>database/data.hpp\<close> that keep the
  samples of an entity.
\<close>

section \<open>Payloads\<close>

type_synonym octet = "8 word"

record GUID_s =
  guid_prefix :: "octet list"
  guid_entity :: "octet list"

record Locator_s =
  locator_kind :: "32 word"
  locator_port :: "32 word"
  locator_address :: "octet list"

datatype ConnectionMode = DATA_SHARING | INTRAPROCESS | TRANSPORT

record Connection =
  connection_mode :: ConnectionMode
  connection_guid :: GUID_s
  announced_locators :: "Locator_s list"
  used_locators :: "Locator_s list"

record QosPolicyCount_s =
  policy_id :: "32 word"
  policy_count :: "32 word"

record BaseStatus_s =
  total_count :: "32 word"

record IncompatibleQoSStatus_s =
  incompatible_total_count :: "32 word"
  last_policy_id :: "32 word"
  policies :: "QosPolicyCount_s list"

record LivelinessChangedStatus_s =
  alive_count :: "32 word"
  not_alive_count :: "32 word"
  last_publication_handle :: "octet list"

record DeadlineMissedStatus_s =
  deadline_total_count :: "32 word"
  last_instance_handle :: "octet list"

record ExtendedIncompatibleQoSStatus_s =
  remote_guid :: GUID_s
  current_incompatible_policies :: "32 word list"

section \<open>Samples\<close>

text \<open>
  Every class of sample adds one field to its base class \<open>MonitorServiceSample\<close>; its type is the
  parameter of the record.
\<close>

record 'p MonitorServiceSample =
  ms_kind :: StatusKind
  ms_status :: StatusLevel
  ms_ts :: Timestamp
  ms_value :: 'p

type_synonym ProxySample = "octet list MonitorServiceSample"
type_synonym ConnectionListSample = "Connection list MonitorServiceSample"
type_synonym IncompatibleQosSample = "IncompatibleQoSStatus_s MonitorServiceSample"
type_synonym InconsistentTopicSample = "BaseStatus_s MonitorServiceSample"
type_synonym LivelinessLostSample = "BaseStatus_s MonitorServiceSample"
type_synonym LivelinessChangedSample = "LivelinessChangedStatus_s MonitorServiceSample"
type_synonym DeadlineMissedSample = "DeadlineMissedStatus_s MonitorServiceSample"
type_synonym SampleLostSample = "BaseStatus_s MonitorServiceSample"
type_synonym ExtendedIncompatibleQosSample = "ExtendedIncompatibleQoSStatus_s list MonitorServiceSample"

text \<open>The constructors: the kind of the class, the status \<open>OK_STATUS\<close>, the epoch and an empty payload.\<close>

definition new_monitor_sample :: "StatusKind \<Rightarrow> 'p \<Rightarrow> 'p MonitorServiceSample" where
  "new_monitor_sample k v = \<lparr>ms_kind = k, ms_status = OK_STATUS, ms_ts = 0, ms_value = v\<rparr>"

definition no_base_status :: BaseStatus_s where
  "no_base_status = \<lparr>total_count = 0\<rparr>"

definition no_incompatible_qos :: IncompatibleQoSStatus_s where
  "no_incompatible_qos = \<lparr>incompatible_total_count = 0, last_policy_id = 0, policies = []\<rparr>"

definition no_liveliness_changed :: LivelinessChangedStatus_s where
  "no_liveliness_changed = \<lparr>alive_count = 0, not_alive_count = 0, last_publication_handle = replicate 16 0\<rparr>"

definition no_deadline_missed :: DeadlineMissedStatus_s where
  "no_deadline_missed = \<lparr>deadline_total_count = 0, last_instance_handle = replicate 16 0\<rparr>"

definition new_proxy_sample :: ProxySample where
  "new_proxy_sample = new_monitor_sample PROXY []"

definition new_connection_list_sample :: ConnectionListSample where
  "new_connection_list_sample = new_monitor_sample CONNECTION_LIST []"

definition new_incompatible_qos_sample :: IncompatibleQosSample where
  "new_incompatible_qos_sample = new_monitor_sample INCOMPATIBLE_QOS no_incompatible_qos"

definition new_inconsistent_topic_sample :: InconsistentTopicSample where
  "new_inconsistent_topic_sample = new_monitor_sample INCONSISTENT_TOPIC no_base_status"

definition new_liveliness_lost_sample :: LivelinessLostSample where
  "new_liveliness_lost_sample = new_monitor_sample LIVELINESS_LOST no_base_status"

definition new_liveliness_changed_sample :: LivelinessChangedSample where
  "new_liveliness_changed_sample = new_monitor_sample LIVELINESS_CHANGED no_liveliness_changed"

definition new_deadline_missed_sample :: DeadlineMissedSample where
  "new_deadline_missed_sample = new_monitor_sample DEADLINE_MISSED no_deadline_missed"

definition new_sample_lost_sample :: SampleLostSample where
  "new_sample_lost_sample = new_monitor_sample SAMPLE_LOST no_base_status"

definition new_extended_incompatible_qos_sample :: ExtendedIncompatibleQosSample where
  "new_extended_incompatible_qos_sample = new_monitor_sample EXTENDED_INCOMPATIBLE_QOS []"

text \<open>The \<open>clear\<close> methods: the one of the base class, then the payload.\<close>

definition clear_monitor_sample :: "'p MonitorServiceSample \<Rightarrow> 'p MonitorServiceSample" where
  "clear_monitor_sample s = s\<lparr>ms_kind := INVALID_STATUS, ms_status := ERROR_STATUS, ms_ts := 0\<rparr>"

definition clear_list_sample :: "'x list MonitorServiceSample \<Rightarrow> 'x list MonitorServiceSample" where
  "clear_list_sample s = (clear_monitor_sample s)\<lparr>ms_value := []\<rparr>"

definition clear_incompatible_qos_sample :: "IncompatibleQosSample \<Rightarrow> IncompatibleQosSample" where
  "clear_incompatible_qos_sample s = (clear_monitor_sample s)\<lparr>ms_value :=
     (ms_value s)\<lparr>incompatible_total_count := 0, last_policy_id := 0, policies := []\<rparr>\<rparr>"

definition clear_base_status_sample :: "BaseStatus_s MonitorServiceSample \<Rightarrow> BaseStatus_s MonitorServiceSample" where
  "clear_base_status_sample s = (clear_monitor_sample s)\<lparr>ms_value := (ms_value s)\<lparr>total_count := 0\<rparr>\<rparr>"

definition clear_liveliness_changed_sample :: "LivelinessChangedSample \<Rightarrow> LivelinessChangedSample" where
  "clear_liveliness_changed_sample s = (clear_monitor_sample s)\<lparr>ms_value :=
     (ms_value s)\<lparr>alive_count := 0, not_alive_count := 0, last_publication_handle := replicate 16 0\<rparr>\<rparr>"

definition clear_deadline_missed_sample :: "DeadlineMissedSample \<Rightarrow> DeadlineMissedSample" where
  "clear_deadline_missed_sample s = (clear_monitor_sample s)\<lparr>ms_value :=
     (ms_value s)\<lparr>deadline_total_count := 0, last_instance_handle := replicate 16 0\<rparr>\<rparr>"

section \<open>The data of an entity\<close>

record DomainParticipantMonitorServiceData =
  mp_proxy :: "ProxySample list"
  mp_connection_list :: "ConnectionListSample list"

record DataReaderMonitorServiceData =
  mr_proxy :: "ProxySample list"
  mr_connection_list :: "ConnectionListSample list"
  mr_incompatible_qos :: "IncompatibleQosSample list"
  mr_inconsistent_topic :: "InconsistentTopicSample list"
  mr_liveliness_changed :: "LivelinessChangedSample list"
  mr_deadline_missed :: "DeadlineMissedSample list"
  mr_sample_lost :: "SampleLostSample list"
  mr_extended_incompatible_qos :: "ExtendedIncompatibleQosSample list"

record DataWriterMonitorServiceData =
  mw_proxy :: "ProxySample list"
  mw_connection_list :: "ConnectionListSample list"
  mw_incompatible_qos :: "IncompatibleQosSample list"
  mw_inconsistent_topic :: "InconsistentTopicSample list"
  mw_liveliness_lost :: "LivelinessLostSample list"
  mw_deadline_missed :: "DeadlineMissedSample list"
  mw_extended_incompatible_qos :: "ExtendedIncompatibleQosSample list"

definition empty_participant_monitor :: DomainParticipantMonitorServiceData where
  "empty_participant_monitor = \<lparr>mp_proxy = [], mp_connection_list = []\<rparr>"

definition empty_reader_monitor :: DataReaderMonitorServiceData where
  "empty_reader_monitor =
     \<lparr>mr_proxy = [], mr_connection_list = [], mr_incompatible_qos = [], mr_inconsistent_topic = [],
      mr_liveliness_changed = [], mr_deadline_missed = [], mr_sample_lost = [],
      mr_extended_incompatible_qos = []\<rparr>"

definition empty_writer_monitor :: DataWriterMonitorServiceData where
  "empty_writer_monitor =
     \<lparr>mw_proxy = [], mw_connection_list = [], mw_incompatible_qos = [], mw_inconsistent_topic = [],
      mw_liveliness_lost = [], mw_deadline_missed = [], mw_extended_incompatible_qos = []\<rparr>"

text \<open>\<open>clear\<close> ignores whether the last reports are to be cleared.\<close>

definition clear_participant_monitor ::
  "Timestamp \<Rightarrow> bool \<Rightarrow> DomainParticipantMonitorServiceData \<Rightarrow> DomainParticipantMonitorServiceData" where
  "clear_participant_monitor t clear_last_reported d =
     d\<lparr>mp_proxy := dc_clear ms_ts t (mp_proxy d), mp_connection_list := dc_clear ms_ts t (mp_connection_list d)\<rparr>"

definition clear_reader_monitor ::
  "Timestamp \<Rightarrow> bool \<Rightarrow> DataReaderMonitorServiceData \<Rightarrow> DataReaderMonitorServiceData" where
  "clear_reader_monitor t clear_last_reported d =
     d\<lparr>mr_proxy := dc_clear ms_ts t (mr_proxy d), mr_connection_list := dc_clear ms_ts t (mr_connection_list d),
       mr_incompatible_qos := dc_clear ms_ts t (mr_incompatible_qos d),
       mr_liveliness_changed := dc_clear ms_ts t (mr_liveliness_changed d),
       mr_inconsistent_topic := dc_clear ms_ts t (mr_inconsistent_topic d),
       mr_deadline_missed := dc_clear ms_ts t (mr_deadline_missed d),
       mr_sample_lost := dc_clear ms_ts t (mr_sample_lost d),
       mr_extended_incompatible_qos := dc_clear ms_ts t (mr_extended_incompatible_qos d)\<rparr>"

definition clear_writer_monitor ::
  "Timestamp \<Rightarrow> bool \<Rightarrow> DataWriterMonitorServiceData \<Rightarrow> DataWriterMonitorServiceData" where
  "clear_writer_monitor t clear_last_reported d =
     d\<lparr>mw_proxy := dc_clear ms_ts t (mw_proxy d), mw_connection_list := dc_clear ms_ts t (mw_connection_list d),
       mw_incompatible_qos := dc_clear ms_ts t (mw_incompatible_qos d),
       mw_liveliness_lost := dc_clear ms_ts t (mw_liveliness_lost d),
       mw_inconsistent_topic := dc_clear ms_ts t (mw_inconsistent_topic d),
       mw_deadline_missed := dc_clear ms_ts t (mw_deadline_missed d),
       mw_extended_incompatible_qos := dc_clear ms_ts t (mw_extended_incompatible_qos d)\<rparr>"

section \<open>Order\<close>

text \<open>Every container is sorted by time.\<close>

definition participant_monitor_wf :: "DomainParticipantMonitorServiceData \<Rightarrow> bool" where
  "participant_monitor_wf d \<longleftrightarrow> ts_sorted ms_ts (mp_proxy d) \<and> ts_sorted ms_ts (mp_connection_list d)"

definition reader_monitor_wf :: "DataReaderMonitorServiceData \<Rightarrow> bool" where
  "reader_monitor_wf d \<longleftrightarrow>
     ts_sorted ms_ts (mr_proxy d) \<and> ts_sorted ms_ts (mr_connection_list d) \<and>
     ts_sorted ms_ts (mr_incompatible_qos d) \<and> ts_sorted ms_ts (mr_inconsistent_topic d) \<and>
     ts_sorted ms_ts (mr_liveliness_changed d) \<and> ts_sorted ms_ts (mr_deadline_missed d) \<and>
     ts_sorted ms_ts (mr_sample_lost d) \<and> ts_sorted ms_ts (mr_extended_incompatible_qos d)"

definition writer_monitor_wf :: "DataWriterMonitorServiceData \<Rightarrow> bool" where
  "writer_monitor_wf d \<longleftrightarrow>
     ts_sorted ms_ts (mw_proxy d) \<and> ts_sorted ms_ts (mw_connection_list d) \<and>
     ts_sorted ms_ts (mw_incompatible_qos d) \<and> ts_sorted ms_ts (mw_inconsistent_topic d) \<and>
     ts_sorted ms_ts (mw_liveliness_lost d) \<and> ts_sorted ms_ts (mw_deadline_missed d) \<and>
     ts_sorted ms_ts (mw_extended_incompatible_qos d)"

lemmas monitor_wf_defs = participant_monitor_wf_def reader_monitor_wf_def writer_monitor_wf_def

lemma empty_monitor_wf [simp]:
  "participant_monitor_wf empty_participant_monitor" "reader_monitor_wf empty_reader_monitor"
  "writer_monitor_wf empty_writer_monitor"
  by (simp_all add: monitor_wf_defs empty_participant_monitor_def empty_reader_monitor_def empty_writer_monitor_def)

lemma clear_monitor_wf:
  "participant_monitor_wf p \<Longrightarrow> participant_monitor_wf (clear_participant_monitor t b p)"
  "reader_monitor_wf r \<Longrightarrow> reader_monitor_wf (clear_reader_monitor t b r)"
  "writer_monitor_wf w \<Longrightarrow> writer_monitor_wf (clear_writer_monitor t b w)"
  by (simp_all add: monitor_wf_defs clear_participant_monitor_def clear_reader_monitor_def clear_writer_monitor_def
      dc_clear_sorted)

end
