(* ===== verification/Entities.thy ===== *)
theory Entities
  imports MonitorData
begin

text \<open>
  The entities of \<open>database/entities.hpp\<close> and \<open>entities.cpp\<close>: one record per class, a subclass as
  an extension of the record of its base class, the constructors, the \<open>clear\<close> methods and the three
  pure helper functions. An object is referred to by its address; \<open>details::fragile_ptr\<close>, a weak
  pointer, is an address option. The quality-of-service document (\<open>nlohmann::json\<close>, not part of
  the repository) is the type parameter \<open>'q\<close>.
\<close>

type_synonym addr = nat
type_synonym collection = "(EntityId, addr) omap"

section \<open>The classes\<close>

record Entity =
  e_id :: EntityId
  e_kind :: EntityKind
  e_name :: string
  e_alias :: string
  metatraffic :: bool
  active :: bool
  e_status :: StatusLevel
  e_discovery_source :: DiscoverySource

record Host = Entity +
  h_users :: collection

record User = Entity +
  u_host :: "addr option"
  u_processes :: collection

record Process = Entity +
  pid :: string
  p_user :: "addr option"
  p_participants :: collection

record Domain = Entity +
  d_topics :: collection
  d_participants :: collection
  d_domain_id :: "32 word"

record 'q DDSEntity = Entity +
  qos :: 'q
  guid :: string
  app_id :: AppId
  app_metadata :: string
  dds_vendor :: DdsVendor

record 'q DDSEndpoint = "'q DDSEntity" +
  ep_participant :: "addr option"
  ep_topic :: "addr option"
  is_virtual_metatraffic :: bool
  ep_locators :: collection
  ep_original_domain :: "32 word"

record 'q DataReader = "'q DDSEndpoint" +
  dr_data :: DataReaderStatisticsData
  dr_monitor :: DataReaderMonitorServiceData

record 'q DataWriter = "'q DDSEndpoint" +
  dw_data :: DataWriterStatisticsData
  dw_monitor :: DataWriterMonitorServiceData

text \<open>\<open>fragile_ptr<DDSEndpoint>\<close>: the endpoint is a reader or a writer.\<close>

datatype endpoint_ref = ReaderRef addr | WriterRef addr

record 'q DomainParticipant = "'q DDSEntity" +
  dp_process :: "addr option"
  dp_domain :: "addr option"
  meta_traffic_endpoint :: "endpoint_ref option"
  dp_data_readers :: collection
  dp_data_writers :: collection
  dp_data :: DomainParticipantStatisticsData
  dp_monitor :: DomainParticipantMonitorServiceData
  dp_original_domain :: "32 word"

record Topic = Entity +
  data_type :: string
  t_domain :: "addr option"
  t_data_readers :: collection
  t_data_writers :: collection

record Locator = Entity +
  l_data_readers :: collection
  l_data_writers :: collection

definition UNKNOWN_DOMAIN_ID :: "32 word" where
  "UNKNOWN_DOMAIN_ID = 233"

section \<open>The helper functions\<close>

text \<open>\<open>std::regex_replace\<close> of \<open>[^ -~]\<close> by nothing keeps the printable ASCII characters.\<close>

definition printable :: "char \<Rightarrow> bool" where
  "printable c \<longleftrightarrow> 32 \<le> (of_char c :: nat) \<and> (of_char c :: nat) \<le> 126"

definition normalize_entity_name :: "string \<Rightarrow> string" where
  "normalize_entity_name s = filter printable s"

fun contains_at_start :: "string \<Rightarrow> string \<Rightarrow> bool" where
  "contains_at_start [] s = True"
| "contains_at_start (k # ks) [] = False"
| "contains_at_start (k # ks) (c # cs) = (k = c \<and> contains_at_start ks cs)"

fun str_contains :: "string \<Rightarrow> string \<Rightarrow> bool" where
  "str_contains k [] = (k = [])"
| "str_contains k (c # cs) = (contains_at_start k (c # cs) \<or> str_contains k cs)"

definition metatraffic_topics_keywords :: "string list" where
  "metatraffic_topics_keywords =
     [''___EPROSIMA___METATRAFFIC___'', ''ros_discovery_info'', ''rosout'', ''parameter_events'',
      ''get_parameters'', ''set_parameters'', ''get_parameter_types'',
      ''set_parameters_atomically'', ''describe_parameters'', ''list_parameters'',
      ''get_type_description'', ''_fastdds_statistics_'', ''_fastdds_monitor_service_'']"

definition is_metatraffic_topic :: "string \<Rightarrow> bool" where
  "is_metatraffic_topic topic_name \<longleftrightarrow>
     list_ex (\<lambda>k. str_contains k topic_name) metatraffic_topics_keywords"

definition dds_vendor_by_guid :: "string \<Rightarrow> DdsVendor" where
  "dds_vendor_by_guid g =
     (let prefix = take 5 g
      in if prefix = ''01.0f'' then FASTDDS
         else if prefix = ''01.15'' then SAFEDDS
         else UNKNOWN_VENDOR)"

lemma normalize_idem [simp]: "normalize_entity_name (normalize_entity_name s) = normalize_entity_name s"
  by (simp add: normalize_entity_name_def)

lemma normalize_id_iff: "normalize_entity_name s = s \<longleftrightarrow> list_all printable s"
  by (simp add: normalize_entity_name_def filter_id_conv list_all_iff)

lemma contains_at_start_iff: "contains_at_start k s \<longleftrightarrow> (\<exists>b. s = k @ b)"
  by (induction k s rule: contains_at_start.induct) auto

lemma str_contains_iff: "str_contains k s \<longleftrightarrow> (\<exists>a b. s = a @ k @ b)"
proof (induction s)
  case Nil
  then show ?case by auto
next
  case (Cons c s)
  have "(\<exists>a b. c # s = a @ k @ b) \<longleftrightarrow> (\<exists>b. c # s = k @ b) \<or> (\<exists>a b. s = a @ k @ b)"
  proof
    assume "\<exists>a b. c # s = a @ k @ b"
    then obtain a b where ab: "c # s = a @ k @ b" by blast
    show "(\<exists>b. c # s = k @ b) \<or> (\<exists>a b. s = a @ k @ b)"
      using ab by (cases a) auto
  next
    assume "(\<exists>b. c # s = k @ b) \<or> (\<exists>a b. s = a @ k @ b)"
    then show "\<exists>a b. c # s = a @ k @ b"
      by (metis append_Cons append_Nil)
  qed
  with Cons show ?case by (simp add: contains_at_start_iff)
qed

section \<open>Constructors\<close>

definition new_entity ::
  "EntityKind \<Rightarrow> string \<Rightarrow> bool \<Rightarrow> bool \<Rightarrow> StatusLevel \<Rightarrow> DiscoverySource \<Rightarrow> Entity" where
  "new_entity k n m a st src =
     \<lparr>e_id = invalid_id, e_kind = k, e_name = normalize_entity_name n,
      e_alias = normalize_entity_name n, metatraffic = m, active = a, e_status = st,
      e_discovery_source = src\<rparr>"

definition new_host :: "string \<Rightarrow> StatusLevel \<Rightarrow> Host" where
  "new_host n st =
     Entity.extend (new_entity HOST n False False st UNKNOWN_SOURCE) (Host.fields [])"

definition new_user :: "string \<Rightarrow> addr option \<Rightarrow> StatusLevel \<Rightarrow> User" where
  "new_user n h st =
     Entity.extend (new_entity USER n False False st UNKNOWN_SOURCE) (User.fields h [])"

definition new_process :: "string \<Rightarrow> string \<Rightarrow> addr option \<Rightarrow> StatusLevel \<Rightarrow> Process" where
  "new_process n i u st =
     Entity.extend (new_entity PROCESS n False False st UNKNOWN_SOURCE) (Process.fields i u [])"

definition new_domain :: "string \<Rightarrow> 32 word \<Rightarrow> StatusLevel \<Rightarrow> Domain" where
  "new_domain n i st =
     Entity.extend (new_entity DOMAIN n False True st UNKNOWN_SOURCE) (Domain.fields [] [] i)"

definition new_topic :: "string \<Rightarrow> string \<Rightarrow> addr option \<Rightarrow> StatusLevel \<Rightarrow> Topic" where
  "new_topic n ty d st =
     Entity.extend (new_entity TOPIC n (is_metatraffic_topic n) True st UNKNOWN_SOURCE)
       (Topic.fields ty d [] [])"

definition new_locator :: "string \<Rightarrow> Locator" where
  "new_locator n =
     Entity.extend (new_entity LOCATOR n False True OK_STATUS UNKNOWN_SOURCE) (Locator.fields [] [])"

definition new_dds_entity ::
  "EntityKind \<Rightarrow> string \<Rightarrow> 'q \<Rightarrow> string \<Rightarrow> StatusLevel \<Rightarrow> AppId \<Rightarrow> string \<Rightarrow> DiscoverySource \<Rightarrow>
   'q DDSEntity" where
  "new_dds_entity k n q g st app meta src =
     Entity.extend (new_entity k n False True st src)
       (DDSEntity.fields q g app meta (dds_vendor_by_guid g))"

definition new_participant ::
  "string \<Rightarrow> 'q \<Rightarrow> string \<Rightarrow> addr option \<Rightarrow> addr option \<Rightarrow> StatusLevel \<Rightarrow> AppId \<Rightarrow> string \<Rightarrow>
   DiscoverySource \<Rightarrow> 32 word \<Rightarrow> 'q DomainParticipant" where
  "new_participant n q g p d st app meta src orig =
     DDSEntity.extend (new_dds_entity PARTICIPANT n q g st app meta src)
       (DomainParticipant.fields p d None [] [] empty_participant_data empty_participant_monitor orig)"

text \<open>
  The endpoint constructor takes the meta-traffic flag of its topic, when there is one
  (\<open>topic_flag\<close> is \<open>None\<close> for a null topic).
\<close>

definition new_endpoint ::
  "EntityKind \<Rightarrow> string \<Rightarrow> 'q \<Rightarrow> string \<Rightarrow> addr option \<Rightarrow> addr option \<Rightarrow> bool option \<Rightarrow> StatusLevel \<Rightarrow>
   AppId \<Rightarrow> string \<Rightarrow> DiscoverySource \<Rightarrow> 32 word \<Rightarrow> 'q DDSEndpoint" where
  "new_endpoint k n q g p t topic_flag st app meta src orig =
     (let e = DDSEntity.extend (new_dds_entity k n q g st app meta src)
            (DDSEndpoint.fields p t False [] orig)
      in case topic_flag of Some m \<Rightarrow> e\<lparr>metatraffic := m\<rparr> | None \<Rightarrow> e)"

definition new_datareader ::
  "string \<Rightarrow> 'q \<Rightarrow> string \<Rightarrow> addr option \<Rightarrow> addr option \<Rightarrow> bool option \<Rightarrow> StatusLevel \<Rightarrow>
   AppId \<Rightarrow> string \<Rightarrow> DiscoverySource \<Rightarrow> 32 word \<Rightarrow> 'q DataReader" where
  "new_datareader n q g p t tf st app meta src orig =
     DDSEndpoint.extend (new_endpoint DATAREADER n q g p t tf st app meta src orig)
       (DataReader.fields empty_reader_data empty_reader_monitor)"

definition new_datawriter ::
  "string \<Rightarrow> 'q \<Rightarrow> string \<Rightarrow> addr option \<Rightarrow> addr option \<Rightarrow> bool option \<Rightarrow> StatusLevel \<Rightarrow>
   AppId \<Rightarrow> string \<Rightarrow> DiscoverySource \<Rightarrow> 32 word \<Rightarrow> 'q DataWriter" where
  "new_datawriter n q g p t tf st app meta src orig =
     DDSEndpoint.extend (new_endpoint DATAWRITER n q g p t tf st app meta src orig)
       (DataWriter.fields empty_writer_data empty_writer_monitor)"

lemmas entity_constructor_defs = new_entity_def new_host_def new_user_def new_process_def
  new_domain_def new_topic_def new_locator_def new_dds_entity_def new_participant_def
  Entity.defs Host.defs User.defs Process.defs Domain.defs Topic.defs Locator.defs DDSEntity.defs
  DDSEndpoint.defs DomainParticipant.defs DataReader.defs DataWriter.defs

lemmas endpoint_constructor_defs = new_datareader_def new_datawriter_def new_endpoint_def Let_def

section \<open>The clear methods\<close>

definition clear_host :: "Host \<Rightarrow> Host" where
  "clear_host h = h\<lparr>h_users := []\<rparr>"

definition clear_user :: "User \<Rightarrow> User" where
  "clear_user u = u\<lparr>u_processes := []\<rparr>"

definition clear_process :: "Process \<Rightarrow> Process" where
  "clear_process p = p\<lparr>p_participants := []\<rparr>"

definition clear_domain :: "Domain \<Rightarrow> Domain" where
  "clear_domain d = d\<lparr>d_topics := [], d_participants := []\<rparr>"

definition clear_participant :: "'q DomainParticipant \<Rightarrow> 'q DomainParticipant" where
  "clear_participant p =
     p\<lparr>dp_data_readers := [], dp_data_writers := [], dp_data := clear_all_participant_data (dp_data p)\<rparr>"

definition clear_topic :: "Topic \<Rightarrow> Topic" where
  "clear_topic t = t\<lparr>t_data_readers := [], t_data_writers := []\<rparr>"

definition clear_datareader :: "'q DataReader \<Rightarrow> 'q DataReader" where
  "clear_datareader r = r\<lparr>dr_data := clear_all_reader_data (dr_data r)\<rparr>"

definition clear_datawriter :: "'q DataWriter \<Rightarrow> 'q DataWriter" where
  "clear_datawriter w = w\<lparr>dw_data := clear_all_writer_data (dw_data w)\<rparr>"

definition clear_locator :: "Locator \<Rightarrow> Locator" where
  "clear_locator l = l\<lparr>l_data_readers := [], l_data_writers := []\<rparr>"

lemma clear_new_entities [simp]:
  "clear_host (new_host n st) = new_host n st"
  "clear_user (new_user n h st) = new_user n h st"
  "clear_process (new_process n i u st) = new_process n i u st"
  "clear_domain (new_domain n i' st) = new_domain n i' st"
  "clear_topic (new_topic n ty h st) = new_topic n ty h st"
  "clear_locator (new_locator n) = new_locator n"
  by (simp_all add: entity_constructor_defs clear_host_def clear_user_def clear_process_def
      clear_domain_def clear_topic_def clear_locator_def)

end
