(* ===== verification/Alerts.thy ===== *)
theory Alerts
  imports Backend_Types
begin

text \<open>
  Alerts and notifiers: \<open>types/Alerts.hpp\<close>, \<open>types/Notifiers.hpp\<close> and the alert collection of the
  database (\<open>database.cpp\<close>: \<open>get_alert\<close>, \<open>insert_alert\<close>, \<open>remove_alert\<close>, the trigger loop and
  \<open>check_alerts_timeouts\<close>). Readings of \<open>system_clock::now()\<close> are arguments, in the order the code
  takes them. The locale \<open>registry\<close> is the contract of a collection that hands out its own
  identifiers; the three collections of the code interpret it.
\<close>

section \<open>AlertInfo\<close>

datatype AlertKind = INVALID_ALERT | NEW_DATA_ALERT | NO_DATA_ALERT

datatype AlertComparison = INVALID_ALERT_CMP | GT_ALERT_CMP | LT_ALERT_CMP

type_synonym AlertId = "32 word"
type_synonym NotifierId = "32 word"

record AlertInfo =
  alert_id :: AlertId
  alert_kind :: AlertKind
  alert_name :: string
  alert_domain_id :: EntityId
  host_name :: string
  user_name :: string
  topic_name :: string
  cmp :: AlertComparison
  trigger_threshold :: double
  last_trigger_ts :: Timestamp
  time_between_triggers :: int
  timeout_enabled :: bool
  time_to_timeout :: int
  last_timeout_check_ts :: Timestamp
  alert_notifiers :: "NotifierId list"

text \<open>
  Durations in the alert are milliseconds, the clock ticks in nanoseconds. The conversion of the code
  is a product of 64-bit integers, which overflows for durations beyond 9.2e12 ms (292 years); here it
  is exact, so that such durations are outside the model.
\<close>

definition ticks_per_ms :: int where
  "ticks_per_ms = 1000000"

definition alert_reset :: "Timestamp \<Rightarrow> AlertInfo \<Rightarrow> AlertInfo" where
  "alert_reset now a = a\<lparr>last_timeout_check_ts := now, last_trigger_ts := now\<rparr>"

definition make_alert ::
  "AlertKind \<Rightarrow> string \<Rightarrow> EntityId \<Rightarrow> string \<Rightarrow> string \<Rightarrow> string \<Rightarrow> AlertComparison \<Rightarrow> double \<Rightarrow> int \<Rightarrow>
   bool \<Rightarrow> int \<Rightarrow> Timestamp \<Rightarrow> AlertInfo" where
  "make_alert k n d h u t c thr tbt te ttt now =
     alert_reset now
       \<lparr>alert_id = 0, alert_kind = k, alert_name = n, alert_domain_id = d, host_name = h,
        user_name = u, topic_name = t, cmp = c, trigger_threshold = thr, last_trigger_ts = 0,
        time_between_triggers = tbt, timeout_enabled = te, time_to_timeout = ttt,
        last_timeout_check_ts = 0, alert_notifiers = []\<rparr>"

definition new_data_alert ::
  "string \<Rightarrow> EntityId \<Rightarrow> string \<Rightarrow> string \<Rightarrow> string \<Rightarrow> int \<Rightarrow> int \<Rightarrow> Timestamp \<Rightarrow> AlertInfo" where
  "new_data_alert n d h u t tbt timeout now =
     make_alert NEW_DATA_ALERT n d h u t GT_ALERT_CMP (Fin 0) tbt False timeout now"

definition no_data_alert ::
  "string \<Rightarrow> EntityId \<Rightarrow> string \<Rightarrow> string \<Rightarrow> string \<Rightarrow> double \<Rightarrow> int \<Rightarrow> int \<Rightarrow> Timestamp \<Rightarrow> AlertInfo"
  where
  "no_data_alert n d h u t thr tbt timeout now =
     make_alert NO_DATA_ALERT n d h u t LT_ALERT_CMP thr tbt True timeout now"

text \<open>\<open>entity_matches\<close>, condition by condition: all three guards test \<open>host_name\<close>.\<close>

definition is_wildcard :: "string \<Rightarrow> bool" where
  "is_wildcard s \<longleftrightarrow> s = '''' \<or> s = ''ALL''"

definition entity_matches :: "AlertInfo \<Rightarrow> string \<Rightarrow> string \<Rightarrow> string \<Rightarrow> bool" where
  "entity_matches a stat_host stat_user stat_topic =
     (let m0 = True;
          m1 = (if \<not> is_wildcard (host_name a) then m0 \<and> host_name a = stat_host else m0);
          m2 = (if m1 \<and> \<not> is_wildcard (host_name a) then m1 \<and> user_name a = stat_user else m1)
      in if m2 \<and> \<not> is_wildcard (host_name a) then m2 \<and> topic_name a = stat_topic else m2)"

fun value_triggers_double :: "AlertInfo \<Rightarrow> double \<Rightarrow> bool" where
  "value_triggers_double a v =
     (case cmp a of
        GT_ALERT_CMP \<Rightarrow> double_less (trigger_threshold a) v
      | LT_ALERT_CMP \<Rightarrow> double_less v (trigger_threshold a)
      | INVALID_ALERT_CMP \<Rightarrow> False)"

fun value_triggers_uint :: "AlertInfo \<Rightarrow> 64 word \<Rightarrow> bool" where
  "value_triggers_uint a v =
     (case cmp a of
        GT_ALERT_CMP \<Rightarrow> double_less (trigger_threshold a) (u64_to_double v)
      | LT_ALERT_CMP \<Rightarrow> double_less (u64_to_double v) (trigger_threshold a)
      | INVALID_ALERT_CMP \<Rightarrow> False)"

datatype alert_value = DoubleValue double | CountValue "64 word"

fun value_triggers :: "AlertInfo \<Rightarrow> alert_value \<Rightarrow> bool" where
  "value_triggers a (DoubleValue v) = value_triggers_double a v"
| "value_triggers a (CountValue v) = value_triggers_uint a v"

definition time_allows_trigger :: "Timestamp \<Rightarrow> AlertInfo \<Rightarrow> bool" where
  "time_allows_trigger now a \<longleftrightarrow>
     time_between_triggers a * ticks_per_ms < now - last_trigger_ts a"

definition check_trigger_conditions ::
  "Timestamp \<Rightarrow> Timestamp \<Rightarrow> string \<Rightarrow> string \<Rightarrow> string \<Rightarrow> alert_value \<Rightarrow> AlertInfo \<Rightarrow> AlertInfo \<times> bool"
  where
  "check_trigger_conditions now now' host user topic v a =
     (let a' = a\<lparr>last_timeout_check_ts := now\<rparr>
      in (a', entity_matches a' host user topic \<and> value_triggers a' v \<and> time_allows_trigger now' a'))"

definition check_timeout :: "Timestamp \<Rightarrow> Timestamp \<Rightarrow> AlertInfo \<Rightarrow> AlertInfo \<times> bool" where
  "check_timeout now now' a =
     (if \<not> timeout_enabled a then (a, False)
      else if time_to_timeout a * ticks_per_ms < now - last_timeout_check_ts a
           then (a\<lparr>last_timeout_check_ts := now'\<rparr>, True)
           else (a, False))"

definition add_notifier :: "NotifierId \<Rightarrow> AlertInfo \<Rightarrow> AlertInfo" where
  "add_notifier n a = a\<lparr>alert_notifiers := alert_notifiers a @ [n]\<rparr>"

definition remove_notifier :: "NotifierId \<Rightarrow> AlertInfo \<Rightarrow> AlertInfo" where
  "remove_notifier n a = a\<lparr>alert_notifiers := filter (\<lambda>m. m \<noteq> n) (alert_notifiers a)\<rparr>"

text \<open>
  What an alert matches. A wildcard host makes the user and topic names irrelevant; with a
  host given, the user and the topic must be equal, even where they are empty or \<open>ALL\<close>.
\<close>

theorem entity_matches_iff:
  "entity_matches a h u t \<longleftrightarrow>
     is_wildcard (host_name a) \<or> host_name a = h \<and> user_name a = u \<and> topic_name a = t"
  by (cases "is_wildcard (host_name a)"; cases "host_name a = h"; cases "user_name a = u")
    (simp_all add: entity_matches_def)

text \<open>The documented meaning: each empty (or \<open>ALL\<close>) name is a wildcard of its own.\<close>

definition documented_match :: "AlertInfo \<Rightarrow> string \<Rightarrow> string \<Rightarrow> string \<Rightarrow> bool" where
  "documented_match a h u t \<longleftrightarrow>
     (is_wildcard (host_name a) \<or> host_name a = h) \<and>
     (is_wildcard (user_name a) \<or> user_name a = u) \<and>
     (is_wildcard (topic_name a) \<or> topic_name a = t)"

text \<open>
  The code departs from the documented wildcards both ways: an alert for one topic on any host
  also fires for other topics, and an alert for one host with the user left open never fires for a
  named user.
\<close>

theorem entity_matches_wrong_wildcards:
  "(let a = new_data_alert ''n'' (EntityId 0) ''ALL'' '''' ''square'' 0 0 0
    in entity_matches a ''h'' ''u'' ''circle'' \<and> \<not> documented_match a ''h'' ''u'' ''circle'') \<and>
   (let a = new_data_alert ''n'' (EntityId 0) ''h'' '''' ''square'' 0 0 0
    in \<not> entity_matches a ''h'' ''u'' ''square'' \<and> documented_match a ''h'' ''u'' ''square'')"
  by (simp add: Let_def entity_matches_iff documented_match_def is_wildcard_def new_data_alert_def
      make_alert_def alert_reset_def)

section \<open>Saturation: triggers are spaced\<close>

text \<open>
  One evaluation of an alert as the trigger loop does it: check the conditions (readings \<open>now\<close>,
  \<open>now'\<close>), and if they hold reset the alert (reading \<open>now''\<close>). The result says whether it fired.
\<close>

definition evaluate_alert ::
  "Timestamp \<Rightarrow> Timestamp \<Rightarrow> Timestamp \<Rightarrow> string \<Rightarrow> string \<Rightarrow> string \<Rightarrow> alert_value \<Rightarrow> AlertInfo \<Rightarrow>
   AlertInfo \<times> bool" where
  "evaluate_alert now now' now'' host user topic v a =
     (let (a', fires) = check_trigger_conditions now now' host user topic v a
      in if fires then (alert_reset now'' a', True) else (a', False))"

lemma evaluate_alert_spacing:
  "snd (evaluate_alert now now' now'' h u t v a) \<Longrightarrow>
     time_between_triggers a * ticks_per_ms < now' - last_trigger_ts a"
  by (auto simp: evaluate_alert_def check_trigger_conditions_def time_allows_trigger_def Let_def
      split: if_splits)

lemma evaluate_alert_last_trigger:
  "last_trigger_ts (fst (evaluate_alert now now' now'' h u t v a)) =
     (if snd (evaluate_alert now now' now'' h u t v a) then now'' else last_trigger_ts a)"
  by (simp add: evaluate_alert_def check_trigger_conditions_def alert_reset_def Let_def)

lemma evaluate_alert_period [simp]:
  "time_between_triggers (fst (evaluate_alert now now' now'' h u t v a)) = time_between_triggers a"
  by (simp add: evaluate_alert_def check_trigger_conditions_def alert_reset_def Let_def)

record evaluation =
  ev_now :: Timestamp
  ev_now' :: Timestamp
  ev_now'' :: Timestamp
  ev_host :: string
  ev_user :: string
  ev_topic :: string
  ev_value :: alert_value

text \<open>The times at which an alert fires along a sequence of evaluations.\<close>

fun firing_times :: "evaluation list \<Rightarrow> AlertInfo \<Rightarrow> Timestamp list" where
  "firing_times [] a = []"
| "firing_times (e # es) a =
     (let (a', fired) = evaluate_alert (ev_now e) (ev_now' e) (ev_now'' e) (ev_host e) (ev_user e)
            (ev_topic e) (ev_value e) a
      in if fired then ev_now'' e # firing_times es a' else firing_times es a')"

fun spaced :: "int \<Rightarrow> Timestamp \<Rightarrow> Timestamp list \<Rightarrow> bool" where
  "spaced d t [] = True"
| "spaced d t (x # xs) = (d < x - t \<and> spaced d x xs)"

lemma firing_times_spaced_from:
  "\<forall>e \<in> set es. ev_now' e \<le> ev_now'' e \<Longrightarrow>
     spaced (time_between_triggers a * ticks_per_ms) (last_trigger_ts a) (firing_times es a)"
proof (induction es arbitrary: a)
  case Nil
  then show ?case by simp
next
  case (Cons e es)
  let ?r = "evaluate_alert (ev_now e) (ev_now' e) (ev_now'' e) (ev_host e) (ev_user e)
    (ev_topic e) (ev_value e) a"
  have IH: "spaced (time_between_triggers a * ticks_per_ms) (last_trigger_ts (fst ?r))
      (firing_times es (fst ?r))"
    using Cons.IH [of "fst ?r"] Cons.prems by simp
  show ?case
  proof (cases "snd ?r")
    case True
    with evaluate_alert_spacing [OF True] IH Cons.prems show ?thesis
      by (auto simp: split_beta Let_def evaluate_alert_last_trigger)
  next
    case False
    with IH show ?thesis
      by (simp add: split_beta Let_def evaluate_alert_last_trigger)
  qed
qed

text \<open>
  C10: whatever samples arrive, an alert fires first more than its minimum period after it was
  created or reset, and any two consecutive firings are further apart than that period, as long as
  the clock does not run backwards within one evaluation.
\<close>

theorem alert_firings_spaced:
  assumes "\<forall>e \<in> set es. ev_now' e \<le> ev_now'' e"
  shows "spaced (time_between_triggers a * ticks_per_ms) (last_trigger_ts a) (firing_times es a)"
  using assms by (rule firing_times_spaced_from)

definition sample_evaluation :: "Timestamp \<Rightarrow> evaluation" where
  "sample_evaluation t = \<lparr>ev_now = t, ev_now' = t, ev_now'' = t, ev_host = ''h'', ev_user = ''u'',
     ev_topic = ''t'', ev_value = CountValue 5\<rparr>"

theorem alert_firings_spaced_witness:
  "firing_times (map sample_evaluation [2000000, 2500000, 3500000])
     (new_data_alert ''n'' (EntityId 0) ''ALL'' ''u'' ''t'' 1 0 0) = [2000000, 3500000] \<and>
   spaced 1000000 0 [2000000, 3500000]"
  using alert_firings_spaced [of "map sample_evaluation [2000000, 2500000, 3500000]"
      "new_data_alert ''n'' (EntityId 0) ''ALL'' ''u'' ''t'' 1 0 0"]
  by (simp add: sample_evaluation_def evaluate_alert_def check_trigger_conditions_def
      entity_matches_iff is_wildcard_def new_data_alert_def make_alert_def alert_reset_def
      time_allows_trigger_def ticks_per_ms_def u64_to_double_exact)

lemma check_timeout_resets:
  "snd (check_timeout now now' a) \<Longrightarrow> now'' - now' \<le> time_to_timeout a * ticks_per_ms \<Longrightarrow>
     \<not> snd (check_timeout now'' n (fst (check_timeout now now' a)))"
  by (auto simp: check_timeout_def split: if_splits)

end
