(* ===== verification/Registries.thy ===== *)
theory Registries
  imports Alerts
begin

text \<open>
  The collections that hand out their own 32-bit identifiers: \<open>NotifierManager\<close>
  (\<open>types/Notifiers.hpp\<close>), \<open>AlertManager\<close> (\<open>types/Alerts.hpp\<close>) and the alerts of the database
  (\<open>alerts_\<close>, \<open>next_alert_id_\<close> in \<open>database.cpp\<close>). Their common contract is the locale
  \<open>registry\<close>; its lemmas say that an object added is found under its identifier until it is
  removed, for any interleaving of additions and removals, up to the wrap-around of the counter.
\<close>

section \<open>The contract\<close>

datatype 'v registry_op = Add 'v | Remove "32 word"

fun additions :: "'v registry_op list \<Rightarrow> 'v list" where
  "additions [] = []"
| "additions (Add v # ops) = v # additions ops"
| "additions (Remove i # ops) = additions ops"

locale registry =
  fixes next_id :: "'s \<Rightarrow> 32 word"
    and find :: "'s \<Rightarrow> 32 word \<Rightarrow> 'w option"
    and add :: "'v \<Rightarrow> 's \<Rightarrow> 's"
    and remove :: "32 word \<Rightarrow> 's \<Rightarrow> 's"
    and stored :: "32 word \<Rightarrow> 'v \<Rightarrow> 'w"
    and wf :: "'s \<Rightarrow> bool"
  assumes wf_add: "wf s \<Longrightarrow> find s (next_id s) = None \<Longrightarrow> wf (add v s)"
    and wf_remove: "wf s \<Longrightarrow> wf (remove i s)"
    and next_add: "next_id (add v s) = next_id s + 1"
    and next_remove: "next_id (remove i s) = next_id s"
    and find_add: "wf s \<Longrightarrow> find s (next_id s) = None \<Longrightarrow>
      find (add v s) i = (if i = next_id s then Some (stored i v) else find s i)"
    and find_remove: "wf s \<Longrightarrow> find (remove i s) j = (if j = i then None else find s j)"
begin

fun step :: "'v registry_op \<Rightarrow> 's \<Rightarrow> 's" where
  "step (Add v) s = add v s"
| "step (Remove i) s = remove i s"

definition fresh_above :: "nat \<Rightarrow> 's \<Rightarrow> bool" where
  "fresh_above n s \<longleftrightarrow> wf s \<and> next_id s = of_nat n \<and> (\<forall>i. find s i \<noteq> None \<longrightarrow> unat i < n)"

lemma fresh_above_next:
  assumes "fresh_above n s" and "n < 2 ^ 32"
  shows "find s (next_id s) = None"
proof (rule ccontr)
  assume "find s (next_id s) \<noteq> None"
  then have "unat (of_nat n :: 32 word) < n"
    using assms(1) unfolding fresh_above_def by metis
  moreover have "unat (of_nat n :: 32 word) = n"
    using assms(2) by (simp add: unat_of_nat take_bit_nat_eq_self)
  ultimately show False by simp
qed

lemma fresh_above_add:
  assumes "fresh_above n s" and "n < 2 ^ 32"
  shows "fresh_above (Suc n) (add v s)"
proof -
  have free: "find s (next_id s) = None" using assms by (rule fresh_above_next)
  have wf: "wf s" and nx: "next_id s = of_nat n"
    using assms(1) by (simp_all add: fresh_above_def)
  have u: "unat (of_nat n :: 32 word) = n"
    using assms(2) by (simp add: unat_of_nat take_bit_nat_eq_self)
  have "unat i < Suc n" if "find (add v s) i \<noteq> None" for i
    using that assms(1) u
    by (cases "i = next_id s") (auto simp: find_add [OF wf free] nx fresh_above_def less_SucI)
  then show ?thesis
    using wf_add [OF wf free] by (simp add: fresh_above_def next_add nx add.commute)
qed

lemma fresh_above_remove: "fresh_above n s \<Longrightarrow> fresh_above n (remove i s)"
  by (auto simp: fresh_above_def wf_remove next_remove find_remove)

lemma fresh_above_run:
  "fresh_above n s \<Longrightarrow> n + length (additions ops) \<le> 2 ^ 32 \<Longrightarrow>
     fresh_above (n + length (additions ops)) (fold step ops s)"
proof (induction ops arbitrary: n s rule: additions.induct)
  case 1
  then show ?case by simp
next
  case (2 v ops)
  have "fresh_above (Suc n) (add v s)"
    using 2 by (intro fresh_above_add) simp_all
  from 2(1) [OF this] 2(3) show ?case by simp
next
  case (3 i ops)
  from 3(1) [OF fresh_above_remove [OF 3(2)]] 3(3) show ?case by simp
qed

text \<open>What was added under an identifier stays there while nobody removes it.\<close>

lemma find_step_other:
  assumes "fresh_above n s" and "n < 2 ^ 32" and "unat i < n" and "op \<noteq> Remove i"
  shows "find (step op s) i = find s i"
proof (cases op)
  case (Add v)
  have "i \<noteq> next_id s"
    using assms by (auto simp: fresh_above_def unat_of_nat take_bit_nat_eq_self)
  then show ?thesis
    using Add assms fresh_above_next [OF assms(1,2)] by (simp add: find_add fresh_above_def)
next
  case (Remove j)
  then show ?thesis using assms by (auto simp: find_remove fresh_above_def)
qed

lemma find_run_other:
  "fresh_above n s \<Longrightarrow> n + length (additions ops) < 2 ^ 32 \<Longrightarrow> unat i < n \<Longrightarrow>
     Remove i \<notin> set ops \<Longrightarrow> find (fold step ops s) i = find s i"
proof (induction ops arbitrary: n s rule: additions.induct)
  case 1
  then show ?case by simp
next
  case (2 v ops)
  have f: "fresh_above (Suc n) (add v s)"
    using 2 by (intro fresh_above_add) simp_all
  have "find (add v s) i = find s i"
    using find_step_other [of n s i "Add v"] 2 by simp
  with 2(1) [OF f] 2 show ?case by simp
next
  case (3 j ops)
  have "find (remove j s) i = find s i"
    using find_step_other [of n s i "Remove j"] 3 by (simp add: eq_commute)
  with 3(1) [OF fresh_above_remove [OF 3(2)]] 3 show ?case by simp
qed

lemma added_is_found:
  assumes "fresh_above n s" and "n + length (additions ops) + 1 < 2 ^ 32"
    and "Remove (of_nat n) \<notin> set ops"
  shows "find (fold step ops (add v s)) (of_nat n) = Some (stored (of_nat n) v)"
proof -
  have u: "unat (of_nat n :: 32 word) = n"
    using assms(2) by (simp add: unat_of_nat take_bit_nat_eq_self)
  have f: "fresh_above (Suc n) (add v s)"
    using assms by (intro fresh_above_add) simp_all
  have "find (fold step ops (add v s)) (of_nat n) = find (add v s) (of_nat n)"
    using assms u by (intro find_run_other [OF f]) simp_all
  also have "\<dots> = Some (stored (of_nat n) v)"
    using assms(1) fresh_above_next [OF assms(1)] assms(2)
    by (simp add: find_add fresh_above_def)
  finally show ?thesis .
qed

end

section \<open>Notifiers\<close>

datatype Notifier = ScriptNotifier string

fun get_script_path :: "Notifier \<Rightarrow> string" where
  "get_script_path (ScriptNotifier p) = p"

text \<open>\<open>notify\<close> hands a command line to the shell; the effect is the command (Linux branch).\<close>

fun notifier_command :: "Notifier \<Rightarrow> string \<Rightarrow> string" where
  "notifier_command (ScriptNotifier p) message = p @ '' '' @ [CHR 0x22] @ message @ [CHR 0x22]"

text \<open>\<open>is_valid_script\<close>: the check of the file system is a parameter.\<close>

definition is_valid_script :: "(string \<Rightarrow> bool) \<Rightarrow> string \<Rightarrow> bool" where
  "is_valid_script executable path \<longleftrightarrow> (if path = [] then False else executable path)"

record NotifierManager =
  m_notifiers :: "(NotifierId, Notifier) omap"
  next_notifier_id :: NotifierId

definition new_notifier_manager :: NotifierManager where
  "new_notifier_manager = \<lparr>m_notifiers = [], next_notifier_id = 0\<rparr>"

definition nm_add :: "Notifier \<Rightarrow> NotifierManager \<Rightarrow> NotifierManager \<times> NotifierId" where
  "nm_add n s =
     (let i = next_notifier_id s
      in (s\<lparr>next_notifier_id := i + 1, m_notifiers := om_put i n (m_notifiers s)\<rparr>, i))"

definition nm_remove :: "NotifierId \<Rightarrow> NotifierManager \<Rightarrow> NotifierManager" where
  "nm_remove i s =
     (case om_find (m_notifiers s) i of
        Some _ \<Rightarrow> s\<lparr>m_notifiers := om_erase i (m_notifiers s)\<rparr>
      | None \<Rightarrow> s)"

definition nm_get :: "NotifierManager \<Rightarrow> NotifierId \<Rightarrow> Notifier option" where
  "nm_get s i = om_find (m_notifiers s) i"

definition nm_notify :: "NotifierId \<Rightarrow> string \<Rightarrow> NotifierManager \<Rightarrow> string list" where
  "nm_notify i message s =
     (case om_find (m_notifiers s) i of Some n \<Rightarrow> [notifier_command n message] | None \<Rightarrow> [])"

definition nm_wf :: "NotifierManager \<Rightarrow> bool" where
  "nm_wf s \<longleftrightarrow> om_wf (m_notifiers s)"

interpretation nm: registry next_notifier_id nm_get "\<lambda>n s. fst (nm_add n s)" nm_remove "\<lambda>i n. n" nm_wf
proof unfold_locales
  fix s :: NotifierManager and i j :: "32 word" and n
  show "nm_wf s \<Longrightarrow> nm_wf (nm_remove i s)"
    by (auto simp: nm_wf_def nm_remove_def om_erase_wf split: option.split)
  show "nm_wf s \<Longrightarrow> nm_get (nm_remove i s) j = (if j = i then None else nm_get s j)"
    by (auto simp: nm_get_def nm_remove_def om_find_erase split: option.split)
qed (auto simp: nm_wf_def nm_add_def nm_remove_def nm_get_def Let_def om_put_wf om_find_put
    split: option.split)

section \<open>The alert manager\<close>

record AlertManager =
  m_alerts :: "(AlertId, AlertInfo) omap"
  am_next_id :: AlertId

definition new_alert_manager :: AlertManager where
  "new_alert_manager = \<lparr>m_alerts = [], am_next_id = 0\<rparr>"

definition am_add :: "AlertInfo \<Rightarrow> AlertManager \<Rightarrow> AlertManager \<times> AlertId" where
  "am_add a s =
     (let i = am_next_id s
      in (s\<lparr>am_next_id := i + 1, m_alerts := om_put i a (m_alerts s)\<rparr>, i))"

definition am_remove :: "AlertId \<Rightarrow> AlertManager \<Rightarrow> AlertManager" where
  "am_remove i s =
     (case om_find (m_alerts s) i of
        Some _ \<Rightarrow> s\<lparr>m_alerts := om_erase i (m_alerts s)\<rparr>
      | None \<Rightarrow> s)"

definition am_get :: "AlertManager \<Rightarrow> AlertId \<Rightarrow> AlertInfo option" where
  "am_get s i = om_find (m_alerts s) i"

definition am_wf :: "AlertManager \<Rightarrow> bool" where
  "am_wf s \<longleftrightarrow> om_wf (m_alerts s)"

interpretation am: registry am_next_id am_get "\<lambda>a s. fst (am_add a s)" am_remove "\<lambda>i a. a" am_wf
proof unfold_locales
  fix s :: AlertManager and i j :: "32 word"
  show "am_wf s \<Longrightarrow> am_wf (am_remove i s)"
    by (auto simp: am_wf_def am_remove_def om_erase_wf split: option.split)
  show "am_wf s \<Longrightarrow> am_get (am_remove i s) j = (if j = i then None else am_get s j)"
    by (auto simp: am_get_def am_remove_def om_find_erase split: option.split)
qed (auto simp: am_wf_def am_add_def am_remove_def am_get_def Let_def om_put_wf om_find_put
    split: option.split)

section \<open>The alerts of the database\<close>

record AlertStore =
  db_alerts :: "(EntityId, (AlertId, AlertInfo) omap) omap"
  db_next_alert_id :: AlertId
  db_notifiers :: NotifierManager

text \<open>\<open>emplace\<close> keeps an entry that is already there.\<close>

definition om_emplace :: "'k::linorder \<Rightarrow> 'v \<Rightarrow> ('k, 'v) omap \<Rightarrow> ('k, 'v) omap" where
  "om_emplace k v m = (case om_find m k of Some _ \<Rightarrow> m | None \<Rightarrow> om_put k v m)"

definition insert_alert_nts ::
  "AlertInfo \<Rightarrow> 'a AlertStore_scheme \<Rightarrow> 'a AlertStore_scheme \<times> AlertId" where
  "insert_alert_nts a db =
     (let i = db_next_alert_id db; a' = a\<lparr>alert_id := i\<rparr>
      in (db\<lparr>db_next_alert_id := i + 1,
             db_alerts := om_update [] (alert_domain_id a') (om_emplace i a') (db_alerts db)\<rparr>, i))"

fun remove_alert_loop ::
  "AlertId \<Rightarrow> (EntityId, (AlertId, AlertInfo) omap) omap \<Rightarrow> (EntityId, (AlertId, AlertInfo) omap) omap"
  where
  "remove_alert_loop i [] = []"
| "remove_alert_loop i ((d, m) # ds) =
     (case om_find m i of
        Some _ \<Rightarrow> (d, om_erase i m) # ds
      | None \<Rightarrow> (d, m) # remove_alert_loop i ds)"

definition remove_alert :: "AlertId \<Rightarrow> 'a AlertStore_scheme \<Rightarrow> 'a AlertStore_scheme" where
  "remove_alert i db = db\<lparr>db_alerts := remove_alert_loop i (db_alerts db)\<rparr>"

fun find_alert_in :: "AlertId \<Rightarrow> (AlertId \<times> AlertInfo) list \<Rightarrow> AlertInfo option" where
  "find_alert_in i [] = None"
| "find_alert_in i ((k, a) # m) = (if alert_id a = i then Some a else find_alert_in i m)"

fun get_alert_loop ::
  "AlertId \<Rightarrow> (EntityId, (AlertId, AlertInfo) omap) omap \<Rightarrow> AlertInfo option" where
  "get_alert_loop i [] = None"
| "get_alert_loop i ((d, m) # ds) =
     (case find_alert_in i m of Some a \<Rightarrow> Some a | None \<Rightarrow> get_alert_loop i ds)"

definition get_alert_nts :: "'a AlertStore_scheme \<Rightarrow> AlertId \<Rightarrow> AlertInfo option" where
  "get_alert_nts db i = get_alert_loop i (db_alerts db)"

definition get_alerts_ids :: "'a AlertStore_scheme \<Rightarrow> AlertId list" where
  "get_alerts_ids db = concat (map (\<lambda>(d, m). om_keys m) (db_alerts db))"

text \<open>
  The state the lookups rely on: both levels sorted, every alert stored under its own identifier,
  no identifier in two domains.
\<close>

definition alert_maps_wf :: "(EntityId, (AlertId, AlertInfo) omap) omap \<Rightarrow> bool" where
  "alert_maps_wf ds \<longleftrightarrow>
     om_wf ds \<and> (\<forall>(d, m) \<in> set ds. om_wf m \<and> (\<forall>(k, a) \<in> set m. alert_id a = k)) \<and>
     (\<forall>e \<in> set ds. \<forall>e' \<in> set ds. \<forall>k.
        om_find (snd e) k \<noteq> None \<longrightarrow> om_find (snd e') k \<noteq> None \<longrightarrow> fst e = fst e')"

definition alerts_wf :: "'a AlertStore_scheme \<Rightarrow> bool" where
  "alerts_wf db \<longleftrightarrow> alert_maps_wf (db_alerts db)"

lemma option_eq_iff_Some: "(\<And>b. x = Some b \<longleftrightarrow> y = Some b) \<Longrightarrow> x = y"
  by (cases x; cases y) auto

lemma find_alert_in_eq: "\<forall>(k, a) \<in> set m. alert_id a = k \<Longrightarrow> find_alert_in i m = om_find m i"
  by (induction i m rule: find_alert_in.induct) auto

lemma get_alert_loop_None:
  "\<forall>(d, m) \<in> set ds. \<forall>(k, a) \<in> set m. alert_id a = k \<Longrightarrow>
     get_alert_loop i ds = None \<longleftrightarrow> (\<forall>e \<in> set ds. om_find (snd e) i = None)"
  by (induction i ds rule: get_alert_loop.induct) (auto simp: find_alert_in_eq split: option.splits)

lemma get_alert_loop_SomeD:
  "\<forall>(d, m) \<in> set ds. \<forall>(k, a) \<in> set m. alert_id a = k \<Longrightarrow>
     get_alert_loop i ds = Some a \<Longrightarrow> \<exists>e \<in> set ds. om_find (snd e) i = Some a"
  by (induction i ds rule: get_alert_loop.induct) (auto simp: find_alert_in_eq split: option.splits)

lemma alert_maps_wfD:
  assumes "alert_maps_wf ds"
  shows "om_wf ds" and "\<forall>(d, m) \<in> set ds. \<forall>(k, a) \<in> set m. alert_id a = k"
    and "e \<in> set ds \<Longrightarrow> om_wf (snd e)"
    and "e \<in> set ds \<Longrightarrow> e' \<in> set ds \<Longrightarrow> om_find (snd e) i \<noteq> None \<Longrightarrow>
      om_find (snd e') i \<noteq> None \<Longrightarrow> e = e'"
proof -
  show wf: "om_wf ds" and "\<forall>(d, m) \<in> set ds. \<forall>(k, a) \<in> set m. alert_id a = k"
    and "e \<in> set ds \<Longrightarrow> om_wf (snd e)"
    using assms unfolding alert_maps_wf_def by fastforce+
  assume e: "e \<in> set ds" "e' \<in> set ds" "om_find (snd e) i \<noteq> None" "om_find (snd e') i \<noteq> None"
  then have "fst e = fst e'"
    using assms unfolding alert_maps_wf_def by blast
  then show "e = e'"
    using e(1,2) om_wf_distinct [OF wf] by (cases e; cases e') (auto dest: eq_key_imp_eq_value)
qed

lemma get_alert_loop_Some:
  assumes "alert_maps_wf ds"
  shows "get_alert_loop i ds = Some a \<longleftrightarrow> (\<exists>e \<in> set ds. om_find (snd e) i = Some a)"
  using get_alert_loop_SomeD [OF alert_maps_wfD(2) [OF assms]]
    get_alert_loop_None [OF alert_maps_wfD(2) [OF assms], of i]
    alert_maps_wfD(4) [OF assms, of _ _ i]
  by (cases "get_alert_loop i ds") (force, metis option.distinct(1) option.inject)

lemma remove_alert_loop_eq:
  "\<forall>e \<in> set ds. \<forall>e' \<in> set ds. om_find (snd e) i \<noteq> None \<longrightarrow> om_find (snd e') i \<noteq> None \<longrightarrow> e = e' \<Longrightarrow>
     distinct (om_keys ds) \<Longrightarrow>
     remove_alert_loop i ds = map (\<lambda>(d, m). (d, om_erase i m)) ds"
proof (induction i ds rule: remove_alert_loop.induct)
  case (1 i)
  then show ?case by simp
next
  case (2 i d m ds)
  have absent: "om_erase i m' = m'" if "om_find m' i = None" for m' :: "(AlertId, AlertInfo) omap"
    using that by (auto simp: om_erase_def map_of_eq_None_iff filter_id_conv)
  show ?case
  proof (cases "om_find m i")
    case None
    with 2 absent show ?thesis by auto
  next
    case (Some a)
    have "om_find m' i = None" if "(d', m') \<in> set ds" for d' m'
    proof (rule ccontr)
      assume "om_find m' i \<noteq> None"
      with 2(2) Some that have "(d, m) = (d', m')"
        by (metis list.set_intros option.distinct(1) snd_conv)
      with 2(3) that show False by force
    qed
    then have "map (\<lambda>(d, m). (d, om_erase i m)) ds = ds"
      by (intro map_idI) (auto simp: absent)
    with Some show ?thesis by simp
  qed
qed

lemma remove_alert_loop_map:
  "alert_maps_wf ds \<Longrightarrow> remove_alert_loop i ds = map (\<lambda>(d, m). (d, om_erase i m)) ds"
  using alert_maps_wfD(4) alert_maps_wfD(1) [THEN om_wf_distinct]
  by (intro remove_alert_loop_eq) blast+

lemma get_alert_nts_Some:
  "alerts_wf db \<Longrightarrow> get_alert_nts db i = Some a \<longleftrightarrow> (\<exists>e \<in> set (db_alerts db). om_find (snd e) i = Some a)"
  by (simp add: alerts_wf_def get_alert_nts_def get_alert_loop_Some)

lemma get_alert_nts_None:
  "alerts_wf db \<Longrightarrow> get_alert_nts db i = None \<longleftrightarrow> (\<forall>e \<in> set (db_alerts db). om_find (snd e) i = None)"
  by (simp add: alerts_wf_def get_alert_nts_def get_alert_loop_None alert_maps_wfD(2))

text \<open>Adding and removing, seen through the lookup.\<close>

lemma om_find_emplace:
  "om_wf m \<Longrightarrow> om_find (om_emplace k v m) = (case om_find m k of Some _ \<Rightarrow> om_find m | None \<Rightarrow> (om_find m)(k \<mapsto> v))"
  by (simp add: om_emplace_def om_find_put split: option.split)

lemma insert_alert_entries:
  fixes db :: "'a AlertStore_scheme" and a :: AlertInfo
  assumes "alerts_wf db" and "get_alert_nts db (db_next_alert_id db) = None"
  defines "i \<equiv> db_next_alert_id db" and "d \<equiv> alert_domain_id a"
  shows "set (db_alerts (fst (insert_alert_nts a db))) =
    insert (d, om_put i (a\<lparr>alert_id := i\<rparr>) (om_get [] d (db_alerts db)))
      {e \<in> set (db_alerts db). fst e \<noteq> d}"
    and "om_wf (om_get [] d (db_alerts db))" and "om_find (om_get [] d (db_alerts db)) i = None"
    and "\<forall>(k, b) \<in> set (om_get [] d (db_alerts db)). alert_id b = k"
proof -
  have wf: "alert_maps_wf (db_alerts db)" using assms(1) by (simp add: alerts_wf_def)
  note D = alert_maps_wfD [OF wf]
  have none: "\<forall>e \<in> set (db_alerts db). om_find (snd e) i = None"
    using assms(1,2) by (simp add: get_alert_nts_None i_def)
  let ?m = "om_get [] d (db_alerts db)"
  have m: "?m = [] \<or> (d, ?m) \<in> set (db_alerts db)"
    by (auto simp: om_get_def dest: map_of_SomeD split: option.splits)
  then show wm: "om_wf ?m" and nm: "om_find ?m i = None"
    and "\<forall>(k, b) \<in> set ?m. alert_id b = k"
    using D(2,3) none by fastforce+
  show "set (db_alerts (fst (insert_alert_nts a db))) =
    insert (d, om_put i (a\<lparr>alert_id := i\<rparr>) ?m) {e \<in> set (db_alerts db). fst e \<noteq> d}"
    using nm D(1)
    by (simp add: insert_alert_nts_def Let_def om_update_def om_put_set om_emplace_def
        flip: i_def d_def)
qed

lemma insert_alert_wf:
  assumes "alerts_wf db" and "get_alert_nts db (db_next_alert_id db) = None"
  shows "alerts_wf (fst (insert_alert_nts a db))"
proof -
  note I = insert_alert_entries [OF assms, of a]
  have wf: "alert_maps_wf (db_alerts db)" using assms(1) by (simp add: alerts_wf_def)
  note D = alert_maps_wfD [OF wf]
  let ?i = "db_next_alert_id db" and ?d = "alert_domain_id a"
  let ?m = "om_get [] ?d (db_alerts db)" and ?a = "a\<lparr>alert_id := ?i\<rparr>"
  have none: "\<forall>e \<in> set (db_alerts db). om_find (snd e) ?i = None"
    using assms by (simp add: get_alert_nts_None)
  have m: "?m = [] \<or> (?d, ?m) \<in> set (db_alerts db)"
    by (auto simp: om_get_def dest: map_of_SomeD split: option.splits)
  have keys: "\<forall>(k, b) \<in> set (om_put ?i ?a ?m). alert_id b = k"
    using I(4) by (auto simp: om_put_set I(2))
  have sep: "k \<noteq> ?i \<and> om_find ?m k = None"
    if "e \<in> set (db_alerts db)" "fst e \<noteq> ?d" "om_find (snd e) k \<noteq> None" for e k
    using that none m D(4) [of e "(?d, ?m)" k] by (cases "om_find ?m k") auto
  have w: "om_wf (db_alerts (fst (insert_alert_nts a db)))"
    using D(1) by (simp add: insert_alert_nts_def Let_def om_update_wf)
  let ?e = "(?d, om_put ?i ?a ?m)" and ?R = "{e \<in> set (db_alerts db). fst e \<noteq> ?d}"
  have 1: "\<forall>(d, m) \<in> insert ?e ?R. om_wf m \<and> (\<forall>(k, b) \<in> set m. alert_id b = k)"
    using D(2,3) keys I(2) by (fastforce intro: om_put_wf)
  have e: "fst e \<noteq> ?d \<Longrightarrow> e \<in> set (db_alerts db) \<Longrightarrow> om_find (snd e) k \<noteq> None \<Longrightarrow>
      om_find (snd ?e) k = None" for e k
    using sep [of e k] by (simp add: om_find_put [OF I(2)])
  have 2: "\<forall>e \<in> insert ?e ?R. \<forall>e' \<in> insert ?e ?R. \<forall>k.
      om_find (snd e) k \<noteq> None \<longrightarrow> om_find (snd e') k \<noteq> None \<longrightarrow> fst e = fst e'"
  proof (intro ballI allI impI)
    fix x y k
    assume xy: "x \<in> insert ?e ?R" "y \<in> insert ?e ?R"
      and f: "om_find (snd x) k \<noteq> None" "om_find (snd y) k \<noteq> None"
    show "fst x = fst y"
    proof (cases "x = ?e \<longleftrightarrow> y = ?e")
      case True
      then show ?thesis using xy f D(4) [of x y k] by blast
    next
      case False
      then consider "x = ?e" "y \<in> ?R" | "y = ?e" "x \<in> ?R" using xy by fast
      then have False
      proof cases
        case 1
        then show False using e [of y k] f by simp
      next
        case 2
        then show False using e [of x k] f by simp
      qed
      then show ?thesis ..
    qed
  qed
  show ?thesis
    unfolding alerts_wf_def alert_maps_wf_def I(1) using w 1 2 by blast
qed

lemma insert_alert_find:
  assumes "alerts_wf db" and "get_alert_nts db (db_next_alert_id db) = None"
  shows "get_alert_nts (fst (insert_alert_nts a db)) j =
    (if j = db_next_alert_id db then Some (a\<lparr>alert_id := j\<rparr>) else get_alert_nts db j)"
proof (rule option_eq_iff_Some)
  note I = insert_alert_entries [OF assms, of a]
  note wf' = insert_alert_wf [OF assms, of a]
  fix b
  let ?i = "db_next_alert_id db" and ?d = "alert_domain_id a"
  let ?m = "om_get [] ?d (db_alerts db)" and ?a = "a\<lparr>alert_id := ?i\<rparr>"
  have none: "\<forall>e \<in> set (db_alerts db). om_find (snd e) ?i = None"
    using assms by (simp add: get_alert_nts_None)
  have wd: "om_wf (db_alerts db)"
    using assms(1) by (simp add: alerts_wf_def alert_maps_wf_def)
  have m: "om_find ?m j = Some b \<longleftrightarrow> (\<exists>e \<in> set (db_alerts db). fst e = ?d \<and> om_find (snd e) j = Some b)"
    for j b
  proof (cases "om_find (db_alerts db) ?d")
    case None
    then have "\<forall>e \<in> set (db_alerts db). fst e \<noteq> ?d" by (force simp: map_of_eq_None_iff)
    with None show ?thesis by (auto simp: om_get_def)
  next
    case (Some x)
    have entry: "(?d, y) \<in> set (db_alerts db) \<longleftrightarrow> x = y" for y
      unfolding om_in_set_iff [OF wd] Some by (rule option.inject)
    have "(\<exists>e \<in> set (db_alerts db). fst e = ?d \<and> om_find (snd e) j = Some b) \<longleftrightarrow>
        (\<exists>y. (?d, y) \<in> set (db_alerts db) \<and> om_find y j = Some b)"
      by force
    then have "(\<exists>e \<in> set (db_alerts db). fst e = ?d \<and> om_find (snd e) j = Some b) \<longleftrightarrow>
        om_find x j = Some b"
      unfolding entry by simp
    with Some show ?thesis by (simp add: om_get_def)
  qed
  show "get_alert_nts (fst (insert_alert_nts a db)) j = Some b \<longleftrightarrow>
    (if j = ?i then Some (a\<lparr>alert_id := j\<rparr>) else get_alert_nts db j) = Some b"
  proof (cases "j = ?i")
    case True
    have "om_find (snd e) j = None" if "e \<in> set (db_alerts db)" for e
      unfolding True using none that by (rule bspec)
    then show ?thesis
      unfolding get_alert_nts_Some [OF wf'] I(1)
      using True by (simp add: om_find_put [OF I(2)])
  next
    case False
    then show ?thesis
      unfolding get_alert_nts_Some [OF wf'] I(1)
      using m [of j b] by (simp add: om_find_put [OF I(2)] get_alert_nts_Some [OF assms(1)]) fastforce
  qed
qed

lemma remove_alert_entries:
  "alerts_wf db \<Longrightarrow> db_alerts (remove_alert i db) = map (\<lambda>(d, m). (d, om_erase i m)) (db_alerts db)"
  by (simp add: remove_alert_def alerts_wf_def remove_alert_loop_map)

lemma remove_alert_wf:
  assumes "alerts_wf db"
  shows "alerts_wf (remove_alert i db)"
proof -
  have wf: "alert_maps_wf (db_alerts db)" using assms by (simp add: alerts_wf_def)
  note D = alert_maps_wfD [OF wf]
  let ?f = "\<lambda>(d :: EntityId, m :: (AlertId, AlertInfo) omap). (d, om_erase i m)"
  have 1: "om_wf (map ?f (db_alerts db))"
    using om_map_wf [OF D(1), of "\<lambda>k. om_erase i"] by simp
  have 2: "\<forall>(d, m) \<in> set (map ?f (db_alerts db)). om_wf m \<and> (\<forall>(k, a) \<in> set m. alert_id a = k)"
    using D(2,3) by (fastforce simp: om_erase_set intro: om_erase_wf)
  have "fst (?f e) = fst (?f e')"
    if "e \<in> set (db_alerts db)" "e' \<in> set (db_alerts db)"
      "om_find (snd (?f e)) k \<noteq> None" "om_find (snd (?f e')) k \<noteq> None" for e e' k
    using that D(4) [of e e' k] by (auto simp: om_find_erase split_beta split: if_splits)
  then have "\<forall>e \<in> set (map ?f (db_alerts db)). \<forall>e' \<in> set (map ?f (db_alerts db)). \<forall>k.
      om_find (snd e) k \<noteq> None \<longrightarrow> om_find (snd e') k \<noteq> None \<longrightarrow> fst e = fst e'"
    by (simp only: list.set_map ball_simps) blast
  with 1 2 show ?thesis
    unfolding alerts_wf_def alert_maps_wf_def remove_alert_entries [OF assms] by blast
qed

lemma remove_alert_find:
  assumes "alerts_wf db"
  shows "get_alert_nts (remove_alert i db) j = (if j = i then None else get_alert_nts db j)"
proof (rule option_eq_iff_Some)
  fix b
  show "get_alert_nts (remove_alert i db) j = Some b \<longleftrightarrow>
    (if j = i then None else get_alert_nts db j) = Some b"
    unfolding get_alert_nts_Some [OF remove_alert_wf [OF assms]] remove_alert_entries [OF assms]
    by (force simp: om_find_erase get_alert_nts_Some [OF assms])
qed

interpretation alert_db: registry db_next_alert_id get_alert_nts
  "\<lambda>a db. fst (insert_alert_nts a db)" remove_alert "\<lambda>i a. a\<lparr>alert_id := i\<rparr>" alerts_wf
  by unfold_locales
    (fact insert_alert_wf remove_alert_wf insert_alert_find remove_alert_find |
      simp add: insert_alert_nts_def remove_alert_def Let_def)+

text \<open>The calls of a client that inserts and removes alerts.\<close>

fun alert_op :: "AlertInfo registry_op \<Rightarrow> 'a AlertStore_scheme \<Rightarrow> 'a AlertStore_scheme" where
  "alert_op (Add a) db = fst (insert_alert_nts a db)"
| "alert_op (Remove i) db = remove_alert i db"

lemma alert_op_step: "alert_op = alert_db.step"
proof (intro ext)
  fix op and db :: "'a AlertStore_scheme"
  show "alert_op op db = alert_db.step op db" by (cases op) simp_all
qed

text \<open>
  An alert inserted into the database gets the next identifier and is what \<open>get_alert\<close> returns
  for it after any further insertions and removals that do not remove this identifier, up to
  \<open>2^32\<close> insertions.
\<close>

theorem inserted_alert_found:
  assumes "alerts_wf db" and "db_next_alert_id db = of_nat n"
    and "\<forall>i. get_alert_nts db i \<noteq> None \<longrightarrow> unat i < n"
    and "n + length (additions ops) + 1 < 2 ^ 32" and "Remove (of_nat n) \<notin> set ops"
  shows "snd (insert_alert_nts a db) = of_nat n \<and>
    get_alert_nts (fold alert_op ops (fst (insert_alert_nts a db))) (of_nat n) =
      Some (a\<lparr>alert_id := of_nat n\<rparr>)"
proof -
  have "alert_db.fresh_above n db" using assms(1-3) by (simp add: alert_db.fresh_above_def)
  from alert_db.added_is_found [OF this assms(4,5), of a] assms(2) show ?thesis
    by (simp add: alert_op_step insert_alert_nts_def Let_def)
qed

definition new_alert_store :: AlertStore where
  "new_alert_store = \<lparr>db_alerts = [], db_next_alert_id = 0, db_notifiers = new_notifier_manager\<rparr>"

theorem inserted_alert_found_witness:
  "let a = new_data_alert ''n'' (EntityId 4) ''h'' ''u'' ''t'' 1 0 0;
       b = no_data_alert ''m'' (EntityId 2) ''h'' ''u'' ''t'' (Fin 3) 1 5 0
   in get_alert_nts (fold alert_op [Add b, Add a, Remove 1]
        (fst (insert_alert_nts a new_alert_store))) 0 = Some (a\<lparr>alert_id := 0\<rparr>)"
  using inserted_alert_found [of new_alert_store 0
      "[Add (no_data_alert ''m'' (EntityId 2) ''h'' ''u'' ''t'' (Fin 3) 1 5 0),
        Add (new_data_alert ''n'' (EntityId 4) ''h'' ''u'' ''t'' 1 0 0), Remove 1]"
      "new_data_alert ''n'' (EntityId 4) ''h'' ''u'' ''t'' 1 0 0"]
  by (simp add: Let_def new_alert_store_def alerts_wf_def alert_maps_wf_def get_alert_nts_def)

section \<open>The timeout sweep\<close>

text \<open>
  \<open>check_alerts_timeouts\<close> visits the alerts of every domain of \<open>domains_\<close>; \<open>clock i\<close> holds the
  two clock readings made while alert \<open>i\<close> is checked. The copies of the alerts that timed out are
  returned in visiting order: the callbacks are made for them once the lock is released.
\<close>

fun check_timeouts_in ::
  "(AlertId \<Rightarrow> Timestamp \<times> Timestamp) \<Rightarrow> (AlertId, AlertInfo) omap \<Rightarrow>
   (AlertId, AlertInfo) omap \<times> AlertInfo list" where
  "check_timeouts_in clock [] = ([], [])"
| "check_timeouts_in clock ((i, a) # m) =
     (let (a', out) = check_timeout (fst (clock i)) (snd (clock i)) a;
          (m', outs) = check_timeouts_in clock m
      in ((i, a') # m', (if out then [a'] else []) @ outs))"

fun check_timeouts_domains ::
  "(AlertId \<Rightarrow> Timestamp \<times> Timestamp) \<Rightarrow> EntityId list \<Rightarrow> (EntityId, (AlertId, AlertInfo) omap) omap \<Rightarrow>
   (EntityId, (AlertId, AlertInfo) omap) omap \<times> (EntityId \<times> AlertInfo) list" where
  "check_timeouts_domains clock [] al = (al, [])"
| "check_timeouts_domains clock (d # ds) al =
     (case om_find al d of
        None \<Rightarrow> check_timeouts_domains clock ds al
      | Some m \<Rightarrow>
          (let (m', outs) = check_timeouts_in clock m;
               (al', rest) = check_timeouts_domains clock ds (om_put d m' al)
           in (al', map (Pair d) outs @ rest)))"

definition check_alerts_timeouts ::
  "(AlertId \<Rightarrow> Timestamp \<times> Timestamp) \<Rightarrow> EntityId list \<Rightarrow> 'a AlertStore_scheme \<Rightarrow>
   'a AlertStore_scheme \<times> (EntityId \<times> AlertInfo) list" where
  "check_alerts_timeouts clock ds db =
     (let (al, outs) = check_timeouts_domains clock ds (db_alerts db)
      in (db\<lparr>db_alerts := al\<rparr>, outs))"

lemma check_timeout_id [simp]: "alert_id (fst (check_timeout n n' a)) = alert_id a"
  by (simp add: check_timeout_def)

lemma check_timeouts_in_map:
  "fst (check_timeouts_in clock m) =
     map (\<lambda>(i, a). (i, fst (check_timeout (fst (clock i)) (snd (clock i)) a))) m"
  by (induction m) (auto simp: Let_def split_beta)

lemma check_timeouts_in_out:
  "snd (check_timeouts_in clock m) =
     [fst (check_timeout (fst (clock i)) (snd (clock i)) a). (i, a) \<leftarrow> m,
        snd (check_timeout (fst (clock i)) (snd (clock i)) a)]"
  by (induction m) (auto simp: Let_def split_beta)

lemma check_timeouts_domains_find:
  "om_wf al \<Longrightarrow> distinct ds \<Longrightarrow>
     om_wf (fst (check_timeouts_domains clock ds al)) \<and>
     om_find (fst (check_timeouts_domains clock ds al)) d =
       (if d \<in> set ds then map_option (\<lambda>m. fst (check_timeouts_in clock m)) (om_find al d)
        else om_find al d) \<and>
     snd (check_timeouts_domains clock ds al) =
       concat (map (\<lambda>d. map (Pair d) (snd (check_timeouts_in clock (om_get [] d al)))) ds)"
proof (induction clock ds al arbitrary: d rule: check_timeouts_domains.induct)
  case (1 clock al)
  then show ?case by simp
next
  case (2 clock e ds al)
  show ?case
  proof (cases "om_find al e")
    case None
    with 2 show ?thesis by (auto simp: om_get_def)
  next
    case (Some m)
    obtain m' outs where r: "check_timeouts_in clock m = (m', outs)" by fastforce
    have wf: "om_wf (om_put e m' al)" using 2(3) by (rule om_put_wf)
    note IH = 2(2) [OF Some r [symmetric] refl wf]
    have rest: "map (\<lambda>d. map (Pair d) (snd (check_timeouts_in clock (om_get [] d (om_put e m' al))))) ds =
        map (\<lambda>d. map (Pair d) (snd (check_timeouts_in clock (om_get [] d al)))) ds"
      using 2(3,4) by (auto simp: om_get_put)
    have head: "om_get [] e al = m" using Some by (simp add: om_get_def)
    show ?thesis
      using IH [of d] 2(3,4) unfolding rest
      by (auto simp: head Some r om_find_put split_beta)
  qed
qed

text \<open>
  C8: the sweep reports exactly the alerts of the listed domains whose timeout has expired, each
  with its domain, in the order of the domains and of the identifiers, and restarts their timeout;
  every other alert is left as it was.
\<close>

theorem timeout_sweep:
  assumes "om_wf (db_alerts db)" and "distinct ds"
  shows "snd (check_alerts_timeouts clock ds db) =
      [(d, fst (check_timeout (fst (clock i)) (snd (clock i)) a)).
         d \<leftarrow> ds, (i, a) \<leftarrow> om_get [] d (db_alerts db),
         timeout_enabled a \<and>
           time_to_timeout a * ticks_per_ms < fst (clock i) - last_timeout_check_ts a] \<and>
    om_find (om_get [] d (db_alerts (fst (check_alerts_timeouts clock ds db)))) i =
      map_option (\<lambda>a. if d \<in> set ds \<and> timeout_enabled a \<and>
            time_to_timeout a * ticks_per_ms < fst (clock i) - last_timeout_check_ts a
          then a\<lparr>last_timeout_check_ts := snd (clock i)\<rparr> else a)
        (om_find (om_get [] d (db_alerts db)) i)"
proof -
  have out: "snd (check_timeout n n' a) \<longleftrightarrow>
      timeout_enabled a \<and> time_to_timeout a * ticks_per_ms < n - last_timeout_check_ts a" for n n' a
    by (simp add: check_timeout_def)
  have st: "fst (check_timeout n n' a) = (if timeout_enabled a \<and>
      time_to_timeout a * ticks_per_ms < n - last_timeout_check_ts a
      then a\<lparr>last_timeout_check_ts := n'\<rparr> else a)" for n n' a
    by (simp add: check_timeout_def)
  note F = check_timeouts_domains_find [OF assms, of clock d]
  have "snd (check_alerts_timeouts clock ds db) =
      [(d, fst (check_timeout (fst (clock i)) (snd (clock i)) a)).
         d \<leftarrow> ds, (i, a) \<leftarrow> om_get [] d (db_alerts db),
         timeout_enabled a \<and>
           time_to_timeout a * ticks_per_ms < fst (clock i) - last_timeout_check_ts a]"
    using F by (simp add: check_alerts_timeouts_def split_beta check_timeouts_in_out out map_concat
        if_distrib [of "map _"] comp_def case_prod_unfold cong: if_cong)
  moreover have "om_find (om_get [] d (db_alerts (fst (check_alerts_timeouts clock ds db)))) i =
      map_option (\<lambda>a. if d \<in> set ds \<and> timeout_enabled a \<and>
            time_to_timeout a * ticks_per_ms < fst (clock i) - last_timeout_check_ts a
          then a\<lparr>last_timeout_check_ts := snd (clock i)\<rparr> else a)
        (om_find (om_get [] d (db_alerts db)) i)"
    using F by (auto simp: check_alerts_timeouts_def split_beta om_get_def check_timeouts_in_map
        om_find_map st option.map_comp comp_def option.map_ident split: option.split)
  ultimately show ?thesis ..
qed

theorem timeout_sweep_witness:
  "let a = no_data_alert ''m'' (EntityId 2) ''h'' ''u'' ''t'' (Fin 3) 1 5 0;
       db = new_alert_store\<lparr>db_alerts := [(EntityId 2, [(0, a)])]\<rparr>
   in snd (check_alerts_timeouts (\<lambda>_. (6000000, 6000001)) [EntityId 1, EntityId 2] db) =
        [(EntityId 2, a\<lparr>last_timeout_check_ts := 6000001\<rparr>)]"
  using timeout_sweep [of "new_alert_store\<lparr>db_alerts := [(EntityId 2, [(0,
        no_data_alert ''m'' (EntityId 2) ''h'' ''u'' ''t'' (Fin 3) 1 5 0)])]\<rparr>"
      "[EntityId 1, EntityId 2]" "\<lambda>_. (6000000, 6000001)"]
  by (simp add: Let_def new_alert_store_def om_wf_def om_get_def no_data_alert_def make_alert_def
      alert_reset_def check_timeout_def ticks_per_ms_def)

end
