(* ===== verification/Json.thy ===== *)
theory Json
  imports Prelude
begin

text \<open>
  The documents of \<open>nlohmann::json\<close> that the backend builds: what the code uses of the values, an
  object being a \<open>std::map\<close> from strings. A computation on a document may throw in the middle and
  leaves the document as far as it got: it returns its result with the document. The lemmas describe
  an update by the paths it changes.
\<close>

section \<open>Documents\<close>

datatype json =
    JNull
  | JBool bool
  | JNumber int
  | JString string
  | JObject "(string \<times> json) list"

type_synonym 'a json_action = "json \<Rightarrow> 'a result \<times> json"

definition js_return :: "'a \<Rightarrow> 'a json_action" where
  "js_return x j = (Inr x, j)"

definition js_throw :: "exn \<Rightarrow> 'a json_action" where
  "js_throw e j = (Inl e, j)"

definition js_bind :: "'a json_action \<Rightarrow> ('a \<Rightarrow> 'b json_action) \<Rightarrow> 'b json_action" where
  "js_bind m f j = (case m j of (Inl e, j') \<Rightarrow> (Inl e, j') | (Inr x, j') \<Rightarrow> f x j')"

definition js_then :: "'a json_action \<Rightarrow> 'b json_action \<Rightarrow> 'b json_action" where
  "js_then m n = js_bind m (\<lambda>_. n)"

text \<open>A value that does not come from the document: reading it may throw.\<close>

definition js_lift :: "'a result \<Rightarrow> 'a json_action" where
  "js_lift r j = (r, j)"

definition js_set :: "json \<Rightarrow> unit json_action" where
  "js_set v j = (Inr (), v)"

text \<open>
  \<open>j[k]\<close>: null becomes an object, a missing member becomes null, and anything but null and an object
  throws.
\<close>

definition js_at :: "string \<Rightarrow> 'a json_action \<Rightarrow> 'a json_action" where
  "js_at k m j =
     (case (case j of JNull \<Rightarrow> Some [] | JObject mm \<Rightarrow> Some mm | _ \<Rightarrow> None) of
        None \<Rightarrow> (Inl TypeError, j)
      | Some mm \<Rightarrow> (let (r, x) = m (om_get JNull k mm) in (r, JObject (om_put k x mm))))"

abbreviation js_put :: "string \<Rightarrow> json \<Rightarrow> unit json_action" where
  "js_put k v \<equiv> js_at k (js_set v)"

text \<open>\<open>if (j[k] != v) { j[k] = v; changed = true; }\<close>\<close>

definition js_put_changed :: "string \<Rightarrow> json \<Rightarrow> bool json_action" where
  "js_put_changed k v = js_at k (\<lambda>x. if x \<noteq> v then (Inr True, v) else (Inr False, x))"

text \<open>\<open>j.find(k) != j.end()\<close>, \<open>j.empty()\<close> and \<open>j.erase(k)\<close>.\<close>

fun js_has :: "string \<Rightarrow> json \<Rightarrow> bool" where
  "js_has k (JObject mm) = (om_find mm k \<noteq> None)"
| "js_has k j = False"

fun js_empty :: "json \<Rightarrow> bool" where
  "js_empty JNull = True"
| "js_empty (JObject mm) = (mm = [])"
| "js_empty j = False"

fun js_erase :: "string \<Rightarrow> unit json_action" where
  "js_erase k (JObject mm) = (Inr (), JObject (om_erase k mm))"
| "js_erase k j = (Inl TypeError, j)"

lemma js_simps [simp]:
  "js_return x j = (Inr x, j)"
  "js_throw e j = (Inl e, j)"
  "js_lift r j = (r, j)"
  "js_set v j = (Inr (), v)"
  by (simp_all add: js_return_def js_throw_def js_lift_def js_set_def)

lemma js_bind_Inr: "m j = (Inr x, j') \<Longrightarrow> js_bind m f j = f x j'"
  by (simp add: js_bind_def)

section \<open>Members and paths\<close>

text \<open>An object, or the null that becomes one.\<close>

fun members :: "json \<Rightarrow> (string \<times> json) list option" where
  "members JNull = Some []"
| "members (JObject mm) = (if om_wf mm then Some mm else None)"
| "members j = None"

definition js_obj :: "json \<Rightarrow> bool" where
  "js_obj j \<longleftrightarrow> members j \<noteq> None"

definition member :: "string \<Rightarrow> json \<Rightarrow> json option" where
  "member k j = (case members j of None \<Rightarrow> None | Some mm \<Rightarrow> om_find mm k)"

lemma js_obj_null [simp]: "js_obj JNull" "js_obj (JObject [])"
  by (simp_all add: js_obj_def)

lemma member_null [simp]: "member k JNull = None" "member k (JObject []) = None"
  by (simp_all add: member_def)

lemma js_obj_cases:
  assumes "js_obj j"
  obtains mm where "om_wf mm" and "members j = Some mm" and "j = JNull \<and> mm = [] \<or> j = JObject mm"
  using assms by (cases j) (auto simp: js_obj_def split: if_splits)

lemma js_has_member: "js_obj j \<Longrightarrow> js_has k j \<longleftrightarrow> member k j \<noteq> None"
  by (cases j) (auto simp: js_obj_def member_def split: if_splits)

lemma js_empty_member: "js_obj j \<Longrightarrow> js_empty j \<longleftrightarrow> (\<forall>k. member k j = None)"
proof (cases j)
  case (JObject mm)
  then show "js_obj j \<Longrightarrow> ?thesis"
    by (cases mm) (auto simp: js_obj_def member_def split: if_splits)
qed (auto simp: js_obj_def)

definition member_or_null :: "string \<Rightarrow> json \<Rightarrow> json" where
  "member_or_null k j = (case member k j of None \<Rightarrow> JNull | Some x \<Rightarrow> x)"

lemma member_or_null_Some [simp]: "member k j = Some x \<Longrightarrow> member_or_null k j = x"
  by (simp add: member_or_null_def)

lemma member_or_null_None [simp]: "member k j = None \<Longrightarrow> member_or_null k j = JNull"
  by (simp add: member_or_null_def)

text \<open>An update of one member.\<close>

lemma js_at_member:
  assumes "js_obj j" and "m (member_or_null k j) = (r, x)"
  shows "\<exists>j'. js_at k m j = (r, j') \<and> js_obj j' \<and> j' \<noteq> JNull \<and>
    (\<forall>k'. member k' j' = (if k' = k then Some x else member k' j))"
proof -
  obtain mm where mm: "om_wf mm" "members j = Some mm" "j = JNull \<and> mm = [] \<or> j = JObject mm"
    using assms(1) by (rule js_obj_cases)
  have "member_or_null k j = om_get JNull k mm"
    by (simp add: member_or_null_def member_def mm(2) om_get_def)
  moreover have "(case j of JNull \<Rightarrow> Some [] | JObject mm \<Rightarrow> Some mm | _ \<Rightarrow> None) = Some mm"
    using mm(3) by auto
  ultimately have "js_at k m j = (r, JObject (om_put k x mm))"
    using assms(2) by (simp add: js_at_def)
  moreover have "om_wf (om_put k x mm)" using mm(1) by (rule om_put_wf)
  ultimately show ?thesis
    by (simp add: js_obj_def member_def mm(2) om_find_put [OF mm(1)])
qed

lemma js_put_member:
  assumes "js_obj j"
  shows "\<exists>j'. js_put k v j = (Inr (), j') \<and> js_obj j' \<and> j' \<noteq> JNull \<and>
    (\<forall>k'. member k' j' = (if k' = k then Some v else member k' j))"
  by (rule js_at_member [OF assms]) simp

lemma js_put_changed_member:
  assumes "js_obj j"
  shows "\<exists>j'. js_put_changed k v j = (Inr (member_or_null k j \<noteq> v), j') \<and> js_obj j' \<and> j' \<noteq> JNull \<and>
    (\<forall>k'. member k' j' = (if k' = k then Some v else member k' j))"
  unfolding js_put_changed_def by (rule js_at_member [OF assms]) simp

lemma js_erase_member:
  assumes "js_obj j" and "js_has k j"
  shows "\<exists>j'. js_erase k j = (Inr (), j') \<and> js_obj j' \<and> j' \<noteq> JNull \<and>
    (\<forall>k'. member k' j' = (if k' = k then None else member k' j))"
proof -
  obtain mm where mm: "om_wf mm" "j = JObject mm"
    using assms by (cases j) (auto simp: js_obj_def split: if_splits)
  have "om_wf (om_erase k mm)" using mm(1) by (rule om_erase_wf)
  then show ?thesis
    using mm by (auto simp: js_obj_def member_def om_find_erase)
qed

end
