(* ===== verification/DbState.thy ===== *)
theory DbState
  imports Entities Registries Json
begin

text \<open>
  The state of \<open>database::Database\<close> and its lookups. A collection of \<open>std::shared_ptr\<close> is an ordered
  map from identifiers to addresses; the objects themselves are in one store per class. A weak
  pointer is expired when its address is in no store: the collections are the only owners that
  outlive a call. Looking through an expired \<open>fragile_ptr\<close> throws \<open>Inconsistency\<close>. The calls into
  \<open>StatisticsBackendData\<close> are appended to \<open>events\<close>.
\<close>

section \<open>State\<close>

datatype event =
    PhysicalDiscovery EntityId EntityKind DiscoveryStatus
  | DomainEntityDiscovery EntityId EntityId EntityKind DiscoveryStatus
  | AlertTriggered EntityId EntityId AlertInfo string
  | DataAvailable EntityId EntityId DataKind
  | StatusReported EntityId EntityId StatusKind
  | AlertTimedOut EntityId AlertInfo
  | GraphUpdated EntityId

type_synonym domain_collection = "(EntityId, collection) omap"

record 'q database = AlertStore +
  next_addr :: addr
  next_id :: int
  host_objs :: "addr \<Rightarrow> Host option"
  user_objs :: "addr \<Rightarrow> User option"
  process_objs :: "addr \<Rightarrow> Process option"
  domain_objs :: "addr \<Rightarrow> Domain option"
  topic_objs :: "addr \<Rightarrow> Topic option"
  participant_objs :: "addr \<Rightarrow> 'q DomainParticipant option"
  reader_objs :: "addr \<Rightarrow> 'q DataReader option"
  writer_objs :: "addr \<Rightarrow> 'q DataWriter option"
  locator_objs :: "addr \<Rightarrow> Locator option"
  hosts :: collection
  users :: collection
  processes :: collection
  domains :: collection
  locators :: collection
  topics :: domain_collection
  participants :: domain_collection
  datareaders :: domain_collection
  datawriters :: domain_collection
  domain_view_graph :: "(EntityId, json) omap"
  type_idls :: "(string, string) omap"
  type_ros2_unmodified_idl :: "(string, string) omap"
  type_ros2_modified_name :: "(string, string) omap"
  events :: "event list"

definition new_database :: "'q database" where
  "new_database =
     \<lparr>db_alerts = [], db_next_alert_id = 0, db_notifiers = new_notifier_manager, next_addr = 0,
      next_id = 0, host_objs = \<lambda>_. None, user_objs = \<lambda>_. None, process_objs = \<lambda>_. None,
      domain_objs = \<lambda>_. None, topic_objs = \<lambda>_. None, participant_objs = \<lambda>_. None,
      reader_objs = \<lambda>_. None, writer_objs = \<lambda>_. None, locator_objs = \<lambda>_. None, hosts = [],
      users = [], processes = [], domains = [], locators = [], topics = [], participants = [],
      datareaders = [], datawriters = [], domain_view_graph = [], type_idls = [],
      type_ros2_unmodified_idl = [], type_ros2_modified_name = [], events = []\<rparr>"

text \<open>An operation that may throw returns the result and the state it leaves behind either way.\<close>

type_synonym ('q, 'a) action = "'q database \<Rightarrow> 'a result \<times> 'q database"

definition act_bind :: "('q, 'a) action \<Rightarrow> ('a \<Rightarrow> ('q, 'b) action) \<Rightarrow> ('q, 'b) action" where
  "act_bind m f db = (case m db of (Inl e, db') \<Rightarrow> (Inl e, db') | (Inr x, db') \<Rightarrow> f x db')"

definition act_return :: "'a \<Rightarrow> ('q, 'a) action" where
  "act_return x db = (Inr x, db)"

definition emit :: "event \<Rightarrow> 'q database \<Rightarrow> 'q database" where
  "emit ev db = db\<lparr>events := events db @ [ev]\<rparr>"

section \<open>Stores and pointers\<close>

definition obj_update :: "addr \<Rightarrow> ('o \<Rightarrow> 'o) \<Rightarrow> (addr \<Rightarrow> 'o option) \<Rightarrow> addr \<Rightarrow> 'o option" where
  "obj_update a f h = h(a := map_option f (h a))"

lemma obj_update_apply: "obj_update a f h b = (if b = a then map_option f (h a) else h b)"
  by (simp add: obj_update_def)

definition expired_reference :: exn where
  "expired_reference = Inconsistency ''Fragile object trying to use an already destroyed reference.''"

text \<open>\<open>operator->\<close> and \<open>lock\<close> of a \<open>fragile_ptr\<close>; \<open>get\<close> compares like \<open>lock\<close>.\<close>

definition fragile_get :: "(addr \<Rightarrow> 'o option) \<Rightarrow> addr option \<Rightarrow> 'o result" where
  "fragile_get h p =
     (case p of
        None \<Rightarrow> Inl expired_reference
      | Some a \<Rightarrow> (case h a of None \<Rightarrow> Inl expired_reference | Some x \<Rightarrow> Inr x))"

definition fragile_lock :: "(addr \<Rightarrow> 'o option) \<Rightarrow> addr option \<Rightarrow> addr option" where
  "fragile_lock h p =
     (case p of None \<Rightarrow> None | Some a \<Rightarrow> (case h a of None \<Rightarrow> None | Some x \<Rightarrow> Some a))"

definition fragile_expired :: "(addr \<Rightarrow> 'o option) \<Rightarrow> addr option \<Rightarrow> bool" where
  "fragile_expired h p \<longleftrightarrow> fragile_lock h p = None"

text \<open>
  The entries of a collection of \<open>shared_ptr\<close> with their objects. The collection owns its objects,
  so every entry has one (\<open>owned\<close> below).
\<close>

fun live :: "(addr \<Rightarrow> 'o option) \<Rightarrow> collection \<Rightarrow> (EntityId \<times> addr \<times> 'o) list" where
  "live h [] = []"
| "live h ((k, a) # m) = (case h a of Some x \<Rightarrow> (k, a, x) # live h m | None \<Rightarrow> live h m)"

definition live_in :: "(addr \<Rightarrow> 'o option) \<Rightarrow> domain_collection \<Rightarrow>
    (EntityId \<times> EntityId \<times> addr \<times> 'o) list" where
  "live_in h mm = concat (map (\<lambda>(d, m). map (Pair d) (live h m)) mm)"

text \<open>
  A search through a map of \<open>fragile_ptr\<close> stops at the first element that satisfies the condition
  or whose reference has expired.
\<close>

fun fragile_exists :: "(addr \<Rightarrow> 'o option) \<Rightarrow> ('o \<Rightarrow> bool result) \<Rightarrow> collection \<Rightarrow> bool result" where
  "fragile_exists h P [] = Inr False"
| "fragile_exists h P ((k, a) # m) =
     bind_result (fragile_get h (Some a)) (\<lambda>x.
     bind_result (P x) (\<lambda>b. if b then Inr True else fragile_exists h P m))"

lemma live_set:
  "(k, a, x) \<in> set (live h m) \<longleftrightarrow> (k, a) \<in> set m \<and> h a = Some x"
  by (induction h m rule: live.induct) (auto split: option.splits)

lemma live_in_set:
  "(d, k, a, x) \<in> set (live_in h mm) \<longleftrightarrow> (\<exists>m. (d, m) \<in> set mm \<and> (k, a) \<in> set m \<and> h a = Some x)"
  by (force simp: live_in_def live_set)

lemma fragile_exists_all_live:
  "\<forall>(k, a) \<in> set m. \<exists>x. h a = Some x \<and> P x = Inr (Q x) \<Longrightarrow>
     fragile_exists h P m = Inr (\<exists>(k, a, x) \<in> set (live h m). Q x)"
  by (induction h P m rule: fragile_exists.induct)
    (auto simp: fragile_get_def bind_result_def split: if_splits)

section \<open>Ownership\<close>

definition owned :: "(addr \<Rightarrow> 'o option) \<Rightarrow> ('o \<Rightarrow> EntityId) \<Rightarrow> collection \<Rightarrow> bool" where
  "owned h idf m \<longleftrightarrow> om_wf m \<and> (\<forall>(k, a) \<in> set m. \<exists>x. h a = Some x \<and> idf x = k)"

definition owned_in :: "(addr \<Rightarrow> 'o option) \<Rightarrow> ('o \<Rightarrow> EntityId) \<Rightarrow> domain_collection \<Rightarrow> bool" where
  "owned_in h idf mm \<longleftrightarrow> om_wf mm \<and> (\<forall>(d, m) \<in> set mm. owned h idf m)"

lemma owned_find: "owned h idf m \<Longrightarrow> (k, a) \<in> set m \<Longrightarrow> \<exists>x. h a = Some x \<and> idf x = k"
  by (auto simp: owned_def)

lemma owned_put:
  assumes "owned h idf m" and "h a = Some x" and "idf x = k"
  shows "owned h idf (om_put k a m)"
  using assms by (auto simp: owned_def om_put_wf om_put_set)

lemma owned_update_same_id:
  assumes "owned h idf m" and "\<And>x. idf (f x) = idf x"
  shows "owned (obj_update a f h) idf m"
  using assms by (fastforce simp: owned_def obj_update_apply)

lemma owned_update_other:
  assumes "owned h idf m" and "a \<notin> snd ` set m"
  shows "owned (obj_update a f h) idf m"
  using assms by (force simp: owned_def obj_update_apply)

lemma owned_new_other:
  assumes "owned h idf m" and "h a = None"
  shows "owned (h(a := x)) idf m"
  using assms by (fastforce simp: owned_def)

lemma owned_in_update_same_id:
  "owned_in h idf mm \<Longrightarrow> (\<And>x. idf (f x) = idf x) \<Longrightarrow> owned_in (obj_update a f h) idf mm"
  by (auto simp: owned_in_def intro!: owned_update_same_id)

lemma owned_in_get:
  "owned_in h idf mm \<Longrightarrow> owned h idf (om_get [] d mm)"
  by (auto simp: owned_in_def om_get_def owned_def split: option.splits dest!: map_of_SomeD)

lemma owned_in_put:
  assumes "owned_in h idf mm" and "h a = Some x" and "idf x = k"
  shows "owned_in h idf (om_update [] d (om_put k a) mm)"
  using assms owned_put [OF owned_in_get [OF assms(1), of d] assms(2,3)]
  by (auto simp: owned_in_def om_update_def om_put_wf om_put_set)

lemma owned_keys: "owned h idf m \<Longrightarrow> om_keys m = map (\<lambda>(k, a, x). idf x) (live h m)"
  by (induction h m rule: live.induct) (auto simp: owned_def om_wf_Cons split: option.splits)

section \<open>Lookups\<close>

datatype entity_ref =
    HostRef addr | UserRef addr | ProcessRef addr | DomainRef addr | TopicRef addr
  | ParticipantRef addr | DataReaderRef addr | DataWriterRef addr | LocatorRef addr

fun first_some :: "'a option list \<Rightarrow> 'a option" where
  "first_some [] = None"
| "first_some (Some x # xs) = Some x"
| "first_some (None # xs) = first_some xs"

definition find_addr :: "('o \<Rightarrow> bool) \<Rightarrow> (EntityId \<times> addr \<times> 'o) list \<Rightarrow> addr option" where
  "find_addr P xs = map_option (\<lambda>(k, a, x). a) (List.find (\<lambda>(k, a, x). P x) xs)"

definition find_addr_in :: "('o \<Rightarrow> bool) \<Rightarrow> (EntityId \<times> EntityId \<times> addr \<times> 'o) list \<Rightarrow> addr option"
  where
  "find_addr_in P xs = map_option (\<lambda>(d, k, a, x). a) (List.find (\<lambda>(d, k, a, x). P x) xs)"

definition no_such_entity :: "EntityId \<Rightarrow> exn" where
  "no_such_entity i = BadParameter
     (''Database does not contain an entity with ID '' @ to_string_int (entity_value i))"

definition find_entity :: "'q database \<Rightarrow> EntityId \<Rightarrow> entity_ref option" where
  "find_entity db i = first_some
     [map_option HostRef (find_addr (\<lambda>x. e_id x = i) (live (host_objs db) (hosts db))),
      map_option ProcessRef (find_addr (\<lambda>x. e_id x = i) (live (process_objs db) (processes db))),
      map_option UserRef (find_addr (\<lambda>x. e_id x = i) (live (user_objs db) (users db))),
      map_option DomainRef (find_addr (\<lambda>x. e_id x = i) (live (domain_objs db) (domains db))),
      map_option TopicRef (find_addr_in (\<lambda>x. e_id x = i) (live_in (topic_objs db) (topics db))),
      map_option ParticipantRef
        (find_addr_in (\<lambda>x. e_id x = i) (live_in (participant_objs db) (participants db))),
      map_option DataReaderRef
        (find_addr_in (\<lambda>x. e_id x = i) (live_in (reader_objs db) (datareaders db))),
      map_option DataWriterRef
        (find_addr_in (\<lambda>x. e_id x = i) (live_in (writer_objs db) (datawriters db))),
      map_option LocatorRef (find_addr (\<lambda>x. e_id x = i) (live (locator_objs db) (locators db)))]"

definition get_entity_nts :: "'q database \<Rightarrow> EntityId \<Rightarrow> entity_ref result" where
  "get_entity_nts db i =
     (case find_entity db i of Some r \<Rightarrow> Inr r | None \<Rightarrow> Inl (no_such_entity i))"

text \<open>The base-class part of the object behind a reference.\<close>

fun entity_of :: "'q database \<Rightarrow> entity_ref \<Rightarrow> Entity option" where
  "entity_of db (HostRef a) = map_option Entity.truncate (host_objs db a)"
| "entity_of db (UserRef a) = map_option Entity.truncate (user_objs db a)"
| "entity_of db (ProcessRef a) = map_option Entity.truncate (process_objs db a)"
| "entity_of db (DomainRef a) = map_option Entity.truncate (domain_objs db a)"
| "entity_of db (TopicRef a) = map_option Entity.truncate (topic_objs db a)"
| "entity_of db (ParticipantRef a) = map_option Entity.truncate (participant_objs db a)"
| "entity_of db (DataReaderRef a) = map_option Entity.truncate (reader_objs db a)"
| "entity_of db (DataWriterRef a) = map_option Entity.truncate (writer_objs db a)"
| "entity_of db (LocatorRef a) = map_option Entity.truncate (locator_objs db a)"

definition get_entity_field :: "(Entity \<Rightarrow> 'a) \<Rightarrow> 'q database \<Rightarrow> EntityId \<Rightarrow> 'a result" where
  "get_entity_field f db i =
     bind_result (get_entity_nts db i) (\<lambda>r.
       case entity_of db r of Some x \<Rightarrow> Inr (f x) | None \<Rightarrow> Inl NullDereference)"

definition get_entity_kind :: "'q database \<Rightarrow> EntityId \<Rightarrow> EntityKind result" where
  "get_entity_kind = get_entity_field e_kind"

definition get_entity_status :: "'q database \<Rightarrow> EntityId \<Rightarrow> StatusLevel result" where
  "get_entity_status = get_entity_field e_status"

definition is_active :: "'q database \<Rightarrow> EntityId \<Rightarrow> bool result" where
  "is_active = get_entity_field active"

definition is_metatraffic :: "'q database \<Rightarrow> EntityId \<Rightarrow> bool result" where
  "is_metatraffic = get_entity_field metatraffic"

definition is_proxy :: "'q database \<Rightarrow> EntityId \<Rightarrow> bool result" where
  "is_proxy = get_entity_field
     (\<lambda>x. e_discovery_source x = PROXY_SOURCE \<or> e_discovery_source x = INFERRED_SOURCE)"

definition is_entity_present :: "'q database \<Rightarrow> EntityId \<Rightarrow> bool" where
  "is_entity_present db i \<longleftrightarrow> is_ok (get_entity_nts db i)"

definition named :: "string \<Rightarrow> (EntityId \<times> addr \<times> 'o) list \<Rightarrow> ('o \<Rightarrow> string) \<Rightarrow> EntityId list" where
  "named n xs f = [k. (k, a, x) \<leftarrow> xs, f x = n]"

definition named_in ::
  "string \<Rightarrow> (EntityId \<times> EntityId \<times> addr \<times> 'o) list \<Rightarrow> ('o \<Rightarrow> string) \<Rightarrow> (EntityId \<times> EntityId) list" where
  "named_in n xs f = [(d, k). (d, k, a, x) \<leftarrow> xs, f x = n]"

fun get_entities_by_name_nts ::
  "EntityKind \<Rightarrow> string \<Rightarrow> 'q database \<Rightarrow> (EntityId \<times> EntityId) list result" where
  "get_entities_by_name_nts HOST n db =
     Inr (map (Pair invalid_id) (named n (live (host_objs db) (hosts db)) e_name))"
| "get_entities_by_name_nts USER n db =
     Inr (map (Pair invalid_id) (named n (live (user_objs db) (users db)) e_name))"
| "get_entities_by_name_nts PROCESS n db =
     Inr (map (Pair invalid_id) (named n (live (process_objs db) (processes db)) e_name))"
| "get_entities_by_name_nts DOMAIN n db =
     Inr (map (\<lambda>k. (k, k)) (named n (live (domain_objs db) (domains db)) e_name))"
| "get_entities_by_name_nts PARTICIPANT n db =
     Inr (named_in n (live_in (participant_objs db) (participants db)) e_name)"
| "get_entities_by_name_nts TOPIC n db =
     Inr (named_in n (live_in (topic_objs db) (topics db)) e_name)"
| "get_entities_by_name_nts DATAREADER n db =
     Inr (named_in n (live_in (reader_objs db) (datareaders db)) e_name)"
| "get_entities_by_name_nts DATAWRITER n db =
     Inr (named_in n (live_in (writer_objs db) (datawriters db)) e_name)"
| "get_entities_by_name_nts LOCATOR n db =
     Inr (map (Pair invalid_id) (named n (live (locator_objs db) (locators db)) e_name))"
| "get_entities_by_name_nts INVALID_ENTITY n db = Inl (BadParameter ''Incorrect EntityKind'')"

fun kind_value :: "EntityKind \<Rightarrow> int" where
  "kind_value INVALID_ENTITY = 0"
| "kind_value HOST = 1"
| "kind_value USER = 2"
| "kind_value PROCESS = 3"
| "kind_value DOMAIN = 4"
| "kind_value TOPIC = 5"
| "kind_value PARTICIPANT = 6"
| "kind_value DATAWRITER = 7"
| "kind_value DATAREADER = 8"
| "kind_value LOCATOR = 9"

definition no_such_guid :: "EntityKind \<Rightarrow> string \<Rightarrow> exn" where
  "no_such_guid k g = BadParameter (''No entity of type '' @ to_string_int (kind_value k) @
     '' and GUID '' @ g @ '' exists'')"

definition find_guid ::
  "string \<Rightarrow> (EntityId \<times> EntityId \<times> addr \<times> 'o) list \<Rightarrow> ('o \<Rightarrow> string) \<Rightarrow> (EntityId \<times> EntityId) option"
  where
  "find_guid g xs f = map_option (\<lambda>(d, k, a, x). (d, k)) (List.find (\<lambda>(d, k, a, x). f x = g) xs)"

definition get_entity_by_guid_nts ::
  "EntityKind \<Rightarrow> string \<Rightarrow> 'q database \<Rightarrow> (EntityId \<times> EntityId) result" where
  "get_entity_by_guid_nts k g db =
     (let found = (\<lambda>r. case r of Some p \<Rightarrow> Inr p | None \<Rightarrow> Inl (no_such_guid k g))
      in case k of
          PARTICIPANT \<Rightarrow> found (find_guid g (live_in (participant_objs db) (participants db)) guid)
        | DATAREADER \<Rightarrow> found (find_guid g (live_in (reader_objs db) (datareaders db)) guid)
        | DATAWRITER \<Rightarrow> found (find_guid g (live_in (writer_objs db) (datawriters db)) guid)
        | _ \<Rightarrow> Inl (BadParameter ''Incorrect EntityKind''))"

definition get_entity_guid_nts :: "'q database \<Rightarrow> EntityId \<Rightarrow> string result" where
  "get_entity_guid_nts db i =
     bind_result (get_entity_nts db i) (\<lambda>r.
       let guid_of = (\<lambda>x. case x of Some y \<Rightarrow> Inr (guid y) | None \<Rightarrow> Inl NullDereference)
       in case r of
           ParticipantRef a \<Rightarrow> guid_of (map_option DDSEntity.truncate (participant_objs db a))
         | DataReaderRef a \<Rightarrow> guid_of (map_option DDSEntity.truncate (reader_objs db a))
         | DataWriterRef a \<Rightarrow> guid_of (map_option DDSEntity.truncate (writer_objs db a))
         | _ \<Rightarrow> Inl (BadParameter (''Entity with id '' @ to_string_int (entity_value i) @
                  '' is not a DDS Entity'')))"

end
