(* ===== verification/DbInsert.thy ===== *)
theory DbInsert
  imports DbState
begin

text \<open>
  Inserting entities: \<open>Database::insert_nts\<close> for each kind of entity (\<open>database.cpp\<close>) and
  \<open>insert_ddsendpoint_nts\<close> (\<open>database.hpp\<close>). Each definition takes the address of the object and
  the \<open>entity_id\<close> argument and returns the identifier or the exception, with the state left behind.
\<close>

section \<open>Identifiers\<close>

definition generate_entity_id :: "'q database \<Rightarrow> EntityId \<times> 'q database" where
  "generate_entity_id db = (EntityId (next_id db), db\<lparr>next_id := wrap64 (next_id db + 1)\<rparr>)"

definition assign_entity_id :: "EntityId \<Rightarrow> 'q database \<Rightarrow> EntityId \<times> 'q database" where
  "assign_entity_id i db =
     (if \<not> is_valid_and_unique i then generate_entity_id db
      else if next_id db \<le> entity_value i then (i, db\<lparr>next_id := wrap64 (entity_value i + 1)\<rparr>)
      else (i, db))"

section \<open>Checks\<close>

definition throw_if :: "bool \<Rightarrow> string \<Rightarrow> exn option" where
  "throw_if b s = (if b then Some (BadParameter s) else None)"

definition throw_if_result :: "bool result \<Rightarrow> string \<Rightarrow> exn option" where
  "throw_if_result r s = (case r of Inl e \<Rightarrow> Some e | Inr b \<Rightarrow> throw_if b s)"

lemma throw_if_simps [simp]:
  "throw_if b s = None \<longleftrightarrow> \<not> b" "throw_if_result (Inl e) s = Some e"
  "throw_if_result (Inr b) s = throw_if b s"
  by (simp_all add: throw_if_def throw_if_result_def)

lemma throw_if_result_None [simp]: "throw_if_result r s = None \<longleftrightarrow> r = Inr False"
  by (cases r) (simp_all add: throw_if_result_def)

text \<open>The checks run in order; the first that throws decides.\<close>

lemma first_some_None [simp]: "first_some xs = None \<longleftrightarrow> (\<forall>x \<in> set xs. x = None)"
  by (induction xs rule: first_some.induct) auto

definition quoted :: "string \<Rightarrow> string" where
  "quoted s = [CHR 0x27] @ s @ [CHR 0x27]"

definition is_entry :: "addr \<Rightarrow> (EntityId \<times> addr \<times> 'o) list \<Rightarrow> bool" where
  "is_entry a xs \<longleftrightarrow> list_ex (\<lambda>(k, b, x). a = b) xs"

definition points_to_entry :: "addr option \<Rightarrow> (EntityId \<times> addr \<times> 'o) list \<Rightarrow> bool" where
  "points_to_entry p xs \<longleftrightarrow> list_ex (\<lambda>(k, b, x). p = Some b) xs"

definition is_entry_in :: "addr \<Rightarrow> (EntityId \<times> EntityId \<times> addr \<times> 'o) list \<Rightarrow> bool" where
  "is_entry_in a xs \<longleftrightarrow> list_ex (\<lambda>(d, k, b, x). a = b) xs"

text \<open>The checks made for every element of a collection.\<close>

definition each :: "('x \<Rightarrow> exn option list) \<Rightarrow> 'x list \<Rightarrow> exn option list" where
  "each f xs = concat (map f xs)"

lemma each_None [simp]:
  "(\<forall>y \<in> set (each f xs). y = None) \<longleftrightarrow> (\<forall>x \<in> set xs. \<forall>y \<in> set (f x). y = None)"
  by (auto simp: each_def)

text \<open>
  The shape every case has once the entity is cleared: dereference it, run the checks, give it an
  identifier, commit.
\<close>

definition checked_insert ::
  "'x option \<Rightarrow> ('x \<Rightarrow> exn option) \<Rightarrow> EntityId \<Rightarrow> ('x \<Rightarrow> EntityId \<Rightarrow> ('q, EntityId) action) \<Rightarrow>
   ('q, EntityId) action" where
  "checked_insert obj checks i commit db =
     (case obj of
        None \<Rightarrow> (Inl NullDereference, db)
      | Some x \<Rightarrow>
          (case checks x of
             Some e \<Rightarrow> (Inl e, db)
           | None \<Rightarrow> (let (j, db') = assign_entity_id i db in commit x j db')))"

section \<open>Host, user, process\<close>

definition host_checks :: "addr \<Rightarrow> Host \<Rightarrow> 'q database \<Rightarrow> exn option" where
  "host_checks a h db = first_some
     (throw_if (e_name h = []) ''Host name cannot be empty'' #
      each (\<lambda>(k, b, x). [throw_if (a = b) ''Host already exists in the database'',
               throw_if (e_name h = e_name x)
                 (''Host with name '' @ e_name h @ '' already exists in the database'')])
        (live (host_objs db) (hosts db)))"

definition insert_host :: "addr \<Rightarrow> EntityId \<Rightarrow> ('q, EntityId) action" where
  "insert_host a i db =
     (let db = db\<lparr>host_objs := obj_update a clear_host (host_objs db)\<rparr>
      in checked_insert (host_objs db a) (\<lambda>h. host_checks a h db) i
          (\<lambda>h i db. (Inr i, db\<lparr>host_objs := obj_update a (\<lambda>x. x\<lparr>e_id := i\<rparr>) (host_objs db),
             hosts := om_put i a (hosts db)\<rparr>)) db)"

definition user_checks :: "addr \<Rightarrow> User \<Rightarrow> 'q database \<Rightarrow> exn option" where
  "user_checks a u db = first_some
     [throw_if (e_name u = []) ''User name cannot be empty'',
      throw_if (is_entry a (live (user_objs db) (users db))) ''User already exists in the database'',
      throw_if (\<not> points_to_entry (fragile_lock (host_objs db) (u_host u))
          (live (host_objs db) (hosts db))) ''Parent host does not exist in the database'',
      throw_if_result
        (bind_result (fragile_get (host_objs db) (u_host u)) (\<lambda>h.
           fragile_exists (user_objs db) (\<lambda>x. Inr (e_name u = e_name x)) (h_users h)))
        (''Another User with name '' @ quoted (e_name u) @ '' already exists in parent host collection'')]"

definition insert_user :: "addr \<Rightarrow> EntityId \<Rightarrow> ('q, EntityId) action" where
  "insert_user a i db =
     (let db = db\<lparr>user_objs := obj_update a clear_user (user_objs db)\<rparr>
      in checked_insert (user_objs db a) (\<lambda>u. user_checks a u db) i
          (\<lambda>u i db. (Inr i, db\<lparr>user_objs := obj_update a (\<lambda>x. x\<lparr>e_id := i\<rparr>) (user_objs db),
             users := om_put i a (users db),
             host_objs := obj_update (the (u_host u))
               (\<lambda>h. h\<lparr>h_users := om_put i a (h_users h)\<rparr>) (host_objs db)\<rparr>)) db)"

text \<open>
  \<open>hosts_[id]\<close> of an unknown host would create a null entry, and reading its \<open>users\<close> would
  dereference it.
\<close>

definition process_checks :: "addr \<Rightarrow> Process \<Rightarrow> 'q database \<Rightarrow> exn option" where
  "process_checks a p db = first_some
     [throw_if (e_name p = []) ''Process name cannot be empty'',
      throw_if (pid p = []) ''Process PID cannot be empty'',
      throw_if (is_entry a (live (process_objs db) (processes db)))
        ''Process already exists in the database'',
      throw_if (\<not> points_to_entry (fragile_lock (user_objs db) (p_user p))
          (live (user_objs db) (users db))) ''Parent user does not exist in the database'',
      throw_if_result
        (bind_result (fragile_get (user_objs db) (p_user p)) (\<lambda>u.
         bind_result (fragile_get (host_objs db) (u_host u)) (\<lambda>h.
         case om_find (hosts db) (e_id h) of
           None \<Rightarrow> Inl NullDereference
         | Some b \<Rightarrow>
             (case host_objs db b of
                None \<Rightarrow> Inl NullDereference
              | Some h' \<Rightarrow> fragile_exists (user_objs db) (\<lambda>u'.
                  fragile_exists (process_objs db) (\<lambda>x. Inr (pid p = pid x)) (u_processes u'))
                  (h_users h')))))
        (''Another process with PID '' @ quoted (pid p) @ '' already exists in the same host'')]"

definition insert_process :: "addr \<Rightarrow> EntityId \<Rightarrow> ('q, EntityId) action" where
  "insert_process a i db =
     (let db = db\<lparr>process_objs := obj_update a clear_process (process_objs db)\<rparr>
      in checked_insert (process_objs db a) (\<lambda>p. process_checks a p db) i
          (\<lambda>p i db. (Inr i, db\<lparr>process_objs := obj_update a (\<lambda>x. x\<lparr>e_id := i\<rparr>) (process_objs db),
             processes := om_put i a (processes db),
             user_objs := obj_update (the (p_user p))
               (\<lambda>u. u\<lparr>u_processes := om_put i a (u_processes u)\<rparr>) (user_objs db)\<rparr>)) db)"

section \<open>Domain, topic, participant, locator\<close>

definition domain_checks :: "addr \<Rightarrow> Domain \<Rightarrow> 'q database \<Rightarrow> exn option" where
  "domain_checks a d db = first_some
     (throw_if (e_name d = []) ''Domain name cannot be empty'' #
      each (\<lambda>(k, b, x). [throw_if (a = b) ''Domain already exists in the database'',
               throw_if (e_name d = e_name x)
                 (''A Domain with name '' @ quoted (e_name d) @ '' already exists in the database'')])
        (live (domain_objs db) (domains db)))"

definition insert_domain :: "addr \<Rightarrow> EntityId \<Rightarrow> ('q, EntityId) action" where
  "insert_domain a i db =
     (let db = db\<lparr>domain_objs := obj_update a clear_domain (domain_objs db)\<rparr>
      in checked_insert (domain_objs db a) (\<lambda>d. domain_checks a d db) i
          (\<lambda>d i db. (Inr i, db\<lparr>domain_objs := obj_update a (\<lambda>x. x\<lparr>e_id := i\<rparr>) (domain_objs db),
             domains := om_put i a (domains db)\<rparr>)) db)"

definition topic_checks :: "addr \<Rightarrow> Topic \<Rightarrow> 'q database \<Rightarrow> exn option" where
  "topic_checks a t db = first_some
     ([throw_if (e_name t = []) ''Topic name cannot be empty'',
       throw_if (data_type t = []) ''Topic data type cannot be empty'',
       throw_if (\<not> points_to_entry (fragile_lock (domain_objs db) (t_domain t))
           (live (domain_objs db) (domains db))) ''Parent domain does not exist in the database''] @
      (case fragile_get (domain_objs db) (t_domain t) of
         Inl e \<Rightarrow> [Some e]
       | Inr d \<Rightarrow>
           each (\<lambda>(k, b, x). [throw_if (a = b) ''Topic already exists in the database'',
                    throw_if (e_name t = e_name x \<and> data_type t = data_type x)
                      (''A topic with name '' @ quoted (e_name t) @ '' and type '' @
                       quoted (data_type t) @ '' already exists in the database for the same domain'')])
        (live (topic_objs db) (om_get [] (e_id d) (topics db)))))"

text \<open>
  \<open>domains_[topic->domain->id]\<close> reads the domain through the collection; a missing key would be a
  null entry.
\<close>

definition insert_topic :: "addr \<Rightarrow> EntityId \<Rightarrow> ('q, EntityId) action" where
  "insert_topic a i db =
     (let db = db\<lparr>topic_objs := obj_update a clear_topic (topic_objs db)\<rparr>
      in checked_insert (topic_objs db a) (\<lambda>t. topic_checks a t db) i
          (\<lambda>t i db.
             let db = db\<lparr>topic_objs := obj_update a (\<lambda>x. x\<lparr>e_id := i\<rparr>) (topic_objs db)\<rparr>
             in case fragile_get (domain_objs db) (t_domain t) of
                 Inl e \<Rightarrow> (Inl e, db)
               | Inr d \<Rightarrow>
                   (case om_find (domains db) (e_id d) of
                      None \<Rightarrow> (Inl NullDereference, db)
                    | Some b \<Rightarrow>
                        (Inr i, db\<lparr>domain_objs := obj_update b
                            (\<lambda>d. d\<lparr>d_topics := om_put i a (d_topics d)\<rparr>) (domain_objs db),
                          topics := om_update [] (e_id d) (om_put i a) (topics db)\<rparr>))) db)"

definition participant_checks ::
  "('q \<Rightarrow> bool) \<Rightarrow> addr \<Rightarrow> 'q DomainParticipant \<Rightarrow> 'q database \<Rightarrow> exn option" where
  "participant_checks qos_empty a p db = first_some
     ([throw_if (e_name p = []) ''Participant name cannot be empty'',
       throw_if (qos_empty (qos p)) ''Participant QoS cannot be empty'',
       throw_if (guid p = []) ''Participant GUID cannot be empty'',
       throw_if (\<not> points_to_entry (fragile_lock (domain_objs db) (dp_domain p))
           (live (domain_objs db) (domains db))) ''Parent domain does not exist in the database''] @
      each (\<lambda>(d, k, b, x). [throw_if (a = b) ''Participant already exists in the database'',
               throw_if (guid p = guid x)
                 (''A participant with GUID '' @ quoted (guid p) @
                  '' already exists in the database for the same domain'')])
        (live_in (participant_objs db) (participants db)))"

definition insert_participant ::
  "('q \<Rightarrow> bool) \<Rightarrow> addr \<Rightarrow> EntityId \<Rightarrow> ('q, EntityId) action" where
  "insert_participant qos_empty a i db =
     (let db = db\<lparr>participant_objs := obj_update a clear_participant (participant_objs db)\<rparr>
      in checked_insert (participant_objs db a) (\<lambda>p. participant_checks qos_empty a p db) i
          (\<lambda>p i db.
             let db = db\<lparr>participant_objs := obj_update a (\<lambda>x. x\<lparr>e_id := i\<rparr>) (participant_objs db)\<rparr>
             in case fragile_get (domain_objs db) (dp_domain p) of
                 Inl e \<Rightarrow> (Inl e, db)
               | Inr d \<Rightarrow>
                   (Inr i, db\<lparr>domain_objs := obj_update (the (dp_domain p))
                       (\<lambda>d. d\<lparr>d_participants := om_put i a (d_participants d)\<rparr>) (domain_objs db),
                     participants := om_update [] (e_id d) (om_put i a) (participants db)\<rparr>)) db)"

definition locator_checks :: "addr \<Rightarrow> Locator \<Rightarrow> 'q database \<Rightarrow> exn option" where
  "locator_checks a l db = first_some
     (throw_if (e_name l = []) ''Locator name cannot be empty'' #
      each (\<lambda>(k, b, x). [throw_if (a = b) ''Locator already exists in the database'',
               throw_if (e_name l = e_name x)
                 (''Locator with name '' @ e_name l @ '' already exists in the database'')])
        (live (locator_objs db) (locators db)))"

definition insert_locator :: "addr \<Rightarrow> EntityId \<Rightarrow> ('q, EntityId) action" where
  "insert_locator a i db =
     (let db = db\<lparr>locator_objs := obj_update a clear_locator (locator_objs db)\<rparr>
      in checked_insert (locator_objs db a) (\<lambda>l. locator_checks a l db) i
          (\<lambda>l i db. (Inr i, db\<lparr>locator_objs := obj_update a (\<lambda>x. x\<lparr>e_id := i\<rparr>) (locator_objs db),
             locators := om_put i a (locators db)\<rparr>)) db)"

section \<open>Endpoints\<close>

text \<open>
  \<open>insert_ddsendpoint_nts\<close> is a template over \<open>DataReader\<close> and \<open>DataWriter\<close>. What the two
  instances differ in is this record: the store and the collection of the class, and the maps of the
  participant, the topic and the locator that hold endpoints of the class.
\<close>

record ('q, 'e) endpoint_class =
  ec_objs :: "'q database \<Rightarrow> addr \<Rightarrow> ('q, 'e) DDSEndpoint_scheme option"
  ec_set_objs :: "(addr \<Rightarrow> ('q, 'e) DDSEndpoint_scheme option) \<Rightarrow> 'q database \<Rightarrow> 'q database"
  ec_coll :: "'q database \<Rightarrow> domain_collection"
  ec_set_coll :: "domain_collection \<Rightarrow> 'q database \<Rightarrow> 'q database"
  ec_clear :: "('q, 'e) DDSEndpoint_scheme \<Rightarrow> ('q, 'e) DDSEndpoint_scheme"
  ec_add_participant :: "EntityId \<Rightarrow> addr \<Rightarrow> 'q DomainParticipant \<Rightarrow> 'q DomainParticipant"
  ec_add_topic :: "EntityId \<Rightarrow> addr \<Rightarrow> Topic \<Rightarrow> Topic"
  ec_add_locator :: "EntityId \<Rightarrow> addr \<Rightarrow> Locator \<Rightarrow> Locator"
  ec_ref :: "addr \<Rightarrow> endpoint_ref"

type_synonym 'q reader_class = "('q, \<lparr>dr_data :: DataReaderStatisticsData, dr_monitor :: DataReaderMonitorServiceData\<rparr>) endpoint_class"
type_synonym 'q writer_class = "('q, \<lparr>dw_data :: DataWriterStatisticsData, dw_monitor :: DataWriterMonitorServiceData\<rparr>) endpoint_class"

definition reader_class :: "'q reader_class" where
  "reader_class = \<lparr>ec_objs = reader_objs, ec_set_objs = \<lambda>h. reader_objs_update (\<lambda>_. h),
     ec_coll = datareaders, ec_set_coll = \<lambda>c. datareaders_update (\<lambda>_. c),
     ec_clear = clear_datareader,
     ec_add_participant = \<lambda>i a. dp_data_readers_update (om_put i a),
     ec_add_topic = \<lambda>i a. t_data_readers_update (om_put i a),
     ec_add_locator = \<lambda>i a. l_data_readers_update (om_put i a), ec_ref = ReaderRef\<rparr>"

definition writer_class :: "'q writer_class" where
  "writer_class = \<lparr>ec_objs = writer_objs, ec_set_objs = \<lambda>h. writer_objs_update (\<lambda>_. h),
     ec_coll = datawriters, ec_set_coll = \<lambda>c. datawriters_update (\<lambda>_. c),
     ec_clear = clear_datawriter,
     ec_add_participant = \<lambda>i a. dp_data_writers_update (om_put i a),
     ec_add_topic = \<lambda>i a. t_data_writers_update (om_put i a),
     ec_add_locator = \<lambda>i a. l_data_writers_update (om_put i a), ec_ref = WriterRef\<rparr>"

definition ec_update ::
  "('q, 'e) endpoint_class \<Rightarrow> addr \<Rightarrow> (('q, 'e) DDSEndpoint_scheme \<Rightarrow> ('q, 'e) DDSEndpoint_scheme) \<Rightarrow>
   'q database \<Rightarrow> 'q database" where
  "ec_update C a f db = ec_set_objs C (obj_update a f (ec_objs C db)) db"

definition endpoint_checks ::
  "('q, 'e) endpoint_class \<Rightarrow> ('q \<Rightarrow> bool) \<Rightarrow> addr \<Rightarrow> ('q, 'e) DDSEndpoint_scheme \<Rightarrow> 'q database \<Rightarrow>
   exn option" where
  "endpoint_checks C qos_empty a e db = first_some
     ([throw_if (e_name e = []) ''Endpoint name cannot be empty'',
       throw_if (qos_empty (qos e)) ''Endpoint QoS cannot be empty'',
       throw_if (guid e = []) ''Endpoint GUID cannot be empty'',
       throw_if (ep_locators e = []) ''Endpoint locators cannot be empty'',
       throw_if_result
         (bind_result (fragile_get (participant_objs db) (ep_participant e)) (\<lambda>p.
          bind_result (fragile_get (domain_objs db) (dp_domain p)) (\<lambda>d.
          Inr (\<not> points_to_entry (fragile_lock (participant_objs db) (ep_participant e))
            (live (participant_objs db) (om_get [] (e_id d) (participants db)))))))
         ''Parent participant does not exist in the database'',
       throw_if_result
         (bind_result (fragile_get (topic_objs db) (ep_topic e)) (\<lambda>t.
          bind_result (fragile_get (domain_objs db) (t_domain t)) (\<lambda>d.
          Inr (\<not> points_to_entry (fragile_lock (topic_objs db) (ep_topic e))
            (live (topic_objs db) (om_get [] (e_id d) (topics db)))))))
         ''Parent topic does not exist in the database''] @
      each (\<lambda>(d, k, b, x). [throw_if (a = b) ''Endpoint already exists in the database'',
               throw_if (guid e = guid x)
                 (''An endpoint with GUID '' @ quoted (guid e) @ '' already exists in the database'')])
        (live_in (ec_objs C db) (ec_coll C db)))"

text \<open>The map of the endpoint's locators with every locator replaced by the known one of its name.\<close>

fun actual_locators :: "'q database \<Rightarrow> collection \<Rightarrow> collection \<Rightarrow> collection result" where
  "actual_locators db [] acc = Inr acc"
| "actual_locators db ((k, a) # ls) acc =
     bind_result (fragile_get (locator_objs db) (Some a)) (\<lambda>l.
     case named (e_name l) (live (locator_objs db) (locators db)) e_name of
       j # js \<Rightarrow>
         bind_result (get_entity_nts db j) (\<lambda>r.
           case r of
             LocatorRef b \<Rightarrow>
               (case locator_objs db b of
                  Some l' \<Rightarrow> actual_locators db ls (om_put (e_id l') b acc)
                | None \<Rightarrow> Inl NullDereference)
           | _ \<Rightarrow> Inl NullDereference)
     | [] \<Rightarrow>
         if list_ex (\<lambda>(k, b, x). e_name x = e_name l) (live (locator_objs db) acc)
         then actual_locators db ls acc
         else actual_locators db ls (om_put k a acc))"

text \<open>Linking the endpoint with its locators, one by one.\<close>

fun link_locators ::
  "('q, 'e) endpoint_class \<Rightarrow> addr \<Rightarrow> EntityId \<Rightarrow> collection \<Rightarrow> ('q, unit) action" where
  "link_locators C a i [] db = (Inr (), db)"
| "link_locators C a i ((k, b) # ls) db =
     (if om_find (locators db) k = None
      then (Inl (BadParameter ''Locator does not exist in the database''), db)
      else link_locators C a i ls
        (ec_update C a (\<lambda>e. e\<lparr>ep_locators := om_put k b (ep_locators e)\<rparr>)
          (db\<lparr>locator_objs := obj_update b (ec_add_locator C i a) (locator_objs db)\<rparr>)))"

text \<open>
  The assertion that a participant has no meta-traffic endpoint yet, which is compiled out of release
  builds, is left out: the last virtual endpoint becomes the meta-traffic one.
\<close>

definition link_endpoint ::
  "('q, 'e) endpoint_class \<Rightarrow> addr \<Rightarrow> EntityId \<Rightarrow> ('q, 'e) DDSEndpoint_scheme \<Rightarrow> ('q, EntityId) action" where
  "link_endpoint C a i e db =
     (let db = db\<lparr>participant_objs := obj_update (the (ep_participant e))
            (\<lambda>p. let p = ec_add_participant C i a p
                  in if is_virtual_metatraffic e then p\<lparr>meta_traffic_endpoint := Some (ec_ref C a)\<rparr>
                     else p) (participant_objs db)\<rparr>
      in case actual_locators db (ep_locators e) [] of
          Inl ex \<Rightarrow> (Inl ex, db)
        | Inr ls \<Rightarrow>
            act_bind (link_locators C a i ls) (\<lambda>_ db.
              case bind_result (fragile_get (participant_objs db) (ep_participant e)) (\<lambda>p.
                   fragile_get (domain_objs db) (dp_domain p)) of
                Inl ex \<Rightarrow> (Inl ex, db)
              | Inr d \<Rightarrow>
                  (Inr i, ec_set_coll C (om_update [] (e_id d) (om_put i a) (ec_coll C db))
                     (db\<lparr>topic_objs := obj_update (the (ep_topic e)) (ec_add_topic C i a)
                        (topic_objs db)\<rparr>)))
              (ec_update C a (\<lambda>x. x\<lparr>ep_locators := []\<rparr>) db))"

definition insert_ddsendpoint_nts ::
  "('q, 'e) endpoint_class \<Rightarrow> ('q \<Rightarrow> bool) \<Rightarrow> addr \<Rightarrow> EntityId \<Rightarrow> ('q, EntityId) action" where
  "insert_ddsendpoint_nts C qos_empty a i db =
     checked_insert (ec_objs C db a) (\<lambda>e. endpoint_checks C qos_empty a e db) i
       (\<lambda>e i db. link_endpoint C a i e (ec_update C a (\<lambda>x. x\<lparr>e_id := i\<rparr>) db)) db"

definition insert_endpoint ::
  "('q, 'e) endpoint_class \<Rightarrow> ('q \<Rightarrow> bool) \<Rightarrow> addr \<Rightarrow> EntityId \<Rightarrow> ('q, EntityId) action" where
  "insert_endpoint C qos_empty a i db =
     insert_ddsendpoint_nts C qos_empty a i (ec_update C a (ec_clear C) db)"

section \<open>The dispatch\<close>

definition insert_nts :: "('q \<Rightarrow> bool) \<Rightarrow> entity_ref \<Rightarrow> EntityId \<Rightarrow> ('q, EntityId) action" where
  "insert_nts qos_empty r i =
     (case r of
        HostRef a \<Rightarrow> insert_host a i
      | UserRef a \<Rightarrow> insert_user a i
      | ProcessRef a \<Rightarrow> insert_process a i
      | DomainRef a \<Rightarrow> insert_domain a i
      | TopicRef a \<Rightarrow> insert_topic a i
      | ParticipantRef a \<Rightarrow> insert_participant qos_empty a i
      | DataReaderRef a \<Rightarrow> insert_endpoint reader_class qos_empty a i
      | DataWriterRef a \<Rightarrow> insert_endpoint writer_class qos_empty a i
      | LocatorRef a \<Rightarrow> insert_locator a i)"

end
