(* ===== verification/Reports.thy ===== *)
theory Reports
  imports StatData
begin

text \<open>
  What \<open>Database::insert_nts\<close> does with a counter that an entity reports (\<open>database.cpp\<close>): the
  container keeps the increments, \<open>last_reported\<close> the last absolute report. The same code serves
  live reports, the increments of a dump being loaded, and the last report of a dump.
\<close>

section \<open>Reports kept in a list\<close>

text \<open>A sample that is not newer than the last one stored is dropped, except the last report of a dump.\<close>

definition rejects :: "bool \<Rightarrow> bool \<Rightarrow> Timestamp \<Rightarrow> Timestamp \<Rightarrow> bool" where
  "rejects loading last_reported t back \<longleftrightarrow>
     t \<le> back \<and> \<not> (loading \<and> last_reported \<and> t = back)"

definition list_rejects ::
  "bool \<Rightarrow> bool \<Rightarrow> Timestamp \<Rightarrow> 'a StatisticsSample_scheme list \<Rightarrow> bool" where
  "list_rejects loading last_reported t xs \<longleftrightarrow>
     xs \<noteq> [] \<and> rejects loading last_reported t (src_ts (last xs))"

definition report_count ::
  "bool \<Rightarrow> bool \<Rightarrow> EntityCountSample \<Rightarrow> EntityCountSample list \<times> EntityCountSample \<Rightarrow>
   EntityCountSample list \<times> EntityCountSample" where
  "report_count loading last_reported s d =
     (case d of (xs, lr) \<Rightarrow>
        if list_rejects loading last_reported (src_ts s) xs then (xs, lr)
        else if loading
             then (if last_reported then (xs, s) else (xs @ [s], lr))
             else (xs @ [count_minus s lr], s))"

section \<open>Reports kept per locator\<close>

text \<open>
  \<open>it->second.back()\<close> on an empty container is undefined behaviour; it is the result
  \<open>UndefinedBehaviour\<close>, so that its absence is a theorem.
\<close>

definition map_rejects ::
  "bool \<Rightarrow> bool \<Rightarrow> Timestamp \<Rightarrow> 'k \<Rightarrow> ('k, 'a StatisticsSample_scheme list) omap \<Rightarrow> bool result" where
  "map_rejects loading last_reported t k m =
     (case om_find m k of
        None \<Rightarrow> Inr False
      | Some xs \<Rightarrow> if xs = [] then Inl UndefinedBehaviour
                   else Inr (rejects loading last_reported t (src_ts (last xs))))"

definition report_packets ::
  "bool \<Rightarrow> bool \<Rightarrow> EntityId \<Rightarrow> EntityCountSample \<Rightarrow>
   (EntityId, EntityCountSample list) omap \<times> (EntityId, EntityCountSample) omap \<Rightarrow>
   (EntityId, EntityCountSample list) omap \<times> (EntityId, EntityCountSample) omap" where
  "report_packets loading last_reported k s d =
     (case d of (m, lr) \<Rightarrow>
        if loading
        then (if last_reported then (m, om_put k s lr) else (om_update [] k (\<lambda>xs. xs @ [s]) m, lr))
        else (om_update [] k (\<lambda>xs. xs @ [count_minus s (om_get default_count_sample k lr)]) m,
              om_put k s lr))"

text \<open>
  The subtraction of byte counts may throw. By then \<open>operator[]\<close> has inserted the default values
  it refers to (the container first, as C++17 orders the object before the argument).
\<close>

definition report_bytes ::
  "bool \<Rightarrow> bool \<Rightarrow> EntityId \<Rightarrow> ByteCountSample \<Rightarrow>
   (EntityId, ByteCountSample list) omap \<times> (EntityId, ByteCountSample) omap \<Rightarrow>
   unit result \<times> (EntityId, ByteCountSample list) omap \<times> (EntityId, ByteCountSample) omap" where
  "report_bytes loading last_reported k s d =
     (case d of (m, lr) \<Rightarrow>
        if loading
        then (if last_reported then (Inr (), m, om_put k s lr)
              else (Inr (), om_update [] k (\<lambda>xs. xs @ [s]) m, lr))
        else (case byte_minus s (om_get default_byte_sample k lr) of
                Inl e \<Rightarrow> (Inl e, om_update [] k (\<lambda>xs. xs) m, om_update default_byte_sample k (\<lambda>x. x) lr)
              | Inr x \<Rightarrow> (Inr (), om_update [] k (\<lambda>xs. xs @ [x]) m, om_put k s lr)))"

section \<open>What the container holds\<close>

text \<open>
  Between reports: the container is sorted by time, and the last report is not older than the last
  increment.
\<close>

definition report_inv :: "EntityCountSample list \<times> EntityCountSample \<Rightarrow> bool" where
  "report_inv d \<longleftrightarrow> (case d of (xs, lr) \<Rightarrow>
     ts_sorted src_ts xs \<and> (xs \<noteq> [] \<longrightarrow> src_ts (last xs) \<le> src_ts lr))"

lemma report_count_sorted:
  "ts_sorted src_ts xs \<Longrightarrow> ts_sorted src_ts (fst (report_count loading last_reported s (xs, lr)))"
  using ts_sorted_last [of src_ts xs]
  by (fastforce simp: report_count_def list_rejects_def rejects_def ts_sorted_append not_le)

lemma report_count_inv: "report_inv d \<Longrightarrow> report_inv (report_count False False s d)"
  using report_count_sorted [of "fst d" False False s "snd d"]
  by (cases d) (auto simp: report_inv_def report_count_def)

lemma report_counts_inv: "report_inv d \<Longrightarrow> report_inv (fold (report_count False False) ss d)"
  by (induction ss arbitrary: d) (simp_all add: report_count_inv)

text \<open>The reports that are taken: each newer than all taken before it.\<close>

fun taken :: "Timestamp option \<Rightarrow> EntityCountSample list \<Rightarrow> EntityCountSample list" where
  "taken t [] = []"
| "taken None (s # ss) = s # taken (Some (src_ts s)) ss"
| "taken (Some t) (s # ss) =
     (if src_ts s \<le> t then taken (Some t) ss else s # taken (Some (src_ts s)) ss)"

fun increments :: "EntityCountSample \<Rightarrow> EntityCountSample list \<Rightarrow> EntityCountSample list" where
  "increments lr [] = []"
| "increments lr (s # ss) = count_minus s lr # increments s ss"

definition newest :: "EntityCountSample list \<Rightarrow> Timestamp option" where
  "newest xs = (if xs = [] then None else Some (src_ts (last xs)))"

lemma reports_from:
  "fold (report_count False False) ss (xs, lr) =
     (xs @ increments lr (taken (newest xs) ss), last (lr # taken (newest xs) ss))"
proof (induction ss arbitrary: xs lr)
  case Nil
  then show ?case by simp
next
  case (Cons s ss)
  show ?case
  proof (cases "list_rejects False False (src_ts s) xs")
    case True
    then have "newest xs = Some (src_ts (last xs))" "src_ts s \<le> src_ts (last xs)"
      by (auto simp: list_rejects_def rejects_def newest_def)
    with True Cons.IH show ?thesis by (simp add: report_count_def)
  next
    case False
    then have "taken (newest xs) (s # ss) = s # taken (Some (src_ts s)) ss"
      by (auto simp: list_rejects_def rejects_def newest_def)
    moreover have "newest (xs @ [count_minus s lr]) = Some (src_ts s)" by (simp add: newest_def)
    ultimately show ?thesis using False Cons.IH by (simp add: report_count_def)
  qed
qed

lemma increments_sum:
  assumes "sorted_wrt (\<lambda>a b. sample_count a \<le> sample_count b) (lr # ss)"
  shows "(\<Sum>x \<leftarrow> increments lr ss. unat (sample_count x)) + unat (sample_count lr) =
    unat (sample_count (last (lr # ss)))"
  using assms
proof (induction ss arbitrary: lr)
  case Nil
  then show ?case by simp
next
  case (Cons s ss)
  have le: "sample_count lr \<le> sample_count s" using Cons.prems by simp
  have "(\<Sum>x \<leftarrow> increments s ss. unat (sample_count x)) + unat (sample_count s) =
      unat (sample_count (last (s # ss)))"
    using Cons.IH [of s] Cons.prems by simp
  moreover have "unat (sample_count (count_minus s lr)) = unat (sample_count s) - unat (sample_count lr)"
    using le by (simp add: count_minus_def unat_sub)
  moreover have "unat (sample_count lr) \<le> unat (sample_count s)" using le by (simp add: word_le_nat_alt)
  ultimately show ?case by simp
qed

lemma increments_times [simp]: "map src_ts (increments lr ss) = map src_ts ss"
  by (induction ss arbitrary: lr) simp_all

lemma increments_Nil [simp]: "increments lr ss = [] \<longleftrightarrow> ss = []"
  by (cases ss) simp_all

lemma increments_length [simp]: "length (increments lr ss) = length ss"
  by (induction ss arbitrary: lr) simp_all

lemma increments_nth:
  "n < length ss \<Longrightarrow> unat (sample_count (increments lr ss ! n)) =
     unat (sample_count (ss ! n)) - unat (sample_count ((lr # ss) ! n))"
proof (induction ss arbitrary: lr n)
  case (Cons s ss)
  then show ?case by (cases n) (simp_all add: unat_count_minus)
qed simp

text \<open>
  C16: a counter reported any number of times, in any order, to an entity with any increments and any
  last report. The reports taken are those newer than every one stored or taken before; the container
  gains one increment for each of them, at its time, by which the counter rose since the report
  before it (0 when it went down); the last report is the last one taken. So as long as the counter
  does not go down, the new increments add up to its rise since the first base.
\<close>

theorem reports_add_up:
  assumes "fold (report_count False False) ss (xs, lr) = (xs', lr')"
  shows "let new = drop (length xs) xs'; ts = taken (newest xs) ss
    in xs' = xs @ new \<and> map src_ts new = map src_ts ts \<and> lr' = last (lr # ts) \<and>
      (\<forall>n < length new. unat (sample_count (new ! n)) =
         unat (sample_count (ts ! n)) - unat (sample_count ((lr # ts) ! n))) \<and>
      (sorted_wrt (\<lambda>a b. sample_count a \<le> sample_count b) (lr # ts) \<longrightarrow>
         (\<Sum>x \<leftarrow> new. unat (sample_count x)) = unat (sample_count lr') - unat (sample_count lr))"
proof -
  define ts where "ts = taken (newest xs) ss"
  have r: "xs' = xs @ increments lr ts" "lr' = last (lr # ts)"
    using assms by (simp_all add: reports_from ts_def)
  have "(\<Sum>x \<leftarrow> increments lr ts. unat (sample_count x)) =
      unat (sample_count (last (lr # ts))) - unat (sample_count lr)"
    if "sorted_wrt (\<lambda>a b. sample_count a \<le> sample_count b) (lr # ts)"
    using increments_sum [OF that] by simp
  moreover have "\<forall>n < length ts. unat (sample_count (increments lr ts ! n)) =
      unat (sample_count (ts ! n)) - unat (sample_count ((lr # ts) ! n))"
    using increments_nth by blast
  ultimately show ?thesis unfolding Let_def r ts_def [symmetric] by simp
qed

definition example_report :: "int \<Rightarrow> 64 word \<Rightarrow> EntityCountSample" where
  "example_report t n = \<lparr>sample_kind = DATA_COUNT, src_ts = t, sample_count = n\<rparr>"

theorem reports_add_up_witness:
  "\<exists>xs lr. fold (report_count False False) [example_report 1 5, example_report 1 9, example_report 4 8]
       ([example_report 0 2], example_report 0 3) = (example_report 0 2 # xs, lr) \<and> map src_ts xs = [1, 4] \<and>
     (\<Sum>x \<leftarrow> xs. unat (sample_count x)) = 5"
proof -
  obtain xs lr where r: "fold (report_count False False)
      [example_report 1 5, example_report 1 9, example_report 4 8]
      ([example_report 0 2], example_report 0 3) = (xs, lr)"
    by (meson prod.exhaust)
  let ?new = "drop 1 xs"
  have "xs = example_report 0 2 # ?new \<and> map src_ts ?new = [1, 4] \<and>
      (\<Sum>x \<leftarrow> ?new. unat (sample_count x)) = 5"
    using reports_add_up [OF r] by (simp add: example_report_def newest_def Let_def)
  then show ?thesis using r by metis
qed

text \<open>
  Loading what was dumped gives it back: the increments one by one and then the last report,
  whatever live reports the state came from.
\<close>

theorem reload_reports:
  assumes "fold (report_count False False) ss ([], default_count_sample) = (xs, lr)"
  shows "report_count True True lr (fold (report_count True False) xs ([], default_count_sample)) = (xs, lr)"
proof -
  have inv: "report_inv (xs, lr)"
    using report_counts_inv [of "([], default_count_sample)" ss] assms by (simp add: report_inv_def ts_sorted_def)
  have load: "ts_sorted src_ts (ys @ zs) \<Longrightarrow>
      fold (report_count True False) zs (ys, default_count_sample) = (ys @ zs, default_count_sample)" for ys zs
  proof (induction zs arbitrary: ys)
    case Nil
    then show ?case by simp
  next
    case (Cons z zs)
    have "\<not> list_rejects True False (src_ts z) ys"
      using Cons.prems by (cases ys rule: rev_cases) (auto simp: list_rejects_def rejects_def ts_sorted_append)
    with Cons show ?case by (simp add: report_count_def)
  qed
  show ?thesis
    using load [of "[]" xs] inv
    by (auto simp: report_inv_def report_count_def list_rejects_def rejects_def)
qed

theorem reload_reports_witness:
  "report_count True True (example_report 4 8) (fold (report_count True False)
     [example_report 1 5, example_report 4 3] ([], default_count_sample)) =
   ([example_report 1 5, example_report 4 3], example_report 4 8)"
  using reload_reports [of "[example_report 1 5, example_report 4 8]"
      "[example_report 1 5, example_report 4 3]" "example_report 4 8"]
  by (simp add: example_report_def report_count_def list_rejects_def rejects_def count_minus_def
      default_count_sample_def)

section \<open>A report per locator is a report of its own\<close>

definition locator_count ::
  "EntityId \<Rightarrow> (EntityId, EntityCountSample list) omap \<times> (EntityId, EntityCountSample) omap \<Rightarrow>
   EntityCountSample list \<times> EntityCountSample" where
  "locator_count k d = (om_get [] k (fst d), om_get default_count_sample k (snd d))"

lemma map_rejects_wf:
  assumes "mdc_wf src_ts m"
  shows "map_rejects loading last_reported t k m = Inr (list_rejects loading last_reported t (om_get [] k m))"
  using mdc_wf_find [OF assms, of k]
  by (auto simp: map_rejects_def list_rejects_def om_get_def split: option.split)

lemma mdc_append_wf:
  assumes "mdc_wf src_ts m" and "\<not> list_rejects loading False (src_ts s) (om_get [] k m)"
  shows "mdc_wf src_ts (om_update [] k (\<lambda>xs. xs @ [s]) m)"
proof -
  let ?xs = "om_get [] k m"
  have "ts_sorted src_ts ?xs" using assms(1) by (rule mdc_get_sorted)
  then have "ts_sorted src_ts (?xs @ [s])"
    using assms(2) ts_sorted_last [of src_ts ?xs]
    by (fastforce simp: list_rejects_def rejects_def ts_sorted_append not_le)
  then show ?thesis by (auto simp: om_update_def intro: mdc_put_wf [OF assms(1)])
qed

lemma report_packets_wf:
  assumes "mdc_wf src_ts m" and "om_wf lr" and "\<not> list_rejects loading last_reported (src_ts s) (om_get [] k m)"
    and "report_packets loading last_reported k s (m, lr) = (m', lr')"
  shows "mdc_wf src_ts m' \<and> om_wf lr'"
proof -
  have "\<not> list_rejects False False (src_ts s) (om_get [] k m)" if "\<not> loading"
    using assms(3) that by (simp add: list_rejects_def rejects_def)
  then show ?thesis
    using assms mdc_append_wf [of m False "count_minus s (om_get default_count_sample k lr)" k]
      mdc_append_wf [of m loading s k]
    by (auto simp: report_packets_def om_put_wf split: if_splits)
qed

text \<open>
  The reports per locator keep one counter for each locator: with every container sorted and
  none empty, a report that the guard lets through changes the counter of its locator as a report to
  a counter of its own does, leaves every other locator's alone, and keeps the containers in order.
\<close>

theorem report_per_locator:
  assumes "mdc_wf src_ts m" and "om_wf lr" and "map_rejects loading last_reported (src_ts s) k m = Inr False"
    and "report_packets loading last_reported k s (m, lr) = d'"
  shows "locator_count k d' = report_count loading last_reported s (locator_count k (m, lr)) \<and>
    (\<forall>j. j \<noteq> k \<longrightarrow> locator_count j d' = locator_count j (m, lr)) \<and>
    mdc_wf src_ts (fst d') \<and> om_wf (snd d')"
proof -
  have g: "\<not> list_rejects loading last_reported (src_ts s) (om_get [] k m)"
    using assms(3) map_rejects_wf [OF assms(1)] by simp
  have wf: "mdc_wf src_ts (fst d') \<and> om_wf (snd d')"
    using report_packets_wf [OF assms(1,2) g, of "fst d'" "snd d'"] assms(4) by simp
  have om: "om_wf m" using assms(1) by (rule mdc_wf_om)
  have "locator_count k d' = report_count loading last_reported s (locator_count k (m, lr))"
    using assms(4) g om assms(2)
    by (auto simp: report_packets_def locator_count_def report_count_def om_update_def om_get_put)
  moreover have "locator_count j d' = locator_count j (m, lr)" if "j \<noteq> k" for j
    using assms(4) that om assms(2)
    by (auto simp: report_packets_def locator_count_def om_update_def om_get_put)
  ultimately show ?thesis using wf by blast
qed

theorem report_per_locator_witness:
  "report_packets False False (EntityId 7) (example_report 4 9)
     ([(EntityId 7, [example_report 1 5])], [(EntityId 7, example_report 1 5)]) =
   ([(EntityId 7, [example_report 1 5, example_report 4 4])], [(EntityId 7, example_report 4 9)]) \<and>
   locator_count (EntityId 7) ([(EntityId 7, [example_report 1 5, example_report 4 4])],
     [(EntityId 7, example_report 4 9)]) =
   report_count False False (example_report 4 9) ([example_report 1 5], example_report 1 5)"
proof -
  let ?m = "[(EntityId 7, [example_report 1 5])]" and ?lr = "[(EntityId 7, example_report 1 5)]"
  have wf: "mdc_wf src_ts ?m" "om_wf ?lr" by (simp_all add: mdc_wf_def om_wf_def ts_sorted_def)
  have g: "map_rejects False False (src_ts (example_report 4 9)) (EntityId 7) ?m = Inr False"
    by (simp add: map_rejects_def rejects_def example_report_def)
  have r: "report_packets False False (EntityId 7) (example_report 4 9) (?m, ?lr) =
      ([(EntityId 7, [example_report 1 5, example_report 4 4])], [(EntityId 7, example_report 4 9)])"
    by (simp add: report_packets_def om_update_def om_get_def example_report_def count_minus_def)
  show ?thesis using report_per_locator [OF wf g r] r by (simp add: locator_count_def om_get_def)
qed

lemma report_bytes_wf:
  assumes "mdc_wf src_ts m" and "om_wf lr" and "\<not> list_rejects loading last_reported (src_ts s) (om_get [] k m)"
    and "report_bytes loading last_reported k s (m, lr) = (Inr (), m', lr')"
  shows "mdc_wf src_ts m' \<and> om_wf lr'"
proof -
  have "\<not> list_rejects False False (src_ts x) (om_get [] k m)"
    if "\<not> loading" "byte_minus s y = Inr x" for x and y :: ByteCountSample
    using assms(3) that by (auto simp: list_rejects_def rejects_def byte_minus_def Let_def split: if_splits)
  then show ?thesis
    using assms mdc_append_wf [of m False _ k] mdc_append_wf [of m loading s k]
    by (auto simp: report_bytes_def om_put_wf split: if_splits sum.splits)
qed

text \<open>
  A byte count whose subtraction throws can leave an empty container behind for its locator; the
  next report for that locator then reads the last element of an empty container.
\<close>

theorem thrown_report_breaks_next:
  "let s = \<lparr>sample_kind = RTPS_BYTES_SENT, src_ts = 5, byte_count = 0, magnitude_order = - (2 ^ 15)\<rparr>;
       lr = \<lparr>sample_kind = RTPS_BYTES_SENT, src_ts = 4, byte_count = 0, magnitude_order = 1\<rparr>;
       (r, m, _) = report_bytes False False (EntityId 7) s ([], [(EntityId 7, lr)])
   in \<not> is_ok r \<and> m = [(EntityId 7, [])] \<and> map_rejects False False 6 (EntityId 7) m = Inl UndefinedBehaviour"
  by (simp add: report_bytes_def byte_minus_def om_get_def om_update_def map_rejects_def Let_def)

end
