(* ===== verification/Doubles.thy ===== *)
theory Doubles
  imports Backend_Types
begin

text \<open>
  IEEE 754 binary64 arithmetic, round to nearest with ties to even, on the values of \<open>double\<close>. A
  result is the exact rational rounded to the nearest multiple of its unit in the last place;
  magnitudes from \<open>2^1024\<close> on are infinite. The sign of a zero is not represented.
\<close>

section \<open>Rounding\<close>

definition round_half_even :: "rat \<Rightarrow> int" where
  "round_half_even q =
     (let n = \<lfloor>q\<rfloor>; r = q - of_int n
      in if r < 1 / 2 \<or> r = 1 / 2 \<and> even n then n else n + 1)"

definition pow2 :: "int \<Rightarrow> rat" where
  "pow2 e = (if e < 0 then 1 / 2 ^ nat (- e) else 2 ^ nat e)"

text \<open>The \<open>e\<close> with \<open>2^e \<le> q < 2^(e + 1)\<close>, for a positive \<open>q\<close>.\<close>

definition floor_log2 :: "rat \<Rightarrow> int" where
  "floor_log2 q =
     (let (a, b) = quotient_of q; e = int (bit_length (nat a)) - int (bit_length (nat b))
      in if pow2 e \<le> q then e else e - 1)"

text \<open>The exponent of the unit in the last place: 52 below the leading bit, at least that of a subnormal.\<close>

definition ulp_exponent :: "int \<Rightarrow> int" where
  "ulp_exponent e = max (e - 52) (- 1074)"

definition signed_double :: "bool \<Rightarrow> rat \<Rightarrow> double" where
  "signed_double neg x =
     (if 2 ^ 1024 \<le> x then (if neg then NegInf else PosInf) else Fin (if neg then - x else x))"

definition round_double :: "rat \<Rightarrow> double" where
  "round_double q =
     (if q = 0 then Fin 0
      else let u = ulp_exponent (floor_log2 \<bar>q\<bar>)
           in signed_double (q < 0) (of_int (round_half_even (\<bar>q\<bar> / pow2 u)) * pow2 u))"

section \<open>Operations\<close>

fun dadd :: "double \<Rightarrow> double \<Rightarrow> double" where
  "dadd NaN y = NaN"
| "dadd x NaN = NaN"
| "dadd (Fin a) (Fin b) = round_double (a + b)"
| "dadd (Fin a) y = y"
| "dadd x (Fin b) = x"
| "dadd PosInf PosInf = PosInf"
| "dadd NegInf NegInf = NegInf"
| "dadd PosInf NegInf = NaN"
| "dadd NegInf PosInf = NaN"

fun dneg :: "double \<Rightarrow> double" where
  "dneg NaN = NaN"
| "dneg PosInf = NegInf"
| "dneg NegInf = PosInf"
| "dneg (Fin a) = Fin (- a)"

definition dsub :: "double \<Rightarrow> double \<Rightarrow> double" where
  "dsub x y = dadd x (dneg y)"

definition dsign :: "double \<Rightarrow> int" where
  "dsign x = (case x of NaN \<Rightarrow> 0 | PosInf \<Rightarrow> 1 | NegInf \<Rightarrow> - 1 | Fin a \<Rightarrow> if a < 0 then - 1 else if a = 0 then 0 else 1)"

definition infinity :: "int \<Rightarrow> double" where
  "infinity s = (if s = 0 then NaN else if s < 0 then NegInf else PosInf)"

fun dmul :: "double \<Rightarrow> double \<Rightarrow> double" where
  "dmul NaN y = NaN"
| "dmul x NaN = NaN"
| "dmul (Fin a) (Fin b) = round_double (a * b)"
| "dmul x y = infinity (dsign x * dsign y)"

text \<open>Division by a positive number of samples or by two.\<close>

fun ddiv_pos :: "double \<Rightarrow> rat \<Rightarrow> double" where
  "ddiv_pos (Fin a) b = round_double (a / b)"
| "ddiv_pos x b = x"

text \<open>The square root of a natural number, rounded down.\<close>

fun isqrt :: "nat \<Rightarrow> nat" where
  "isqrt n =
     (if n = 0 then 0
      else let r = 2 * isqrt (n div 4) in if (r + 1) * (r + 1) \<le> n then r + 1 else r)"

declare isqrt.simps [simp del]

text \<open>\<open>std::sqrt\<close>, correctly rounded: \<open>s\<close> is the root in units in the last place, rounded down.\<close>

fun dsqrt :: "double \<Rightarrow> double" where
  "dsqrt (Fin a) =
     (if a < 0 then NaN else if a = 0 then Fin 0
      else let u = ulp_exponent (floor_log2 a div 2);
               x = a / (pow2 u * pow2 u);
               s = isqrt (nat \<lfloor>x\<rfloor>);
               h = of_nat s + 1 / 2;
               n = (if h * h < x \<or> h * h = x \<and> odd s then s + 1 else s)
           in Fin (of_nat n * pow2 u))"
| "dsqrt NegInf = NaN"
| "dsqrt x = x"

section \<open>Where nothing is rounded\<close>

lemma round_half_even_int [simp]: "round_half_even (of_int n) = n"
  by (simp add: round_half_even_def)

lemma bit_length_bound: "n < 2 ^ k \<Longrightarrow> bit_length n \<le> k"
proof (induction k arbitrary: n)
  case 0
  then show ?case by (simp add: bit_length.simps)
next
  case (Suc k)
  then have "bit_length (n div 2) \<le> k" by simp
  then show ?case by (simp add: bit_length.simps [of n])
qed

lemma floor_log2_nat: "0 < n \<Longrightarrow> n < 2 ^ k \<Longrightarrow> floor_log2 (of_nat n) \<le> int k - 1"
proof -
  assume n: "0 < n" "n < 2 ^ k"
  have "quotient_of (of_nat n) = (int n, 1)"
    using quotient_of_int [of "int n"] by (simp add: of_int_of_nat_eq)
  moreover have "bit_length 1 = 1" by (simp add: bit_length.simps)
  ultimately show ?thesis
    using bit_length_bound [OF n(2)] by (simp add: floor_log2_def Let_def)
qed

lemma round_double_nat:
  assumes "n \<le> 2 ^ 53"
  shows "round_double (of_nat n) = Fin (of_nat n)"
proof (cases "n = 0")
  case True
  then show ?thesis by (simp add: round_double_def)
next
  case False
  define e where "e = floor_log2 (of_nat n)"
  define u where "u = ulp_exponent e"
  have "\<exists>m :: nat. (of_nat n :: rat) / pow2 u = of_nat m"
  proof (cases "u \<le> 0")
    case True
    then have "(of_nat n :: rat) / pow2 u = of_nat (n * 2 ^ nat (- u))"
      by (cases "u = 0") (simp_all add: pow2_def)
    then show ?thesis by blast
  next
    case u: False
    have "n = 2 ^ 53"
    proof (rule ccontr)
      assume "n \<noteq> 2 ^ 53"
      then have "e \<le> 52" using floor_log2_nat [of n 53] assms False by (simp add: e_def)
      then show False using u by (simp add: u_def ulp_exponent_def)
    qed
    moreover from this have "e \<le> 53" using floor_log2_nat [of n 54] by (simp add: e_def)
    then have "u = 1" using u by (simp add: u_def ulp_exponent_def max_def split: if_splits)
    ultimately have "(of_nat n :: rat) / pow2 u = of_nat (2 ^ 52)" by (simp add: pow2_def)
    then show ?thesis by blast
  qed
  then obtain m :: nat where m: "(of_nat n :: rat) / pow2 u = of_int (int m)" by auto
  have p: "pow2 u \<noteq> 0" by (simp add: pow2_def)
  have "of_int (round_half_even ((of_nat n :: rat) / pow2 u)) * pow2 u = of_nat n"
    unfolding m round_half_even_int using m p by (simp add: field_simps)
  moreover have "(of_nat n :: rat) < 2 ^ 1024"
  proof -
    have "n < 2 ^ 1024" using assms by (rule order.strict_trans1) simp
    then show ?thesis by (metis of_nat_less_iff of_nat_numeral of_nat_power)
  qed
  ultimately show ?thesis
    using False by (simp add: round_double_def Let_def signed_double_def flip: e_def u_def)
qed

lemma dadd_nat: "a + b \<le> 2 ^ 53 \<Longrightarrow> dadd (Fin (of_nat a)) (Fin (of_nat b)) = Fin (of_nat (a + b))"
  using round_double_nat [of "a + b"] by simp

section \<open>Rounding natural numbers\<close>

lemma bit_length_eq: "2 ^ k \<le> n \<Longrightarrow> n < 2 ^ Suc k \<Longrightarrow> bit_length n = Suc k"
proof (induction k arbitrary: n)
  case 0
  then have "n = 1" by simp
  then show ?case by (simp add: bit_length.simps)
next
  case (Suc k)
  then have "bit_length (n div 2) = Suc k" by simp
  moreover have "0 < n" using Suc.prems(1) by (cases n) simp_all
  ultimately show ?case by (simp add: bit_length.simps [of n])
qed

lemma floor_log2_nat_eq:
  assumes "2 ^ k \<le> n" and "n < 2 ^ Suc k"
  shows "floor_log2 (of_nat n) = int k"
proof -
  have "quotient_of (of_nat n) = (int n, 1)"
    using quotient_of_int [of "int n"] by (simp add: of_int_of_nat_eq)
  moreover have "bit_length 1 = 1" by (simp add: bit_length.simps)
  moreover have "(2 :: rat) ^ k \<le> of_nat n" using assms(1) by (metis of_nat_le_iff of_nat_numeral of_nat_power)
  ultimately show ?thesis
    using bit_length_eq [OF assms] by (simp add: floor_log2_def Let_def pow2_def)
qed

lemma round_double_large:
  assumes "2 ^ (52 + j) \<le> n" and "n < 2 ^ (53 + j)"
    and "of_int (round_half_even (of_nat n / 2 ^ j)) * 2 ^ j < (2 :: rat) ^ 1024"
  shows "round_double (of_nat n) = Fin (of_int (round_half_even (of_nat n / 2 ^ j)) * 2 ^ j)"
proof -
  have "floor_log2 (of_nat n) = int (52 + j)" using assms(1,2) by (intro floor_log2_nat_eq) simp_all
  then have "ulp_exponent (floor_log2 (of_nat n)) = int j" by (simp add: ulp_exponent_def)
  moreover have "n \<noteq> 0" using assms(1) by (metis le_zero_eq power_not_zero zero_neq_numeral)
  ultimately show ?thesis
    using assms(3) by (simp add: round_double_def pow2_def signed_double_def Let_def)
qed

lemma round_double_minus: "round_double (- q) = dneg (round_double q)"
  by (auto simp: round_double_def signed_double_def Let_def)

section \<open>The integer root\<close>

lemma isqrt_bounds: "isqrt n * isqrt n \<le> n \<and> n < (isqrt n + 1) * (isqrt n + 1)"
proof (induction n rule: isqrt.induct)
  case (1 n)
  show ?case
  proof (cases "n = 0")
    case True
    then show ?thesis by (simp add: isqrt.simps)
  next
    case False
    define r where "r = isqrt (n div 4)"
    have "r * r \<le> n div 4" "n div 4 < (r + 1) * (r + 1)" using 1 False by (auto simp: r_def)
    then have b: "(2 * r) * (2 * r) \<le> n" "n < (2 * r + 2) * (2 * r + 2)"
      by (auto simp: algebra_simps)
    have "isqrt n = (if (2 * r + 1) * (2 * r + 1) \<le> n then 2 * r + 1 else 2 * r)"
      using False by (simp add: isqrt.simps [of n] r_def Let_def)
    then show ?thesis using b by (auto simp: algebra_simps)
  qed
qed

end
