(* ===== verification/DbSample.thy ===== *)
theory DbSample
  imports DbInsert Reports Doubles
begin

text \<open>
  Inserting statistics samples: \<open>Database::insert_nts\<close> for a \<open>StatisticsSample\<close>, with the creation
  of unknown locators (\<open>get_locator_nts\<close>) and the alerts it triggers
  (\<open>trigger_alerts_of_kind_nts\<close>, \<open>convert_stat_to_string\<close>).
\<close>

section \<open>The sample argument\<close>

text \<open>
  The sample is passed by reference to its base class; \<open>dynamic_cast\<close> asks for its class, which is
  the constructor here. The \<open>kind\<close> is a field of its own.
\<close>

datatype sample_object =
    HistoryLatency HistoryLatencySample
  | NetworkLatency NetworkLatencySample
  | PublicationThroughput EntityDataSample
  | SubscriptionThroughput EntityDataSample
  | RtpsPacketsSent EntityToLocatorCountSample
  | RtpsBytesSent ByteToLocatorCountSample
  | RtpsPacketsLost EntityToLocatorCountSample
  | RtpsBytesLost ByteToLocatorCountSample
  | ResentData EntityCountSample
  | HeartbeatCount EntityCountSample
  | AcknackCount EntityCountSample
  | NackfragCount EntityCountSample
  | GapCount EntityCountSample
  | DataCount EntityCountSample
  | PdpCount EntityCountSample
  | EdpCount EntityCountSample
  | DiscoveryTime DiscoveryTimeSample
  | SampleDatas SampleDatasCountSample
  | PlainSample StatisticsSample

fun object_kind :: "sample_object \<Rightarrow> DataKind" where
  "object_kind (HistoryLatency s) = sample_kind s"
| "object_kind (NetworkLatency s) = sample_kind s"
| "object_kind (PublicationThroughput s) = sample_kind s"
| "object_kind (SubscriptionThroughput s) = sample_kind s"
| "object_kind (RtpsPacketsSent s) = sample_kind s"
| "object_kind (RtpsBytesSent s) = sample_kind s"
| "object_kind (RtpsPacketsLost s) = sample_kind s"
| "object_kind (RtpsBytesLost s) = sample_kind s"
| "object_kind (ResentData s) = sample_kind s"
| "object_kind (HeartbeatCount s) = sample_kind s"
| "object_kind (AcknackCount s) = sample_kind s"
| "object_kind (NackfragCount s) = sample_kind s"
| "object_kind (GapCount s) = sample_kind s"
| "object_kind (DataCount s) = sample_kind s"
| "object_kind (PdpCount s) = sample_kind s"
| "object_kind (EdpCount s) = sample_kind s"
| "object_kind (DiscoveryTime s) = sample_kind s"
| "object_kind (SampleDatas s) = sample_kind s"
| "object_kind (PlainSample s) = sample_kind s"

section \<open>Printing a value\<close>

text \<open>
  \<open>std::fixed << std::setprecision(6)\<close>: the exact value rounded to six decimals, ties to even.
\<close>

definition pad_zeros :: "nat \<Rightarrow> string \<Rightarrow> string" where
  "pad_zeros k s = replicate (k - length s) (CHR ''0'') @ s"

fun print_fixed6 :: "double \<Rightarrow> string" where
  "print_fixed6 NaN = ''nan''"
| "print_fixed6 NegInf = ''-inf''"
| "print_fixed6 PosInf = ''inf''"
| "print_fixed6 (Fin q) =
     (let n = nat (round_half_even (\<bar>q\<bar> * 10 ^ 6))
      in (if q < 0 then ''-'' else []) @ digits_of (n div 10 ^ 6) @ ''.'' @
         pad_zeros 6 (digits_of (n mod 10 ^ 6)))"

definition times_ten :: string where
  "times_ten = [CHR '' '', CHR 0xC3, CHR 0x97] @ '' 10^''"

text \<open>The \<open>static_cast\<close>s agree with the kind; \<open>None\<close> stands for one that does not.\<close>

definition convert_stat_to_string :: "sample_object \<Rightarrow> string option" where
  "convert_stat_to_string ob =
     (let data = (case ob of HistoryLatency s \<Rightarrow> Some (sample_data s) | NetworkLatency s \<Rightarrow> Some (sample_data s)
            | PublicationThroughput s \<Rightarrow> Some (sample_data s) | SubscriptionThroughput s \<Rightarrow> Some (sample_data s)
            | _ \<Rightarrow> None);
          count = (case ob of RtpsPacketsSent s \<Rightarrow> Some (sample_count s) | RtpsPacketsLost s \<Rightarrow> Some (sample_count s)
            | ResentData s \<Rightarrow> Some (sample_count s) | HeartbeatCount s \<Rightarrow> Some (sample_count s)
            | AcknackCount s \<Rightarrow> Some (sample_count s) | NackfragCount s \<Rightarrow> Some (sample_count s)
            | GapCount s \<Rightarrow> Some (sample_count s) | DataCount s \<Rightarrow> Some (sample_count s)
            | PdpCount s \<Rightarrow> Some (sample_count s) | EdpCount s \<Rightarrow> Some (sample_count s)
            | SampleDatas s \<Rightarrow> Some (sample_count s) | _ \<Rightarrow> None)
      in case object_kind ob of
           INVALID_DATA \<Rightarrow> Some []
         | RTPS_BYTES_SENT \<Rightarrow> (case ob of RtpsBytesSent s \<Rightarrow> Some (to_string_int (uint (byte_count s)) @
               times_ten @ to_string_int (sint (magnitude_order s))) | _ \<Rightarrow> None)
         | RTPS_BYTES_LOST \<Rightarrow> (case ob of RtpsBytesLost s \<Rightarrow> Some (to_string_int (uint (byte_count s)) @
               times_ten @ to_string_int (sint (magnitude_order s))) | _ \<Rightarrow> None)
         | DISCOVERY_TIME \<Rightarrow> (case ob of DiscoveryTime s \<Rightarrow>
               Some (to_string_int (sgn (sample_time s) * (\<bar>sample_time s\<bar> div ticks_per_ms)) @ '' ms'')
             | _ \<Rightarrow> None)
         | k \<Rightarrow> if k \<in> {FASTDDS_LATENCY, NETWORK_LATENCY, PUBLICATION_THROUGHPUT, SUBSCRIPTION_THROUGHPUT}
                then map_option print_fixed6 data
                else map_option (\<lambda>n. to_string_int (uint n)) count)"

section \<open>Unknown locators are created\<close>

definition get_locator_nts :: "EntityId \<Rightarrow> ('q, addr) action" where
  "get_locator_nts i db =
     (case om_find (locators db) i of
        Some a \<Rightarrow> (Inr a, db)
      | None \<Rightarrow>
          (let a = next_addr db;
               db = db\<lparr>next_addr := Suc a,
                  locator_objs := (locator_objs db)(a \<mapsto>
                    new_locator (''locator_'' @ to_string_int (entity_value i)))\<rparr>
           in case insert_locator a i db of
               (Inl e, db) \<Rightarrow> (Inl e, db\<lparr>locator_objs := (locator_objs db)(a := None)\<rparr>)
             | (Inr j, db) \<Rightarrow> (Inr a, emit (PhysicalDiscovery j LOCATOR DISCOVERY) db)))"

section \<open>Triggering alerts\<close>

text \<open>The names of the topic, the user and the host an endpoint belongs to.\<close>

definition endpoint_names ::
  "('q, 'e) DDSEndpoint_scheme \<Rightarrow> 'q database \<Rightarrow> (string \<times> string \<times> string) result" where
  "endpoint_names e db =
     bind_result (fragile_get (topic_objs db) (ep_topic e)) (\<lambda>t.
     bind_result (fragile_get (participant_objs db) (ep_participant e)) (\<lambda>p.
     bind_result (fragile_get (process_objs db) (dp_process p)) (\<lambda>pr.
     bind_result (fragile_get (user_objs db) (p_user pr)) (\<lambda>u.
     bind_result (fragile_get (host_objs db) (u_host u)) (\<lambda>h.
       Inr (e_name h, e_name u, e_name t))))))"

text \<open>
  The loop over the alerts of a domain. \<open>clock i\<close> has the clock readings made for alert \<open>i\<close>: when
  it is evaluated, when its period is checked, and when it is reset. The alerts that fired, as they
  are when the callback is made, are the last result.
\<close>

fun trigger_alerts_in ::
  "(AlertId \<Rightarrow> Timestamp \<times> Timestamp \<times> Timestamp) \<Rightarrow> (string \<times> string \<times> string) result \<Rightarrow> AlertKind \<Rightarrow>
   alert_value \<Rightarrow> (AlertId, AlertInfo) omap \<Rightarrow> unit result \<times> (AlertId, AlertInfo) omap \<times> AlertInfo list" where
  "trigger_alerts_in clock names kind v [] = (Inr (), [], [])"
| "trigger_alerts_in clock names kind v ((i, a) # m) =
     (if alert_kind a = kind
      then (case names of
              Inl e \<Rightarrow> (Inl e, (i, a) # m, [])
            | Inr (h, u, t) \<Rightarrow>
                (case clock i of (now, now', now'') \<Rightarrow>
                 let (a', fired) = evaluate_alert now now' now'' h u t v a;
                     (r, m', out) = trigger_alerts_in clock names kind v m
                 in (r, (i, a') # m', (if fired then a' # out else out))))
      else (let (r, m', out) = trigger_alerts_in clock names kind v m in (r, (i, a) # m', out)))"

definition trigger_alerts_of_kind_nts ::
  "(AlertId \<Rightarrow> Timestamp \<times> Timestamp \<times> Timestamp) \<Rightarrow> EntityId \<Rightarrow> EntityId \<Rightarrow> ('q, 'e) DDSEndpoint_scheme \<Rightarrow>
   AlertKind \<Rightarrow> alert_value \<Rightarrow> sample_object \<Rightarrow> ('q, unit) action" where
  "trigger_alerts_of_kind_nts clock d i e kind v ob db =
     (let (r, m, out) = trigger_alerts_in clock (endpoint_names e db) kind v (om_get [] d (db_alerts db))
      in (r, db\<lparr>db_alerts := om_put d m (db_alerts db),
               events := events db @ map (\<lambda>a. AlertTriggered d i a (the (convert_stat_to_string ob))) out\<rparr>))"

section \<open>Storing a sample\<close>

definition known :: "domain_collection \<Rightarrow> EntityId \<Rightarrow> EntityId \<Rightarrow> addr option" where
  "known mm d i = (case om_find mm d of None \<Rightarrow> None | Some m \<Rightarrow> om_find m i)"

definition not_known :: "string \<Rightarrow> EntityId \<Rightarrow> EntityId \<Rightarrow> exn" where
  "not_known what d i = BadParameter (to_string_int (entity_value i) @ '' does not refer to a known '' @ what @
     '' in domain '' @ to_string_int (entity_value d))"

definition on_entity ::
  "string \<Rightarrow> domain_collection \<Rightarrow> (addr \<Rightarrow> 'o option) \<Rightarrow> EntityId \<Rightarrow> EntityId \<Rightarrow>
   (addr \<Rightarrow> 'o \<Rightarrow> ('q, unit) action) \<Rightarrow> ('q, unit) action" where
  "on_entity what mm h d i f db =
     (case known mm d i of
        None \<Rightarrow> (Inl (not_known what d i), db)
      | Some a \<Rightarrow> (case h a of None \<Rightarrow> (Inl NullDereference, db) | Some x \<Rightarrow> f a x db))"

definition set_participant_data ::
  "addr \<Rightarrow> (DomainParticipantStatisticsData \<Rightarrow> DomainParticipantStatisticsData) \<Rightarrow> 'q database \<Rightarrow> 'q database" where
  "set_participant_data a f db = db\<lparr>participant_objs :=
     obj_update a (\<lambda>p. p\<lparr>dp_data := f (dp_data p)\<rparr>) (participant_objs db)\<rparr>"

definition set_reader_data ::
  "addr \<Rightarrow> (DataReaderStatisticsData \<Rightarrow> DataReaderStatisticsData) \<Rightarrow> 'q database \<Rightarrow> 'q database" where
  "set_reader_data a f db = db\<lparr>reader_objs :=
     obj_update a (\<lambda>r. r\<lparr>dr_data := f (dr_data r)\<rparr>) (reader_objs db)\<rparr>"

definition set_writer_data ::
  "addr \<Rightarrow> (DataWriterStatisticsData \<Rightarrow> DataWriterStatisticsData) \<Rightarrow> 'q database \<Rightarrow> 'q database" where
  "set_writer_data a f db = db\<lparr>writer_objs :=
     obj_update a (\<lambda>w. w\<lparr>dw_data := f (dw_data w)\<rparr>) (writer_objs db)\<rparr>"

text \<open>Time series kept per key: the latencies and the discovery times.\<close>

definition push_keyed ::
  "'k::linorder \<Rightarrow> 'a StatisticsSample_scheme \<Rightarrow> ('k, 'a StatisticsSample_scheme list) omap \<Rightarrow>
   ('k, 'a StatisticsSample_scheme list) omap option result" where
  "push_keyed k s m =
     bind_result (map_rejects False False (src_ts s) k m) (\<lambda>b.
       Inr (if b then None else Some (om_update [] k (\<lambda>xs. xs @ [s]) m)))"

definition insert_fastdds_latency ::
  "HistoryLatencySample \<Rightarrow> EntityId \<Rightarrow> EntityId \<Rightarrow> ('q, unit) action" where
  "insert_fastdds_latency s d i db =
     on_entity ''datawriter'' (datawriters db) (writer_objs db) d i (\<lambda>a w db.
       case push_keyed (latency_reader s) (EntityDataSample.truncate s) (history2history_latency (dw_data w)) of
         Inl e \<Rightarrow> (Inl e, db)
       | Inr None \<Rightarrow> (Inr (), db)
       | Inr (Some m) \<Rightarrow> (Inr (), set_writer_data a (history2history_latency_update (\<lambda>_. m)) db)) db"

definition insert_network_latency ::
  "NetworkLatencySample \<Rightarrow> EntityId \<Rightarrow> EntityId \<Rightarrow> ('q, unit) action" where
  "insert_network_latency s d i db =
     on_entity ''participant'' (participants db) (participant_objs db) d i (\<lambda>a p db.
       case push_keyed (latency_remote_locator s) (EntityDataSample.truncate s)
              (network_latency_per_locator (dp_data p)) of
         Inl e \<Rightarrow> (Inl e, db)
       | Inr None \<Rightarrow> (Inr (), db)
       | Inr (Some m) \<Rightarrow> (Inr (), set_participant_data a (network_latency_per_locator_update (\<lambda>_. m)) db)) db"

definition insert_discovery_time ::
  "DiscoveryTimeSample \<Rightarrow> EntityId \<Rightarrow> EntityId \<Rightarrow> ('q, unit) action" where
  "insert_discovery_time s d i db =
     on_entity ''participant'' (participants db) (participant_objs db) d i (\<lambda>a p db.
       case push_keyed (remote_entity s) s (discovered_entity (dp_data p)) of
         Inl e \<Rightarrow> (Inl e, db)
       | Inr None \<Rightarrow> (Inr (), db)
       | Inr (Some m) \<Rightarrow> (Inr (), set_participant_data a (discovered_entity_update (\<lambda>_. m)) db)) db"

text \<open>Only the newest sample of a sequence number is kept.\<close>

definition insert_sample_datas ::
  "SampleDatasCountSample \<Rightarrow> EntityId \<Rightarrow> EntityId \<Rightarrow> ('q, unit) action" where
  "insert_sample_datas s d i db =
     on_entity ''datawriter'' (datawriters db) (writer_objs db) d i (\<lambda>a w db.
       case map_rejects False False (src_ts s) (sequence_number s) (sample_datas (dw_data w)) of
         Inl e \<Rightarrow> (Inl e, db)
       | Inr True \<Rightarrow> (Inr (), db)
       | Inr False \<Rightarrow> (Inr (), set_writer_data a (\<lambda>x. x\<lparr>sample_datas :=
           om_put (sequence_number s) [EntityCountSample.truncate s] (sample_datas x)\<rparr>) db)) db"

definition insert_publication_throughput ::
  "EntityDataSample \<Rightarrow> EntityId \<Rightarrow> EntityId \<Rightarrow> ('q, unit) action" where
  "insert_publication_throughput s d i db =
     on_entity ''datawriter'' (datawriters db) (writer_objs db) d i (\<lambda>a w db.
       if dc_is_old src_ts (src_ts s) (publication_throughput (dw_data w)) then (Inr (), db)
       else (Inr (), set_writer_data a (publication_throughput_update (\<lambda>xs. xs @ [s])) db)) db"

definition insert_subscription_throughput ::
  "(AlertId \<Rightarrow> Timestamp \<times> Timestamp \<times> Timestamp) \<Rightarrow> EntityDataSample \<Rightarrow> EntityId \<Rightarrow> EntityId \<Rightarrow>
   ('q, unit) action" where
  "insert_subscription_throughput clock s d i db =
     on_entity ''datareader'' (datareaders db) (reader_objs db) d i (\<lambda>a r db.
       if dc_is_old src_ts (src_ts s) (subscription_throughput (dr_data r)) then (Inr (), db)
       else trigger_alerts_of_kind_nts clock d i r NO_DATA_ALERT (DoubleValue (sample_data s))
              (SubscriptionThroughput s)
              (set_reader_data a (subscription_throughput_update (\<lambda>xs. xs @ [s])) db)) db"

section \<open>Counters\<close>

text \<open>
  The cases for the counters of writers, readers and participants differ in the fields alone; \<open>get\<close>
  and \<open>put\<close> are the container with its last report.
\<close>

definition insert_writer_count ::
  "(DataWriterStatisticsData \<Rightarrow> EntityCountSample list \<times> EntityCountSample) \<Rightarrow>
   (EntityCountSample list \<times> EntityCountSample \<Rightarrow> DataWriterStatisticsData \<Rightarrow> DataWriterStatisticsData) \<Rightarrow>
   bool \<Rightarrow> bool \<Rightarrow> EntityCountSample \<Rightarrow> EntityId \<Rightarrow> EntityId \<Rightarrow> ('q, unit) action" where
  "insert_writer_count get put loading last_reported s d i db =
     on_entity ''datawriter'' (datawriters db) (writer_objs db) d i (\<lambda>a w db.
       (Inr (), set_writer_data a (\<lambda>x. put (report_count loading last_reported s (get x)) x) db)) db"

definition insert_reader_count ::
  "(DataReaderStatisticsData \<Rightarrow> EntityCountSample list \<times> EntityCountSample) \<Rightarrow>
   (EntityCountSample list \<times> EntityCountSample \<Rightarrow> DataReaderStatisticsData \<Rightarrow> DataReaderStatisticsData) \<Rightarrow>
   bool \<Rightarrow> bool \<Rightarrow> EntityCountSample \<Rightarrow> EntityId \<Rightarrow> EntityId \<Rightarrow> ('q, unit) action" where
  "insert_reader_count get put loading last_reported s d i db =
     on_entity ''datareader'' (datareaders db) (reader_objs db) d i (\<lambda>a r db.
       (Inr (), set_reader_data a (\<lambda>x. put (report_count loading last_reported s (get x)) x) db)) db"

definition insert_participant_count ::
  "(DomainParticipantStatisticsData \<Rightarrow> EntityCountSample list \<times> EntityCountSample) \<Rightarrow>
   (EntityCountSample list \<times> EntityCountSample \<Rightarrow> DomainParticipantStatisticsData \<Rightarrow>
      DomainParticipantStatisticsData) \<Rightarrow>
   bool \<Rightarrow> bool \<Rightarrow> EntityCountSample \<Rightarrow> EntityId \<Rightarrow> EntityId \<Rightarrow> ('q, unit) action" where
  "insert_participant_count get put loading last_reported s d i db =
     on_entity ''participant'' (participants db) (participant_objs db) d i (\<lambda>a p db.
       (Inr (), set_participant_data a (\<lambda>x. put (report_count loading last_reported s (get x)) x) db)) db"

definition insert_resent_datas :: "bool \<Rightarrow> bool \<Rightarrow> EntityCountSample \<Rightarrow> EntityId \<Rightarrow> EntityId \<Rightarrow> ('q, unit) action" where
  "insert_resent_datas = insert_writer_count (\<lambda>x. (resent_datas x, last_reported_resent_datas x))
     (\<lambda>(xs, lr) x. x\<lparr>resent_datas := xs, last_reported_resent_datas := lr\<rparr>)"

definition insert_heartbeat_count :: "bool \<Rightarrow> bool \<Rightarrow> EntityCountSample \<Rightarrow> EntityId \<Rightarrow> EntityId \<Rightarrow> ('q, unit) action" where
  "insert_heartbeat_count = insert_writer_count (\<lambda>x. (heartbeat_count x, last_reported_heartbeat_count x))
     (\<lambda>(xs, lr) x. x\<lparr>heartbeat_count := xs, last_reported_heartbeat_count := lr\<rparr>)"

definition insert_gap_count :: "bool \<Rightarrow> bool \<Rightarrow> EntityCountSample \<Rightarrow> EntityId \<Rightarrow> EntityId \<Rightarrow> ('q, unit) action" where
  "insert_gap_count = insert_writer_count (\<lambda>x. (gap_count x, last_reported_gap_count x))
     (\<lambda>(xs, lr) x. x\<lparr>gap_count := xs, last_reported_gap_count := lr\<rparr>)"

definition insert_acknack_count :: "bool \<Rightarrow> bool \<Rightarrow> EntityCountSample \<Rightarrow> EntityId \<Rightarrow> EntityId \<Rightarrow> ('q, unit) action" where
  "insert_acknack_count = insert_reader_count (\<lambda>x. (acknack_count x, last_reported_acknack_count x))
     (\<lambda>(xs, lr) x. x\<lparr>acknack_count := xs, last_reported_acknack_count := lr\<rparr>)"

definition insert_nackfrag_count :: "bool \<Rightarrow> bool \<Rightarrow> EntityCountSample \<Rightarrow> EntityId \<Rightarrow> EntityId \<Rightarrow> ('q, unit) action" where
  "insert_nackfrag_count = insert_reader_count (\<lambda>x. (nackfrag_count x, last_reported_nackfrag_count x))
     (\<lambda>(xs, lr) x. x\<lparr>nackfrag_count := xs, last_reported_nackfrag_count := lr\<rparr>)"

definition insert_pdp_packets :: "bool \<Rightarrow> bool \<Rightarrow> EntityCountSample \<Rightarrow> EntityId \<Rightarrow> EntityId \<Rightarrow> ('q, unit) action" where
  "insert_pdp_packets = insert_participant_count (\<lambda>x. (pdp_packets x, last_reported_pdp_packets x))
     (\<lambda>(xs, lr) x. x\<lparr>pdp_packets := xs, last_reported_pdp_packets := lr\<rparr>)"

definition insert_edp_packets :: "bool \<Rightarrow> bool \<Rightarrow> EntityCountSample \<Rightarrow> EntityId \<Rightarrow> EntityId \<Rightarrow> ('q, unit) action" where
  "insert_edp_packets = insert_participant_count (\<lambda>x. (edp_packets x, last_reported_edp_packets x))
     (\<lambda>(xs, lr) x. x\<lparr>edp_packets := xs, last_reported_edp_packets := lr\<rparr>)"

text \<open>The data count also triggers the alerts for new data, when the sample was not rejected.\<close>

definition insert_data_count ::
  "(AlertId \<Rightarrow> Timestamp \<times> Timestamp \<times> Timestamp) \<Rightarrow> bool \<Rightarrow> bool \<Rightarrow> EntityCountSample \<Rightarrow> EntityId \<Rightarrow> EntityId \<Rightarrow>
   ('q, unit) action" where
  "insert_data_count clock loading last_reported s d i db =
     on_entity ''datawriter'' (datawriters db) (writer_objs db) d i (\<lambda>a w db.
       if list_rejects loading last_reported (src_ts s) (data_count (dw_data w)) then (Inr (), db)
       else trigger_alerts_of_kind_nts clock d i w NEW_DATA_ALERT (CountValue (sample_count s)) (DataCount s)
         (set_writer_data a (\<lambda>x. case report_count loading last_reported s (data_count x, last_reported_data_count x) of
            (xs, lr) \<Rightarrow> x\<lparr>data_count := xs, last_reported_data_count := lr\<rparr>) db)) db"

text \<open>The four counters a participant keeps per remote locator.\<close>

definition insert_rtps_packets ::
  "(DomainParticipantStatisticsData \<Rightarrow>
      (EntityId, EntityCountSample list) omap \<times> (EntityId, EntityCountSample) omap) \<Rightarrow>
   ((EntityId, EntityCountSample list) omap \<times> (EntityId, EntityCountSample) omap \<Rightarrow>
      DomainParticipantStatisticsData \<Rightarrow> DomainParticipantStatisticsData) \<Rightarrow>
   bool \<Rightarrow> bool \<Rightarrow> EntityToLocatorCountSample \<Rightarrow> EntityId \<Rightarrow> EntityId \<Rightarrow> ('q, unit) action" where
  "insert_rtps_packets get put loading last_reported s d i db =
     on_entity ''participant'' (participants db) (participant_objs db) d i (\<lambda>a p db.
       case map_rejects loading last_reported (src_ts s) (count_remote_locator s) (fst (get (dp_data p))) of
         Inl e \<Rightarrow> (Inl e, db)
       | Inr True \<Rightarrow> (Inr (), db)
       | Inr False \<Rightarrow>
           act_bind (get_locator_nts (count_remote_locator s)) (\<lambda>_ db.
             (Inr (), set_participant_data a (\<lambda>x. put (report_packets loading last_reported
                (count_remote_locator s) (EntityCountSample.truncate s) (get x)) x) db)) db) db"

definition insert_rtps_packets_sent ::
  "bool \<Rightarrow> bool \<Rightarrow> EntityToLocatorCountSample \<Rightarrow> EntityId \<Rightarrow> EntityId \<Rightarrow> ('q, unit) action" where
  "insert_rtps_packets_sent = insert_rtps_packets
     (\<lambda>x. (rtps_packets_sent x, last_reported_rtps_packets_sent_count x))
     (\<lambda>(m, lr) x. x\<lparr>rtps_packets_sent := m, last_reported_rtps_packets_sent_count := lr\<rparr>)"

definition insert_rtps_packets_lost ::
  "bool \<Rightarrow> bool \<Rightarrow> EntityToLocatorCountSample \<Rightarrow> EntityId \<Rightarrow> EntityId \<Rightarrow> ('q, unit) action" where
  "insert_rtps_packets_lost = insert_rtps_packets
     (\<lambda>x. (rtps_packets_lost x, last_reported_rtps_packets_lost_count x))
     (\<lambda>(m, lr) x. x\<lparr>rtps_packets_lost := m, last_reported_rtps_packets_lost_count := lr\<rparr>)"

definition insert_rtps_bytes ::
  "(DomainParticipantStatisticsData \<Rightarrow>
      (EntityId, ByteCountSample list) omap \<times> (EntityId, ByteCountSample) omap) \<Rightarrow>
   ((EntityId, ByteCountSample list) omap \<times> (EntityId, ByteCountSample) omap \<Rightarrow>
      DomainParticipantStatisticsData \<Rightarrow> DomainParticipantStatisticsData) \<Rightarrow>
   bool \<Rightarrow> bool \<Rightarrow> ByteToLocatorCountSample \<Rightarrow> EntityId \<Rightarrow> EntityId \<Rightarrow> ('q, unit) action" where
  "insert_rtps_bytes get put loading last_reported s d i db =
     on_entity ''participant'' (participants db) (participant_objs db) d i (\<lambda>a p db.
       case map_rejects loading last_reported (src_ts s) (byte_remote_locator s) (fst (get (dp_data p))) of
         Inl e \<Rightarrow> (Inl e, db)
       | Inr True \<Rightarrow> (Inr (), db)
       | Inr False \<Rightarrow>
           act_bind (get_locator_nts (byte_remote_locator s)) (\<lambda>_ db.
             case report_bytes loading last_reported (byte_remote_locator s) (ByteCountSample.truncate s)
                    (get (dp_data p)) of
               (r, d') \<Rightarrow> (r, set_participant_data a (put d') db)) db) db"

definition insert_rtps_bytes_sent ::
  "bool \<Rightarrow> bool \<Rightarrow> ByteToLocatorCountSample \<Rightarrow> EntityId \<Rightarrow> EntityId \<Rightarrow> ('q, unit) action" where
  "insert_rtps_bytes_sent = insert_rtps_bytes
     (\<lambda>x. (rtps_bytes_sent x, last_reported_rtps_bytes_sent_count x))
     (\<lambda>(m, lr) x. x\<lparr>rtps_bytes_sent := m, last_reported_rtps_bytes_sent_count := lr\<rparr>)"

definition insert_rtps_bytes_lost ::
  "bool \<Rightarrow> bool \<Rightarrow> ByteToLocatorCountSample \<Rightarrow> EntityId \<Rightarrow> EntityId \<Rightarrow> ('q, unit) action" where
  "insert_rtps_bytes_lost = insert_rtps_bytes
     (\<lambda>x. (rtps_bytes_lost x, last_reported_rtps_bytes_lost_count x))
     (\<lambda>(m, lr) x. x\<lparr>rtps_bytes_lost := m, last_reported_rtps_bytes_lost_count := lr\<rparr>)"

section \<open>The dispatch\<close>

text \<open>
  The entity is looked up before the sample is cast; \<open>cast\<close> throws for a sample of another class.
\<close>

definition bad_class :: "string \<Rightarrow> domain_collection \<Rightarrow> (addr \<Rightarrow> 'o option) \<Rightarrow> EntityId \<Rightarrow> EntityId \<Rightarrow> ('q, unit) action"
  where
  "bad_class what mm h d i = on_entity what mm h d i (\<lambda>a x db. (Inl BadCast, db))"

definition insert_sample ::
  "(AlertId \<Rightarrow> Timestamp \<times> Timestamp \<times> Timestamp) \<Rightarrow> EntityId \<Rightarrow> EntityId \<Rightarrow> sample_object \<Rightarrow> bool \<Rightarrow> bool \<Rightarrow>
   ('q, unit) action" where
  "insert_sample clock d i ob loading last_reported db =
     (if object_kind ob \<noteq> NETWORK_LATENCY \<and> om_find (domains db) d = None
      then (Inl (BadParameter (to_string_int (entity_value d) @ '' does not refer to a known domain'')), db)
      else
        let writer = bad_class ''datawriter'' (datawriters db) (writer_objs db) d i;
            reader = bad_class ''datareader'' (datareaders db) (reader_objs db) d i;
            participant = bad_class ''participant'' (participants db) (participant_objs db) d i
        in (case object_kind ob of
              FASTDDS_LATENCY \<Rightarrow> (case ob of HistoryLatency s \<Rightarrow> insert_fastdds_latency s d i | _ \<Rightarrow> writer)
            | NETWORK_LATENCY \<Rightarrow> (case ob of NetworkLatency s \<Rightarrow> insert_network_latency s d i | _ \<Rightarrow> participant)
            | PUBLICATION_THROUGHPUT \<Rightarrow>
                (case ob of PublicationThroughput s \<Rightarrow> insert_publication_throughput s d i | _ \<Rightarrow> writer)
            | SUBSCRIPTION_THROUGHPUT \<Rightarrow>
                (case ob of SubscriptionThroughput s \<Rightarrow> insert_subscription_throughput clock s d i | _ \<Rightarrow> reader)
            | RTPS_PACKETS_SENT \<Rightarrow>
                (case ob of RtpsPacketsSent s \<Rightarrow> insert_rtps_packets_sent loading last_reported s d i | _ \<Rightarrow> participant)
            | RTPS_BYTES_SENT \<Rightarrow>
                (case ob of RtpsBytesSent s \<Rightarrow> insert_rtps_bytes_sent loading last_reported s d i | _ \<Rightarrow> participant)
            | RTPS_PACKETS_LOST \<Rightarrow>
                (case ob of RtpsPacketsLost s \<Rightarrow> insert_rtps_packets_lost loading last_reported s d i | _ \<Rightarrow> participant)
            | RTPS_BYTES_LOST \<Rightarrow>
                (case ob of RtpsBytesLost s \<Rightarrow> insert_rtps_bytes_lost loading last_reported s d i | _ \<Rightarrow> participant)
            | RESENT_DATA \<Rightarrow> (case ob of ResentData s \<Rightarrow> insert_resent_datas loading last_reported s d i | _ \<Rightarrow> writer)
            | HEARTBEAT_COUNT \<Rightarrow>
                (case ob of HeartbeatCount s \<Rightarrow> insert_heartbeat_count loading last_reported s d i | _ \<Rightarrow> writer)
            | ACKNACK_COUNT \<Rightarrow>
                (case ob of AcknackCount s \<Rightarrow> insert_acknack_count loading last_reported s d i | _ \<Rightarrow> reader)
            | NACKFRAG_COUNT \<Rightarrow>
                (case ob of NackfragCount s \<Rightarrow> insert_nackfrag_count loading last_reported s d i | _ \<Rightarrow> reader)
            | GAP_COUNT \<Rightarrow> (case ob of GapCount s \<Rightarrow> insert_gap_count loading last_reported s d i | _ \<Rightarrow> writer)
            | DATA_COUNT \<Rightarrow>
                (case ob of DataCount s \<Rightarrow> insert_data_count clock loading last_reported s d i | _ \<Rightarrow> writer)
            | PDP_PACKETS \<Rightarrow>
                (case ob of PdpCount s \<Rightarrow> insert_pdp_packets loading last_reported s d i | _ \<Rightarrow> participant)
            | EDP_PACKETS \<Rightarrow>
                (case ob of EdpCount s \<Rightarrow> insert_edp_packets loading last_reported s d i | _ \<Rightarrow> participant)
            | DISCOVERY_TIME \<Rightarrow> (case ob of DiscoveryTime s \<Rightarrow> insert_discovery_time s d i | _ \<Rightarrow> participant)
            | SAMPLE_DATAS \<Rightarrow> (case ob of SampleDatas s \<Rightarrow> insert_sample_datas s d i | _ \<Rightarrow> writer)
            | INVALID_DATA \<Rightarrow> (\<lambda>db. (Inl (BadParameter ''Invalid DataKind''), db))) db)"

end
