(* ===== verification/DbInsertInv.thy ===== *)
theory DbInsertInv
  imports DbInsert "HOL-Library.Multiset"
begin

text \<open>
  What inserting preserves: every collection owns its objects under their own identifiers, and the
  identifiers of all entities, of whatever kind, are distinct and below \<open>next_id_\<close>.
\<close>

section \<open>The invariant\<close>

definition keys_in :: "domain_collection \<Rightarrow> EntityId list" where
  "keys_in mm = concat (map (\<lambda>(d, m). om_keys m) mm)"

definition entity_ids :: "'q database \<Rightarrow> EntityId list" where
  "entity_ids db =
     om_keys (hosts db) @ om_keys (users db) @ om_keys (processes db) @ om_keys (domains db) @
     om_keys (locators db) @ keys_in (topics db) @ keys_in (participants db) @
     keys_in (datareaders db) @ keys_in (datawriters db)"

definition db_owned :: "'q database \<Rightarrow> bool" where
  "db_owned db \<longleftrightarrow>
     owned (host_objs db) e_id (hosts db) \<and> owned (user_objs db) e_id (users db) \<and>
     owned (process_objs db) e_id (processes db) \<and> owned (domain_objs db) e_id (domains db) \<and>
     owned (locator_objs db) e_id (locators db) \<and> owned_in (topic_objs db) e_id (topics db) \<and>
     owned_in (participant_objs db) e_id (participants db) \<and>
     owned_in (reader_objs db) e_id (datareaders db) \<and>
     owned_in (writer_objs db) e_id (datawriters db)"

definition ids_below :: "'q database \<Rightarrow> bool" where
  "ids_below db \<longleftrightarrow> 0 \<le> next_id db \<and>
     (\<forall>i \<in> set (entity_ids db). 0 \<le> entity_value i \<and> entity_value i < next_id db)"

text \<open>A topic is in the collection of its own domain.\<close>

definition topic_homes :: "'q database \<Rightarrow> bool" where
  "topic_homes db \<longleftrightarrow> (\<forall>(d, m) \<in> set (topics db). \<forall>(k, a) \<in> set m.
     \<exists>t b. topic_objs db a = Some t \<and> t_domain t = Some b \<and> om_find (domains db) d = Some b)"

definition db_struct :: "'q database \<Rightarrow> bool" where
  "db_struct db \<longleftrightarrow> db_owned db \<and> topic_homes db"

definition db_inv :: "'q database \<Rightarrow> bool" where
  "db_inv db \<longleftrightarrow> db_struct db \<and> distinct (entity_ids db) \<and> ids_below db"

text \<open>What a caller may pass as identifier: none, or one that no entity has.\<close>

definition id_argument :: "EntityId \<Rightarrow> 'q database \<Rightarrow> bool" where
  "id_argument i db \<longleftrightarrow>
     next_id db < 2 ^ 63 - 1 \<and>
     (is_valid_and_unique i \<longrightarrow> i \<notin> set (entity_ids db) \<and> entity_value i < 2 ^ 63 - 1)"

lemma assign_entity_id_fresh:
  assumes "ids_below db" and "id_argument i db" and "assign_entity_id i db = (j, db')"
  shows "\<exists>n. db' = db\<lparr>next_id := n\<rparr> \<and> next_id db \<le> n \<and> 0 \<le> entity_value j \<and>
    entity_value j < n \<and> j \<notin> set (entity_ids db) \<and> (\<not> is_valid_and_unique i \<longrightarrow> entity_value j = next_id db) \<and>
    (is_valid_and_unique i \<longrightarrow> j = i)"
proof -
  have w: "wrap64 (x + 1) = x + 1" if "0 \<le> x" "x < 2 ^ 63 - 1" for x :: int
    using that by (intro wrap64_id) (simp add: int64_range_def)
  show ?thesis
  proof (cases "is_valid_and_unique i")
    case False
    then have j: "j = EntityId (next_id db)" "db' = db\<lparr>next_id := wrap64 (next_id db + 1)\<rparr>"
      using assms(3) by (auto simp: assign_entity_id_def generate_entity_id_def)
    have "wrap64 (next_id db + 1) = next_id db + 1"
      using assms(1,2) by (intro w) (simp_all add: ids_below_def id_argument_def)
    with j False assms(1) show ?thesis
      by (intro exI [of _ "next_id db + 1"]) (auto simp: ids_below_def)
  next
    case True
    then have v: "0 \<le> entity_value i" "i \<notin> set (entity_ids db)" "entity_value i < 2 ^ 63 - 1"
      using assms(2) by (auto simp: id_argument_def is_valid_and_unique_def is_valid_def)
    show ?thesis
    proof (cases "next_id db \<le> entity_value i")
      case le: True
      with True assms(3) have "j = i" "db' = db\<lparr>next_id := entity_value i + 1\<rparr>"
        using w [OF v(1,3)] by (auto simp: assign_entity_id_def)
      with le v True show ?thesis by (intro exI [of _ "entity_value i + 1"]) auto
    next
      case False
      with True assms(3) have "j = i" "db' = db" by (auto simp: assign_entity_id_def)
      with False v True show ?thesis by (intro exI [of _ "next_id db"]) auto
    qed
  qed
qed

section \<open>Adding one entry\<close>

lemma mset_keys_put:
  "om_wf m \<Longrightarrow> k \<notin> set (om_keys m) \<Longrightarrow> mset (om_keys (om_put k v m)) = add_mset k (mset (om_keys m))"
  by (induction m) (auto simp: om_wf_Cons)

lemma keys_in_put:
  assumes "om_wf mm" and "om_wf m'" and "om_keys m' = ks"
  shows "mset (keys_in (om_put d m' mm)) + mset (om_keys (om_get [] d mm)) = mset (keys_in mm) + mset ks"
  using assms(1)
proof (induction mm)
  case Nil
  then show ?case by (simp add: keys_in_def om_get_def assms(3))
next
  case (Cons e mm)
  obtain d' m where e: "e = (d', m)" by (cases e)
  have fresh: "om_find mm d = None" if "d < d'"
    using Cons.prems that e by (fastforce simp: om_wf_Cons map_of_eq_None_iff)
  consider "d' < d" | "d' = d" | "d < d'" by fastforce
  then show ?case
  proof cases
    case 1
    with Cons e show ?thesis by (auto simp: keys_in_def om_get_def om_wf_Cons)
  next
    case 2
    then show ?thesis using e by (simp add: keys_in_def om_get_def assms(3))
  next
    case 3
    then have "\<not> d' < d" "d \<noteq> d'" "d' \<noteq> d" by auto
    with 3 show ?thesis using e fresh by (simp add: keys_in_def om_get_def assms(3))
  qed
qed

lemma keys_in_get: "set (om_keys (om_get [] d mm)) \<subseteq> set (keys_in mm)"
proof (cases "om_find mm d")
  case None
  then show ?thesis by (simp add: om_get_def)
next
  case (Some m)
  have "(d, m) \<in> set mm" using Some by (rule map_of_SomeD)
  moreover have "om_get [] d mm = m" by (simp add: om_get_def Some)
  ultimately show ?thesis by (force simp: keys_in_def)
qed

lemma keys_in_add:
  assumes "owned_in h idf mm" and "k \<notin> set (keys_in mm)"
  shows "mset (keys_in (om_update [] d (om_put k a) mm)) = add_mset k (mset (keys_in mm))"
proof -
  let ?m = "om_get [] d mm"
  have wf: "om_wf mm" "om_wf ?m"
    using assms(1) owned_in_get [OF assms(1)] by (auto simp: owned_in_def owned_def)
  have "set (om_keys ?m) \<subseteq> set (keys_in mm)"
    by (rule keys_in_get)
  then have k: "k \<notin> set (om_keys ?m)" using assms(2) by blast
  show ?thesis
    using keys_in_put [OF wf(1) om_put_wf [OF wf(2)] refl, of d k a] mset_keys_put [OF wf(2) k, of a]
    by (simp add: om_update_def)
qed

lemma entry_addresses: "owned h idf m \<Longrightarrow> \<not> is_entry a (live h m) \<Longrightarrow> a \<notin> snd ` set m"
  by (force simp: owned_def is_entry_def list_ex_iff live_set)

lemma owned_insert:
  assumes "owned h e_id m" and "h a = Some x" and "\<not> is_entry a (live h m)"
    and "e_id (f x) = i"
  shows "owned (obj_update a f h) e_id (om_put i a m)"
  using owned_put [OF owned_update_other [OF assms(1) entry_addresses [OF assms(1,3)], of f],
      of a "f x" i] assms(2,4) by (simp add: obj_update_apply)

lemma is_entry_in_iff: "is_entry_in a (live_in h mm) \<longleftrightarrow> (\<exists>(d, m) \<in> set mm. is_entry a (live h m))"
  by (fastforce simp: is_entry_in_def is_entry_def list_ex_iff live_in_def)

lemma owned_in_update_other:
  assumes "owned_in h e_id mm" and "\<not> is_entry_in a (live_in h mm)"
  shows "owned_in (obj_update a f h) e_id mm"
proof -
  have "owned (obj_update a f h) e_id m" if "(d, m) \<in> set mm" for d m
  proof -
    have o: "owned h e_id m" "\<not> is_entry a (live h m)"
      using assms that by (auto simp: owned_in_def is_entry_in_iff)
    show ?thesis by (rule owned_update_other [OF o(1) entry_addresses [OF o]])
  qed
  then show ?thesis using assms(1) by (auto simp: owned_in_def)
qed

lemma owned_in_insert:
  assumes "owned_in h e_id mm" and "h a = Some x" and "\<not> is_entry_in a (live_in h mm)"
    and "e_id (f x) = i"
  shows "owned_in (obj_update a f h) e_id (om_update [] d (om_put i a) mm)"
  using assms owned_in_update_other [OF assms(1,3), of f]
  by (intro owned_in_put) (simp_all add: obj_update_apply)

lemma is_entry_iff: "is_entry a (live h m) \<longleftrightarrow> (\<exists>k. (k, a) \<in> set m) \<and> h a \<noteq> None"
  by (force simp: is_entry_def list_ex_iff live_set)

lemma is_entry_update [simp]: "is_entry a (live (obj_update b f h) m) = is_entry a (live h m)"
  by (simp add: is_entry_iff obj_update_apply)

lemma is_entry_in_update [simp]:
  "is_entry_in a (live_in (obj_update b f h) mm) = is_entry_in a (live_in h mm)"
  by (simp add: is_entry_in_iff)

section \<open>The kinds of entities\<close>

text \<open>What an insertion does to the collections: nothing when it throws, one new entry otherwise.\<close>

definition insertion_effect :: "EntityId \<Rightarrow> EntityId result \<Rightarrow> 'q database \<Rightarrow> 'q database \<Rightarrow> bool" where
  "insertion_effect i r db db' \<longleftrightarrow> db_inv db' \<and>
     (case r of
        Inl e \<Rightarrow> entity_ids db' = entity_ids db \<and> next_id db \<le> next_id db'
      | Inr j \<Rightarrow> j \<notin> set (entity_ids db) \<and> mset (entity_ids db') = add_mset j (mset (entity_ids db)) \<and>
          j = (if is_valid_and_unique i then i else EntityId (next_id db)))"

lemma db_inv_add:
  assumes "db_inv db" and "j \<notin> set (entity_ids db)" and "0 \<le> entity_value j"
    and "entity_value j < next_id db'" and "next_id db \<le> next_id db'" and "db_struct db'"
    and "mset (entity_ids db') = add_mset j (mset (entity_ids db))"
  shows "db_inv db'"
proof -
  have m: "mset (entity_ids db') = mset (j # entity_ids db)" using assms(7) by simp
  have "distinct (entity_ids db')"
    using mset_eq_imp_distinct_iff [OF m] assms(1,2) by (simp add: db_inv_def)
  moreover have "set (entity_ids db') = insert j (set (entity_ids db))"
    using mset_eq_setD [OF m] by simp
  then have "ids_below db'"
    using assms(1,3-5) by (fastforce simp: db_inv_def ids_below_def)
  ultimately show ?thesis using assms(6) by (simp add: db_inv_def)
qed

lemma db_inv_same:
  assumes "db_inv db" and "db_struct db'" and "entity_ids db' = entity_ids db"
    and "next_id db \<le> next_id db'"
  shows "db_inv db'"
  using assms by (fastforce simp: db_inv_def ids_below_def)

lemma db_invD:
  assumes "db_inv db"
  shows "owned (host_objs db) e_id (hosts db)" "owned (user_objs db) e_id (users db)"
    "owned (process_objs db) e_id (processes db)" "owned (domain_objs db) e_id (domains db)"
    "owned (locator_objs db) e_id (locators db)" "owned_in (topic_objs db) e_id (topics db)"
    "owned_in (participant_objs db) e_id (participants db)"
    "owned_in (reader_objs db) e_id (datareaders db)" "owned_in (writer_objs db) e_id (datawriters db)"
    "distinct (entity_ids db)" "ids_below db" "topic_homes db" "db_struct db"
  using assms by (simp_all add: db_inv_def db_struct_def db_owned_def)

lemma owned_wf: "owned h idf m \<Longrightarrow> om_wf m"
  by (simp add: owned_def)

lemma insertion_success:
  assumes "db_inv db" and "id_argument i db" and "assign_entity_id i db = (j, db1)"
    and "next_id db' = next_id db1" and "db_struct db'"
    and "mset (entity_ids db') = add_mset j (mset (entity_ids db))"
  shows "insertion_effect i (Inr j) db db'"
proof -
  obtain n where n: "db1 = db\<lparr>next_id := n\<rparr>" "next_id db \<le> n" "0 \<le> entity_value j"
    "entity_value j < n" "j \<notin> set (entity_ids db)"
    "\<not> is_valid_and_unique i \<longrightarrow> entity_value j = next_id db" "is_valid_and_unique i \<longrightarrow> j = i"
    using assign_entity_id_fresh [OF db_invD(11) [OF assms(1)] assms(2,3)] by blast
  have "db_inv db'"
    using assms(4-6) n by (intro db_inv_add [OF assms(1) n(5) n(3)]) simp_all
  then show ?thesis
    using n assms(6) by (cases j) (auto simp: insertion_effect_def)
qed

lemma insertion_failure:
  assumes "db_inv db" and "db_struct db'" and "entity_ids db' = entity_ids db"
    and "next_id db \<le> next_id db'"
  shows "insertion_effect i (Inl e) db db'"
  using db_inv_same [OF assms] assms(3,4) by (simp add: insertion_effect_def)

lemma assign_entity_id_state:
  "assign_entity_id i db = (j, db1) \<Longrightarrow> \<exists>n. db1 = db\<lparr>next_id := n\<rparr>"
  by (auto simp: assign_entity_id_def generate_entity_id_def split: if_splits intro: exI [of _ "next_id db"])

definition commit_effect :: "EntityId \<Rightarrow> int \<Rightarrow> 'q database \<Rightarrow> EntityId result \<times> 'q database \<Rightarrow> bool" where
  "commit_effect j n db rd \<longleftrightarrow> next_id (snd rd) = n \<and> db_struct (snd rd) \<and>
     (case fst rd of
        Inl e \<Rightarrow> entity_ids (snd rd) = entity_ids db
      | Inr j' \<Rightarrow> j' = j \<and> mset (entity_ids (snd rd)) = add_mset j (mset (entity_ids db)))"

lemma checked_insert_effect:
  assumes "db_inv db" and "db_struct db0" and "entity_ids db0 = entity_ids db"
    and "next_id db0 = next_id db" and "id_argument i db"
    and run: "checked_insert obj checks i commit db0 = (r, db')"
    and commit: "\<And>x j n. obj = Some x \<Longrightarrow> checks x = None \<Longrightarrow> j \<notin> set (entity_ids db0) \<Longrightarrow>
      commit_effect j n db0 (commit x j (db0\<lparr>next_id := n\<rparr>))"
  shows "insertion_effect i r db db'"
proof (cases "\<exists>x. obj = Some x \<and> checks x = None")
  case False
  then have "db' = db0" "\<exists>e. r = Inl e"
    using run by (auto simp: checked_insert_def split: option.splits)
  then show ?thesis using insertion_failure [OF assms(1,2,3)] assms(4) by auto
next
  case True
  then obtain x where x: "obj = Some x" "checks x = None" by blast
  obtain j db1 where as: "assign_entity_id i db0 = (j, db1)" by fastforce
  have inv0: "db_inv db0" by (rule db_inv_same [OF assms(1-3)]) (simp add: assms(4))
  have arg0: "id_argument i db0" using assms(3-5) by (simp add: id_argument_def)
  obtain n where db1: "db1 = db0\<lparr>next_id := n\<rparr>" and n: "next_id db0 \<le> n"
    and j: "j \<notin> set (entity_ids db0)"
    using assign_entity_id_fresh [OF db_invD(11) [OF inv0] arg0 as] by blast
  have d: "commit x j db1 = (r, db')"
    using run x as by (simp add: checked_insert_def)
  have c: "commit_effect j n db0 (r, db')"
    using commit [OF x j, of n] unfolding db1 [symmetric] d .
  show ?thesis
  proof (cases r)
    case (Inl e)
    then show ?thesis
      using insertion_failure [OF assms(1), of db' i e] c n assms(3,4) by (simp add: commit_effect_def)
  next
    case (Inr j')
    have "insertion_effect i (Inr j) db0 db'"
      using c Inr by (intro insertion_success [OF inv0 arg0 as]) (simp_all add: db1 commit_effect_def)
    moreover have "j' = j" using c Inr by (simp add: commit_effect_def)
    ultimately show ?thesis using Inr assms(3,4) by (auto simp: insertion_effect_def)
  qed
qed

lemmas clear_defs = clear_host_def clear_user_def clear_process_def clear_domain_def
  clear_topic_def clear_participant_def clear_locator_def clear_datareader_def clear_datawriter_def

text \<open>The checks refuse an object that is an entry already.\<close>

lemma checks_new:
  "host_checks a h db = None \<Longrightarrow> \<not> is_entry a (live (host_objs db) (hosts db))"
  "user_checks a u db = None \<Longrightarrow> \<not> is_entry a (live (user_objs db) (users db))"
  "process_checks a p db = None \<Longrightarrow> \<not> is_entry a (live (process_objs db) (processes db))"
  "domain_checks a d db = None \<Longrightarrow> \<not> is_entry a (live (domain_objs db) (domains db))"
  "participant_checks qe a dp db = None \<Longrightarrow>
     \<not> is_entry_in a (live_in (participant_objs db) (participants db))"
  "locator_checks a l db = None \<Longrightarrow> \<not> is_entry a (live (locator_objs db) (locators db))"
  "endpoint_checks C qe a e db = None \<Longrightarrow> \<not> is_entry_in a (live_in (ec_objs C db) (ec_coll C db))"
  by (fastforce simp: host_checks_def user_checks_def process_checks_def domain_checks_def
      participant_checks_def locator_checks_def endpoint_checks_def is_entry_def is_entry_in_def
      list_ex_iff)+

text \<open>The single steps of an insertion, each of them keeping the structure.\<close>

lemma owned_put_new:
  assumes "owned h e_id m" and "h a = Some x" and "\<not> is_entry a (live h m)" and "i \<notin> set (om_keys m)"
    and "e_id (f x) = i"
  shows "owned (obj_update a f h) e_id (om_put i a m) \<and>
    mset (om_keys (om_put i a m)) = add_mset i (mset (om_keys m))"
  using owned_insert [of h m a x f i] assms mset_keys_put [OF owned_wf [OF assms(1)] assms(4)] by blast

lemma owned_in_put_new:
  assumes "owned_in h e_id mm" and "h a = Some x" and "\<not> is_entry_in a (live_in h mm)"
    and "i \<notin> set (keys_in mm)" and "e_id (f x) = i"
  shows "owned_in (obj_update a f h) e_id (om_update [] d (om_put i a) mm) \<and>
    mset (keys_in (om_update [] d (om_put i a) mm)) = add_mset i (mset (keys_in mm))"
  using owned_in_insert [of h mm a x f i d] assms keys_in_add [OF assms(1,4)] by blast

lemma parent_entry:
  assumes "owned h e_id m" and "points_to_entry (fragile_lock h p) (live h m)"
  shows "\<exists>a x. p = Some a \<and> h a = Some x \<and> fragile_get h p = Inr x \<and> om_find m (e_id x) = Some a"
proof -
  obtain k a x where e: "fragile_lock h p = Some a" "(k, a) \<in> set m" "h a = Some x"
    using assms(2) by (auto simp: points_to_entry_def list_ex_iff live_set)
  then have "p = Some a" "e_id x = k"
    using assms(1) by (auto simp: fragile_lock_def owned_def split: option.splits)
  with e show ?thesis
    using om_in_set_iff [OF owned_wf [OF assms(1)], of k a] by (simp add: fragile_get_def)
qed

lemma topic_homes_domain:
  assumes "topic_homes db" and "(d, m) \<in> set (topics db)"
    and "m \<noteq> []"
  shows "om_find (domains db) d \<noteq> None"
proof -
  obtain k a where "(k, a) \<in> set m" using assms(3) by (cases m) auto
  with assms show ?thesis by (fastforce simp: topic_homes_def)
qed

lemma topic_homes_new_domain:
  assumes "topic_homes db" and "om_wf (domains db)" and "i \<notin> set (om_keys (domains db))"
  shows "\<forall>(d, m) \<in> set (topics db). \<forall>(k, a) \<in> set m.
    \<exists>t b. topic_objs db a = Some t \<and> t_domain t = Some b \<and> om_find (om_put i c (domains db)) d = Some b"
proof -
  have "om_find (domains db) d \<noteq> None \<longrightarrow> d \<noteq> i" for d
    using assms(3) by (auto simp: map_of_eq_None_iff)
  with assms show ?thesis by (fastforce simp: topic_homes_def om_find_put)
qed

lemma insert_host_effect:
  assumes "db_inv db" and "id_argument i db" and "insert_host a i db = (r, db')"
  shows "insertion_effect i r db db'"
proof -
  define db0 where "db0 = db\<lparr>host_objs := obj_update a clear_host (host_objs db)\<rparr>"
  have o: "db_struct db0" "entity_ids db0 = entity_ids db" "next_id db0 = next_id db"
    using db_invD [OF assms(1)] by (simp_all add: db_struct_def db_owned_def topic_homes_def db0_def
        owned_update_same_id clear_defs entity_ids_def)
  have run: "checked_insert (host_objs db0 a) (\<lambda>x. host_checks a x db0) i
        (\<lambda>x i db. (Inr i, db\<lparr>host_objs := obj_update a (\<lambda>x. x\<lparr>e_id := i\<rparr>) (host_objs db),
           hosts := om_put i a (hosts db)\<rparr>)) db0 = (r, db')"
    using assms(3) by (simp add: insert_host_def Let_def flip: db0_def)
  show ?thesis
  proof (rule checked_insert_effect [OF assms(1) o assms(2) run])
    fix x j n
    assume x: "host_objs db0 a = Some x" "host_checks a x db0 = None" "j \<notin> set (entity_ids db0)"
    have ow: "owned (host_objs db0) e_id (hosts db0)" "j \<notin> set (om_keys (hosts db0))"
      using o(1) x(3) by (simp_all add: db_struct_def db_owned_def entity_ids_def)
    note N = owned_put_new [OF ow(1) x(1) checks_new(1) [OF x(2)] ow(2), of "\<lambda>x. x\<lparr>e_id := j\<rparr>"]
    show "commit_effect j n db0 (Inr j, (db0\<lparr>next_id := n\<rparr>)\<lparr>host_objs :=
        obj_update a (\<lambda>x. x\<lparr>e_id := j\<rparr>) (host_objs (db0\<lparr>next_id := n\<rparr>)),
        hosts := om_put j a (hosts (db0\<lparr>next_id := n\<rparr>))\<rparr>)"
      using o(1) N
      by (simp add: commit_effect_def db_struct_def db_owned_def topic_homes_def entity_ids_def
          owned_update_same_id)
  qed
qed

lemma insert_user_effect:
  assumes "db_inv db" and "id_argument i db" and "insert_user a i db = (r, db')"
  shows "insertion_effect i r db db'"
proof -
  define db0 where "db0 = db\<lparr>user_objs := obj_update a clear_user (user_objs db)\<rparr>"
  have o: "db_struct db0" "entity_ids db0 = entity_ids db" "next_id db0 = next_id db"
    using db_invD [OF assms(1)] by (simp_all add: db_struct_def db_owned_def topic_homes_def db0_def
        owned_update_same_id clear_defs entity_ids_def)
  have run: "checked_insert (user_objs db0 a) (\<lambda>x. user_checks a x db0) i
        (\<lambda>x i db. (Inr i, db\<lparr>user_objs := obj_update a (\<lambda>x. x\<lparr>e_id := i\<rparr>) (user_objs db),
           users := om_put i a (users db),
           host_objs := obj_update (the (u_host x)) (\<lambda>h. h\<lparr>h_users := om_put i a (h_users h)\<rparr>)
             (host_objs db)\<rparr>)) db0 = (r, db')"
    using assms(3) by (simp add: insert_user_def Let_def flip: db0_def)
  show ?thesis
  proof (rule checked_insert_effect [OF assms(1) o assms(2) run])
    fix x j n
    assume x: "user_objs db0 a = Some x" "user_checks a x db0 = None" "j \<notin> set (entity_ids db0)"
    have ow: "owned (user_objs db0) e_id (users db0)" "j \<notin> set (om_keys (users db0))"
      using o(1) x(3) by (simp_all add: db_struct_def db_owned_def entity_ids_def)
    note N = owned_put_new [OF ow(1) x(1) checks_new(2) [OF x(2)] ow(2), of "\<lambda>x. x\<lparr>e_id := j\<rparr>"]
    show "commit_effect j n db0 (Inr j, (db0\<lparr>next_id := n\<rparr>)\<lparr>user_objs :=
        obj_update a (\<lambda>x. x\<lparr>e_id := j\<rparr>) (user_objs (db0\<lparr>next_id := n\<rparr>)),
        users := om_put j a (users (db0\<lparr>next_id := n\<rparr>)),
        host_objs := obj_update (the (u_host x)) (\<lambda>h. h\<lparr>h_users := om_put j a (h_users h)\<rparr>)
          (host_objs (db0\<lparr>next_id := n\<rparr>))\<rparr>)"
      using o(1) N
      by (simp add: commit_effect_def db_struct_def db_owned_def topic_homes_def entity_ids_def
          owned_update_same_id)
  qed
qed

lemma insert_process_effect:
  assumes "db_inv db" and "id_argument i db" and "insert_process a i db = (r, db')"
  shows "insertion_effect i r db db'"
proof -
  define db0 where "db0 = db\<lparr>process_objs := obj_update a clear_process (process_objs db)\<rparr>"
  have o: "db_struct db0" "entity_ids db0 = entity_ids db" "next_id db0 = next_id db"
    using db_invD [OF assms(1)] by (simp_all add: db_struct_def db_owned_def topic_homes_def db0_def
        owned_update_same_id clear_defs entity_ids_def)
  have run: "checked_insert (process_objs db0 a) (\<lambda>x. process_checks a x db0) i
        (\<lambda>x i db. (Inr i, db\<lparr>process_objs := obj_update a (\<lambda>x. x\<lparr>e_id := i\<rparr>) (process_objs db),
           processes := om_put i a (processes db),
           user_objs := obj_update (the (p_user x)) (\<lambda>u. u\<lparr>u_processes := om_put i a (u_processes u)\<rparr>)
             (user_objs db)\<rparr>)) db0 = (r, db')"
    using assms(3) by (simp add: insert_process_def Let_def flip: db0_def)
  show ?thesis
  proof (rule checked_insert_effect [OF assms(1) o assms(2) run])
    fix x j n
    assume x: "process_objs db0 a = Some x" "process_checks a x db0 = None" "j \<notin> set (entity_ids db0)"
    have ow: "owned (process_objs db0) e_id (processes db0)" "j \<notin> set (om_keys (processes db0))"
      using o(1) x(3) by (simp_all add: db_struct_def db_owned_def entity_ids_def)
    note N = owned_put_new [OF ow(1) x(1) checks_new(3) [OF x(2)] ow(2), of "\<lambda>x. x\<lparr>e_id := j\<rparr>"]
    show "commit_effect j n db0 (Inr j, (db0\<lparr>next_id := n\<rparr>)\<lparr>process_objs :=
        obj_update a (\<lambda>x. x\<lparr>e_id := j\<rparr>) (process_objs (db0\<lparr>next_id := n\<rparr>)),
        processes := om_put j a (processes (db0\<lparr>next_id := n\<rparr>)),
        user_objs := obj_update (the (p_user x)) (\<lambda>u. u\<lparr>u_processes := om_put j a (u_processes u)\<rparr>)
          (user_objs (db0\<lparr>next_id := n\<rparr>))\<rparr>)"
      using o(1) N
      by (simp add: commit_effect_def db_struct_def db_owned_def topic_homes_def entity_ids_def
          owned_update_same_id)
  qed
qed

lemma insert_domain_effect:
  assumes "db_inv db" and "id_argument i db" and "insert_domain a i db = (r, db')"
  shows "insertion_effect i r db db'"
proof -
  define db0 where "db0 = db\<lparr>domain_objs := obj_update a clear_domain (domain_objs db)\<rparr>"
  have o: "db_struct db0" "entity_ids db0 = entity_ids db" "next_id db0 = next_id db"
    using db_invD [OF assms(1)] by (simp_all add: db_struct_def db_owned_def topic_homes_def db0_def
        owned_update_same_id clear_defs entity_ids_def)
  have run: "checked_insert (domain_objs db0 a) (\<lambda>x. domain_checks a x db0) i
        (\<lambda>x i db. (Inr i, db\<lparr>domain_objs := obj_update a (\<lambda>x. x\<lparr>e_id := i\<rparr>) (domain_objs db),
           domains := om_put i a (domains db)\<rparr>)) db0 = (r, db')"
    using assms(3) by (simp add: insert_domain_def Let_def flip: db0_def)
  show ?thesis
  proof (rule checked_insert_effect [OF assms(1) o assms(2) run])
    fix x j n
    assume x: "domain_objs db0 a = Some x" "domain_checks a x db0 = None" "j \<notin> set (entity_ids db0)"
    have ow: "owned (domain_objs db0) e_id (domains db0)" "j \<notin> set (om_keys (domains db0))"
      using o(1) x(3) by (simp_all add: db_struct_def db_owned_def entity_ids_def)
    note N = owned_put_new [OF ow(1) x(1) checks_new(4) [OF x(2)] ow(2), of "\<lambda>x. x\<lparr>e_id := j\<rparr>"]
    show "commit_effect j n db0 (Inr j, (db0\<lparr>next_id := n\<rparr>)\<lparr>domain_objs :=
        obj_update a (\<lambda>x. x\<lparr>e_id := j\<rparr>) (domain_objs (db0\<lparr>next_id := n\<rparr>)),
        domains := om_put j a (domains (db0\<lparr>next_id := n\<rparr>))\<rparr>)"
      using o(1) N topic_homes_new_domain [of db0 j a] ow owned_wf [OF ow(1)]
      by (simp add: commit_effect_def db_struct_def db_owned_def topic_homes_def entity_ids_def
          owned_update_same_id)
  qed
qed

lemma insert_locator_effect:
  assumes "db_inv db" and "id_argument i db" and "insert_locator a i db = (r, db')"
  shows "insertion_effect i r db db'"
proof -
  define db0 where "db0 = db\<lparr>locator_objs := obj_update a clear_locator (locator_objs db)\<rparr>"
  have o: "db_struct db0" "entity_ids db0 = entity_ids db" "next_id db0 = next_id db"
    using db_invD [OF assms(1)] by (simp_all add: db_struct_def db_owned_def topic_homes_def db0_def
        owned_update_same_id clear_defs entity_ids_def)
  have run: "checked_insert (locator_objs db0 a) (\<lambda>x. locator_checks a x db0) i
        (\<lambda>x i db. (Inr i, db\<lparr>locator_objs := obj_update a (\<lambda>x. x\<lparr>e_id := i\<rparr>) (locator_objs db),
           locators := om_put i a (locators db)\<rparr>)) db0 = (r, db')"
    using assms(3) by (simp add: insert_locator_def Let_def flip: db0_def)
  show ?thesis
  proof (rule checked_insert_effect [OF assms(1) o assms(2) run])
    fix x j n
    assume x: "locator_objs db0 a = Some x" "locator_checks a x db0 = None" "j \<notin> set (entity_ids db0)"
    have ow: "owned (locator_objs db0) e_id (locators db0)" "j \<notin> set (om_keys (locators db0))"
      using o(1) x(3) by (simp_all add: db_struct_def db_owned_def entity_ids_def)
    note N = owned_put_new [OF ow(1) x(1) checks_new(6) [OF x(2)] ow(2), of "\<lambda>x. x\<lparr>e_id := j\<rparr>"]
    show "commit_effect j n db0 (Inr j, (db0\<lparr>next_id := n\<rparr>)\<lparr>locator_objs :=
        obj_update a (\<lambda>x. x\<lparr>e_id := j\<rparr>) (locator_objs (db0\<lparr>next_id := n\<rparr>)),
        locators := om_put j a (locators (db0\<lparr>next_id := n\<rparr>))\<rparr>)"
      using o(1) N
      by (simp add: commit_effect_def db_struct_def db_owned_def topic_homes_def entity_ids_def
          owned_update_same_id)
  qed
qed

lemma topic_checks_parent:
  assumes "topic_checks a t db = None" and "db_struct db"
  shows "\<exists>b d. t_domain t = Some b \<and> domain_objs db b = Some d \<and>
    fragile_get (domain_objs db) (t_domain t) = Inr d \<and> om_find (domains db) (e_id d) = Some b \<and>
    \<not> is_entry a (live (topic_objs db) (om_get [] (e_id d) (topics db))) \<and>
    (\<forall>(k, b, x) \<in> set (live (topic_objs db) (om_get [] (e_id d) (topics db))).
       e_name t \<noteq> e_name x \<or> data_type t \<noteq> data_type x)"
proof -
  have "owned (domain_objs db) e_id (domains db)"
    "points_to_entry (fragile_lock (domain_objs db) (t_domain t)) (live (domain_objs db) (domains db))"
    using assms by (simp_all add: db_struct_def db_owned_def topic_checks_def)
  from parent_entry [OF this] obtain b d where p: "t_domain t = Some b" "domain_objs db b = Some d"
    "fragile_get (domain_objs db) (t_domain t) = Inr d" "om_find (domains db) (e_id d) = Some b"
    by blast
  have "\<forall>(k, b, x) \<in> set (live (topic_objs db) (om_get [] (e_id d) (topics db))).
      a \<noteq> b \<and> (e_name t \<noteq> e_name x \<or> data_type t \<noteq> data_type x)"
    using assms(1) p(3) by (simp add: topic_checks_def split_beta)
  with p show ?thesis by (fastforce simp: is_entry_def list_ex_iff)
qed

lemma topic_checks_new:
  assumes "topic_checks a t db = None" and "db_struct db" and "topic_objs db a = Some t"
  shows "\<not> is_entry_in a (live_in (topic_objs db) (topics db))"
proof
  assume "is_entry_in a (live_in (topic_objs db) (topics db))"
  then obtain d' m k where e: "(d', m) \<in> set (topics db)" "(k, a) \<in> set m"
    by (auto simp: is_entry_in_iff is_entry_iff)
  obtain b d where d: "t_domain t = Some b" "om_find (domains db) (e_id d) = Some b"
    "domain_objs db b = Some d"
    "\<not> is_entry a (live (topic_objs db) (om_get [] (e_id d) (topics db)))"
    using topic_checks_parent [OF assms(1,2)] by blast
  have "topic_homes db" "owned (domain_objs db) e_id (domains db)"
    and wf: "owned_in (topic_objs db) e_id (topics db)"
    using assms(2) by (simp_all add: db_struct_def db_owned_def)
  then have "om_find (domains db) d' = Some b"
    using e assms(3) d(1) by (fastforce simp: topic_homes_def)
  then have "(d', b) \<in> set (domains db)" by (rule map_of_SomeD)
  then have "d' = e_id d"
    using \<open>owned (domain_objs db) e_id (domains db)\<close> d(3) by (fastforce simp: owned_def)
  moreover have "om_find (topics db) d' = Some m"
    using om_in_set_iff [of "topics db" d' m] wf e(1) by (simp add: owned_in_def)
  ultimately have "om_get [] (e_id d) (topics db) = m" by (simp add: om_get_def)
  with d(4) e(2) assms(3) show False by (auto simp: is_entry_iff)
qed

lemma topic_homes_add:
  assumes "topic_homes db" and "om_wf (topics db)" and "t_domain t = Some b"
    and "om_find (domains db) d = Some b" and "topic_objs db a = Some t" and "om_wf (om_get [] d (topics db))"
  shows "topic_homes (db\<lparr>topic_objs := obj_update a (\<lambda>x. x\<lparr>e_id := j\<rparr>) (topic_objs db),
    domain_objs := h, topics := om_update [] d (om_put j a) (topics db)\<rparr>)"
proof -
  let ?H = "obj_update a (\<lambda>x. x\<lparr>e_id := j\<rparr>) (topic_objs db)"
  have old: "\<exists>t b. ?H c = Some t \<and> t_domain t = Some b \<and> om_find (domains db) d' = Some b"
    if "(d', m) \<in> set (topics db)" "(k, c) \<in> set m" for d' m k c
    using assms(1) that by (fastforce simp: topic_homes_def obj_update_apply)
  have get: "(k, c) \<in> set (om_get [] d (topics db)) \<Longrightarrow> \<exists>m. (d, m) \<in> set (topics db) \<and> (k, c) \<in> set m" for k c
    by (cases "om_find (topics db) d") (auto simp: om_get_def dest: map_of_SomeD)
  have "\<exists>t b. ?H c = Some t \<and> t_domain t = Some b \<and> om_find (domains db) d' = Some b"
    if "(d', m) \<in> set (om_update [] d (om_put j a) (topics db))" "(k, c) \<in> set m" for d' m k c
  proof (cases "d' = d \<and> k = j")
    case True
    then have "c = a"
      using that assms(2,6) by (auto simp: om_update_def om_put_set)
    then show ?thesis using True assms(3-5) by (simp add: obj_update_apply)
  next
    case False
    then have "\<exists>m. (d', m) \<in> set (topics db) \<and> (k, c) \<in> set m"
      using that assms(2,6) get by (auto simp: om_update_def om_put_set)
    then show ?thesis using old by blast
  qed
  then show ?thesis by (simp add: topic_homes_def) blast
qed

lemma insert_topic_effect:
  assumes "db_inv db" and "id_argument i db" and "insert_topic a i db = (r, db')"
  shows "insertion_effect i r db db'"
proof -
  define db0 where "db0 = db\<lparr>topic_objs := obj_update a clear_topic (topic_objs db)\<rparr>"
  have th: "topic_homes db0"
    using db_invD(12) [OF assms(1)] by (fastforce simp: topic_homes_def db0_def obj_update_apply clear_defs)
  have o: "db_struct db0" "entity_ids db0 = entity_ids db" "next_id db0 = next_id db"
    using db_invD [OF assms(1)] th by (simp_all add: db_struct_def db_owned_def db0_def
        owned_in_update_same_id clear_defs entity_ids_def)
  note run = assms(3) [unfolded insert_topic_def Let_def [of "db\<lparr>topic_objs := _\<rparr>"], folded db0_def]
  show ?thesis
  proof (rule checked_insert_effect [OF assms(1) o assms(2) run])
    fix t j n
    assume t: "topic_objs db0 a = Some t" "topic_checks a t db0 = None" "j \<notin> set (entity_ids db0)"
    obtain b d where d: "t_domain t = Some b" "fragile_get (domain_objs db0) (t_domain t) = Inr d"
      "om_find (domains db0) (e_id d) = Some b"
      using topic_checks_parent [OF t(2) o(1)] by blast
    have ow: "owned_in (topic_objs db0) e_id (topics db0)" "j \<notin> set (keys_in (topics db0))"
      using o(1) t(3) by (simp_all add: db_struct_def db_owned_def entity_ids_def)
    have wf: "om_wf (topics db0)" "om_wf (om_get [] (e_id d) (topics db0))"
      using ow(1) owned_in_get [OF ow(1)] by (simp_all add: owned_in_def owned_def)
    note N = owned_in_put_new [OF ow(1) t(1) topic_checks_new [OF t(2) o(1) t(1)] ow(2),
        of "\<lambda>x. x\<lparr>e_id := j\<rparr>" "e_id d"]
    note H = topic_homes_add [OF th wf(1) d(1,3) t(1) wf(2), of j
        "obj_update b (\<lambda>d. d\<lparr>d_topics := om_put j a (d_topics d)\<rparr>) (domain_objs db0)"]
    show "commit_effect j n db0
      (let db = db0\<lparr>next_id := n, topic_objs :=
             obj_update a (\<lambda>x. x\<lparr>e_id := j\<rparr>) (topic_objs (db0\<lparr>next_id := n\<rparr>))\<rparr>
       in case fragile_get (domain_objs db) (t_domain t) of
           Inl e \<Rightarrow> (Inl e, db)
         | Inr d \<Rightarrow>
             (case om_find (domains db) (e_id d) of
                None \<Rightarrow> (Inl NullDereference, db)
              | Some b \<Rightarrow>
                  (Inr j, db\<lparr>domain_objs := obj_update b
                      (\<lambda>d. d\<lparr>d_topics := om_put j a (d_topics d)\<rparr>) (domain_objs db),
                    topics := om_update [] (e_id d) (om_put j a) (topics db)\<rparr>)))"
      using o(1) N H d by (simp add: Let_def commit_effect_def db_struct_def db_owned_def
          topic_homes_def entity_ids_def owned_update_same_id)
  qed
qed

lemma insert_participant_effect:
  assumes "db_inv db" and "id_argument i db" and "insert_participant qe a i db = (r, db')"
  shows "insertion_effect i r db db'"
proof -
  define db0 where
    "db0 = db\<lparr>participant_objs := obj_update a clear_participant (participant_objs db)\<rparr>"
  have o: "db_struct db0" "entity_ids db0 = entity_ids db" "next_id db0 = next_id db"
    using db_invD [OF assms(1)] by (simp_all add: db_struct_def db_owned_def topic_homes_def db0_def
        owned_in_update_same_id clear_defs entity_ids_def)
  note run = assms(3) [unfolded insert_participant_def Let_def [of "db\<lparr>participant_objs := _\<rparr>"],
      folded db0_def]
  show ?thesis
  proof (rule checked_insert_effect [OF assms(1) o assms(2) run])
    fix p j n
    assume p: "participant_objs db0 a = Some p" "participant_checks qe a p db0 = None"
      "j \<notin> set (entity_ids db0)"
    have "owned (domain_objs db0) e_id (domains db0)"
      "points_to_entry (fragile_lock (domain_objs db0) (dp_domain p)) (live (domain_objs db0) (domains db0))"
      using o(1) p(2) by (simp_all add: db_struct_def db_owned_def participant_checks_def)
    from parent_entry [OF this] obtain b d where d: "dp_domain p = Some b"
      "fragile_get (domain_objs db0) (dp_domain p) = Inr d"
      by blast
    have ow: "owned_in (participant_objs db0) e_id (participants db0)"
      "j \<notin> set (keys_in (participants db0))"
      using o(1) p(3) by (simp_all add: db_struct_def db_owned_def entity_ids_def)
    note N = owned_in_put_new [OF ow(1) p(1) checks_new(5) [OF p(2)] ow(2),
        of "\<lambda>x. x\<lparr>e_id := j\<rparr>" "e_id d"]
    show "commit_effect j n db0
      (let db = db0\<lparr>next_id := n, participant_objs :=
             obj_update a (\<lambda>x. x\<lparr>e_id := j\<rparr>) (participant_objs (db0\<lparr>next_id := n\<rparr>))\<rparr>
       in case fragile_get (domain_objs db) (dp_domain p) of
           Inl e \<Rightarrow> (Inl e, db)
         | Inr d \<Rightarrow>
             (Inr j, db\<lparr>domain_objs := obj_update (the (dp_domain p))
                 (\<lambda>d. d\<lparr>d_participants := om_put j a (d_participants d)\<rparr>) (domain_objs db),
               participants := om_update [] (e_id d) (om_put j a) (participants db)\<rparr>))"
      using o(1) N d by (simp add: Let_def commit_effect_def db_struct_def db_owned_def
          topic_homes_def entity_ids_def owned_update_same_id)
  qed
qed

section \<open>Endpoints\<close>

text \<open>
  What the template relies on in its two instances: the store and the collection of the class can be
  read back after an update, do not interfere with the other stores, and the functions that link an
  endpoint keep the identity of the objects they change.
\<close>

locale endpoint_template =
  fixes C :: "('q, 'e) endpoint_class"
  assumes objs_set: "ec_objs C (ec_set_objs C h db) = h"
    and coll_set_objs: "ec_coll C (ec_set_objs C h db) = ec_coll C db"
    and struct_set_objs: "db_struct db \<Longrightarrow> owned_in h e_id (ec_coll C db) \<Longrightarrow> db_struct (ec_set_objs C h db)"
    and struct_set_coll: "db_struct db \<Longrightarrow> owned_in (ec_objs C db) e_id c \<Longrightarrow> db_struct (ec_set_coll C c db)"
    and struct_coll: "db_struct db \<Longrightarrow> owned_in (ec_objs C db) e_id (ec_coll C db)"
    and ids_set_objs: "entity_ids (ec_set_objs C h db) = entity_ids db"
    and ids_set_coll: "mset (keys_in c) = add_mset j (mset (keys_in (ec_coll C db))) \<Longrightarrow>
      mset (entity_ids (ec_set_coll C c db)) = add_mset j (mset (entity_ids db))"
    and ids_coll: "set (keys_in (ec_coll C db)) \<subseteq> set (entity_ids db)"
    and next_id_set: "next_id (ec_set_objs C h db) = next_id db" "next_id (ec_set_coll C c db) = next_id db"
    and objs_other: "ec_objs C (participant_objs_update p db) = ec_objs C db"
      "ec_objs C (locator_objs_update l db) = ec_objs C db"
      "ec_objs C (topic_objs_update t db) = ec_objs C db" "ec_objs C (next_id_update n db) = ec_objs C db"
    and coll_other: "ec_coll C (participant_objs_update p db) = ec_coll C db"
      "ec_coll C (locator_objs_update l db) = ec_coll C db"
      "ec_coll C (topic_objs_update t db) = ec_coll C db" "ec_coll C (next_id_update n db) = ec_coll C db"
    and keep_id: "e_id (ec_clear C e) = e_id e" "e_id (ec_add_participant C i a dp) = e_id dp"
      "e_id (ec_add_topic C i a to) = e_id to" "e_id (ec_add_locator C i a lo) = e_id lo"
      "t_domain (ec_add_topic C i a to) = t_domain to"
begin

lemma update_same_id:
  assumes "db_struct db" and "\<And>x. e_id (f x) = e_id x"
  shows "db_struct (ec_update C a f db) \<and> entity_ids (ec_update C a f db) = entity_ids db \<and>
    next_id (ec_update C a f db) = next_id db \<and> ec_coll C (ec_update C a f db) = ec_coll C db \<and>
    ec_objs C (ec_update C a f db) = obj_update a f (ec_objs C db)"
  using assms by (simp add: ec_update_def ids_set_objs next_id_set coll_set_objs objs_set
      struct_set_objs struct_coll owned_in_update_same_id)

definition in_place :: "addr \<Rightarrow> EntityId \<Rightarrow> 'q database \<Rightarrow> 'q database \<Rightarrow> bool" where
  "in_place a j db db' \<longleftrightarrow> db_struct db' \<and> entity_ids db' = entity_ids db \<and>
     next_id db' = next_id db \<and> ec_coll C db' = ec_coll C db \<and>
     (\<exists>x. ec_objs C db' a = Some x \<and> e_id x = j)"

lemma link_locators_in_place:
  "link_locators C a i ls db = (r, db') \<Longrightarrow> in_place a j db0 db \<Longrightarrow> in_place a j db0 db'"
proof (induction ls arbitrary: db)
  case Nil
  then show ?case by simp
next
  case (Cons e ls)
  obtain k b where e: "e = (k, b)" by (cases e)
  show ?case
  proof (cases "om_find (locators db) k = None")
    case True
    with Cons.prems e show ?thesis by simp
  next
    case False
    let ?db1 = "db\<lparr>locator_objs := obj_update b (ec_add_locator C i a) (locator_objs db)\<rparr>"
    let ?f = "\<lambda>e :: ('q, 'e) DDSEndpoint_scheme. e\<lparr>ep_locators := om_put k b (ep_locators e)\<rparr>"
    have "db_struct ?db1"
      using Cons.prems(2) by (simp add: in_place_def db_struct_def db_owned_def topic_homes_def
          owned_update_same_id keep_id)
    note U = update_same_id [OF this, of ?f a]
    have "in_place a j db0 (ec_update C a ?f ?db1)"
      using Cons.prems(2) U
      by (auto simp: in_place_def entity_ids_def objs_other coll_other obj_update_apply)
    moreover have "link_locators C a i ls (ec_update C a ?f ?db1) = (r, db')"
      using Cons.prems(1) e False by simp
    ultimately show ?thesis by (rule Cons.IH [rotated])
  qed
qed

lemma link_endpoint_effect:
  assumes "db_struct db" and "j \<notin> set (entity_ids db)" and "ec_objs C db a = Some x" and "e_id x = j"
  shows "commit_effect j (next_id db) db (link_endpoint C a j e db)"
proof -
  define db1 where "db1 = db\<lparr>participant_objs := obj_update (the (ep_participant e))
    (\<lambda>p. let p = ec_add_participant C j a p
       in if is_virtual_metatraffic e then p\<lparr>meta_traffic_endpoint := Some (ec_ref C a)\<rparr> else p)
    (participant_objs db)\<rparr>"
  have s1: "db_struct db1" "entity_ids db1 = entity_ids db" "next_id db1 = next_id db"
    "ec_coll C db1 = ec_coll C db" "ec_objs C db1 = ec_objs C db"
    using assms(1) by (simp_all add: db1_def db_struct_def db_owned_def topic_homes_def Let_def
        owned_in_update_same_id keep_id entity_ids_def coll_other objs_other)
  define db2 where "db2 = ec_update C a (\<lambda>x. x\<lparr>ep_locators := []\<rparr>) db1"
  have s2: "in_place a j db db2"
    using update_same_id [OF s1(1), of "\<lambda>x. x\<lparr>ep_locators := []\<rparr>" a] s1 assms
    by (simp add: in_place_def db2_def obj_update_apply)
  note run = link_endpoint_def [of C a j e db, unfolded Let_def [of "db\<lparr>participant_objs := _\<rparr>"],
      folded db1_def, folded db2_def]
  show ?thesis
  proof (cases "actual_locators db1 (ep_locators e) []")
    case (Inl ex)
    then show ?thesis using s1 by (simp add: run commit_effect_def)
  next
    case (Inr ls)
    obtain r3 db3 where l: "link_locators C a j ls db2 = (r3, db3)" by fastforce
    have s3: "in_place a j db db3" using link_locators_in_place [OF l s2] .
    let ?d = "bind_result (fragile_get (participant_objs db3) (ep_participant e)) (\<lambda>p.
      fragile_get (domain_objs db3) (dp_domain p))"
    show ?thesis
    proof (cases "\<exists>d. r3 = Inr () \<and> ?d = Inr d")
      case False
      then have "commit_effect j (next_id db) db (Inl undefined, db3) \<and>
          (\<exists>ex. link_endpoint C a j e db = (Inl ex, db3))"
        using s3 Inr l by (cases r3) (auto simp: run act_bind_def in_place_def commit_effect_def split: sum.split)
      then show ?thesis by (auto simp: commit_effect_def)
    next
      case True
      then obtain d where d: "r3 = Inr ()" "?d = Inr d" by blast
      define db4 where "db4 = db3\<lparr>topic_objs := obj_update (the (ep_topic e)) (ec_add_topic C j a)
        (topic_objs db3)\<rparr>"
      have "topic_homes db4"
        using s3 by (fastforce simp: in_place_def db_struct_def topic_homes_def db4_def obj_update_apply keep_id)
      then have s4: "in_place a j db db4"
        using s3 by (simp add: in_place_def db_struct_def db_owned_def db4_def entity_ids_def
            owned_in_update_same_id keep_id coll_other objs_other)
      then obtain y where y: "db_struct db4" "ec_objs C db4 a = Some y" "e_id y = j"
        "entity_ids db4 = entity_ids db" "next_id db4 = next_id db"
        by (auto simp: in_place_def)
      let ?c = "om_update [] (e_id d) (om_put j a) (ec_coll C db4)"
      have own: "owned_in (ec_objs C db4) e_id (ec_coll C db4)" using struct_coll [OF y(1)] .
      have "j \<notin> set (keys_in (ec_coll C db4))" using ids_coll [of db4] assms(2) y(4) by auto
      from ids_set_coll [OF keys_in_add [OF own this], of "e_id d" a]
      have "mset (entity_ids (ec_set_coll C ?c db4)) = add_mset j (mset (entity_ids db))"
        using y(4) by simp
      moreover have "db_struct (ec_set_coll C ?c db4)"
        using struct_set_coll [OF y(1) owned_in_put [OF own y(2,3)]] .
      moreover have "link_endpoint C a j e db = (Inr j, ec_set_coll C ?c db4)"
        using Inr l d by (simp add: run act_bind_def db4_def coll_other)
      ultimately show ?thesis using y by (simp add: commit_effect_def next_id_set)
    qed
  qed
qed

lemma insert_endpoint_effect:
  assumes "db_inv db" and "id_argument i db" and "insert_endpoint C qe a i db = (r, db')"
  shows "insertion_effect i r db db'"
proof -
  define db0 where "db0 = ec_update C a (ec_clear C) db"
  have o: "db_struct db0" "entity_ids db0 = entity_ids db" "next_id db0 = next_id db"
    using update_same_id [OF db_invD(13) [OF assms(1)], of "ec_clear C" a]
    by (simp_all add: db0_def keep_id)
  note run = assms(3) [unfolded insert_endpoint_def insert_ddsendpoint_nts_def, folded db0_def]
  show ?thesis
  proof (rule checked_insert_effect [OF assms(1) o assms(2) run])
    fix e j n
    assume e: "ec_objs C db0 a = Some e" "endpoint_checks C qe a e db0 = None" "j \<notin> set (entity_ids db0)"
    define db1 where "db1 = ec_update C a (\<lambda>x. x\<lparr>e_id := j\<rparr>) (db0\<lparr>next_id := n\<rparr>)"
    have ids: "entity_ids (db0\<lparr>next_id := n\<rparr>) = entity_ids db0" by (simp add: entity_ids_def)
    have s: "db_struct (db0\<lparr>next_id := n\<rparr>)"
      using o(1) by (simp add: db_struct_def db_owned_def topic_homes_def)
    have own: "owned_in (ec_objs C db0) e_id (ec_coll C db0)" using struct_coll [OF o(1)] .
    have "owned_in (obj_update a (\<lambda>x. x\<lparr>e_id := j\<rparr>) (ec_objs C db0)) e_id (ec_coll C db0)"
      by (rule owned_in_update_other [OF own checks_new(7) [OF e(2)]])
    then have "db_struct db1" "entity_ids db1 = entity_ids db0" "next_id db1 = n"
      "ec_objs C db1 a = Some (e\<lparr>e_id := j\<rparr>)"
      using s e(1) by (simp_all add: db1_def ec_update_def struct_set_objs ids_set_objs next_id_set
          objs_set objs_other coll_other obj_update_apply ids)
    then show "commit_effect j n db0 (link_endpoint C a j e db1)"
      using link_endpoint_effect [of db1 j a "e\<lparr>e_id := j\<rparr>" e] e(3)
      by (simp add: commit_effect_def split: sum.splits)
  qed
qed

end

interpretation reader_ec: endpoint_template reader_class
proof unfold_locales
  show "entity_ids (ec_set_objs reader_class h db) = entity_ids db" for h and db :: "'q database"
    by (simp add: reader_class_def entity_ids_def)
qed (auto simp: reader_class_def db_struct_def db_owned_def topic_homes_def entity_ids_def clear_defs)

interpretation writer_ec: endpoint_template writer_class
proof unfold_locales
  show "entity_ids (ec_set_objs writer_class h db) = entity_ids db" for h and db :: "'q database"
    by (simp add: writer_class_def entity_ids_def)
qed (auto simp: writer_class_def db_struct_def db_owned_def topic_homes_def entity_ids_def clear_defs)

section \<open>All kinds\<close>

lemma insert_nts_effect:
  assumes "db_inv db" and "id_argument i db" and "insert_nts qe e i db = (r, db')"
  shows "insertion_effect i r db db'"
  using assms insert_host_effect [of db i] insert_user_effect [of db i] insert_process_effect [of db i]
    insert_domain_effect [of db i] insert_topic_effect [of db i] insert_participant_effect [of db i]
    insert_locator_effect [of db i] reader_ec.insert_endpoint_effect [of db i]
    writer_ec.insert_endpoint_effect [of db i]
  by (cases e) (simp_all add: insert_nts_def)

text \<open>
  C1: inserting any kind of entity, with or without an identifier of the caller's, keeps every
  collection well-formed and all identifiers distinct and below the counter, whether it succeeds or
  throws. A call that throws adds no identifier; a call that succeeds adds exactly one, the caller's
  or the next of the counter, that no entity had before.
\<close>

theorem insert_keeps_identifiers_unique:
  assumes "db_inv db" and "next_id db < 2 ^ 63 - 1"
    and "is_valid_and_unique i \<longrightarrow> i \<notin> set (entity_ids db) \<and> entity_value i < 2 ^ 63 - 1"
    and "insert_nts qos_empty e i db = (r, db')"
  shows "db_inv db' \<and>
    (case r of
       Inl ex \<Rightarrow> entity_ids db' = entity_ids db
     | Inr j \<Rightarrow> j = (if is_valid_and_unique i then i else EntityId (next_id db)) \<and>
         j \<notin> set (entity_ids db) \<and> mset (entity_ids db') = add_mset j (mset (entity_ids db)))"
  using insert_nts_effect [OF assms(1) _ assms(4)] assms(2,3)
  by (cases r) (auto simp: insertion_effect_def id_argument_def)

text \<open>The concrete objects of the witnesses: a host, a user, a process, a domain, a participant.\<close>

definition example_db :: "unit database" where
  "example_db = new_database\<lparr>
     host_objs := [0 \<mapsto> new_host ''h'' OK_STATUS],
     user_objs := [0 \<mapsto> new_user ''u'' (Some 0) OK_STATUS],
     process_objs := [0 \<mapsto> new_process ''p'' ''7'' (Some 0) OK_STATUS],
     domain_objs := [0 \<mapsto> new_domain ''0'' 0 OK_STATUS],
     participant_objs := [0 \<mapsto> new_participant ''dp'' () ''g'' None (Some 0) OK_STATUS UNKNOWN_APP
       [] DISCOVERY_SOURCE UNKNOWN_DOMAIN_ID]\<rparr>"

lemma new_database_inv: "db_inv new_database"
  by (simp add: db_inv_def db_struct_def db_owned_def owned_def owned_in_def topic_homes_def
      ids_below_def entity_ids_def keys_in_def new_database_def)

lemma example_db_inv: "db_inv example_db"
  by (simp add: db_inv_def db_struct_def db_owned_def owned_def owned_in_def topic_homes_def
      ids_below_def entity_ids_def keys_in_def new_database_def example_db_def)

lemmas insert_eval = insert_nts_def insert_host_def insert_user_def insert_process_def
  insert_domain_def insert_participant_def checked_insert_def host_checks_def user_checks_def
  process_checks_def domain_checks_def participant_checks_def Let_def clear_defs throw_if_def
  throw_if_result_def each_def obj_update_def fragile_lock_def fragile_get_def is_entry_def
  points_to_entry_def assign_entity_id_def generate_entity_id_def invalid_id_def
  ENTITY_ID_INVALID_def ENTITY_ID_ALL_def is_valid_and_unique_def is_valid_def is_all_def wrap64_def

theorem insert_keeps_identifiers_unique_witness:
  "\<exists>db'. insert_nts (\<lambda>_. False) (HostRef 0) invalid_id example_db = (Inr (EntityId 0), db') \<and>
     db_inv db' \<and> mset (entity_ids db') = {#EntityId 0#}"
proof -
  obtain r db' where run: "insert_nts (\<lambda>_. False) (HostRef 0) invalid_id example_db = (r, db')"
    by fastforce
  have "r = Inr (EntityId 0)"
    using run by (auto simp: insert_eval example_db_def new_database_def entity_constructor_defs
        normalize_entity_name_def printable_def)
  moreover have "next_id example_db < 2 ^ 63 - 1" "\<not> is_valid_and_unique invalid_id"
    "entity_ids example_db = []"
    by (simp_all add: example_db_def new_database_def insert_eval entity_ids_def keys_in_def)
  ultimately show ?thesis
    using insert_keeps_identifiers_unique [OF example_db_inv _ _ run] run by simp
qed

end
