(* ===== verification/DbSampleInv.thy ===== *)
theory DbSampleInv
  imports DbSample DbInsertInv
begin

text \<open>
  What inserting samples guarantees: containers stay sorted and never empty, the entities and their
  identifiers stay in order, and the alerts that fire are exactly those whose conditions hold.
\<close>

section \<open>The containers\<close>

definition samples_wf :: "'q database \<Rightarrow> bool" where
  "samples_wf db \<longleftrightarrow>
     (\<forall>a p. participant_objs db a = Some p \<longrightarrow> participant_data_wf (dp_data p)) \<and>
     (\<forall>a r. reader_objs db a = Some r \<longrightarrow> reader_data_wf (dr_data r)) \<and>
     (\<forall>a w. writer_objs db a = Some w \<longrightarrow> writer_data_wf (dw_data w))"

named_theorems sample_wf_intros "storing a sample keeps the containers in order"

text \<open>What every insertion of a sample ends in.\<close>

definition sample_effect :: "'q database \<Rightarrow> unit result \<times> 'q database \<Rightarrow> bool" where
  "sample_effect db rd \<longleftrightarrow>
     fst rd \<noteq> Inl UndefinedBehaviour \<and>
     ((\<forall>s. fst rd \<noteq> Inl (Unsupported s)) \<longrightarrow> samples_wf (snd rd))"

lemma unchanged_effect: "samples_wf db' \<Longrightarrow> sample_effect db (Inr (), db')"
  by (simp add: sample_effect_def)

lemma set_participant_data_wf [sample_wf_intros]:
  assumes "samples_wf db" and "\<And>x. participant_data_wf x \<Longrightarrow> participant_data_wf (f x)"
  shows "samples_wf (set_participant_data a f db)"
  using assms by (auto simp: samples_wf_def set_participant_data_def obj_update_apply)

lemma set_reader_data_wf [sample_wf_intros]:
  assumes "samples_wf db" and "\<And>x. reader_data_wf x \<Longrightarrow> reader_data_wf (f x)"
  shows "samples_wf (set_reader_data a f db)"
  using assms by (auto simp: samples_wf_def set_reader_data_def obj_update_apply)

lemma set_writer_data_wf [sample_wf_intros]:
  assumes "samples_wf db" and "\<And>x. writer_data_wf x \<Longrightarrow> writer_data_wf (f x)"
  shows "samples_wf (set_writer_data a f db)"
  using assms by (auto simp: samples_wf_def set_writer_data_def obj_update_apply)

lemma samples_wf_frame:
  "participant_objs db' = participant_objs db \<Longrightarrow> reader_objs db' = reader_objs db \<Longrightarrow>
     writer_objs db' = writer_objs db \<Longrightarrow> samples_wf db' = samples_wf db"
  by (simp add: samples_wf_def)

lemma on_entity_effect:
  assumes "samples_wf db" and "\<And>a x. h a = Some x \<Longrightarrow> sample_effect db (f a x db)"
  shows "sample_effect db (on_entity what mm h d i f db)"
  using assms by (auto simp: on_entity_def sample_effect_def not_known_def split: option.split)

lemma trigger_frame:
  "participant_objs (snd (trigger_alerts_of_kind_nts clock d i e k v ob db)) = participant_objs db"
  "reader_objs (snd (trigger_alerts_of_kind_nts clock d i e k v ob db)) = reader_objs db"
  "writer_objs (snd (trigger_alerts_of_kind_nts clock d i e k v ob db)) = writer_objs db"
  by (simp_all add: trigger_alerts_of_kind_nts_def split_beta)

lemma trigger_alerts_in_result:
  "fst (trigger_alerts_in clock names k v m) \<in> {Inr ()} \<union> Inl ` {e. names = Inl e}"
  by (induction m) (auto simp: split_beta split: sum.split prod.split)

lemma endpoint_names_result: "endpoint_names e db = Inl x \<Longrightarrow> x = expired_reference"
  by (auto simp: endpoint_names_def fragile_get_def bind_result_def split: option.splits sum.splits)

lemma trigger_result:
  "fst (trigger_alerts_of_kind_nts clock d i e k v ob db) \<in> {Inr (), Inl expired_reference}"
  using trigger_alerts_in_result [of clock "endpoint_names e db" k v "om_get [] d (db_alerts db)"]
  by (auto simp: trigger_alerts_of_kind_nts_def split_beta dest: endpoint_names_result)

lemma trigger_effect:
  assumes "samples_wf db'"
  shows "sample_effect db (trigger_alerts_of_kind_nts clock d i e k v ob db')"
  using assms trigger_result [of clock d i e k v ob db']
  by (auto simp: sample_effect_def expired_reference_def samples_wf_frame [OF trigger_frame])

lemma locator_frame:
  "participant_objs (snd (get_locator_nts i db)) = participant_objs db \<and>
   reader_objs (snd (get_locator_nts i db)) = reader_objs db \<and>
   writer_objs (snd (get_locator_nts i db)) = writer_objs db"
  by (auto simp: get_locator_nts_def insert_locator_def checked_insert_def assign_entity_id_def
      generate_entity_id_def emit_def Let_def split: option.split prod.split sum.split if_splits)

lemma locator_checks_result: "locator_checks a l db = Some e \<Longrightarrow> \<exists>s. e = BadParameter s"
proof -
  have some: "first_some xs = Some e' \<Longrightarrow> Some e' \<in> set xs" for e' :: exn and xs
    by (induction xs rule: first_some.induct) auto
  assume "locator_checks a l db = Some e"
  then show ?thesis
    by (auto simp: locator_checks_def throw_if_def each_def dest!: some split: if_splits)
qed

lemma locator_result: "fst (get_locator_nts i db) = Inl e \<Longrightarrow> e \<noteq> UndefinedBehaviour \<and> (\<forall>s. e \<noteq> Unsupported s)"
  by (auto simp: get_locator_nts_def insert_locator_def checked_insert_def Let_def
      dest: locator_checks_result split: option.splits prod.splits sum.splits)

lemma locator_effect:
  assumes "samples_wf db" and "\<And>a db'. samples_wf db' \<Longrightarrow> participant_objs db' = participant_objs db \<Longrightarrow>
      sample_effect db0 (f a db')"
  shows "sample_effect db0 (act_bind (get_locator_nts i) f db)"
proof -
  obtain r db' where g: "get_locator_nts i db = (r, db')" by fastforce
  have "samples_wf db'" "participant_objs db' = participant_objs db"
    using locator_frame [of i db] assms(1) by (simp_all add: g samples_wf_def)
  then show ?thesis
    using assms(2) [of db'] locator_result [of i db] g by (cases r) (auto simp: act_bind_def sample_effect_def)
qed

lemma push_keyed_wf:
  assumes "mdc_wf src_ts m"
  shows "push_keyed k s m \<noteq> Inl e \<and> (\<forall>m'. push_keyed k s m = Inr (Some m') \<longrightarrow> mdc_wf src_ts m')"
  using mdc_append_wf [OF assms, of False s k]
  by (simp add: push_keyed_def map_rejects_wf [OF assms] list_rejects_def)

lemma newer_sorted:
  "ts_sorted src_ts xs \<Longrightarrow> \<not> dc_is_old src_ts (src_ts s) xs \<Longrightarrow> ts_sorted src_ts (xs @ [s])"
  using dc_push_newer_sorted [of src_ts xs s] by (simp add: dc_push_newer_def)

section \<open>Each kind of sample\<close>

lemma insert_fastdds_latency_effect:
  assumes "samples_wf db"
  shows "sample_effect db (insert_fastdds_latency s d i db)"
  unfolding insert_fastdds_latency_def
proof (rule on_entity_effect [OF assms])
  fix a w
  assume "writer_objs db a = Some w"
  then have wf: "mdc_wf src_ts (history2history_latency (dw_data w))"
    using assms by (simp add: samples_wf_def writer_data_wf_def)
  have "samples_wf (set_writer_data a (history2history_latency_update (\<lambda>_. m)) db)" if "mdc_wf src_ts m" for m
    using that by (intro set_writer_data_wf [OF assms]) (simp add: writer_data_wf_def)
  then show "sample_effect db (case push_keyed (latency_reader s) (EntityDataSample.truncate s)
      (history2history_latency (dw_data w)) of Inl e \<Rightarrow> (Inl e, db) | Inr None \<Rightarrow> (Inr (), db)
    | Inr (Some m) \<Rightarrow> (Inr (), set_writer_data a (history2history_latency_update (\<lambda>_. m)) db))"
    using push_keyed_wf [OF wf, of "latency_reader s" "EntityDataSample.truncate s"] assms
    by (auto simp: sample_effect_def split: sum.split option.split)
qed

lemma insert_network_latency_effect:
  assumes "samples_wf db"
  shows "sample_effect db (insert_network_latency s d i db)"
  unfolding insert_network_latency_def
proof (rule on_entity_effect [OF assms])
  fix a p
  assume "participant_objs db a = Some p"
  then have wf: "mdc_wf src_ts (network_latency_per_locator (dp_data p))"
    using assms by (simp add: samples_wf_def participant_data_wf_def)
  have "samples_wf (set_participant_data a (network_latency_per_locator_update (\<lambda>_. m)) db)" if "mdc_wf src_ts m" for m
    using that by (intro set_participant_data_wf [OF assms]) (simp add: participant_data_wf_def)
  then show "sample_effect db (case push_keyed (latency_remote_locator s) (EntityDataSample.truncate s)
      (network_latency_per_locator (dp_data p)) of Inl e \<Rightarrow> (Inl e, db) | Inr None \<Rightarrow> (Inr (), db)
    | Inr (Some m) \<Rightarrow> (Inr (), set_participant_data a (network_latency_per_locator_update (\<lambda>_. m)) db))"
    using push_keyed_wf [OF wf, of "latency_remote_locator s" "EntityDataSample.truncate s"] assms
    by (auto simp: sample_effect_def split: sum.split option.split)
qed

lemma insert_discovery_time_effect:
  assumes "samples_wf db"
  shows "sample_effect db (insert_discovery_time s d i db)"
  unfolding insert_discovery_time_def
proof (rule on_entity_effect [OF assms])
  fix a p
  assume "participant_objs db a = Some p"
  then have wf: "mdc_wf src_ts (discovered_entity (dp_data p))"
    using assms by (simp add: samples_wf_def participant_data_wf_def)
  have "samples_wf (set_participant_data a (discovered_entity_update (\<lambda>_. m)) db)" if "mdc_wf src_ts m" for m
    using that by (intro set_participant_data_wf [OF assms]) (simp add: participant_data_wf_def)
  then show "sample_effect db (case push_keyed (remote_entity s) s (discovered_entity (dp_data p)) of
      Inl e \<Rightarrow> (Inl e, db) | Inr None \<Rightarrow> (Inr (), db)
    | Inr (Some m) \<Rightarrow> (Inr (), set_participant_data a (discovered_entity_update (\<lambda>_. m)) db))"
    using push_keyed_wf [OF wf, of "remote_entity s" s] assms
    by (auto simp: sample_effect_def split: sum.split option.split)
qed

lemma insert_sample_datas_effect:
  assumes "samples_wf db"
  shows "sample_effect db (insert_sample_datas s d i db)"
  unfolding insert_sample_datas_def
proof (rule on_entity_effect [OF assms])
  fix a w
  assume "writer_objs db a = Some w"
  then have wf: "mdc_wf src_ts (sample_datas (dw_data w))"
    using assms by (simp add: samples_wf_def writer_data_wf_def)
  have "samples_wf (set_writer_data a (\<lambda>x. x\<lparr>sample_datas :=
      om_put (sequence_number s) [EntityCountSample.truncate s] (sample_datas x)\<rparr>) db)"
    by (intro set_writer_data_wf [OF assms])
      (simp add: writer_data_wf_def mdc_put_wf ts_sorted_def)
  then show "sample_effect db (case map_rejects False False (src_ts s) (sequence_number s)
      (sample_datas (dw_data w)) of Inl e \<Rightarrow> (Inl e, db) | Inr True \<Rightarrow> (Inr (), db)
    | Inr False \<Rightarrow> (Inr (), set_writer_data a (\<lambda>x. x\<lparr>sample_datas :=
        om_put (sequence_number s) [EntityCountSample.truncate s] (sample_datas x)\<rparr>) db))"
    using assms by (auto simp: map_rejects_wf [OF wf] sample_effect_def split: bool.split)
qed

lemma insert_publication_throughput_effect:
  assumes "samples_wf db"
  shows "sample_effect db (insert_publication_throughput s d i db)"
  unfolding insert_publication_throughput_def
proof (rule on_entity_effect [OF assms])
  fix a w
  assume w: "writer_objs db a = Some w"
  let ?f = "publication_throughput_update (\<lambda>xs. xs @ [s])"
  have "samples_wf (set_writer_data a ?f db)"
    if "\<not> dc_is_old src_ts (src_ts s) (publication_throughput (dw_data w))"
    using assms that w newer_sorted [of _ s]
    by (auto simp: samples_wf_def set_writer_data_def obj_update_apply writer_data_wf_def)
  then show "sample_effect db (if dc_is_old src_ts (src_ts s) (publication_throughput (dw_data w))
      then (Inr (), db) else (Inr (), set_writer_data a ?f db))"
    using assms by (simp add: sample_effect_def)
qed

lemma insert_subscription_throughput_effect:
  assumes "samples_wf db"
  shows "sample_effect db (insert_subscription_throughput clock s d i db)"
  unfolding insert_subscription_throughput_def
proof (rule on_entity_effect [OF assms])
  fix a r
  assume r: "reader_objs db a = Some r"
  let ?f = "subscription_throughput_update (\<lambda>xs. xs @ [s])"
  have "samples_wf (set_reader_data a ?f db)"
    if "\<not> dc_is_old src_ts (src_ts s) (subscription_throughput (dr_data r))"
    using assms that r newer_sorted [of _ s]
    by (auto simp: samples_wf_def set_reader_data_def obj_update_apply reader_data_wf_def)
  then show "sample_effect db (if dc_is_old src_ts (src_ts s) (subscription_throughput (dr_data r))
      then (Inr (), db) else trigger_alerts_of_kind_nts clock d i r NO_DATA_ALERT (DoubleValue (sample_data s))
        (SubscriptionThroughput s) (set_reader_data a ?f db))"
    using assms by (auto simp: unchanged_effect intro: trigger_effect)
qed

text \<open>Counters: storing a report into a sorted container.\<close>

lemma report_count_fst:
  "ts_sorted src_ts (fst d) \<Longrightarrow> ts_sorted src_ts (fst (report_count loading last_reported s d))"
  using report_count_sorted [of "fst d" loading last_reported s "snd d"] by simp

lemma insert_writer_count_effect:
  assumes "samples_wf db"
    and "\<And>x r. writer_data_wf x \<Longrightarrow> ts_sorted src_ts (fst (get x)) \<and>
      (ts_sorted src_ts (fst r) \<longrightarrow> writer_data_wf (put r x))"
  shows "sample_effect db (insert_writer_count get put loading last_reported s d i db)"
  unfolding insert_writer_count_def
  by (intro on_entity_effect [OF assms(1)] unchanged_effect set_writer_data_wf [OF assms(1)])
    (use assms(2) report_count_fst in blast)

lemma insert_reader_count_effect:
  assumes "samples_wf db"
    and "\<And>x r. reader_data_wf x \<Longrightarrow> ts_sorted src_ts (fst (get x)) \<and>
      (ts_sorted src_ts (fst r) \<longrightarrow> reader_data_wf (put r x))"
  shows "sample_effect db (insert_reader_count get put loading last_reported s d i db)"
  unfolding insert_reader_count_def
  by (intro on_entity_effect [OF assms(1)] unchanged_effect set_reader_data_wf [OF assms(1)])
    (use assms(2) report_count_fst in blast)

lemma insert_participant_count_effect:
  assumes "samples_wf db"
    and "\<And>x r. participant_data_wf x \<Longrightarrow> ts_sorted src_ts (fst (get x)) \<and>
      (ts_sorted src_ts (fst r) \<longrightarrow> participant_data_wf (put r x))"
  shows "sample_effect db (insert_participant_count get put loading last_reported s d i db)"
  unfolding insert_participant_count_def
  by (intro on_entity_effect [OF assms(1)] unchanged_effect set_participant_data_wf [OF assms(1)])
    (use assms(2) report_count_fst in blast)

lemma insert_counts_effect:
  assumes "samples_wf db"
  shows "sample_effect db (insert_resent_datas loading last_reported s d i db)"
    "sample_effect db (insert_heartbeat_count loading last_reported s d i db)"
    "sample_effect db (insert_gap_count loading last_reported s d i db)"
    "sample_effect db (insert_acknack_count loading last_reported s d i db)"
    "sample_effect db (insert_nackfrag_count loading last_reported s d i db)"
    "sample_effect db (insert_pdp_packets loading last_reported s d i db)"
    "sample_effect db (insert_edp_packets loading last_reported s d i db)"
  unfolding insert_resent_datas_def insert_heartbeat_count_def insert_gap_count_def insert_acknack_count_def
    insert_nackfrag_count_def insert_pdp_packets_def insert_edp_packets_def
  by (rule insert_writer_count_effect [OF assms] insert_reader_count_effect [OF assms]
      insert_participant_count_effect [OF assms], auto simp: data_wf_defs split: prod.split)+

lemma insert_data_count_effect:
  assumes "samples_wf db"
  shows "sample_effect db (insert_data_count clock loading last_reported s d i db)"
  unfolding insert_data_count_def
proof (rule on_entity_effect [OF assms])
  fix a w
  let ?f = "\<lambda>x. case report_count loading last_reported s (data_count x, last_reported_data_count x) of
    (xs, lr) \<Rightarrow> x\<lparr>data_count := xs, last_reported_data_count := lr\<rparr>"
  have "samples_wf (set_writer_data a ?f db)"
  proof (rule set_writer_data_wf [OF assms])
    fix x assume "writer_data_wf x"
    then show "writer_data_wf (?f x)"
      using report_count_sorted [of "data_count x" loading last_reported s "last_reported_data_count x"]
      by (auto simp: writer_data_wf_def split: prod.split)
  qed
  then show "sample_effect db (if list_rejects loading last_reported (src_ts s) (data_count (dw_data w))
      then (Inr (), db) else trigger_alerts_of_kind_nts clock d i w NEW_DATA_ALERT
        (CountValue (sample_count s)) (DataCount s) (set_writer_data a ?f db))"
    using assms by (auto simp: unchanged_effect intro: trigger_effect)
qed

lemma insert_rtps_packets_effect:
  assumes "samples_wf db"
    and "\<And>x. participant_data_wf x \<Longrightarrow> mdc_wf src_ts (fst (get x)) \<and> om_wf (snd (get x))"
    and "\<And>x m lr. participant_data_wf x \<Longrightarrow> mdc_wf src_ts m \<Longrightarrow> om_wf lr \<Longrightarrow> participant_data_wf (put (m, lr) x)"
  shows "sample_effect db (insert_rtps_packets get put loading last_reported s d i db)"
  unfolding insert_rtps_packets_def
proof (rule on_entity_effect [OF assms(1)])
  fix a p
  let ?k = "count_remote_locator s" and ?s = "EntityCountSample.truncate s"
  let ?f = "\<lambda>x. put (report_packets loading last_reported ?k ?s (get x)) x"
  assume p: "participant_objs db a = Some p"
  then have wf: "mdc_wf src_ts (fst (get (dp_data p)))" "om_wf (snd (get (dp_data p)))"
    "participant_data_wf (dp_data p)"
    using assms(1,2) by (auto simp: samples_wf_def)
  have "sample_effect db (act_bind (get_locator_nts ?k) (\<lambda>_ db. (Inr (), set_participant_data a ?f db)) db)"
    if "\<not> list_rejects loading last_reported (src_ts s) (om_get [] ?k (fst (get (dp_data p))))"
  proof (rule locator_effect [OF assms(1)], rule unchanged_effect)
    fix db' :: "'a database"
    assume db': "samples_wf db'" "participant_objs db' = participant_objs db"
    obtain m lr where r: "report_packets loading last_reported ?k ?s (get (dp_data p)) = (m, lr)" by fastforce
    have "mdc_wf src_ts m \<and> om_wf lr"
      using report_packets_wf [of "fst (get (dp_data p))" "snd (get (dp_data p))" loading last_reported ?s ?k m lr]
        wf that r by (simp add: EntityCountSample.truncate_def)
    then have "participant_data_wf (?f (dp_data p))" using assms(3) wf(3) r by simp
    then show "samples_wf (set_participant_data a ?f db')"
      using db' p by (auto simp: samples_wf_def set_participant_data_def obj_update_apply)
  qed
  then show "sample_effect db (case map_rejects loading last_reported (src_ts s) ?k (fst (get (dp_data p))) of
      Inl e \<Rightarrow> (Inl e, db) | Inr True \<Rightarrow> (Inr (), db)
    | Inr False \<Rightarrow> act_bind (get_locator_nts ?k) (\<lambda>_ db. (Inr (), set_participant_data a ?f db)) db)"
    using assms(1) by (auto simp: map_rejects_wf [OF wf(1)] unchanged_effect split: bool.split)
qed

lemma report_bytes_result:
  "fst (report_bytes loading last_reported k s d) = Inl e \<Longrightarrow> \<exists>m. e = Unsupported m"
  by (auto simp: report_bytes_def byte_minus_def Let_def split: prod.splits sum.splits if_splits)

lemma insert_rtps_bytes_effect:
  assumes "samples_wf db"
    and "\<And>x. participant_data_wf x \<Longrightarrow> mdc_wf src_ts (fst (get x)) \<and> om_wf (snd (get x))"
    and "\<And>x m lr. participant_data_wf x \<Longrightarrow> mdc_wf src_ts m \<Longrightarrow> om_wf lr \<Longrightarrow> participant_data_wf (put (m, lr) x)"
  shows "sample_effect db (insert_rtps_bytes get put loading last_reported s d i db)"
  unfolding insert_rtps_bytes_def
proof (rule on_entity_effect [OF assms(1)])
  fix a p
  let ?k = "byte_remote_locator s" and ?s = "ByteCountSample.truncate s"
  assume p: "participant_objs db a = Some p"
  then have wf: "mdc_wf src_ts (fst (get (dp_data p)))" "om_wf (snd (get (dp_data p)))"
    "participant_data_wf (dp_data p)"
    using assms(1,2) by (auto simp: samples_wf_def)
  obtain r m lr where rb: "report_bytes loading last_reported ?k ?s (get (dp_data p)) = (r, m, lr)"
    by (metis prod_cases3)
  have "sample_effect db (act_bind (get_locator_nts ?k) (\<lambda>_ db. (r, set_participant_data a (put (m, lr)) db)) db)"
    if g: "\<not> list_rejects loading last_reported (src_ts s) (om_get [] ?k (fst (get (dp_data p))))"
  proof (rule locator_effect [OF assms(1)])
    fix db' :: "'a database"
    assume db': "samples_wf db'" "participant_objs db' = participant_objs db"
    show "sample_effect db (r, set_participant_data a (put (m, lr)) db')"
    proof (cases r)
      case (Inl e)
      then show ?thesis using report_bytes_result [of loading last_reported ?k ?s "get (dp_data p)"] rb
        by (auto simp: sample_effect_def)
    next
      case (Inr u)
      then have "mdc_wf src_ts m \<and> om_wf lr"
        using report_bytes_wf [of "fst (get (dp_data p))" "snd (get (dp_data p))" loading last_reported ?s ?k m lr]
          wf g rb by (simp add: ByteCountSample.truncate_def)
      then have "participant_data_wf (put (m, lr) (dp_data p))" using assms(3) wf(3) by blast
      then show ?thesis
        using db' p Inr by (auto simp: sample_effect_def samples_wf_def set_participant_data_def obj_update_apply)
    qed
  qed
  then show "sample_effect db (case map_rejects loading last_reported (src_ts s) ?k (fst (get (dp_data p))) of
      Inl e \<Rightarrow> (Inl e, db) | Inr True \<Rightarrow> (Inr (), db)
    | Inr False \<Rightarrow> act_bind (get_locator_nts ?k) (\<lambda>_ db. case report_bytes loading last_reported ?k ?s
         (get (dp_data p)) of (r, d') \<Rightarrow> (r, set_participant_data a (put d') db)) db)"
    using assms(1) rb by (auto simp: map_rejects_wf [OF wf(1)] unchanged_effect split: bool.split)
qed

lemma insert_rtps_effect:
  assumes "samples_wf db"
  shows "sample_effect db (insert_rtps_packets_sent loading last_reported s d i db)"
    "sample_effect db (insert_rtps_packets_lost loading last_reported s d i db)"
    "sample_effect db (insert_rtps_bytes_sent loading last_reported b d i db)"
    "sample_effect db (insert_rtps_bytes_lost loading last_reported b d i db)"
  unfolding insert_rtps_packets_sent_def insert_rtps_packets_lost_def insert_rtps_bytes_sent_def
    insert_rtps_bytes_lost_def
  by (rule insert_rtps_packets_effect [OF assms] insert_rtps_bytes_effect [OF assms],
      simp add: participant_data_wf_def, simp add: participant_data_wf_def)+

lemma bad_class_effect: "samples_wf db \<Longrightarrow> sample_effect db (bad_class what mm h d i db)"
  unfolding bad_class_def by (rule on_entity_effect) (simp_all add: sample_effect_def)

lemmas insert_sample_effects = insert_fastdds_latency_effect insert_network_latency_effect
  insert_discovery_time_effect insert_sample_datas_effect insert_publication_throughput_effect
  insert_subscription_throughput_effect insert_counts_effect insert_data_count_effect insert_rtps_effect
  bad_class_effect

lemma insert_sample_effect:
  assumes "samples_wf db"
  shows "sample_effect db (insert_sample clock d i ob loading last_reported db)"
proof -
  note E = insert_sample_effects [OF assms]
  have "sample_effect db (Inl (BadParameter m), db)" for m using assms by (simp add: sample_effect_def)
  then show ?thesis
    unfolding insert_sample_def Let_def by (auto simp: E split: DataKind.split sample_object.split)
qed

text \<open>
  C11: inserting a sample of any kind, live or from a dump, keeps every container of every entity
  sorted by time and no map of containers with an empty one, so no insertion reads the last element
  of an empty container. The one exception is a byte count whose subtraction throws.
\<close>

theorem samples_stay_sorted:
  assumes "samples_wf db" and "insert_sample clock d i ob loading last_reported db = (r, db')"
  shows "r \<noteq> Inl UndefinedBehaviour \<and> ((\<forall>s. r \<noteq> Inl (Unsupported s)) \<longrightarrow> samples_wf db')"
  using insert_sample_effect [OF assms(1), of clock d i ob loading last_reported] assms(2)
  by (simp add: sample_effect_def)

definition example_writer_db :: "unit database" where
  "example_writer_db = new_database\<lparr>next_id := 3, domains := [(EntityId 0, 0)],
     domain_objs := [0 \<mapsto> (new_domain ''0'' 0 OK_STATUS)\<lparr>e_id := EntityId 0\<rparr>],
     participants := [(EntityId 0, [(EntityId 1, 0)])],
     participant_objs := [0 \<mapsto> (new_participant ''p'' () ''1.1'' None (Some 0) OK_STATUS UNKNOWN_APP []
       DISCOVERY_SOURCE 0)\<lparr>e_id := EntityId 1\<rparr>]\<rparr>"

lemma example_writer_db_samples: "samples_wf example_writer_db"
  by (simp add: samples_wf_def example_writer_db_def new_database_def new_participant_def DDSEntity.defs
      DomainParticipant.defs empty_data_wf)

definition example_packets :: EntityToLocatorCountSample where
  "example_packets = \<lparr>sample_kind = RTPS_PACKETS_SENT, src_ts = 5, sample_count = 3,
     count_remote_locator = EntityId 7\<rparr>"

theorem samples_stay_sorted_witness:
  "\<exists>db'. insert_sample (\<lambda>_. (0, 0, 0)) (EntityId 0) (EntityId 1) (RtpsPacketsSent example_packets) False False
     example_writer_db = (Inr (), db') \<and> samples_wf db' \<and> om_keys (locators db') = [EntityId 7]"
proof -
  obtain r db' where run: "insert_sample (\<lambda>_. (0, 0, 0)) (EntityId 0) (EntityId 1)
      (RtpsPacketsSent example_packets) False False example_writer_db = (r, db')" by fastforce
  have n: "normalize_entity_name (''locator_'' @ xs) \<noteq> []" for xs
    by (simp add: normalize_entity_name_def printable_def)
  have "r = Inr () \<and> om_keys (locators db') = [EntityId 7]"
    using run n [of "to_string_int 7"]
    by (auto simp: insert_sample_def example_packets_def example_writer_db_def insert_rtps_packets_sent_def
        insert_rtps_packets_def on_entity_def known_def map_rejects_def new_participant_def DDSEntity.defs
        DomainParticipant.defs empty_participant_data_def act_bind_def get_locator_nts_def insert_locator_def
        locator_checks_def insert_eval emit_def set_participant_data_def new_database_def new_locator_def
        new_entity_def Entity.defs Locator.defs each_def)
  then show ?thesis using samples_stay_sorted [OF example_writer_db_samples run] run by auto
qed

section \<open>The entities\<close>

lemma keep_inv:
  assumes "db_inv db"
  shows "db_inv (set_participant_data a f db)" "db_inv (set_reader_data a g db)"
    "db_inv (set_writer_data a h db)" "db_inv (db\<lparr>db_alerts := al, events := ev\<rparr>)"
    "db_inv (db\<lparr>next_addr := n\<rparr>)"
proof -
  note D = db_invD(1-9,12) [OF assms]
  have sd: "db_struct (set_participant_data a f db)" "db_struct (set_reader_data a g db)"
    "db_struct (set_writer_data a h db)" "db_struct (db\<lparr>db_alerts := al, events := ev\<rparr>)"
    "db_struct (db\<lparr>next_addr := n\<rparr>)"
    using D unfolding db_struct_def db_owned_def topic_homes_def
    by (simp_all add: set_participant_data_def set_reader_data_def set_writer_data_def owned_in_update_same_id)
  show "db_inv (set_participant_data a f db)" "db_inv (set_reader_data a g db)"
    "db_inv (set_writer_data a h db)" "db_inv (db\<lparr>db_alerts := al, events := ev\<rparr>)"
    "db_inv (db\<lparr>next_addr := n\<rparr>)"
    using sd [THEN db_inv_same [OF assms]]
    by (simp_all add: set_participant_data_def set_reader_data_def set_writer_data_def entity_ids_def)
qed

definition locator_room :: "EntityId \<Rightarrow> 'q database \<Rightarrow> bool" where
  "locator_room k db \<longleftrightarrow> locator_objs db (next_addr db) = None \<and>
     (om_find (locators db) k = None \<longrightarrow> id_argument k db)"

lemma get_locator_inv:
  assumes "db_inv db" and "locator_room k db"
  shows "db_inv (snd (get_locator_nts k db))"
proof (cases "om_find (locators db) k")
  case (Some a)
  then show ?thesis using assms(1) by (simp add: get_locator_nts_def)
next
  case None
  let ?l = "new_locator (''locator_'' @ to_string_int (entity_value k))"
  let ?a = "next_addr db"
  let ?db0 = "db\<lparr>next_addr := Suc ?a, locator_objs := (locator_objs db)(?a \<mapsto> ?l)\<rparr>"
  note D = db_invD(1-9,12) [OF assms(1)]
  have free: "locator_objs db ?a = None" "id_argument k db"
    using assms(2) None by (simp_all add: locator_room_def)
  have new: "owned (locator_objs ?db0) e_id (locators db)"
    using D(5) free(1) by (force simp: owned_def)
  have "db_struct ?db0"
    using D new unfolding db_struct_def db_owned_def topic_homes_def by simp
  then have inv: "db_inv ?db0" by (rule db_inv_same [OF assms(1)]) (simp_all add: entity_ids_def)
  have arg: "id_argument k ?db0" using free(2) by (simp add: id_argument_def entity_ids_def)
  obtain r db' where run: "insert_locator ?a k ?db0 = (r, db')" by fastforce
  have eff: "db_inv db'" using insert_locator_effect [OF inv arg run] by (simp add: insertion_effect_def)
  show ?thesis
  proof (cases r)
    case (Inr j)
    have "db_inv (emit ev db')" for ev using keep_inv(4) [OF eff, where al = "db_alerts db'" and ev = "events db' @ [ev]"]
      by (simp add: emit_def)
    then show ?thesis using run Inr by (simp add: get_locator_nts_def None)
  next
    case (Inl e)
    then have "db' = ?db0\<lparr>locator_objs := obj_update ?a clear_locator (locator_objs ?db0)\<rparr>"
      using run by (auto simp: insert_locator_def checked_insert_def Let_def split: option.splits prod.splits)
    then have "db'\<lparr>locator_objs := (locator_objs db')(?a := None)\<rparr> = db\<lparr>next_addr := Suc ?a\<rparr>"
      using free(1) by (cases db) (auto simp: obj_update_def)
    then show ?thesis using run Inl keep_inv(5) [OF assms(1)] by (simp add: get_locator_nts_def None)
  qed
qed

text \<open>The remote locator a sample refers to, which may have to be created.\<close>

fun remote_locator_of :: "sample_object \<Rightarrow> EntityId option" where
  "remote_locator_of (RtpsPacketsSent s) = Some (count_remote_locator s)"
| "remote_locator_of (RtpsBytesSent s) = Some (byte_remote_locator s)"
| "remote_locator_of (RtpsPacketsLost s) = Some (count_remote_locator s)"
| "remote_locator_of (RtpsBytesLost s) = Some (byte_remote_locator s)"
| "remote_locator_of ob = None"

text \<open>
  The locators afterwards: the same, or one more, with the identifier the sample names (a generated
  one when that is not the identifier of a single entity) and the object just created.
\<close>

definition locators_gain :: "EntityId \<Rightarrow> 'q database \<Rightarrow> 'q database \<Rightarrow> bool" where
  "locators_gain k db db' \<longleftrightarrow>
     (locators db' = locators db \<or>
      om_find (locators db) k = None \<and> locators db' = om_put
        (if is_valid_and_unique k then k else EntityId (next_id db)) (next_addr db) (locators db)) \<and>
     (\<forall>a. a \<noteq> next_addr db \<longrightarrow> locator_objs db' a = locator_objs db a)"

text \<open>The entities are in order, and no collection but that of the locators has changed.\<close>

definition kept :: "'q database \<Rightarrow> 'q database \<Rightarrow> bool" where
  "kept db db' \<longleftrightarrow> db_inv db' \<and> hosts db' = hosts db \<and> users db' = users db \<and>
     processes db' = processes db \<and> domains db' = domains db \<and> topics db' = topics db \<and>
     participants db' = participants db \<and> datareaders db' = datareaders db \<and>
     datawriters db' = datawriters db"

lemma kept_refl [simp]: "kept db db \<longleftrightarrow> db_inv db"
  by (simp add: kept_def)

lemma kept_trans: "kept db db1 \<Longrightarrow> kept db1 db2 \<Longrightarrow> kept db db2"
  by (simp add: kept_def)

text \<open>That collection has not changed either unless a locator is named.\<close>

definition kept_but :: "EntityId option \<Rightarrow> 'q database \<Rightarrow> 'q database \<Rightarrow> bool" where
  "kept_but n db db' \<longleftrightarrow> kept db db' \<and>
     (case n of
        None \<Rightarrow> locators db' = locators db \<and> locator_objs db' = locator_objs db
      | Some k \<Rightarrow> locators_gain k db db')"

lemma kept_but_refl [simp]: "kept_but n db db \<longleftrightarrow> db_inv db"
  by (simp add: kept_but_def kept_def locators_gain_def split: option.split)

lemma kept_but_inv: "kept_but n db db' \<Longrightarrow> db_inv db'"
  by (simp add: kept_but_def kept_def)

lemma kept_but_trans: "kept_but n db db1 \<Longrightarrow> kept_but None db1 db2 \<Longrightarrow> kept_but n db db2"
  by (auto simp: kept_but_def kept_def locators_gain_def split: option.splits)

lemma kept_but_data:
  assumes "db_inv db"
  shows "kept_but n db (set_participant_data a f db)" "kept_but n db (set_reader_data a g db)"
    "kept_but n db (set_writer_data a h db)"
  using keep_inv(1-3) [OF assms]
  by (simp_all add: kept_but_def kept_def locators_gain_def set_participant_data_def set_reader_data_def set_writer_data_def
      split: option.split)

lemma kept_but_trigger: "db_inv db \<Longrightarrow> kept_but None db (snd (trigger_alerts_of_kind_nts clock d i e k v ob db))"
  using keep_inv(4) [of db] by (simp add: kept_but_def kept_def trigger_alerts_of_kind_nts_def split_beta)

lemma kept_but_locator:
  assumes "db_inv db" and "locator_room k db"
  shows "kept_but (Some k) db (snd (get_locator_nts k db))"
  using get_locator_inv [OF assms]
  by (auto simp: kept_but_def kept_def locators_gain_def get_locator_nts_def insert_locator_def checked_insert_def
      assign_entity_id_def generate_entity_id_def emit_def obj_update_apply Let_def
      split: option.splits prod.splits sum.splits if_splits)

lemma on_entity_inv:
  "db_inv db \<Longrightarrow> (\<And>a x. kept_but n db (snd (f a x db))) \<Longrightarrow> kept_but n db (snd (on_entity what mm h d i f db))"
  by (simp add: on_entity_def split: option.split)

lemma act_bind_locator_inv:
  assumes "db_inv db" and "locator_room k db" and "\<And>a db'. db_inv db' \<Longrightarrow> kept_but None db' (snd (f a db'))"
  shows "kept_but (Some k) db (snd (act_bind (get_locator_nts k) f db))"
  using kept_but_locator [OF assms(1,2)] kept_but_trans [OF _ assms(3) [OF kept_but_inv]]
  by (auto simp: act_bind_def split: prod.split sum.split)

lemma insert_plain_inv:
  assumes "db_inv db"
  shows "kept_but None db (snd (insert_fastdds_latency s1 d i db))" "kept_but None db (snd (insert_network_latency s2 d i db))"
    "kept_but None db (snd (insert_discovery_time s3 d i db))" "kept_but None db (snd (insert_sample_datas s4 d i db))"
    "kept_but None db (snd (insert_publication_throughput s5 d i db))"
    "kept_but None db (snd (insert_subscription_throughput clock s5 d i db))"
    "kept_but None db (snd (insert_writer_count gw pw l r s6 d i db))" "kept_but None db (snd (insert_reader_count gr pr l r s6 d i db))"
    "kept_but None db (snd (insert_participant_count gp pp l r s6 d i db))" "kept_but None db (snd (insert_data_count clock l r s6 d i db))"
    "kept_but n db (snd (bad_class what mm h d i db))"
  unfolding insert_fastdds_latency_def insert_network_latency_def insert_discovery_time_def
    insert_sample_datas_def insert_publication_throughput_def insert_subscription_throughput_def
    insert_writer_count_def insert_reader_count_def insert_participant_count_def insert_data_count_def bad_class_def
  by (rule on_entity_inv [OF assms], auto simp: assms kept_but_data [OF assms] split: sum.split option.split
      bool.split intro: kept_but_trans [OF kept_but_data(2) [OF assms] kept_but_trigger] kept_but_trans [OF kept_but_data(3) [OF assms] kept_but_trigger]
      kept_but_inv [OF kept_but_data(2) [OF assms]] kept_but_inv [OF kept_but_data(3) [OF assms]])+

lemma insert_rtps_inv:
  assumes "db_inv db"
  shows "locator_room (count_remote_locator s) db \<Longrightarrow>
      kept_but (Some (count_remote_locator s)) db (snd (insert_rtps_packets get put loading last_reported s d i db))"
    and "locator_room (byte_remote_locator b) db \<Longrightarrow>
      kept_but (Some (byte_remote_locator b)) db (snd (insert_rtps_bytes getb putb loading last_reported b d i db))"
  unfolding insert_rtps_packets_def insert_rtps_bytes_def
  by (rule on_entity_inv [OF assms], auto simp: assms kept_but_data split: sum.split bool.split prod.split
      intro!: act_bind_locator_inv [OF assms])+

lemma insert_sample_kept_but:
  assumes "db_inv db" and "\<forall>k. remote_locator_of ob = Some k \<longrightarrow> locator_room k db"
  shows "kept_but (remote_locator_of ob) db (snd (insert_sample clock d i ob loading last_reported db))"
proof -
  note P = insert_plain_inv [OF assms(1)]
  note C = insert_resent_datas_def insert_heartbeat_count_def insert_gap_count_def insert_acknack_count_def
    insert_nackfrag_count_def insert_pdp_packets_def insert_edp_packets_def insert_rtps_packets_sent_def
    insert_rtps_packets_lost_def insert_rtps_bytes_sent_def insert_rtps_bytes_lost_def
  show ?thesis
  proof (cases "remote_locator_of ob")
    case None
    then show ?thesis
      unfolding insert_sample_def Let_def
      by (cases ob) (auto simp: P C assms(1) split: DataKind.split)
  next
    case (Some k)
    then have room: "locator_room k db" using assms(2) by blast
    show ?thesis
      using Some room insert_rtps_inv [OF assms(1)]
      unfolding insert_sample_def Let_def
      by (cases ob) (auto simp: P C assms(1) split: DataKind.split)
  qed
qed

lemma insert_sample_kept:
  "db_inv db \<Longrightarrow> (\<forall>k. remote_locator_of ob = Some k \<longrightarrow> locator_room k db) \<Longrightarrow>
     kept db (snd (insert_sample clock d i ob loading last_reported db))"
  using insert_sample_kept_but [of db ob clock d i loading last_reported] by (simp add: kept_but_def)

text \<open>
  C15: inserting a sample keeps the collections of entities in order: every entity stays under its own
  identifier, all identifiers stay distinct, and no collection changes but that of the locators. That
  one changes only for a sample that names a remote locator, and then by no more than one entry: the
  locator named, when it is not known yet, with the object created for it; the objects of the other
  locators stay as they are.
\<close>

theorem sample_keeps_entities:
  assumes "db_inv db" and "\<forall>k. remote_locator_of ob = Some k \<longrightarrow> locator_room k db"
    and "insert_sample clock d i ob loading last_reported db = (r, db')"
  shows "kept_but (remote_locator_of ob) db db'"
  using insert_sample_kept_but [OF assms(1,2), of clock d i loading last_reported] assms(3) by simp

lemma example_writer_db_inv: "db_inv example_writer_db"
  by (simp add: db_inv_def db_struct_def db_owned_def owned_def owned_in_def topic_homes_def
      ids_below_def entity_ids_def keys_in_def new_database_def example_writer_db_def om_wf_def
      entity_constructor_defs)

theorem sample_keeps_entities_witness:
  "\<exists>r db'. insert_sample (\<lambda>_. (0, 0, 0)) (EntityId 0) (EntityId 1) (RtpsPacketsSent example_packets) False False
     example_writer_db = (r, db') \<and> kept_but (Some (EntityId 7)) example_writer_db db'"
proof -
  obtain r db' where run: "insert_sample (\<lambda>_. (0, 0, 0)) (EntityId 0) (EntityId 1)
      (RtpsPacketsSent example_packets) False False example_writer_db = (r, db')" by fastforce
  have "\<forall>k. remote_locator_of (RtpsPacketsSent example_packets) = Some k \<longrightarrow> locator_room k example_writer_db"
    by (simp add: example_packets_def locator_room_def example_writer_db_def new_database_def id_argument_def
        entity_ids_def keys_in_def)
  from sample_keeps_entities [OF example_writer_db_inv this run] run show ?thesis
    by (auto simp: example_packets_def)
qed

section \<open>The alerts\<close>

lemma om_put_same: "om_wf m \<Longrightarrow> om_find m k = Some v \<Longrightarrow> om_put k v m = m"
proof (induction m)
  case (Cons e m)
  then show ?case by (cases e) (fastforce simp: om_wf_Cons dest: map_of_SomeD split: if_splits)
qed simp

definition fires ::
  "(AlertId \<Rightarrow> Timestamp \<times> Timestamp \<times> Timestamp) \<Rightarrow> AlertKind \<Rightarrow> string \<Rightarrow> string \<Rightarrow> string \<Rightarrow> alert_value \<Rightarrow>
   AlertId \<times> AlertInfo \<Rightarrow> bool" where
  "fires clock k h u t v e \<longleftrightarrow> (case e of (j, a) \<Rightarrow>
     alert_kind a = k \<and> entity_matches a h u t \<and> value_triggers a v \<and> time_allows_trigger (fst (snd (clock j))) a)"

lemma evaluate_alert_fires:
  "evaluate_alert now now' now'' h u t v a =
     (let f = entity_matches a h u t \<and> value_triggers a v \<and> time_allows_trigger now' a
      in (if f then alert_reset now'' a else a\<lparr>last_timeout_check_ts := now\<rparr>, f))"
proof -
  have m: "entity_matches (a\<lparr>last_timeout_check_ts := now\<rparr>) h u t = entity_matches a h u t"
    by (simp add: entity_matches_def)
  have "value_triggers (a\<lparr>last_timeout_check_ts := now\<rparr>) v = value_triggers a v"
    by (cases v) (simp_all split: AlertComparison.split)
  with m show ?thesis
    by (cases a) (simp add: evaluate_alert_def check_trigger_conditions_def time_allows_trigger_def
        alert_reset_def Let_def)
qed

lemma trigger_alerts_in_fires:
  "trigger_alerts_in clock (Inr (h, u, t)) k v m =
     (Inr (), map (\<lambda>(j, a). (j, if fires clock k h u t v (j, a) then alert_reset (snd (snd (clock j))) a
        else if alert_kind a = k then a\<lparr>last_timeout_check_ts := fst (clock j)\<rparr> else a)) m,
      map (\<lambda>(j, a). alert_reset (snd (snd (clock j))) a) (filter (fires clock k h u t v) m))"
proof (induction m)
  case Nil
  then show ?case by simp
next
  case (Cons e m)
  obtain j a where e: "e = (j, a)" by (cases e)
  obtain now now' now'' where c: "clock j = (now, now', now'')" by (metis prod_cases3)
  show ?case using Cons by (auto simp: e c fires_def evaluate_alert_fires Let_def)
qed

text \<open>
  C17: the callbacks made for a sample of an endpoint whose names are known: one for each alert of the
  domain that has the kind, matches the names, is triggered by the value and was not triggered within
  its period, in the order of the identifiers, carrying the alert with its times reset; the alerts of
  other domains are left alone.
\<close>

theorem sample_triggers_alerts:
  assumes "om_wf (db_alerts db)" and "endpoint_names e db = Inr (h, u, t)"
    and "trigger_alerts_of_kind_nts clock d i e k v ob db = (r, db')"
  shows "r = Inr () \<and>
    events db' = events db @
      [AlertTriggered d i (alert_reset (snd (snd (clock j))) a) (the (convert_stat_to_string ob)).
         (j, a) \<leftarrow> om_get [] d (db_alerts db), alert_kind a = k \<and> entity_matches a h u t \<and>
           value_triggers a v \<and> time_allows_trigger (fst (snd (clock j))) a] \<and>
    (\<forall>d'. d' \<noteq> d \<longrightarrow> om_get [] d' (db_alerts db') = om_get [] d' (db_alerts db))"
proof -
  have c: "concat (map (\<lambda>(j, a). if fires clock k h u t v (j, a) then [f j a] else []) m) =
      map (\<lambda>(j, a). f j a) (filter (fires clock k h u t v) m)" for f :: "AlertId \<Rightarrow> AlertInfo \<Rightarrow> event" and m
    by (induction m) auto
  show ?thesis
    using assms c [of "\<lambda>j a. AlertTriggered d i (alert_reset (snd (snd (clock j))) a)
        (the (convert_stat_to_string ob))" "om_get [] d (db_alerts db)"]
    by (auto simp: trigger_alerts_of_kind_nts_def trigger_alerts_in_fires om_get_put comp_def case_prod_unfold
        fires_def)
qed

definition example_endpoint :: "unit DataWriter" where
  "example_endpoint = new_datawriter ''w'' () ''1.2'' (Some 0) (Some 0) (Some False) OK_STATUS UNKNOWN_APP []
     DISCOVERY_SOURCE 0"

definition example_alerts_db :: "unit database" where
  "example_alerts_db = new_database\<lparr>host_objs := [0 \<mapsto> new_host ''h'' OK_STATUS],
     user_objs := [0 \<mapsto> new_user ''u'' (Some 0) OK_STATUS],
     process_objs := [0 \<mapsto> new_process ''p'' ''p'' (Some 0) OK_STATUS],
     topic_objs := [0 \<mapsto> new_topic ''t'' ''T'' (Some 0) OK_STATUS],
     participant_objs := [0 \<mapsto> (new_participant ''q'' () ''1.1'' None (Some 0) OK_STATUS UNKNOWN_APP []
       DISCOVERY_SOURCE 0)\<lparr>dp_process := Some 0\<rparr>],
     db_alerts := [(EntityId 0, [(1, new_data_alert ''a'' (EntityId 0) ''h'' ''u'' ''t'' 0 0 0),
       (2, new_data_alert ''b'' (EntityId 0) ''k'' ''u'' ''t'' 0 0 0)])]\<rparr>"

lemma example_alerts_db_names: "endpoint_names example_endpoint example_alerts_db = Inr (''h'', ''u'', ''t'')"
  by (simp add: endpoint_names_def example_endpoint_def example_alerts_db_def fragile_get_def bind_result_def
      entity_constructor_defs endpoint_constructor_defs normalize_entity_name_def printable_def new_database_def)

theorem sample_triggers_alerts_witness:
  "\<exists>db'. trigger_alerts_of_kind_nts (\<lambda>_. (7, 7, 7)) (EntityId 0) (EntityId 1) example_endpoint NEW_DATA_ALERT
     (CountValue 3) (DataCount \<lparr>sample_kind = DATA_COUNT, src_ts = 5, sample_count = 3\<rparr>) example_alerts_db =
       (Inr (), db') \<and>
     events db' = [AlertTriggered (EntityId 0) (EntityId 1)
       ((new_data_alert ''a'' (EntityId 0) ''h'' ''u'' ''t'' 0 0 0)\<lparr>last_timeout_check_ts := 7, last_trigger_ts := 7\<rparr>)
       ''3'']"
proof -
  let ?ob = "DataCount \<lparr>sample_kind = DATA_COUNT, src_ts = 5, sample_count = 3\<rparr>"
  obtain r db' where run: "trigger_alerts_of_kind_nts (\<lambda>_. (7, 7, 7)) (EntityId 0) (EntityId 1) example_endpoint
      NEW_DATA_ALERT (CountValue 3) ?ob example_alerts_db = (r, db')" by fastforce
  have "om_wf (db_alerts example_alerts_db)" by (simp add: example_alerts_db_def om_wf_def)
  from sample_triggers_alerts [OF this example_alerts_db_names run] run show ?thesis
    by (simp add: example_alerts_db_def new_database_def new_data_alert_def make_alert_def alert_reset_def
        entity_matches_def convert_stat_to_string_def om_get_def is_wildcard_def time_allows_trigger_def
        ticks_per_ms_def u64_to_double_exact to_string_int_def digits_of.simps char_of_def bit_0)
qed

text \<open>
  When the participant of the endpoint is not linked to a process, the first alert of the kind makes
  the call throw: no alert is evaluated, no callback is made, and the caller, which has stored the
  sample already, does not finish.
\<close>

theorem unlinked_endpoint_throws:
  assumes "om_wf (db_alerts db)" and "(j, a) \<in> set (om_get [] d (db_alerts db))" and "alert_kind a = k"
    and "fragile_get (topic_objs db) (ep_topic e) = Inr t"
    and "fragile_get (participant_objs db) (ep_participant e) = Inr p" and "dp_process p = None"
  shows "trigger_alerts_of_kind_nts clock d i e k v ob db = (Inl expired_reference, db)"
proof -
  have n: "endpoint_names e db = Inl expired_reference"
    using assms(4-6) by (simp add: endpoint_names_def bind_result_def fragile_get_def)
  have "(j, a) \<in> set m \<Longrightarrow> trigger_alerts_in clock (Inl x) k v m = (Inl x, m, [])" for m and x
    by (induction m) (auto simp: assms(3))
  then have t: "trigger_alerts_in clock (Inl x) k v (om_get [] d (db_alerts db)) = (Inl x, om_get [] d (db_alerts db), [])"
    for x using assms(2) .
  have "om_find (db_alerts db) d = Some (om_get [] d (db_alerts db))"
    using assms(2) by (cases "om_find (db_alerts db) d") (simp_all add: om_get_def)
  with t n show ?thesis using assms(1) by (simp add: trigger_alerts_of_kind_nts_def om_put_same)
qed

definition example_unlinked_db :: "unit database" where
  "example_unlinked_db = example_alerts_db\<lparr>participant_objs :=
     [0 \<mapsto> new_participant ''q'' () ''1.1'' None (Some 0) OK_STATUS UNKNOWN_APP [] DISCOVERY_SOURCE 0]\<rparr>"

theorem unlinked_endpoint_throws_witness:
  "trigger_alerts_of_kind_nts (\<lambda>_. (7, 7, 7)) (EntityId 0) (EntityId 1) example_endpoint NEW_DATA_ALERT
     (CountValue 3) (DataCount \<lparr>sample_kind = DATA_COUNT, src_ts = 5, sample_count = 3\<rparr>) example_unlinked_db =
   (Inl expired_reference, example_unlinked_db)"
  by (rule unlinked_endpoint_throws
        [where j = 1 and a = "new_data_alert ''a'' (EntityId 0) ''h'' ''u'' ''t'' 0 0 0" and t = "new_topic ''t'' ''T'' (Some 0) OK_STATUS"
          and p = "new_participant ''q'' () ''1.1'' None (Some 0) OK_STATUS UNKNOWN_APP [] DISCOVERY_SOURCE 0"])
    (simp_all add: example_unlinked_db_def example_alerts_db_def om_wf_def om_get_def fragile_get_def
      example_endpoint_def entity_constructor_defs endpoint_constructor_defs new_database_def
      new_data_alert_def make_alert_def alert_reset_def)

end
