(* ===== verification/DbSelect.thy ===== *)
theory DbSelect
  imports DbSampleInv
begin

text \<open>
  Reading samples back: \<open>Database::select\<close> for one and for two entities, and \<open>check_entity_kinds\<close>.
  The result has pointers to the stored samples in the code and the samples themselves here. The
  assertions on the kind of an entity, after which the code casts without a check, are branches
  that end in \<open>UndefinedBehaviour\<close>.
\<close>

section \<open>Stored samples\<close>

datatype stored_sample =
    StoredData EntityDataSample
  | StoredCount EntityCountSample
  | StoredBytes ByteCountSample
  | StoredTime DiscoveryTimeSample

fun stored_ts :: "stored_sample \<Rightarrow> Timestamp" where
  "stored_ts (StoredData s) = src_ts s"
| "stored_ts (StoredCount s) = src_ts s"
| "stored_ts (StoredBytes s) = src_ts s"
| "stored_ts (StoredTime s) = src_ts s"

text \<open>The loop over a container, which relies on its order.\<close>

fun select_loop :: "Timestamp \<Rightarrow> Timestamp \<Rightarrow> 'a StatisticsSample_scheme list \<Rightarrow> 'a StatisticsSample_scheme list" where
  "select_loop t_from t_to [] = []"
| "select_loop t_from t_to (x # xs) =
     (if t_from \<le> src_ts x \<and> src_ts x \<le> t_to then x # select_loop t_from t_to xs
      else if t_to < src_ts x then []
      else select_loop t_from t_to xs)"

definition select_key ::
  "('a StatisticsSample_scheme \<Rightarrow> stored_sample) \<Rightarrow> Timestamp \<Rightarrow> Timestamp \<Rightarrow> 'k \<Rightarrow>
   ('k, 'a StatisticsSample_scheme list) omap \<Rightarrow> stored_sample list" where
  "select_key c t_from t_to k m =
     (case om_find m k of None \<Rightarrow> [] | Some xs \<Rightarrow> map c (select_loop t_from t_to xs))"

definition map_result :: "('a \<Rightarrow> 'b) \<Rightarrow> 'a result \<Rightarrow> 'b result" where
  "map_result f r = bind_result r (\<lambda>x. Inr (f x))"

text \<open>
  \<open>SAMPLE_DATAS\<close>: the only element of every list, sorted afterwards. \<open>std::sort\<close> leaves the order of
  equal time stamps open; the model keeps that of the sequence numbers.
\<close>

fun select_sample_datas ::
  "Timestamp \<Rightarrow> Timestamp \<Rightarrow> ('k, EntityCountSample list) omap \<Rightarrow> EntityCountSample list result" where
  "select_sample_datas t_from t_to [] = Inr []"
| "select_sample_datas t_from t_to ((k, xs) # m) =
     (case xs of
        [] \<Rightarrow> Inl UndefinedBehaviour
      | x # _ \<Rightarrow> bind_result (select_sample_datas t_from t_to m) (\<lambda>ys.
          Inr (if t_from \<le> src_ts x \<and> src_ts x \<le> t_to then x # ys else ys)))"

section \<open>The entity\<close>

text \<open>The assertion on the kind followed by the \<open>static_pointer_cast\<close>.\<close>

fun as_participant :: "'q database \<Rightarrow> entity_ref \<Rightarrow> 'q DomainParticipant result" where
  "as_participant db (ParticipantRef a) =
     (case participant_objs db a of
        Some p \<Rightarrow> if e_kind p = PARTICIPANT then Inr p else Inl UndefinedBehaviour
      | None \<Rightarrow> Inl NullDereference)"
| "as_participant db _ = Inl UndefinedBehaviour"

fun as_datareader :: "'q database \<Rightarrow> entity_ref \<Rightarrow> 'q DataReader result" where
  "as_datareader db (DataReaderRef a) =
     (case reader_objs db a of
        Some r \<Rightarrow> if e_kind r = DATAREADER then Inr r else Inl UndefinedBehaviour
      | None \<Rightarrow> Inl NullDereference)"
| "as_datareader db _ = Inl UndefinedBehaviour"

fun as_datawriter :: "'q database \<Rightarrow> entity_ref \<Rightarrow> 'q DataWriter result" where
  "as_datawriter db (DataWriterRef a) =
     (case writer_objs db a of
        Some w \<Rightarrow> if e_kind w = DATAWRITER then Inr w else Inl UndefinedBehaviour
      | None \<Rightarrow> Inl NullDereference)"
| "as_datawriter db _ = Inl UndefinedBehaviour"

definition assert_kind :: "'q database \<Rightarrow> EntityKind set \<Rightarrow> EntityId \<Rightarrow> unit result" where
  "assert_kind db ks i =
     bind_result (get_entity_kind db i) (\<lambda>k. if k \<in> ks then Inr () else Inl UndefinedBehaviour)"

definition bad_interval :: exn where
  "bad_interval = BadParameter ''Final timestamp must be strictly greater than the origin timestamp''"

section \<open>Two entities\<close>

definition select_two ::
  "DataKind \<Rightarrow> EntityId \<Rightarrow> EntityId \<Rightarrow> Timestamp \<Rightarrow> Timestamp \<Rightarrow> 'q database \<Rightarrow> stored_sample list result" where
  "select_two k source target t_from t_to db =
     (if t_to \<le> t_from then Inl bad_interval
      else bind_result (get_entity_nts db source) (\<lambda>s.
           bind_result (get_entity_nts db target) (\<lambda>t.
             let of_writer = (\<lambda>f. bind_result (assert_kind db {DATAREADER} target) (\<lambda>_.
                   map_result (\<lambda>w. f (dw_data w)) (as_datawriter db s)));
                 of_participant = (\<lambda>ks f. bind_result (assert_kind db ks target) (\<lambda>_.
                   map_result (\<lambda>p. f (dp_data p)) (as_participant db s)))
             in case k of
                  FASTDDS_LATENCY \<Rightarrow> of_writer (\<lambda>d. select_key StoredData t_from t_to target (history2history_latency d))
                | NETWORK_LATENCY \<Rightarrow> of_participant {LOCATOR}
                    (\<lambda>d. select_key StoredData t_from t_to target (network_latency_per_locator d))
                | RTPS_PACKETS_SENT \<Rightarrow> of_participant {LOCATOR}
                    (\<lambda>d. select_key StoredCount t_from t_to target (rtps_packets_sent d))
                | RTPS_BYTES_SENT \<Rightarrow> of_participant {LOCATOR}
                    (\<lambda>d. select_key StoredBytes t_from t_to target (rtps_bytes_sent d))
                | RTPS_PACKETS_LOST \<Rightarrow> of_participant {LOCATOR}
                    (\<lambda>d. select_key StoredCount t_from t_to target (rtps_packets_lost d))
                | RTPS_BYTES_LOST \<Rightarrow> of_participant {LOCATOR}
                    (\<lambda>d. select_key StoredBytes t_from t_to target (rtps_bytes_lost d))
                | DISCOVERY_TIME \<Rightarrow> of_participant {PARTICIPANT, DATAREADER, DATAWRITER}
                    (\<lambda>d. select_key StoredTime t_from t_to target (discovered_entity d))
                | _ \<Rightarrow> Inl (BadParameter ''Incorrect DataKind''))))"

section \<open>One entity\<close>

definition select_one ::
  "DataKind \<Rightarrow> EntityId \<Rightarrow> Timestamp \<Rightarrow> Timestamp \<Rightarrow> 'q database \<Rightarrow> stored_sample list result" where
  "select_one k i t_from t_to db =
     (if t_to \<le> t_from then Inl bad_interval
      else bind_result (get_entity_nts db i) (\<lambda>e.
        let of_writer = (\<lambda>f. map_result (\<lambda>w. map StoredCount (select_loop t_from t_to (f (dw_data w))))
              (as_datawriter db e));
            of_reader = (\<lambda>f. map_result (\<lambda>r. map StoredCount (select_loop t_from t_to (f (dr_data r))))
              (as_datareader db e));
            of_participant = (\<lambda>f. map_result (\<lambda>p. map StoredCount (select_loop t_from t_to (f (dp_data p))))
              (as_participant db e))
        in case k of
             PUBLICATION_THROUGHPUT \<Rightarrow> map_result (\<lambda>w. map StoredData
               (select_loop t_from t_to (publication_throughput (dw_data w)))) (as_datawriter db e)
           | SUBSCRIPTION_THROUGHPUT \<Rightarrow> map_result (\<lambda>r. map StoredData
               (select_loop t_from t_to (subscription_throughput (dr_data r)))) (as_datareader db e)
           | RESENT_DATA \<Rightarrow> of_writer resent_datas
           | HEARTBEAT_COUNT \<Rightarrow> of_writer heartbeat_count
           | ACKNACK_COUNT \<Rightarrow> of_reader acknack_count
           | NACKFRAG_COUNT \<Rightarrow> of_reader nackfrag_count
           | GAP_COUNT \<Rightarrow> of_writer gap_count
           | DATA_COUNT \<Rightarrow> of_writer data_count
           | PDP_PACKETS \<Rightarrow> of_participant pdp_packets
           | EDP_PACKETS \<Rightarrow> of_participant edp_packets
           | SAMPLE_DATAS \<Rightarrow> bind_result (as_datawriter db e) (\<lambda>w.
               map_result (\<lambda>ys. map StoredCount (sort_key src_ts ys))
                 (select_sample_datas t_from t_to (sample_datas (dw_data w))))
           | _ \<Rightarrow> Inl (BadParameter ''Incorrect DataKind'')))"

text \<open>\<open>check_entity_kinds\<close>; the second form of the code takes three kinds.\<close>

fun check_entity_kinds :: "EntityKind set \<Rightarrow> EntityId list \<Rightarrow> string \<Rightarrow> 'q database \<Rightarrow> unit result" where
  "check_entity_kinds ks [] msg db = Inr ()"
| "check_entity_kinds ks (i # is) msg db =
     bind_result (get_entity_kind db i) (\<lambda>k.
       if k \<in> ks then check_entity_kinds ks is msg db else Inl (BadParameter msg))"

section \<open>What a query returns\<close>

abbreviation in_window :: "Timestamp \<Rightarrow> Timestamp \<Rightarrow> stored_sample \<Rightarrow> bool" where
  "in_window t_from t_to x \<equiv> t_from \<le> stored_ts x \<and> stored_ts x \<le> t_to"

text \<open>The series a query reads: that of an entity, or the one an entity keeps for another.\<close>

fun participant_series :: "DataKind \<Rightarrow> EntityId \<Rightarrow> DomainParticipantStatisticsData \<Rightarrow> stored_sample list" where
  "participant_series NETWORK_LATENCY i d = map StoredData (om_get [] i (network_latency_per_locator d))"
| "participant_series RTPS_PACKETS_SENT i d = map StoredCount (om_get [] i (rtps_packets_sent d))"
| "participant_series RTPS_BYTES_SENT i d = map StoredBytes (om_get [] i (rtps_bytes_sent d))"
| "participant_series RTPS_PACKETS_LOST i d = map StoredCount (om_get [] i (rtps_packets_lost d))"
| "participant_series RTPS_BYTES_LOST i d = map StoredBytes (om_get [] i (rtps_bytes_lost d))"
| "participant_series DISCOVERY_TIME i d = map StoredTime (om_get [] i (discovered_entity d))"
| "participant_series PDP_PACKETS i d = map StoredCount (pdp_packets d)"
| "participant_series EDP_PACKETS i d = map StoredCount (edp_packets d)"
| "participant_series _ i d = []"

fun reader_series :: "DataKind \<Rightarrow> DataReaderStatisticsData \<Rightarrow> stored_sample list" where
  "reader_series SUBSCRIPTION_THROUGHPUT d = map StoredData (subscription_throughput d)"
| "reader_series ACKNACK_COUNT d = map StoredCount (acknack_count d)"
| "reader_series NACKFRAG_COUNT d = map StoredCount (nackfrag_count d)"
| "reader_series _ d = []"

fun writer_series :: "DataKind \<Rightarrow> EntityId \<Rightarrow> DataWriterStatisticsData \<Rightarrow> stored_sample list" where
  "writer_series FASTDDS_LATENCY i d = map StoredData (om_get [] i (history2history_latency d))"
| "writer_series PUBLICATION_THROUGHPUT i d = map StoredData (publication_throughput d)"
| "writer_series RESENT_DATA i d = map StoredCount (resent_datas d)"
| "writer_series HEARTBEAT_COUNT i d = map StoredCount (heartbeat_count d)"
| "writer_series GAP_COUNT i d = map StoredCount (gap_count d)"
| "writer_series DATA_COUNT i d = map StoredCount (data_count d)"
| "writer_series SAMPLE_DATAS i d = map (\<lambda>(k, xs). StoredCount (hd xs)) (sample_datas d)"
| "writer_series _ i d = []"

fun stored_series :: "DataKind \<Rightarrow> entity_ref \<Rightarrow> EntityId \<Rightarrow> 'q database \<Rightarrow> stored_sample list" where
  "stored_series k (ParticipantRef a) i db = participant_series k i (dp_data (the (participant_objs db a)))"
| "stored_series k (DataReaderRef a) i db = reader_series k (dr_data (the (reader_objs db a)))"
| "stored_series k (DataWriterRef a) i db = writer_series k i (dw_data (the (writer_objs db a)))"
| "stored_series k _ i db = []"

lemma select_loop_filter:
  "ts_sorted src_ts xs \<Longrightarrow>
     select_loop t_from t_to xs = filter (\<lambda>x. t_from \<le> src_ts x \<and> src_ts x \<le> t_to) xs"
proof (induction xs)
  case (Cons x xs)
  have "t_to < src_ts x \<Longrightarrow> filter (\<lambda>x. t_from \<le> src_ts x \<and> src_ts x \<le> t_to) xs = []"
    using Cons.prems by (force simp: filter_empty_conv)
  with Cons show ?case by auto
qed simp

lemma select_loop_stored:
  assumes "ts_sorted src_ts xs" and "\<And>x. stored_ts (c x) = src_ts x"
  shows "map c (select_loop t_from t_to xs) = filter (in_window t_from t_to) (map c xs)"
  using assms by (simp add: select_loop_filter filter_map comp_def)

lemma select_key_stored:
  assumes "mdc_wf src_ts m" and "\<And>x. stored_ts (c x) = src_ts x"
  shows "select_key c t_from t_to k m = filter (in_window t_from t_to) (map c (om_get [] k m))"
  using mdc_wf_find [OF assms(1)] select_loop_stored [where c = c] assms(2)
  by (auto simp: select_key_def om_get_def split: option.splits)

lemma as_Inr:
  "as_participant db r = Inr p \<longleftrightarrow> (\<exists>a. r = ParticipantRef a \<and> participant_objs db a = Some p \<and> e_kind p = PARTICIPANT)"
  "as_datareader db r = Inr dr \<longleftrightarrow> (\<exists>a. r = DataReaderRef a \<and> reader_objs db a = Some dr \<and> e_kind dr = DATAREADER)"
  "as_datawriter db r = Inr w \<longleftrightarrow> (\<exists>a. r = DataWriterRef a \<and> writer_objs db a = Some w \<and> e_kind w = DATAWRITER)"
  by (cases r; auto split: option.splits)+

lemma map_result_Inr_iff: "map_result f r = Inr y \<longleftrightarrow> (\<exists>x. r = Inr x \<and> y = f x)"
  by (cases r) (auto simp: map_result_def)

lemma stored_sorted: "ts_sorted src_ts xs \<Longrightarrow> (\<And>x. stored_ts (c x) = src_ts x) \<Longrightarrow> ts_sorted stored_ts (map c xs)"
  by (simp add: ts_sorted_def comp_def)

lemma select_two_stored:
  assumes "samples_wf db" and "get_entity_nts db source = Inr r"
    and "select_two k source target t_from t_to db = Inr xs"
  shows "xs = filter (in_window t_from t_to) (stored_series k r target db) \<and> ts_sorted stored_ts xs"
proof -
  consider p where "as_participant db r = Inr p" "xs = filter (in_window t_from t_to) (participant_series k target (dp_data p))"
      "ts_sorted stored_ts (participant_series k target (dp_data p))"
    | w where "as_datawriter db r = Inr w" "xs = filter (in_window t_from t_to) (writer_series k target (dw_data w))"
      "ts_sorted stored_ts (writer_series k target (dw_data w))"
  proof -
    have P: "participant_data_wf (dp_data p)" if "as_participant db r = Inr p" for p
      using that assms(1) by (auto simp: as_Inr samples_wf_def)
    have W: "writer_data_wf (dw_data w)" if "as_datawriter db r = Inr w" for w
      using that assms(1) by (auto simp: as_Inr samples_wf_def)
    show thesis
      using assms(2,3) P W that
      by (cases k) (auto simp: select_two_def bind_result_Inr_iff map_result_Inr_iff Let_def data_wf_defs
          select_key_stored mdc_get_sorted stored_sorted split: if_splits)
  qed
  then show ?thesis
    by cases (auto simp: as_Inr ts_sorted_filter)
qed

text \<open>
  C18: a query for two entities that succeeds returns exactly the stored samples of the series of the
  source for the target with a time stamp in the closed interval, in the order of time.
\<close>

theorem select_two_exact:
  assumes "samples_wf db" and "get_entity_nts db source = Inr r"
    and "select_two k source target t_from t_to db = Inr xs"
  shows "xs = filter (in_window t_from t_to) (stored_series k r target db) \<and> ts_sorted stored_ts xs"
  using assms by (rule select_two_stored)

lemma select_sample_datas_eq:
  assumes "mdc_wf src_ts m"
  shows "select_sample_datas t_from t_to m = Inr (filter (\<lambda>x. t_from \<le> src_ts x \<and> src_ts x \<le> t_to) (map (hd \<circ> snd) m))"
proof -
  have "\<forall>(k, xs) \<in> set m. xs \<noteq> []" using assms by (auto simp: mdc_wf_def)
  then show ?thesis by (induction m) (auto split: list.splits)
qed

lemma select_one_stored:
  assumes "samples_wf db" and "get_entity_nts db i = Inr r" and "select_one k i t_from t_to db = Inr xs"
  shows "mset xs = mset (filter (in_window t_from t_to) (stored_series k r i db)) \<and>
    sorted (map stored_ts xs) \<and> (k \<noteq> SAMPLE_DATAS \<longrightarrow> xs = filter (in_window t_from t_to) (stored_series k r i db))"
proof (cases "k = SAMPLE_DATAS")
  case True
  obtain w where w: "as_datawriter db r = Inr w" "t_from < t_to"
    and "map_result (\<lambda>ys. map StoredCount (sort_key src_ts ys))
      (select_sample_datas t_from t_to (sample_datas (dw_data w))) = Inr xs"
    using True assms(2,3) by (auto simp: select_one_def bind_result_Inr_iff Let_def split: if_splits)
  moreover have "mdc_wf src_ts (sample_datas (dw_data w))"
    using w assms(1) by (auto simp: as_Inr samples_wf_def data_wf_defs)
  moreover define ys where "ys = map (hd \<circ> snd) (sample_datas (dw_data w))"
  ultimately have xs: "xs = map StoredCount
      (sort_key src_ts (filter (\<lambda>x. t_from \<le> src_ts x \<and> src_ts x \<le> t_to) ys))"
    by (simp add: select_sample_datas_eq map_result_def)
  have "mset xs = mset (map StoredCount (filter (\<lambda>x. t_from \<le> src_ts x \<and> src_ts x \<le> t_to) ys))"
    by (simp add: xs)
  also have "map StoredCount (filter (\<lambda>x. t_from \<le> src_ts x \<and> src_ts x \<le> t_to) ys) =
      filter (in_window t_from t_to) (map StoredCount ys)"
    by (simp add: filter_map comp_def)
  also have "map StoredCount ys = stored_series k r i db"
    using True w(1) by (auto simp: as_Inr case_prod_unfold ys_def)
  finally have "mset xs = mset (filter (in_window t_from t_to) (stored_series k r i db))" .
  moreover have "sorted (map stored_ts xs)" by (simp add: xs comp_def)
  ultimately show ?thesis using True by simp
next
  case False
  have P: "participant_data_wf (dp_data p)" if "as_participant db r = Inr p" for p
    using that assms(1) by (auto simp: as_Inr samples_wf_def)
  have W: "writer_data_wf (dw_data w)" if "as_datawriter db r = Inr w" for w
    using that assms(1) by (auto simp: as_Inr samples_wf_def)
  have R: "reader_data_wf (dr_data x)" if "as_datareader db r = Inr x" for x
    using that assms(1) by (auto simp: as_Inr samples_wf_def)
  consider p where "as_participant db r = Inr p" "xs = filter (in_window t_from t_to) (participant_series k i (dp_data p))"
      "ts_sorted stored_ts (participant_series k i (dp_data p))"
    | x where "as_datareader db r = Inr x" "xs = filter (in_window t_from t_to) (reader_series k (dr_data x))"
      "ts_sorted stored_ts (reader_series k (dr_data x))"
    | w where "as_datawriter db r = Inr w" "xs = filter (in_window t_from t_to) (writer_series k i (dw_data w))"
      "ts_sorted stored_ts (writer_series k i (dw_data w))"
  proof -
    show thesis
      using False assms(2,3) P R W that
      by (cases k) (auto simp: select_one_def bind_result_Inr_iff map_result_Inr_iff Let_def data_wf_defs
          select_loop_stored stored_sorted split: if_splits)
  qed
  then have "xs = filter (in_window t_from t_to) (stored_series k r i db) \<and> ts_sorted stored_ts xs"
    by cases (auto simp: as_Inr ts_sorted_filter)
  then show ?thesis by (auto simp: ts_sorted_def strict_sorted_imp_sorted)
qed

text \<open>
  A query for one entity that succeeds returns exactly the stored samples of the series with a time
  stamp in the closed interval, ordered by time; \<open>SAMPLE_DATAS\<close>, kept per sequence number, included.
\<close>

theorem select_one_exact:
  assumes "samples_wf db" and "get_entity_nts db i = Inr r" and "select_one k i t_from t_to db = Inr xs"
  shows "mset xs = mset (filter (in_window t_from t_to) (stored_series k r i db)) \<and>
    sorted (map stored_ts xs) \<and> (k \<noteq> SAMPLE_DATAS \<longrightarrow> xs = filter (in_window t_from t_to) (stored_series k r i db))"
  using assms by (rule select_one_stored)

definition example_count :: "DataKind \<Rightarrow> int \<Rightarrow> 64 word \<Rightarrow> EntityCountSample" where
  "example_count k t n = \<lparr>sample_kind = k, src_ts = t, sample_count = n\<rparr>"

definition example_query_db :: "unit database" where
  "example_query_db = new_database\<lparr>next_id := 8, domains := [(EntityId 0, 0)],
     domain_objs := [0 \<mapsto> (new_domain ''0'' 0 OK_STATUS)\<lparr>e_id := EntityId 0\<rparr>],
     locators := [(EntityId 7, 0)], locator_objs := [0 \<mapsto> (new_locator ''l'')\<lparr>e_id := EntityId 7\<rparr>],
     participants := [(EntityId 0, [(EntityId 1, 0)])],
     participant_objs := [0 \<mapsto> (new_participant ''p'' () ''1.1'' None (Some 0) OK_STATUS UNKNOWN_APP []
       DISCOVERY_SOURCE 0)\<lparr>e_id := EntityId 1, dp_data := empty_participant_data\<lparr>
         pdp_packets := [example_count PDP_PACKETS 5 1, example_count PDP_PACKETS 9 2],
         rtps_packets_sent := [(EntityId 7, [example_count RTPS_PACKETS_SENT 4 3,
           example_count RTPS_PACKETS_SENT 8 1])]\<rparr>\<rparr>]\<rparr>"

lemma example_query_db_samples: "samples_wf example_query_db"
  by (simp add: samples_wf_def example_query_db_def new_database_def data_wf_defs empty_participant_data_def
      mdc_wf_def om_wf_def example_count_def new_participant_def DDSEntity.defs DomainParticipant.defs)

lemma example_query_db_entities:
  "get_entity_nts example_query_db (EntityId 1) = Inr (ParticipantRef 0)"
  "get_entity_nts example_query_db (EntityId 7) = Inr (LocatorRef 0)"
  by (simp_all add: get_entity_nts_def find_entity_def find_addr_def find_addr_in_def live_in_def
      example_query_db_def new_database_def entity_constructor_defs)

lemma example_query_db_participant:
  "participant_objs example_query_db 0 = Some p \<Longrightarrow> e_kind p = PARTICIPANT \<and>
     pdp_packets (dp_data p) = [example_count PDP_PACKETS 5 1, example_count PDP_PACKETS 9 2] \<and>
     rtps_packets_sent (dp_data p) = [(EntityId 7, [example_count RTPS_PACKETS_SENT 4 3,
       example_count RTPS_PACKETS_SENT 8 1])]"
  "participant_objs example_query_db 0 \<noteq> None"
  by (auto simp: example_query_db_def entity_constructor_defs)

lemma example_query_db_locator: "get_entity_kind example_query_db (EntityId 7) = Inr LOCATOR"
  by (simp add: get_entity_kind_def get_entity_field_def example_query_db_entities)
    (simp add: example_query_db_def entity_constructor_defs)

theorem select_two_exact_witness:
  "\<exists>xs. select_two RTPS_PACKETS_SENT (EntityId 1) (EntityId 7) 5 8 example_query_db = Inr xs \<and>
     xs = [StoredCount (example_count RTPS_PACKETS_SENT 8 1)] \<and> ts_sorted stored_ts xs"
proof -
  obtain p where p: "participant_objs example_query_db 0 = Some p"
    using example_query_db_participant(2) by blast
  note v = example_query_db_participant(1) [OF p]
  obtain xs where xs: "select_two RTPS_PACKETS_SENT (EntityId 1) (EntityId 7) 5 8 example_query_db = Inr xs"
    using p v by (simp add: select_two_def example_query_db_entities assert_kind_def example_query_db_locator
        map_result_def)
  from select_two_exact [OF example_query_db_samples example_query_db_entities(1) xs] xs p v
  show ?thesis by (simp add: om_get_def example_count_def)
qed

theorem select_one_exact_witness:
  "\<exists>xs. select_one PDP_PACKETS (EntityId 1) 5 8 example_query_db = Inr xs \<and>
     xs = [StoredCount (example_count PDP_PACKETS 5 1)]"
proof -
  obtain p where p: "participant_objs example_query_db 0 = Some p"
    using example_query_db_participant(2) by blast
  note v = example_query_db_participant(1) [OF p]
  obtain xs where xs: "select_one PDP_PACKETS (EntityId 1) 5 8 example_query_db = Inr xs"
    using p v by (simp add: select_one_def example_query_db_entities map_result_def)
  from select_one_exact [OF example_query_db_samples example_query_db_entities(1) xs] xs p v
  show ?thesis by (simp add: example_count_def)
qed

end
