(* ===== verification/Aggregation.thy ===== *)
theory Aggregation
  imports DbSelect
begin

text \<open>
  The answer to \<open>StatisticsBackend::get_data\<close>: the iterators of \<open>detail/data_getters.hpp\<close>, which read
  time and value of a sample, and the aggregators of \<open>detail/data_aggregation.hpp\<close> and
  \<open>detail/data_aggregators\<close>, which divide the interval into bins. Writing outside the bins, on which
  the code has an assertion only, is \<open>UndefinedBehaviour\<close>.
\<close>

section \<open>Iterators\<close>

definition byte_to_double :: "64 word \<Rightarrow> 16 word \<Rightarrow> double" where
  "byte_to_double n m = dadd (u64_to_double n)
     (dmul (Fin (2 ^ 64)) (Fin (of_int (max (sint m) 0))))"

text \<open>The \<open>static_cast\<close> of the iterator for a kind of data; a sample of another class is undefined.\<close>

fun data_value :: "stored_sample \<Rightarrow> double result" where
  "data_value (StoredData s) = Inr (sample_data s)"
| "data_value _ = Inl UndefinedBehaviour"

fun count_value :: "stored_sample \<Rightarrow> double result" where
  "count_value (StoredCount s) = Inr (u64_to_double (sample_count s))"
| "count_value _ = Inl UndefinedBehaviour"

fun bytes_value :: "stored_sample \<Rightarrow> double result" where
  "bytes_value (StoredBytes s) = Inr (byte_to_double (byte_count s) (magnitude_order s))"
| "bytes_value _ = Inl UndefinedBehaviour"

fun time_value :: "stored_sample \<Rightarrow> double result" where
  "time_value (StoredTime s) = Inr (round_double (of_int (sample_time s)))"
| "time_value _ = Inl UndefinedBehaviour"

fun read_samples :: "(stored_sample \<Rightarrow> double result) \<Rightarrow> stored_sample list \<Rightarrow> (Timestamp \<times> double) list result" where
  "read_samples f [] = Inr []"
| "read_samples f (x # xs) =
     bind_result (f x) (\<lambda>v. map_result (Cons (stored_ts x, v)) (read_samples f xs))"

text \<open>\<open>get_iterators\<close> followed by the traversal from the first iterator to the second.\<close>

fun get_iterators :: "DataKind \<Rightarrow> stored_sample list \<Rightarrow> (Timestamp \<times> double) list result" where
  "get_iterators INVALID_DATA xs = Inl (BadParameter ''Unsupported data kind'')"
| "get_iterators FASTDDS_LATENCY xs = read_samples data_value xs"
| "get_iterators NETWORK_LATENCY xs = read_samples data_value xs"
| "get_iterators PUBLICATION_THROUGHPUT xs = read_samples data_value xs"
| "get_iterators SUBSCRIPTION_THROUGHPUT xs = read_samples data_value xs"
| "get_iterators RTPS_BYTES_SENT xs = read_samples bytes_value xs"
| "get_iterators RTPS_BYTES_LOST xs = read_samples bytes_value xs"
| "get_iterators DISCOVERY_TIME xs = read_samples time_value xs"
| "get_iterators _ xs = read_samples count_value xs"

section \<open>Aggregators\<close>

datatype StatisticKind = NONE_STATISTIC | MEAN_STATISTIC | STANDARD_DEVIATION_STATISTIC | MAX_STATISTIC | MIN_STATISTIC | MEDIAN_STATISTIC | COUNT_STATISTIC | SUM_STATISTIC

record BinData =
  bin_sum :: double
  sum_sq :: double
  bin_samples :: "64 word"

text \<open>The subclass with the members it adds.\<close>

datatype aggregator_class =
    NoneAggregator
  | SumAggregator
  | MeanAggregator "64 word list"
  | MedianAggregator "double list list"
  | MaximumAggregator
  | MinimumAggregator
  | StdDevAggregator "BinData list"
  | CountAggregator

record IDataAggregator =
  agg_data :: "(Timestamp \<times> double) list"
  agg_interval :: int
  agg_class :: aggregator_class

text \<open>Division of signed integers truncates.\<close>

definition tdiv :: "int \<Rightarrow> int \<Rightarrow> int" where
  "tdiv a b = sgn a * sgn b * (\<bar>a\<bar> div \<bar>b\<bar>)"

text \<open>The \<open>do ... while (bins > 0)\<close> loop; the constructor asserts that there is a bin.\<close>

fun fill_bins :: "nat \<Rightarrow> Timestamp \<Rightarrow> int \<Rightarrow> double \<Rightarrow> (Timestamp \<times> double) list" where
  "fill_bins 0 t_from interval v = []"
| "fill_bins (Suc bins) t_from interval v =
     (t_from + interval, v) # fill_bins bins (t_from + interval) interval v"

definition new_aggregator ::
  "(nat \<Rightarrow> aggregator_class) \<Rightarrow> double \<Rightarrow> 16 word \<Rightarrow> Timestamp \<Rightarrow> Timestamp \<Rightarrow> IDataAggregator" where
  "new_aggregator c v bins t_from t_to =
     (let interval = tdiv (t_to - t_from) (uint bins);
          d = fill_bins (unat bins) t_from interval v
      in \<lparr>agg_data = d, agg_interval = interval, agg_class = c (length d)\<rparr>)"

definition empty_bin :: BinData where
  "empty_bin = \<lparr>bin_sum = Fin 0, sum_sq = Fin 0, bin_samples = 0\<rparr>"

fun get_data_aggregator :: "16 word \<Rightarrow> Timestamp \<Rightarrow> Timestamp \<Rightarrow> StatisticKind \<Rightarrow> IDataAggregator" where
  "get_data_aggregator bins t_from t_to NONE_STATISTIC = new_aggregator (\<lambda>_. NoneAggregator) NaN bins t_from t_to"
| "get_data_aggregator bins t_from t_to SUM_STATISTIC = new_aggregator (\<lambda>_. SumAggregator) NaN bins t_from t_to"
| "get_data_aggregator bins t_from t_to MEAN_STATISTIC =
     new_aggregator (\<lambda>n. MeanAggregator (replicate n 0)) NaN bins t_from t_to"
| "get_data_aggregator bins t_from t_to MEDIAN_STATISTIC =
     new_aggregator (\<lambda>n. MedianAggregator (replicate n [])) NaN bins t_from t_to"
| "get_data_aggregator bins t_from t_to MAX_STATISTIC = new_aggregator (\<lambda>_. MaximumAggregator) NaN bins t_from t_to"
| "get_data_aggregator bins t_from t_to MIN_STATISTIC = new_aggregator (\<lambda>_. MinimumAggregator) NaN bins t_from t_to"
| "get_data_aggregator bins t_from t_to STANDARD_DEVIATION_STATISTIC =
     new_aggregator (\<lambda>n. StdDevAggregator (replicate n empty_bin)) NaN bins t_from t_to"
| "get_data_aggregator bins t_from t_to COUNT_STATISTIC = new_aggregator (\<lambda>_. CountAggregator) (Fin 0) bins t_from t_to"

section \<open>Adding a sample\<close>

text \<open>\<open>assign_if_nan\<close> with what a subclass does otherwise.\<close>

definition assign_or :: "(double \<Rightarrow> double \<Rightarrow> double) \<Rightarrow> double \<Rightarrow> double \<Rightarrow> double" where
  "assign_or f value cur = (if cur = NaN then value else f value cur)"

definition std_max :: "double \<Rightarrow> double \<Rightarrow> double" where
  "std_max a b = (if double_less a b then b else a)"

definition std_min :: "double \<Rightarrow> double \<Rightarrow> double" where
  "std_min a b = (if double_less b a then b else a)"

definition update_bin :: "nat \<Rightarrow> (double \<Rightarrow> double) \<Rightarrow> IDataAggregator \<Rightarrow> IDataAggregator" where
  "update_bin i f g = g\<lparr>agg_data := (agg_data g)[i := map_prod id f (agg_data g ! i)]\<rparr>"

definition add_to_bin :: "double \<Rightarrow> BinData \<Rightarrow> BinData" where
  "add_to_bin v d = d\<lparr>bin_sum := dadd (bin_sum d) v, sum_sq := dadd (sum_sq d) (dmul v v),
     bin_samples := bin_samples d + 1\<rparr>"

definition add_sample :: "nat \<Rightarrow> double \<Rightarrow> IDataAggregator \<Rightarrow> IDataAggregator" where
  "add_sample i v g =
     (case agg_class g of
        NoneAggregator \<Rightarrow> update_bin i (assign_or (\<lambda>v cur. cur) v) g
      | SumAggregator \<Rightarrow> update_bin i (assign_or (\<lambda>v cur. dadd cur v) v) g
      | MeanAggregator ns \<Rightarrow> (update_bin i (assign_or (\<lambda>v cur. dadd cur v) v) g)
          \<lparr>agg_class := MeanAggregator (ns[i := ns ! i + 1])\<rparr>
      | MedianAggregator ss \<Rightarrow> g\<lparr>agg_class := MedianAggregator (ss[i := ss ! i @ [v]])\<rparr>
      | MaximumAggregator \<Rightarrow> update_bin i (assign_or std_max v) g
      | MinimumAggregator \<Rightarrow> update_bin i (assign_or std_min v) g
      | StdDevAggregator ds \<Rightarrow> g\<lparr>agg_class := StdDevAggregator (ds[i := add_to_bin v (ds ! i)])\<rparr>
      | CountAggregator \<Rightarrow> update_bin i (\<lambda>cur. dadd cur (Fin 1)) g)"

definition bin_index :: "Timestamp \<Rightarrow> IDataAggregator \<Rightarrow> int" where
  "bin_index t g = tdiv (t + agg_interval g - fst (hd (agg_data g))) (agg_interval g)"

fun add_data :: "(Timestamp \<times> double) list \<Rightarrow> IDataAggregator \<Rightarrow> IDataAggregator result" where
  "add_data [] g = Inr g"
| "add_data ((t, v) # xs) g =
     (if 0 \<le> bin_index t g \<and> bin_index t g < int (length (agg_data g))
      then add_data xs (add_sample (nat (bin_index t g)) v g)
      else Inl UndefinedBehaviour)"

section \<open>The final calculation\<close>

text \<open>
  \<open>std::nth_element\<close> puts at its position the element a sorted sequence has there. A not-a-number
  violates its precondition.
\<close>

fun insert_double :: "double \<Rightarrow> double list \<Rightarrow> double list" where
  "insert_double x [] = [x]"
| "insert_double x (y # ys) = (if double_less y x then y # insert_double x ys else x # y # ys)"

fun sort_doubles :: "double list \<Rightarrow> double list" where
  "sort_doubles [] = []"
| "sort_doubles (x # xs) = insert_double x (sort_doubles xs)"

definition median :: "double list \<Rightarrow> double result" where
  "median xs =
     (if NaN \<in> set xs then Inl UndefinedBehaviour
      else let ys = sort_doubles xs; index = (length xs - 1) div 2; med = ys ! index
           in Inr (if even (length xs) then ddiv_pos (dadd med (ys ! Suc index)) 2 else med))"

definition std_deviation :: "BinData \<Rightarrow> double" where
  "std_deviation d =
     (let n = (case u64_to_double (bin_samples d) of Fin q \<Rightarrow> q | _ \<Rightarrow> 0)
      in dsqrt (ddiv_pos (dsub (sum_sq d) (ddiv_pos (dmul (bin_sum d) (bin_sum d)) n)) n))"

definition mean_of :: "double \<Rightarrow> 64 word \<Rightarrow> double" where
  "mean_of x n = (if n = 0 then x else case u64_to_double n of Fin q \<Rightarrow> ddiv_pos x q | _ \<Rightarrow> x)"

fun finish_median :: "(Timestamp \<times> double) list \<Rightarrow> double list list \<Rightarrow> (Timestamp \<times> double) list result" where
  "finish_median ((t, x) # d) (xs # ss) =
     bind_result (if xs = [] then Inr x else median xs) (\<lambda>m.
       map_result (Cons (t, m)) (finish_median d ss))"
| "finish_median d ss = Inr []"

definition finish_aggregator :: "IDataAggregator \<Rightarrow> (Timestamp \<times> double) list result" where
  "finish_aggregator g =
     (case agg_class g of
        MeanAggregator ns \<Rightarrow> Inr (map2 (\<lambda>(t, x) n. (t, mean_of x n)) (agg_data g) ns)
      | MedianAggregator ss \<Rightarrow> finish_median (agg_data g) ss
      | StdDevAggregator ds \<Rightarrow> Inr (map2 (\<lambda>(t, x) d. (t, if bin_samples d = 0 then x
          else std_deviation d)) (agg_data g) ds)
      | _ \<Rightarrow> Inr (agg_data g))"

section \<open>Each bin by itself\<close>

text \<open>The values that fall into a bin, in the order they arrive, and what a statistic makes of them.\<close>

definition bin_values :: "Timestamp \<Rightarrow> int \<Rightarrow> (Timestamp \<times> double) list \<Rightarrow> nat \<Rightarrow> double list" where
  "bin_values t_from interval xs k = map snd (filter (\<lambda>(t, v). (t - t_from) div interval = int k) xs)"

fun bin_cell :: "StatisticKind \<Rightarrow> double list \<Rightarrow> double" where
  "bin_cell NONE_STATISTIC vs = fold (assign_or (\<lambda>v cur. cur)) vs NaN"
| "bin_cell SUM_STATISTIC vs = fold (assign_or (\<lambda>v cur. dadd cur v)) vs NaN"
| "bin_cell MEAN_STATISTIC vs = fold (assign_or (\<lambda>v cur. dadd cur v)) vs NaN"
| "bin_cell MAX_STATISTIC vs = fold (assign_or std_max) vs NaN"
| "bin_cell MIN_STATISTIC vs = fold (assign_or std_min) vs NaN"
| "bin_cell COUNT_STATISTIC vs = fold (\<lambda>_ cur. dadd cur (Fin 1)) vs (Fin 0)"
| "bin_cell _ vs = NaN"

fun class_of :: "StatisticKind \<Rightarrow> (nat \<Rightarrow> double list) \<Rightarrow> nat list \<Rightarrow> aggregator_class" where
  "class_of NONE_STATISTIC B ks = NoneAggregator"
| "class_of SUM_STATISTIC B ks = SumAggregator"
| "class_of MEAN_STATISTIC B ks = MeanAggregator (map (\<lambda>k. of_nat (length (B k))) ks)"
| "class_of MAX_STATISTIC B ks = MaximumAggregator"
| "class_of MIN_STATISTIC B ks = MinimumAggregator"
| "class_of COUNT_STATISTIC B ks = CountAggregator"
| "class_of MEDIAN_STATISTIC B ks = MedianAggregator (map B ks)"
| "class_of STANDARD_DEVIATION_STATISTIC B ks =
     StdDevAggregator (map (\<lambda>k. fold add_to_bin (B k) empty_bin) ks)"

fun bin_statistic :: "StatisticKind \<Rightarrow> double list \<Rightarrow> double result" where
  "bin_statistic MEAN_STATISTIC vs = Inr (mean_of (bin_cell MEAN_STATISTIC vs) (of_nat (length vs)))"
| "bin_statistic MEDIAN_STATISTIC vs = (if vs = [] then Inr NaN else median vs)"
| "bin_statistic STANDARD_DEVIATION_STATISTIC vs =
     (let d = fold add_to_bin vs empty_bin in Inr (if bin_samples d = 0 then NaN else std_deviation d))"
| "bin_statistic s vs = Inr (bin_cell s vs)"

definition agg_of ::
  "StatisticKind \<Rightarrow> nat \<Rightarrow> Timestamp \<Rightarrow> int \<Rightarrow> (Timestamp \<times> double) list \<Rightarrow> IDataAggregator" where
  "agg_of s bins t_from i xs =
     \<lparr>agg_data = map (\<lambda>k. (t_from + (int k + 1) * i, bin_cell s (bin_values t_from i xs k))) [0..<bins],
      agg_interval = i, agg_class = class_of s (bin_values t_from i xs) [0..<bins]\<rparr>"

lemma fill_bins_eq: "fill_bins n t i v = map (\<lambda>k. (t + (int k + 1) * i, v)) [0..<n]"
proof (induction n arbitrary: t)
  case (Suc n)
  then show ?case by (simp add: map_upt_Suc algebra_simps del: upt_Suc)
qed simp

lemma tdiv_pos: "0 \<le> a \<Longrightarrow> 0 \<le> b \<Longrightarrow> tdiv a b = a div b"
  by (cases "a = 0"; cases "b = 0") (simp_all add: tdiv_def)

lemma bin_values_Nil [simp]: "bin_values t i [] = (\<lambda>_. [])"
  by (simp add: bin_values_def fun_eq_iff)

lemma div_less_iff_less_times: "0 < (i :: int) \<Longrightarrow> a div i < n \<longleftrightarrow> a < n * i"
  by (smt (verit) div_int_pos_iff mult_le_cancel_right nonzero_mult_div_cancel_right zdiv_mono1
      pos_mod_sign minus_mod_eq_mult_div pos_mod_bound zdiv_zmult2_eq mult.commute)

lemma get_data_aggregator_eq:
  assumes "t_from \<le> t_to"
  shows "get_data_aggregator bins t_from t_to s = agg_of s (unat bins) t_from ((t_to - t_from) div uint bins) []"
  using assms
  by (cases s) (simp_all add: new_aggregator_def agg_of_def tdiv_pos fill_bins_eq map_replicate_const Let_def)

lemma update_map_upt:
  "k < n \<Longrightarrow> (map f [0..<n])[k := y] = map (\<lambda>j. if j = k then y else f j) [0..<n]"
  by (rule nth_equalityI) (simp_all add: nth_list_update)

lemma bin_values_snoc:
  "bin_values t_from i (xs @ [(t, v)]) = (\<lambda>k. if (t - t_from) div i = int k
     then bin_values t_from i xs k @ [v] else bin_values t_from i xs k)"
  by (rule ext) (simp add: bin_values_def)

lemma add_sample_agg_of:
  assumes "k < n" and "(t - t_from) div i = int k"
  shows "add_sample k v (agg_of s n t_from i xs) = agg_of s n t_from i (xs @ [(t, v)])"
  using assms
  by (cases s) (auto simp: agg_of_def add_sample_def update_bin_def update_map_upt bin_values_snoc)

lemma bin_index_agg_of:
  assumes "0 < n" and "0 < i" and "t_from \<le> t"
  shows "bin_index t (agg_of s n t_from i xs) = (t - t_from) div i"
  using assms by (simp add: bin_index_def agg_of_def upt_conv_Cons tdiv_pos)

lemma add_data_agg_of:
  assumes "0 < n" and "0 < i" and "\<forall>x \<in> set xs. t_from \<le> fst x"
  shows "add_data xs (agg_of s n t_from i ys) =
    (if \<forall>x \<in> set xs. fst x < t_from + int n * i then Inr (agg_of s n t_from i (ys @ xs))
     else Inl UndefinedBehaviour)"
  using assms(3)
proof (induction xs arbitrary: ys)
  case (Cons x xs)
  obtain t v where x: "x = (t, v)" by (cases x)
  have t: "t_from \<le> t" using Cons.prems x by simp
  have b: "bin_index t (agg_of s n t_from i ys) = (t - t_from) div i"
    using assms(1,2) t by (rule bin_index_agg_of)
  have l: "length (agg_data (agg_of s n t_from i ys)) = n" by (simp add: agg_of_def)
  have p: "0 \<le> (t - t_from) div i" using assms(2) t by (simp add: pos_imp_zdiv_nonneg_iff)
  have r: "(t - t_from) div i < int n \<longleftrightarrow> t < t_from + int n * i"
    using div_less_iff_less_times [OF assms(2), of "t - t_from" "int n"] by linarith
  show ?case
  proof (cases "t < t_from + int n * i")
    case True
    have "add_sample (nat ((t - t_from) div i)) v (agg_of s n t_from i ys) = agg_of s n t_from i (ys @ [(t, v)])"
      using True r p by (intro add_sample_agg_of) auto
    moreover have "\<forall>x \<in> set xs. t_from \<le> fst x" using Cons.prems by simp
    ultimately show ?thesis using Cons.IH [of "ys @ [(t, v)]"] True b l p r by (simp add: x)
  next
    case False
    then show ?thesis using b l r by (simp add: x)
  qed
qed simp

lemma bins_nat: "int (unat bins) = uint bins"
  by simp

lemma interval_positive:
  assumes "0 < uint (bins :: 16 word)" and "t_from + uint bins < t_to"
  shows "0 < (t_to - t_from) div uint bins"
proof -
  have "uint bins div uint bins \<le> (t_to - t_from) div uint bins" using assms by (intro zdiv_mono1) auto
  with assms(1) show ?thesis by simp
qed

lemma finish_median_eq:
  "length d = length ss \<Longrightarrow> finish_median d ss = Inr r \<longleftrightarrow>
     length r = length d \<and> (\<forall>k < length d. fst (r ! k) = fst (d ! k) \<and>
       (if ss ! k = [] then Inr (snd (d ! k)) else median (ss ! k)) = Inr (snd (r ! k)))"
proof (induction d ss arbitrary: r rule: finish_median.induct)
  case (1 t x d xs ss)
  show ?case
    using 1 by (cases r) (auto simp: bind_result_Inr_iff map_result_Inr_iff All_less_Suc2 split: if_splits)
qed auto

lemma map_eq_iff_cells:
  "map f [0..<n] = d \<longleftrightarrow> length d = n \<and> (\<forall>k < n. fst (d ! k) = fst (f k) \<and> snd (f k) = snd (d ! k))"
  by (auto simp: list_eq_iff_nth_eq prod_eq_iff)

lemma map2_map_upt: "map2 h (map f [0..<n]) (map g [0..<n]) = map (\<lambda>k. h (f k) (g k)) [0..<n]"
  by (rule nth_equalityI) simp_all

lemma bin_samples_fold: "bin_samples (fold add_to_bin vs d) = bin_samples d + of_nat (length vs)"
  by (induction vs arbitrary: d) (simp_all add: add_to_bin_def)

lemma finish_agg_of:
  "finish_aggregator (agg_of s n t_from i xs) = Inr d \<longleftrightarrow>
     length d = n \<and> (\<forall>k < n. fst (d ! k) = t_from + (int k + 1) * i \<and>
       bin_statistic s (bin_values t_from i xs k) = Inr (snd (d ! k)))"
proof (cases "s = MEDIAN_STATISTIC")
  case True
  then show ?thesis by (simp add: finish_aggregator_def agg_of_def finish_median_eq)
next
  case False
  then show ?thesis
    by (cases s) (simp_all add: finish_aggregator_def agg_of_def map2_map_upt map_eq_iff_cells Let_def)
qed

lemma aggregate_by_bins:
  assumes "0 < uint (bins :: 16 word)" and "t_from + uint bins < t_to"
    and "i = (t_to - t_from) div uint bins"
    and "\<forall>x \<in> set xs. t_from \<le> fst x \<and> fst x < t_from + uint bins * i"
  shows "\<exists>g. add_data xs (get_data_aggregator bins t_from t_to s) = Inr g \<and>
    (\<forall>d. finish_aggregator g = Inr d \<longleftrightarrow>
       length d = unat bins \<and> (\<forall>k < unat bins. fst (d ! k) = t_from + (int k + 1) * i \<and>
         bin_statistic s (bin_values t_from i xs k) = Inr (snd (d ! k))))"
proof -
  have i: "0 < i" using interval_positive [OF assms(1,2)] assms(3) by simp
  have n: "int (unat bins) = uint bins" "0 < unat bins" using assms(1) bins_nat [of bins] by linarith+
  have b: "t_from \<le> t_to" using assms(1,2) by simp
  have g: "get_data_aggregator bins t_from t_to s = agg_of s (unat bins) t_from i []"
    unfolding assms(3) by (rule get_data_aggregator_eq [OF b])
  have l: "\<forall>x \<in> set xs. t_from \<le> fst x" "\<forall>x \<in> set xs. fst x < t_from + int (unat bins) * i"
    using assms(4) unfolding n(1) by blast+
  have "add_data xs (get_data_aggregator bins t_from t_to s) = Inr (agg_of s (unat bins) t_from i xs)"
    unfolding g add_data_agg_of [OF n(2) i l(1)] using l(2) by simp
  then show ?thesis by (simp add: finish_agg_of)
qed

text \<open>
  C19: the aggregation of samples is, bin by bin, the statistic of the values of the samples of the bin, in
  the order they arrive, stamped with the end of the bin.
\<close>

theorem aggregate_refines:
  assumes "0 < uint (bins :: 16 word)" and "t_from + uint bins < t_to"
    and "i = (t_to - t_from) div uint bins"
    and "\<forall>x \<in> set xs. t_from \<le> fst x \<and> fst x < t_from + uint bins * i"
  shows "\<exists>g. add_data xs (get_data_aggregator bins t_from t_to s) = Inr g \<and>
    (\<forall>d. finish_aggregator g = Inr d \<longleftrightarrow>
       length d = unat bins \<and> (\<forall>k < unat bins. fst (d ! k) = t_from + (int k + 1) * i \<and>
         bin_statistic s (bin_values t_from i xs k) = Inr (snd (d ! k))))"
  using assms by (rule aggregate_by_bins)

lemma add_data_rest:
  assumes "0 < uint (bins :: 16 word)" and "t_from + uint bins < t_to"
    and "i = (t_to - t_from) div uint bins" and "\<forall>x \<in> set xs. t_from \<le> fst x"
  shows "add_data xs (get_data_aggregator bins t_from t_to s) = Inl UndefinedBehaviour \<longleftrightarrow>
    (\<exists>x \<in> set xs. t_from + uint bins * i \<le> fst x)"
proof -
  have i: "0 < i" using interval_positive [OF assms(1,2)] assms(3) by simp
  have n: "int (unat bins) = uint bins" "0 < unat bins" using assms(1) bins_nat [of bins] by linarith+
  have b: "t_from \<le> t_to" using assms(1,2) by simp
  have g: "get_data_aggregator bins t_from t_to s = agg_of s (unat bins) t_from i []"
    unfolding assms(3) by (rule get_data_aggregator_eq [OF b])
  show ?thesis
    unfolding g add_data_agg_of [OF n(2) i assms(4)] n(1) by (auto simp: not_less)
qed

text \<open>
  C14: the bins cover the interval only up to a multiple of their length: adding samples of the
  requested interval leaves the bins exactly when one of them lies in the rest of the division of the
  interval by the number of bins.
\<close>

theorem add_data_leaves_bins_iff:
  assumes "0 < uint (bins :: 16 word)" and "t_from + uint bins < t_to"
    and "\<forall>x \<in> set xs. t_from \<le> fst x \<and> fst x < t_to"
  shows "add_data xs (get_data_aggregator bins t_from t_to s) = Inl UndefinedBehaviour \<longleftrightarrow>
    (\<exists>x \<in> set xs. t_to - (t_to - t_from) mod uint bins \<le> fst x)"
proof -
  have l: "\<forall>x \<in> set xs. t_from \<le> fst x" using assms(3) by blast
  have e: "t_from + uint bins * ((t_to - t_from) div uint bins) = t_to - (t_to - t_from) mod uint bins"
    unfolding minus_mod_eq_mult_div [symmetric] by simp
  show ?thesis using add_data_rest [OF assms(1,2) refl l] unfolding e .
qed

section \<open>What the statistics mean\<close>

lemma double_less_trans_not:
  "\<not> double_less y x \<Longrightarrow> \<not> double_less z y \<Longrightarrow> y \<noteq> NaN \<Longrightarrow> \<not> double_less z x"
  by (cases x; cases y; cases z) auto

lemma insert_double_mset [simp]: "mset (insert_double x ys) = add_mset x (mset ys)"
  by (induction ys) auto

lemma sort_doubles_mset [simp]: "mset (sort_doubles xs) = mset xs"
  by (induction xs) auto

lemma insert_double_sorted:
  assumes "NaN \<notin> insert x (set ys)" and "sorted_wrt (\<lambda>x y. \<not> double_less y x) ys"
  shows "sorted_wrt (\<lambda>x y. \<not> double_less y x) (insert_double x ys)"
  using assms
proof (induction ys)
  case (Cons y ys)
  have s: "set (insert_double x ys) = insert x (set ys)"
    using insert_double_mset [of x ys] by (metis set_mset_add_mset_insert set_mset_mset)
  have IH: "sorted_wrt (\<lambda>x y. \<not> double_less y x) (insert_double x ys)" using Cons by simp
  show ?case
  proof (cases "double_less y x")
    case True
    then have "\<not> double_less x y" by (rule double_less_asym)
    with True IH Cons.prems show ?thesis by (simp add: s)
  next
    case False
    then have "\<forall>z \<in> set ys. \<not> double_less z x"
      using double_less_trans_not [OF False] Cons.prems by auto
    with False Cons.prems show ?thesis by simp
  qed
qed simp

lemma sort_doubles_sorted: "NaN \<notin> set xs \<Longrightarrow> sorted_wrt (\<lambda>x y. \<not> double_less y x) (sort_doubles xs)"
proof (induction xs)
  case (Cons x xs)
  have "set (sort_doubles xs) = set xs" by (metis set_mset_mset sort_doubles_mset)
  with Cons show ?case by (simp add: insert_double_sorted)
qed simp

lemma assign_or_extreme:
  assumes "\<And>a b. f a b = a \<or> f a b = b"
    and "\<And>a b. a \<noteq> NaN \<Longrightarrow> b \<noteq> NaN \<Longrightarrow> \<not> lt (f a b) a \<and> \<not> lt (f a b) b"
    and "\<And>a b c. \<not> lt b a \<Longrightarrow> \<not> lt c b \<Longrightarrow> b \<noteq> NaN \<Longrightarrow> \<not> lt c a"
    and "c \<noteq> NaN" and "NaN \<notin> set vs" and "\<And>a. \<not> lt a a"
  shows "fold (assign_or f) vs c \<in> insert c (set vs) \<and> (\<forall>v \<in> insert c (set vs). \<not> lt (fold (assign_or f) vs c) v)"
  using assms(4,5)
proof (induction vs arbitrary: c)
  case (Cons v vs)
  have n: "f v c \<noteq> NaN" using assms(1) [of v c] Cons.prems by auto
  have a: "assign_or f v c = f v c" using Cons.prems by (simp add: assign_or_def)
  define m where "m = fold (assign_or f) vs (f v c)"
  have m: "m \<in> insert (f v c) (set vs)" "\<not> lt m (f v c)" "\<forall>v \<in> set vs. \<not> lt m v"
    using Cons.IH [OF n] Cons.prems(2) unfolding m_def by auto
  have e: "fold (assign_or f) (v # vs) c = m" by (simp add: a m_def)
  have "\<not> lt (f v c) v" "\<not> lt (f v c) c" using assms(2) [of v c] Cons.prems by auto
  then have "\<not> lt m v" "\<not> lt m c" using m(2) n by (auto dest: assms(3))
  moreover have "m \<in> insert c (set (v # vs))" using m(1) assms(1) [of v c] by auto
  ultimately show ?case using m(3) unfolding e by simp
qed (simp add: assms(6))

lemma max_of_bin:
  assumes "vs \<noteq> []" and "NaN \<notin> set vs"
  shows "bin_cell MAX_STATISTIC vs \<in> set vs \<and> (\<forall>v \<in> set vs. \<not> double_less (bin_cell MAX_STATISTIC vs) v)"
proof -
  obtain c us where vs: "vs = c # us" using assms(1) by (meson neq_Nil_conv)
  have "bin_cell MAX_STATISTIC vs = fold (assign_or std_max) us c" by (simp add: vs assign_or_def)
  moreover have "fold (assign_or std_max) us c \<in> insert c (set us) \<and>
      (\<forall>v \<in> insert c (set us). \<not> double_less (fold (assign_or std_max) us c) v)"
    using assms(2) by (intro assign_or_extreme)
      (auto simp: vs std_max_def double_less_irrefl dest: double_less_asym double_less_trans_not)
  ultimately show ?thesis by (simp add: vs)
qed

lemma min_of_bin:
  assumes "vs \<noteq> []" and "NaN \<notin> set vs"
  shows "bin_cell MIN_STATISTIC vs \<in> set vs \<and> (\<forall>v \<in> set vs. \<not> double_less v (bin_cell MIN_STATISTIC vs))"
proof -
  obtain c us where vs: "vs = c # us" using assms(1) by (meson neq_Nil_conv)
  have "bin_cell MIN_STATISTIC vs = fold (assign_or std_min) us c" by (simp add: vs assign_or_def)
  moreover have "fold (assign_or std_min) us c \<in> insert c (set us) \<and>
      (\<forall>v \<in> insert c (set us). \<not> double_less v (fold (assign_or std_min) us c))"
    using assms(2) by (intro assign_or_extreme [where lt = "\<lambda>x y. double_less y x"])
      (auto simp: vs std_min_def double_less_irrefl dest: double_less_asym double_less_trans_not)
  ultimately show ?thesis by (simp add: vs)
qed

lemma none_of_bin: "vs \<noteq> [] \<Longrightarrow> NaN \<notin> set vs \<Longrightarrow> bin_cell NONE_STATISTIC vs = hd vs"
proof -
  have "c \<noteq> NaN \<Longrightarrow> fold (assign_or (\<lambda>v cur. cur)) xs c = c" for c xs
    by (induction xs) (simp_all add: assign_or_def)
  then show "vs \<noteq> [] \<Longrightarrow> NaN \<notin> set vs \<Longrightarrow> bin_cell NONE_STATISTIC vs = hd vs"
    by (cases vs) (auto simp: assign_or_def)
qed

lemma count_of_bin: "length vs \<le> 2 ^ 53 \<Longrightarrow> bin_cell COUNT_STATISTIC vs = Fin (of_nat (length vs))"
proof -
  have "n + length vs \<le> 2 ^ 53 \<Longrightarrow> fold (\<lambda>_ cur. dadd cur (Fin 1)) vs (Fin (of_nat n)) = Fin (of_nat (n + length vs))" for n
  proof (induction vs arbitrary: n)
    case (Cons v vs)
    have "dadd (Fin (of_nat n)) (Fin 1) = Fin (of_nat (Suc n))"
      using dadd_nat [of n 1] Cons.prems by simp
    then show ?case using Cons.IH [of "Suc n"] Cons.prems by simp
  qed simp
  from this [of 0] show "length vs \<le> 2 ^ 53 \<Longrightarrow> ?thesis" by simp
qed

lemma middle:
  assumes "0 < (n :: nat)"
  shows "odd n \<Longrightarrow> (n - 1) div 2 = n div 2" "even n \<Longrightarrow> (n - 1) div 2 = n div 2 - 1"
    "even n \<Longrightarrow> Suc (n div 2 - 1) = n div 2"
  using assms by (auto elim!: oddE evenE)

lemma median_of_bin:
  assumes "vs \<noteq> []" and "NaN \<notin> set vs"
  shows "\<exists>ys. mset ys = mset vs \<and> sorted_wrt (\<lambda>x y. \<not> double_less y x) ys \<and>
    bin_statistic MEDIAN_STATISTIC vs = Inr (if odd (length ys) then ys ! (length ys div 2)
      else ddiv_pos (dadd (ys ! (length ys div 2 - 1)) (ys ! (length ys div 2))) 2)"
proof -
  define ys where "ys = sort_doubles vs"
  have m: "mset ys = mset vs" "length ys = length vs"
    unfolding ys_def using mset_eq_length [of "sort_doubles vs" vs] by auto
  have n: "0 < length vs" using assms(1) by simp
  have e: "bin_statistic MEDIAN_STATISTIC vs = Inr (if even (length vs)
      then ddiv_pos (dadd (ys ! ((length vs - 1) div 2)) (ys ! Suc ((length vs - 1) div 2))) 2
      else ys ! ((length vs - 1) div 2))"
    using assms by (simp add: median_def ys_def Let_def)
  have "bin_statistic MEDIAN_STATISTIC vs = Inr (if odd (length ys) then ys ! (length ys div 2)
      else ddiv_pos (dadd (ys ! (length ys div 2 - 1)) (ys ! (length ys div 2))) 2)"
  proof (cases "odd (length vs)")
    case True
    then show ?thesis unfolding e m(2) middle(1) [OF n True] by simp
  next
    case False
    then have f: "even (length vs)" by simp
    show ?thesis unfolding e m(2) middle(2) [OF n f] middle(3) [OF n f] using f by simp
  qed
  with m(1) sort_doubles_sorted [OF assms(2)] show ?thesis unfolding ys_def by blast
qed

text \<open>
  What the statistics of a bin are, when it is not empty and no value is not-a-number: the greatest
  and the least value, the first, their number, and the middle of the sorted values or the mean of the
  two middle ones.
\<close>

theorem bin_statistics_meaning:
  assumes "vs \<noteq> []" and "NaN \<notin> set vs"
  shows "(\<exists>m \<in> set vs. bin_statistic MAX_STATISTIC vs = Inr m \<and> (\<forall>v \<in> set vs. \<not> double_less m v)) \<and>
    (\<exists>m \<in> set vs. bin_statistic MIN_STATISTIC vs = Inr m \<and> (\<forall>v \<in> set vs. \<not> double_less v m)) \<and>
    bin_statistic NONE_STATISTIC vs = Inr (hd vs) \<and>
    (length vs \<le> 2 ^ 53 \<longrightarrow> bin_statistic COUNT_STATISTIC vs = Inr (Fin (of_nat (length vs)))) \<and>
    (\<exists>ys. mset ys = mset vs \<and> sorted_wrt (\<lambda>x y. \<not> double_less y x) ys \<and>
      bin_statistic MEDIAN_STATISTIC vs = Inr (if odd (length ys) then ys ! (length ys div 2)
        else ddiv_pos (dadd (ys ! (length ys div 2 - 1)) (ys ! (length ys div 2))) 2))"
  using max_of_bin [OF assms] min_of_bin [OF assms] none_of_bin [OF assms] count_of_bin [of vs]
    median_of_bin [OF assms]
  by simp

section \<open>The standard deviation\<close>

lemma floor_rat_numeral: "\<lfloor>numeral a / numeral b :: rat\<rfloor> = numeral a div numeral b"
  by (metis floor_divide_of_int_eq of_int_numeral)

lemma rounded_squares:
  "round_double 10000000200000001 = Fin 10000000200000000"
  "round_double 10000000400000004 = Fin 10000000400000004"
  "round_double 10000000200000000 = Fin 10000000200000000"
  "round_double 20000000600000004 = Fin 20000000600000004"
  "round_double 30000000800000004 = Fin 30000000800000004"
  "round_double 40000001000000004 = Fin 40000001000000000"
  "round_double 160000004000000025 = Fin 160000004000000032"
  "round_double 40000001000000008 = Fin 40000001000000008"
  using round_double_large [of 1 10000000200000001] round_double_large [of 1 10000000400000004]
    round_double_large [of 1 10000000200000000] round_double_large [of 2 20000000600000004]
    round_double_large [of 2 30000000800000004] round_double_large [of 3 40000001000000004]
    round_double_large [of 5 160000004000000025] round_double_large [of 3 40000001000000008]
  by (simp_all add: round_half_even_def Let_def floor_rat_numeral)

lemma exact_sums:
  "round_double 100000001 = Fin 100000001" "round_double 200000003 = Fin 200000003"
  "round_double 300000004 = Fin 300000004" "round_double 400000005 = Fin 400000005"
  "round_double 8 = Fin 8" "round_double 2 = Fin 2"
  using round_double_nat [of 100000001] round_double_nat [of 200000003] round_double_nat [of 300000004]
    round_double_nat [of 400000005] round_double_nat [of 8] round_double_nat [of 2]
  by simp_all

text \<open>
  The variance is calculated from the sum of the squares and the square of the sum, whose roundings
  can make it negative: the standard deviation of four counters that differ by one is not-a-number.
\<close>

theorem std_deviation_not_a_number:
  "bind_result (add_data [(1, u64_to_double 100000001), (2, u64_to_double 100000002),
      (3, u64_to_double 100000001), (4, u64_to_double 100000001)]
      (get_data_aggregator 1 0 10 STANDARD_DEVIATION_STATISTIC)) finish_aggregator = Inr [(10, NaN)]"
proof -
  have v: "u64_to_double 100000001 = Fin 100000001" "u64_to_double 100000002 = Fin 100000002"
    "u64_to_double 4 = Fin 4"
    by (simp_all add: u64_to_double_exact)
  have m: "round_double (- 8) = Fin (- 8)" "round_double (- 2) = Fin (- 2)"
    using round_double_minus [of 8] round_double_minus [of 2] exact_sums by simp_all
  let ?d = "fold add_to_bin [Fin 100000001, Fin 100000002, Fin 100000001, Fin 100000001] empty_bin"
  have d: "?d = \<lparr>bin_sum = Fin 400000005, sum_sq = Fin 40000001000000000, bin_samples = 4\<rparr>"
    by (simp add: add_to_bin_def empty_bin_def rounded_squares exact_sums)
  have "std_deviation ?d = NaN"
    unfolding d by (simp add: std_deviation_def v dsub_def rounded_squares m)
  then have s: "bin_statistic STANDARD_DEVIATION_STATISTIC
      [Fin 100000001, Fin 100000002, Fin 100000001, Fin 100000001] = Inr NaN"
    using d by simp
  let ?xs = "[(1, Fin 100000001), (2, Fin 100000002), (3, Fin 100000001), (4, Fin 100000001)]"
  have "get_data_aggregator 1 0 10 STANDARD_DEVIATION_STATISTIC = agg_of STANDARD_DEVIATION_STATISTIC 1 0 10 []"
    using get_data_aggregator_eq [of 0 10 1 STANDARD_DEVIATION_STATISTIC] by simp
  moreover have "add_data ?xs (agg_of STANDARD_DEVIATION_STATISTIC 1 0 10 []) =
      Inr (agg_of STANDARD_DEVIATION_STATISTIC 1 0 10 ?xs)"
    using add_data_agg_of [of 1 10 ?xs 0 STANDARD_DEVIATION_STATISTIC "[]"] by simp
  moreover have "bin_values 0 10 ?xs 0 = [Fin 100000001, Fin 100000002, Fin 100000001, Fin 100000001]"
    by (simp add: bin_values_def)
  then have "finish_aggregator (agg_of STANDARD_DEVIATION_STATISTIC 1 0 10 ?xs) = Inr [(10, NaN)]"
    unfolding finish_agg_of using s by simp
  ultimately show ?thesis unfolding v by simp
qed

section \<open>Examples\<close>

theorem aggregate_refines_witness:
  "\<exists>g. add_data [(1, Fin 5), (4, Fin 2), (6, Fin 3)] (get_data_aggregator 2 0 8 MAX_STATISTIC) = Inr g \<and>
     (\<forall>d. finish_aggregator g = Inr d \<longleftrightarrow> length d = 2 \<and> (\<forall>k < 2. fst (d ! k) = (int k + 1) * 4 \<and>
       bin_statistic MAX_STATISTIC (bin_values 0 4 [(1, Fin 5), (4, Fin 2), (6, Fin 3)] k) = Inr (snd (d ! k))))"
  using aggregate_refines [of 2 0 8 4 "[(1, Fin 5), (4, Fin 2), (6, Fin 3)]" MAX_STATISTIC] by simp

theorem add_data_leaves_bins_iff_witness:
  "add_data [(9, Fin 1)] (get_data_aggregator 4 0 10 SUM_STATISTIC) = Inl UndefinedBehaviour"
  using add_data_leaves_bins_iff [of 4 0 10 "[(9, Fin 1)]" SUM_STATISTIC] by simp

theorem bin_statistics_meaning_witness:
  "(\<exists>m \<in> {Fin 5, Fin 2}. bin_statistic MAX_STATISTIC [Fin 5, Fin 2] = Inr m \<and>
     (\<forall>v \<in> {Fin 5, Fin 2}. \<not> double_less m v)) \<and> bin_statistic NONE_STATISTIC [Fin 5, Fin 2] = Inr (Fin 5)"
  using bin_statistics_meaning [of "[Fin 5, Fin 2]"] by simp

end
