(* ===== verification/GetData.thy ===== *)
theory GetData
  imports Aggregation
begin

text \<open>
  \<open>StatisticsBackend::get_data\<close> of \<open>StatisticsBackend.cpp\<close>: the validation of the arguments, the
  queries to the database for every entity or every pair of them, and the answer in bins or raw. The
  facts about one query are put together here: what a caller gets, and when the call fails.
\<close>

section \<open>The kinds of entities a kind of data is about\<close>

fun get_data_supported_entity_kinds :: "DataKind \<Rightarrow> (EntityKind \<times> EntityKind) list" where
  "get_data_supported_entity_kinds INVALID_DATA = [(INVALID_ENTITY, INVALID_ENTITY)]"
| "get_data_supported_entity_kinds FASTDDS_LATENCY = [(DATAWRITER, DATAREADER)]"
| "get_data_supported_entity_kinds NETWORK_LATENCY = [(PARTICIPANT, LOCATOR)]"
| "get_data_supported_entity_kinds PUBLICATION_THROUGHPUT = [(DATAWRITER, INVALID_ENTITY)]"
| "get_data_supported_entity_kinds SUBSCRIPTION_THROUGHPUT = [(DATAREADER, INVALID_ENTITY)]"
| "get_data_supported_entity_kinds RTPS_PACKETS_SENT = [(PARTICIPANT, LOCATOR)]"
| "get_data_supported_entity_kinds RTPS_BYTES_SENT = [(PARTICIPANT, LOCATOR)]"
| "get_data_supported_entity_kinds RTPS_PACKETS_LOST = [(PARTICIPANT, LOCATOR)]"
| "get_data_supported_entity_kinds RTPS_BYTES_LOST = [(PARTICIPANT, LOCATOR)]"
| "get_data_supported_entity_kinds RESENT_DATA = [(DATAWRITER, INVALID_ENTITY)]"
| "get_data_supported_entity_kinds HEARTBEAT_COUNT = [(DATAWRITER, INVALID_ENTITY)]"
| "get_data_supported_entity_kinds ACKNACK_COUNT = [(DATAREADER, INVALID_ENTITY)]"
| "get_data_supported_entity_kinds NACKFRAG_COUNT = [(DATAREADER, INVALID_ENTITY)]"
| "get_data_supported_entity_kinds GAP_COUNT = [(DATAWRITER, INVALID_ENTITY)]"
| "get_data_supported_entity_kinds DATA_COUNT = [(DATAWRITER, INVALID_ENTITY)]"
| "get_data_supported_entity_kinds PDP_PACKETS = [(PARTICIPANT, INVALID_ENTITY)]"
| "get_data_supported_entity_kinds EDP_PACKETS = [(PARTICIPANT, INVALID_ENTITY)]"
| "get_data_supported_entity_kinds DISCOVERY_TIME =
     [(PARTICIPANT, PARTICIPANT), (PARTICIPANT, DATAWRITER), (PARTICIPANT, DATAREADER)]"
| "get_data_supported_entity_kinds SAMPLE_DATAS = [(DATAWRITER, INVALID_ENTITY)]"

section \<open>The queries and the answer\<close>

text \<open>The samples up to \<open>t_to\<close>, exclusive: the query asks for them up to one tick before.\<close>

definition query_two ::
  "DataKind \<Rightarrow> Timestamp \<Rightarrow> Timestamp \<Rightarrow> 'q database \<Rightarrow> EntityId \<times> EntityId \<Rightarrow> (Timestamp \<times> double) list result" where
  "query_two k t_from t_to db x =
     bind_result (select_two k (fst x) (snd x) t_from (t_to - 1) db) (get_iterators k)"

definition query_one ::
  "DataKind \<Rightarrow> Timestamp \<Rightarrow> Timestamp \<Rightarrow> 'q database \<Rightarrow> EntityId \<Rightarrow> (Timestamp \<times> double) list result" where
  "query_one k t_from t_to db i = bind_result (select_one k i t_from (t_to - 1) db) (get_iterators k)"

fun collect_raw :: "('x \<Rightarrow> (Timestamp \<times> double) list result) \<Rightarrow> 'x list \<Rightarrow> (Timestamp \<times> double) list result" where
  "collect_raw q [] = Inr []"
| "collect_raw q (x # xs) = bind_result (q x) (\<lambda>d. map_result ((@) d) (collect_raw q xs))"

fun collect_bins ::
  "('x \<Rightarrow> (Timestamp \<times> double) list result) \<Rightarrow> 'x list \<Rightarrow> IDataAggregator \<Rightarrow> IDataAggregator result" where
  "collect_bins q [] g = Inr g"
| "collect_bins q (x # xs) g = bind_result (q x) (\<lambda>d. bind_result (add_data d g) (collect_bins q xs))"

definition answer ::
  "('x \<Rightarrow> (Timestamp \<times> double) list result) \<Rightarrow> 'x list \<Rightarrow> 16 word \<Rightarrow> Timestamp \<Rightarrow> Timestamp \<Rightarrow>
   StatisticKind \<Rightarrow> (Timestamp \<times> double) list result" where
  "answer q xs bins t_from t_to s =
     (if bins = 0 then collect_raw q xs
      else bind_result (collect_bins q xs (get_data_aggregator bins t_from t_to s)) finish_aggregator)"

definition bad_timestamps :: exn where
  "bad_timestamps = BadParameter
     ''Invalid timestamps (to should be greater than from by at least bins nanoseconds''"

definition get_data_two ::
  "DataKind \<Rightarrow> EntityId list \<Rightarrow> EntityId list \<Rightarrow> 16 word \<Rightarrow> Timestamp \<Rightarrow> Timestamp \<Rightarrow> StatisticKind \<Rightarrow>
   'q database \<Rightarrow> (Timestamp \<times> double) list result" where
  "get_data_two k sources targets bins t_from t_to s db =
     (let allowed = get_data_supported_entity_kinds k
      in if length allowed = 1 \<and> snd (hd allowed) = INVALID_ENTITY
         then Inl (BadParameter
           ''Method get_data called for source-target entities but data_type requires single entity'')
         else if t_to \<le> t_from + uint bins then Inl bad_timestamps
         else bind_result (check_entity_kinds {fst (hd allowed)} sources
                ''Wrong entity id passed in entity_ids_source'' db) (\<lambda>_.
              bind_result (check_entity_kinds (snd ` set allowed) targets
                ''Wrong entity id passed in entity_ids_target'' db) (\<lambda>_.
              answer (query_two k t_from t_to db) (List.product sources targets) bins t_from t_to s)))"

definition get_data_one ::
  "DataKind \<Rightarrow> EntityId list \<Rightarrow> 16 word \<Rightarrow> Timestamp \<Rightarrow> Timestamp \<Rightarrow> StatisticKind \<Rightarrow>
   'q database \<Rightarrow> (Timestamp \<times> double) list result" where
  "get_data_one k entities bins t_from t_to s db =
     (let allowed = get_data_supported_entity_kinds k
      in if length allowed \<noteq> 1 \<or> snd (hd allowed) \<noteq> INVALID_ENTITY
         then Inl (BadParameter
           ''Method get_data called for single entity but data_type requires two entities'')
         else if t_to \<le> t_from + uint bins then Inl bad_timestamps
         else bind_result (check_entity_kinds {fst (hd allowed)} entities
                ''Wrong entity id passed in entity_ids'' db) (\<lambda>_.
              answer (query_one k t_from t_to db) entities bins t_from t_to s))"

section \<open>Entities of a kind\<close>

text \<open>The kind stored in an object is that of its class; constructors set it and nothing changes it.\<close>

definition kinds_match :: "'q database \<Rightarrow> bool" where
  "kinds_match db \<longleftrightarrow>
     (\<forall>a x. host_objs db a = Some x \<longrightarrow> e_kind x = HOST) \<and>
     (\<forall>a x. user_objs db a = Some x \<longrightarrow> e_kind x = USER) \<and>
     (\<forall>a x. process_objs db a = Some x \<longrightarrow> e_kind x = PROCESS) \<and>
     (\<forall>a x. domain_objs db a = Some x \<longrightarrow> e_kind x = DOMAIN) \<and>
     (\<forall>a x. topic_objs db a = Some x \<longrightarrow> e_kind x = TOPIC) \<and>
     (\<forall>a x. participant_objs db a = Some x \<longrightarrow> e_kind x = PARTICIPANT) \<and>
     (\<forall>a x. reader_objs db a = Some x \<longrightarrow> e_kind x = DATAREADER) \<and>
     (\<forall>a x. writer_objs db a = Some x \<longrightarrow> e_kind x = DATAWRITER) \<and>
     (\<forall>a x. locator_objs db a = Some x \<longrightarrow> e_kind x = LOCATOR)"

lemma truncate_kind [simp]: "e_kind (Entity.truncate x) = e_kind x"
  by (simp add: Entity.truncate_def)

lemma entity_kind_cases:
  assumes "kinds_match db" and "get_entity_kind db i = Inr k"
  shows "k = PARTICIPANT \<Longrightarrow> \<exists>r p. get_entity_nts db i = Inr r \<and> as_participant db r = Inr p"
    and "k = DATAREADER \<Longrightarrow> \<exists>r p. get_entity_nts db i = Inr r \<and> as_datareader db r = Inr p"
    and "k = DATAWRITER \<Longrightarrow> \<exists>r p. get_entity_nts db i = Inr r \<and> as_datawriter db r = Inr p"
proof -
  obtain r x where r: "get_entity_nts db i = Inr r" and x: "entity_of db r = Some x" "e_kind x = k"
    using assms(2) by (auto simp: get_entity_kind_def get_entity_field_def bind_result_Inr_iff split: option.splits)
  show "k = PARTICIPANT \<Longrightarrow> \<exists>r p. get_entity_nts db i = Inr r \<and> as_participant db r = Inr p"
    "k = DATAREADER \<Longrightarrow> \<exists>r p. get_entity_nts db i = Inr r \<and> as_datareader db r = Inr p"
    "k = DATAWRITER \<Longrightarrow> \<exists>r p. get_entity_nts db i = Inr r \<and> as_datawriter db r = Inr p"
    using assms(1) r x by (cases r; fastforce simp: kinds_match_def as_Inr)+
qed

lemma check_entity_kinds_Inr:
  "check_entity_kinds ks is msg db = Inr () \<longleftrightarrow> (\<forall>i \<in> set is. \<exists>k \<in> ks. get_entity_kind db i = Inr k)"
  by (induction ks "is" msg db rule: check_entity_kinds.induct) (auto simp: bind_result_Inr_iff)

section \<open>What one query gives\<close>

fun sample_value :: "stored_sample \<Rightarrow> double" where
  "sample_value (StoredData s) = sample_data s"
| "sample_value (StoredCount s) = u64_to_double (sample_count s)"
| "sample_value (StoredBytes s) = byte_to_double (byte_count s) (magnitude_order s)"
| "sample_value (StoredTime s) = round_double (of_int (sample_time s))"

definition readings :: "Timestamp \<Rightarrow> Timestamp \<Rightarrow> stored_sample list \<Rightarrow> (Timestamp \<times> double) list" where
  "readings t_from t_to xs = map (\<lambda>x. (stored_ts x, sample_value x))
     (filter (\<lambda>x. t_from \<le> stored_ts x \<and> stored_ts x < t_to) xs)"

text \<open>The series an entity has, for another entity where the kind of data has two.\<close>

definition series_of :: "DataKind \<Rightarrow> EntityId \<Rightarrow> EntityId \<Rightarrow> 'q database \<Rightarrow> stored_sample list" where
  "series_of k source target db =
     (case get_entity_nts db source of Inr r \<Rightarrow> stored_series k r target db | Inl _ \<Rightarrow> [])"

lemma read_samples_all:
  "\<forall>x \<in> set xs. f x = Inr (sample_value x) \<Longrightarrow>
     read_samples f xs = Inr (map (\<lambda>x. (stored_ts x, sample_value x)) xs)"
  by (induction xs) (simp_all add: map_result_def)

lemma participant_series_readable:
  "set xs \<subseteq> set (participant_series k i d) \<Longrightarrow> k \<noteq> INVALID_DATA \<Longrightarrow>
     get_iterators k xs = Inr (map (\<lambda>x. (stored_ts x, sample_value x)) xs)"
  by (cases k) (auto intro!: read_samples_all)

lemma reader_series_readable:
  "set xs \<subseteq> set (reader_series k d) \<Longrightarrow> k \<noteq> INVALID_DATA \<Longrightarrow>
     get_iterators k xs = Inr (map (\<lambda>x. (stored_ts x, sample_value x)) xs)"
  by (cases k) (auto intro!: read_samples_all)

lemma writer_series_readable:
  "set xs \<subseteq> set (writer_series k i d) \<Longrightarrow> k \<noteq> INVALID_DATA \<Longrightarrow>
     get_iterators k xs = Inr (map (\<lambda>x. (stored_ts x, sample_value x)) xs)"
  by (cases k) (auto intro!: read_samples_all)

lemma series_readable:
  assumes "set xs \<subseteq> set (stored_series k r i db)" and "k \<noteq> INVALID_DATA"
  shows "get_iterators k xs = Inr (map (\<lambda>x. (stored_ts x, sample_value x)) xs)"
proof -
  have "read_samples f [] = Inr []" for f by simp
  then have "get_iterators k [] = Inr []" using assms(2) by (cases k) simp_all
  then show ?thesis
    using assms participant_series_readable reader_series_readable writer_series_readable
    by (cases r) auto
qed

lemma window_readings:
  "map (\<lambda>x. (stored_ts x, sample_value x)) (filter (in_window t_from (t_to - 1)) xs) = readings t_from t_to xs"
proof -
  have "(stored_ts x \<le> t_to - 1) = (stored_ts x < t_to)" for x by auto
  then show ?thesis by (simp add: readings_def)
qed

definition two_entities :: "DataKind \<Rightarrow> bool" where
  "two_entities k \<longleftrightarrow> snd (hd (get_data_supported_entity_kinds k)) \<noteq> INVALID_ENTITY"

lemma query_two_eq:
  assumes "samples_wf db" and "kinds_match db" and "t_from + 1 < t_to" and "two_entities k"
    and "get_entity_kind db source = Inr (fst (hd (get_data_supported_entity_kinds k)))"
    and "get_entity_kind db target = Inr kt" and "kt \<in> snd ` set (get_data_supported_entity_kinds k)"
  shows "query_two k t_from t_to db (source, target) = Inr (readings t_from t_to (series_of k source target db))"
proof -
  note E = entity_kind_cases [OF assms(2,5)]
  obtain r where r: "get_entity_nts db source = Inr r"
    and d: "fst (hd (get_data_supported_entity_kinds k)) = PARTICIPANT \<Longrightarrow> \<exists>p. as_participant db r = Inr p"
      "fst (hd (get_data_supported_entity_kinds k)) = DATAWRITER \<Longrightarrow> \<exists>p. as_datawriter db r = Inr p"
    using E assms(4) by (cases k) (auto simp: two_entities_def)
  obtain rt where "get_entity_nts db target = Inr rt"
    using assms(6) by (auto simp: get_entity_kind_def get_entity_field_def bind_result_Inr_iff)
  then obtain xs where xs: "select_two k source target t_from (t_to - 1) db = Inr xs"
    using r d assms(3,4,6,7)
    by (cases k) (auto simp: select_two_def two_entities_def assert_kind_def map_result_def)
  have "xs = filter (in_window t_from (t_to - 1)) (stored_series k r target db)"
    using select_two_stored [OF assms(1) r xs] by simp
  moreover have "k \<noteq> INVALID_DATA" using assms(4) by (auto simp: two_entities_def)
  ultimately show ?thesis
    using xs series_readable [of xs k r target db]
    by (auto simp: query_two_def series_of_def r readings_def)
qed

lemma query_one_eq:
  assumes "samples_wf db" and "kinds_match db" and "t_from + 1 < t_to"
    and "get_data_supported_entity_kinds k = [(kd, INVALID_ENTITY)]" and "k \<noteq> INVALID_DATA"
    and "get_entity_kind db i = Inr kd"
  shows "\<exists>d. query_one k t_from t_to db i = Inr d \<and> mset d = mset (readings t_from t_to (series_of k i i db)) \<and>
    sorted (map fst d) \<and> (k \<noteq> SAMPLE_DATAS \<longrightarrow> d = readings t_from t_to (series_of k i i db))"
proof -
  note E = entity_kind_cases [OF assms(2,6)]
  obtain r where r: "get_entity_nts db i = Inr r"
    and d: "kd = PARTICIPANT \<Longrightarrow> \<exists>p. as_participant db r = Inr p"
      "kd = DATAREADER \<Longrightarrow> \<exists>p. as_datareader db r = Inr p"
      "kd = DATAWRITER \<Longrightarrow> \<exists>p. as_datawriter db r = Inr p"
    using E assms(4,5) by (cases k) auto
  have m: "mdc_wf src_ts (sample_datas (dw_data w))" if "as_datawriter db r = Inr w" for w
    using that assms(1) by (auto simp: as_Inr samples_wf_def data_wf_defs)
  obtain xs where xs: "select_one k i t_from (t_to - 1) db = Inr xs"
    using r d assms(3,4,5) select_sample_datas_eq [OF m]
    by (cases k) (auto simp: select_one_def map_result_def)
  let ?ys = "filter (in_window t_from (t_to - 1)) (stored_series k r i db)"
  have e: "mset xs = mset ?ys" "sorted (map stored_ts xs)" "k \<noteq> SAMPLE_DATAS \<longrightarrow> xs = ?ys"
    using select_one_stored [OF assms(1) r xs] by auto
  have "set xs \<subseteq> set (stored_series k r i db)" using mset_eq_setD [OF e(1)] by auto
  from series_readable [OF this assms(5)]
  have q: "query_one k t_from t_to db i = Inr (map (\<lambda>x. (stored_ts x, sample_value x)) xs)"
    using xs by (simp add: query_one_def)
  have "mset (map (\<lambda>x. (stored_ts x, sample_value x)) xs) = mset (readings t_from t_to (stored_series k r i db))"
    unfolding window_readings [symmetric] mset_map e(1) ..
  then show ?thesis
    using q e(2,3) by (auto simp: series_of_def r comp_def readings_def)
qed

section \<open>What a call returns\<close>

lemma collect_raw_Inr:
  "\<forall>x \<in> set xs. q x = Inr (f x) \<Longrightarrow> collect_raw q xs = Inr (concat (map f xs))"
  by (induction xs) (simp_all add: map_result_def)

lemma add_data_append: "add_data (xs @ ys) g = bind_result (add_data xs g) (add_data ys)"
  by (induction xs g rule: add_data.induct) auto

lemma collect_bins_raw: "collect_raw q xs = Inr d \<Longrightarrow> collect_bins q xs g = add_data d g"
proof (induction xs arbitrary: d g)
  case (Cons x xs)
  then obtain a b where ab: "q x = Inr a" "collect_raw q xs = Inr b" "d = a @ b"
    by (auto simp: bind_result_Inr_iff map_result_Inr_iff)
  show ?case using Cons.IH [OF ab(2)] ab by (cases "add_data a g") (simp_all add: add_data_append)
qed simp

lemma check_entity_kinds_message:
  "check_entity_kinds ks is msg db = Inr () \<Longrightarrow> check_entity_kinds ks is msg' db = Inr ()"
  by (simp add: check_entity_kinds_Inr)

lemma get_data_two_answer:
  assumes "two_entities k" and "t_from + uint bins < t_to"
    and "check_entity_kinds {fst (hd (get_data_supported_entity_kinds k))} sources msg db = Inr ()"
    and "check_entity_kinds (snd ` set (get_data_supported_entity_kinds k)) targets msg db = Inr ()"
  shows "get_data_two k sources targets bins t_from t_to s db =
    answer (query_two k t_from t_to db) (List.product sources targets) bins t_from t_to s"
  using assms(1,2) check_entity_kinds_message [OF assms(3)] check_entity_kinds_message [OF assms(4)]
  by (simp add: get_data_two_def two_entities_def Let_def)

lemma queries_two:
  assumes "samples_wf db" and "kinds_match db" and "two_entities k" and "t_from + 1 < t_to"
    and "check_entity_kinds {fst (hd (get_data_supported_entity_kinds k))} sources msg db = Inr ()"
    and "check_entity_kinds (snd ` set (get_data_supported_entity_kinds k)) targets msg db = Inr ()"
  shows "\<forall>x \<in> set (List.product sources targets). query_two k t_from t_to db x =
    Inr (readings t_from t_to (series_of k (fst x) (snd x) db))"
  using query_two_eq [OF assms(1,2,4,3)] assms(5,6) by (fastforce simp: check_entity_kinds_Inr)

text \<open>The first query of an interval of one tick throws: it asks for the samples up to its start.\<close>

lemma one_tick_answer:
  assumes "sources \<noteq> []" and "targets \<noteq> []"
  shows "collect_raw (query_two k t (t + 1) db) (List.product sources targets) = Inl bad_interval"
  using assms by (cases sources; cases targets) (simp_all add: query_two_def select_two_def)

text \<open>
  C12: without bins, a call for pairs of entities of the right kinds throws when \<open>t_to\<close> is not after
  \<open>t_from\<close>; otherwise it returns, for every source and for every target in this order, the time
  stamps and values of the stored samples from \<open>t_from\<close> on and before \<open>t_to\<close>, and does not fail, with
  one exception: an interval of one tick, which the validation accepts, makes the first query throw
  (\<open>StatisticsBackend.cpp\<close> asks the database for the samples up to \<open>t_to - 1\<close>).
\<close>

theorem get_data_raw:
  assumes "samples_wf db" and "kinds_match db" and "two_entities k"
    and "check_entity_kinds {fst (hd (get_data_supported_entity_kinds k))} sources msg db = Inr ()"
    and "check_entity_kinds (snd ` set (get_data_supported_entity_kinds k)) targets msg db = Inr ()"
  shows "get_data_two k sources targets 0 t_from t_to s db =
    (if t_to \<le> t_from then Inl bad_timestamps
     else if t_to = t_from + 1 \<and> sources \<noteq> [] \<and> targets \<noteq> [] then Inl bad_interval
     else Inr (concat (map (\<lambda>(i, j). readings t_from t_to (series_of k i j db)) (List.product sources targets))))"
proof (cases "t_to \<le> t_from")
  case True
  then show ?thesis using assms(3) by (simp add: get_data_two_def two_entities_def Let_def)
next
  case False
  then have t: "t_from + uint (0 :: 16 word) < t_to" by simp
  have a: "get_data_two k sources targets 0 t_from t_to s db =
      collect_raw (query_two k t_from t_to db) (List.product sources targets)"
    using get_data_two_answer [OF assms(3) t assms(4,5)] by (simp add: answer_def)
  show ?thesis
  proof (cases "t_to = t_from + 1")
    case True
    have "List.product sources ([] :: EntityId list) = []" by (induction sources) simp_all
    then show ?thesis
      using True False a one_tick_answer [of sources targets k t_from db]
      by (cases "sources = [] \<or> targets = []") auto
  next
    case gap: False
    then have t2: "t_from + 1 < t_to" using False by simp
    show ?thesis
      using False gap a collect_raw_Inr [OF queries_two [OF assms(1-3) t2 assms(4,5)]]
      by (simp add: case_prod_unfold)
  qed
qed

lemma readings_in_window: "x \<in> set (readings t_from t_to xs) \<Longrightarrow> t_from \<le> fst x \<and> fst x < t_to"
  by (auto simp: readings_def)

text \<open>
  C13: with bins, the call returns one value per bin: the statistic of the values the call without bins
  returns for the interval of the bin, in the same order; it fails where the statistic has no value.
  The bins have the whole part of the interval divided by their number as their length, so they
  leave out the rest of the division at its end; when the call without bins returns a sample of that
  rest, the behaviour of the call is undefined: it writes behind the last bin.
\<close>

theorem get_data_binned:
  assumes "samples_wf db" and "kinds_match db" and "two_entities k"
    and "0 < uint bins" and "t_from + uint bins < t_to"
    and "check_entity_kinds {fst (hd (get_data_supported_entity_kinds k))} sources msg db = Inr ()"
    and "check_entity_kinds (snd ` set (get_data_supported_entity_kinds k)) targets msg db = Inr ()"
    and "get_data_two k sources targets 0 t_from t_to s db = Inr raw"
  shows "if \<exists>x \<in> set raw. t_from + uint bins * ((t_to - t_from) div uint bins) \<le> fst x
    then get_data_two k sources targets bins t_from t_to s db = Inl UndefinedBehaviour
    else \<forall>d. get_data_two k sources targets bins t_from t_to s db = Inr d \<longleftrightarrow>
      length d = unat bins \<and> (\<forall>n < unat bins.
        fst (d ! n) = t_from + (int n + 1) * ((t_to - t_from) div uint bins) \<and>
        bin_statistic s (bin_values t_from ((t_to - t_from) div uint bins) raw n) = Inr (snd (d ! n)))"
proof -
  let ?i = "(t_to - t_from) div uint bins"
  have t: "t_from + 1 < t_to" using assms(4,5) by linarith
  note q = queries_two [OF assms(1-3) t assms(6,7)]
  have "t_from + uint (0 :: 16 word) < t_to" using t by simp
  from get_data_two_answer [OF assms(3) this assms(6,7)] assms(8)
  have raw: "collect_raw (query_two k t_from t_to db) (List.product sources targets) = Inr raw"
    by (simp add: answer_def)
  then have "raw = concat (map (\<lambda>x. readings t_from t_to (series_of k (fst x) (snd x) db)) (List.product sources targets))"
    using collect_raw_Inr [OF q] by simp
  then have w: "\<forall>x \<in> set raw. t_from \<le> fst x"
    using readings_in_window by fastforce
  have "bins \<noteq> 0" using assms(4) by auto
  with get_data_two_answer [OF assms(3,5-7)] collect_bins_raw [OF raw]
  have run: "get_data_two k sources targets bins t_from t_to s db =
      bind_result (add_data raw (get_data_aggregator bins t_from t_to s)) finish_aggregator"
    by (simp add: answer_def)
  show ?thesis
  proof (cases "\<exists>x \<in> set raw. t_from + uint bins * ?i \<le> fst x")
    case True
    then show ?thesis using run add_data_rest [OF assms(4,5) refl w] by simp
  next
    case False
    then have w': "\<forall>x \<in> set raw. t_from \<le> fst x \<and> fst x < t_from + uint bins * ?i"
      using w by (auto simp: not_le)
    obtain g where "add_data raw (get_data_aggregator bins t_from t_to s) = Inr g"
      "\<forall>d. finish_aggregator g = Inr d \<longleftrightarrow> length d = unat bins \<and> (\<forall>n < unat bins.
        fst (d ! n) = t_from + (int n + 1) * ?i \<and> bin_statistic s (bin_values t_from ?i raw n) = Inr (snd (d ! n)))"
      using aggregate_by_bins [OF assms(4,5) refl w'] by blast
    with run False show ?thesis by simp
  qed
qed

text \<open>
  An interval of one tick, which the validation accepts for a call without bins, makes the query
  throw.
\<close>

theorem one_tick_interval_throws:
  assumes "two_entities k" and "sources \<noteq> []" and "targets \<noteq> []"
    and "check_entity_kinds {fst (hd (get_data_supported_entity_kinds k))} sources msg db = Inr ()"
    and "check_entity_kinds (snd ` set (get_data_supported_entity_kinds k)) targets msg db = Inr ()"
  shows "get_data_two k sources targets 0 t (t + 1) s db = Inl bad_interval"
proof -
  have "t + uint (0 :: 16 word) < t + 1" by simp
  from get_data_two_answer [OF assms(1) this assms(4,5)] one_tick_answer [OF assms(2,3)] show ?thesis
    by (simp add: answer_def)
qed

section \<open>Examples\<close>

lemma example_query_db_kinds: "kinds_match example_query_db"
  by (simp add: kinds_match_def example_query_db_def new_database_def entity_constructor_defs)

lemma example_query_checks:
  "check_entity_kinds {fst (hd (get_data_supported_entity_kinds RTPS_PACKETS_SENT))} [EntityId 1] [] example_query_db = Inr ()"
  "check_entity_kinds (snd ` set (get_data_supported_entity_kinds RTPS_PACKETS_SENT)) [EntityId 7] [] example_query_db = Inr ()"
proof -
  have "get_entity_kind example_query_db (EntityId 1) = Inr PARTICIPANT"
    by (simp add: get_entity_kind_def get_entity_field_def example_query_db_entities)
      (simp add: example_query_db_def entity_constructor_defs)
  then show "check_entity_kinds {fst (hd (get_data_supported_entity_kinds RTPS_PACKETS_SENT))} [EntityId 1] [] example_query_db = Inr ()"
    by simp
  show "check_entity_kinds (snd ` set (get_data_supported_entity_kinds RTPS_PACKETS_SENT)) [EntityId 7] [] example_query_db = Inr ()"
    by (simp add: example_query_db_locator)
qed

lemma example_query_series:
  "series_of RTPS_PACKETS_SENT (EntityId 1) (EntityId 7) example_query_db =
     [StoredCount (example_count RTPS_PACKETS_SENT 4 3), StoredCount (example_count RTPS_PACKETS_SENT 8 1)]"
proof -
  obtain p where p: "participant_objs example_query_db 0 = Some p"
    using example_query_db_participant(2) by blast
  then show ?thesis
    using example_query_db_participant(1) [OF p]
    by (simp add: series_of_def example_query_db_entities om_get_def)
qed

lemma two_entities_packets: "two_entities RTPS_PACKETS_SENT"
  by (simp add: two_entities_def)

lemma example_readings:
  "concat (map (\<lambda>(i, j). readings 0 10 (series_of RTPS_PACKETS_SENT i j example_query_db))
     (List.product [EntityId 1] [EntityId 7])) = [(4, Fin 3), (8, Fin 1)]"
  by (simp add: example_query_series readings_def example_count_def u64_to_double_exact)

theorem get_data_raw_witness:
  "get_data_two RTPS_PACKETS_SENT [EntityId 1] [EntityId 7] 0 0 10 NONE_STATISTIC example_query_db =
     Inr [(4, Fin 3), (8, Fin 1)]"
  using get_data_raw [OF example_query_db_samples example_query_db_kinds two_entities_packets example_query_checks,
      of 0 10 NONE_STATISTIC]
  unfolding example_readings by simp

theorem get_data_binned_witness:
  "get_data_two RTPS_PACKETS_SENT [EntityId 1] [EntityId 7] 2 0 10 NONE_STATISTIC example_query_db =
     Inr [(5, Fin 3), (10, Fin 1)]"
proof -
  have raw: "get_data_two RTPS_PACKETS_SENT [EntityId 1] [EntityId 7] 0 0 10 NONE_STATISTIC example_query_db =
      Inr [(4, Fin 3), (8, Fin 1)]"
    using get_data_two_answer [OF two_entities_packets _ example_query_checks, of 0 0 10 NONE_STATISTIC]
      collect_raw_Inr [OF queries_two [OF example_query_db_samples example_query_db_kinds two_entities_packets _
        example_query_checks, of 0 10]]
    by (simp add: answer_def example_query_series readings_def example_count_def u64_to_double_exact)
  have n: "(\<forall>n < 2. P n) \<longleftrightarrow> P 0 \<and> P (1 :: nat)" for P by (auto simp: less_2_cases_iff)
  show ?thesis
    using get_data_binned [OF example_query_db_samples example_query_db_kinds two_entities_packets _ _
        example_query_checks raw, of 2]
    by (simp add: n bin_values_def assign_or_def)
qed

theorem one_tick_interval_throws_witness:
  "get_data_two RTPS_PACKETS_SENT [EntityId 1] [EntityId 7] 0 3 4 NONE_STATISTIC example_query_db = Inl bad_interval"
  using one_tick_interval_throws [OF two_entities_packets _ _ example_query_checks, of 3 NONE_STATISTIC] by simp

end
