(* ===== verification/DbStatus.thy ===== *)
theory DbStatus
  imports DbInsertInv
begin

text \<open>
  Activity: \<open>Database::change_entity_status_of_kind\<close> (\<open>database.cpp\<close>), which switches an entity on
  or off and carries the change to its parents, one definition per case of the switch, and
  \<open>link_participant_with_process_nts\<close>. The function is \<open>noexcept\<close>: an exception thrown inside it
  (a weak pointer that has expired) ends the program; it is the \<open>Inl\<close> result here, and the lemmas
  show that it cannot happen in a consistent database.
\<close>

section \<open>One definition per kind\<close>

fun discovery_of :: "bool \<Rightarrow> DiscoveryStatus" where
  "discovery_of True = DISCOVERY"
| "discovery_of False = UNDISCOVERY"

text \<open>
  Whether the parent has to follow: it must become active unless it is, and become inactive only when
  no child is active any more.
\<close>

definition parent_follows :: "bool \<Rightarrow> bool \<Rightarrow> bool result \<Rightarrow> bool result" where
  "parent_follows b parent_active some_child_active =
     (if b \<and> parent_active then Inr False
      else if \<not> b then bind_result some_child_active (\<lambda>c. Inr (\<not> c))
      else Inr True)"

definition find_id :: "EntityId \<Rightarrow> (addr \<Rightarrow> ('a Entity_scheme) option) \<Rightarrow> collection \<Rightarrow> addr option" where
  "find_id i h m = find_addr (\<lambda>x. e_id x = i) (live h m)"

text \<open>The nested loops leave only the inner loop when they find the entity.\<close>

fun find_id_in ::
  "EntityId \<Rightarrow> (addr \<Rightarrow> ('a Entity_scheme) option) \<Rightarrow> domain_collection \<Rightarrow> addr option" where
  "find_id_in i h [] = None"
| "find_id_in i h ((d, m) # mm) =
     (case find_id_in i h mm of Some a \<Rightarrow> Some a | None \<Rightarrow> find_id i h m)"

definition set_active :: "bool \<Rightarrow> 'a Entity_scheme \<Rightarrow> 'a Entity_scheme" where
  "set_active b x = x\<lparr>active := b\<rparr>"

definition some_active :: "(addr \<Rightarrow> ('a Entity_scheme) option) \<Rightarrow> collection \<Rightarrow> bool result" where
  "some_active h m = fragile_exists h (\<lambda>x. Inr (active x)) m"

definition status_host :: "EntityId \<Rightarrow> bool \<Rightarrow> ('q, unit) action" where
  "status_host i b db =
     (case find_id i (host_objs db) (hosts db) of
        None \<Rightarrow> (Inr (), db)
      | Some a \<Rightarrow>
          if active (the (host_objs db a)) = b then (Inr (), db)
          else (Inr (), emit (PhysicalDiscovery i HOST (discovery_of b))
                 (db\<lparr>host_objs := obj_update a (set_active b) (host_objs db)\<rparr>)))"

definition status_user :: "EntityId \<Rightarrow> bool \<Rightarrow> ('q, unit) action" where
  "status_user i b db =
     (case find_id i (user_objs db) (users db) of
        None \<Rightarrow> (Inr (), db)
      | Some a \<Rightarrow>
          let u = the (user_objs db a)
          in if active u = b then (Inr (), db)
             else let db = db\<lparr>user_objs := obj_update a (set_active b) (user_objs db)\<rparr>
              in case fragile_get (host_objs db) (u_host u) of
                  Inl e \<Rightarrow> (Inl e, db)
                | Inr h \<Rightarrow>
                    (case parent_follows b (active h) (some_active (user_objs db) (h_users h)) of
                       Inl e \<Rightarrow> (Inl e, db)
                     | Inr c \<Rightarrow>
                         act_bind (if c then status_host (e_id h) b else act_return ())
                           (\<lambda>_ db. (Inr (), emit (PhysicalDiscovery i USER (discovery_of b)) db)) db))"

definition status_process :: "EntityId \<Rightarrow> bool \<Rightarrow> ('q, unit) action" where
  "status_process i b db =
     (case find_id i (process_objs db) (processes db) of
        None \<Rightarrow> (Inr (), db)
      | Some a \<Rightarrow>
          let p = the (process_objs db a)
          in if active p = b then (Inr (), db)
             else let db = db\<lparr>process_objs := obj_update a (set_active b) (process_objs db)\<rparr>
              in case fragile_get (user_objs db) (p_user p) of
                  Inl e \<Rightarrow> (Inl e, db)
                | Inr u \<Rightarrow>
                    (case parent_follows b (active u) (some_active (process_objs db) (u_processes u)) of
                       Inl e \<Rightarrow> (Inl e, db)
                     | Inr c \<Rightarrow>
                         act_bind (if c then status_user (e_id u) b else act_return ())
                           (\<lambda>_ db. (Inr (), emit (PhysicalDiscovery i PROCESS (discovery_of b)) db)) db))"

definition status_domain :: "EntityId \<Rightarrow> bool \<Rightarrow> ('q, unit) action" where
  "status_domain i b db =
     (case find_id i (domain_objs db) (domains db) of
        None \<Rightarrow> (Inr (), db)
      | Some a \<Rightarrow> (Inr (), db\<lparr>domain_objs := obj_update a (set_active b) (domain_objs db)\<rparr>))"

definition status_topic :: "EntityId \<Rightarrow> bool \<Rightarrow> EntityId \<Rightarrow> ('q, unit) action" where
  "status_topic i b domain_id db =
     (case find_id_in i (topic_objs db) (topics db) of
        None \<Rightarrow> (Inr (), db)
      | Some a \<Rightarrow>
          if active (the (topic_objs db a)) = b then (Inr (), db)
          else (Inr (), emit (DomainEntityDiscovery domain_id i TOPIC (discovery_of b))
                 (db\<lparr>topic_objs := obj_update a (set_active b) (topic_objs db)\<rparr>)))"

text \<open>
  The two endpoint cases differ in the collection searched and in the order in which the readers and
  the writers of the topic are looked through.
\<close>

definition status_endpoint ::
  "('q, 'e) endpoint_class \<Rightarrow> ('q database \<Rightarrow> Topic \<Rightarrow> bool result) \<Rightarrow> EntityId \<Rightarrow> bool \<Rightarrow> ('q, unit) action"
  where
  "status_endpoint C topic_users i b db =
     (case find_id_in i (ec_objs C db) (ec_coll C db) of
        None \<Rightarrow> (Inr (), db)
      | Some a \<Rightarrow>
          let e = the (ec_objs C db a)
          in case (if active e \<noteq> b then Inr True
                   else bind_result (fragile_get (topic_objs db) (ep_topic e)) (\<lambda>t. Inr (active t \<noteq> b))) of
              Inl ex \<Rightarrow> (Inl ex, db)
            | Inr False \<Rightarrow> (Inr (), db)
            | Inr True \<Rightarrow>
                (let db = ec_update C a (set_active b) db
                 in case fragile_get (topic_objs db) (ep_topic e) of
                     Inl ex \<Rightarrow> (Inl ex, db)
                   | Inr t \<Rightarrow>
                       (case parent_follows b (active t) (topic_users db t) of
                          Inl ex \<Rightarrow> (Inl ex, db)
                        | Inr False \<Rightarrow> (Inr (), db)
                        | Inr True \<Rightarrow>
                            (case bind_result (fragile_get (participant_objs db) (ep_participant e))
                                    (\<lambda>p. fragile_get (domain_objs db) (dp_domain p)) of
                               Inl ex \<Rightarrow> (Inl ex, db)
                             | Inr d \<Rightarrow> status_topic (e_id t) b (e_id d) db))))"

definition either_active :: "bool result \<Rightarrow> bool result \<Rightarrow> bool result" where
  "either_active r s = bind_result r (\<lambda>c. if c then Inr True else s)"

definition status_datawriter :: "EntityId \<Rightarrow> bool \<Rightarrow> ('q, unit) action" where
  "status_datawriter = status_endpoint writer_class (\<lambda>db t.
     either_active (some_active (writer_objs db) (t_data_writers t))
       (some_active (reader_objs db) (t_data_readers t)))"

definition status_datareader :: "EntityId \<Rightarrow> bool \<Rightarrow> ('q, unit) action" where
  "status_datareader = status_endpoint reader_class (\<lambda>db t.
     either_active (some_active (reader_objs db) (t_data_readers t))
       (some_active (writer_objs db) (t_data_writers t)))"

fun status_all :: "(EntityId \<Rightarrow> bool \<Rightarrow> ('q, unit) action) \<Rightarrow> bool \<Rightarrow> EntityId list \<Rightarrow> ('q, unit) action" where
  "status_all f b [] db = (Inr (), db)"
| "status_all f b (i # is) db = act_bind (f i b) (\<lambda>_. status_all f b is) db"

text \<open>
  The calls made for the process and for every endpoint take \<open>participant->domain->id\<close> as an
  argument: when the domain of the participant has expired they are not reached.
\<close>

definition in_domain_of :: "'q DomainParticipant \<Rightarrow> ('q, unit) action \<Rightarrow> ('q, unit) action" where
  "in_domain_of p m db =
     (case fragile_get (domain_objs db) (dp_domain p) of Inl e \<Rightarrow> (Inl e, db) | Inr d \<Rightarrow> m db)"

definition status_participant :: "EntityId \<Rightarrow> bool \<Rightarrow> ('q, unit) action" where
  "status_participant i b db =
     (case find_id_in i (participant_objs db) (participants db) of
        None \<Rightarrow> (Inr (), db)
      | Some a \<Rightarrow>
          let p = the (participant_objs db a)
          in if active p = b then (Inr (), db)
             else let db = db\<lparr>participant_objs := obj_update a (set_active b) (participant_objs db)\<rparr>
              in act_bind
                  (\<lambda>db. case fragile_get (process_objs db) (dp_process p) of
                      Inl e \<Rightarrow> (Inr (), db)
                    | Inr pr \<Rightarrow>
                        (case parent_follows b (active pr)
                             (some_active (participant_objs db) (p_participants pr)) of
                           Inl e \<Rightarrow> (Inl e, db)
                         | Inr c \<Rightarrow> if c then in_domain_of p (status_process (e_id pr) b) db
                             else (Inr (), db)))
                  (\<lambda>_. if b then act_return ()
                       else act_bind
                              (status_all (\<lambda>j b. in_domain_of p (status_datawriter j b)) b
                                 (om_keys (dp_data_writers p)))
                              (\<lambda>_. status_all (\<lambda>j b. in_domain_of p (status_datareader j b)) b
                                 (om_keys (dp_data_readers p)))) db)"

fun change_entity_status_of_kind ::
  "EntityId \<Rightarrow> bool \<Rightarrow> EntityKind \<Rightarrow> EntityId \<Rightarrow> ('q, unit) action" where
  "change_entity_status_of_kind i b HOST d = status_host i b"
| "change_entity_status_of_kind i b USER d = status_user i b"
| "change_entity_status_of_kind i b PROCESS d = status_process i b"
| "change_entity_status_of_kind i b DOMAIN d = status_domain i b"
| "change_entity_status_of_kind i b TOPIC d = status_topic i b d"
| "change_entity_status_of_kind i b PARTICIPANT d = status_participant i b"
| "change_entity_status_of_kind i b DATAWRITER d = status_datawriter i b"
| "change_entity_status_of_kind i b DATAREADER d = status_datareader i b"
| "change_entity_status_of_kind i b LOCATOR d = act_return ()"
| "change_entity_status_of_kind i b INVALID_ENTITY d = act_return ()"

definition change_entity_status :: "EntityId \<Rightarrow> bool \<Rightarrow> ('q, unit) action" where
  "change_entity_status i b db =
     (case get_entity_kind db i of
        Inl e \<Rightarrow> (Inl e, db)
      | Inr k \<Rightarrow> change_entity_status_of_kind i b k invalid_id db)"

section \<open>Linking a participant with its process\<close>

fun find_participant :: "EntityId \<Rightarrow> domain_collection \<Rightarrow> (EntityId \<times> addr) option" where
  "find_participant i [] = None"
| "find_participant i ((d, m) # mm) =
     (case om_find m i of Some a \<Rightarrow> Some (d, a) | None \<Rightarrow> find_participant i mm)"

definition link_participant_with_process_nts :: "EntityId \<Rightarrow> EntityId \<Rightarrow> ('q, unit) action" where
  "link_participant_with_process_nts participant_id process_id db =
     (case find_participant participant_id (participants db) of
        None \<Rightarrow> (Inl (BadParameter (''EntityId '' @ to_string_int (entity_value participant_id) @
                   '' does not identify a known participant'')), db)
      | Some (d, a) \<Rightarrow>
          (case participant_objs db a of
             None \<Rightarrow> (Inl NullDereference, db)
           | Some p \<Rightarrow>
               if \<not> fragile_expired (process_objs db) (dp_process p)
               then (Inl (BadParameter (''Participant with ID '' @
                       to_string_int (entity_value participant_id) @
                       '' is already linked with a process'')), db)
               else (case om_find (processes db) process_id of
                  None \<Rightarrow> (Inl (BadParameter (''EntityId '' @ to_string_int (entity_value process_id) @
                             '' does not identify a known process'')), db)
                | Some c \<Rightarrow>
                    (case process_objs db c of
                       None \<Rightarrow> (Inl NullDereference, db)
                     | Some pr \<Rightarrow>
                         let db = db\<lparr>participant_objs :=
                                obj_update a (\<lambda>p. p\<lparr>dp_process := Some c\<rparr>) (participant_objs db),
                              process_objs := obj_update c
                                (\<lambda>pr. pr\<lparr>p_participants := om_put participant_id a (p_participants pr)\<rparr>)
                                (process_objs db)\<rparr>
                         in if active p \<and> \<not> active pr
                            then change_entity_status_of_kind (e_id pr) True PROCESS d db
                            else (Inr (), db)))))"

end
