(* ===== verification/PhysicalTree.thy ===== *)
theory PhysicalTree
  imports DbStatus
begin

text \<open>
  The tree of hosts, users, processes and participants: the references between parents and children
  agree in both directions, and a parent is active exactly when one of its children is. Both are
  stated for one level over abstract stores, proved for the steps the code takes, and instantiated
  for the three levels.
\<close>

section \<open>One level of the tree\<close>

text \<open>
  \<open>kids\<close> is the map of children of a parent, \<open>up\<close> the reference of a child to its parent, \<open>cm\<close> the
  entries of the collection of children.
\<close>

definition linked ::
  "(addr \<Rightarrow> 'p option) \<Rightarrow> collection \<Rightarrow> ('p \<Rightarrow> collection) \<Rightarrow> (addr \<Rightarrow> 'c option) \<Rightarrow>
   (EntityId \<times> addr) set \<Rightarrow> ('c \<Rightarrow> addr option) \<Rightarrow> bool" where
  "linked ph pm kids ch cm up \<longleftrightarrow>
     (\<forall>(i, b) \<in> set pm. \<exists>p. ph b = Some p \<and> om_wf (kids p) \<and>
        (\<forall>(j, a) \<in> set (kids p). (j, a) \<in> cm \<and> (\<exists>c. ch a = Some c \<and> up c = Some b))) \<and>
     (\<forall>(j, a) \<in> cm. \<exists>c. ch a = Some c \<and>
        (\<forall>b. up c = Some b \<longrightarrow> (\<exists>i p. (i, b) \<in> set pm \<and> ph b = Some p \<and> (j, a) \<in> set (kids p))))"

definition child_active :: "(addr \<Rightarrow> ('c Entity_scheme) option) \<Rightarrow> collection \<Rightarrow> bool" where
  "child_active ch m \<longleftrightarrow> (\<exists>(j, a) \<in> set m. \<exists>c. ch a = Some c \<and> active c)"

definition mirrors_except ::
  "addr set \<Rightarrow> (addr \<Rightarrow> ('p Entity_scheme) option) \<Rightarrow> collection \<Rightarrow> ('p Entity_scheme \<Rightarrow> collection) \<Rightarrow>
   (addr \<Rightarrow> ('c Entity_scheme) option) \<Rightarrow> bool" where
  "mirrors_except X ph pm kids ch \<longleftrightarrow>
     (\<forall>(i, b) \<in> set pm. \<forall>p. b \<notin> X \<longrightarrow> ph b = Some p \<longrightarrow> (active p \<longleftrightarrow> child_active ch (kids p)))"

lemma linkedD_parent:
  assumes "linked ph pm kids ch cm up" and "(i, b) \<in> set pm"
  shows "\<exists>p. ph b = Some p \<and> om_wf (kids p) \<and>
    (\<forall>(j, a) \<in> set (kids p). (j, a) \<in> cm \<and> (\<exists>c. ch a = Some c \<and> up c = Some b))"
  using assms by (auto simp: linked_def)

lemma linkedD_child:
  assumes "linked ph pm kids ch cm up" and "(j, a) \<in> cm" and "ch a = Some c" and "up c = Some b"
  shows "\<exists>i p. (i, b) \<in> set pm \<and> ph b = Some p \<and> (j, a) \<in> set (kids p)"
  using assms by (fastforce simp: linked_def)

lemma linked_update_parent:
  assumes "linked ph pm kids ch cm up" and "\<And>p. kids (f p) = kids p"
  shows "linked (obj_update x f ph) pm kids ch cm up"
  using assms unfolding linked_def obj_update_def by (fastforce split: if_splits)

lemma linked_update_child:
  assumes "linked ph pm kids ch cm up" and "\<And>c. up (f c) = up c"
  shows "linked ph pm kids (obj_update x f ch) cm up"
  using assms unfolding linked_def obj_update_def by (fastforce split: if_splits)

lemma mirrors_update_parent:
  assumes "mirrors_except X ph pm kids ch" and "\<And>p. active (f p) = active p" and "\<And>p. kids (f p) = kids p"
  shows "mirrors_except X (obj_update x f ph) pm kids ch"
  using assms by (fastforce simp: mirrors_except_def obj_update_apply)

lemma child_active_update:
  assumes "\<And>c. active (f c) = active c"
  shows "child_active (obj_update x f ch) m = child_active ch m"
  using assms by (fastforce simp: child_active_def obj_update_apply split: if_splits)

lemma mirrors_update_child:
  "(\<And>c. active (f c) = active c) \<Longrightarrow>
     mirrors_except X ph pm kids (obj_update x f ch) = mirrors_except X ph pm kids ch"
  by (simp add: mirrors_except_def child_active_update)

lemma some_active_linked:
  assumes "\<forall>(j, a) \<in> set m. ch a \<noteq> None"
  shows "some_active ch m = Inr (child_active ch m)"
proof -
  have "some_active ch m = Inr (\<exists>(k, a, x) \<in> set (live ch m). active x)"
    unfolding some_active_def using assms by (intro fragile_exists_all_live) fastforce
  then show ?thesis by (fastforce simp: child_active_def live_set)
qed

text \<open>
  A child changes its activity to \<open>b\<close>: what the code computes for the parent, and that the level is
  in order again once the parent has followed.
\<close>

lemma child_switch:
  fixes ph :: "addr \<Rightarrow> ('p Entity_scheme) option" and ch :: "addr \<Rightarrow> ('c Entity_scheme) option"
  assumes l: "linked ph pm kids ch cm up" and m: "mirrors_except {} ph pm kids ch"
    and c: "(j, a) \<in> cm" "ch a = Some c" "active c \<noteq> b" "up c = Some x" "ph x = Some p"
    and up: "\<And>c. up (set_active b c) = up c" and kids: "\<And>p. kids (set_active b p) = kids p"
  defines "ch' \<equiv> obj_update a (set_active b) ch"
  shows "linked ph pm kids ch' cm up \<and>
    (\<exists>f. parent_follows b (active p) (some_active ch' (kids p)) = Inr f \<and>
      (if f then active p \<noteq> b \<and> mirrors_except {} (obj_update x (set_active b) ph) pm kids ch'
       else mirrors_except {} ph pm kids ch'))"
proof -
  obtain i where x: "(i, x) \<in> set pm" "(j, a) \<in> set (kids p)"
    using linkedD_child [OF l c(1,2,4)] c(5) by auto
  have l': "linked ph pm kids ch' cm up"
    unfolding ch'_def by (rule linked_update_child [OF l up])
  have kp: "\<forall>(k, e) \<in> set (kids p). ch' e \<noteq> None"
    using linkedD_parent [OF l' x(1)] c(5) by auto
  have ca: "child_active ch' (kids p) \<longleftrightarrow> b \<or> (\<exists>(k, e) \<in> set (kids p). e \<noteq> a \<and> (\<exists>c. ch e = Some c \<and> active c))"
  proof -
    have step: "(\<exists>c. ch' e = Some c \<and> active c) \<longleftrightarrow> (if e = a then b else (\<exists>c. ch e = Some c \<and> active c))" for e
      by (simp add: ch'_def obj_update_apply c(2) set_active_def)
    show ?thesis
      unfolding child_active_def step using x(2) by (cases b) auto
  qed
  have pa: "active p \<longleftrightarrow> child_active ch (kids p)"
    using m x(1) c(5) by (auto simp: mirrors_except_def)
  have other: "child_active ch' (kids q) = child_active ch (kids q)"
    if "(i', y) \<in> set pm" "y \<noteq> x" "ph y = Some q" for i' y q
  proof -
    have "e \<noteq> a" if "(k, e) \<in> set (kids q)" for k e
      using linkedD_parent [OF l \<open>(i', y) \<in> set pm\<close>] \<open>ph y = Some q\<close> \<open>y \<noteq> x\<close> that c(2,4) by fastforce
    then show ?thesis by (fastforce simp: child_active_def ch'_def obj_update_apply)
  qed
  have ex: "mirrors_except {x} ph pm kids ch'"
    using m other by (fastforce simp: mirrors_except_def)
  let ?f = "active p \<noteq> child_active ch' (kids p)"
  have f: "parent_follows b (active p) (some_active ch' (kids p)) = Inr ?f"
  proof (cases b)
    case True
    then show ?thesis using ca by (simp add: parent_follows_def)
  next
    case False
    then have "child_active ch (kids p)"
      using x(2) c(2,3) by (auto simp: child_active_def)
    then show ?thesis
      using False pa by (simp add: parent_follows_def some_active_linked [OF kp])
  qed
  have "active p \<noteq> b" if ?f
  proof (cases b)
    case False
    then have "child_active ch (kids p)" using x(2) c(2,3) by (auto simp: child_active_def)
    then show ?thesis using pa False by simp
  qed (use ca that in simp)
  moreover have "mirrors_except {} (obj_update x (set_active b) ph) pm kids ch'" if ?f
  proof -
    have cb: "child_active ch' (kids p) = b" using that calculation by blast
    have act: "active (set_active b q) = b" for q :: "'p Entity_scheme" by (simp add: set_active_def)
    show ?thesis
      unfolding mirrors_except_def
    proof (clarify)
      fix i' y q
      assume y: "(i', y) \<in> set pm" "obj_update x (set_active b) ph y = Some q"
      show "active q = child_active ch' (kids q)"
      proof (cases "y = x")
        case True
        then have "q = set_active b p" using y c(5) by (simp add: obj_update_apply)
        then show ?thesis using cb act kids by simp
      next
        case False
        then show ?thesis using ex y by (auto simp: mirrors_except_def obj_update_apply)
      qed
    qed
  qed
  moreover have "mirrors_except {} ph pm kids ch'" if "\<not> ?f"
    using ex that c(5) by (fastforce simp: mirrors_except_def)
  ultimately show ?thesis using l' f by (intro conjI exI [of _ ?f]) auto
qed

section \<open>The three levels\<close>

definition entries_in :: "domain_collection \<Rightarrow> (EntityId \<times> addr) set" where
  "entries_in mm = (\<Union>(d, m) \<in> set mm. set m)"

definition has_parent :: "(addr \<Rightarrow> 'c option) \<Rightarrow> ('c \<Rightarrow> addr option) \<Rightarrow> collection \<Rightarrow> bool" where
  "has_parent h up m \<longleftrightarrow> (\<forall>e \<in> set m. \<exists>c b. h (snd e) = Some c \<and> up c = Some b)"

lemma has_parentD:
  assumes "has_parent h up m" and "(k, a) \<in> set m" and "h a = Some c"
  shows "\<exists>b. up c = Some b"
proof -
  obtain c' b where "h (snd (k, a)) = Some c'" "up c' = Some b"
    using assms(1,2) unfolding has_parent_def by blast
  with assms(3) show ?thesis by simp
qed

lemma has_parent_update:
  assumes "has_parent h up m" and "\<And>c. up (f c) = up c"
  shows "has_parent (obj_update x f h) up m"
  using assms unfolding has_parent_def obj_update_def by (fastforce split: if_splits)

definition phys_links :: "'q database \<Rightarrow> bool" where
  "phys_links db \<longleftrightarrow>
     linked (host_objs db) (hosts db) h_users (user_objs db) (set (users db)) u_host \<and>
     linked (user_objs db) (users db) u_processes (process_objs db) (set (processes db)) p_user \<and>
     linked (process_objs db) (processes db) p_participants (participant_objs db)
       (entries_in (participants db)) dp_process \<and>
     has_parent (user_objs db) u_host (users db) \<and> has_parent (process_objs db) p_user (processes db)"

definition phys_activity :: "'q database \<Rightarrow> bool" where
  "phys_activity db \<longleftrightarrow>
     mirrors_except {} (host_objs db) (hosts db) h_users (user_objs db) \<and>
     mirrors_except {} (user_objs db) (users db) u_processes (process_objs db) \<and>
     mirrors_except {} (process_objs db) (processes db) p_participants (participant_objs db)"

definition phys_owned :: "'q database \<Rightarrow> bool" where
  "phys_owned db \<longleftrightarrow>
     owned (host_objs db) e_id (hosts db) \<and> owned (user_objs db) e_id (users db) \<and>
     owned (process_objs db) e_id (processes db) \<and>
     owned_in (participant_objs db) e_id (participants db) \<and> distinct (keys_in (participants db))"

definition phys_inv :: "'q database \<Rightarrow> bool" where
  "phys_inv db \<longleftrightarrow> phys_owned db \<and> phys_links db \<and> phys_activity db"

lemma set_active_simps [simp]:
  "e_id (set_active b x) = e_id x" "active (set_active b x) = b" "h_users (set_active b h) = h_users h"
  "u_host (set_active b u) = u_host u" "u_processes (set_active b u) = u_processes u"
  "p_user (set_active b p) = p_user p" "p_participants (set_active b p) = p_participants p"
  "dp_process (set_active b dp) = dp_process dp"
  by (simp_all add: set_active_def)

lemma emit_simps [simp]:
  "host_objs (emit ev db) = host_objs db" "user_objs (emit ev db) = user_objs db"
  "process_objs (emit ev db) = process_objs db" "participant_objs (emit ev db) = participant_objs db"
  "hosts (emit ev db) = hosts db" "users (emit ev db) = users db"
  "processes (emit ev db) = processes db" "participants (emit ev db) = participants db"
  by (simp_all add: emit_def)

lemma phys_inv_emit [simp]: "phys_inv (emit ev db) = phys_inv db"
  by (simp add: phys_inv_def phys_owned_def phys_links_def phys_activity_def)

lemma find_id_SomeD: "find_id i h m = Some a \<Longrightarrow> \<exists>k x. (k, a) \<in> set m \<and> h a = Some x \<and> e_id x = i"
  by (auto simp: find_id_def find_addr_def find_Some_iff live_set dest!: nth_mem
      intro: live_set [THEN iffD1])


lemma find_id_owned:
  assumes "owned h e_id m" and "(k, a) \<in> set m" and "h a = Some x"
  shows "find_id (e_id x) h m = Some a"
proof (cases "find_id (e_id x) h m")
  case None
  then have "\<not> (\<exists>y \<in> set (live h m). (\<lambda>(k, b, y). e_id y = e_id x) y)"
    by (auto simp: find_id_def find_addr_def find_None_iff)
  then show ?thesis using assms(2,3) live_set [of k a x h m] by fastforce
next
  case (Some b)
  from find_id_SomeD [OF this] obtain k' y where y: "(k', b) \<in> set m" "h b = Some y" "e_id y = e_id x"
    by blast
  have "e_id y = k'" "e_id x = k"
    using owned_find [OF assms(1) y(1)] owned_find [OF assms(1,2)] y(2) assms(3) by auto
  with y(3) have "k' = k" by simp
  with y(1) assms(2) om_in_set_iff [OF owned_wf [OF assms(1)]] have "b = a" by simp
  with Some show ?thesis by simp
qed

text \<open>Changing the activity of an object keeps ownership and references.\<close>

lemma phys_links_set_active:
  assumes "phys_links db"
  shows "phys_links (db\<lparr>host_objs := obj_update a (set_active b) (host_objs db)\<rparr>)"
    and "phys_links (db\<lparr>user_objs := obj_update a (set_active b) (user_objs db)\<rparr>)"
    and "phys_links (db\<lparr>process_objs := obj_update a (set_active b) (process_objs db)\<rparr>)"
    and "phys_links (db\<lparr>participant_objs := obj_update a (set_active b) (participant_objs db)\<rparr>)"
  using assms
  by (simp_all add: phys_links_def linked_update_parent linked_update_child has_parent_update)

lemma phys_owned_set_active:
  assumes "phys_owned db"
  shows "phys_owned (db\<lparr>host_objs := obj_update a (set_active b) (host_objs db)\<rparr>)"
    and "phys_owned (db\<lparr>user_objs := obj_update a (set_active b) (user_objs db)\<rparr>)"
    and "phys_owned (db\<lparr>process_objs := obj_update a (set_active b) (process_objs db)\<rparr>)"
    and "phys_owned (db\<lparr>participant_objs := obj_update a (set_active b) (participant_objs db)\<rparr>)"
  using assms by (simp_all add: phys_owned_def owned_update_same_id owned_in_update_same_id)

lemma phys_owned_emit [simp]: "phys_owned (emit ev db) = phys_owned db"
  by (simp add: phys_owned_def)

lemma phys_links_emit [simp]: "phys_links (emit ev db) = phys_links db"
  by (simp add: phys_links_def)

lemma status_host_follow:
  assumes "phys_owned db" and "(k, a) \<in> set (hosts db)" and "host_objs db a = Some h" and "active h \<noteq> b"
  shows "status_host (e_id h) b db = (Inr (), emit (PhysicalDiscovery (e_id h) HOST (discovery_of b))
    (db\<lparr>host_objs := obj_update a (set_active b) (host_objs db)\<rparr>))"
proof -
  have "find_id (e_id h) (host_objs db) (hosts db) = Some a"
    using assms by (intro find_id_owned) (simp_all add: phys_owned_def)
  then show ?thesis using assms(3,4) by (simp add: status_host_def)
qed

lemma status_user_follow:
  assumes ow: "phys_owned db" and li: "phys_links db"
    and mi: "mirrors_except {} (host_objs db) (hosts db) h_users (user_objs db)"
    and u: "(k, a) \<in> set (users db)" "user_objs db a = Some u" "active u \<noteq> b"
  shows "\<exists>db'. status_user (e_id u) b db = (Inr (), db') \<and> phys_owned db' \<and> phys_links db' \<and>
    mirrors_except {} (host_objs db') (hosts db') h_users (user_objs db') \<and>
    user_objs db' = obj_update a (set_active b) (user_objs db) \<and>
    process_objs db' = process_objs db \<and> participant_objs db' = participant_objs db \<and>
    users db' = users db \<and> processes db' = processes db \<and> participants db' = participants db"
proof -
  let ?db1 = "db\<lparr>user_objs := obj_update a (set_active b) (user_objs db)\<rparr>"
  have f: "find_id (e_id u) (user_objs db) (users db) = Some a"
    using ow u by (intro find_id_owned) (simp_all add: phys_owned_def)
  have l: "linked (host_objs db) (hosts db) h_users (user_objs db) (set (users db)) u_host"
    using li by (simp add: phys_links_def)
  obtain x where x: "u_host u = Some x" using li has_parentD [of "user_objs db" u_host "users db" k a u] u by (auto simp: phys_links_def)
  obtain i h where h: "(i, x) \<in> set (hosts db)" "host_objs db x = Some h"
    using linkedD_child [OF l u(1,2) x] by blast
  from child_switch [OF l mi u x h(2)] obtain c where
    c: "parent_follows b (active h) (some_active (user_objs ?db1) (h_users h)) = Inr c"
      "if c then active h \<noteq> b \<and> mirrors_except {} (obj_update x (set_active b) (host_objs db)) (hosts db)
         h_users (user_objs ?db1)
       else mirrors_except {} (host_objs db) (hosts db) h_users (user_objs ?db1)"
    by auto
  have g: "fragile_get (host_objs ?db1) (u_host u) = Inr h" using x h by (simp add: fragile_get_def)
  have run: "status_user (e_id u) b db = act_bind (if c then status_host (e_id h) b else act_return ())
      (\<lambda>_ db. (Inr (), emit (PhysicalDiscovery (e_id u) USER (discovery_of b)) db)) ?db1"
    using f u g c(1) by (simp add: status_user_def Let_def)
  show ?thesis
  proof (cases c)
    case True
    have "status_host (e_id h) b ?db1 = (Inr (), emit (PhysicalDiscovery (e_id h) HOST (discovery_of b))
        (?db1\<lparr>host_objs := obj_update x (set_active b) (host_objs ?db1)\<rparr>))"
      using phys_owned_set_active(2) [OF ow] h c(2) True by (intro status_host_follow) simp_all
    then show ?thesis
      using True c(2) phys_owned_set_active(1) [OF phys_owned_set_active(2) [OF ow]]
        phys_links_set_active(1) [OF phys_links_set_active(2) [OF li]]
      by (simp add: run act_bind_def)
  next
    case False
    then show ?thesis
      using c(2) phys_owned_set_active(2) [OF ow] phys_links_set_active(2) [OF li]
      by (simp add: run act_bind_def act_return_def)
  qed
qed

lemma status_process_follow:
  assumes ow: "phys_owned db" and li: "phys_links db"
    and mh: "mirrors_except {} (host_objs db) (hosts db) h_users (user_objs db)"
    and mi: "mirrors_except {} (user_objs db) (users db) u_processes (process_objs db)"
    and p: "(k, a) \<in> set (processes db)" "process_objs db a = Some p" "active p \<noteq> b"
  shows "\<exists>db'. status_process (e_id p) b db = (Inr (), db') \<and> phys_owned db' \<and> phys_links db' \<and>
    mirrors_except {} (host_objs db') (hosts db') h_users (user_objs db') \<and>
    mirrors_except {} (user_objs db') (users db') u_processes (process_objs db') \<and>
    process_objs db' = obj_update a (set_active b) (process_objs db) \<and>
    participant_objs db' = participant_objs db \<and>
    processes db' = processes db \<and> participants db' = participants db"
proof -
  let ?db1 = "db\<lparr>process_objs := obj_update a (set_active b) (process_objs db)\<rparr>"
  have f: "find_id (e_id p) (process_objs db) (processes db) = Some a"
    using ow p by (intro find_id_owned) (simp_all add: phys_owned_def)
  have l: "linked (user_objs db) (users db) u_processes (process_objs db) (set (processes db)) p_user"
    using li by (simp add: phys_links_def)
  obtain x where x: "p_user p = Some x" using li has_parentD [of "process_objs db" p_user "processes db" k a p] p by (auto simp: phys_links_def)
  obtain i u where u: "(i, x) \<in> set (users db)" "user_objs db x = Some u"
    using linkedD_child [OF l p(1,2) x] by blast
  from child_switch [OF l mi p x u(2)] obtain c where
    c: "parent_follows b (active u) (some_active (process_objs ?db1) (u_processes u)) = Inr c"
      "if c then active u \<noteq> b \<and> mirrors_except {} (obj_update x (set_active b) (user_objs db)) (users db)
         u_processes (process_objs ?db1)
       else mirrors_except {} (user_objs db) (users db) u_processes (process_objs ?db1)"
    by auto
  have g: "fragile_get (user_objs ?db1) (p_user p) = Inr u" using x u by (simp add: fragile_get_def)
  have run: "status_process (e_id p) b db = act_bind (if c then status_user (e_id u) b else act_return ())
      (\<lambda>_ db. (Inr (), emit (PhysicalDiscovery (e_id p) PROCESS (discovery_of b)) db)) ?db1"
    using f p g c(1) by (simp add: status_process_def Let_def)
  have ow1: "phys_owned ?db1" and li1: "phys_links ?db1"
    using phys_owned_set_active(3) [OF ow] phys_links_set_active(3) [OF li] by blast+
  show ?thesis
  proof (cases c)
    case True
    have "\<exists>db'. status_user (e_id u) b ?db1 = (Inr (), db') \<and> phys_owned db' \<and> phys_links db' \<and>
      mirrors_except {} (host_objs db') (hosts db') h_users (user_objs db') \<and>
      user_objs db' = obj_update x (set_active b) (user_objs ?db1) \<and>
      process_objs db' = process_objs ?db1 \<and> participant_objs db' = participant_objs ?db1 \<and>
      users db' = users ?db1 \<and> processes db' = processes ?db1 \<and> participants db' = participants ?db1"
      using mh u c(2) True by (intro status_user_follow [OF ow1 li1]) simp_all
    then show ?thesis using True c(2) by (auto simp: run act_bind_def)
  next
    case False
    then show ?thesis using c(2) mh ow1 li1 by (simp add: run act_bind_def act_return_def)
  qed
qed


section \<open>Participants\<close>

text \<open>Switching endpoints and topics leaves the physical tree alone.\<close>

definition same_physical :: "'q database \<Rightarrow> 'q database \<Rightarrow> bool" where
  "same_physical db db' \<longleftrightarrow>
     host_objs db' = host_objs db \<and> user_objs db' = user_objs db \<and>
     process_objs db' = process_objs db \<and> participant_objs db' = participant_objs db \<and>
     hosts db' = hosts db \<and> users db' = users db \<and> processes db' = processes db \<and>
     participants db' = participants db"

lemma same_physical_inv: "same_physical db db' \<Longrightarrow> phys_inv db' = phys_inv db"
  by (simp add: same_physical_def phys_inv_def phys_owned_def phys_links_def phys_activity_def)

lemma same_physical_refl [simp]: "same_physical db db"
  by (simp add: same_physical_def)

lemma same_physical_trans: "same_physical db db1 \<Longrightarrow> same_physical db1 db2 \<Longrightarrow> same_physical db db2"
  by (simp add: same_physical_def)

lemma status_topic_physical: "same_physical db (snd (status_topic i b d db))"
  by (simp add: status_topic_def same_physical_def split: option.split)

lemma ec_update_physical:
  "same_physical db (ec_update reader_class a f db)" "same_physical db (ec_update writer_class a g db)"
  by (simp_all add: ec_update_def reader_class_def writer_class_def same_physical_def)

lemma status_endpoint_physical:
  assumes "\<And>a f db. same_physical db (ec_update C a f db)"
  shows "same_physical db (snd (status_endpoint C tu i b db))"
  using assms same_physical_trans [OF assms status_topic_physical]
  by (auto simp: status_endpoint_def Let_def split: option.split sum.split bool.split)

lemma status_all_physical:
  assumes "\<And>i db. same_physical db (snd (f i b db))"
  shows "same_physical db (snd (status_all f b is db))"
proof (induction "is" arbitrary: db)
  case Nil
  then show ?case by simp
next
  case (Cons i "is")
  then show ?case
    using assms [of db i] same_physical_trans by (fastforce simp: act_bind_def split: sum.split prod.split)
qed

lemma status_datawriter_physical: "same_physical db (snd (status_datawriter i b db))"
  by (simp add: status_datawriter_def status_endpoint_physical ec_update_physical)

lemma status_datareader_physical: "same_physical db (snd (status_datareader i b db))"
  by (simp add: status_datareader_def status_endpoint_physical ec_update_physical)

lemma act_bind_physical:
  assumes "\<And>d. same_physical d (snd (m d))" and "\<And>x d. same_physical d (snd (f x d))"
  shows "same_physical db (snd (act_bind m f db))"
proof -
  obtain r db1 where m: "m db = (r, db1)" by fastforce
  then have "same_physical db db1" using assms(1) [of db] by simp
  then show ?thesis
    using m assms(2) [of db1] same_physical_trans [of db db1]
    by (cases r) (auto simp: act_bind_def)
qed

lemma find_id_in_SomeD:
  "find_id_in i h mm = Some a \<Longrightarrow> \<exists>k x. (k, a) \<in> entries_in mm \<and> h a = Some x \<and> e_id x = i"
proof (induction i h mm rule: find_id_in.induct)
  case (1 i h)
  then show ?case by simp
next
  case (2 i h d m mm)
  then show ?case
    by (cases "find_id_in i h mm") (fastforce simp: entries_in_def dest: find_id_SomeD)+
qed

lemma in_domain_of_physical:
  "(\<And>d. same_physical d (snd (m d))) \<Longrightarrow> same_physical db (snd (in_domain_of p m db))"
  by (simp add: in_domain_of_def split: sum.split)

text \<open>The participants of the database whose domain is still there.\<close>

definition participants_in_domains :: "'q database \<Rightarrow> bool" where
  "participants_in_domains db \<longleftrightarrow>
     (\<forall>(i, a) \<in> entries_in (participants db). \<forall>p. participant_objs db a = Some p \<longrightarrow>
        \<not> fragile_expired (domain_objs db) (dp_domain p))"

lemma participants_in_domainsD:
  assumes "participants_in_domains db" and "(i, a) \<in> entries_in (participants db)"
    and "participant_objs db a = Some p"
  shows "\<exists>d. fragile_get (domain_objs db) (dp_domain p) = Inr d"
proof -
  have "\<not> fragile_expired (domain_objs db) (dp_domain p)"
    using assms unfolding participants_in_domains_def by blast
  then show ?thesis
    by (auto simp: fragile_expired_def fragile_lock_def fragile_get_def split: option.splits)
qed

lemma status_participant_inv:
  assumes inv: "phys_inv db" and dom: "participants_in_domains db"
    and run: "status_participant i b db = (r, db')"
  shows "phys_inv db' \<and> (b \<longrightarrow> r = Inr ()) \<and>
    (\<forall>a. find_id_in i (participant_objs db) (participants db) = Some a \<longrightarrow>
       active (the (participant_objs db' a)) = b)"
proof -
  have ow: "phys_owned db" and li: "phys_links db"
    and mh: "mirrors_except {} (host_objs db) (hosts db) h_users (user_objs db)"
    and mu: "mirrors_except {} (user_objs db) (users db) u_processes (process_objs db)"
    and mp: "mirrors_except {} (process_objs db) (processes db) p_participants (participant_objs db)"
    using inv by (simp_all add: phys_inv_def phys_activity_def)
  show ?thesis
  proof (cases "\<exists>a. find_id_in i (participant_objs db) (participants db) = Some a \<and>
      active (the (participant_objs db a)) \<noteq> b")
    case False
    then have "r = Inr ()" "db' = db"
      using run by (auto simp: status_participant_def Let_def split: option.splits)
    then show ?thesis using inv False by auto
  next
    case True
    then obtain a where a: "find_id_in i (participant_objs db) (participants db) = Some a"
      "active (the (participant_objs db a)) \<noteq> b"
      by blast
    obtain k p where p: "(k, a) \<in> entries_in (participants db)" "participant_objs db a = Some p"
      using find_id_in_SomeD [OF a(1)] by blast
    have ap: "active p \<noteq> b" using a(2) p(2) by simp
    let ?db1 = "db\<lparr>participant_objs := obj_update a (set_active b) (participant_objs db)\<rparr>"
    let ?first = "\<lambda>db. case fragile_get (process_objs db) (dp_process p) of
        Inl e \<Rightarrow> (Inr (), db)
      | Inr pr \<Rightarrow>
          (case parent_follows b (active pr) (some_active (participant_objs db) (p_participants pr)) of
             Inl e \<Rightarrow> (Inl e, db)
           | Inr c \<Rightarrow> if c then in_domain_of p (status_process (e_id pr) b) db else (Inr (), db))"
    obtain dm where dm: "fragile_get (domain_objs db) (dp_domain p) = Inr dm"
      using participants_in_domainsD [OF dom p] by blast
    then have within: "in_domain_of p m ?db1 = m ?db1" for m by (simp add: in_domain_of_def)
    have ow1: "phys_owned ?db1" and li1: "phys_links ?db1"
      using phys_owned_set_active(4) [OF ow] phys_links_set_active(4) [OF li] by blast+
    have l: "linked (process_objs db) (processes db) p_participants (participant_objs db)
        (entries_in (participants db)) dp_process"
      using li by (simp add: phys_links_def)
    have "\<exists>db2. ?first ?db1 = (Inr (), db2) \<and> phys_inv db2 \<and>
      participant_objs db2 = participant_objs ?db1"
    proof (cases "\<exists>x pr. dp_process p = Some x \<and> process_objs db x = Some pr")
      case False
      then have "\<And>x. dp_process p = Some x \<Longrightarrow> False"
        using linkedD_child [OF l p] by blast
      then have none: "dp_process p = None" by (cases "dp_process p") auto
      have "child_active (obj_update a (set_active b) (participant_objs db)) (p_participants q) =
          child_active (participant_objs db) (p_participants q)"
        if "(j, y) \<in> set (processes db)" "process_objs db y = Some q" for j y q
      proof -
        have "e \<noteq> a" if "(k, e) \<in> set (p_participants q)" for k e
          using linkedD_parent [OF l \<open>(j, y) \<in> set (processes db)\<close>] \<open>process_objs db y = Some q\<close> that
            p(2) none by fastforce
        then show ?thesis by (fastforce simp: child_active_def obj_update_apply)
      qed
      then have "mirrors_except {} (process_objs db) (processes db) p_participants (participant_objs ?db1)"
        using mp by (fastforce simp: mirrors_except_def)
      then have "phys_inv ?db1"
        using ow1 li1 mh mu by (simp add: phys_inv_def phys_activity_def)
      then show ?thesis using none by (simp add: fragile_get_def)
    next
      case True
      then obtain x pr where pr: "dp_process p = Some x" "process_objs db x = Some pr" by blast
      obtain j where j: "(j, x) \<in> set (processes db)" using linkedD_child [OF l p pr(1)] by blast
      from child_switch [OF l mp p ap pr] obtain c where
        c: "parent_follows b (active pr) (some_active (participant_objs ?db1) (p_participants pr)) = Inr c"
          "if c then active pr \<noteq> b \<and> mirrors_except {} (obj_update x (set_active b) (process_objs db))
             (processes db) p_participants (participant_objs ?db1)
           else mirrors_except {} (process_objs db) (processes db) p_participants (participant_objs ?db1)"
        by auto
      have g: "fragile_get (process_objs ?db1) (dp_process p) = Inr pr"
        using pr by (simp add: fragile_get_def)
      show ?thesis
      proof (cases c)
        case True
        have "\<exists>db'. status_process (e_id pr) b ?db1 = (Inr (), db') \<and> phys_owned db' \<and> phys_links db' \<and>
          mirrors_except {} (host_objs db') (hosts db') h_users (user_objs db') \<and>
          mirrors_except {} (user_objs db') (users db') u_processes (process_objs db') \<and>
          process_objs db' = obj_update x (set_active b) (process_objs ?db1) \<and>
          participant_objs db' = participant_objs ?db1 \<and>
          processes db' = processes ?db1 \<and> participants db' = participants ?db1"
          using mh mu j pr c(2) True by (intro status_process_follow [OF ow1 li1]) simp_all
        then show ?thesis using True c g by (auto simp: phys_inv_def phys_activity_def within)
      next
        case False
        then have "phys_inv ?db1" using c(2) ow1 li1 mh mu by (simp add: phys_inv_def phys_activity_def)
        then show ?thesis using False c g by simp
      qed
    qed
    then obtain db2 where first: "?first ?db1 = (Inr (), db2)" "phys_inv db2"
      "participant_objs db2 = participant_objs ?db1" by blast
    let ?rest = "if b then act_return () else
      act_bind (status_all (\<lambda>j b. in_domain_of p (status_datawriter j b)) b (om_keys (dp_data_writers p)))
        (\<lambda>_. status_all (\<lambda>j b. in_domain_of p (status_datareader j b)) b (om_keys (dp_data_readers p)))"
    have "status_participant i b db = act_bind ?first (\<lambda>_. ?rest) ?db1"
      using a p ap by (simp add: status_participant_def Let_def)
    then have "(r, db') = ?rest db2" using run first(1) by (simp add: act_bind_def)
    moreover have "same_physical db2 (snd (?rest db2))"
      by (cases b) (simp_all add: act_return_def act_bind_physical status_all_physical
          in_domain_of_physical status_datawriter_physical status_datareader_physical)
    ultimately have "same_physical db2 db'" by (metis snd_conv)
    then have "phys_inv db'" using same_physical_inv first(2) by blast
    moreover have "r = Inr ()" if b
      using \<open>(r, db') = ?rest db2\<close> that by (simp add: act_return_def)
    moreover have "active (the (participant_objs db' a)) = b"
      using \<open>same_physical db2 db'\<close> first(3) p(2)
      by (simp add: same_physical_def obj_update_apply set_active_def)
    ultimately show ?thesis using a(1) by simp
  qed
qed


text \<open>
  C2: switching a participant, an endpoint, a topic or a domain on or off (every kind but a host, a
  user or a process, which the code switches only on behalf of a participant) keeps the physical
  tree in order: references between parents and children agree in both directions, and every
  process, user and host is active exactly when one of its children is. A participant found gets
  the status asked for; switching one on never ends the program. For a participant this needs the
  domains of the participants to be there: the code follows the reference to the domain.
\<close>

theorem status_change_keeps_tree:
  assumes "phys_inv db" and "k \<notin> {HOST, USER, PROCESS}"
    and "k = PARTICIPANT \<longrightarrow> participants_in_domains db"
    and "change_entity_status_of_kind i b k d db = (r, db')"
  shows "phys_inv db' \<and> (k = PARTICIPANT \<longrightarrow> (b \<longrightarrow> r = Inr ()) \<and>
    (\<forall>a. find_id_in i (participant_objs db) (participants db) = Some a \<longrightarrow>
       active (the (participant_objs db' a)) = b))"
proof -
  have frame: "phys_inv db'" if "same_physical db (snd (change_entity_status_of_kind i b k d db))"
    using that same_physical_inv [of db db'] assms(1,4) by simp
  have dom: "same_physical db (snd (status_domain i b db))"
    by (simp add: status_domain_def same_physical_def split: option.split)
  show ?thesis
  proof (cases k)
    case PARTICIPANT
    then show ?thesis using status_participant_inv [OF assms(1), of i b r db'] assms(3,4) by simp
  next
    case LOCATOR
    then show ?thesis using frame by (simp add: act_return_def)
  next
    case INVALID_ENTITY
    then show ?thesis using frame by (simp add: act_return_def)
  qed (use assms frame dom status_topic_physical [of db i b d] status_datawriter_physical [of db i b]
      status_datareader_physical [of db i b] in auto)
qed

section \<open>Linking\<close>

lemma find_participant_SomeD:
  "find_participant i mm = Some (d, a) \<Longrightarrow> (i, a) \<in> entries_in mm"
  by (induction i mm rule: find_participant.induct)
    (auto simp: entries_in_def dest: map_of_SomeD split: option.splits)

lemma entries_in_unique:
  assumes "distinct (keys_in mm)" and "(i, a) \<in> entries_in mm" and "(i, a') \<in> entries_in mm"
  shows "a = a'"
proof -
  have k: "keys_in mm = map fst (concat (map snd mm))"
    by (simp add: keys_in_def map_concat comp_def case_prod_unfold)
  have e: "entries_in mm = set (concat (map snd mm))" by (auto simp: entries_in_def)
  show ?thesis using assms unfolding k e by (rule eq_key_imp_eq_value)
qed

lemma link_level:
  assumes l: "linked ph pm kids ch cm up" and c: "ch a = Some c"
    and px: "(i, x) \<in> set pm" "ph x = Some p"
    and uniq: "\<And>e. (j, e) \<in> cm \<Longrightarrow> e = a" and uniq2: "\<And>k. (k, a) \<in> cm \<Longrightarrow> k = j"
    and notin: "\<And>i' y q k. (i', y) \<in> set pm \<Longrightarrow> ph y = Some q \<Longrightarrow> (k, a) \<notin> set (kids q)"
    and up: "up (f c) = Some x" and kids: "\<And>p. kids (g p) = om_put j a (kids p)"
  shows "linked (obj_update x g ph) pm kids (obj_update a f ch) (insert (j, a) cm) up"
proof -
  obtain p' where p': "ph x = Some p'" "om_wf (kids p')" using linkedD_parent [OF l px(1)] by blast
  then have wf: "om_wf (kids p)" using px(2) by simp
  have old: "e \<noteq> j" if "(e, b) \<in> set (kids p)" for e b
    using linkedD_parent [OF l px(1)] px(2) that uniq notin [OF px] by fastforce
  have set: "set (om_put j a (kids p)) = insert (j, a) (set (kids p))"
    using om_put_set_fresh [OF wf, of j a] old by fastforce
  show ?thesis
    unfolding linked_def
  proof (intro conjI ballI; clarify)
    fix i' y
    assume y: "(i', y) \<in> set pm"
    obtain q where q: "ph y = Some q" "om_wf (kids q)"
      "\<forall>(j, a) \<in> set (kids q). (j, a) \<in> cm \<and> (\<exists>c. ch a = Some c \<and> up c = Some y)"
      using linkedD_parent [OF l y] by blast
    have q': "\<forall>(k, e) \<in> set (kids q). (k, e) \<in> insert (j, a) cm \<and>
        (\<exists>c. obj_update a f ch e = Some c \<and> up c = Some y)"
      using q(3) notin [OF y q(1)] by (fastforce simp: obj_update_apply)
    show "\<exists>p. obj_update x g ph y = Some p \<and> om_wf (kids p) \<and>
      (\<forall>(k, e) \<in> set (kids p). (k, e) \<in> insert (j, a) cm \<and>
         (\<exists>c. obj_update a f ch e = Some c \<and> up c = Some y))"
    proof (cases "y = x")
      case True
      then have "q = p" using q(1) px(2) by simp
      then show ?thesis
        using True q' px(2) set om_put_wf [OF wf] c kids up by (auto simp: obj_update_apply)
    next
      case False
      then show ?thesis using q(1,2) q' by (simp add: obj_update_apply)
    qed
  next
    fix k e
    assume ke: "(k, e) \<in> insert (j, a) cm"
    show "\<exists>c. obj_update a f ch e = Some c \<and> (\<forall>b. up c = Some b \<longrightarrow>
      (\<exists>i p. (i, b) \<in> set pm \<and> obj_update x g ph b = Some p \<and> (k, e) \<in> set (kids p)))"
    proof (cases "e = a")
      case True
      then have "k = j" using uniq2 ke by blast
      then show ?thesis
        using True px set kids up c by (auto simp: obj_update_apply intro!: exI [of _ i])
    next
      case False
      then have e: "(k, e) \<in> cm" using ke by simp
      obtain c' where c': "ch e = Some c'"
        "\<forall>b. up c' = Some b \<longrightarrow> (\<exists>i p. (i, b) \<in> set pm \<and> ph b = Some p \<and> (k, e) \<in> set (kids p))"
        using l e by (fastforce simp: linked_def)
      have moved: "\<exists>i p. (i, b) \<in> set pm \<and> obj_update x g ph b = Some p \<and> (k, e) \<in> set (kids p)"
        if b: "(i', b) \<in> set pm" "ph b = Some q" "(k, e) \<in> set (kids q)" for i' b q
        using b px(2) set kids by (cases "b = x") (auto simp: obj_update_apply intro!: exI [of _ i'])
      have "obj_update a f ch e = Some c'" using c'(1) False by (simp add: obj_update_apply)
      moreover have "\<forall>b. up c' = Some b \<longrightarrow>
          (\<exists>i p. (i, b) \<in> set pm \<and> obj_update x g ph b = Some p \<and> (k, e) \<in> set (kids p))"
        using c'(2) moved by blast
      ultimately show ?thesis by blast
    qed
  qed
qed

lemma entries_in_id:
  "owned_in h idf mm \<Longrightarrow> (k, a) \<in> entries_in mm \<Longrightarrow> h a = Some x \<Longrightarrow> idf x = k"
  by (fastforce simp: owned_in_def owned_def entries_in_def)

lemma link_inv:
  fixes db :: "'q database"
  assumes inv: "phys_inv db" and run: "link_participant_with_process_nts qi ci db = (r, db')"
  shows "phys_inv db' \<and> (case r of
      Inl e \<Rightarrow> db' = db
    | Inr _ \<Rightarrow> \<exists>d a c p. find_participant qi (participants db) = Some (d, a) \<and>
        om_find (processes db) ci = Some c \<and> participant_objs db' a = Some p \<and> dp_process p = Some c)"
proof -
  have ow: "phys_owned db" and li: "phys_links db"
    and mh: "mirrors_except {} (host_objs db) (hosts db) h_users (user_objs db)"
    and mu: "mirrors_except {} (user_objs db) (users db) u_processes (process_objs db)"
    and mp: "mirrors_except {} (process_objs db) (processes db) p_participants (participant_objs db)"
    using inv by (simp_all add: phys_inv_def phys_activity_def)
  have l: "linked (process_objs db) (processes db) p_participants (participant_objs db)
      (entries_in (participants db)) dp_process"
    using li by (simp add: phys_links_def)
  have ol: "owned (process_objs db) e_id (processes db)"
    "owned_in (participant_objs db) e_id (participants db)" "distinct (keys_in (participants db))"
    using ow by (simp_all add: phys_owned_def)
  show ?thesis
  proof (cases "\<exists>d a p c pr. find_participant qi (participants db) = Some (d, a) \<and>
      participant_objs db a = Some p \<and> fragile_expired (process_objs db) (dp_process p) \<and>
      om_find (processes db) ci = Some c \<and> process_objs db c = Some pr")
    case False
    then have "db' = db" "\<exists>e. r = Inl e"
      using run by (auto simp: link_participant_with_process_nts_def Let_def
          split: option.splits prod.splits if_splits)
    then show ?thesis using inv by auto
  next
    case True
    then obtain d a p c pr where w: "find_participant qi (participants db) = Some (d, a)"
      "participant_objs db a = Some p" "fragile_expired (process_objs db) (dp_process p)"
      "om_find (processes db) ci = Some c" "process_objs db c = Some pr"
      by blast
    have pa: "(qi, a) \<in> entries_in (participants db)" using find_participant_SomeD [OF w(1)] .
    have none: "dp_process p = None"
    proof (cases "dp_process p")
      case (Some b)
      then have "process_objs db b \<noteq> None" using linkedD_child [OF l pa w(2)] by blast
      then show ?thesis using w(3) Some by (auto simp: fragile_expired_def fragile_lock_def)
    qed simp
    have cp: "(ci, c) \<in> set (processes db)" using w(4) by (rule map_of_SomeD)
    define f where "f = (\<lambda>p :: 'q DomainParticipant. p\<lparr>dp_process := Some c\<rparr>)"
    define g where "g = (\<lambda>pr :: Process. pr\<lparr>p_participants := om_put qi a (p_participants pr)\<rparr>)"
    define db1 where "db1 = db\<lparr>participant_objs := obj_update a f (participant_objs db),
      process_objs := obj_update c g (process_objs db)\<rparr>"
    have "linked (obj_update c g (process_objs db)) (processes db) p_participants
        (obj_update a f (participant_objs db)) (entries_in (participants db)) dp_process"
    proof -
      have "(k, a) \<notin> set (p_participants q)"
        if "(i', y) \<in> set (processes db)" "process_objs db y = Some q" for i' y q k
        using linkedD_parent [OF l that(1)] that(2) w(2) none by fastforce
      note notin = this
      have "linked (obj_update c g (process_objs db)) (processes db) p_participants
          (obj_update a f (participant_objs db)) (insert (qi, a) (entries_in (participants db))) dp_process"
      proof (rule link_level [OF l w(2) cp w(5)])
        show "e = a" if "(qi, e) \<in> entries_in (participants db)" for e
          using entries_in_unique [OF ol(3) that pa] .
        show "k = qi" if "(k, a) \<in> entries_in (participants db)" for k
          using entries_in_id [OF ol(2) that w(2)] entries_in_id [OF ol(2) pa w(2)] by simp
        show "(k, a) \<notin> set (p_participants q)"
          if "(i', y) \<in> set (processes db)" "process_objs db y = Some q" for i' y q k
          using notin that by blast
      qed (simp_all add: f_def g_def)
      then show ?thesis using pa by (simp add: insert_absorb)
    qed
    then have l1: "linked (process_objs db1) (processes db1) p_participants (participant_objs db1)
        (entries_in (participants db1)) dp_process"
      by (simp add: db1_def)
    have li1: "phys_links db1"
      using li l1 by (simp add: phys_links_def db1_def linked_update_child has_parent_update g_def)
    have ow1: "phys_owned db1"
      using ow by (simp add: phys_owned_def db1_def owned_update_same_id owned_in_update_same_id f_def g_def)
    have mu1: "mirrors_except {} (user_objs db1) (users db1) u_processes (process_objs db1)"
      using mu by (simp add: db1_def mirrors_update_child g_def)
    have wf: "om_wf (p_participants pr)" using linkedD_parent [OF l cp] w(5) by auto
    have kid: "child_active (participant_objs db1) m = child_active (participant_objs db) m" for m
      by (simp add: db1_def child_active_update f_def)
    have new: "(qi, e) \<notin> set (p_participants pr)" for e
    proof
      assume e: "(qi, e) \<in> set (p_participants pr)"
      then have "(qi, e) \<in> entries_in (participants db)" "\<exists>q. participant_objs db e = Some q \<and> dp_process q = Some c"
        using linkedD_parent [OF l cp] w(5) by auto
      then show False using entries_in_unique [OF ol(3) pa] w(2) none by fastforce
    qed
    have "set (om_put qi a (p_participants pr)) = insert (qi, a) (set (p_participants pr))"
      using om_put_set_fresh [OF wf, of qi a] new by force
    then have ca: "child_active (participant_objs db1) (p_participants (g pr)) \<longleftrightarrow>
        active p \<or> child_active (participant_objs db) (p_participants pr)"
      using w(2) unfolding kid by (auto simp: child_active_def g_def)
    have apr: "active pr \<longleftrightarrow> child_active (participant_objs db) (p_participants pr)"
      using mp cp w(5) by (auto simp: mirrors_except_def)
    have ex: "mirrors_except {c} (process_objs db1) (processes db1) p_participants (participant_objs db1)"
      using mp kid by (auto simp: mirrors_except_def db1_def obj_update_apply)
    have pc: "process_objs db1 c = Some (g pr)" using w(5) by (simp add: db1_def obj_update_apply)
    let ?rest = "if active p \<and> \<not> active pr then status_process (e_id pr) True db1 else (Inr (), db1)"
    have rest: "\<exists>db2. ?rest = (Inr (), db2) \<and> phys_inv db2 \<and> participant_objs db2 = participant_objs db1"
    proof (cases "active p \<and> \<not> active pr")
      case True
      have "\<exists>db2. status_process (e_id (g pr)) True db1 = (Inr (), db2) \<and> phys_owned db2 \<and> phys_links db2 \<and>
        mirrors_except {} (host_objs db2) (hosts db2) h_users (user_objs db2) \<and>
        mirrors_except {} (user_objs db2) (users db2) u_processes (process_objs db2) \<and>
        process_objs db2 = obj_update c (set_active True) (process_objs db1) \<and>
        participant_objs db2 = participant_objs db1 \<and>
        processes db2 = processes db1 \<and> participants db2 = participants db1"
        using mh mu1 cp pc True
        by (intro status_process_follow [OF ow1 li1]) (simp_all add: db1_def g_def)
      then obtain db2 where s2: "status_process (e_id pr) True db1 = (Inr (), db2)"
        "phys_owned db2" "phys_links db2"
        "mirrors_except {} (host_objs db2) (hosts db2) h_users (user_objs db2)"
        "mirrors_except {} (user_objs db2) (users db2) u_processes (process_objs db2)"
        "process_objs db2 = obj_update c (set_active True) (process_objs db1)"
        "participant_objs db2 = participant_objs db1" "processes db2 = processes db1"
        by (auto simp: g_def)
      have "mirrors_except {} (process_objs db2) (processes db2) p_participants (participant_objs db2)"
        using ex pc ca True unfolding s2(6-8) by (auto simp: mirrors_except_def obj_update_apply)
      then show ?thesis using True s2 by (auto simp: phys_inv_def phys_activity_def)
    next
      case False
      then have "active (g pr) \<longleftrightarrow> child_active (participant_objs db1) (p_participants (g pr))"
        using ca apr by (auto simp: g_def)
      then have "mirrors_except {} (process_objs db1) (processes db1) p_participants (participant_objs db1)"
        using ex pc by (auto simp: mirrors_except_def)
      then have "phys_inv db1"
        using ow1 li1 mu1 mh by (simp add: phys_inv_def phys_activity_def db1_def)
      then show ?thesis using False by auto
    qed
    have "(r, db') = ?rest"
      using run w by (auto simp: link_participant_with_process_nts_def Let_def db1_def f_def g_def)
    then obtain r': "r = Inr ()" and "phys_inv db'" "participant_objs db' = participant_objs db1"
      using rest by auto
    moreover have "participant_objs db1 a = Some (f p)" using w(2) by (simp add: db1_def obj_update_apply)
    ultimately show ?thesis using w by (auto simp: f_def)
  qed
qed


text \<open>
  C3: linking a participant with a process keeps the tree in order, activating the process, its user
  and its host where the participant is active; a call that throws changes nothing.
\<close>

theorem linking_keeps_tree:
  assumes "phys_inv db" and "link_participant_with_process_nts i c db = (r, db')"
  shows "phys_inv db' \<and> (case r of
      Inl e \<Rightarrow> db' = db
    | Inr _ \<Rightarrow> \<exists>d a b p. find_participant i (participants db) = Some (d, a) \<and>
        om_find (processes db) c = Some b \<and> participant_objs db' a = Some p \<and> dp_process p = Some b)"
  using link_inv [OF assms] .

section \<open>New entities in the tree\<close>

lemma linked_new_parent:
  assumes l: "linked ph pm kids ch cm up" and wf: "om_wf pm" and i: "i \<notin> set (om_keys pm)"
    and x: "ph x = Some p" "x \<notin> snd ` set pm" and f: "kids (f p) = []"
  shows "linked (obj_update x f ph) (om_put i x pm) kids ch cm up"
proof -
  have set: "set (om_put i x pm) = insert (i, x) (set pm)"
    using om_put_set_fresh [OF wf] i by simp
  have ne: "y \<noteq> x" if "(k, y) \<in> set pm" for k y using x(2) that by force
  show ?thesis
    unfolding linked_def set
  proof (intro conjI ballI; clarify)
    fix k y
    assume "(k, y) \<in> insert (i, x) (set pm)"
    then consider "k = i" "y = x" | "(k, y) \<in> set pm" by auto
    then show "\<exists>p. obj_update x f ph y = Some p \<and> om_wf (kids p) \<and>
      (\<forall>(j, a) \<in> set (kids p). (j, a) \<in> cm \<and> (\<exists>c. ch a = Some c \<and> up c = Some y))"
    proof cases
      case 1
      then show ?thesis using x(1) f by (simp add: obj_update_apply)
    next
      case 2
      then show ?thesis using linkedD_parent [OF l 2] ne [OF 2] by (simp add: obj_update_apply)
    qed
  next
    fix j a
    assume "(j, a) \<in> cm"
    then obtain c where c: "ch a = Some c"
      "\<forall>b. up c = Some b \<longrightarrow> (\<exists>i p. (i, b) \<in> set pm \<and> ph b = Some p \<and> (j, a) \<in> set (kids p))"
      using l by (fastforce simp: linked_def)
    have "\<exists>i' q. (i', b) \<in> insert (i, x) (set pm) \<and> obj_update x f ph b = Some q \<and> (j, a) \<in> set (kids q)"
      if "up c = Some b" for b
      using c(2) that ne by (force simp: obj_update_apply)
    with c(1) show "\<exists>c. ch a = Some c \<and> (\<forall>b. up c = Some b \<longrightarrow> (\<exists>i' p. (i', b) \<in> insert (i, x) (set pm) \<and>
        obj_update x f ph b = Some p \<and> (j, a) \<in> set (kids p)))" by blast
  qed
qed

lemma mirrors_new_parent:
  assumes "mirrors_except {} ph pm kids ch" and "om_wf pm" and "i \<notin> set (om_keys pm)"
    and "ph x = Some p" and "x \<notin> snd ` set pm" and "kids (f p) = []" and "\<not> active (f p)"
  shows "mirrors_except {} (obj_update x f ph) (om_put i x pm) kids ch"
proof -
  have "set (om_put i x pm) = insert (i, x) (set pm)" using om_put_set_fresh assms(2,3) by simp
  moreover have "y \<noteq> x" if "(k, y) \<in> set pm" for k y using assms(5) that by force
  ultimately show ?thesis
    using assms by (auto simp: mirrors_except_def obj_update_apply child_active_def) blast+
qed

lemma linked_parent_other:
  assumes "linked ph pm kids ch cm up" and "x \<notin> snd ` set pm"
  shows "linked (obj_update x f ph) pm kids ch cm up"
proof -
  have ne: "y \<noteq> x" if "(k, y) \<in> set pm" for k y using assms(2) that by force
  have "obj_update x f ph y = ph y" if "(k, y) \<in> set pm" for k y
    using ne [OF that] by (simp add: obj_update_apply)
  then show ?thesis
    using assms(1) unfolding linked_def by (fastforce split: prod.splits)
qed

section \<open>A tree of four entities\<close>

definition example_tree :: "bool \<Rightarrow> unit database" where
  "example_tree joined = new_database\<lparr>next_addr := 1, next_id := 5,
     host_objs := [0 \<mapsto> (new_host ''h'' OK_STATUS)\<lparr>e_id := EntityId 0, h_users := [(EntityId 1, 0)]\<rparr>],
     user_objs := [0 \<mapsto> (new_user ''u'' (Some 0) OK_STATUS)
       \<lparr>e_id := EntityId 1, u_processes := [(EntityId 2, 0)]\<rparr>],
     process_objs := [0 \<mapsto> (new_process ''p'' ''7'' (Some 0) OK_STATUS)\<lparr>e_id := EntityId 2,
       p_participants := (if joined then [(EntityId 4, 0)] else [])\<rparr>],
     domain_objs := [0 \<mapsto> (new_domain ''0'' 0 OK_STATUS)\<lparr>e_id := EntityId 3\<rparr>],
     participant_objs := [0 \<mapsto> (new_participant ''q'' () ''1.2'' None (Some 0) OK_STATUS UNKNOWN_APP []
       DISCOVERY_SOURCE 0)\<lparr>e_id := EntityId 4, active := False, dp_process := (if joined then Some 0 else None)\<rparr>],
     hosts := [(EntityId 0, 0)], users := [(EntityId 1, 0)], processes := [(EntityId 2, 0)],
     domains := [(EntityId 3, 0)], participants := [(EntityId 3, [(EntityId 4, 0)])]\<rparr>"

lemma example_tree_inv: "phys_inv (example_tree joined)"
  by (simp add: phys_inv_def phys_owned_def phys_links_def phys_activity_def linked_def
      mirrors_except_def child_active_def has_parent_def owned_def owned_in_def keys_in_def entries_in_def
      om_wf_def example_tree_def new_database_def entity_constructor_defs)

theorem status_change_keeps_tree_witness:
  "\<exists>db'. change_entity_status_of_kind (EntityId 4) True PARTICIPANT (EntityId 3) (example_tree True)
     = (Inr (), db') \<and> phys_inv db' \<and> active (the (participant_objs db' 0))"
proof -
  obtain r db' where run: "change_entity_status_of_kind (EntityId 4) True PARTICIPANT (EntityId 3)
      (example_tree True) = (r, db')" by fastforce
  have k: "PARTICIPANT \<notin> {HOST, USER, PROCESS}" by simp
  have d: "PARTICIPANT = PARTICIPANT \<longrightarrow> participants_in_domains (example_tree True)"
    by (simp add: participants_in_domains_def fragile_expired_def fragile_lock_def example_tree_def
        entries_in_def entity_constructor_defs)
  have f: "find_id_in (EntityId 4) (participant_objs (example_tree True)) (participants (example_tree True))
      = Some 0"
    by (simp add: example_tree_def new_database_def entity_constructor_defs find_id_def find_addr_def)
  show ?thesis using status_change_keeps_tree [OF example_tree_inv k d run] run f by simp
qed

theorem linking_keeps_tree_witness:
  "\<exists>r db'. link_participant_with_process_nts (EntityId 4) (EntityId 2) (example_tree False) = (r, db') \<and>
     r = Inr () \<and> phys_inv db'"
proof -
  obtain r db' where run: "link_participant_with_process_nts (EntityId 4) (EntityId 2)
      (example_tree False) = (r, db')" by fastforce
  moreover have "r = Inr ()"
    using run by (auto simp: link_participant_with_process_nts_def example_tree_def fragile_expired_def
        fragile_lock_def entity_constructor_defs Let_def obj_update_def)
  ultimately show ?thesis using linking_keeps_tree [OF example_tree_inv run] by blast
qed

end
