(* ===== verification/DbNavigate.thy ===== *)
theory DbNavigate
  imports PhysicalTree
begin

text \<open>
  \<open>Database::get_entities\<close>: all the entities of a kind, or those related to an entity, found by
  following the references of the objects. A null pointer is \<open>None\<close>; casting a reference whose object
  is gone to a \<open>shared_ptr\<close> gives a null pointer, so a dead \<open>entity_ref\<close> counts as one. A null
  origin asks for all the entities of the kind.
\<close>

section \<open>Definitions\<close>

definition bad_entity_kind :: exn where
  "bad_entity_kind = BadParameter ''Invalid EntityKind''"

text \<open>\<open>map_to_vector\<close> and \<open>map_of_maps_to_vector\<close>.\<close>

definition map_to_vector :: "(addr \<Rightarrow> entity_ref) \<Rightarrow> collection \<Rightarrow> entity_ref option list" where
  "map_to_vector c m = map (\<lambda>(i, a). Some (c a)) m"

definition map_of_maps_to_vector :: "(addr \<Rightarrow> entity_ref) \<Rightarrow> domain_collection \<Rightarrow> entity_ref option list" where
  "map_of_maps_to_vector c mm = concat (map (\<lambda>(d, m). map_to_vector c m) mm)"

fun all_entities :: "'q database \<Rightarrow> EntityKind \<Rightarrow> entity_ref option list result" where
  "all_entities db HOST = Inr (map_to_vector HostRef (hosts db))"
| "all_entities db USER = Inr (map_to_vector UserRef (users db))"
| "all_entities db PROCESS = Inr (map_to_vector ProcessRef (processes db))"
| "all_entities db DOMAIN = Inr (map_to_vector DomainRef (domains db))"
| "all_entities db TOPIC = Inr (map_of_maps_to_vector TopicRef (topics db))"
| "all_entities db PARTICIPANT = Inr (map_of_maps_to_vector ParticipantRef (participants db))"
| "all_entities db DATAWRITER = Inr (map_of_maps_to_vector DataWriterRef (datawriters db))"
| "all_entities db DATAREADER = Inr (map_of_maps_to_vector DataReaderRef (datareaders db))"
| "all_entities db LOCATOR = Inr (map_to_vector LocatorRef (locators db))"
| "all_entities db INVALID_ENTITY = Inl bad_entity_kind"

text \<open>The entries of a map of references that are not expired.\<close>

definition live_refs :: "(addr \<Rightarrow> entity_ref) \<Rightarrow> (addr \<Rightarrow> 'o option) \<Rightarrow> collection \<Rightarrow> entity_ref option list" where
  "live_refs c h m = map (\<lambda>(i, a). Some (c a)) (filter (\<lambda>(i, a). \<not> fragile_expired h (Some a)) m)"

text \<open>\<open>if (!p.expired()) entities.push_back(p)\<close>, and \<open>push_back\<close> without the test.\<close>

definition live_ref :: "(addr \<Rightarrow> entity_ref) \<Rightarrow> (addr \<Rightarrow> 'o option) \<Rightarrow> addr option \<Rightarrow> entity_ref option list" where
  "live_ref c h p = (case fragile_lock h p of None \<Rightarrow> [] | Some a \<Rightarrow> [Some (c a)])"

definition cast_ref :: "(addr \<Rightarrow> entity_ref) \<Rightarrow> (addr \<Rightarrow> 'o option) \<Rightarrow> addr option \<Rightarrow> entity_ref option" where
  "cast_ref c h p = map_option c (fragile_lock h p)"

fun concat_results :: "'a list result list \<Rightarrow> 'a list result" where
  "concat_results [] = Inr []"
| "concat_results (r # rs) = bind_result r (\<lambda>x. bind_result (concat_results rs) (\<lambda>y. Inr (x @ y)))"

text \<open>How many references are left to follow, at most.\<close>

fun navigation_rank :: "EntityKind \<Rightarrow> entity_ref option \<Rightarrow> nat" where
  "navigation_rank k None = 0"
| "navigation_rank k (Some (HostRef _)) = 4"
| "navigation_rank k (Some (UserRef _)) = 3"
| "navigation_rank k (Some (ProcessRef _)) = (if k = HOST then 4 else 2)"
| "navigation_rank k (Some (ParticipantRef _)) = (if k \<in> {HOST, USER} then 5 else 1)"
| "navigation_rank k (Some (DomainRef _)) = 6"
| "navigation_rank k (Some (DataWriterRef _)) = (if k \<in> {HOST, USER, PROCESS, DOMAIN} then 6 else if k = DATAREADER then 1 else 0)"
| "navigation_rank k (Some (DataReaderRef _)) = (if k \<in> {HOST, USER, PROCESS, DOMAIN} then 6 else if k = DATAWRITER then 1 else 0)"
| "navigation_rank k (Some (TopicRef _)) = (if k \<in> {DATAWRITER, DATAREADER} then 0 else 7)"
| "navigation_rank k (Some (LocatorRef _)) = 8"

lemma rank_map_option:
  "navigation_rank k (map_option c p) = (case p of None \<Rightarrow> 0 | Some a \<Rightarrow> navigation_rank k (Some (c a)))"
  by (cases p) simp_all

function (sequential) entities_from :: "'q database \<Rightarrow> EntityKind \<Rightarrow> entity_ref option \<Rightarrow> entity_ref option list result" where
  "entities_from db k None = all_entities db k"
| "entities_from db k (Some (HostRef a)) =
     (case host_objs db a of None \<Rightarrow> all_entities db k | Some h \<Rightarrow>
       (if k = HOST then Inr [Some (HostRef a)]
        else if k = USER then Inr (live_refs UserRef (user_objs db) (h_users h))
        else if k = INVALID_ENTITY then Inl bad_entity_kind
        else concat_results (map (\<lambda>(i, b). entities_from db k (Some (UserRef b))) (h_users h))))"
| "entities_from db k (Some (UserRef a)) =
     (case user_objs db a of None \<Rightarrow> all_entities db k | Some u \<Rightarrow>
       (if k = HOST then Inr [cast_ref HostRef (host_objs db) (u_host u)]
        else if k = USER then Inr [Some (UserRef a)]
        else if k = PROCESS then Inr (live_refs ProcessRef (process_objs db) (u_processes u))
        else if k = INVALID_ENTITY then Inl bad_entity_kind
        else concat_results (map (\<lambda>(i, b). entities_from db k (Some (ProcessRef b))) (u_processes u))))"
| "entities_from db k (Some (ProcessRef a)) =
     (case process_objs db a of None \<Rightarrow> all_entities db k | Some p \<Rightarrow>
       (if k = HOST then entities_from db k (map_option UserRef (p_user p))
        else if k = USER then Inr (live_ref UserRef (user_objs db) (p_user p))
        else if k = PROCESS then Inr [Some (ProcessRef a)]
        else if k = PARTICIPANT then Inr (live_refs ParticipantRef (participant_objs db) (p_participants p))
        else if k = INVALID_ENTITY then Inl bad_entity_kind
        else concat_results (map (\<lambda>(i, b). entities_from db k (Some (ParticipantRef b))) (p_participants p))))"
| "entities_from db k (Some (DomainRef a)) =
     (case domain_objs db a of None \<Rightarrow> all_entities db k | Some d \<Rightarrow>
       (if k = DOMAIN then Inr [Some (DomainRef a)]
        else if k = PARTICIPANT then Inr (live_refs ParticipantRef (participant_objs db) (d_participants d))
        else if k = TOPIC then Inr (live_refs TopicRef (topic_objs db) (d_topics d))
        else if k = INVALID_ENTITY then Inl bad_entity_kind
        else concat_results (map (\<lambda>(i, b). entities_from db k (Some (ParticipantRef b))) (d_participants d))))"
| "entities_from db k (Some (ParticipantRef a)) =
     (case participant_objs db a of None \<Rightarrow> all_entities db k | Some p \<Rightarrow>
       (if k = HOST \<or> k = USER then
          (if fragile_expired (process_objs db) (dp_process p) then Inr []
           else entities_from db k (map_option ProcessRef (dp_process p)))
        else if k = PROCESS then Inr (live_ref ProcessRef (process_objs db) (dp_process p))
        else if k = DOMAIN then Inr (live_ref DomainRef (domain_objs db) (dp_domain p))
        else if k = PARTICIPANT then Inr [Some (ParticipantRef a)]
        else if k = DATAWRITER then Inr (live_refs DataWriterRef (writer_objs db) (dp_data_writers p))
        else if k = DATAREADER then Inr (live_refs DataReaderRef (reader_objs db) (dp_data_readers p))
        else if k = INVALID_ENTITY then Inl bad_entity_kind
        else concat_results
          (map (\<lambda>(i, b). entities_from db k (Some (DataWriterRef b))) (dp_data_writers p) @
           map (\<lambda>(i, b). entities_from db k (Some (DataReaderRef b))) (dp_data_readers p))))"
| "entities_from db k (Some (TopicRef a)) =
     (case topic_objs db a of None \<Rightarrow> all_entities db k | Some t \<Rightarrow>
       (if k = DOMAIN then Inr (live_ref DomainRef (domain_objs db) (t_domain t))
        else if k = TOPIC then Inr [Some (TopicRef a)]
        else if k = DATAWRITER then Inr (live_refs DataWriterRef (writer_objs db) (t_data_writers t))
        else if k = DATAREADER then Inr (live_refs DataReaderRef (reader_objs db) (t_data_readers t))
        else if k = INVALID_ENTITY then Inl bad_entity_kind
        else concat_results
          (map (\<lambda>(i, b). entities_from db k (Some (DataWriterRef b))) (t_data_writers t) @
           map (\<lambda>(i, b). entities_from db k (Some (DataReaderRef b))) (t_data_readers t))))"
| "entities_from db k (Some (DataWriterRef a)) =
     (case writer_objs db a of None \<Rightarrow> all_entities db k | Some w \<Rightarrow>
       (if k = TOPIC then Inr (live_ref TopicRef (topic_objs db) (ep_topic w))
        else if k = PARTICIPANT then Inr (live_ref ParticipantRef (participant_objs db) (ep_participant w))
        else if k = DATAWRITER then Inr [Some (DataWriterRef a)]
        else if k = LOCATOR then Inr (live_refs LocatorRef (locator_objs db) (ep_locators w))
        else if k = DATAREADER then entities_from db k (map_option TopicRef (ep_topic w))
        else if k = INVALID_ENTITY then Inl bad_entity_kind
        else entities_from db k (map_option ParticipantRef (ep_participant w))))"
| "entities_from db k (Some (DataReaderRef a)) =
     (case reader_objs db a of None \<Rightarrow> all_entities db k | Some r \<Rightarrow>
       (if k = TOPIC then Inr (live_ref TopicRef (topic_objs db) (ep_topic r))
        else if k = PARTICIPANT then Inr (live_ref ParticipantRef (participant_objs db) (ep_participant r))
        else if k = DATAREADER then Inr [Some (DataReaderRef a)]
        else if k = LOCATOR then Inr (live_refs LocatorRef (locator_objs db) (ep_locators r))
        else if k = DATAWRITER then entities_from db k (map_option TopicRef (ep_topic r))
        else if k = INVALID_ENTITY then Inl bad_entity_kind
        else entities_from db k (map_option ParticipantRef (ep_participant r))))"
| "entities_from db k (Some (LocatorRef a)) =
     (case locator_objs db a of None \<Rightarrow> all_entities db k | Some l \<Rightarrow>
       (if k = DATAREADER then Inr (live_refs DataReaderRef (reader_objs db) (l_data_readers l))
        else if k = DATAWRITER then Inr (live_refs DataWriterRef (writer_objs db) (l_data_writers l))
        else if k = LOCATOR then Inr [Some (LocatorRef a)]
        else if k = INVALID_ENTITY then Inl bad_entity_kind
        else concat_results
          (map (\<lambda>(i, b). entities_from db k (Some (DataWriterRef b))) (l_data_writers l) @
           map (\<lambda>(i, b). entities_from db k (Some (DataReaderRef b))) (l_data_readers l))))"
  by pat_completeness auto

termination entities_from
  apply (relation "measure (\<lambda>(db, k, r). navigation_rank k r)")
  apply (simp; fail)
  apply (case_tac [!] k)
  apply (auto simp: rank_map_option split: option.splits)
  done

text \<open>
  \<open>get_entities_nts\<close>: the origin is looked up, and duplicates are removed by sorting the pointers,
  whose order is that of the addresses.
\<close>

fun ref_addr :: "entity_ref \<Rightarrow> addr" where
  "ref_addr (HostRef a) = a"
| "ref_addr (UserRef a) = a"
| "ref_addr (ProcessRef a) = a"
| "ref_addr (DomainRef a) = a"
| "ref_addr (TopicRef a) = a"
| "ref_addr (ParticipantRef a) = a"
| "ref_addr (DataReaderRef a) = a"
| "ref_addr (DataWriterRef a) = a"
| "ref_addr (LocatorRef a) = a"

fun pointer_value :: "entity_ref option \<Rightarrow> nat" where
  "pointer_value None = 0"
| "pointer_value (Some r) = Suc (ref_addr r)"

definition get_entities_nts :: "'q database \<Rightarrow> EntityKind \<Rightarrow> EntityId \<Rightarrow> entity_ref option list result" where
  "get_entities_nts db k i =
     bind_result (if i \<noteq> all_id then bind_result (get_entity_nts db i) (\<lambda>r. entities_from db k (Some r))
                  else entities_from db k None)
       (\<lambda>xs. Inr (remdups_adj (sort_key pointer_value xs)))"

fun ids_of :: "'q database \<Rightarrow> entity_ref option list \<Rightarrow> EntityId list result" where
  "ids_of db [] = Inr []"
| "ids_of db (r # rs) =
     bind_result (case r of None \<Rightarrow> Inl NullDereference
       | Some r \<Rightarrow> (case entity_of db r of None \<Rightarrow> Inl NullDereference | Some x \<Rightarrow> Inr (e_id x)))
       (\<lambda>i. bind_result (ids_of db rs) (\<lambda>is. Inr (i # is)))"

definition get_entity_ids :: "'q database \<Rightarrow> EntityKind \<Rightarrow> EntityId \<Rightarrow> EntityId list result" where
  "get_entity_ids db k i = bind_result (get_entities_nts db k i) (ids_of db)"

section \<open>The physical tree\<close>

fun ref_kind :: "entity_ref \<Rightarrow> EntityKind" where
  "ref_kind (HostRef a) = HOST"
| "ref_kind (UserRef a) = USER"
| "ref_kind (ProcessRef a) = PROCESS"
| "ref_kind (DomainRef a) = DOMAIN"
| "ref_kind (TopicRef a) = TOPIC"
| "ref_kind (ParticipantRef a) = PARTICIPANT"
| "ref_kind (DataReaderRef a) = DATAREADER"
| "ref_kind (DataWriterRef a) = DATAWRITER"
| "ref_kind (LocatorRef a) = LOCATOR"

definition host_addrs :: "'q database \<Rightarrow> addr set" where
  "host_addrs db = snd ` set (hosts db)"

definition user_addrs :: "'q database \<Rightarrow> addr set" where
  "user_addrs db = snd ` set (users db)"

definition process_addrs :: "'q database \<Rightarrow> addr set" where
  "process_addrs db = snd ` set (processes db)"

definition participant_addrs :: "'q database \<Rightarrow> addr set" where
  "participant_addrs db = snd ` entries_in (participants db)"

lemmas tree_addrs_defs = host_addrs_def user_addrs_def process_addrs_def participant_addrs_def

fun in_tree :: "'q database \<Rightarrow> entity_ref \<Rightarrow> bool" where
  "in_tree db (HostRef a) = (a \<in> host_addrs db)"
| "in_tree db (UserRef a) = (a \<in> user_addrs db)"
| "in_tree db (ProcessRef a) = (a \<in> process_addrs db)"
| "in_tree db (ParticipantRef a) = (a \<in> participant_addrs db)"
| "in_tree db _ = False"

fun tree_parent :: "'q database \<Rightarrow> entity_ref \<Rightarrow> entity_ref option" where
  "tree_parent db (UserRef a) = map_option HostRef (u_host (the (user_objs db a)))"
| "tree_parent db (ProcessRef a) = map_option UserRef (p_user (the (process_objs db a)))"
| "tree_parent db (ParticipantRef a) = map_option ProcessRef (dp_process (the (participant_objs db a)))"
| "tree_parent db _ = None"

definition tree_below :: "'q database \<Rightarrow> entity_ref \<Rightarrow> entity_ref \<Rightarrow> bool" where
  "tree_below db = (\<lambda>x y. tree_parent db x = Some y)\<^sup>*\<^sup>*"

lemma tree_below_unfold: "tree_below db x y \<longleftrightarrow> x = y \<or> (\<exists>z. tree_parent db x = Some z \<and> tree_below db z y)"
  unfolding tree_below_def by (metis (mono_tags, lifting) converse_rtranclpE converse_rtranclp_into_rtranclp rtranclp.rtrancl_refl)

lemma tree_below_simps:
  "tree_below db (HostRef a) y \<longleftrightarrow> y = HostRef a"
  "tree_below db (UserRef b) y \<longleftrightarrow> y = UserRef b \<or> (\<exists>a. u_host (the (user_objs db b)) = Some a \<and> y = HostRef a)"
  "tree_below db (ProcessRef c) y \<longleftrightarrow> y = ProcessRef c \<or>
     (\<exists>b. p_user (the (process_objs db c)) = Some b \<and> tree_below db (UserRef b) y)"
  "tree_below db (ParticipantRef d) y \<longleftrightarrow> y = ParticipantRef d \<or>
     (\<exists>c. dp_process (the (participant_objs db d)) = Some c \<and> tree_below db (ProcessRef c) y)"
proof -
  show h: "tree_below db (HostRef a) y \<longleftrightarrow> y = HostRef a" for a y
    by (subst tree_below_unfold) auto
  show "tree_below db (UserRef b) y \<longleftrightarrow> y = UserRef b \<or> (\<exists>a. u_host (the (user_objs db b)) = Some a \<and> y = HostRef a)"
    by (subst tree_below_unfold) (auto simp: h)
  show "tree_below db (ProcessRef c) y \<longleftrightarrow> y = ProcessRef c \<or>
     (\<exists>b. p_user (the (process_objs db c)) = Some b \<and> tree_below db (UserRef b) y)"
    by (subst tree_below_unfold) auto
  show "tree_below db (ParticipantRef d) y \<longleftrightarrow> y = ParticipantRef d \<or>
     (\<exists>c. dp_process (the (participant_objs db d)) = Some c \<and> tree_below db (ProcessRef c) y)"
    by (subst tree_below_unfold) auto
qed

definition relatives :: "'q database \<Rightarrow> EntityKind \<Rightarrow> entity_ref \<Rightarrow> entity_ref set" where
  "relatives db k r = {r'. in_tree db r' \<and> ref_kind r' = k \<and> (tree_below db r r' \<or> tree_below db r' r)}"

definition finds :: "entity_ref option list result \<Rightarrow> entity_ref set \<Rightarrow> bool" where
  "finds res S \<longleftrightarrow> (\<exists>xs. res = Inr xs \<and> set xs = Some ` S)"

lemma finds_concat:
  "\<forall>e \<in> set m. finds (f e) (S (snd e)) \<Longrightarrow> finds (concat_results (map f m)) (\<Union> (S ` snd ` set m))"
proof (induction m)
  case (Cons e m)
  then obtain xs ys where "f e = Inr xs" "set xs = Some ` S (snd e)" "concat_results (map f m) = Inr ys"
    "set ys = Some ` (\<Union> (S ` snd ` set m))"
    by (auto simp: finds_def)
  then show ?case by (simp add: finds_def image_Un)
qed (simp add: finds_def)

lemma live_refs_all:
  "\<forall>e \<in> set m. h (snd e) \<noteq> None \<Longrightarrow> set (live_refs c h m) = Some ` c ` snd ` set m"
  by (force simp: live_refs_def fragile_expired_def fragile_lock_def)

text \<open>The links of the tree, from the parents to the children and back.\<close>

lemma linked_child_object:
  assumes "linked ph pm kids ch cm up" and "(j, a) \<in> cm"
  shows "\<exists>c. ch a = Some c"
proof -
  have "\<forall>(j, a) \<in> cm. \<exists>c. ch a = Some c \<and>
      (\<forall>b. up c = Some b \<longrightarrow> (\<exists>i p. (i, b) \<in> set pm \<and> ph b = Some p \<and> (j, a) \<in> set (kids p)))"
    using assms(1) unfolding linked_def by (rule conjunct2)
  with assms(2) show ?thesis by blast
qed

lemma linked_children:
  assumes "linked ph pm kids ch cm up" and "b \<in> snd ` set pm"
  shows "\<exists>p. ph b = Some p \<and> snd ` set (kids p) = {a \<in> snd ` cm. up (the (ch a)) = Some b} \<and>
    (\<forall>e \<in> set (kids p). ch (snd e) \<noteq> None)"
proof -
  obtain i where "(i, b) \<in> set pm" using assms(2) by auto
  from linkedD_parent [OF assms(1) this] obtain p where p: "ph b = Some p"
    and k: "\<forall>(j, a) \<in> set (kids p). (j, a) \<in> cm \<and> (\<exists>c. ch a = Some c \<and> up c = Some b)" by blast
  have k': "(j, a) \<in> cm \<and> ch a \<noteq> None \<and> up (the (ch a)) = Some b" if "(j, a) \<in> set (kids p)" for j a
    using bspec [OF k that] by auto
  have "a \<in> snd ` set (kids p)" if t: "(j, a) \<in> cm" and u: "up (the (ch a)) = Some b" for j a
  proof -
    obtain c where c: "ch a = Some c" using linked_child_object [OF assms(1) t] by blast
    then have "up c = Some b" using u by simp
    from linkedD_child [OF assms(1) t c this] p show ?thesis by force
  qed
  then have "snd ` set (kids p) = {a \<in> snd ` cm. up (the (ch a)) = Some b}" using k' by force
  moreover have "\<forall>e \<in> set (kids p). ch (snd e) \<noteq> None"
  proof
    fix e assume "e \<in> set (kids p)"
    then show "ch (snd e) \<noteq> None" using k' [of "fst e" "snd e"] by simp
  qed
  ultimately show ?thesis using p by blast
qed

lemma linked_parent:
  assumes "linked ph pm kids ch cm up" and "a \<in> snd ` cm"
  shows "\<exists>c. ch a = Some c" and "up (the (ch a)) = Some b \<Longrightarrow> b \<in> snd ` set pm"
proof -
  obtain j where j: "(j, a) \<in> cm" using assms(2) by force
  then obtain c where c: "ch a = Some c" using linked_child_object [OF assms(1)] by blast
  then show "\<exists>c. ch a = Some c" by blast
  assume "up (the (ch a)) = Some b"
  then have "up c = Some b" using c by simp
  from linkedD_child [OF assms(1) j c this] show "b \<in> snd ` set pm" by force
qed

lemma tree_facts:
  assumes "phys_inv db"
  shows "a \<in> host_addrs db \<Longrightarrow> \<exists>h. host_objs db a = Some h \<and>
      snd ` set (h_users h) = {b \<in> user_addrs db. u_host (the (user_objs db b)) = Some a} \<and>
      (\<forall>e \<in> set (h_users h). user_objs db (snd e) \<noteq> None)"
    and "b \<in> user_addrs db \<Longrightarrow> \<exists>u. user_objs db b = Some u \<and>
      snd ` set (u_processes u) = {c \<in> process_addrs db. p_user (the (process_objs db c)) = Some b} \<and>
      (\<forall>e \<in> set (u_processes u). process_objs db (snd e) \<noteq> None)"
    and "c \<in> process_addrs db \<Longrightarrow> \<exists>p. process_objs db c = Some p \<and>
      snd ` set (p_participants p) = {d \<in> participant_addrs db. dp_process (the (participant_objs db d)) = Some c} \<and>
      (\<forall>e \<in> set (p_participants p). participant_objs db (snd e) \<noteq> None)"
    and "d \<in> participant_addrs db \<Longrightarrow> \<exists>p. participant_objs db d = Some p"
    and "d \<in> participant_addrs db \<Longrightarrow> dp_process (the (participant_objs db d)) = Some c \<Longrightarrow>
      c \<in> process_addrs db"
    and "c \<in> process_addrs db \<Longrightarrow>
      \<exists>b. p_user (the (process_objs db c)) = Some b \<and> b \<in> user_addrs db"
    and "b \<in> user_addrs db \<Longrightarrow> \<exists>a. u_host (the (user_objs db b)) = Some a \<and> a \<in> host_addrs db"
proof -
  have l1: "linked (host_objs db) (hosts db) h_users (user_objs db) (set (users db)) u_host"
    and l2: "linked (user_objs db) (users db) u_processes (process_objs db) (set (processes db)) p_user"
    and l3: "linked (process_objs db) (processes db) p_participants (participant_objs db)
        (entries_in (participants db)) dp_process"
    and h: "has_parent (user_objs db) u_host (users db)" "has_parent (process_objs db) p_user (processes db)"
    using assms by (simp_all add: phys_inv_def phys_links_def)
  show "a \<in> host_addrs db \<Longrightarrow> \<exists>h. host_objs db a = Some h \<and>
      snd ` set (h_users h) = {b \<in> user_addrs db. u_host (the (user_objs db b)) = Some a} \<and>
      (\<forall>e \<in> set (h_users h). user_objs db (snd e) \<noteq> None)"
    unfolding tree_addrs_defs by (rule linked_children [OF l1])
  show "b \<in> user_addrs db \<Longrightarrow> \<exists>u. user_objs db b = Some u \<and>
      snd ` set (u_processes u) = {c \<in> process_addrs db. p_user (the (process_objs db c)) = Some b} \<and>
      (\<forall>e \<in> set (u_processes u). process_objs db (snd e) \<noteq> None)"
    unfolding tree_addrs_defs by (rule linked_children [OF l2])
  show "c \<in> process_addrs db \<Longrightarrow> \<exists>p. process_objs db c = Some p \<and>
      snd ` set (p_participants p) = {d \<in> participant_addrs db. dp_process (the (participant_objs db d)) = Some c} \<and>
      (\<forall>e \<in> set (p_participants p). participant_objs db (snd e) \<noteq> None)"
    unfolding tree_addrs_defs by (rule linked_children [OF l3])
  show "d \<in> participant_addrs db \<Longrightarrow> \<exists>p. participant_objs db d = Some p"
    unfolding tree_addrs_defs by (rule linked_parent(1) [OF l3])
  show "d \<in> participant_addrs db \<Longrightarrow> dp_process (the (participant_objs db d)) = Some c \<Longrightarrow>
      c \<in> process_addrs db"
    unfolding tree_addrs_defs by (rule linked_parent(2) [OF l3])
  show "\<exists>b. p_user (the (process_objs db c)) = Some b \<and> b \<in> user_addrs db" if c: "c \<in> process_addrs db"
  proof -
    obtain i where "(i, c) \<in> set (processes db)" using c unfolding tree_addrs_defs by force
    moreover obtain p where "process_objs db c = Some p" using linked_parent(1) [OF l2] c unfolding tree_addrs_defs by blast
    ultimately obtain b where "p_user (the (process_objs db c)) = Some b" using has_parentD [OF h(2)] by fastforce
    with linked_parent(2) [OF l2] c show ?thesis unfolding tree_addrs_defs by blast
  qed
  show "\<exists>a. u_host (the (user_objs db b)) = Some a \<and> a \<in> host_addrs db" if b: "b \<in> user_addrs db"
  proof -
    obtain i where "(i, b) \<in> set (users db)" using b unfolding tree_addrs_defs by force
    moreover obtain u where "user_objs db b = Some u" using linked_parent(1) [OF l1] b unfolding tree_addrs_defs by blast
    ultimately obtain a where "u_host (the (user_objs db b)) = Some a" using has_parentD [OF h(1)] by fastforce
    with linked_parent(2) [OF l1] b show ?thesis unfolding tree_addrs_defs by blast
  qed
qed

lemma ref_kind_iff:
  "ref_kind r = HOST \<longleftrightarrow> (\<exists>a. r = HostRef a)" "ref_kind r = USER \<longleftrightarrow> (\<exists>a. r = UserRef a)"
  "ref_kind r = PROCESS \<longleftrightarrow> (\<exists>a. r = ProcessRef a)" "ref_kind r = PARTICIPANT \<longleftrightarrow> (\<exists>a. r = ParticipantRef a)"
  by (cases r; simp)+

lemma relatives_self: "in_tree db r \<Longrightarrow> ref_kind r = k \<Longrightarrow> relatives db k r = {r}"
  by (cases r) (auto simp: relatives_def tree_below_simps ref_kind_iff)

lemma relatives_down:
  "relatives db USER (HostRef a) = UserRef ` {b \<in> user_addrs db. u_host (the (user_objs db b)) = Some a}"
  "relatives db PROCESS (UserRef b) = ProcessRef ` {c \<in> process_addrs db. p_user (the (process_objs db c)) = Some b}"
  "relatives db PARTICIPANT (ProcessRef c) =
     ParticipantRef ` {d \<in> participant_addrs db. dp_process (the (participant_objs db d)) = Some c}"
  by (auto simp: relatives_def ref_kind_iff tree_below_simps)

lemma relatives_users:
  assumes "phys_inv db" and "k \<in> {PROCESS, PARTICIPANT}"
  shows "relatives db k (HostRef a) =
    \<Union> ((\<lambda>b. relatives db k (UserRef b)) ` {b \<in> user_addrs db. u_host (the (user_objs db b)) = Some a})"
  using assms(2) tree_facts(5,6) [OF assms(1)]
  by (fastforce simp: relatives_def ref_kind_iff tree_below_simps)

lemma relatives_processes:
  assumes "phys_inv db"
  shows "relatives db PARTICIPANT (UserRef b) =
    \<Union> ((\<lambda>c. relatives db PARTICIPANT (ProcessRef c)) ` {c \<in> process_addrs db. p_user (the (process_objs db c)) = Some b})"
  using tree_facts(5) [OF assms]
  by (fastforce simp: relatives_def ref_kind_iff tree_below_simps)

lemma relatives_up:
  assumes "phys_inv db"
  shows "b \<in> user_addrs db \<Longrightarrow> relatives db HOST (UserRef b) = HostRef ` set_option (u_host (the (user_objs db b)))"
    and "c \<in> process_addrs db \<Longrightarrow> relatives db USER (ProcessRef c) = UserRef ` set_option (p_user (the (process_objs db c)))"
    and "d \<in> participant_addrs db \<Longrightarrow>
      relatives db PROCESS (ParticipantRef d) = ProcessRef ` set_option (dp_process (the (participant_objs db d)))"
    and "k = HOST \<Longrightarrow> relatives db k (ProcessRef c) = \<Union> ((\<lambda>b. relatives db k (UserRef b)) ` set_option (p_user (the (process_objs db c))))"
    and "k \<in> {HOST, USER} \<Longrightarrow> relatives db k (ParticipantRef d) =
      \<Union> ((\<lambda>c. relatives db k (ProcessRef c)) ` set_option (dp_process (the (participant_objs db d))))"
  using tree_facts(5-7) [OF assms]
  by (fastforce simp: relatives_def ref_kind_iff tree_below_simps)+

lemma finds_self:
  assumes "phys_inv db" and "in_tree db r"
  shows "finds (entities_from db (ref_kind r) (Some r)) (relatives db (ref_kind r) r)"
proof -
  have "entities_from db (ref_kind r) (Some r) = Inr [Some r]"
  proof (cases r)
    case (HostRef a)
    then show ?thesis using tree_facts(1) [OF assms(1), of a] assms(2) by auto
  next
    case (UserRef b)
    then show ?thesis using tree_facts(2) [OF assms(1), of b] assms(2) by auto
  next
    case (ProcessRef c)
    then show ?thesis using tree_facts(3) [OF assms(1), of c] assms(2) by auto
  next
    case (ParticipantRef d)
    then show ?thesis using tree_facts(4) [OF assms(1), of d] assms(2) by auto
  qed (use assms(2) in simp_all)
  then show ?thesis using relatives_self [OF assms(2) refl] by (simp add: finds_def)
qed

lemma finds_children:
  assumes "phys_inv db"
  shows "a \<in> host_addrs db \<Longrightarrow> finds (entities_from db USER (Some (HostRef a))) (relatives db USER (HostRef a))"
    and "b \<in> user_addrs db \<Longrightarrow> finds (entities_from db PROCESS (Some (UserRef b))) (relatives db PROCESS (UserRef b))"
    and "c \<in> process_addrs db \<Longrightarrow>
      finds (entities_from db PARTICIPANT (Some (ProcessRef c))) (relatives db PARTICIPANT (ProcessRef c))"
  using tree_facts(1-3) [OF assms] by (fastforce simp: finds_def live_refs_all relatives_down)+

lemma finds_parent:
  assumes "phys_inv db"
  shows "b \<in> user_addrs db \<Longrightarrow> finds (entities_from db HOST (Some (UserRef b))) (relatives db HOST (UserRef b))"
    and "c \<in> process_addrs db \<Longrightarrow> finds (entities_from db USER (Some (ProcessRef c))) (relatives db USER (ProcessRef c))"
    and "d \<in> participant_addrs db \<Longrightarrow>
      finds (entities_from db PROCESS (Some (ParticipantRef d))) (relatives db PROCESS (ParticipantRef d))"
proof -
  show "finds (entities_from db HOST (Some (UserRef b))) (relatives db HOST (UserRef b))" if b: "b \<in> user_addrs db"
  proof -
    obtain u a h where "user_objs db b = Some u" "u_host u = Some a" "host_objs db a = Some h"
      using tree_facts(1,2,7) [OF assms] b by (metis option.sel)
    then show ?thesis using relatives_up(1) [OF assms b] by (simp add: finds_def cast_ref_def fragile_lock_def)
  qed
  show "finds (entities_from db USER (Some (ProcessRef c))) (relatives db USER (ProcessRef c))" if c: "c \<in> process_addrs db"
  proof -
    obtain p b u where "process_objs db c = Some p" "p_user p = Some b" "user_objs db b = Some u"
      using tree_facts(2,3,6) [OF assms] c by (metis option.sel)
    then show ?thesis using relatives_up(2) [OF assms c] by (simp add: finds_def live_ref_def fragile_lock_def)
  qed
  show "finds (entities_from db PROCESS (Some (ParticipantRef d))) (relatives db PROCESS (ParticipantRef d))"
    if d: "d \<in> participant_addrs db"
  proof -
    obtain p where p: "participant_objs db d = Some p" using tree_facts(4) [OF assms d] by blast
    show ?thesis
    proof (cases "dp_process p")
      case None
      then show ?thesis using p relatives_up(3) [OF assms d] by (simp add: finds_def live_ref_def fragile_lock_def)
    next
      case (Some c)
      then have "c \<in> process_addrs db" using tree_facts(5) [OF assms d] p by simp
      then obtain x where "process_objs db c = Some x" using tree_facts(3) [OF assms] by blast
      then show ?thesis
        using p Some relatives_up(3) [OF assms d] by (simp add: finds_def live_ref_def fragile_lock_def)
    qed
  qed
qed

lemma finds_map_refs:
  assumes "\<forall>b \<in> snd ` set m. finds (entities_from db k (Some (c b))) (S b)"
  shows "finds (concat_results (map (\<lambda>(i, b). entities_from db k (Some (c b))) m)) (\<Union> (S ` snd ` set m))"
proof (rule finds_concat, rule ballI)
  fix e assume "e \<in> set m"
  then have "snd e \<in> snd ` set m" by (rule imageI)
  from bspec [OF assms this] show "finds (case e of (i, b) \<Rightarrow> entities_from db k (Some (c b))) (S (snd e))"
    by (simp add: case_prod_unfold del: entities_from.simps)
qed

lemma finds_below_host:
  assumes inv: "phys_inv db" and a: "a \<in> host_addrs db" and k: "k \<in> {PROCESS, PARTICIPANT}"
    and sub: "\<forall>b \<in> user_addrs db. finds (entities_from db k (Some (UserRef b))) (relatives db k (UserRef b))"
  shows "finds (entities_from db k (Some (HostRef a))) (relatives db k (HostRef a))"
proof -
  obtain h where h: "host_objs db a = Some h"
    and u: "snd ` set (h_users h) = {b \<in> user_addrs db. u_host (the (user_objs db b)) = Some a}"
    using tree_facts(1) [OF inv a] by blast
  have "\<forall>b \<in> snd ` set (h_users h). finds (entities_from db k (Some (UserRef b))) (relatives db k (UserRef b))"
    unfolding u using sub by blast
  from finds_map_refs [where c = UserRef and S = "\<lambda>b. relatives db k (UserRef b)", OF this] show ?thesis
    using h k unfolding relatives_users [OF inv k, of a] u by auto
qed

lemma finds_below_user:
  assumes inv: "phys_inv db" and b: "b \<in> user_addrs db"
  shows "finds (entities_from db PARTICIPANT (Some (UserRef b))) (relatives db PARTICIPANT (UserRef b))"
proof -
  obtain u where u: "user_objs db b = Some u"
    and p: "snd ` set (u_processes u) = {c \<in> process_addrs db. p_user (the (process_objs db c)) = Some b}"
    using tree_facts(2) [OF inv b] by blast
  have "\<forall>c \<in> snd ` set (u_processes u).
      finds (entities_from db PARTICIPANT (Some (ProcessRef c))) (relatives db PARTICIPANT (ProcessRef c))"
    unfolding p using finds_children(3) [OF inv] by blast
  from finds_map_refs [where c = ProcessRef and S = "\<lambda>c. relatives db PARTICIPANT (ProcessRef c)", OF this]
  show ?thesis using u unfolding relatives_processes [OF inv, of b] p by simp
qed

lemma finds_above_process:
  assumes inv: "phys_inv db" and c: "c \<in> process_addrs db"
  shows "finds (entities_from db HOST (Some (ProcessRef c))) (relatives db HOST (ProcessRef c))"
proof -
  obtain p b where "process_objs db c = Some p" "p_user p = Some b" "b \<in> user_addrs db"
    using tree_facts(3,6) [OF inv] c by (metis option.sel)
  then show ?thesis using finds_parent(1) [OF inv] relatives_up(4) [OF inv refl, of c] by simp
qed

lemma finds_above_participant:
  assumes inv: "phys_inv db" and d: "d \<in> participant_addrs db" and k: "k \<in> {HOST, USER}"
  shows "finds (entities_from db k (Some (ParticipantRef d))) (relatives db k (ParticipantRef d))"
proof -
  obtain p where p: "participant_objs db d = Some p" using tree_facts(4) [OF inv d] by blast
  show ?thesis
  proof (cases "dp_process p")
    case None
    then show ?thesis
      using p k relatives_up(5) [OF inv k, of d] by (auto simp: finds_def fragile_expired_def fragile_lock_def)
  next
    case (Some c)
    then have c: "c \<in> process_addrs db" using tree_facts(5) [OF inv d] p by simp
    then obtain x where "process_objs db c = Some x" using tree_facts(3) [OF inv] by blast
    then show ?thesis
      using p k Some relatives_up(5) [OF inv k, of d] finds_above_process [OF inv c] finds_parent(2) [OF inv c]
      by (auto simp: fragile_expired_def fragile_lock_def)
  qed
qed

text \<open>
  C20: in a consistent tree, asking for the hosts, users, processes or participants of one of these
  entities gives exactly those that are above or below it in the tree: what is found upwards from an
  entity is what finds it downwards.
\<close>

theorem navigation_follows_tree:
  assumes "phys_inv db" and "in_tree db r" and "k \<in> {HOST, USER, PROCESS, PARTICIPANT}"
  shows "\<exists>xs. entities_from db k (Some r) = Inr xs \<and>
    set xs = {Some r' | r'. in_tree db r' \<and> ref_kind r' = k \<and> (tree_below db r r' \<or> tree_below db r' r)}"
proof -
  have "finds (entities_from db k (Some r)) (relatives db k r)"
    using assms(2,3) finds_self [OF assms(1,2)] finds_children [OF assms(1)] finds_parent [OF assms(1)]
      finds_below_host [OF assms(1)] finds_below_user [OF assms(1)] finds_above_process [OF assms(1)]
      finds_above_participant [OF assms(1)]
    by (cases r) (auto simp del: entities_from.simps)
  then show ?thesis by (auto simp: finds_def relatives_def)
qed

theorem navigation_follows_tree_witness:
  "\<exists>xs. entities_from (example_tree True) PARTICIPANT (Some (HostRef 0)) = Inr xs \<and>
     set xs = {Some r' | r'. in_tree (example_tree True) r' \<and> ref_kind r' = PARTICIPANT \<and>
       (tree_below (example_tree True) (HostRef 0) r' \<or> tree_below (example_tree True) r' (HostRef 0))}"
  by (rule navigation_follows_tree [OF example_tree_inv])
    (simp_all add: host_addrs_def example_tree_def)

section \<open>The answer\<close>

declare entities_from.simps [simp del]

lemma concat_results_mem:
  "concat_results rs = Inr ys \<Longrightarrow> x \<in> set ys \<longleftrightarrow> (\<exists>r \<in> set rs. \<exists>xs. r = Inr xs \<and> x \<in> set xs)"
proof (induction rs arbitrary: ys)
  case (Cons r rs)
  then obtain a b where "r = Inr a" "concat_results rs = Inr b" "ys = a @ b"
    by (auto simp: bind_result_Inr_iff)
  with Cons.IH [of b] show ?case by auto
qed simp

lemma concat_two_mem:
  assumes "concat_results (map (\<lambda>(i, b). F b) m @ map (\<lambda>(i, b). G b) m') = Inr ys"
  shows "x \<in> set ys \<longleftrightarrow> (\<exists>i b xs. (i, b) \<in> set m \<and> F b = Inr xs \<and> x \<in> set xs) \<or>
    (\<exists>i b xs. (i, b) \<in> set m' \<and> G b = Inr xs \<and> x \<in> set xs)"
  using concat_results_mem [OF assms, of x] by force

definition kind_ok :: "EntityKind \<Rightarrow> entity_ref option list result \<Rightarrow> bool" where
  "kind_ok k r \<longleftrightarrow> (\<forall>xs x. r = Inr xs \<longrightarrow> Some x \<in> set xs \<longrightarrow> ref_kind x = k)"

lemma kind_ok_simps [simp]:
  "kind_ok k (Inl e)" "kind_ok k (Inr [])" "kind_ok k (Inr [Some r]) \<longleftrightarrow> ref_kind r = k"
  by (auto simp: kind_ok_def)

lemma kind_ok_split:
  "(b \<Longrightarrow> kind_ok k x) \<Longrightarrow> (\<not> b \<Longrightarrow> kind_ok k y) \<Longrightarrow> kind_ok k (if b then x else y)"
  "(p = None \<Longrightarrow> kind_ok k x) \<Longrightarrow> (\<And>a. p = Some a \<Longrightarrow> kind_ok k (f a)) \<Longrightarrow>
   kind_ok k (case p of None \<Rightarrow> x | Some a \<Rightarrow> f a)"
  by (auto split: option.split)

lemma kind_ok_results:
  "kind_ok k (all_entities db k)"
  "kind_ok HOST (Inr [cast_ref HostRef h p])"
  "(\<And>a. ref_kind (c a) = k) \<Longrightarrow> kind_ok k (Inr (live_refs c h m))"
  "(\<And>a. ref_kind (c a) = k) \<Longrightarrow> kind_ok k (Inr (live_ref c h p))"
     apply (cases k; auto simp: kind_ok_def map_to_vector_def map_of_maps_to_vector_def)
    apply (cases "fragile_lock h p"; simp add: kind_ok_def cast_ref_def)
   apply (auto simp: kind_ok_def live_refs_def live_ref_def split: option.splits)
  done

lemma kind_ok_concat_results: "(\<And>r. r \<in> set rs \<Longrightarrow> kind_ok k r) \<Longrightarrow> kind_ok k (concat_results rs)"
  unfolding kind_ok_def by (meson concat_results_mem)

lemma kind_ok_concat:
  "(\<And>i b. (i, b) \<in> set m \<Longrightarrow> kind_ok k (F b)) \<Longrightarrow> kind_ok k (concat_results (map (\<lambda>(i, b). F b) m))"
  "(\<And>i b. (i, b) \<in> set m \<Longrightarrow> kind_ok k (F b)) \<Longrightarrow> (\<And>i b. (i, b) \<in> set m' \<Longrightarrow> kind_ok k (G b)) \<Longrightarrow>
   kind_ok k (concat_results (map (\<lambda>(i, b). F b) m @ map (\<lambda>(i, b). G b) m'))"
  by (auto intro!: kind_ok_concat_results)

lemmas kind_ok_intros = kind_ok_split kind_ok_concat kind_ok_results

lemma entities_from_kind: "kind_ok k (entities_from db k r)"
proof (induction db k r rule: entities_from.induct)
  case (1 db k)
  then show ?case by (simp add: entities_from.simps(1) kind_ok_results)
next
  case (2 db k a)
  show ?case unfolding entities_from.simps(2) by (intro kind_ok_intros; (simp add: kind_ok_results; fail)?) ((rule 2; assumption) | simp add: 2)+
next
  case (3 db k a)
  show ?case unfolding entities_from.simps(3) by (intro kind_ok_intros; (simp add: kind_ok_results; fail)?) ((rule 3; assumption) | simp add: 3)+
next
  case (4 db k a)
  show ?case unfolding entities_from.simps(4) by (intro kind_ok_intros; (simp add: kind_ok_results; fail)?) ((rule 4; assumption) | simp add: 4)+
next
  case (5 db k a)
  show ?case unfolding entities_from.simps(5) by (intro kind_ok_intros; (simp add: kind_ok_results; fail)?) ((rule 5; assumption) | simp add: 5)+
next
  case (6 db k a)
  show ?case unfolding entities_from.simps(6) by (intro kind_ok_intros; (simp add: kind_ok_results; fail)?) ((rule 6; assumption) | simp add: 6)+
next
  case (7 db k a)
  show ?case unfolding entities_from.simps(7) by (intro kind_ok_intros; (simp add: kind_ok_results; fail)?) ((rule 7; assumption) | simp add: 7)+
next
  case (8 db k a)
  show ?case unfolding entities_from.simps(8) by (intro kind_ok_intros; (simp add: kind_ok_results; fail)?) ((rule 8; assumption) | simp add: 8)+
next
  case (9 db k a)
  show ?case unfolding entities_from.simps(9) by (intro kind_ok_intros; (simp add: kind_ok_results; fail)?) ((rule 9; assumption) | simp add: 9)+
next
  case (10 db k a)
  show ?case unfolding entities_from.simps(10) by (intro kind_ok_intros; (simp add: kind_ok_results; fail)?) ((rule 10; assumption) | simp add: 10)+
qed

text \<open>Whatever the references, the recursion ends, and with a result where the kind is one.\<close>

lemma returns_intros:
  "is_ok (Inr x)"
  "k \<noteq> INVALID_ENTITY \<Longrightarrow> is_ok (all_entities db k)"
  "(b \<Longrightarrow> is_ok x) \<Longrightarrow> (\<not> b \<Longrightarrow> is_ok y) \<Longrightarrow> is_ok (if b then x else y)"
  "(p = None \<Longrightarrow> is_ok x) \<Longrightarrow> (\<And>a. p = Some a \<Longrightarrow> is_ok (f a)) \<Longrightarrow>
   is_ok (case p of None \<Rightarrow> x | Some a \<Rightarrow> f a)"
  by (auto split: option.split) (cases k; simp)

lemma concat_results_ok: "(\<And>r. r \<in> set rs \<Longrightarrow> is_ok r) \<Longrightarrow> is_ok (concat_results rs)"
proof (induction rs)
  case (Cons r rs)
  then obtain x y where "r = Inr x" "concat_results rs = Inr y"
    by (metis is_ok.elims(2) list.set_intros)
  then show ?case by simp
qed simp

lemma concat_maps_ok:
  "(\<And>i b. (i, b) \<in> set m \<Longrightarrow> is_ok (F b)) \<Longrightarrow> is_ok (concat_results (map (\<lambda>(i, b). F b) m))"
  "(\<And>i b. (i, b) \<in> set m \<Longrightarrow> is_ok (F b)) \<Longrightarrow> (\<And>i b. (i, b) \<in> set m' \<Longrightarrow> is_ok (G b)) \<Longrightarrow>
   is_ok (concat_results (map (\<lambda>(i, b). F b) m @ map (\<lambda>(i, b). G b) m'))"
  by (auto intro!: concat_results_ok)

lemma entities_from_returns: "k \<noteq> INVALID_ENTITY \<Longrightarrow> is_ok (entities_from db k r)"
proof (induction db k r rule: entities_from.induct)
  case (1 db k)
  then show ?case by (simp add: entities_from.simps(1) returns_intros)
next
  case (2 db k a)
  note k = \<open>k \<noteq> INVALID_ENTITY\<close>
  show ?case unfolding entities_from.simps(2)
    by (intro returns_intros concat_maps_ok) ((rule 2; (assumption | rule k)) | use k in \<open>simp add: 2\<close>)+
next
  case (3 db k a)
  note k = \<open>k \<noteq> INVALID_ENTITY\<close>
  show ?case unfolding entities_from.simps(3)
    by (intro returns_intros concat_maps_ok) ((rule 3; (assumption | rule k)) | use k in \<open>simp add: 3\<close>)+
next
  case (4 db k a)
  note k = \<open>k \<noteq> INVALID_ENTITY\<close>
  show ?case unfolding entities_from.simps(4)
    by (intro returns_intros concat_maps_ok) ((rule 4; (assumption | rule k)) | use k in \<open>simp add: 4\<close>)+
next
  case (5 db k a)
  note k = \<open>k \<noteq> INVALID_ENTITY\<close>
  show ?case unfolding entities_from.simps(5)
    by (intro returns_intros concat_maps_ok) ((rule 5; (assumption | rule k)) | use k in \<open>simp add: 5\<close>)+
next
  case (6 db k a)
  note k = \<open>k \<noteq> INVALID_ENTITY\<close>
  show ?case unfolding entities_from.simps(6)
    by (intro returns_intros concat_maps_ok) ((rule 6; (assumption | rule k)) | use k in \<open>simp add: 6\<close>)+
next
  case (7 db k a)
  note k = \<open>k \<noteq> INVALID_ENTITY\<close>
  show ?case unfolding entities_from.simps(7)
    by (intro returns_intros concat_maps_ok) ((rule 7; (assumption | rule k)) | use k in \<open>simp add: 7\<close>)+
next
  case (8 db k a)
  note k = \<open>k \<noteq> INVALID_ENTITY\<close>
  show ?case unfolding entities_from.simps(8)
    by (intro returns_intros concat_maps_ok) ((rule 8; (assumption | rule k)) | use k in \<open>simp add: 8\<close>)+
next
  case (9 db k a)
  note k = \<open>k \<noteq> INVALID_ENTITY\<close>
  show ?case unfolding entities_from.simps(9)
    by (intro returns_intros concat_maps_ok) ((rule 9; (assumption | rule k)) | use k in \<open>simp add: 9\<close>)+
next
  case (10 db k a)
  note k = \<open>k \<noteq> INVALID_ENTITY\<close>
  show ?case unfolding entities_from.simps(10)
    by (intro returns_intros concat_maps_ok) ((rule 10; (assumption | rule k)) | use k in \<open>simp add: 10\<close>)+
qed

text \<open>
  C22: \<open>get_entities\<close> for a kind of entity ends whatever the references between the entities are, cyclic
  or expired ones included, and the one exception it throws is that for an unknown identifier.
\<close>

theorem get_entities_returns:
  assumes "k \<noteq> INVALID_ENTITY"
  shows "get_entities_nts db k i =
    (if i = all_id \<or> is_entity_present db i
     then Inr (remdups_adj (sort_key pointer_value (projr (entities_from db k
       (if i = all_id then None else Some (projr (get_entity_nts db i)))))))
     else Inl (no_such_entity i))"
proof -
  have ok: "\<exists>xs. entities_from db k r = Inr xs" for r
    using entities_from_returns [OF assms, of db r] by (cases "entities_from db k r") auto
  show ?thesis
  proof (cases "get_entity_nts db i")
    case (Inl e)
    then have "e = no_such_entity i" by (auto simp: get_entity_nts_def split: option.splits)
    then show ?thesis using Inl ok [of None] by (auto simp: get_entities_nts_def is_entity_present_def)
  next
    case (Inr r)
    then show ?thesis using ok [of None] ok [of "Some r"] by (auto simp: get_entities_nts_def is_entity_present_def)
  qed
qed

theorem get_entities_returns_witness:
  "get_entities_nts (new_database :: unit database) HOST (EntityId 99) = Inl (no_such_entity (EntityId 99))"
proof -
  have "\<not> is_entity_present (new_database :: unit database) (EntityId 99)"
    by (simp add: is_entity_present_def get_entity_nts_def find_entity_def new_database_def find_addr_def
        find_addr_in_def live_in_def)
  then show ?thesis
    using get_entities_returns [of HOST "new_database :: unit database" "EntityId 99"]
    by (simp add: all_id_def ENTITY_ID_ALL_def)
qed

lemma ref_eqI: "ref_kind x = ref_kind y \<Longrightarrow> ref_addr x = ref_addr y \<Longrightarrow> x = y"
  by (cases x; cases y) simp_all

lemma pointer_value_inj: "\<forall>x. Some x \<in> S \<longrightarrow> ref_kind x = k \<Longrightarrow> inj_on pointer_value S"
proof (rule inj_onI)
  fix x y assume s: "\<forall>x. Some x \<in> S \<longrightarrow> ref_kind x = k" "x \<in> S" "y \<in> S" "pointer_value x = pointer_value y"
  then show "x = y" by (cases x; cases y) (auto intro: ref_eqI)
qed

lemma remdups_adj_sort_distinct:
  "inj_on f (set xs) \<Longrightarrow> distinct (remdups_adj (sort_key f xs))"
proof -
  assume i: "inj_on f (set xs)"
  have "sorted_wrt (<) (map f (remdups_adj ys))" if "sorted (map f ys)" "inj_on f (set ys)" for ys
    using that
  proof (induction ys rule: remdups_adj.induct)
    case (3 x y ys)
    then show ?case
    proof (cases "x = y")
      case False
      have "f x \<noteq> f y" using 3(4) False by (auto simp: inj_on_def)
      moreover have "f x \<le> f y" using 3(3) by simp
      ultimately have "f x < f y" by simp
      moreover have "\<forall>z \<in> set (y # ys). f y \<le> f z" using 3(3) by auto
      moreover have "sorted_wrt (<) (map f (remdups_adj (y # ys)))"
        using 3(2) [OF False] 3(3,4) by (auto simp: inj_on_def)
      ultimately show ?thesis using False by fastforce
    qed simp
  qed simp_all
  from this [of "sort_key f xs"] i have "distinct (map f (remdups_adj (sort_key f xs)))"
    by (simp add: strict_sorted_iff)
  then show ?thesis by (simp add: distinct_map)
qed

text \<open>
  C21: every entity in an answer has the kind asked for, no entity is in it twice, and removing the
  duplicates loses none.
\<close>

theorem get_entities_kind_distinct:
  assumes "get_entities_nts db k i = Inr xs"
  shows "(\<forall>x. Some x \<in> set xs \<longrightarrow> ref_kind x = k) \<and> distinct xs \<and>
    (\<exists>ys. entities_from db k (if i = all_id then None else Some (projr (get_entity_nts db i))) = Inr ys \<and> set xs = set ys)"
proof -
  obtain ys where y: "entities_from db k (if i = all_id then None else Some (projr (get_entity_nts db i))) = Inr ys"
    and x: "xs = remdups_adj (sort_key pointer_value ys)"
    using assms by (auto simp: get_entities_nts_def bind_result_Inr_iff split: if_splits)
  have k: "\<forall>x. Some x \<in> set ys \<longrightarrow> ref_kind x = k" using entities_from_kind y unfolding kind_ok_def by blast
  then have "distinct xs" unfolding x by (intro remdups_adj_sort_distinct pointer_value_inj)
  moreover have "set xs = set ys" by (simp add: x)
  ultimately show ?thesis using y k by simp
qed

theorem get_entities_kind_distinct_witness:
  "\<exists>xs. get_entities_nts (example_tree True) HOST all_id = Inr xs \<and> (\<forall>x. Some x \<in> set xs \<longrightarrow> ref_kind x = HOST) \<and> distinct xs"
proof -
  obtain xs where "get_entities_nts (example_tree True) HOST all_id = Inr xs"
    by (simp add: get_entities_nts_def entities_from.simps(1))
  with get_entities_kind_distinct [OF this] show ?thesis by blast
qed

text \<open>
  An expired reference on the way passes for a request for all entities: where the map of a locator
  holds a writer that is gone, every topic, host or participant of the database is reported as related
  to the locator.
\<close>

theorem expired_reference_finds_all:
  assumes "locator_objs db a = Some l" and "(i, b) \<in> set (l_data_writers l)" and "writer_objs db b = None"
    and "k \<in> {HOST, USER, PROCESS, PARTICIPANT, TOPIC, DOMAIN}"
    and "all_entities db k = Inr xs" and "entities_from db k (Some (LocatorRef a)) = Inr ys"
  shows "set xs \<subseteq> set ys"
proof
  fix x assume x: "x \<in> set xs"
  have w: "entities_from db k (Some (DataWriterRef b)) = Inr xs"
    using assms(3,5) by (simp add: entities_from.simps(8))
  have "concat_results
      (map (\<lambda>(i, b). entities_from db k (Some (DataWriterRef b))) (l_data_writers l) @
       map (\<lambda>(i, b). entities_from db k (Some (DataReaderRef b))) (l_data_readers l)) = Inr ys"
    using assms(1,4,6) by (auto simp: entities_from.simps(10))
  from concat_results_mem [OF this, of x] show "x \<in> set ys"
    using w x assms(2) by force
qed

definition example_expired :: "unit database" where
  "example_expired = new_database\<lparr>locators := [(EntityId 1, 0)],
     locator_objs := [0 \<mapsto> (new_locator ''l'')\<lparr>e_id := EntityId 1, l_data_writers := [(EntityId 2, 5)]\<rparr>],
     topics := [(EntityId 0, [(EntityId 3, 0)])],
     topic_objs := [0 \<mapsto> (new_topic ''t'' ''T'' None OK_STATUS)\<lparr>e_id := EntityId 3\<rparr>]\<rparr>"

theorem expired_reference_finds_all_witness:
  "\<exists>ys. entities_from example_expired TOPIC (Some (LocatorRef 0)) = Inr ys \<and> {Some (TopicRef 0)} \<subseteq> set ys"
proof -
  obtain l where l: "locator_objs example_expired 0 = Some l" "l_data_writers l = [(EntityId 2, 5)]"
    "l_data_readers l = []"
    by (simp add: example_expired_def entity_constructor_defs)
  have w: "writer_objs example_expired 5 = None" "all_entities example_expired TOPIC = Inr [Some (TopicRef 0)]"
    by (simp_all add: example_expired_def new_database_def map_of_maps_to_vector_def map_to_vector_def)
  obtain ys where "entities_from example_expired TOPIC (Some (LocatorRef 0)) = Inr ys"
    using l w by (simp add: entities_from.simps(8,10))
  with expired_reference_finds_all [OF l(1) _ w(1) _ w(2) this, of "EntityId 2"] l(2) show ?thesis by simp
qed

end
