(* ===== verification/DbClear.thy ===== *)
theory DbClear
  imports GetData DbNavigate
begin

text \<open>
  Forgetting: \<open>Database::clear_statistics_data\<close>, which drops old samples, and
  \<open>Database::clear_inactive_entities\<close>, which drops entities that are not alive and the references to
  them. The collections own the objects, so an entry that is erased frees its object.
\<close>

section \<open>Loops over collections\<close>

definition update_all :: "('o \<Rightarrow> 'o) \<Rightarrow> collection \<Rightarrow> (addr \<Rightarrow> 'o option) \<Rightarrow> addr \<Rightarrow> 'o option" where
  "update_all f m h = fold (\<lambda>(i, a). obj_update a f) m h"

definition update_all_in :: "('o \<Rightarrow> 'o) \<Rightarrow> domain_collection \<Rightarrow> (addr \<Rightarrow> 'o option) \<Rightarrow> addr \<Rightarrow> 'o option" where
  "update_all_in f mm h = fold (\<lambda>(d, m). update_all f m) mm h"

section \<open>Old samples\<close>

definition clear_statistics_data_nts :: "Timestamp \<Rightarrow> 'q database \<Rightarrow> 'q database" where
  "clear_statistics_data_nts t db = db\<lparr>
     participant_objs := update_all_in (\<lambda>p. p\<lparr>dp_data := clear_participant_data t False (dp_data p), dp_monitor := clear_participant_monitor t False (dp_monitor p)\<rparr>)
       (participants db) (participant_objs db),
     writer_objs := update_all_in (\<lambda>w. w\<lparr>dw_data := clear_writer_data t False (dw_data w), dw_monitor := clear_writer_monitor t False (dw_monitor w)\<rparr>)
       (datawriters db) (writer_objs db),
     reader_objs := update_all_in (\<lambda>r. r\<lparr>dr_data := clear_reader_data t False (dr_data r), dr_monitor := clear_reader_monitor t False (dr_monitor r)\<rparr>)
       (datareaders db) (reader_objs db)\<rparr>"

section \<open>Inactive entities\<close>

text \<open>\<open>clear_inactive_entities_from_map_\<close> of a map of objects: its entries, and the objects left.\<close>

definition alive :: "(addr \<Rightarrow> ('o Entity_scheme) option) \<Rightarrow> addr \<Rightarrow> bool" where
  "alive h a \<longleftrightarrow> (case h a of None \<Rightarrow> True | Some x \<Rightarrow> active x)"

definition drop_inactive :: "(addr \<Rightarrow> ('o Entity_scheme) option) \<Rightarrow> collection \<Rightarrow> collection" where
  "drop_inactive h m = filter (\<lambda>(i, a). alive h a) m"

definition free_inactive :: "collection \<Rightarrow> (addr \<Rightarrow> ('o Entity_scheme) option) \<Rightarrow> addr \<Rightarrow> ('o Entity_scheme) option" where
  "free_inactive m h = fold (\<lambda>(i, a) h. if alive h a then h else h(a := None)) m h"

definition drop_inactive_in :: "(addr \<Rightarrow> ('o Entity_scheme) option) \<Rightarrow> domain_collection \<Rightarrow> domain_collection" where
  "drop_inactive_in h mm = map (\<lambda>(d, m). (d, drop_inactive h m)) mm"

definition free_inactive_in ::
  "domain_collection \<Rightarrow> (addr \<Rightarrow> ('o Entity_scheme) option) \<Rightarrow> addr \<Rightarrow> ('o Entity_scheme) option" where
  "free_inactive_in mm h = fold (\<lambda>(d, m). free_inactive m) mm h"

text \<open>\<open>clear_inactive_entities_from_map_\<close> of a map of references.\<close>

definition drop_expired :: "(addr \<Rightarrow> 'o option) \<Rightarrow> collection \<Rightarrow> collection" where
  "drop_expired h m = filter (\<lambda>(i, a). \<not> fragile_expired h (Some a)) m"

definition clear_internal_references_nts :: "'q database \<Rightarrow> 'q database" where
  "clear_internal_references_nts db =
     (let db = db\<lparr>process_objs := update_all
            (\<lambda>p. p\<lparr>p_participants := drop_expired (participant_objs db) (p_participants p)\<rparr>) (processes db) (process_objs db)\<rparr>;
          db = db\<lparr>user_objs := update_all
            (\<lambda>u. u\<lparr>u_processes := drop_expired (process_objs db) (u_processes u)\<rparr>) (users db) (user_objs db)\<rparr>;
          db = db\<lparr>host_objs := update_all
            (\<lambda>h. h\<lparr>h_users := drop_expired (user_objs db) (h_users h)\<rparr>) (hosts db) (host_objs db)\<rparr>;
          db = db\<lparr>participant_objs := update_all_in
            (\<lambda>p. p\<lparr>dp_data_readers := drop_expired (reader_objs db) (dp_data_readers p),
                   dp_data_writers := drop_expired (writer_objs db) (dp_data_writers p)\<rparr>)
            (participants db) (participant_objs db)\<rparr>;
          db = db\<lparr>topic_objs := update_all_in
            (\<lambda>t. t\<lparr>t_data_readers := drop_expired (reader_objs db) (t_data_readers t),
                   t_data_writers := drop_expired (writer_objs db) (t_data_writers t)\<rparr>)
            (topics db) (topic_objs db)\<rparr>
      in db\<lparr>domain_objs := update_all
            (\<lambda>d. d\<lparr>d_topics := drop_expired (topic_objs db) (d_topics d),
                   d_participants := drop_expired (participant_objs db) (d_participants d)\<rparr>)
            (domains db) (domain_objs db)\<rparr>)"

definition clear_inactive_entities_nts :: "'q database \<Rightarrow> 'q database" where
  "clear_inactive_entities_nts db = clear_internal_references_nts (db\<lparr>
     hosts := drop_inactive (host_objs db) (hosts db), host_objs := free_inactive (hosts db) (host_objs db),
     users := drop_inactive (user_objs db) (users db), user_objs := free_inactive (users db) (user_objs db),
     processes := drop_inactive (process_objs db) (processes db),
     process_objs := free_inactive (processes db) (process_objs db),
     participants := drop_inactive_in (participant_objs db) (participants db),
     participant_objs := free_inactive_in (participants db) (participant_objs db),
     datawriters := drop_inactive_in (writer_objs db) (datawriters db),
     writer_objs := free_inactive_in (datawriters db) (writer_objs db),
     datareaders := drop_inactive_in (reader_objs db) (datareaders db),
     reader_objs := free_inactive_in (datareaders db) (reader_objs db),
     topics := drop_inactive_in (topic_objs db) (topics db),
     topic_objs := free_inactive_in (topics db) (topic_objs db)\<rparr>)"

section \<open>What the loops do\<close>

lemma update_all_apply:
  assumes "\<And>x. f (f x) = f x"
  shows "update_all f m h a = (if a \<in> snd ` set m then map_option f (h a) else h a)"
proof (induction m arbitrary: h)
  case (Cons e m)
  then show ?case
    by (cases e; cases "h a") (auto simp: update_all_def obj_update_apply assms)
qed (simp add: update_all_def)

lemma update_all_in_apply:
  assumes "\<And>x. f (f x) = f x"
  shows "update_all_in f mm h a = (if a \<in> snd ` entries_in mm then map_option f (h a) else h a)"
proof (induction mm arbitrary: h)
  case (Cons e mm)
  obtain d m where e: "e = (d, m)" by (cases e)
  have "update_all_in f (e # mm) h a = update_all_in f mm (update_all f m h) a"
    by (simp add: e update_all_in_def)
  also have "\<dots> = (if a \<in> snd ` entries_in (e # mm) then map_option f (h a) else h a)"
    unfolding Cons.IH update_all_apply [OF assms]
    by (cases "h a") (auto simp: e entries_in_def assms)
  finally show ?case .
qed (simp add: update_all_in_def entries_in_def)

lemma free_inactive_apply:
  "free_inactive m h a = (if a \<in> snd ` set m \<and> \<not> alive h a then None else h a)"
proof (induction m arbitrary: h)
  case (Cons e m)
  obtain i b where e: "e = (i, b)" by (cases e)
  have "free_inactive (e # m) h a = free_inactive m (if alive h b then h else h(b := None)) a"
    by (simp add: e free_inactive_def)
  also have "\<dots> = (if a \<in> snd ` set (e # m) \<and> \<not> alive h a then None else h a)"
    unfolding Cons.IH by (auto simp: e alive_def)
  finally show ?case .
qed (simp add: free_inactive_def)

lemma free_inactive_in_apply:
  "free_inactive_in mm h a = (if a \<in> snd ` entries_in mm \<and> \<not> alive h a then None else h a)"
proof (induction mm arbitrary: h)
  case (Cons e mm)
  obtain d m where e: "e = (d, m)" by (cases e)
  have "free_inactive_in (e # mm) h a = free_inactive_in mm (free_inactive m h) a"
    by (simp add: e free_inactive_in_def)
  also have "\<dots> = (if a \<in> snd ` entries_in (e # mm) \<and> \<not> alive h a then None else h a)"
    unfolding Cons.IH by (auto simp: e alive_def free_inactive_apply entries_in_def split: option.splits)
  finally show ?case .
qed (simp add: free_inactive_in_def entries_in_def)

section \<open>The tree without the inactive entities\<close>

text \<open>
  One level of the tree: parents and children that are alive stay, with their links; a parent is alive
  exactly when it has a child that is.
\<close>

lemma linked_clear:
  assumes l: "linked ph pm kids ch cm up" and m: "mirrors_except {} ph pm kids ch"
    and pm': "\<And>i b. (i, b) \<in> set pm' \<longleftrightarrow> (i, b) \<in> set pm \<and> alive ph b"
    and cm': "\<And>j a. (j, a) \<in> cm' \<longleftrightarrow> (j, a) \<in> cm \<and> alive ch a"
    and ph': "\<And>i b p. (i, b) \<in> set pm' \<Longrightarrow> ph b = Some p \<Longrightarrow>
      \<exists>p'. ph' b = Some p' \<and> active p' \<and> kids p' = drop_expired ch' (kids p)"
    and ch': "\<And>j a c. (j, a) \<in> cm \<Longrightarrow> ch a = Some c \<Longrightarrow>
      (if active c then \<exists>c'. ch' a = Some c' \<and> up c' = up c \<and> active c' else ch' a = None)"
  shows "linked ph' pm' kids ch' cm' up \<and> mirrors_except {} ph' pm' kids ch'"
proof -
  have parent: "\<exists>p'. ph' b = Some p' \<and> active p' \<and> om_wf (kids p') \<and> child_active ch' (kids p') \<and>
      (\<forall>(j, a) \<in> set (kids p'). (j, a) \<in> cm' \<and> (\<exists>c. ch' a = Some c \<and> up c = Some b))"
    if b: "(i, b) \<in> set pm'" for i b
  proof -
    have b': "(i, b) \<in> set pm" "alive ph b" using b pm' by auto
    obtain p where p: "ph b = Some p" "om_wf (kids p)"
      and k: "\<forall>(j, a) \<in> set (kids p). (j, a) \<in> cm \<and> (\<exists>c. ch a = Some c \<and> up c = Some b)"
      using linkedD_parent [OF l b'(1)] by blast
    obtain p' where p': "ph' b = Some p'" "active p'" "kids p' = drop_expired ch' (kids p)"
      using ph' [OF b p(1)] by blast
    have e: "(j, a) \<in> set (kids p') \<longleftrightarrow> (j, a) \<in> set (kids p) \<and> ch' a \<noteq> None" for j a
      unfolding p'(3) drop_expired_def fragile_expired_def fragile_lock_def by (auto split: option.splits)
    have kid: "(j, a) \<in> cm' \<and> (\<exists>c. ch' a = Some c \<and> up c = Some b \<and> active c)" if ja: "(j, a) \<in> set (kids p')" for j a
    proof -
      have "(j, a) \<in> set (kids p)" "ch' a \<noteq> None" using ja e by auto
      moreover from this k obtain c where c: "(j, a) \<in> cm" "ch a = Some c" "up c = Some b" by blast
      ultimately have "active c" using ch' [OF c(1,2)] by (auto split: if_splits)
      with c ch' [OF c(1,2)] show ?thesis using cm' by (auto simp: alive_def)
    qed
    have "active p" using b'(2) p(1) by (simp add: alive_def)
    then have "child_active ch (kids p)" using m b'(1) p(1) unfolding mirrors_except_def by blast
    then obtain j a c where c: "(j, a) \<in> set (kids p)" "ch a = Some c" "active c"
      by (auto simp: child_active_def)
    then have "(j, a) \<in> cm" using k by blast
    from ch' [OF this c(2)] c(3) obtain c' where "ch' a = Some c'" "active c'" by auto
    with e [of j a] c(1) have "child_active ch' (kids p')" by (auto simp: child_active_def)
    moreover have "om_wf (kids p')" unfolding p'(3) drop_expired_def using p(2) by (rule om_filter_wf)
    ultimately show ?thesis using p' kid by blast
  qed
  have child: "\<exists>c. ch' a = Some c \<and> (\<forall>b. up c = Some b \<longrightarrow> (\<exists>i p. (i, b) \<in> set pm' \<and> ph' b = Some p \<and> (j, a) \<in> set (kids p)))"
    if ja: "(j, a) \<in> cm'" for j a
  proof -
    have ja': "(j, a) \<in> cm" "alive ch a" using ja cm' by auto
    obtain c where c: "ch a = Some c" using linked_child_object [OF l ja'(1)] by blast
    then have "active c" using ja'(2) by (simp add: alive_def)
    then obtain c' where c': "ch' a = Some c'" "up c' = up c" "active c'" using ch' [OF ja'(1) c] by auto
    have "\<exists>i p. (i, b) \<in> set pm' \<and> ph' b = Some p \<and> (j, a) \<in> set (kids p)" if u: "up c' = Some b" for b
    proof -
      obtain i p where p: "(i, b) \<in> set pm" "ph b = Some p" "(j, a) \<in> set (kids p)"
        using linkedD_child [OF l ja'(1) c] c'(2) u by metis
      have "child_active ch (kids p)" using p(3) c \<open>active c\<close> by (auto simp: child_active_def)
      then have "active p" using m p(1,2) unfolding mirrors_except_def by blast
      then have b: "(i, b) \<in> set pm'" using pm' p(1,2) by (simp add: alive_def)
      then obtain p' where p': "ph' b = Some p'" "kids p' = drop_expired ch' (kids p)" using ph' p(2) by blast
      have "(j, a) \<in> set (kids p')"
        unfolding p'(2) drop_expired_def using p(3) c'(1) by (simp add: fragile_expired_def fragile_lock_def)
      with b p'(1) show ?thesis by blast
    qed
    with c'(1) show ?thesis by blast
  qed
  have "linked ph' pm' kids ch' cm' up" unfolding linked_def using parent child by blast
  moreover have "mirrors_except {} ph' pm' kids ch'" unfolding mirrors_except_def using parent by fastforce
  ultimately show ?thesis ..
qed

lemma drop_expired_idem [simp]: "drop_expired h (drop_expired h m) = drop_expired h m"
  by (simp add: drop_expired_def)

lemma drop_expired_cong: "(\<And>a. h a = None \<longleftrightarrow> h' a = None) \<Longrightarrow> drop_expired h m = drop_expired h' m"
  by (auto simp: drop_expired_def fragile_expired_def fragile_lock_def intro!: filter_cong split: option.splits)

lemma drop_inactive_set: "(i, a) \<in> set (drop_inactive h m) \<longleftrightarrow> (i, a) \<in> set m \<and> alive h a"
  by (auto simp: drop_inactive_def)

lemma entries_in_iff: "(i, a) \<in> entries_in mm \<longleftrightarrow> (\<exists>d m. (d, m) \<in> set mm \<and> (i, a) \<in> set m)"
  unfolding entries_in_def by force

lemma drop_inactive_in_set: "(i, a) \<in> entries_in (drop_inactive_in h mm) \<longleftrightarrow> (i, a) \<in> entries_in mm \<and> alive h a"
  unfolding entries_in_iff by (force simp: drop_inactive_in_def drop_inactive_set)

text \<open>The collections and the objects of the physical entities afterwards.\<close>

lemma clear_inactive_collections:
  "hosts (clear_inactive_entities_nts db) = drop_inactive (host_objs db) (hosts db)"
  "users (clear_inactive_entities_nts db) = drop_inactive (user_objs db) (users db)"
  "processes (clear_inactive_entities_nts db) = drop_inactive (process_objs db) (processes db)"
  "participants (clear_inactive_entities_nts db) = drop_inactive_in (participant_objs db) (participants db)"
  by (simp_all add: clear_inactive_entities_nts_def clear_internal_references_nts_def Let_def)

lemma clear_inactive_objects:
  "participant_objs (clear_inactive_entities_nts db) =
     update_all_in (\<lambda>p. p\<lparr>dp_data_readers := drop_expired (free_inactive_in (datareaders db) (reader_objs db)) (dp_data_readers p),
         dp_data_writers := drop_expired (free_inactive_in (datawriters db) (writer_objs db)) (dp_data_writers p)\<rparr>)
       (drop_inactive_in (participant_objs db) (participants db)) (free_inactive_in (participants db) (participant_objs db))"
  "process_objs (clear_inactive_entities_nts db) =
     update_all (\<lambda>p. p\<lparr>p_participants := drop_expired (free_inactive_in (participants db) (participant_objs db)) (p_participants p)\<rparr>)
       (drop_inactive (process_objs db) (processes db)) (free_inactive (processes db) (process_objs db))"
  "user_objs (clear_inactive_entities_nts db) =
     update_all (\<lambda>u. u\<lparr>u_processes := drop_expired (process_objs (clear_inactive_entities_nts db)) (u_processes u)\<rparr>)
       (drop_inactive (user_objs db) (users db)) (free_inactive (users db) (user_objs db))"
  "host_objs (clear_inactive_entities_nts db) =
     update_all (\<lambda>h. h\<lparr>h_users := drop_expired (user_objs (clear_inactive_entities_nts db)) (h_users h)\<rparr>)
       (drop_inactive (host_objs db) (hosts db)) (free_inactive (hosts db) (host_objs db))"
  by (simp_all add: clear_inactive_entities_nts_def clear_internal_references_nts_def Let_def)

text \<open>An object of a collection after freeing and an update that keeps it alive.\<close>

lemma cleared_object:
  assumes "(i, a) \<in> set m" and "h a = Some x" and "\<And>x. f (f x) = f x"
  shows "update_all f (drop_inactive h m) (free_inactive m h) a = (if active x then Some (f x) else None)"
  using assms(1,2) by (force simp: update_all_apply [where f = f, OF assms(3)] free_inactive_apply alive_def drop_inactive_def)

lemma cleared_object_in:
  assumes "(i, a) \<in> entries_in mm" and "h a = Some x" and "\<And>x. f (f x) = f x"
  shows "update_all_in f (drop_inactive_in h mm) (free_inactive_in mm h) a = (if active x then Some (f x) else None)"
proof -
  have "a \<in> snd ` entries_in mm" using assms(1) by force
  moreover have "a \<in> snd ` entries_in (drop_inactive_in h mm)" if "alive h a"
    using assms(1) that drop_inactive_in_set [of i a h mm] by force
  ultimately show ?thesis
    using assms(2) by (auto simp: update_all_in_apply [where f = f, OF assms(3)] free_inactive_in_apply alive_def)
qed

lemma owned_clear:
  assumes "owned h idf m"
    and "\<And>a x. (idf x, a) \<in> set m \<Longrightarrow> h a = Some x \<Longrightarrow> active x \<Longrightarrow> \<exists>x'. h' a = Some x' \<and> idf x' = idf x"
  shows "owned h' idf (drop_inactive h m)"
proof -
  have "\<exists>x'. h' a = Some x' \<and> idf x' = k" if ka: "(k, a) \<in> set (drop_inactive h m)" for k a
  proof -
    obtain x where x: "h a = Some x" "idf x = k" using owned_find [OF assms(1)] ka drop_inactive_set [of k a h m] by blast
    with ka have "active x" by (auto simp: drop_inactive_set alive_def)
    then show ?thesis using assms(2) [of x a] x ka by (simp add: drop_inactive_set)
  qed
  moreover have "om_wf (drop_inactive h m)"
    unfolding drop_inactive_def using owned_wf [OF assms(1)] by (rule om_filter_wf)
  ultimately show ?thesis unfolding owned_def by blast
qed

lemma owned_in_clear:
  assumes "owned_in h idf mm"
    and "\<And>a x. (idf x, a) \<in> entries_in mm \<Longrightarrow> h a = Some x \<Longrightarrow> active x \<Longrightarrow> \<exists>x'. h' a = Some x' \<and> idf x' = idf x"
  shows "owned_in h' idf (drop_inactive_in h mm)"
proof -
  have "owned h' idf m'" if d: "(d, m') \<in> set (drop_inactive_in h mm)" for d m'
  proof -
    obtain m where m: "(d, m) \<in> set mm" "m' = drop_inactive h m" using d by (auto simp: drop_inactive_in_def)
    then have o: "owned h idf m" using assms(1) by (auto simp: owned_in_def)
    show ?thesis unfolding m(2)
    proof (rule owned_clear [OF o])
      fix a x assume "(idf x, a) \<in> set m" "h a = Some x" "active x"
      with m(1) show "\<exists>x'. h' a = Some x' \<and> idf x' = idf x" by (intro assms(2)) (auto simp: entries_in_iff)
    qed
  qed
  moreover have "om_wf (drop_inactive_in h mm)"
    using om_map_wf [of mm "\<lambda>d. drop_inactive h"] assms(1) by (simp add: drop_inactive_in_def owned_in_def)
  ultimately show ?thesis unfolding owned_in_def by blast
qed

lemma drop_inactive_keys: "set (om_keys (drop_inactive h m)) \<subseteq> set (om_keys m)"
  by (auto simp: drop_inactive_def)

lemma set_keys_in: "set (keys_in mm) = fst ` entries_in mm"
  by (induction mm) (auto simp: keys_in_def entries_in_def image_Un)

lemma drop_inactive_in_keys: "set (keys_in (drop_inactive_in h mm)) \<subseteq> set (keys_in mm)"
proof
  fix i assume "i \<in> set (keys_in (drop_inactive_in h mm))"
  then obtain a where "(i, a) \<in> entries_in (drop_inactive_in h mm)" unfolding set_keys_in by force
  then have "(i, a) \<in> entries_in mm" unfolding drop_inactive_in_set by blast
  then show "i \<in> set (keys_in mm)" unfolding set_keys_in by force
qed

lemma distinct_keys_clear: "distinct (keys_in mm) \<Longrightarrow> distinct (keys_in (drop_inactive_in h mm))"
proof (induction mm)
  case (Cons e mm)
  obtain d m where e: "e = (d, m)" by (cases e)
  have k: "keys_in (drop_inactive_in h (e # mm)) = om_keys (drop_inactive h m) @ keys_in (drop_inactive_in h mm)"
    "keys_in (e # mm) = om_keys m @ keys_in mm"
    by (simp_all add: e keys_in_def drop_inactive_in_def)
  have "distinct (om_keys (drop_inactive h m))"
    using Cons.prems k(2) by (simp add: drop_inactive_def distinct_map_filter)
  moreover have "set (om_keys m) \<inter> set (keys_in mm) = {}" "distinct (keys_in (drop_inactive_in h mm))"
    using Cons k(2) by simp_all
  ultimately show ?case
    unfolding k(1) distinct_append using drop_inactive_keys [of h m] drop_inactive_in_keys [of h mm] by blast
qed (simp add: keys_in_def drop_inactive_in_def)

text \<open>
  An object of the tree afterwards: gone when it was not alive, and otherwise with its identifier, its
  parent and its activity, and without its children that are gone.
\<close>

lemma cleared_host:
  assumes "(i, a) \<in> set (hosts db)" and "host_objs db a = Some h"
  shows "host_objs (clear_inactive_entities_nts db) a =
    (if active h then Some (h\<lparr>h_users := drop_expired (user_objs (clear_inactive_entities_nts db)) (h_users h)\<rparr>) else None)"
  unfolding clear_inactive_objects using assms by (rule cleared_object) simp

lemma cleared_user:
  assumes "(i, a) \<in> set (users db)" and "user_objs db a = Some u"
  shows "user_objs (clear_inactive_entities_nts db) a =
    (if active u then Some (u\<lparr>u_processes := drop_expired (process_objs (clear_inactive_entities_nts db)) (u_processes u)\<rparr>) else None)"
  unfolding clear_inactive_objects(3) using assms by (rule cleared_object) simp

lemma participants_expire:
  "drop_expired (free_inactive_in (participants db) (participant_objs db)) m =
   drop_expired (participant_objs (clear_inactive_entities_nts db)) m"
  unfolding clear_inactive_objects(1) by (rule drop_expired_cong) (simp add: update_all_in_apply)

lemma cleared_process:
  assumes "(i, a) \<in> set (processes db)" and "process_objs db a = Some p"
  shows "process_objs (clear_inactive_entities_nts db) a =
    (if active p then Some (p\<lparr>p_participants := drop_expired (participant_objs (clear_inactive_entities_nts db)) (p_participants p)\<rparr>) else None)"
  unfolding clear_inactive_objects(2) participants_expire using assms by (rule cleared_object) simp

lemma cleared_participant:
  assumes "(i, a) \<in> entries_in (participants db)" and "participant_objs db a = Some p"
  shows "if active p then \<exists>p'. participant_objs (clear_inactive_entities_nts db) a = Some p' \<and>
      dp_process p' = dp_process p \<and> active p' \<and> e_id p' = e_id p
    else participant_objs (clear_inactive_entities_nts db) a = None"
  unfolding clear_inactive_objects(1) using cleared_object_in [where h = "participant_objs db", OF assms] by simp

lemma clear_inactive_tree:
  assumes inv: "phys_inv db"
  shows "phys_inv (clear_inactive_entities_nts db)"
proof -
  let ?db = "clear_inactive_entities_nts db"
  have ow: "owned (host_objs db) e_id (hosts db)" "owned (user_objs db) e_id (users db)"
      "owned (process_objs db) e_id (processes db)" "owned_in (participant_objs db) e_id (participants db)"
      "distinct (keys_in (participants db))"
    and li: "linked (host_objs db) (hosts db) h_users (user_objs db) (set (users db)) u_host"
      "linked (user_objs db) (users db) u_processes (process_objs db) (set (processes db)) p_user"
      "linked (process_objs db) (processes db) p_participants (participant_objs db) (entries_in (participants db)) dp_process"
    and pa: "has_parent (user_objs db) u_host (users db)" "has_parent (process_objs db) p_user (processes db)"
    and mi: "mirrors_except {} (host_objs db) (hosts db) h_users (user_objs db)"
      "mirrors_except {} (user_objs db) (users db) u_processes (process_objs db)"
      "mirrors_except {} (process_objs db) (processes db) p_participants (participant_objs db)"
    using inv by (simp_all add: phys_inv_def phys_owned_def phys_links_def phys_activity_def)
  have al: "(i, a) \<in> set (hosts ?db) \<Longrightarrow> host_objs db a = Some h \<Longrightarrow> active h \<and> (i, a) \<in> set (hosts db)"
    "(i, a) \<in> set (users ?db) \<Longrightarrow> user_objs db a = Some u \<Longrightarrow> active u \<and> (i, a) \<in> set (users db)"
    "(i, a) \<in> set (processes ?db) \<Longrightarrow> process_objs db a = Some p \<Longrightarrow> active p \<and> (i, a) \<in> set (processes db)"
    for i a h u p
    by (auto simp: clear_inactive_collections drop_inactive_set alive_def)
  have "linked (host_objs ?db) (hosts ?db) h_users (user_objs ?db) (set (users ?db)) u_host \<and>
      mirrors_except {} (host_objs ?db) (hosts ?db) h_users (user_objs ?db)"
    by (rule linked_clear [OF li(1) mi(1)])
      (use al(1) in \<open>auto simp: clear_inactive_collections drop_inactive_set cleared_host cleared_user\<close>)
  moreover have "linked (user_objs ?db) (users ?db) u_processes (process_objs ?db) (set (processes ?db)) p_user \<and>
      mirrors_except {} (user_objs ?db) (users ?db) u_processes (process_objs ?db)"
    by (rule linked_clear [OF li(2) mi(2)])
      (use al(2) in \<open>auto simp: clear_inactive_collections drop_inactive_set cleared_user cleared_process\<close>)
  moreover have "linked (process_objs ?db) (processes ?db) p_participants (participant_objs ?db) (entries_in (participants ?db)) dp_process \<and>
      mirrors_except {} (process_objs ?db) (processes ?db) p_participants (participant_objs ?db)"
  proof (rule linked_clear [OF li(3) mi(3)])
    fix j a c assume "(j, a) \<in> entries_in (participants db)" and "participant_objs db a = Some c"
    from cleared_participant [OF this]
    show "if active c then \<exists>c'. participant_objs ?db a = Some c' \<and> dp_process c' = dp_process c \<and> active c'
      else participant_objs ?db a = None" by (auto split: if_splits)
  qed (use al(3) in \<open>auto simp: clear_inactive_collections drop_inactive_set drop_inactive_in_set cleared_process\<close>)
  moreover have "owned (host_objs ?db) e_id (hosts ?db)" "owned (user_objs ?db) e_id (users ?db)"
      "owned (process_objs ?db) e_id (processes ?db)"
    using ow(1-3) unfolding clear_inactive_collections
    by (auto intro!: owned_clear simp: cleared_host cleared_user cleared_process)
  moreover have "owned_in (participant_objs ?db) e_id (participants ?db)"
    unfolding clear_inactive_collections
  proof (rule owned_in_clear [OF ow(4)])
    fix a x assume "(e_id x, a) \<in> entries_in (participants db)" "participant_objs db a = Some x" "active x"
    then show "\<exists>x'. participant_objs ?db a = Some x' \<and> e_id x' = e_id x" using cleared_participant [of "e_id x" a db x] by auto
  qed
  moreover have "has_parent (user_objs ?db) u_host (users ?db)"
    unfolding has_parent_def
  proof
    fix e assume e: "e \<in> set (users ?db)"
    obtain i a where ia: "e = (i, a)" by (cases e)
    then have "(i, a) \<in> set (users db)" using e by (auto simp: clear_inactive_collections drop_inactive_set)
    moreover from this pa(1) obtain u b where "user_objs db a = Some u" "u_host u = Some b" by (fastforce simp: has_parent_def)
    ultimately show "\<exists>c b. user_objs ?db (snd e) = Some c \<and> u_host c = Some b"
      using e ia al(2) [of i a u] by (simp add: cleared_user)
  qed
  moreover have "has_parent (process_objs ?db) p_user (processes ?db)"
    unfolding has_parent_def
  proof
    fix e assume e: "e \<in> set (processes ?db)"
    obtain i a where ia: "e = (i, a)" by (cases e)
    then have "(i, a) \<in> set (processes db)" using e by (auto simp: clear_inactive_collections drop_inactive_set)
    moreover from this pa(2) obtain u b where "process_objs db a = Some u" "p_user u = Some b" by (fastforce simp: has_parent_def)
    ultimately show "\<exists>c b. process_objs ?db (snd e) = Some c \<and> p_user c = Some b"
      using e ia al(3) [of i a u] by (simp add: cleared_process)
  qed
  moreover have "distinct (keys_in (participants ?db))"
    unfolding clear_inactive_collections using ow(5) by (rule distinct_keys_clear)
  ultimately show ?thesis by (simp add: phys_inv_def phys_owned_def phys_links_def phys_activity_def)
qed

text \<open>The entities left keep their identifier and the reference to their parent.\<close>

lemma cleared_parents:
  "(i, a) \<in> set (users db) \<Longrightarrow> user_objs db a = Some u \<Longrightarrow> active u \<Longrightarrow>
     \<exists>u'. user_objs (clear_inactive_entities_nts db) a = Some u' \<and> e_id u' = e_id u \<and> u_host u' = u_host u"
  "(i, a) \<in> set (processes db) \<Longrightarrow> process_objs db a = Some p \<Longrightarrow> active p \<Longrightarrow>
     \<exists>p'. process_objs (clear_inactive_entities_nts db) a = Some p' \<and> e_id p' = e_id p \<and> p_user p' = p_user p"
  "(i, a) \<in> entries_in (participants db) \<Longrightarrow> participant_objs db a = Some q \<Longrightarrow> active q \<Longrightarrow>
     \<exists>q'. participant_objs (clear_inactive_entities_nts db) a = Some q' \<and> e_id q' = e_id q \<and> dp_process q' = dp_process q"
  using cleared_participant [of i a db q] by (auto simp: cleared_user cleared_process)

definition switched_on :: "(addr \<Rightarrow> ('o Entity_scheme) option) \<Rightarrow> addr \<Rightarrow> bool" where
  "switched_on h a \<longleftrightarrow> (\<exists>x. h a = Some x \<and> active x)"

text \<open>
  C23: \<open>clear_inactive_entities\<close> keeps the physical tree in order; the hosts, users, processes and
  participants left are exactly those that were alive; and the users, processes and participants left
  have the host, the user and the process they had.
\<close>

theorem clear_inactive_keeps_tree:
  assumes "phys_inv db"
  shows "let db' = clear_inactive_entities_nts db in phys_inv db' \<and>
    (\<forall>i a. ((i, a) \<in> set (hosts db') \<longleftrightarrow> (i, a) \<in> set (hosts db) \<and> switched_on (host_objs db) a) \<and>
       ((i, a) \<in> set (users db') \<longleftrightarrow> (i, a) \<in> set (users db) \<and> switched_on (user_objs db) a) \<and>
       ((i, a) \<in> set (processes db') \<longleftrightarrow> (i, a) \<in> set (processes db) \<and> switched_on (process_objs db) a) \<and>
       ((i, a) \<in> entries_in (participants db') \<longleftrightarrow>
          (i, a) \<in> entries_in (participants db) \<and> switched_on (participant_objs db) a) \<and>
       ((i, a) \<in> set (users db') \<longrightarrow> map_option u_host (user_objs db' a) = map_option u_host (user_objs db a)) \<and>
       ((i, a) \<in> set (processes db') \<longrightarrow>
          map_option p_user (process_objs db' a) = map_option p_user (process_objs db a)) \<and>
       ((i, a) \<in> entries_in (participants db') \<longrightarrow>
          map_option dp_process (participant_objs db' a) = map_option dp_process (participant_objs db a)))"
proof -
  have o: "(i, a) \<in> set (hosts db) \<Longrightarrow> \<exists>x. host_objs db a = Some x"
      "(i, a) \<in> set (users db) \<Longrightarrow> \<exists>x. user_objs db a = Some x"
      "(i, a) \<in> set (processes db) \<Longrightarrow> \<exists>x. process_objs db a = Some x"
      "(i, a) \<in> entries_in (participants db) \<Longrightarrow> \<exists>x. participant_objs db a = Some x" for i a
    using assms owned_find [of "host_objs db" e_id "hosts db" i a] owned_find [of "user_objs db" e_id "users db" i a]
      owned_find [of "process_objs db" e_id "processes db" i a]
    by (auto simp: phys_inv_def phys_owned_def) (fastforce simp: owned_in_def owned_def entries_in_iff)
  have al: "alive h a \<longleftrightarrow> switched_on h a" if "\<exists>x. h a = Some x" for h :: "addr \<Rightarrow> ('o Entity_scheme) option" and a
    using that by (auto simp: alive_def switched_on_def)
  have c: "(i, a) \<in> set (hosts (clear_inactive_entities_nts db)) \<longleftrightarrow> (i, a) \<in> set (hosts db) \<and> switched_on (host_objs db) a"
      "(i, a) \<in> set (users (clear_inactive_entities_nts db)) \<longleftrightarrow> (i, a) \<in> set (users db) \<and> switched_on (user_objs db) a"
      "(i, a) \<in> set (processes (clear_inactive_entities_nts db)) \<longleftrightarrow>
         (i, a) \<in> set (processes db) \<and> switched_on (process_objs db) a"
      "(i, a) \<in> entries_in (participants (clear_inactive_entities_nts db)) \<longleftrightarrow>
         (i, a) \<in> entries_in (participants db) \<and> switched_on (participant_objs db) a" for i a
    using al [of "host_objs db" a] al [of "user_objs db" a] al [of "process_objs db" a]
      al [of "participant_objs db" a] o [of i a]
    unfolding clear_inactive_collections drop_inactive_set drop_inactive_in_set by blast+
  show ?thesis
    unfolding Let_def c using clear_inactive_tree [OF assms] cleared_parents
    by (fastforce simp: switched_on_def)
qed

theorem clear_inactive_keeps_tree_witness:
  "phys_inv (clear_inactive_entities_nts (example_tree False)) \<and>
   (EntityId 1, 0) \<notin> set (hosts (clear_inactive_entities_nts (example_tree False)))"
proof -
  have "\<not> switched_on (host_objs (example_tree False)) 0"
    by (simp add: switched_on_def example_tree_def entity_constructor_defs)
  with clear_inactive_keeps_tree [OF example_tree_inv, of False] show ?thesis unfolding Let_def by blast
qed

section \<open>Queries after old samples are dropped\<close>

lemma dc_clear_idem [simp]: "dc_clear ts t (dc_clear ts t xs) = dc_clear ts t xs"
proof -
  have "drop (dc_find ts t (drop (dc_find ts t xs) xs)) (drop (dc_find ts t xs) xs) = drop (dc_find ts t xs) xs" for xs
    by (induction xs) auto
  then show ?thesis by (simp add: dc_clear_def)
qed

lemma mdc_clear_idem [simp]: "mdc_clear ts t (mdc_clear ts t m) = mdc_clear ts t m"
proof -
  have "mdc_clear_loop ts t (mdc_clear_loop ts t m) = mdc_clear_loop ts t m"
    by (induction ts t m rule: mdc_clear_loop.induct) (auto simp: Let_def)
  then show ?thesis by (simp add: mdc_clear_def)
qed

lemma clear_data_idem:
  "clear_participant_data t False (clear_participant_data t False p) = clear_participant_data t False p"
  "clear_writer_data t False (clear_writer_data t False w) = clear_writer_data t False w"
  "clear_reader_data t False (clear_reader_data t False r) = clear_reader_data t False r"
  "clear_participant_monitor t False (clear_participant_monitor t False mp) = clear_participant_monitor t False mp"
  "clear_writer_monitor t False (clear_writer_monitor t False mw) = clear_writer_monitor t False mw"
  "clear_reader_monitor t False (clear_reader_monitor t False mr) = clear_reader_monitor t False mr"
  by (simp_all add: clear_participant_data_def clear_rtps_data_def clear_writer_data_def clear_reader_data_def Let_def
      clear_participant_monitor_def clear_writer_monitor_def clear_reader_monitor_def)

lemma cleared_data:
  "participant_objs (clear_statistics_data_nts t db) a =
    (if a \<in> snd ` entries_in (participants db)
     then map_option (\<lambda>p. p\<lparr>dp_data := clear_participant_data t False (dp_data p), dp_monitor := clear_participant_monitor t False (dp_monitor p)\<rparr>) (participant_objs db a)
     else participant_objs db a)"
  "writer_objs (clear_statistics_data_nts t db) a =
    (if a \<in> snd ` entries_in (datawriters db)
     then map_option (\<lambda>w. w\<lparr>dw_data := clear_writer_data t False (dw_data w), dw_monitor := clear_writer_monitor t False (dw_monitor w)\<rparr>) (writer_objs db a)
     else writer_objs db a)"
  "reader_objs (clear_statistics_data_nts t db) a =
    (if a \<in> snd ` entries_in (datareaders db)
     then map_option (\<lambda>r. r\<lparr>dr_data := clear_reader_data t False (dr_data r), dr_monitor := clear_reader_monitor t False (dr_monitor r)\<rparr>) (reader_objs db a)
     else reader_objs db a)"
  by (simp_all add: clear_statistics_data_nts_def update_all_in_apply clear_data_idem)

lemma find_addr_updated:
  assumes "\<And>k a. (k, a) \<in> set m \<Longrightarrow> map_option e_id (h' a) = map_option e_id (h a)"
  shows "find_addr (\<lambda>x. e_id x = i) (live h' m) = find_addr (\<lambda>x. e_id x = i) (live h m)"
  using assms
proof (induction m)
  case (Cons e m)
  obtain k a where e: "e = (k, a)" by (cases e)
  from Cons.prems [of k a] Cons show ?case
    by (cases "h a"; cases "h' a") (auto simp: e find_addr_def)
qed (simp add: find_addr_def)

lemma find_addr_in_Cons:
  "find_addr_in P (live_in h ((d, m) # mm)) =
    (case find_addr P (live h m) of None \<Rightarrow> find_addr_in P (live_in h mm) | Some a \<Rightarrow> Some a)"
proof -
  have "find_addr_in P (map (Pair d) xs @ ys) = (case find_addr P xs of None \<Rightarrow> find_addr_in P ys | Some a \<Rightarrow> Some a)" for xs ys
    by (induction xs) (auto simp: find_addr_in_def find_addr_def)
  from this [of "live h m" "live_in h mm"] show ?thesis by (simp add: live_in_def)
qed

lemma find_addr_in_updated:
  assumes "\<And>k a. (k, a) \<in> entries_in mm \<Longrightarrow> map_option e_id (h' a) = map_option e_id (h a)"
  shows "find_addr_in (\<lambda>x. e_id x = i) (live_in h' mm) = find_addr_in (\<lambda>x. e_id x = i) (live_in h mm)"
  using assms
proof (induction mm)
  case (Cons e mm)
  obtain d m where e: "e = (d, m)" by (cases e)
  have "find_addr (\<lambda>x. e_id x = i) (live h' m) = find_addr (\<lambda>x. e_id x = i) (live h m)"
    using Cons.prems by (intro find_addr_updated) (auto simp: e entries_in_def)
  moreover have "find_addr_in (\<lambda>x. e_id x = i) (live_in h' mm) = find_addr_in (\<lambda>x. e_id x = i) (live_in h mm)"
    using Cons.prems by (intro Cons.IH) (auto simp: e entries_in_def)
  ultimately show ?case by (simp add: e find_addr_in_Cons split: option.split)
qed (simp add: live_in_def find_addr_in_def)

lemma cleared_collections [simp]:
  "hosts (clear_statistics_data_nts t db) = hosts db" "users (clear_statistics_data_nts t db) = users db"
  "processes (clear_statistics_data_nts t db) = processes db" "domains (clear_statistics_data_nts t db) = domains db"
  "topics (clear_statistics_data_nts t db) = topics db" "locators (clear_statistics_data_nts t db) = locators db"
  "participants (clear_statistics_data_nts t db) = participants db"
  "datareaders (clear_statistics_data_nts t db) = datareaders db"
  "datawriters (clear_statistics_data_nts t db) = datawriters db"
  "host_objs (clear_statistics_data_nts t db) = host_objs db" "user_objs (clear_statistics_data_nts t db) = user_objs db"
  "process_objs (clear_statistics_data_nts t db) = process_objs db" "domain_objs (clear_statistics_data_nts t db) = domain_objs db"
  "topic_objs (clear_statistics_data_nts t db) = topic_objs db" "locator_objs (clear_statistics_data_nts t db) = locator_objs db"
  by (simp_all add: clear_statistics_data_nts_def)

lemma get_entity_cleared: "get_entity_nts (clear_statistics_data_nts t db) i = get_entity_nts db i"
proof -
  let ?db = "clear_statistics_data_nts t db"
  have "find_addr_in (\<lambda>x. e_id x = i) (live_in (participant_objs ?db) (participants db)) =
      find_addr_in (\<lambda>x. e_id x = i) (live_in (participant_objs db) (participants db))"
    by (rule find_addr_in_updated) (simp add: cleared_data option.map_comp comp_def)
  moreover have "find_addr_in (\<lambda>x. e_id x = i) (live_in (writer_objs ?db) (datawriters db)) =
      find_addr_in (\<lambda>x. e_id x = i) (live_in (writer_objs db) (datawriters db))"
    by (rule find_addr_in_updated) (simp add: cleared_data option.map_comp comp_def)
  moreover have "find_addr_in (\<lambda>x. e_id x = i) (live_in (reader_objs ?db) (datareaders db)) =
      find_addr_in (\<lambda>x. e_id x = i) (live_in (reader_objs db) (datareaders db))"
    by (rule find_addr_in_updated) (simp add: cleared_data option.map_comp comp_def)
  ultimately show ?thesis by (simp add: get_entity_nts_def find_entity_def)
qed

lemma truncate_data:
  "Entity.truncate (p\<lparr>dp_data := d, dp_monitor := mp\<rparr>) = Entity.truncate p"
  "Entity.truncate (w\<lparr>dw_data := d', dw_monitor := mw\<rparr>) = Entity.truncate w"
  "Entity.truncate (r\<lparr>dr_data := d'', dr_monitor := mr\<rparr>) = Entity.truncate r"
  by (simp_all add: Entity.truncate_def)

lemma entity_of_cleared: "entity_of (clear_statistics_data_nts t db) r = entity_of db r"
  by (cases r) (simp_all add: cleared_data option.map_comp comp_def truncate_data)

lemma assert_kind_cleared: "assert_kind (clear_statistics_data_nts t db) ks i = assert_kind db ks i"
  by (simp add: assert_kind_def get_entity_kind_def get_entity_field_def get_entity_cleared entity_of_cleared)

text \<open>The entity that a query reads is in the collections, so that its statistics are cleared.\<close>

lemma first_some_mem: "first_some xs = Some x \<Longrightarrow> Some x \<in> set xs"
  by (induction xs rule: first_some.induct) auto

lemma find_addr_in_collected:
  assumes "find_addr_in P (live_in h mm) = Some a"
  shows "a \<in> snd ` entries_in mm"
proof -
  obtain e where e: "List.find (\<lambda>(d, k, a, x). P x) (live_in h mm) = Some e" "(\<lambda>(d, k, a, x). a) e = a"
    using assms by (auto simp: find_addr_in_def)
  obtain d k x where "e = (d, k, a, x)" using e(2) by (cases e) auto
  with e(1) have "(d, k, a, x) \<in> set (live_in h mm)" by (auto simp: find_Some_iff in_set_conv_nth)
  then show ?thesis unfolding live_in_set using entries_in_iff [of k a mm] by force
qed

lemma find_entity_collected:
  assumes "get_entity_nts db i = Inr r"
  shows "r = ParticipantRef a \<Longrightarrow> a \<in> snd ` entries_in (participants db)"
    and "r = DataWriterRef a \<Longrightarrow> a \<in> snd ` entries_in (datawriters db)"
    and "r = DataReaderRef a \<Longrightarrow> a \<in> snd ` entries_in (datareaders db)"
proof -
  have "find_entity db i = Some r" using assms by (simp add: get_entity_nts_def split: option.splits)
  note m = first_some_mem [OF this [unfolded find_entity_def]]
  show "r = ParticipantRef a \<Longrightarrow> a \<in> snd ` entries_in (participants db)"
    "r = DataWriterRef a \<Longrightarrow> a \<in> snd ` entries_in (datawriters db)"
    "r = DataReaderRef a \<Longrightarrow> a \<in> snd ` entries_in (datareaders db)"
    using m by (auto dest!: sym [of "Some _" "map_option _ _"] intro: find_addr_in_collected)
qed

text \<open>The series of an entity afterwards.\<close>

text \<open>A sample outlives clearing up to \<open>t\<close>: the end of time stands for everything.\<close>

definition outlives :: "Timestamp \<Rightarrow> Timestamp \<Rightarrow> bool" where
  "outlives t u \<longleftrightarrow> t \<noteq> the_end_of_time \<and> t \<le> u"

lemma dc_clear_outlives: "ts_sorted ts xs \<Longrightarrow> dc_clear ts t xs = filter (\<lambda>x. outlives t (ts x)) xs"
  by (simp add: dc_clear_eq_filter outlives_def)

lemma filter_stored:
  assumes "\<And>x. stored_ts (c x) = src_ts x" and "ts_sorted src_ts xs"
  shows "map c (dc_clear src_ts t xs) = filter (\<lambda>x. outlives t (stored_ts x)) (map c xs)"
  using assms by (simp add: dc_clear_outlives filter_map comp_def)

lemma select_key_cleared:
  assumes "mdc_wf src_ts m" and "\<And>x. stored_ts (c x) = src_ts x"
  shows "select_key c t_from t_to j (mdc_clear src_ts t m) =
    filter (\<lambda>x. outlives t (stored_ts x)) (select_key c t_from t_to j m)"
  using assms
  by (simp add: select_key_stored mdc_clear_mdc_wf mdc_clear_get filter_stored mdc_get_sorted conj_commute)

lemma select_loop_cleared:
  assumes "ts_sorted src_ts xs" and "\<And>x. stored_ts (c x) = src_ts x"
  shows "map c (select_loop t_from t_to (dc_clear src_ts t xs)) =
    filter (\<lambda>x. outlives t (stored_ts x)) (map c (select_loop t_from t_to xs))"
  using assms by (simp add: select_loop_stored dc_clear_sorted filter_stored conj_commute)

text \<open>The data kept per sequence number: one sample for each.\<close>

definition one_sample_each :: "('k, 'a list) omap \<Rightarrow> bool" where
  "one_sample_each m \<longleftrightarrow> (\<forall>(k, xs) \<in> set m. \<exists>x. xs = [x])"

lemma map_result_simps [simp]: "map_result f (Inl e) = Inl e" "map_result f (Inr x) = Inr (f x)"
  by (simp_all add: map_result_def)

lemma select_sample_datas_cleared:
  assumes "one_sample_each m"
  shows "select_sample_datas t_from t_to (mdc_clear src_ts t m) =
    bind_result (select_sample_datas t_from t_to m) (\<lambda>ys. Inr (filter (\<lambda>x. outlives t (src_ts x)) ys))"
proof (cases "t = the_end_of_time")
  case True
  have "\<exists>ys. select_sample_datas t_from t_to m = Inr ys"
    using assms by (induction m) (auto simp: one_sample_each_def)
  then show ?thesis using True by (auto simp: outlives_def)
next
  case False
  have "select_sample_datas t_from t_to (mdc_clear_loop src_ts t m) =
    bind_result (select_sample_datas t_from t_to m) (\<lambda>ys. Inr (filter (\<lambda>x. outlives t (src_ts x)) ys))"
    using assms
  proof (induction m)
    case (Cons e m)
    then obtain k x where "e = (k, [x])" by (cases e) (auto simp: one_sample_each_def)
    then show ?case
      using Cons False by (cases "select_sample_datas t_from t_to m")
        (auto simp: one_sample_each_def dc_clear_def outlives_def Let_def)
  qed simp
  then show ?thesis using False by (simp add: mdc_clear_def)
qed

text \<open>The cast entity after clearing.\<close>

lemma as_cleared:
  assumes "get_entity_nts db i = Inr r"
  shows "as_participant (clear_statistics_data_nts t db) r =
      map_result (\<lambda>p. p\<lparr>dp_data := clear_participant_data t False (dp_data p), dp_monitor := clear_participant_monitor t False (dp_monitor p)\<rparr>) (as_participant db r)"
    and "as_datawriter (clear_statistics_data_nts t db) r =
      map_result (\<lambda>w. w\<lparr>dw_data := clear_writer_data t False (dw_data w), dw_monitor := clear_writer_monitor t False (dw_monitor w)\<rparr>) (as_datawriter db r)"
    and "as_datareader (clear_statistics_data_nts t db) r =
      map_result (\<lambda>x. x\<lparr>dr_data := clear_reader_data t False (dr_data x), dr_monitor := clear_reader_monitor t False (dr_monitor x)\<rparr>) (as_datareader db r)"
  using find_entity_collected [OF assms]
  by (cases r; auto simp: cleared_data map_result_def bind_result_def split: option.split)+

lemma cast_data_wf:
  assumes "samples_wf db"
  shows "as_participant db r = Inr p \<Longrightarrow> participant_data_wf (dp_data p)"
    and "as_datawriter db r = Inr w \<Longrightarrow> writer_data_wf (dw_data w)"
    and "as_datareader db r = Inr x \<Longrightarrow> reader_data_wf (dr_data x)"
  using assms by (auto simp: as_Inr samples_wf_def)

lemma sorted_datas_cleared:
  assumes "one_sample_each m"
  shows "map_result (\<lambda>ys. map StoredCount (sort_key src_ts ys)) (select_sample_datas t_from t_to (mdc_clear src_ts t m)) =
    map_result (filter (\<lambda>x. outlives t (stored_ts x)))
      (map_result (\<lambda>ys. map StoredCount (sort_key src_ts ys)) (select_sample_datas t_from t_to m))"
  unfolding select_sample_datas_cleared [OF assms]
  by (cases "select_sample_datas t_from t_to m") (simp_all add: filter_map comp_def filter_sort)

definition single_datas :: "'q database \<Rightarrow> bool" where
  "single_datas db \<longleftrightarrow> (\<forall>a w. writer_objs db a = Some w \<longrightarrow> one_sample_each (sample_datas (dw_data w)))"

lemma one_sample_put: "one_sample_each m \<Longrightarrow> one_sample_each (om_put k [x] m)"
  by (induction m) (auto simp: one_sample_each_def)

lemma set_data_single:
  "single_datas (set_participant_data a f db) = single_datas db"
  "single_datas (set_reader_data a g db) = single_datas db"
  "single_datas db \<Longrightarrow> (\<And>d. one_sample_each (sample_datas d) \<Longrightarrow> one_sample_each (sample_datas (h d))) \<Longrightarrow>
     single_datas (set_writer_data a h db)"
  by (auto simp: single_datas_def set_participant_data_def set_reader_data_def set_writer_data_def obj_update_apply)

lemma sample_steps_single:
  "single_datas (snd (trigger_alerts_of_kind_nts clock d i e k v ob db)) = single_datas db"
  "single_datas (snd (get_locator_nts j db)) = single_datas db"
  by (auto simp: single_datas_def trigger_alerts_of_kind_nts_def split_beta get_locator_nts_def insert_locator_def
      checked_insert_def assign_entity_id_def generate_entity_id_def emit_def Let_def
      split: option.split prod.split sum.split if_splits)

lemma on_entity_single:
  "single_datas db \<Longrightarrow> (\<And>a x. single_datas (snd (f a x db))) \<Longrightarrow> single_datas (snd (on_entity what mm h d i f db))"
  by (simp add: on_entity_def split: option.split)

lemma act_bind_locator_single:
  assumes "single_datas db" and "\<And>a db'. single_datas db' \<Longrightarrow> single_datas (snd (f a db'))"
  shows "single_datas (snd (act_bind (get_locator_nts k) f db))"
  using assms sample_steps_single(2) [of k db] by (auto simp: act_bind_def split: prod.split sum.split)

lemma writer_count_single:
  assumes "single_datas db" and "\<And>r x. sample_datas (put r x) = sample_datas x"
  shows "single_datas (snd (insert_writer_count get put l r s d i db))"
  unfolding insert_writer_count_def
  by (rule on_entity_single [OF assms(1)]) (simp add: assms set_data_single(3))

lemma insert_single:
  assumes "single_datas db"
  shows "single_datas (snd (insert_fastdds_latency s1 d i db))" "single_datas (snd (insert_network_latency s2 d i db))"
    "single_datas (snd (insert_discovery_time s3 d i db))" "single_datas (snd (insert_sample_datas s4 d i db))"
    "single_datas (snd (insert_publication_throughput s5 d i db))"
    "single_datas (snd (insert_subscription_throughput clock s5 d i db))"
    "single_datas (snd (insert_reader_count gr pr l r s6 d i db))"
    "single_datas (snd (insert_participant_count gp pp l r s6 d i db))"
    "single_datas (snd (insert_data_count clock l r s6 d i db))"
    "single_datas (snd (insert_rtps_packets g1 p1 l r s7 d i db))" "single_datas (snd (insert_rtps_bytes g2 p2 l r s8 d i db))"
    "single_datas (snd (bad_class what mm h d i db))"
  unfolding insert_fastdds_latency_def insert_network_latency_def insert_discovery_time_def
    insert_sample_datas_def insert_publication_throughput_def insert_subscription_throughput_def
    insert_reader_count_def insert_participant_count_def insert_data_count_def insert_rtps_packets_def
    insert_rtps_bytes_def bad_class_def
  by (rule on_entity_single [OF assms], auto simp: assms set_data_single(1,2) sample_steps_single one_sample_put
      split: sum.split option.split bool.split prod.split intro!: set_data_single(3) act_bind_locator_single)+

text \<open>Inserting a sample keeps one sample for every sequence number.\<close>

lemma insert_sample_single:
  assumes "single_datas db"
  shows "single_datas (snd (insert_sample clock d i ob loading last_reported db))"
proof -
  note C = insert_resent_datas_def insert_heartbeat_count_def insert_gap_count_def insert_acknack_count_def
    insert_nackfrag_count_def insert_pdp_packets_def insert_edp_packets_def insert_rtps_packets_sent_def
    insert_rtps_packets_lost_def insert_rtps_bytes_sent_def insert_rtps_bytes_lost_def
  show ?thesis
    unfolding insert_sample_def Let_def
    by (cases ob) (auto simp: insert_single assms C split: DataKind.split intro!: writer_count_single)
qed

lemma single_datasD: "single_datas db \<Longrightarrow> as_datawriter db r = Inr w \<Longrightarrow> one_sample_each (sample_datas (dw_data w))"
  by (auto simp: single_datas_def as_Inr)

lemma select_two_cleared:
  assumes wf: "samples_wf db"
  shows "select_two k i j t_from t_to (clear_statistics_data_nts t db) =
    map_result (filter (\<lambda>x. outlives t (stored_ts x))) (select_two k i j t_from t_to db)"
proof (cases "t_to \<le> t_from \<or> is_ok (get_entity_nts db i) = False \<or> is_ok (get_entity_nts db j) = False")
  case True
  then show ?thesis
    by (cases "get_entity_nts db i"; cases "get_entity_nts db j")
      (auto simp: select_two_def get_entity_cleared)
next
  case False
  then obtain r s where r: "get_entity_nts db i = Inr r" "get_entity_nts db j = Inr s" and w: "\<not> t_to \<le> t_from"
    by (cases "get_entity_nts db i"; cases "get_entity_nts db j") auto
  have a: "assert_kind db ks j = Inr () \<or> (\<exists>e. assert_kind db ks j = Inl e)" for ks by (cases "assert_kind db ks j") auto
  note as = as_cleared [OF r(1), of t]
  show ?thesis
    using a [of "{DATAREADER}"] a [of "{LOCATOR}"] a [of "{PARTICIPANT, DATAREADER, DATAWRITER}"]
      cast_data_wf(1,2) [OF wf, of r] w r
    by (cases k; cases "as_participant db r"; cases "as_datawriter db r")
      (auto simp: select_two_def get_entity_cleared assert_kind_cleared as data_wf_defs select_key_cleared
        clear_participant_data_def clear_rtps_data_def clear_writer_data_def Let_def)
qed

lemma select_one_cleared:
  assumes wf: "samples_wf db" and one: "single_datas db"
  shows "select_one k i t_from t_to (clear_statistics_data_nts t db) =
    map_result (filter (\<lambda>x. outlives t (stored_ts x))) (select_one k i t_from t_to db)"
proof (cases "t_to \<le> t_from \<or> is_ok (get_entity_nts db i) = False")
  case True
  then show ?thesis by (cases "get_entity_nts db i") (auto simp: select_one_def get_entity_cleared)
next
  case False
  then obtain r where r: "get_entity_nts db i = Inr r" and w: "\<not> t_to \<le> t_from"
    by (cases "get_entity_nts db i") auto
  note as = as_cleared [OF r, of t]
  show ?thesis
    using cast_data_wf [OF wf, of r] w r single_datasD [OF one, of r]
    by (cases k; cases "as_participant db r"; cases "as_datawriter db r"; cases "as_datareader db r")
      (auto simp: select_one_def get_entity_cleared as data_wf_defs select_loop_cleared sorted_datas_cleared
        clear_participant_data_def clear_rtps_data_def clear_writer_data_def clear_reader_data_def Let_def)
qed

end
