(* ===== verification/DbMonitor.thy ===== *)
theory DbMonitor
  imports DbClear
begin

text \<open>
  The monitor service in the database: \<open>Database::insert_nts\<close> for a \<open>MonitorServiceSample\<close>, the
  status of an entity that follows from its samples (\<open>update_entity_status_nts\<close>,
  \<open>entity_status_logic_nts\<close>), and \<open>get_status_data\<close>.
\<close>

section \<open>The sample argument\<close>

text \<open>
  The sample is passed by reference to its base class; the constructor is the class that
  \<open>dynamic_cast\<close> asks for, and the kind is a field of its own.
\<close>

datatype monitor_object =
    ProxyObject ProxySample
  | ConnectionListObject ConnectionListSample
  | IncompatibleQosObject IncompatibleQosSample
  | InconsistentTopicObject InconsistentTopicSample
  | LivelinessLostObject LivelinessLostSample
  | LivelinessChangedObject LivelinessChangedSample
  | DeadlineMissedObject DeadlineMissedSample
  | SampleLostObject SampleLostSample
  | ExtendedIncompatibleQosObject ExtendedIncompatibleQosSample
  | PlainMonitorObject "unit MonitorServiceSample"

fun monitor_kind :: "monitor_object \<Rightarrow> StatusKind" where
  "monitor_kind (ProxyObject s) = ms_kind s"
| "monitor_kind (ConnectionListObject s) = ms_kind s"
| "monitor_kind (IncompatibleQosObject s) = ms_kind s"
| "monitor_kind (InconsistentTopicObject s) = ms_kind s"
| "monitor_kind (LivelinessLostObject s) = ms_kind s"
| "monitor_kind (LivelinessChangedObject s) = ms_kind s"
| "monitor_kind (DeadlineMissedObject s) = ms_kind s"
| "monitor_kind (SampleLostObject s) = ms_kind s"
| "monitor_kind (ExtendedIncompatibleQosObject s) = ms_kind s"
| "monitor_kind (PlainMonitorObject s) = ms_kind s"

section \<open>The status of an entity\<close>

definition entity_status_logic_nts :: "bool \<Rightarrow> bool \<Rightarrow> StatusLevel \<Rightarrow> bool \<times> StatusLevel" where
  "entity_status_logic_nts entity_error entity_warning status =
     (if entity_error then (if status \<noteq> ERROR_STATUS then (True, ERROR_STATUS) else (False, status))
      else if entity_warning then (if status \<noteq> WARNING_STATUS then (True, WARNING_STATUS) else (False, status))
      else if status \<noteq> OK_STATUS then (True, OK_STATUS) else (False, status))"

text \<open>The last sample of a container, when there is one, has the given status.\<close>

definition last_has :: "StatusLevel \<Rightarrow> 'p MonitorServiceSample list \<Rightarrow> bool" where
  "last_has l xs \<longleftrightarrow> xs \<noteq> [] \<and> ms_status (last xs) = l"

definition update_reader_status :: "'q DataReader \<Rightarrow> bool \<times> 'q DataReader" where
  "update_reader_status r =
     (let d = dr_monitor r;
          entity_error = last_has ERROR_STATUS (mr_extended_incompatible_qos d);
          entity_warning = last_has WARNING_STATUS (mr_deadline_missed d) \<or> last_has WARNING_STATUS (mr_sample_lost d);
          (b, l) = entity_status_logic_nts entity_error entity_warning (e_status r)
      in (b, r\<lparr>e_status := l\<rparr>))"

definition update_writer_status :: "'q DataWriter \<Rightarrow> bool \<times> 'q DataWriter" where
  "update_writer_status w =
     (let d = dw_monitor w;
          entity_error = last_has ERROR_STATUS (mw_extended_incompatible_qos d);
          entity_warning = last_has WARNING_STATUS (mw_liveliness_lost d) \<or> last_has WARNING_STATUS (mw_deadline_missed d);
          (b, l) = entity_status_logic_nts entity_error entity_warning (e_status w)
      in (b, w\<lparr>e_status := l\<rparr>))"

section \<open>Storing a sample\<close>

text \<open>\<open>dynamic_pointer_cast\<close> after the switch over the kind; the use of a null pointer is an error.\<close>

fun cast_participant :: "'q database \<Rightarrow> entity_ref \<Rightarrow> (addr \<times> 'q DomainParticipant) result" where
  "cast_participant db (ParticipantRef a) =
     (case participant_objs db a of Some p \<Rightarrow> Inr (a, p) | None \<Rightarrow> Inl NullDereference)"
| "cast_participant db _ = Inl NullDereference"

fun cast_datareader :: "'q database \<Rightarrow> entity_ref \<Rightarrow> (addr \<times> 'q DataReader) result" where
  "cast_datareader db (DataReaderRef a) =
     (case reader_objs db a of Some r \<Rightarrow> Inr (a, r) | None \<Rightarrow> Inl NullDereference)"
| "cast_datareader db _ = Inl NullDereference"

fun cast_datawriter :: "'q database \<Rightarrow> entity_ref \<Rightarrow> (addr \<times> 'q DataWriter) result" where
  "cast_datawriter db (DataWriterRef a) =
     (case writer_objs db a of Some w \<Rightarrow> Inr (a, w) | None \<Rightarrow> Inl NullDereference)"
| "cast_datawriter db _ = Inl NullDereference"

text \<open>
  The branches of the cases differ in the container, which \<open>get\<close> reads and \<open>put\<close> updates, and in
  whether the status of the entity is updated afterwards. A sample that is not newer than the last one
  is left out.
\<close>

definition store_participant_status ::
  "(DomainParticipantMonitorServiceData \<Rightarrow> 'p MonitorServiceSample list) \<Rightarrow>
   ('p MonitorServiceSample list \<Rightarrow> DomainParticipantMonitorServiceData \<Rightarrow> DomainParticipantMonitorServiceData) \<Rightarrow>
   'p MonitorServiceSample \<Rightarrow> entity_ref \<Rightarrow> ('q, bool) action" where
  "store_participant_status get put s r db =
     (case cast_participant db r of
        Inl e \<Rightarrow> (Inl e, db)
      | Inr (a, p) \<Rightarrow>
          if dc_is_old ms_ts (ms_ts s) (get (dp_monitor p)) then (Inr False, db)
          else (Inr False, db\<lparr>participant_objs := (participant_objs db)(a \<mapsto>
                 p\<lparr>dp_monitor := put (get (dp_monitor p) @ [s]) (dp_monitor p)\<rparr>)\<rparr>))"

definition store_reader_status ::
  "bool \<Rightarrow> (DataReaderMonitorServiceData \<Rightarrow> 'p MonitorServiceSample list) \<Rightarrow>
   ('p MonitorServiceSample list \<Rightarrow> DataReaderMonitorServiceData \<Rightarrow> DataReaderMonitorServiceData) \<Rightarrow>
   'p MonitorServiceSample \<Rightarrow> entity_ref \<Rightarrow> ('q, bool) action" where
  "store_reader_status update get put s r db =
     (case cast_datareader db r of
        Inl e \<Rightarrow> (Inl e, db)
      | Inr (a, x) \<Rightarrow>
          if dc_is_old ms_ts (ms_ts s) (get (dr_monitor x)) then (Inr False, db)
          else let x = x\<lparr>dr_monitor := put (get (dr_monitor x) @ [s]) (dr_monitor x)\<rparr>;
                   (b, x) = (if update then update_reader_status x else (False, x))
               in (Inr b, db\<lparr>reader_objs := (reader_objs db)(a \<mapsto> x)\<rparr>))"

definition store_writer_status ::
  "bool \<Rightarrow> (DataWriterMonitorServiceData \<Rightarrow> 'p MonitorServiceSample list) \<Rightarrow>
   ('p MonitorServiceSample list \<Rightarrow> DataWriterMonitorServiceData \<Rightarrow> DataWriterMonitorServiceData) \<Rightarrow>
   'p MonitorServiceSample \<Rightarrow> entity_ref \<Rightarrow> ('q, bool) action" where
  "store_writer_status update get put s r db =
     (case cast_datawriter db r of
        Inl e \<Rightarrow> (Inl e, db)
      | Inr (a, x) \<Rightarrow>
          if dc_is_old ms_ts (ms_ts s) (get (dw_monitor x)) then (Inr False, db)
          else let x = x\<lparr>dw_monitor := put (get (dw_monitor x) @ [s]) (dw_monitor x)\<rparr>;
                   (b, x) = (if update then update_writer_status x else (False, x))
               in (Inr b, db\<lparr>writer_objs := (writer_objs db)(a \<mapsto> x)\<rparr>))"

definition bad_status :: "string \<Rightarrow> exn" where
  "bad_status what = BadParameter (''Unsupported '' @ what @ '' Status type and EntityKind combination'')"

definition insert_proxy :: "ProxySample \<Rightarrow> EntityKind \<Rightarrow> entity_ref \<Rightarrow> ('q, bool) action" where
  "insert_proxy s k r =
     (if k = PARTICIPANT then store_participant_status mp_proxy (\<lambda>x. mp_proxy_update (\<lambda>_. x)) s r
      else if k = DATAREADER then store_reader_status False mr_proxy (\<lambda>x. mr_proxy_update (\<lambda>_. x)) s r
      else if k = DATAWRITER then store_writer_status False mw_proxy (\<lambda>x. mw_proxy_update (\<lambda>_. x)) s r
      else (\<lambda>db. (Inl (bad_status ''PROXY''), db)))"

definition insert_connection_list :: "ConnectionListSample \<Rightarrow> EntityKind \<Rightarrow> entity_ref \<Rightarrow> ('q, bool) action" where
  "insert_connection_list s k r =
     (if k = PARTICIPANT
      then store_participant_status mp_connection_list (\<lambda>x. mp_connection_list_update (\<lambda>_. x)) s r
      else if k = DATAREADER
      then store_reader_status False mr_connection_list (\<lambda>x. mr_connection_list_update (\<lambda>_. x)) s r
      else if k = DATAWRITER
      then store_writer_status False mw_connection_list (\<lambda>x. mw_connection_list_update (\<lambda>_. x)) s r
      else (\<lambda>db. (Inl (bad_status ''CONNECTION_LIST''), db)))"

definition insert_incompatible_qos :: "IncompatibleQosSample \<Rightarrow> EntityKind \<Rightarrow> entity_ref \<Rightarrow> ('q, bool) action" where
  "insert_incompatible_qos s k r =
     (if k = DATAREADER
      then store_reader_status True mr_incompatible_qos (\<lambda>x. mr_incompatible_qos_update (\<lambda>_. x)) s r
      else if k = DATAWRITER
      then store_writer_status True mw_incompatible_qos (\<lambda>x. mw_incompatible_qos_update (\<lambda>_. x)) s r
      else (\<lambda>db. (Inl (bad_status ''INCOMPATIBLE_QOS''), db)))"

definition insert_inconsistent_topic :: "InconsistentTopicSample \<Rightarrow> EntityKind \<Rightarrow> entity_ref \<Rightarrow> ('q, bool) action" where
  "insert_inconsistent_topic s k r =
     (if k = DATAREADER
      then store_reader_status True mr_inconsistent_topic (\<lambda>x. mr_inconsistent_topic_update (\<lambda>_. x)) s r
      else if k = DATAWRITER
      then store_writer_status True mw_inconsistent_topic (\<lambda>x. mw_inconsistent_topic_update (\<lambda>_. x)) s r
      else (\<lambda>db. (Inl (bad_status ''INCONSISTENT_TOPIC''), db)))"

definition insert_liveliness_lost :: "LivelinessLostSample \<Rightarrow> EntityKind \<Rightarrow> entity_ref \<Rightarrow> ('q, bool) action" where
  "insert_liveliness_lost s k r =
     (if k = DATAWRITER
      then store_writer_status True mw_liveliness_lost (\<lambda>x. mw_liveliness_lost_update (\<lambda>_. x)) s r
      else (\<lambda>db. (Inl (bad_status ''LIVELINESS_LOST''), db)))"

definition insert_liveliness_changed :: "LivelinessChangedSample \<Rightarrow> EntityKind \<Rightarrow> entity_ref \<Rightarrow> ('q, bool) action" where
  "insert_liveliness_changed s k r =
     (if k = DATAREADER
      then store_reader_status False mr_liveliness_changed (\<lambda>x. mr_liveliness_changed_update (\<lambda>_. x)) s r
      else (\<lambda>db. (Inl (bad_status ''LIVELINESS_CHANGED''), db)))"

definition insert_deadline_missed :: "DeadlineMissedSample \<Rightarrow> EntityKind \<Rightarrow> entity_ref \<Rightarrow> ('q, bool) action" where
  "insert_deadline_missed s k r =
     (if k = DATAREADER
      then store_reader_status True mr_deadline_missed (\<lambda>x. mr_deadline_missed_update (\<lambda>_. x)) s r
      else if k = DATAWRITER
      then store_writer_status True mw_deadline_missed (\<lambda>x. mw_deadline_missed_update (\<lambda>_. x)) s r
      else (\<lambda>db. (Inl (bad_status ''DEADLINE_MISSED''), db)))"

definition insert_sample_lost :: "SampleLostSample \<Rightarrow> EntityKind \<Rightarrow> entity_ref \<Rightarrow> ('q, bool) action" where
  "insert_sample_lost s k r =
     (if k = DATAREADER
      then store_reader_status True mr_sample_lost (\<lambda>x. mr_sample_lost_update (\<lambda>_. x)) s r
      else (\<lambda>db. (Inl (bad_status ''SAMPLE_LOST''), db)))"

definition insert_extended_incompatible_qos ::
  "ExtendedIncompatibleQosSample \<Rightarrow> EntityKind \<Rightarrow> entity_ref \<Rightarrow> ('q, bool) action" where
  "insert_extended_incompatible_qos s k r =
     (if k = DATAREADER
      then store_reader_status True mr_extended_incompatible_qos (\<lambda>x. mr_extended_incompatible_qos_update (\<lambda>_. x)) s r
      else if k = DATAWRITER
      then store_writer_status True mw_extended_incompatible_qos (\<lambda>x. mw_extended_incompatible_qos_update (\<lambda>_. x)) s r
      else (\<lambda>db. (Inl (bad_status ''EXTENDED_INCOMPATIBLE_QOS''), db)))"

text \<open>
  The dispatch: the domain is checked, the entity is looked up, the sample is cast, and the kind of
  the entity selects the container.
\<close>

definition entity_with_kind :: "'q database \<Rightarrow> EntityId \<Rightarrow> (entity_ref \<times> EntityKind) result" where
  "entity_with_kind db i = bind_result (get_entity_nts db i) (\<lambda>r.
     case entity_of db r of None \<Rightarrow> Inl NullDereference | Some x \<Rightarrow> Inr (r, e_kind x))"

definition insert_status :: "EntityId \<Rightarrow> EntityId \<Rightarrow> monitor_object \<Rightarrow> ('q, bool) action" where
  "insert_status d i ob db =
     (if om_find (domains db) d = None
      then (Inl (BadParameter (to_string_int (entity_value d) @ '' does not refer to a known domain'')), db)
      else if monitor_kind ob \<in> {INVALID_STATUS, STATUSES_SIZE} then (Inl (BadParameter ''Unsupported StatusKind''), db)
      else (case entity_with_kind db i of
        Inl e \<Rightarrow> (Inl e, db)
      | Inr (r, k) \<Rightarrow>
          (case monitor_kind ob of
             PROXY \<Rightarrow> (case ob of ProxyObject s \<Rightarrow> insert_proxy s k r | _ \<Rightarrow> (\<lambda>db. (Inl BadCast, db)))
           | CONNECTION_LIST \<Rightarrow>
               (case ob of ConnectionListObject s \<Rightarrow> insert_connection_list s k r | _ \<Rightarrow> (\<lambda>db. (Inl BadCast, db)))
           | INCOMPATIBLE_QOS \<Rightarrow>
               (case ob of IncompatibleQosObject s \<Rightarrow> insert_incompatible_qos s k r | _ \<Rightarrow> (\<lambda>db. (Inl BadCast, db)))
           | INCONSISTENT_TOPIC \<Rightarrow>
               (case ob of InconsistentTopicObject s \<Rightarrow> insert_inconsistent_topic s k r | _ \<Rightarrow> (\<lambda>db. (Inl BadCast, db)))
           | LIVELINESS_LOST \<Rightarrow>
               (case ob of LivelinessLostObject s \<Rightarrow> insert_liveliness_lost s k r | _ \<Rightarrow> (\<lambda>db. (Inl BadCast, db)))
           | LIVELINESS_CHANGED \<Rightarrow>
               (case ob of LivelinessChangedObject s \<Rightarrow> insert_liveliness_changed s k r | _ \<Rightarrow> (\<lambda>db. (Inl BadCast, db)))
           | DEADLINE_MISSED \<Rightarrow>
               (case ob of DeadlineMissedObject s \<Rightarrow> insert_deadline_missed s k r | _ \<Rightarrow> (\<lambda>db. (Inl BadCast, db)))
           | SAMPLE_LOST \<Rightarrow>
               (case ob of SampleLostObject s \<Rightarrow> insert_sample_lost s k r | _ \<Rightarrow> (\<lambda>db. (Inl BadCast, db)))
           | EXTENDED_INCOMPATIBLE_QOS \<Rightarrow>
               (case ob of ExtendedIncompatibleQosObject s \<Rightarrow> insert_extended_incompatible_qos s k r
                | _ \<Rightarrow> (\<lambda>db. (Inl BadCast, db)))
           | _ \<Rightarrow> (\<lambda>db. (Inl (BadParameter ''Unsupported StatusKind''), db))) db))"

section \<open>The last sample\<close>

text \<open>
  \<open>get_status_data\<close> assigns the last sample to its argument \<open>d\<close>, which it leaves alone where there is
  none.
\<close>

definition last_sample :: "'p MonitorServiceSample \<Rightarrow> 'p MonitorServiceSample list \<Rightarrow> 'p MonitorServiceSample" where
  "last_sample d xs = (if xs = [] then d else last xs)"

definition read_participant_status ::
  "(DomainParticipantMonitorServiceData \<Rightarrow> 'p MonitorServiceSample list) \<Rightarrow> 'q database \<Rightarrow> entity_ref \<Rightarrow>
   'p MonitorServiceSample \<Rightarrow> 'p MonitorServiceSample result" where
  "read_participant_status get db r d =
     bind_result (cast_participant db r) (\<lambda>(a, p). Inr (last_sample d (get (dp_monitor p))))"

definition read_reader_status ::
  "(DataReaderMonitorServiceData \<Rightarrow> 'p MonitorServiceSample list) \<Rightarrow> 'q database \<Rightarrow> entity_ref \<Rightarrow>
   'p MonitorServiceSample \<Rightarrow> 'p MonitorServiceSample result" where
  "read_reader_status get db r d =
     bind_result (cast_datareader db r) (\<lambda>(a, x). Inr (last_sample d (get (dr_monitor x))))"

definition read_writer_status ::
  "(DataWriterMonitorServiceData \<Rightarrow> 'p MonitorServiceSample list) \<Rightarrow> 'q database \<Rightarrow> entity_ref \<Rightarrow>
   'p MonitorServiceSample \<Rightarrow> 'p MonitorServiceSample result" where
  "read_writer_status get db r d =
     bind_result (cast_datawriter db r) (\<lambda>(a, x). Inr (last_sample d (get (dw_monitor x))))"

definition get_proxy_status :: "'q database \<Rightarrow> EntityId \<Rightarrow> ProxySample \<Rightarrow> ProxySample result" where
  "get_proxy_status db i d = bind_result (entity_with_kind db i) (\<lambda>(r, k).
     if k = PARTICIPANT then read_participant_status mp_proxy db r d
     else if k = DATAREADER then read_reader_status mr_proxy db r d
     else if k = DATAWRITER then read_writer_status mw_proxy db r d
     else Inl (bad_status ''PROXY''))"

definition get_connection_list_status ::
  "'q database \<Rightarrow> EntityId \<Rightarrow> ConnectionListSample \<Rightarrow> ConnectionListSample result" where
  "get_connection_list_status db i d = bind_result (entity_with_kind db i) (\<lambda>(r, k).
     if k = PARTICIPANT then read_participant_status mp_connection_list db r d
     else if k = DATAREADER then read_reader_status mr_connection_list db r d
     else if k = DATAWRITER then read_writer_status mw_connection_list db r d
     else Inl (bad_status ''CONNECTION_LIST''))"

definition get_incompatible_qos_status ::
  "'q database \<Rightarrow> EntityId \<Rightarrow> IncompatibleQosSample \<Rightarrow> IncompatibleQosSample result" where
  "get_incompatible_qos_status db i d = bind_result (entity_with_kind db i) (\<lambda>(r, k).
     if k = DATAREADER then read_reader_status mr_incompatible_qos db r d
     else if k = DATAWRITER then read_writer_status mw_incompatible_qos db r d
     else Inl (bad_status ''INCOMPATIBLE_QOS''))"

definition get_inconsistent_topic_status ::
  "'q database \<Rightarrow> EntityId \<Rightarrow> InconsistentTopicSample \<Rightarrow> InconsistentTopicSample result" where
  "get_inconsistent_topic_status db i d = bind_result (entity_with_kind db i) (\<lambda>(r, k).
     if k = DATAREADER then read_reader_status mr_inconsistent_topic db r d
     else if k = DATAWRITER then read_writer_status mw_inconsistent_topic db r d
     else Inl (bad_status ''INCONSISTENT_TOPIC''))"

definition get_liveliness_lost_status ::
  "'q database \<Rightarrow> EntityId \<Rightarrow> LivelinessLostSample \<Rightarrow> LivelinessLostSample result" where
  "get_liveliness_lost_status db i d = bind_result (entity_with_kind db i) (\<lambda>(r, k).
     if k = DATAWRITER then read_writer_status mw_liveliness_lost db r d
     else Inl (bad_status ''LIVELINES_LOST''))"

definition get_liveliness_changed_status ::
  "'q database \<Rightarrow> EntityId \<Rightarrow> LivelinessChangedSample \<Rightarrow> LivelinessChangedSample result" where
  "get_liveliness_changed_status db i d = bind_result (entity_with_kind db i) (\<lambda>(r, k).
     if k = DATAREADER then read_reader_status mr_liveliness_changed db r d
     else Inl (bad_status ''LIVELINESS_CHANGED''))"

definition get_deadline_missed_status ::
  "'q database \<Rightarrow> EntityId \<Rightarrow> DeadlineMissedSample \<Rightarrow> DeadlineMissedSample result" where
  "get_deadline_missed_status db i d = bind_result (entity_with_kind db i) (\<lambda>(r, k).
     if k = DATAREADER then read_reader_status mr_deadline_missed db r d
     else if k = DATAWRITER then read_writer_status mw_deadline_missed db r d
     else Inl (bad_status ''DEADLINE_MISSED''))"

definition get_sample_lost_status :: "'q database \<Rightarrow> EntityId \<Rightarrow> SampleLostSample \<Rightarrow> SampleLostSample result" where
  "get_sample_lost_status db i d = bind_result (entity_with_kind db i) (\<lambda>(r, k).
     if k = DATAREADER then read_reader_status mr_sample_lost db r d
     else Inl (bad_status ''SAMPLE_LOST''))"

definition get_extended_incompatible_qos_status ::
  "'q database \<Rightarrow> EntityId \<Rightarrow> ExtendedIncompatibleQosSample \<Rightarrow> ExtendedIncompatibleQosSample result" where
  "get_extended_incompatible_qos_status db i d = bind_result (entity_with_kind db i) (\<lambda>(r, k).
     if k = DATAREADER then read_reader_status mr_extended_incompatible_qos db r d
     else if k = DATAWRITER then read_writer_status mw_extended_incompatible_qos db r d
     else Inl (bad_status ''EXTENDED_INCOMPATIBLE_QOS''))"

text \<open>\<open>StatisticsBackend::get_status_data\<close>: the class of the argument selects the query.\<close>

definition get_status_data :: "'q database \<Rightarrow> EntityId \<Rightarrow> monitor_object \<Rightarrow> monitor_object result" where
  "get_status_data db i ob = (case ob of
       ProxyObject d \<Rightarrow> map_result ProxyObject (get_proxy_status db i d)
     | ConnectionListObject d \<Rightarrow> map_result ConnectionListObject (get_connection_list_status db i d)
     | IncompatibleQosObject d \<Rightarrow> map_result IncompatibleQosObject (get_incompatible_qos_status db i d)
     | InconsistentTopicObject d \<Rightarrow> map_result InconsistentTopicObject (get_inconsistent_topic_status db i d)
     | LivelinessLostObject d \<Rightarrow> map_result LivelinessLostObject (get_liveliness_lost_status db i d)
     | LivelinessChangedObject d \<Rightarrow> map_result LivelinessChangedObject (get_liveliness_changed_status db i d)
     | DeadlineMissedObject d \<Rightarrow> map_result DeadlineMissedObject (get_deadline_missed_status db i d)
     | SampleLostObject d \<Rightarrow> map_result SampleLostObject (get_sample_lost_status db i d)
     | ExtendedIncompatibleQosObject d \<Rightarrow>
         map_result ExtendedIncompatibleQosObject (get_extended_incompatible_qos_status db i d)
     | PlainMonitorObject d \<Rightarrow> Inl (BadParameter ''Unsupported MonitorServiceStatus sample''))"

section \<open>The series of an entity\<close>

text \<open>The samples of a kind that an entity keeps, whatever their class.\<close>

fun participant_statuses :: "StatusKind \<Rightarrow> DomainParticipantMonitorServiceData \<Rightarrow> monitor_object list" where
  "participant_statuses PROXY d = map ProxyObject (mp_proxy d)"
| "participant_statuses CONNECTION_LIST d = map ConnectionListObject (mp_connection_list d)"
| "participant_statuses _ d = []"

fun reader_statuses :: "StatusKind \<Rightarrow> DataReaderMonitorServiceData \<Rightarrow> monitor_object list" where
  "reader_statuses PROXY d = map ProxyObject (mr_proxy d)"
| "reader_statuses CONNECTION_LIST d = map ConnectionListObject (mr_connection_list d)"
| "reader_statuses INCOMPATIBLE_QOS d = map IncompatibleQosObject (mr_incompatible_qos d)"
| "reader_statuses INCONSISTENT_TOPIC d = map InconsistentTopicObject (mr_inconsistent_topic d)"
| "reader_statuses LIVELINESS_CHANGED d = map LivelinessChangedObject (mr_liveliness_changed d)"
| "reader_statuses DEADLINE_MISSED d = map DeadlineMissedObject (mr_deadline_missed d)"
| "reader_statuses SAMPLE_LOST d = map SampleLostObject (mr_sample_lost d)"
| "reader_statuses EXTENDED_INCOMPATIBLE_QOS d = map ExtendedIncompatibleQosObject (mr_extended_incompatible_qos d)"
| "reader_statuses _ d = []"

fun writer_statuses :: "StatusKind \<Rightarrow> DataWriterMonitorServiceData \<Rightarrow> monitor_object list" where
  "writer_statuses PROXY d = map ProxyObject (mw_proxy d)"
| "writer_statuses CONNECTION_LIST d = map ConnectionListObject (mw_connection_list d)"
| "writer_statuses INCOMPATIBLE_QOS d = map IncompatibleQosObject (mw_incompatible_qos d)"
| "writer_statuses INCONSISTENT_TOPIC d = map InconsistentTopicObject (mw_inconsistent_topic d)"
| "writer_statuses LIVELINESS_LOST d = map LivelinessLostObject (mw_liveliness_lost d)"
| "writer_statuses DEADLINE_MISSED d = map DeadlineMissedObject (mw_deadline_missed d)"
| "writer_statuses EXTENDED_INCOMPATIBLE_QOS d = map ExtendedIncompatibleQosObject (mw_extended_incompatible_qos d)"
| "writer_statuses _ d = []"

fun status_series :: "StatusKind \<Rightarrow> entity_ref \<Rightarrow> 'q database \<Rightarrow> monitor_object list" where
  "status_series k (ParticipantRef a) db = participant_statuses k (dp_monitor (the (participant_objs db a)))"
| "status_series k (DataReaderRef a) db = reader_statuses k (dr_monitor (the (reader_objs db a)))"
| "status_series k (DataWriterRef a) db = writer_statuses k (dw_monitor (the (writer_objs db a)))"
| "status_series k _ db = []"

fun monitor_ts :: "monitor_object \<Rightarrow> Timestamp" where
  "monitor_ts (ProxyObject s) = ms_ts s"
| "monitor_ts (ConnectionListObject s) = ms_ts s"
| "monitor_ts (IncompatibleQosObject s) = ms_ts s"
| "monitor_ts (InconsistentTopicObject s) = ms_ts s"
| "monitor_ts (LivelinessLostObject s) = ms_ts s"
| "monitor_ts (LivelinessChangedObject s) = ms_ts s"
| "monitor_ts (DeadlineMissedObject s) = ms_ts s"
| "monitor_ts (SampleLostObject s) = ms_ts s"
| "monitor_ts (ExtendedIncompatibleQosObject s) = ms_ts s"
| "monitor_ts (PlainMonitorObject s) = ms_ts s"

fun monitor_level :: "monitor_object \<Rightarrow> StatusLevel" where
  "monitor_level (ProxyObject s) = ms_status s"
| "monitor_level (ConnectionListObject s) = ms_status s"
| "monitor_level (IncompatibleQosObject s) = ms_status s"
| "monitor_level (InconsistentTopicObject s) = ms_status s"
| "monitor_level (LivelinessLostObject s) = ms_status s"
| "monitor_level (LivelinessChangedObject s) = ms_status s"
| "monitor_level (DeadlineMissedObject s) = ms_status s"
| "monitor_level (SampleLostObject s) = ms_status s"
| "monitor_level (ExtendedIncompatibleQosObject s) = ms_status s"
| "monitor_level (PlainMonitorObject s) = ms_status s"

definition newer_status :: "monitor_object \<Rightarrow> monitor_object list \<Rightarrow> bool" where
  "newer_status ob xs \<longleftrightarrow> xs = [] \<or> monitor_ts (last xs) < monitor_ts ob"

lemma dc_is_old_status:
  assumes "\<And>x. monitor_ts (c x) = ms_ts x"
  shows "dc_is_old ms_ts (ms_ts s) xs \<longleftrightarrow> \<not> newer_status (c s) (map c xs)"
  using assms by (auto simp: dc_is_old_def newer_status_def last_map)

lemma statuses_update [simp]:
  "participant_statuses k (mp_proxy_update (\<lambda>_. p) d) = (if k = PROXY then map ProxyObject p else participant_statuses k d)"
  "participant_statuses k (mp_connection_list_update (\<lambda>_. c) d) =
     (if k = CONNECTION_LIST then map ConnectionListObject c else participant_statuses k d)"
  "reader_statuses k (mr_proxy_update (\<lambda>_. p) r) = (if k = PROXY then map ProxyObject p else reader_statuses k r)"
  "reader_statuses k (mr_connection_list_update (\<lambda>_. c) r) =
     (if k = CONNECTION_LIST then map ConnectionListObject c else reader_statuses k r)"
  "reader_statuses k (mr_incompatible_qos_update (\<lambda>_. q) r) =
     (if k = INCOMPATIBLE_QOS then map IncompatibleQosObject q else reader_statuses k r)"
  "reader_statuses k (mr_inconsistent_topic_update (\<lambda>_. t) r) =
     (if k = INCONSISTENT_TOPIC then map InconsistentTopicObject t else reader_statuses k r)"
  "reader_statuses k (mr_liveliness_changed_update (\<lambda>_. l) r) =
     (if k = LIVELINESS_CHANGED then map LivelinessChangedObject l else reader_statuses k r)"
  "reader_statuses k (mr_deadline_missed_update (\<lambda>_. m) r) =
     (if k = DEADLINE_MISSED then map DeadlineMissedObject m else reader_statuses k r)"
  "reader_statuses k (mr_sample_lost_update (\<lambda>_. t) r) =
     (if k = SAMPLE_LOST then map SampleLostObject t else reader_statuses k r)"
  "reader_statuses k (mr_extended_incompatible_qos_update (\<lambda>_. x) r) =
     (if k = EXTENDED_INCOMPATIBLE_QOS then map ExtendedIncompatibleQosObject x else reader_statuses k r)"
  "writer_statuses k (mw_proxy_update (\<lambda>_. p) w) = (if k = PROXY then map ProxyObject p else writer_statuses k w)"
  "writer_statuses k (mw_connection_list_update (\<lambda>_. c) w) =
     (if k = CONNECTION_LIST then map ConnectionListObject c else writer_statuses k w)"
  "writer_statuses k (mw_incompatible_qos_update (\<lambda>_. q) w) =
     (if k = INCOMPATIBLE_QOS then map IncompatibleQosObject q else writer_statuses k w)"
  "writer_statuses k (mw_inconsistent_topic_update (\<lambda>_. t) w) =
     (if k = INCONSISTENT_TOPIC then map InconsistentTopicObject t else writer_statuses k w)"
  "writer_statuses k (mw_liveliness_lost_update (\<lambda>_. t) w) =
     (if k = LIVELINESS_LOST then map LivelinessLostObject t else writer_statuses k w)"
  "writer_statuses k (mw_deadline_missed_update (\<lambda>_. m) w) =
     (if k = DEADLINE_MISSED then map DeadlineMissedObject m else writer_statuses k w)"
  "writer_statuses k (mw_extended_incompatible_qos_update (\<lambda>_. x) w) =
     (if k = EXTENDED_INCOMPATIBLE_QOS then map ExtendedIncompatibleQosObject x else writer_statuses k w)"
  by (cases k; simp)+

section \<open>The containers behind the series\<close>

text \<open>
  What the insertion relies on: \<open>get\<close> and \<open>put\<close> are the container of one kind of sample among those
  of the entity.
\<close>

locale status_slot =
  fixes get :: "'d \<Rightarrow> 'p MonitorServiceSample list"
    and put :: "'p MonitorServiceSample list \<Rightarrow> 'd \<Rightarrow> 'd"
    and view :: "StatusKind \<Rightarrow> 'd \<Rightarrow> monitor_object list"
    and c :: "'p MonitorServiceSample \<Rightarrow> monitor_object"
    and K :: StatusKind
  assumes view_get: "view K d = map c (get d)"
    and view_put: "view k (put xs d) = (if k = K then map c xs else view k d)"
    and object_ts: "monitor_ts (c x) = ms_ts x"
begin

lemma old_iff: "dc_is_old ms_ts (ms_ts s) (get d) \<longleftrightarrow> \<not> newer_status (c s) (view K d)"
  unfolding view_get using object_ts by (rule dc_is_old_status)

lemma store: "view k (put (get d @ [s]) d) = (if k = K then view K d @ [c s] else view k d)"
  by (simp add: view_put view_get)

lemma last_read: "view K d \<noteq> [] \<Longrightarrow> c (last_sample x (get d)) = last (view K d)"
  by (simp add: view_get last_sample_def last_map)

end

interpretation participant_proxy: status_slot mp_proxy "\<lambda>x. mp_proxy_update (\<lambda>_. x)" participant_statuses ProxyObject PROXY
  by unfold_locales simp_all

interpretation reader_proxy: status_slot mr_proxy "\<lambda>x. mr_proxy_update (\<lambda>_. x)" reader_statuses ProxyObject PROXY
  by unfold_locales simp_all

interpretation writer_proxy: status_slot mw_proxy "\<lambda>x. mw_proxy_update (\<lambda>_. x)" writer_statuses ProxyObject PROXY
  by unfold_locales simp_all

interpretation participant_connection_list: status_slot mp_connection_list "\<lambda>x. mp_connection_list_update (\<lambda>_. x)" participant_statuses ConnectionListObject CONNECTION_LIST
  by unfold_locales simp_all

interpretation reader_connection_list: status_slot mr_connection_list "\<lambda>x. mr_connection_list_update (\<lambda>_. x)" reader_statuses ConnectionListObject CONNECTION_LIST
  by unfold_locales simp_all

interpretation writer_connection_list: status_slot mw_connection_list "\<lambda>x. mw_connection_list_update (\<lambda>_. x)" writer_statuses ConnectionListObject CONNECTION_LIST
  by unfold_locales simp_all

interpretation reader_incompatible_qos: status_slot mr_incompatible_qos "\<lambda>x. mr_incompatible_qos_update (\<lambda>_. x)" reader_statuses IncompatibleQosObject INCOMPATIBLE_QOS
  by unfold_locales simp_all

interpretation writer_incompatible_qos: status_slot mw_incompatible_qos "\<lambda>x. mw_incompatible_qos_update (\<lambda>_. x)" writer_statuses IncompatibleQosObject INCOMPATIBLE_QOS
  by unfold_locales simp_all

interpretation reader_inconsistent_topic: status_slot mr_inconsistent_topic "\<lambda>x. mr_inconsistent_topic_update (\<lambda>_. x)" reader_statuses InconsistentTopicObject INCONSISTENT_TOPIC
  by unfold_locales simp_all

interpretation writer_inconsistent_topic: status_slot mw_inconsistent_topic "\<lambda>x. mw_inconsistent_topic_update (\<lambda>_. x)" writer_statuses InconsistentTopicObject INCONSISTENT_TOPIC
  by unfold_locales simp_all

interpretation reader_liveliness_changed: status_slot mr_liveliness_changed "\<lambda>x. mr_liveliness_changed_update (\<lambda>_. x)" reader_statuses LivelinessChangedObject LIVELINESS_CHANGED
  by unfold_locales simp_all

interpretation writer_liveliness_lost: status_slot mw_liveliness_lost "\<lambda>x. mw_liveliness_lost_update (\<lambda>_. x)" writer_statuses LivelinessLostObject LIVELINESS_LOST
  by unfold_locales simp_all

interpretation reader_deadline_missed: status_slot mr_deadline_missed "\<lambda>x. mr_deadline_missed_update (\<lambda>_. x)" reader_statuses DeadlineMissedObject DEADLINE_MISSED
  by unfold_locales simp_all

interpretation writer_deadline_missed: status_slot mw_deadline_missed "\<lambda>x. mw_deadline_missed_update (\<lambda>_. x)" writer_statuses DeadlineMissedObject DEADLINE_MISSED
  by unfold_locales simp_all

interpretation reader_sample_lost: status_slot mr_sample_lost "\<lambda>x. mr_sample_lost_update (\<lambda>_. x)" reader_statuses SampleLostObject SAMPLE_LOST
  by unfold_locales simp_all

interpretation reader_extended_incompatible_qos: status_slot mr_extended_incompatible_qos "\<lambda>x. mr_extended_incompatible_qos_update (\<lambda>_. x)" reader_statuses ExtendedIncompatibleQosObject EXTENDED_INCOMPATIBLE_QOS
  by unfold_locales simp_all

interpretation writer_extended_incompatible_qos: status_slot mw_extended_incompatible_qos "\<lambda>x. mw_extended_incompatible_qos_update (\<lambda>_. x)" writer_statuses ExtendedIncompatibleQosObject EXTENDED_INCOMPATIBLE_QOS
  by unfold_locales simp_all

lemmas participant_slots =
  participant_proxy.status_slot_axioms
  participant_connection_list.status_slot_axioms

lemmas reader_slots =
  reader_proxy.status_slot_axioms
  reader_connection_list.status_slot_axioms
  reader_incompatible_qos.status_slot_axioms
  reader_inconsistent_topic.status_slot_axioms
  reader_liveliness_changed.status_slot_axioms
  reader_deadline_missed.status_slot_axioms
  reader_sample_lost.status_slot_axioms
  reader_extended_incompatible_qos.status_slot_axioms

lemmas writer_slots =
  writer_proxy.status_slot_axioms
  writer_connection_list.status_slot_axioms
  writer_incompatible_qos.status_slot_axioms
  writer_inconsistent_topic.status_slot_axioms
  writer_liveliness_lost.status_slot_axioms
  writer_deadline_missed.status_slot_axioms
  writer_extended_incompatible_qos.status_slot_axioms

lemma update_status_monitor [simp]:
  "dr_monitor (snd (update_reader_status r)) = dr_monitor r"
  "dw_monitor (snd (update_writer_status w)) = dw_monitor w"
  by (simp_all add: update_reader_status_def update_writer_status_def Let_def split_beta)

text \<open>What storing a sample does to the series: the sample is appended to its own when it is newer.\<close>

definition appended :: "StatusKind \<Rightarrow> entity_ref \<Rightarrow> monitor_object \<Rightarrow> 'q database \<Rightarrow> 'q database \<Rightarrow> bool" where
  "appended K r ob db db' \<longleftrightarrow>
     (\<forall>k r'. status_series k r' db' =
        (if k = K \<and> r' = r \<and> newer_status ob (status_series K r db) then status_series K r db @ [ob]
         else status_series k r' db))"

lemma store_participant_appended:
  assumes s: "status_slot get put participant_statuses c K"
    and run: "store_participant_status get put x r db = (Inr b, db')"
  shows "appended K r (c x) db db'"
proof -
  obtain a p where r: "r = ParticipantRef a" "participant_objs db a = Some p"
    using run by (cases r) (auto simp: store_participant_status_def split: option.splits)
  show ?thesis
    unfolding appended_def
  proof (intro allI)
    fix k r'
    show "status_series k r' db' = (if k = K \<and> r' = r \<and> newer_status (c x) (status_series K r db)
        then status_series K r db @ [c x] else status_series k r' db)"
      using run r by (cases r') (auto simp: store_participant_status_def status_slot.old_iff [OF s]
          status_slot.store [OF s] split: if_splits)
  qed
qed

lemma store_reader_appended:
  assumes s: "status_slot get put reader_statuses c K"
    and run: "store_reader_status u get put x r db = (Inr b, db')"
  shows "appended K r (c x) db db'"
proof -
  obtain a p where r: "r = DataReaderRef a" "reader_objs db a = Some p"
    using run by (cases r) (auto simp: store_reader_status_def split: option.splits)
  show ?thesis
    unfolding appended_def
  proof (intro allI)
    fix k r'
    show "status_series k r' db' = (if k = K \<and> r' = r \<and> newer_status (c x) (status_series K r db)
        then status_series K r db @ [c x] else status_series k r' db)"
      using run r by (cases r') (auto simp: store_reader_status_def status_slot.old_iff [OF s] Let_def split_beta
          status_slot.store [OF s] split: if_splits)
  qed
qed

lemma store_writer_appended:
  assumes s: "status_slot get put writer_statuses c K"
    and run: "store_writer_status u get put x r db = (Inr b, db')"
  shows "appended K r (c x) db db'"
proof -
  obtain a p where r: "r = DataWriterRef a" "writer_objs db a = Some p"
    using run by (cases r) (auto simp: store_writer_status_def split: option.splits)
  show ?thesis
    unfolding appended_def
  proof (intro allI)
    fix k r'
    show "status_series k r' db' = (if k = K \<and> r' = r \<and> newer_status (c x) (status_series K r db)
        then status_series K r db @ [c x] else status_series k r' db)"
      using run r by (cases r') (auto simp: store_writer_status_def status_slot.old_iff [OF s] Let_def split_beta
          status_slot.store [OF s] split: if_splits)
  qed
qed

lemmas insert_status_defs = insert_proxy_def insert_connection_list_def insert_incompatible_qos_def
  insert_inconsistent_topic_def insert_liveliness_lost_def insert_liveliness_changed_def
  insert_deadline_missed_def insert_sample_lost_def insert_extended_incompatible_qos_def

lemma insert_status_appended:
  assumes "insert_status d i ob db = (Inr b, db')" and "get_entity_nts db i = Inr r"
  shows "appended (monitor_kind ob) r ob db db'"
proof -
  obtain k where k: "entity_with_kind db i = Inr (r, k)"
    using assms by (auto simp: insert_status_def entity_with_kind_def split: option.splits if_splits)
  show ?thesis
    using assms(1) k
    by (cases ob; cases "monitor_kind ob")
      (auto simp: insert_status_def insert_status_defs split: if_splits
        dest!: store_participant_appended [OF participant_slots(1)] store_participant_appended [OF participant_slots(2)]
        store_reader_appended [OF reader_slots(1)] store_reader_appended [OF reader_slots(2)]
        store_reader_appended [OF reader_slots(3)] store_reader_appended [OF reader_slots(4)]
        store_reader_appended [OF reader_slots(5)] store_reader_appended [OF reader_slots(6)]
        store_reader_appended [OF reader_slots(7)] store_reader_appended [OF reader_slots(8)]
        store_writer_appended [OF writer_slots(1)] store_writer_appended [OF writer_slots(2)]
        store_writer_appended [OF writer_slots(3)] store_writer_appended [OF writer_slots(4)]
        store_writer_appended [OF writer_slots(5)] store_writer_appended [OF writer_slots(6)]
        store_writer_appended [OF writer_slots(7)])
qed

section \<open>The status that follows from the samples\<close>

definition ends_with :: "StatusLevel \<Rightarrow> monitor_object list \<Rightarrow> bool" where
  "ends_with l xs \<longleftrightarrow> xs \<noteq> [] \<and> monitor_level (last xs) = l"

definition level_of :: "(StatusKind \<Rightarrow> monitor_object list) \<Rightarrow> StatusLevel" where
  "level_of series =
     (if ends_with ERROR_STATUS (series EXTENDED_INCOMPATIBLE_QOS) then ERROR_STATUS
      else if \<exists>k \<in> {LIVELINESS_LOST, DEADLINE_MISSED, SAMPLE_LOST}. ends_with WARNING_STATUS (series k)
      then WARNING_STATUS else OK_STATUS)"

definition statuses_settled :: "'q database \<Rightarrow> bool" where
  "statuses_settled db \<longleftrightarrow>
     (\<forall>a x. reader_objs db a = Some x \<longrightarrow> e_status x = level_of (\<lambda>k. reader_statuses k (dr_monitor x))) \<and>
     (\<forall>a x. writer_objs db a = Some x \<longrightarrow> e_status x = level_of (\<lambda>k. writer_statuses k (dw_monitor x)))"

lemma ends_with_map [simp]:
  "ends_with l [] = False"
  "ends_with l (map ExtendedIncompatibleQosObject xs) = last_has l xs"
  "ends_with l (map DeadlineMissedObject ms) = last_has l ms"
  "ends_with l (map SampleLostObject ss) = last_has l ss"
  "ends_with l (map LivelinessLostObject ls) = last_has l ls"
  by (auto simp: last_has_def ends_with_def last_map)

lemma update_status_level:
  "update_reader_status r =
     (e_status r \<noteq> level_of (\<lambda>k. reader_statuses k (dr_monitor r)), r\<lparr>e_status := level_of (\<lambda>k. reader_statuses k (dr_monitor r))\<rparr>)"
  "update_writer_status w =
     (e_status w \<noteq> level_of (\<lambda>k. writer_statuses k (dw_monitor w)), w\<lparr>e_status := level_of (\<lambda>k. writer_statuses k (dw_monitor w))\<rparr>)"
  by (auto simp: update_reader_status_def update_writer_status_def entity_status_logic_nts_def level_of_def)

text \<open>A sample of another kind does not move the level.\<close>

lemma level_of_other:
  assumes "K \<notin> {EXTENDED_INCOMPATIBLE_QOS, LIVELINESS_LOST, DEADLINE_MISSED, SAMPLE_LOST}"
    and "\<And>k. k \<noteq> K \<Longrightarrow> f k = g k"
  shows "level_of f = level_of g"
  using assms by (auto simp: level_of_def)

definition status_of :: "'q database \<Rightarrow> entity_ref \<Rightarrow> StatusLevel option" where
  "status_of db r = map_option e_status (entity_of db r)"

definition settles :: "entity_ref \<Rightarrow> bool \<Rightarrow> 'q database \<Rightarrow> 'q database \<Rightarrow> bool" where
  "settles r b db db' \<longleftrightarrow>
     (statuses_settled db \<longrightarrow> statuses_settled db') \<and> (b \<longleftrightarrow> status_of db' r \<noteq> status_of db r)"

lemma store_participant_settles:
  assumes "store_participant_status get put x r db = (Inr b, db')"
  shows "settles r b db db'"
proof -
  obtain a p where r: "r = ParticipantRef a" "participant_objs db a = Some p"
    using assms by (cases r) (auto simp: store_participant_status_def split: option.splits)
  show ?thesis
    using assms r by (auto simp: store_participant_status_def settles_def status_of_def statuses_settled_def
        Entity.truncate_def split: if_splits)
qed

lemma store_reader_settles:
  assumes s: "status_slot get put reader_statuses c K"
    and u: "u \<or> K \<notin> {EXTENDED_INCOMPATIBLE_QOS, LIVELINESS_LOST, DEADLINE_MISSED, SAMPLE_LOST}"
    and run: "store_reader_status u get put x r db = (Inr b, db')"
  shows "settles r b db db'"
proof -
  obtain a p where r: "r = DataReaderRef a" "reader_objs db a = Some p"
    using run by (cases r) (auto simp: store_reader_status_def split: option.splits)
  have other: "level_of (\<lambda>k. reader_statuses k (put xs d)) = level_of (\<lambda>k. reader_statuses k d)" if "\<not> u" for xs d
    using u that by (intro level_of_other [of K]) (auto simp: status_slot.view_put [OF s])
  show ?thesis
    using run r other by (cases u) (auto simp: store_reader_status_def settles_def status_of_def statuses_settled_def
        update_status_level Let_def Entity.truncate_def split: if_splits)
qed

lemma store_writer_settles:
  assumes s: "status_slot get put writer_statuses c K"
    and u: "u \<or> K \<notin> {EXTENDED_INCOMPATIBLE_QOS, LIVELINESS_LOST, DEADLINE_MISSED, SAMPLE_LOST}"
    and run: "store_writer_status u get put x r db = (Inr b, db')"
  shows "settles r b db db'"
proof -
  obtain a p where r: "r = DataWriterRef a" "writer_objs db a = Some p"
    using run by (cases r) (auto simp: store_writer_status_def split: option.splits)
  have other: "level_of (\<lambda>k. writer_statuses k (put xs d)) = level_of (\<lambda>k. writer_statuses k d)" if "\<not> u" for xs d
    using u that by (intro level_of_other [of K]) (auto simp: status_slot.view_put [OF s])
  show ?thesis
    using run r other by (cases u) (auto simp: store_writer_status_def settles_def status_of_def statuses_settled_def
        update_status_level Let_def Entity.truncate_def split: if_splits)
qed

lemma insert_status_settles:
  assumes "insert_status d i ob db = (Inr b, db')" and "get_entity_nts db i = Inr r"
  shows "settles r b db db'"
proof -
  obtain k where k: "entity_with_kind db i = Inr (r, k)"
    using assms by (auto simp: insert_status_def entity_with_kind_def split: option.splits if_splits)
  show ?thesis
    using assms(1) k
    by (cases ob; cases "monitor_kind ob")
      (auto simp: insert_status_def insert_status_defs split: if_splits
        intro: store_participant_settles store_reader_settles store_writer_settles reader_slots writer_slots)
qed

lemma store_error:
  "store_participant_status get put x r db = (Inl e, db') \<Longrightarrow> db' = db"
  "store_reader_status u get' put' y r db = (Inl e, db') \<Longrightarrow> db' = db"
  "store_writer_status u get'' put'' z r db = (Inl e, db') \<Longrightarrow> db' = db"
  by (auto simp: store_participant_status_def store_reader_status_def store_writer_status_def Let_def split_beta
      split: sum.splits if_splits)

lemma insert_status_error: "insert_status d i ob db = (Inl e, db') \<Longrightarrow> db' = db"
  by (cases ob; cases "monitor_kind ob")
    (auto simp: insert_status_def insert_status_defs split: if_splits sum.splits dest: store_error)

section \<open>Reading back\<close>

fun status_class :: "monitor_object \<Rightarrow> StatusKind" where
  "status_class (ProxyObject s) = PROXY"
| "status_class (ConnectionListObject s) = CONNECTION_LIST"
| "status_class (IncompatibleQosObject s) = INCOMPATIBLE_QOS"
| "status_class (InconsistentTopicObject s) = INCONSISTENT_TOPIC"
| "status_class (LivelinessLostObject s) = LIVELINESS_LOST"
| "status_class (LivelinessChangedObject s) = LIVELINESS_CHANGED"
| "status_class (DeadlineMissedObject s) = DEADLINE_MISSED"
| "status_class (SampleLostObject s) = SAMPLE_LOST"
| "status_class (ExtendedIncompatibleQosObject s) = EXTENDED_INCOMPATIBLE_QOS"
| "status_class (PlainMonitorObject s) = INVALID_STATUS"

lemmas get_status_defs = get_proxy_status_def get_connection_list_status_def get_incompatible_qos_status_def
  get_inconsistent_topic_status_def get_liveliness_lost_status_def get_liveliness_changed_status_def
  get_deadline_missed_status_def get_sample_lost_status_def get_extended_incompatible_qos_status_def

lemma cast_Inr:
  "cast_participant db r = Inr (a, p) \<longleftrightarrow> r = ParticipantRef a \<and> participant_objs db a = Some p"
  "cast_datareader db r = Inr (a, x) \<longleftrightarrow> r = DataReaderRef a \<and> reader_objs db a = Some x"
  "cast_datawriter db r = Inr (a, w) \<longleftrightarrow> r = DataWriterRef a \<and> writer_objs db a = Some w"
  by (cases r; auto split: option.splits)+

lemma read_status_Inr:
  "read_participant_status get db r d = Inr x \<longleftrightarrow>
     (\<exists>a p. r = ParticipantRef a \<and> participant_objs db a = Some p \<and> x = last_sample d (get (dp_monitor p)))"
  "read_reader_status get' db r d = Inr x \<longleftrightarrow>
     (\<exists>a y. r = DataReaderRef a \<and> reader_objs db a = Some y \<and> x = last_sample d (get' (dr_monitor y)))"
  "read_writer_status get'' db r d = Inr x \<longleftrightarrow>
     (\<exists>a w. r = DataWriterRef a \<and> writer_objs db a = Some w \<and> x = last_sample d (get'' (dw_monitor w)))"
  by (auto simp: read_participant_status_def read_reader_status_def read_writer_status_def bind_result_Inr_iff cast_Inr)

lemma get_status_last:
  assumes "entity_with_kind db i = Inr (r, k)" and "get_status_data db i ob = Inr x"
  shows "x = (if status_series (status_class ob) r db = [] then ob else last (status_series (status_class ob) r db))"
  using assms by (cases ob)
    (auto simp: get_status_data_def get_status_defs map_result_Inr_iff read_status_Inr last_sample_def last_map split: if_splits)

lemma store_exists:
  "store_participant_status get put x r db = (Inr b, db') \<Longrightarrow> \<exists>y. read_participant_status g db' r d = Inr y"
  "store_reader_status u get' put' x' r db = (Inr b, db') \<Longrightarrow> \<exists>y. read_reader_status g' db' r d = Inr y"
  "store_writer_status u get'' put'' x'' r db = (Inr b, db') \<Longrightarrow> \<exists>y. read_writer_status g'' db' r d = Inr y"
  by (auto simp: store_participant_status_def store_reader_status_def store_writer_status_def Let_def split_beta
      read_status_Inr cast_Inr split: sum.splits if_splits)

lemma insert_status_class: "insert_status d i ob db = (Inr b, db') \<Longrightarrow> monitor_kind ob = status_class ob"
  by (cases "monitor_kind ob"; cases ob) (auto simp: insert_status_def split: if_splits sum.splits)

lemma get_status_after_insert:
  assumes "insert_status d i ob db = (Inr b, db')" and "entity_with_kind db i = Inr (r, k)"
    and "entity_with_kind db' i = Inr (r, k)" and "status_class ob0 = monitor_kind ob"
  shows "\<exists>x. get_status_data db' i ob0 = Inr x"
  using assms insert_status_class [OF assms(1)]
  by (cases ob; cases ob0; simp; auto simp: insert_status_def insert_status_defs get_status_data_def get_status_defs
      map_result_Inr_iff split: if_splits dest: store_exists)

text \<open>The lookup of an entity does not depend on its status and its samples.\<close>

definition same_lookup :: "'q database \<Rightarrow> 'q database \<Rightarrow> bool" where
  "same_lookup db db' \<longleftrightarrow>
     db' = db\<lparr>participant_objs := participant_objs db', reader_objs := reader_objs db', writer_objs := writer_objs db'\<rparr> \<and>
     (\<forall>a. map_option (\<lambda>x. (e_id x, e_kind x)) (participant_objs db' a) = map_option (\<lambda>x. (e_id x, e_kind x)) (participant_objs db a)) \<and>
     (\<forall>a. map_option (\<lambda>x. (e_id x, e_kind x)) (reader_objs db' a) = map_option (\<lambda>x. (e_id x, e_kind x)) (reader_objs db a)) \<and>
     (\<forall>a. map_option (\<lambda>x. (e_id x, e_kind x)) (writer_objs db' a) = map_option (\<lambda>x. (e_id x, e_kind x)) (writer_objs db a))"

lemma same_lookup_refl [simp]: "same_lookup db db"
  by (simp add: same_lookup_def)

lemma update_status_id [simp]:
  "e_id (snd (update_reader_status r)) = e_id r" "e_kind (snd (update_reader_status r)) = e_kind r"
  "e_id (snd (update_writer_status w)) = e_id w" "e_kind (snd (update_writer_status w)) = e_kind w"
  by (simp_all add: update_status_level)

lemma store_same_lookup:
  "store_participant_status get put x r db = (Inr b, db') \<Longrightarrow> same_lookup db db'"
  "store_reader_status u get' put' x' r db = (Inr b, db') \<Longrightarrow> same_lookup db db'"
  "store_writer_status u get'' put'' x'' r db = (Inr b, db') \<Longrightarrow> same_lookup db db'"
  by (auto simp: store_participant_status_def store_reader_status_def store_writer_status_def Let_def split_beta
      same_lookup_def cast_Inr split: sum.splits if_splits)

lemma insert_status_same_lookup:
  "insert_status d i ob db = (Inr b, db') \<Longrightarrow> same_lookup db db'"
  by (cases ob; cases "monitor_kind ob")
    (auto simp: insert_status_def insert_status_defs split: if_splits sum.splits dest: store_same_lookup)

lemma pair_id_kind:
  "map_option (\<lambda>x. (e_id x, e_kind x)) p = map_option (\<lambda>x. (e_id x, e_kind x)) q \<Longrightarrow>
     map_option e_id p = map_option e_id q \<and> map_option e_kind p = map_option e_kind q"
  by (cases p; cases q) auto

lemma entity_kind_map: "map_option e_kind (entity_of db r) = (case r of
     HostRef a \<Rightarrow> map_option e_kind (host_objs db a) | UserRef a \<Rightarrow> map_option e_kind (user_objs db a)
   | ProcessRef a \<Rightarrow> map_option e_kind (process_objs db a) | DomainRef a \<Rightarrow> map_option e_kind (domain_objs db a)
   | TopicRef a \<Rightarrow> map_option e_kind (topic_objs db a) | ParticipantRef a \<Rightarrow> map_option e_kind (participant_objs db a)
   | DataReaderRef a \<Rightarrow> map_option e_kind (reader_objs db a) | DataWriterRef a \<Rightarrow> map_option e_kind (writer_objs db a)
   | LocatorRef a \<Rightarrow> map_option e_kind (locator_objs db a))"
  by (cases r) (simp_all add: option.map_comp comp_def Entity.truncate_def)

lemma entity_with_kind_alt:
  "entity_with_kind db i = bind_result (get_entity_nts db i) (\<lambda>r.
     case map_option e_kind (entity_of db r) of None \<Rightarrow> Inl NullDereference | Some k \<Rightarrow> Inr (r, k))"
  by (auto simp: entity_with_kind_def intro!: arg_cong [where f = "bind_result _"] split: option.split)

lemma same_lookup_entity:
  assumes "same_lookup db db'"
  shows "get_entity_nts db' i = get_entity_nts db i" and "entity_with_kind db' i = entity_with_kind db i"
proof -
  define P where "P = participant_objs db'"
  define R where "R = reader_objs db'"
  define W where "W = writer_objs db'"
  have db': "db' = db\<lparr>participant_objs := P, reader_objs := R, writer_objs := W\<rparr>"
    and p: "map_option (\<lambda>x. (e_id x, e_kind x)) (P a) = map_option (\<lambda>x. (e_id x, e_kind x)) (participant_objs db a)"
    and r: "map_option (\<lambda>x. (e_id x, e_kind x)) (R a) = map_option (\<lambda>x. (e_id x, e_kind x)) (reader_objs db a)"
    and w: "map_option (\<lambda>x. (e_id x, e_kind x)) (W a) = map_option (\<lambda>x. (e_id x, e_kind x)) (writer_objs db a)" for a
    using assms unfolding same_lookup_def P_def R_def W_def by blast+
  have "find_entity db' i = find_entity db i"
    using find_addr_in_updated [of "participants db" P "participant_objs db" i]
      find_addr_in_updated [of "datareaders db" R "reader_objs db" i]
      find_addr_in_updated [of "datawriters db" W "writer_objs db" i]
      pair_id_kind [OF p] pair_id_kind [OF r] pair_id_kind [OF w]
    by (simp add: db' find_entity_def)
  then show g: "get_entity_nts db' i = get_entity_nts db i" by (simp add: get_entity_nts_def)
  have "map_option e_kind (entity_of db' x) = map_option e_kind (entity_of db x)" for x
    unfolding entity_kind_map using pair_id_kind [OF p] pair_id_kind [OF r] pair_id_kind [OF w]
    by (simp add: db' split: entity_ref.split)
  then show "entity_with_kind db' i = entity_with_kind db i" by (simp add: entity_with_kind_alt g)
qed

section \<open>Properties\<close>

text \<open>
  A sample of the monitor service that is accepted is appended to the series of its kind of the
  entity when it is newer than the last one and dropped otherwise, no other series of any entity
  changes, and an insertion that throws changes nothing.
\<close>

theorem status_sample_stored:
  assumes "insert_status d i ob db = (res, db')" and "get_entity_nts db i = Inr r"
  shows "case res of
      Inl e \<Rightarrow> db' = db
    | Inr b \<Rightarrow> \<forall>k r'. status_series k r' db' =
        (if k = monitor_kind ob \<and> r' = r \<and> newer_status ob (status_series k r db)
         then status_series k r db @ [ob] else status_series k r' db)"
proof (cases res)
  case (Inl e)
  then show ?thesis using assms(1) insert_status_error by simp
next
  case (Inr b)
  then show ?thesis
    using insert_status_appended [of d i ob db b db' r] assms by (simp add: appended_def)
qed

text \<open>
  C25: the code's rule for the status level of an endpoint, in every reachable order of samples: the
  level is the one the last samples of four kinds ask for, an error after an extended incompatible-QoS
  sample with an error, otherwise a warning after a lost liveliness, a missed deadline or a lost
  sample, otherwise none. Inserting a sample of any kind keeps this, and reports a change exactly when
  the level of the entity changes. The samples of the other kinds have no say: a last (plain)
  incompatible-QoS sample in error leaves the level alone, where \<open>docs/rst/types/status_kind.rst\<close>
  says that it is an error and that the level is obtained from all the status data
  (\<open>incompatible_qos_has_no_say\<close> below).
\<close>

theorem statuses_follow_samples:
  assumes "statuses_settled db" and "insert_status d i ob db = (Inr b, db')" and "get_entity_nts db i = Inr r"
  shows "statuses_settled db' \<and> (b \<longleftrightarrow> status_of db' r \<noteq> status_of db r)"
  using insert_status_settles [OF assms(2,3)] assms(1) by (simp add: settles_def)

text \<open>
  C26: a sample that was inserted and was newer than those before it is the answer of \<open>get_status_data\<close>
  for its kind.
\<close>

theorem status_round_trip:
  assumes "insert_status d i ob db = (Inr b, db')" and "get_entity_nts db i = Inr r"
    and "newer_status ob (status_series (monitor_kind ob) r db)" and "status_class ob0 = monitor_kind ob"
  shows "get_status_data db' i ob0 = Inr ob"
proof -
  obtain k where k: "entity_with_kind db i = Inr (r, k)"
    using assms(1,2) by (auto simp: insert_status_def entity_with_kind_def split: option.splits if_splits)
  then have k': "entity_with_kind db' i = Inr (r, k)"
    using same_lookup_entity(2) [OF insert_status_same_lookup [OF assms(1)]] by simp
  obtain x where x: "get_status_data db' i ob0 = Inr x"
    using get_status_after_insert [OF assms(1) k k' assms(4)] by blast
  have "status_series (monitor_kind ob) r db' = status_series (monitor_kind ob) r db @ [ob]"
    using insert_status_appended [OF assms(1,2)] assms(3) by (simp add: appended_def)
  with get_status_last [OF k' x] x show ?thesis by (simp add: assms(4))
qed

text \<open>The samples of the monitor service are cleared with the statistics.\<close>

definition statuses_sorted :: "'q database \<Rightarrow> bool" where
  "statuses_sorted db \<longleftrightarrow>
     (\<forall>a p. participant_objs db a = Some p \<longrightarrow> participant_monitor_wf (dp_monitor p)) \<and>
     (\<forall>a r. reader_objs db a = Some r \<longrightarrow> reader_monitor_wf (dr_monitor r)) \<and>
     (\<forall>a w. writer_objs db a = Some w \<longrightarrow> writer_monitor_wf (dw_monitor w))"

lemma sorted_push_status:
  "ts_sorted ms_ts xs \<Longrightarrow> \<not> dc_is_old ms_ts (ms_ts s) xs \<Longrightarrow> ts_sorted ms_ts (xs @ [s])"
  by (auto simp: dc_is_old_iff ts_sorted_append not_le)

lemma store_status_sorted:
  "store_participant_status get put s r db = (Inr b, db') \<Longrightarrow> statuses_sorted db \<Longrightarrow>
     (\<And>d. participant_monitor_wf d \<Longrightarrow> ts_sorted ms_ts (get d)) \<Longrightarrow>
     (\<And>xs d. participant_monitor_wf d \<Longrightarrow> ts_sorted ms_ts xs \<Longrightarrow> participant_monitor_wf (put xs d)) \<Longrightarrow>
     statuses_sorted db'"
  "store_reader_status u get' put' s' r db = (Inr b, db') \<Longrightarrow> statuses_sorted db \<Longrightarrow>
     (\<And>d. reader_monitor_wf d \<Longrightarrow> ts_sorted ms_ts (get' d)) \<Longrightarrow>
     (\<And>xs d. reader_monitor_wf d \<Longrightarrow> ts_sorted ms_ts xs \<Longrightarrow> reader_monitor_wf (put' xs d)) \<Longrightarrow>
     statuses_sorted db'"
  "store_writer_status u get'' put'' s'' r db = (Inr b, db') \<Longrightarrow> statuses_sorted db \<Longrightarrow>
     (\<And>d. writer_monitor_wf d \<Longrightarrow> ts_sorted ms_ts (get'' d)) \<Longrightarrow>
     (\<And>xs d. writer_monitor_wf d \<Longrightarrow> ts_sorted ms_ts xs \<Longrightarrow> writer_monitor_wf (put'' xs d)) \<Longrightarrow>
     statuses_sorted db'"
  by (auto simp: store_participant_status_def store_reader_status_def store_writer_status_def statuses_sorted_def
      cast_Inr Let_def split_beta sorted_push_status split: sum.splits if_splits)

text \<open>The samples of the monitor service stay sorted.\<close>

lemma insert_status_sorted:
  "insert_status d i ob db = (Inr b, db') \<Longrightarrow> statuses_sorted db \<Longrightarrow> statuses_sorted db'"
  by (cases ob; cases "monitor_kind ob")
    (auto simp: insert_status_def insert_status_defs split: if_splits sum.splits
      elim!: store_status_sorted simp: monitor_wf_defs)

lemma last_sample_cleared:
  assumes "ts_sorted ms_ts xs"
  shows "last_sample d (dc_clear ms_ts t xs) =
    (if outlives t (ms_ts (last_sample d xs)) then last_sample d xs else d)"
proof (cases xs rule: rev_cases)
  case (snoc ys y)
  have "filter (\<lambda>x. outlives t (ms_ts x)) ys = []" if "\<not> outlives t (ms_ts y)"
    using assms that snoc by (fastforce simp: ts_sorted_append outlives_def filter_empty_conv)
  then show ?thesis using assms snoc by (auto simp: dc_clear_outlives last_sample_def)
qed (simp add: dc_clear_def last_sample_def)

lemma cleared_monitors:
  "mp_proxy (clear_participant_monitor t b p) = dc_clear ms_ts t (mp_proxy p)"
  "mp_connection_list (clear_participant_monitor t b p) = dc_clear ms_ts t (mp_connection_list p)"
  "mr_proxy (clear_reader_monitor t b r) = dc_clear ms_ts t (mr_proxy r)"
  "mr_connection_list (clear_reader_monitor t b r) = dc_clear ms_ts t (mr_connection_list r)"
  "mr_incompatible_qos (clear_reader_monitor t b r) = dc_clear ms_ts t (mr_incompatible_qos r)"
  "mr_inconsistent_topic (clear_reader_monitor t b r) = dc_clear ms_ts t (mr_inconsistent_topic r)"
  "mr_liveliness_changed (clear_reader_monitor t b r) = dc_clear ms_ts t (mr_liveliness_changed r)"
  "mr_deadline_missed (clear_reader_monitor t b r) = dc_clear ms_ts t (mr_deadline_missed r)"
  "mr_sample_lost (clear_reader_monitor t b r) = dc_clear ms_ts t (mr_sample_lost r)"
  "mr_extended_incompatible_qos (clear_reader_monitor t b r) = dc_clear ms_ts t (mr_extended_incompatible_qos r)"
  "mw_proxy (clear_writer_monitor t b w) = dc_clear ms_ts t (mw_proxy w)"
  "mw_connection_list (clear_writer_monitor t b w) = dc_clear ms_ts t (mw_connection_list w)"
  "mw_incompatible_qos (clear_writer_monitor t b w) = dc_clear ms_ts t (mw_incompatible_qos w)"
  "mw_inconsistent_topic (clear_writer_monitor t b w) = dc_clear ms_ts t (mw_inconsistent_topic w)"
  "mw_liveliness_lost (clear_writer_monitor t b w) = dc_clear ms_ts t (mw_liveliness_lost w)"
  "mw_deadline_missed (clear_writer_monitor t b w) = dc_clear ms_ts t (mw_deadline_missed w)"
  "mw_extended_incompatible_qos (clear_writer_monitor t b w) = dc_clear ms_ts t (mw_extended_incompatible_qos w)"
  by (simp_all add: clear_participant_monitor_def clear_reader_monitor_def clear_writer_monitor_def)

definition forget_sample :: "Timestamp \<Rightarrow> 'p MonitorServiceSample \<Rightarrow> 'p MonitorServiceSample \<Rightarrow> 'p MonitorServiceSample" where
  "forget_sample t d x = (if outlives t (ms_ts x) then x else d)"

lemma read_status_cleared:
  assumes "get_entity_nts db i = Inr r"
  shows "(\<And>a p. participant_objs db a = Some p \<Longrightarrow> ts_sorted ms_ts (get (dp_monitor p))) \<Longrightarrow>
      (\<And>p. get (clear_participant_monitor t False p) = dc_clear ms_ts t (get p)) \<Longrightarrow>
      read_participant_status get (clear_statistics_data_nts t db) r d =
        map_result (forget_sample t d) (read_participant_status get db r d)"
    and "(\<And>a p. reader_objs db a = Some p \<Longrightarrow> ts_sorted ms_ts (get' (dr_monitor p))) \<Longrightarrow>
      (\<And>p. get' (clear_reader_monitor t False p) = dc_clear ms_ts t (get' p)) \<Longrightarrow>
      read_reader_status get' (clear_statistics_data_nts t db) r d =
        map_result (forget_sample t d) (read_reader_status get' db r d)"
    and "(\<And>a p. writer_objs db a = Some p \<Longrightarrow> ts_sorted ms_ts (get'' (dw_monitor p))) \<Longrightarrow>
      (\<And>p. get'' (clear_writer_monitor t False p) = dc_clear ms_ts t (get'' p)) \<Longrightarrow>
      read_writer_status get'' (clear_statistics_data_nts t db) r d =
        map_result (forget_sample t d) (read_writer_status get'' db r d)"
  using find_entity_collected [OF assms]
  by (cases r; auto simp: read_participant_status_def read_reader_status_def read_writer_status_def cleared_data
      last_sample_cleared forget_sample_def split: option.split)+

lemma entity_with_kind_cleared: "entity_with_kind (clear_statistics_data_nts t db) i = entity_with_kind db i"
  by (simp add: entity_with_kind_def get_entity_cleared entity_of_cleared)

lemma entity_with_kind_found: "entity_with_kind db i = Inr (r, k) \<Longrightarrow> get_entity_nts db i = Inr r"
  by (auto simp: entity_with_kind_def bind_result_Inr_iff split: option.splits)

lemma get_status_cleared:
  assumes "statuses_sorted db"
  shows "get_status_data (clear_statistics_data_nts t db) i ob =
    map_result (\<lambda>x. if outlives t (monitor_ts x) then x else ob) (get_status_data db i ob)"
proof (cases "entity_with_kind db i")
  case (Inl e)
  then show ?thesis
    by (cases ob) (simp_all add: get_status_data_def get_status_defs entity_with_kind_cleared)
next
  case (Inr rk)
  obtain r k where rk: "rk = (r, k)" by (cases rk)
  note R = read_status_cleared [OF entity_with_kind_found [OF Inr [unfolded rk]]]
  have f: "map_result f (map_result (forget_sample t d) x) =
      map_result (\<lambda>x. if outlives t (monitor_ts x) then x else f d) (map_result f x)"
    if "\<And>x. monitor_ts (f x) = ms_ts x" for f :: "'p MonitorServiceSample \<Rightarrow> monitor_object" and d x
    using that by (cases x) (simp_all add: forget_sample_def)
  show ?thesis
    using assms
    by (cases ob) (auto simp: get_status_data_def get_status_defs entity_with_kind_cleared Inr rk R cleared_monitors
        f statuses_sorted_def participant_monitor_wf_def reader_monitor_wf_def writer_monitor_wf_def)
qed

text \<open>
  C24: after \<open>clear_statistics_data\<close> up to a time, a query for statistics answers exactly what it would
  have answered before, less the samples older than that time, and fails where it would have failed,
  with the same error; this covers both forms of the query and every kind of data. A query for a
  status answers the sample it answered before when that is not older, and leaves its argument alone
  otherwise. Clearing up to the end of time, the default, forgets every sample. The samples are
  sorted by time and one is stored for every sequence number, as the insertions keep them.
\<close>

theorem clear_statistics_forgets_old:
  assumes "samples_wf db" and "single_datas db" and "statuses_sorted db"
  shows "select_two k i j t_from t_to (clear_statistics_data_nts t db) =
      map_result (filter (\<lambda>x. outlives t (stored_ts x))) (select_two k i j t_from t_to db) \<and>
    select_one k i t_from t_to (clear_statistics_data_nts t db) =
      map_result (filter (\<lambda>x. outlives t (stored_ts x))) (select_one k i t_from t_to db) \<and>
    get_status_data (clear_statistics_data_nts t db) i ob =
      map_result (\<lambda>x. if outlives t (monitor_ts x) then x else ob) (get_status_data db i ob)"
  using select_two_cleared [OF assms(1)] select_one_cleared [OF assms(1,2)] get_status_cleared [OF assms(3)]
  by simp

theorem clear_statistics_forgets_old_witness:
  "select_one PDP_PACKETS (EntityId 1) 5 9 (clear_statistics_data_nts 6 example_query_db) =
     map_result (filter (\<lambda>x. 6 \<le> stored_ts x)) (select_one PDP_PACKETS (EntityId 1) 5 9 example_query_db)"
proof -
  have s: "single_datas example_query_db" "statuses_sorted example_query_db"
    by (simp_all add: single_datas_def statuses_sorted_def example_query_db_def new_database_def
        entity_constructor_defs participant_monitor_wf_def empty_participant_monitor_def)
  show ?thesis
    using clear_statistics_forgets_old [OF example_query_db_samples s, of PDP_PACKETS "EntityId 1" "EntityId 1" 5 9 6]
    by (simp add: outlives_def the_end_of_time_def)
qed

text \<open>
  Clearing the statistics does not settle the status: an entity in error keeps that status after its
  samples are gone, until the next sample of the monitor service.
\<close>

theorem cleared_status_stays:
  assumes "reader_objs db a = Some x" and "(i, a) \<in> entries_in (datareaders db)" and "e_status x = ERROR_STATUS"
  shows "\<exists>x'. reader_objs (clear_statistics_data_nts the_end_of_time db) a = Some x' \<and>
    dr_monitor x' = empty_reader_monitor \<and> e_status x' = ERROR_STATUS \<and>
    \<not> statuses_settled (clear_statistics_data_nts the_end_of_time db)"
proof -
  have "a \<in> snd ` entries_in (datareaders db)" using assms(2) by force
  then obtain x' where x': "reader_objs (clear_statistics_data_nts the_end_of_time db) a = Some x'"
      "dr_monitor x' = empty_reader_monitor" "e_status x' = ERROR_STATUS"
    using assms(1,3) by (simp add: cleared_data clear_reader_monitor_def empty_reader_monitor_def)
  moreover have "\<not> statuses_settled (clear_statistics_data_nts the_end_of_time db)"
    using x' by (auto simp: statuses_settled_def level_of_def empty_reader_monitor_def last_has_def
        intro!: exI [of _ a] exI [of _ x'])
  ultimately show ?thesis by blast
qed

definition example_monitor_db :: "unit database" where
  "example_monitor_db = new_database\<lparr>domains := [(EntityId 0, 0)],
     domain_objs := [0 \<mapsto> (new_domain ''0'' 0 OK_STATUS)\<lparr>e_id := EntityId 0\<rparr>],
     datareaders := [(EntityId 0, [(EntityId 3, 0)])],
     reader_objs := [0 \<mapsto> (new_datareader ''r'' () ''1.1'' None None None OK_STATUS UNKNOWN_APP [] DISCOVERY_SOURCE 0)
       \<lparr>e_id := EntityId 3\<rparr>]\<rparr>"

definition example_deadline :: DeadlineMissedSample where
  "example_deadline = new_deadline_missed_sample\<lparr>ms_status := WARNING_STATUS, ms_ts := 7\<rparr>"

lemma example_monitor_db_entity:
  "get_entity_nts example_monitor_db (EntityId 3) = Inr (DataReaderRef 0)"
  "entity_with_kind example_monitor_db (EntityId 3) = Inr (DataReaderRef 0, DATAREADER)"
  by (simp_all add: example_monitor_db_def new_database_def get_entity_nts_def find_entity_def find_addr_def
      find_addr_in_def live_in_def entity_with_kind_def entity_constructor_defs endpoint_constructor_defs)

lemma example_monitor_db_reader:
  "\<exists>x. reader_objs example_monitor_db 0 = Some x \<and> dr_monitor x = empty_reader_monitor \<and> e_status x = OK_STATUS"
  "om_find (domains example_monitor_db) (EntityId 0) = Some 0" "ms_kind example_deadline = DEADLINE_MISSED"
  by (simp_all add: example_monitor_db_def example_deadline_def new_deadline_missed_sample_def new_monitor_sample_def
      entity_constructor_defs endpoint_constructor_defs)

lemma example_monitor_db_insert:
  "\<exists>b db'. insert_status (EntityId 0) (EntityId 3) (DeadlineMissedObject example_deadline) example_monitor_db = (Inr b, db')"
  "status_series DEADLINE_MISSED (DataReaderRef 0) example_monitor_db = []"
proof -
  obtain x where x: "reader_objs example_monitor_db 0 = Some x" "dr_monitor x = empty_reader_monitor"
    using example_monitor_db_reader(1) by blast
  then show "status_series DEADLINE_MISSED (DataReaderRef 0) example_monitor_db = []"
    by (simp add: empty_reader_monitor_def)
  show "\<exists>b db'. insert_status (EntityId 0) (EntityId 3) (DeadlineMissedObject example_deadline) example_monitor_db = (Inr b, db')"
    using x by (simp add: insert_status_def example_monitor_db_reader example_monitor_db_entity
        insert_deadline_missed_def store_reader_status_def Let_def split_beta empty_reader_monitor_def dc_is_old_def)
qed

lemma example_monitor_db_settled: "statuses_settled example_monitor_db"
  by (simp add: statuses_settled_def example_monitor_db_def new_database_def level_of_def last_has_def entity_constructor_defs
      endpoint_constructor_defs empty_reader_monitor_def)

text \<open>
  Where the code and the documentation part: a plain incompatible-QoS sample never moves the level of
  its entity, whatever level the sample has.
\<close>

theorem incompatible_qos_has_no_say:
  assumes "statuses_settled db" and "get_entity_nts db i = Inr r"
    and "insert_status d i (IncompatibleQosObject s) db = (Inr b, db')"
  shows "\<not> b \<and> status_of db' r = status_of db r"
proof -
  have k: "ms_kind s = INCOMPATIBLE_QOS" using insert_status_class [OF assms(3)] by simp
  obtain r' k' where e: "entity_with_kind db i = Inr (r', k')"
    using assms(3) by (auto simp: insert_status_def split: if_splits sum.splits)
  have r': "r' = r" using entity_with_kind_found [OF e] assms(2) by simp
  have run: "insert_incompatible_qos s k' r db = (Inr b, db')"
    using assms(3) e k r' by (auto simp: insert_status_def split: if_splits)
  have same: "level_of (\<lambda>k. if k = INCOMPATIBLE_QOS then q else f k) = level_of f" for q f
    by (rule level_of_other [of INCOMPATIBLE_QOS]) simp_all
  have "\<not> b"
    using run assms(1) unfolding insert_incompatible_qos_def store_reader_status_def store_writer_status_def
    by (auto simp: Let_def split_beta cast_Inr update_status_level statuses_settled_def same
        split: if_splits sum.splits)
  then show ?thesis using insert_status_settles [OF assms(3,2)] by (simp add: settles_def)
qed

definition example_incompatible :: IncompatibleQosSample where
  "example_incompatible = new_incompatible_qos_sample\<lparr>ms_status := ERROR_STATUS, ms_ts := 7\<rparr>"

theorem status_sample_stored_witness:
  "\<exists>b db'. insert_status (EntityId 0) (EntityId 3) (DeadlineMissedObject example_deadline) example_monitor_db = (Inr b, db') \<and>
     status_series DEADLINE_MISSED (DataReaderRef 0) db' = [DeadlineMissedObject example_deadline]"
proof -
  obtain b db' where i: "insert_status (EntityId 0) (EntityId 3) (DeadlineMissedObject example_deadline) example_monitor_db = (Inr b, db')"
    using example_monitor_db_insert(1) by blast
  from status_sample_stored [OF i example_monitor_db_entity(1)] i show ?thesis
    by (simp add: example_monitor_db_insert example_monitor_db_reader newer_status_def del: status_series.simps)
qed

theorem incompatible_qos_has_no_say_witness:
  "\<exists>b db'. insert_status (EntityId 0) (EntityId 3) (IncompatibleQosObject example_incompatible) example_monitor_db =
       (Inr b, db') \<and> status_series INCOMPATIBLE_QOS (DataReaderRef 0) db' = [IncompatibleQosObject example_incompatible] \<and>
     monitor_level (IncompatibleQosObject example_incompatible) = ERROR_STATUS \<and>
     status_of db' (DataReaderRef 0) = Some OK_STATUS"
proof -
  obtain x where x: "reader_objs example_monitor_db 0 = Some x" "dr_monitor x = empty_reader_monitor"
      "e_status x = OK_STATUS"
    using example_monitor_db_reader(1) by blast
  have k: "ms_kind example_incompatible = INCOMPATIBLE_QOS" "ms_status example_incompatible = ERROR_STATUS"
    by (simp_all add: example_incompatible_def new_incompatible_qos_sample_def new_monitor_sample_def)
  obtain b db' where i: "insert_status (EntityId 0) (EntityId 3) (IncompatibleQosObject example_incompatible)
      example_monitor_db = (Inr b, db')"
      and s: "status_series INCOMPATIBLE_QOS (DataReaderRef 0) db' = [IncompatibleQosObject example_incompatible]"
    using x k by (simp add: insert_status_def example_monitor_db_reader example_monitor_db_entity
        insert_incompatible_qos_def store_reader_status_def Let_def split_beta empty_reader_monitor_def dc_is_old_def)
  have "status_of example_monitor_db (DataReaderRef 0) = Some OK_STATUS"
    using x by (simp add: status_of_def Entity.truncate_def)
  with incompatible_qos_has_no_say [OF example_monitor_db_settled example_monitor_db_entity(1) i] i s k
  show ?thesis by auto
qed

theorem statuses_follow_samples_witness:
  "\<exists>b db'. insert_status (EntityId 0) (EntityId 3) (DeadlineMissedObject example_deadline) example_monitor_db = (Inr b, db') \<and>
     statuses_settled db'"
proof -
  obtain b db' where i: "insert_status (EntityId 0) (EntityId 3) (DeadlineMissedObject example_deadline) example_monitor_db = (Inr b, db')"
    using example_monitor_db_insert(1) by blast
  with statuses_follow_samples [OF example_monitor_db_settled i example_monitor_db_entity(1)] show ?thesis by blast
qed

theorem status_round_trip_witness:
  "\<exists>b db'. insert_status (EntityId 0) (EntityId 3) (DeadlineMissedObject example_deadline) example_monitor_db = (Inr b, db') \<and>
     get_status_data db' (EntityId 3) (DeadlineMissedObject new_deadline_missed_sample) = Inr (DeadlineMissedObject example_deadline)"
proof -
  obtain b db' where i: "insert_status (EntityId 0) (EntityId 3) (DeadlineMissedObject example_deadline) example_monitor_db = (Inr b, db')"
    using example_monitor_db_insert(1) by blast
  have n: "newer_status (DeadlineMissedObject example_deadline)
      (status_series (monitor_kind (DeadlineMissedObject example_deadline)) (DataReaderRef 0) example_monitor_db)"
    by (simp add: example_monitor_db_insert example_monitor_db_reader newer_status_def del: status_series.simps)
  from status_round_trip [OF i example_monitor_db_entity(1) n, of "DeadlineMissedObject new_deadline_missed_sample"] i
  show ?thesis by (simp add: example_monitor_db_reader)
qed

end
