(* ===== verification/Listeners.thy ===== *)
theory Listeners
  imports DbState
begin

text \<open>
  The callbacks of \<open>details::StatisticsBackendData\<close> (\<open>StatisticsBackendData.cpp\<close>) with the
  \<open>details::Monitor\<close>s (\<open>Monitor.hpp\<close>) and the discovery counters \<open>DomainListener::Status\<close>
  (\<open>listener/DomainListener.hpp\<close>). A call of a user's listener is recorded with its arguments in
  \<open>calls\<close>; the command lines of the notifiers are recorded in \<open>commands\<close>. The lemmas show that every
  event reaches at most one listener, and only one that asked for it, and that the counters reported
  to the listeners add up.
\<close>

section \<open>Discovery counters\<close>

text \<open>\<open>int32_t\<close> counters: a word read as two's complement.\<close>

record instance_status =
  st_total_count :: "32 word"
  st_total_count_change :: "32 word"
  st_current_count :: "32 word"
  st_current_count_change :: "32 word"

definition new_status :: instance_status where
  "new_status = \<lparr>st_total_count = 0, st_total_count_change = 0, st_current_count = 0,
     st_current_count_change = 0\<rparr>"

definition on_instance_discovered :: "instance_status \<Rightarrow> instance_status" where
  "on_instance_discovered s = \<lparr>st_total_count = st_total_count s + 1,
     st_total_count_change = st_total_count_change s + 1, st_current_count = st_current_count s + 1,
     st_current_count_change = st_current_count_change s + 1\<rparr>"

definition on_instance_undiscovered :: "instance_status \<Rightarrow> instance_status" where
  "on_instance_undiscovered s =
     (if 0 < sint (st_current_count s)
      then s\<lparr>st_current_count := st_current_count s - 1,
             st_current_count_change := st_current_count_change s - 1\<rparr>
      else s)"

definition on_status_read :: "instance_status \<Rightarrow> instance_status" where
  "on_status_read s = s\<lparr>st_current_count_change := 0, st_total_count_change := 0\<rparr>"

definition prepare_entity_discovery_status :: "DiscoveryStatus \<Rightarrow> instance_status \<Rightarrow> instance_status" where
  "prepare_entity_discovery_status ds s =
     (if ds = DISCOVERY then on_instance_discovered s
      else if ds = UNDISCOVERY then on_instance_undiscovered s
      else s)"

section \<open>Monitors and listeners\<close>

datatype callback =
    OnTopicDiscovery EntityId EntityId instance_status
  | OnParticipantDiscovery EntityId EntityId instance_status
  | OnDataReaderDiscovery EntityId EntityId instance_status
  | OnDataWriterDiscovery EntityId EntityId instance_status
  | OnHostDiscovery EntityId instance_status
  | OnUserDiscovery EntityId instance_status
  | OnProcessDiscovery EntityId instance_status
  | OnLocatorDiscovery EntityId instance_status
  | OnDataAvailable EntityId EntityId DataKind
  | OnStatusReported EntityId EntityId StatusKind
  | OnAlertTriggered EntityId EntityId AlertInfo string string
  | OnAlertTimeout EntityId AlertInfo
  | OnDomainViewGraphUpdate EntityId

text \<open>The listener that is called: the one of the monitor of a domain, or the physical one.\<close>

datatype listener = DomainListener EntityId | PhysicalListener

text \<open>\<open>domain_listener\<close> and \<open>physical_listener\<close> say whether the pointer is not null.\<close>

record Monitor =
  m_id :: EntityId
  domain_listener :: bool
  domain_callback_mask :: mask
  data_mask :: mask
  participant_status :: instance_status
  topic_status :: instance_status
  datareader_status :: instance_status
  datawriter_status :: instance_status

record backend =
  monitors_by_entity :: "(EntityId, Monitor) omap"
  physical_listener :: bool
  physical_callback_mask :: mask
  physical_data_mask :: mask
  host_status :: instance_status
  user_status :: instance_status
  process_status :: instance_status
  locator_status :: instance_status
  calls :: "(listener \<times> callback) list"
  commands :: "string list"

definition should_call_domain_listener :: "Monitor \<Rightarrow> CallbackKind \<Rightarrow> DataKind \<Rightarrow> bool" where
  "should_call_domain_listener m ck dk =
     (if \<not> domain_listener m then False
      else if \<not> bm_is_set (domain_callback_mask m) (callback_value ck) then False
      else if dk \<noteq> INVALID_DATA \<and> \<not> bm_is_set (data_mask m) (datakind_value dk) then False
      else True)"

definition should_call_physical_listener :: "backend \<Rightarrow> CallbackKind \<Rightarrow> DataKind \<Rightarrow> bool" where
  "should_call_physical_listener be ck dk =
     (if \<not> physical_listener be then False
      else if \<not> bm_is_set (physical_callback_mask be) (callback_value ck) then False
      else if dk \<noteq> INVALID_DATA \<and> \<not> bm_is_set (physical_data_mask be) (datakind_value dk) then False
      else True)"

section \<open>The callbacks\<close>

definition called :: "listener \<Rightarrow> callback \<Rightarrow> backend \<Rightarrow> backend" where
  "called l cb be = be\<lparr>calls := calls be @ [(l, cb)]\<rparr>"

text \<open>The chain of \<open>if\<close> and \<open>else if\<close> every callback of a domain ends with.\<close>

definition call_listener :: "EntityId \<Rightarrow> Monitor \<Rightarrow> CallbackKind \<Rightarrow> DataKind \<Rightarrow> callback \<Rightarrow> backend \<Rightarrow> backend"
  where
  "call_listener d m ck dk cb be =
     (if should_call_domain_listener m ck dk then called (DomainListener d) cb be
      else if should_call_physical_listener be ck dk then called PhysicalListener cb be
      else be)"

definition on_data_available :: "EntityId \<Rightarrow> EntityId \<Rightarrow> DataKind \<Rightarrow> backend \<Rightarrow> backend" where
  "on_data_available d e dk be =
     (case om_find (monitors_by_entity be) d of
        None \<Rightarrow> be
      | Some m \<Rightarrow> call_listener d m ON_DATA_AVAILABLE dk (OnDataAvailable d e dk) be)"

definition on_status_reported :: "EntityId \<Rightarrow> EntityId \<Rightarrow> StatusKind \<Rightarrow> backend \<Rightarrow> backend" where
  "on_status_reported d e sk be =
     (case om_find (monitors_by_entity be) d of
        None \<Rightarrow> be
      | Some m \<Rightarrow> call_listener d m ON_STATUS_REPORTED INVALID_DATA (OnStatusReported d e sk) be)"

definition alert_message :: "AlertInfo \<Rightarrow> string \<Rightarrow> string \<Rightarrow> string option" where
  "alert_message a g data =
     (let intro = ''[DDS MONITOR INSTANCE] Alert '' @ alert_name a @ '' was triggered. Entity '' @ g
      in case alert_kind a of
           NEW_DATA_ALERT \<Rightarrow> Some (intro @ '' emitted a DATA_COUNT sample of '' @ data)
         | NO_DATA_ALERT \<Rightarrow> Some (intro @ '' emitted a SUBSCRIPTION_THROUGHPUT sample of '' @ data)
         | INVALID_ALERT \<Rightarrow> None)"

text \<open>
  The notifiers are those of the database. An identifier that is not in the database ends the
  callback; the exception for an entity that has no GUID is a \<open>BadParameter\<close> as well.
\<close>

definition on_alert_triggered ::
  "'q database \<Rightarrow> EntityId \<Rightarrow> EntityId \<Rightarrow> AlertInfo \<Rightarrow> string \<Rightarrow> backend \<Rightarrow> backend" where
  "on_alert_triggered db d e a data be =
     (case om_find (monitors_by_entity be) d of
        None \<Rightarrow> be
      | Some m \<Rightarrow>
          (case get_entity_guid_nts db e of
             Inl ex \<Rightarrow> be
           | Inr g \<Rightarrow>
               let be = (case alert_message a g data of
                     None \<Rightarrow> be
                   | Some msg \<Rightarrow> be\<lparr>commands := commands be @
                       concat (map (\<lambda>n. nm_notify n msg (db_notifiers db)) (alert_notifiers a))\<rparr>)
               in call_listener d m ON_ALERT_TRIGGERED INVALID_DATA (OnAlertTriggered d e a g data) be))"

definition on_alert_timeout :: "'q database \<Rightarrow> EntityId \<Rightarrow> AlertInfo \<Rightarrow> backend \<Rightarrow> backend" where
  "on_alert_timeout db d a be =
     (case om_find (monitors_by_entity be) d of
        None \<Rightarrow> be
      | Some m \<Rightarrow>
          let be = be\<lparr>commands := commands be @ concat (map (\<lambda>n. nm_notify n
                (''[DDS MONITOR INSTANCE] Alert '' @ alert_name a @ '' timed out'') (db_notifiers db))
                (alert_notifiers a))\<rparr>
          in call_listener d m ON_ALERT_TIMEOUT INVALID_DATA (OnAlertTimeout d a) be)"

text \<open>
  The four cases of \<open>on_domain_entity_discovery\<close>, and the four of \<open>on_physical_entity_discovery\<close>,
  differ in the counter, the kind of callback and the method that is called.
\<close>

definition report_domain_discovery ::
  "(Monitor \<Rightarrow> instance_status) \<Rightarrow> (instance_status \<Rightarrow> Monitor \<Rightarrow> Monitor) \<Rightarrow> CallbackKind \<Rightarrow>
   (EntityId \<Rightarrow> EntityId \<Rightarrow> instance_status \<Rightarrow> callback) \<Rightarrow> EntityId \<Rightarrow> EntityId \<Rightarrow> DiscoveryStatus \<Rightarrow> Monitor \<Rightarrow>
   backend \<Rightarrow> backend" where
  "report_domain_discovery get put ck cb d e ds m be =
     (let s = prepare_entity_discovery_status ds (get m);
          keep = (\<lambda>s be. be\<lparr>monitors_by_entity := om_put d (put s m) (monitors_by_entity be)\<rparr>)
      in if should_call_domain_listener m ck INVALID_DATA
         then keep (on_status_read s) (called (DomainListener d) (cb d e s) be)
         else if should_call_physical_listener be ck INVALID_DATA
         then keep (on_status_read s) (called PhysicalListener (cb d e s) be)
         else keep s be)"

definition on_domain_entity_discovery ::
  "EntityId \<Rightarrow> EntityId \<Rightarrow> EntityKind \<Rightarrow> DiscoveryStatus \<Rightarrow> backend \<Rightarrow> backend" where
  "on_domain_entity_discovery d e k ds be =
     (case om_find (monitors_by_entity be) d of
        None \<Rightarrow> be
      | Some m \<Rightarrow>
          (case k of
             PARTICIPANT \<Rightarrow> report_domain_discovery participant_status (\<lambda>s m. m\<lparr>participant_status := s\<rparr>)
               ON_PARTICIPANT_DISCOVERY OnParticipantDiscovery d e ds m be
           | TOPIC \<Rightarrow> report_domain_discovery topic_status (\<lambda>s m. m\<lparr>topic_status := s\<rparr>)
               ON_TOPIC_DISCOVERY OnTopicDiscovery d e ds m be
           | DATAWRITER \<Rightarrow> report_domain_discovery datawriter_status (\<lambda>s m. m\<lparr>datawriter_status := s\<rparr>)
               ON_DATAWRITER_DISCOVERY OnDataWriterDiscovery d e ds m be
           | DATAREADER \<Rightarrow> report_domain_discovery datareader_status (\<lambda>s m. m\<lparr>datareader_status := s\<rparr>)
               ON_DATAREADER_DISCOVERY OnDataReaderDiscovery d e ds m be
           | _ \<Rightarrow> be))"

definition report_physical_discovery ::
  "(backend \<Rightarrow> instance_status) \<Rightarrow> (instance_status \<Rightarrow> backend \<Rightarrow> backend) \<Rightarrow> CallbackKind \<Rightarrow>
   (EntityId \<Rightarrow> instance_status \<Rightarrow> callback) \<Rightarrow> EntityId \<Rightarrow> DiscoveryStatus \<Rightarrow> backend \<Rightarrow> backend" where
  "report_physical_discovery get put ck cb e ds be =
     (let s = prepare_entity_discovery_status ds (get be)
      in if should_call_physical_listener be ck INVALID_DATA
         then put (on_status_read s) (called PhysicalListener (cb e s) be)
         else put s be)"

definition on_physical_entity_discovery ::
  "EntityId \<Rightarrow> EntityKind \<Rightarrow> DiscoveryStatus \<Rightarrow> backend \<Rightarrow> backend" where
  "on_physical_entity_discovery e k ds be =
     (if ds = UPDATE then be
      else case k of
          HOST \<Rightarrow> report_physical_discovery host_status (\<lambda>s be. be\<lparr>host_status := s\<rparr>)
            ON_HOST_DISCOVERY OnHostDiscovery e ds be
        | USER \<Rightarrow> report_physical_discovery user_status (\<lambda>s be. be\<lparr>user_status := s\<rparr>)
            ON_USER_DISCOVERY OnUserDiscovery e ds be
        | PROCESS \<Rightarrow> report_physical_discovery process_status (\<lambda>s be. be\<lparr>process_status := s\<rparr>)
            ON_PROCESS_DISCOVERY OnProcessDiscovery e ds be
        | LOCATOR \<Rightarrow> report_physical_discovery locator_status (\<lambda>s be. be\<lparr>locator_status := s\<rparr>)
            ON_LOCATOR_DISCOVERY OnLocatorDiscovery e ds be
        | _ \<Rightarrow> be)"

definition on_domain_view_graph_update :: "EntityId \<Rightarrow> backend \<Rightarrow> backend" where
  "on_domain_view_graph_update d be =
     (if should_call_physical_listener be ON_DOMAIN_VIEW_GRAPH_UPDATE INVALID_DATA
      then called PhysicalListener (OnDomainViewGraphUpdate d) be else be)"

text \<open>What the calls recorded by the database (\<open>events\<close>) do.\<close>

fun deliver :: "'q database \<Rightarrow> event \<Rightarrow> backend \<Rightarrow> backend" where
  "deliver db (PhysicalDiscovery e k ds) = on_physical_entity_discovery e k ds"
| "deliver db (DomainEntityDiscovery d e k ds) = on_domain_entity_discovery d e k ds"
| "deliver db (AlertTriggered d e a data) = on_alert_triggered db d e a data"
| "deliver db (DataAvailable d e dk) = on_data_available d e dk"
| "deliver db (StatusReported d e sk) = on_status_reported d e sk"
| "deliver db (AlertTimedOut d a) = on_alert_timeout db d a"
| "deliver db (GraphUpdated d) = on_domain_view_graph_update d"

section \<open>The counters add up\<close>

text \<open>
  The eight counters: which one an event is about, its present value, and the value a callback
  carries. A domain has its counters while its monitor exists.
\<close>

datatype slot =
    HostSlot | UserSlot | ProcessSlot | LocatorSlot
  | ParticipantSlot EntityId | TopicSlot EntityId | WriterSlot EntityId | ReaderSlot EntityId

fun slot_status :: "slot \<Rightarrow> backend \<Rightarrow> instance_status option" where
  "slot_status HostSlot be = Some (host_status be)"
| "slot_status UserSlot be = Some (user_status be)"
| "slot_status ProcessSlot be = Some (process_status be)"
| "slot_status LocatorSlot be = Some (locator_status be)"
| "slot_status (ParticipantSlot d) be = map_option participant_status (om_find (monitors_by_entity be) d)"
| "slot_status (TopicSlot d) be = map_option topic_status (om_find (monitors_by_entity be) d)"
| "slot_status (WriterSlot d) be = map_option datawriter_status (om_find (monitors_by_entity be) d)"
| "slot_status (ReaderSlot d) be = map_option datareader_status (om_find (monitors_by_entity be) d)"

fun event_about :: "event \<Rightarrow> (slot \<times> DiscoveryStatus) option" where
  "event_about (PhysicalDiscovery e k ds) =
     (case k of HOST \<Rightarrow> Some (HostSlot, ds) | USER \<Rightarrow> Some (UserSlot, ds) | PROCESS \<Rightarrow> Some (ProcessSlot, ds)
      | LOCATOR \<Rightarrow> Some (LocatorSlot, ds) | _ \<Rightarrow> None)"
| "event_about (DomainEntityDiscovery d e k ds) =
     (case k of PARTICIPANT \<Rightarrow> Some (ParticipantSlot d, ds) | TOPIC \<Rightarrow> Some (TopicSlot d, ds)
      | DATAWRITER \<Rightarrow> Some (WriterSlot d, ds) | DATAREADER \<Rightarrow> Some (ReaderSlot d, ds) | _ \<Rightarrow> None)"
| "event_about _ = None"

fun callback_about :: "callback \<Rightarrow> (slot \<times> instance_status) option" where
  "callback_about (OnHostDiscovery e s) = Some (HostSlot, s)"
| "callback_about (OnUserDiscovery e s) = Some (UserSlot, s)"
| "callback_about (OnProcessDiscovery e s) = Some (ProcessSlot, s)"
| "callback_about (OnLocatorDiscovery e s) = Some (LocatorSlot, s)"
| "callback_about (OnParticipantDiscovery d e s) = Some (ParticipantSlot d, s)"
| "callback_about (OnTopicDiscovery d e s) = Some (TopicSlot d, s)"
| "callback_about (OnDataWriterDiscovery d e s) = Some (WriterSlot d, s)"
| "callback_about (OnDataReaderDiscovery d e s) = Some (ReaderSlot d, s)"
| "callback_about _ = None"

definition about :: "slot \<Rightarrow> (slot \<times> 'a) option \<Rightarrow> 'a option" where
  "about sl p = (case p of None \<Rightarrow> None | Some (sl', x) \<Rightarrow> if sl' = sl then Some x else None)"

definition slot_report :: "slot \<Rightarrow> callback \<Rightarrow> instance_status option" where
  "slot_report sl cb = about sl (callback_about cb)"

definition slot_event :: "slot \<Rightarrow> event \<Rightarrow> DiscoveryStatus option" where
  "slot_event sl ev = about sl (event_about ev)"

lemma about_None [simp]: "about sl None = None"
  by (simp add: about_def)

lemma about_Some [simp]: "about sl (Some (sl', x)) = (if sl' = sl then Some x else None)"
  by (simp add: about_def)

definition slot_reports :: "slot \<Rightarrow> (listener \<times> callback) list \<Rightarrow> instance_status list" where
  "slot_reports sl cs = List.map_filter (slot_report sl \<circ> snd) cs"

definition slot_events :: "slot \<Rightarrow> event list \<Rightarrow> DiscoveryStatus list" where
  "slot_events sl evs = List.map_filter (slot_event sl) evs"

lemma slot_reports_simps [simp]:
  "slot_reports sl [] = []"
  "slot_reports sl (cs @ cs') = slot_reports sl cs @ slot_reports sl cs'"
  "slot_reports sl [(l, cb)] = (case slot_report sl cb of None \<Rightarrow> [] | Some s \<Rightarrow> [s])"
  by (simp_all add: slot_reports_def map_filter_simps map_filter_def split: option.split)

lemma slot_events_simps [simp]:
  "slot_events sl [] = []"
  "slot_events sl (ev # evs) = (case slot_event sl ev of None \<Rightarrow> [] | Some ds \<Rightarrow> [ds]) @ slot_events sl evs"
  by (simp_all add: slot_events_def map_filter_simps split: option.split)

text \<open>
  One event: a counter it is not about stays as it is; the other is prepared, and read when it is
  reported.
\<close>

definition slot_step :: "DiscoveryStatus option \<Rightarrow> instance_status \<Rightarrow> instance_status \<Rightarrow> instance_status list \<Rightarrow> bool"
  where
  "slot_step ev s s' rs \<longleftrightarrow>
     (case ev of
        None \<Rightarrow> s' = s \<and> rs = []
      | Some ds \<Rightarrow>
          (let y = prepare_entity_discovery_status ds s
           in s' = y \<and> rs = [] \<or> s' = on_status_read y \<and> rs = [y]))"

definition slot_moves :: "slot \<Rightarrow> DiscoveryStatus option \<Rightarrow> backend \<Rightarrow> backend \<Rightarrow> bool" where
  "slot_moves sl ev be be' \<longleftrightarrow>
     (\<forall>s. slot_status sl be = Some s \<longrightarrow>
        (\<exists>s' rs. slot_status sl be' = Some s' \<and>
           slot_reports sl (calls be') = slot_reports sl (calls be) @ rs \<and> slot_step ev s s' rs))"

lemma slot_moves_refl: "slot_moves sl None be be"
  by (auto simp: slot_moves_def slot_step_def)

lemma slot_moves_quiet:
  assumes "slot_status sl be' = slot_status sl be" and "slot_reports sl (calls be') = slot_reports sl (calls be)"
  shows "slot_moves sl None be be'"
  using assms by (auto simp: slot_moves_def slot_step_def)

lemma slot_status_called [simp]: "slot_status sl (called l cb be) = slot_status sl be"
  by (cases sl) (simp_all add: called_def)

lemma monitors_called [simp]: "monitors_by_entity (called l cb be) = monitors_by_entity be"
  by (simp add: called_def)

lemma slot_status_commands [simp]: "slot_status sl (be\<lparr>commands := cs\<rparr>) = slot_status sl be"
  by (cases sl) simp_all

lemma calls_called [simp]: "calls (called l cb be) = calls be @ [(l, cb)]"
  by (simp add: called_def)

lemma call_listener_quiet:
  assumes "slot_report sl cb = None"
  shows "slot_status sl (call_listener d m ck dk cb be) = slot_status sl be"
    "slot_reports sl (calls (call_listener d m ck dk cb be)) = slot_reports sl (calls be)"
  using assms by (simp_all add: call_listener_def)

lemma slot_moves_other:
  "slot_moves sl None be (on_data_available d e dk be)"
  "slot_moves sl None be (on_status_reported d e sk be)"
  "slot_moves sl None be (on_alert_triggered db d e a data be)"
  "slot_moves sl None be (on_alert_timeout db d a be)"
  "slot_moves sl None be (on_domain_view_graph_update d be)"
  by (auto intro!: slot_moves_quiet simp: on_data_available_def on_status_reported_def on_alert_triggered_def
      on_alert_timeout_def on_domain_view_graph_update_def call_listener_quiet Let_def slot_report_def
      split: option.split sum.split)

text \<open>The counters of one family seen through their \<open>get\<close> and \<open>put\<close>.\<close>

lemma report_physical_moves:
  assumes "sl = my \<Longrightarrow> slot_status sl be = Some (get be)"
    and "\<And>s be. slot_status sl (put s be) = (if sl = my then Some s else slot_status sl be)"
    and "\<And>s be. calls (put s be) = calls be"
    and "\<And>s. callback_about (cb e s) = Some (my, s)"
  shows "slot_moves sl (about sl (Some (my, ds))) be (report_physical_discovery get put ck cb e ds be)"
  using assms(1)
  by (auto simp: slot_moves_def slot_step_def report_physical_discovery_def Let_def slot_report_def assms(2-))

lemma report_domain_moves:
  assumes "sl = my \<Longrightarrow> slot_status sl be = Some (get m)"
    and "\<And>s. slot_status sl (be\<lparr>monitors_by_entity := om_put d (put s m) (monitors_by_entity be)\<rparr>) =
      (if sl = my then Some s else slot_status sl be)"
    and "\<And>s. callback_about (cb d e s) = Some (my, s)"
  shows "slot_moves sl (about sl (Some (my, ds))) be (report_domain_discovery get put ck cb d e ds m be)"
proof -
  have c: "slot_status sl ((called l x be)\<lparr>monitors_by_entity := mm\<rparr>) = slot_status sl (be\<lparr>monitors_by_entity := mm\<rparr>)"
    for l x mm
    by (cases sl) (simp_all add: called_def)
  show ?thesis
    using assms(1)
    by (auto simp: slot_moves_def slot_step_def report_domain_discovery_def Let_def slot_report_def c assms(2-))
qed

definition backend_wf :: "backend \<Rightarrow> bool" where
  "backend_wf be \<longleftrightarrow> om_wf (monitors_by_entity be)"

lemma slot_status_put_monitor:
  assumes "backend_wf be" and "om_find (monitors_by_entity be) d = Some m"
  shows "slot_status sl (be\<lparr>monitors_by_entity := om_put d m' (monitors_by_entity be)\<rparr>) =
    (case sl of
       ParticipantSlot d' \<Rightarrow> if d' = d then Some (participant_status m') else slot_status sl be
     | TopicSlot d' \<Rightarrow> if d' = d then Some (topic_status m') else slot_status sl be
     | WriterSlot d' \<Rightarrow> if d' = d then Some (datawriter_status m') else slot_status sl be
     | ReaderSlot d' \<Rightarrow> if d' = d then Some (datareader_status m') else slot_status sl be
     | _ \<Rightarrow> slot_status sl be)"
  using assms by (cases sl) (auto simp: backend_wf_def om_find_put)

lemma slot_status_put_physical:
  "slot_status sl (be\<lparr>host_status := s\<rparr>) = (if sl = HostSlot then Some s else slot_status sl be)"
  "slot_status sl (be\<lparr>user_status := s\<rparr>) = (if sl = UserSlot then Some s else slot_status sl be)"
  "slot_status sl (be\<lparr>process_status := s\<rparr>) = (if sl = ProcessSlot then Some s else slot_status sl be)"
  "slot_status sl (be\<lparr>locator_status := s\<rparr>) = (if sl = LocatorSlot then Some s else slot_status sl be)"
  by (cases sl; simp)+

lemma deliver_moves:
  assumes "backend_wf be"
  shows "slot_moves sl (slot_event sl ev) be (deliver db ev be)"
proof (cases ev)
  case (PhysicalDiscovery e k ds)
  have "slot_moves sl (slot_event sl ev) be be" if "ds = UPDATE"
    using that unfolding PhysicalDiscovery
    by (cases k) (auto simp: slot_moves_def slot_step_def slot_event_def
        prepare_entity_discovery_status_def Let_def)
  moreover have "slot_moves sl (slot_event sl ev) be (deliver db ev be)" if "ds \<noteq> UPDATE"
    using that unfolding PhysicalDiscovery
    by (cases k) (auto simp: on_physical_entity_discovery_def slot_event_def slot_moves_refl
        slot_status_put_physical simp del: about_Some intro!: report_physical_moves)
  ultimately show ?thesis
    by (cases "ds = UPDATE") (simp_all add: PhysicalDiscovery on_physical_entity_discovery_def)
next
  case (DomainEntityDiscovery d e k ds)
  show ?thesis
  proof (cases "om_find (monitors_by_entity be) d")
    case None
    then show ?thesis
      unfolding DomainEntityDiscovery
      by (cases k; cases sl) (auto simp: on_domain_entity_discovery_def slot_event_def slot_moves_def slot_step_def)
  next
    case (Some m)
    then show ?thesis
      unfolding DomainEntityDiscovery
      by (cases k) (auto simp: on_domain_entity_discovery_def slot_event_def slot_moves_refl
          slot_status_put_monitor [OF assms Some] simp del: about_Some intro!: report_domain_moves split: slot.split)
  qed
qed (simp_all add: slot_event_def slot_moves_other)

lemma report_monitors:
  "backend_wf be \<Longrightarrow> backend_wf (report_domain_discovery get put ck cb d e ds m be)"
  by (simp add: report_domain_discovery_def Let_def backend_wf_def called_def om_put_wf)

lemma called_wf [simp]: "backend_wf (called l cb be) = backend_wf be"
  by (simp add: called_def backend_wf_def)

lemma call_listener_wf [simp]: "backend_wf (call_listener d m ck dk cb be) = backend_wf be"
  by (simp add: call_listener_def)

lemma wf_fields [simp]:
  "backend_wf (be\<lparr>commands := cs\<rparr>) = backend_wf be" "backend_wf (be\<lparr>host_status := s\<rparr>) = backend_wf be"
  "backend_wf (be\<lparr>user_status := s\<rparr>) = backend_wf be" "backend_wf (be\<lparr>process_status := s\<rparr>) = backend_wf be"
  "backend_wf (be\<lparr>locator_status := s\<rparr>) = backend_wf be"
  by (simp_all add: backend_wf_def)

lemma deliver_wf: "backend_wf be \<Longrightarrow> backend_wf (deliver db ev be)"
  by (cases ev) (auto simp: on_physical_entity_discovery_def report_physical_discovery_def
      on_domain_entity_discovery_def report_monitors on_alert_triggered_def on_data_available_def
      on_status_reported_def on_alert_timeout_def on_domain_view_graph_update_def Let_def
      split: EntityKind.split option.split sum.split)

lemma deliver_all_wf: "backend_wf be \<Longrightarrow> backend_wf (fold (deliver db) evs be)"
  by (induction evs arbitrary: be) (simp_all add: deliver_wf)

text \<open>The number of instances the events leave alive: an undiscovery below zero is ignored.\<close>

fun alive_after :: "nat \<Rightarrow> DiscoveryStatus list \<Rightarrow> nat" where
  "alive_after n [] = n"
| "alive_after n (DISCOVERY # ds) = alive_after (Suc n) ds"
| "alive_after n (UNDISCOVERY # ds) = alive_after (n - 1) ds"
| "alive_after n (UPDATE # ds) = alive_after n ds"

lemma slot_step_total:
  "slot_step (Some ds) s s' rs \<Longrightarrow>
     st_total_count s' = st_total_count s + (if ds = DISCOVERY then 1 else 0) \<and>
     st_total_count_change s' + sum_list (map st_total_count_change rs) =
       st_total_count_change s + (if ds = DISCOVERY then 1 else 0)"
  by (auto simp: slot_step_def Let_def prepare_entity_discovery_status_def on_instance_discovered_def
      on_instance_undiscovered_def on_status_read_def)

lemma slot_step_current:
  "slot_step (Some ds) s s' rs \<Longrightarrow>
     st_current_count s' = st_current_count (prepare_entity_discovery_status ds s) \<and>
     st_current_count_change s' + sum_list (map st_current_count_change rs) - st_current_count_change s =
       st_current_count s' - st_current_count s"
  by (auto simp: slot_step_def Let_def prepare_entity_discovery_status_def on_instance_discovered_def
      on_instance_undiscovered_def on_status_read_def)

lemma prepare_current:
  assumes "st_current_count s = of_nat n" and "Suc n < 2 ^ 31"
  shows "st_current_count (prepare_entity_discovery_status ds s) = of_nat (alive_after n [ds])"
proof -
  have "sint (of_nat n :: 32 word) = int n"
    using assms(2) by (simp add: signed_of_nat signed_take_bit_int_eq_self)
  then show ?thesis
    using assms(1)
    by (cases ds; cases n) (auto simp: prepare_entity_discovery_status_def on_instance_discovered_def
        on_instance_undiscovered_def)
qed

lemma alive_after_append: "alive_after n (xs @ ys) = alive_after (alive_after n xs) ys"
  by (induction n xs rule: alive_after.induct) simp_all

lemma alive_after_le: "alive_after n xs \<le> n + length xs"
  by (induction n xs rule: alive_after.induct) auto

lemma slot_events_length: "length (slot_events sl evs) \<le> length evs"
  by (simp add: slot_events_def map_filter_def)

definition ledger :: "slot \<Rightarrow> nat \<Rightarrow> nat \<Rightarrow> backend \<Rightarrow> bool" where
  "ledger sl tot alive be \<longleftrightarrow>
     (\<exists>s. slot_status sl be = Some s \<and> st_total_count s = of_nat tot \<and> st_current_count s = of_nat alive \<and>
        st_total_count_change s + sum_list (map st_total_count_change (slot_reports sl (calls be))) = of_nat tot \<and>
        st_current_count_change s + sum_list (map st_current_count_change (slot_reports sl (calls be))) = of_nat alive)"

lemma regroup:
  fixes a :: "'a::comm_ring_1"
  shows "a' + r = a + d \<Longrightarrow> a + p = t \<Longrightarrow> a' + (p + r) = t + d"
    and "a' + r - a = c' - c \<Longrightarrow> a + p = c \<Longrightarrow> a' + (p + r) = c'"
proof -
  assume *: "a' + r = a + d" "a + p = t"
  have "a' + (p + r) = (a' + r) + p" by (simp add: ac_simps)
  also have "\<dots> = t + d" unfolding *(1) *(2) [symmetric] by (simp add: ac_simps)
  finally show "a' + (p + r) = t + d" .
next
  assume *: "a' + r - a = c' - c" "a + p = c"
  have "a' + (p + r) = (a' + r - a) + (a + p)" by (simp add: algebra_simps)
  also have "\<dots> = c'" unfolding * by simp
  finally show "a' + (p + r) = c'" .
qed

lemma ledger_step:
  assumes "ledger sl tot alive be" and "slot_moves sl ev be be'" and "Suc alive < 2 ^ 31"
  shows "ledger sl (tot + (if ev = Some DISCOVERY then 1 else 0))
    (alive_after alive (case ev of None \<Rightarrow> [] | Some ds \<Rightarrow> [ds])) be'"
proof -
  obtain s where s: "slot_status sl be = Some s" "st_total_count s = of_nat tot" "st_current_count s = of_nat alive"
    "st_total_count_change s + sum_list (map st_total_count_change (slot_reports sl (calls be))) = of_nat tot"
    "st_current_count_change s + sum_list (map st_current_count_change (slot_reports sl (calls be))) = of_nat alive"
    using assms(1) by (auto simp: ledger_def)
  obtain s' rs where s': "slot_status sl be' = Some s'"
    "slot_reports sl (calls be') = slot_reports sl (calls be) @ rs" "slot_step ev s s' rs"
    using assms(2) s(1) by (auto simp: slot_moves_def)
  show ?thesis
  proof (cases ev)
    case None
    then show ?thesis using s s' by (auto simp: ledger_def slot_step_def)
  next
    case (Some ds)
    note T = slot_step_total [OF s'(3) [unfolded Some]] and C = slot_step_current [OF s'(3) [unfolded Some]]
    have cur: "st_current_count s' = of_nat (alive_after alive [ds])"
      using C prepare_current [OF s(3) assms(3), of ds] by simp
    have "st_total_count_change s' + sum_list (map st_total_count_change (slot_reports sl (calls be'))) =
        of_nat tot + (if ds = DISCOVERY then 1 else 0)"
      using regroup(1) [OF conjunct2 [OF T] s(4)] by (simp add: s'(2))
    moreover have "st_current_count_change s' + sum_list (map st_current_count_change (slot_reports sl (calls be'))) =
        of_nat (alive_after alive [ds])"
      using regroup(2) [OF conjunct2 [OF C] s(5) [folded s(3)]] cur by (simp add: s'(2))
    ultimately show ?thesis
      using T cur s(2) s'(1) by (auto simp: ledger_def Some)
  qed
qed

lemma ledger_run:
  "ledger sl tot alive be \<Longrightarrow> backend_wf be \<Longrightarrow> alive + length evs < 2 ^ 31 \<Longrightarrow>
     ledger sl (tot + length (filter (\<lambda>ds. ds = DISCOVERY) (slot_events sl evs)))
       (alive_after alive (slot_events sl evs)) (fold (deliver db) evs be)"
proof (induction evs arbitrary: tot alive be)
  case Nil
  then show ?case by simp
next
  case (Cons ev evs)
  let ?a = "alive_after alive (case slot_event sl ev of None \<Rightarrow> [] | Some ds \<Rightarrow> [ds])"
  have "?a \<le> Suc alive"
    using alive_after_le [of alive "case slot_event sl ev of None \<Rightarrow> [] | Some ds \<Rightarrow> [ds]"]
    by (auto split: option.splits)
  then have "ledger sl (tot + (if slot_event sl ev = Some DISCOVERY then 1 else 0) +
        length (filter (\<lambda>ds. ds = DISCOVERY) (slot_events sl evs)))
      (alive_after ?a (slot_events sl evs)) (fold (deliver db) evs (deliver db ev be))"
    using Cons.prems by (intro Cons.IH ledger_step [OF _ deliver_moves] deliver_wf) auto
  then show ?case
    by (auto simp: alive_after_append split: option.splits)
qed

section \<open>Who is called\<close>

fun callback_kind :: "callback \<Rightarrow> CallbackKind" where
  "callback_kind (OnTopicDiscovery d e s) = ON_TOPIC_DISCOVERY"
| "callback_kind (OnParticipantDiscovery d e s) = ON_PARTICIPANT_DISCOVERY"
| "callback_kind (OnDataReaderDiscovery d e s) = ON_DATAREADER_DISCOVERY"
| "callback_kind (OnDataWriterDiscovery d e s) = ON_DATAWRITER_DISCOVERY"
| "callback_kind (OnHostDiscovery e s) = ON_HOST_DISCOVERY"
| "callback_kind (OnUserDiscovery e s) = ON_USER_DISCOVERY"
| "callback_kind (OnProcessDiscovery e s) = ON_PROCESS_DISCOVERY"
| "callback_kind (OnLocatorDiscovery e s) = ON_LOCATOR_DISCOVERY"
| "callback_kind (OnDataAvailable d e k) = ON_DATA_AVAILABLE"
| "callback_kind (OnStatusReported d e k) = ON_STATUS_REPORTED"
| "callback_kind (OnAlertTriggered d e a g x) = ON_ALERT_TRIGGERED"
| "callback_kind (OnAlertTimeout d a) = ON_ALERT_TIMEOUT"
| "callback_kind (OnDomainViewGraphUpdate d) = ON_DOMAIN_VIEW_GRAPH_UPDATE"

fun callback_data :: "callback \<Rightarrow> DataKind" where
  "callback_data (OnDataAvailable d e k) = k"
| "callback_data _ = INVALID_DATA"

text \<open>The domain whose listener is asked first.\<close>

fun callback_domain :: "callback \<Rightarrow> EntityId option" where
  "callback_domain (OnTopicDiscovery d e s) = Some d"
| "callback_domain (OnParticipantDiscovery d e s) = Some d"
| "callback_domain (OnDataReaderDiscovery d e s) = Some d"
| "callback_domain (OnDataWriterDiscovery d e s) = Some d"
| "callback_domain (OnDataAvailable d e k) = Some d"
| "callback_domain (OnStatusReported d e k) = Some d"
| "callback_domain (OnAlertTriggered d e a g x) = Some d"
| "callback_domain (OnAlertTimeout d a) = Some d"
| "callback_domain _ = None"

text \<open>
  A listener wants a callback when it is registered, its callback mask has the bit of the callback and,
  for new data, its data mask has the bit of the kind of data.
\<close>

definition mask_wants :: "mask \<Rightarrow> mask \<Rightarrow> callback \<Rightarrow> bool" where
  "mask_wants cm dm cb \<longleftrightarrow> bm_is_set cm (callback_value (callback_kind cb)) \<and>
     (callback_data cb = INVALID_DATA \<or> bm_is_set dm (datakind_value (callback_data cb)))"

definition domain_wants :: "backend \<Rightarrow> EntityId \<Rightarrow> callback \<Rightarrow> bool" where
  "domain_wants be d cb \<longleftrightarrow> (\<exists>m. om_find (monitors_by_entity be) d = Some m \<and> domain_listener m \<and>
     mask_wants (domain_callback_mask m) (data_mask m) cb)"

definition physical_wants :: "backend \<Rightarrow> callback \<Rightarrow> bool" where
  "physical_wants be cb \<longleftrightarrow>
     physical_listener be \<and> mask_wants (physical_callback_mask be) (physical_data_mask be) cb"

lemma should_call_wants:
  "om_find (monitors_by_entity be) d = Some m \<Longrightarrow> callback_kind cb = ck \<Longrightarrow> callback_data cb = dk \<Longrightarrow>
     should_call_domain_listener m ck dk \<longleftrightarrow> domain_wants be d cb"
  "callback_kind cb = ck \<Longrightarrow> callback_data cb = dk \<Longrightarrow>
     should_call_physical_listener be ck dk \<longleftrightarrow> physical_wants be cb"
  by (auto simp: should_call_domain_listener_def should_call_physical_listener_def domain_wants_def
      physical_wants_def mask_wants_def)

text \<open>
  The listener the configuration assigns to a callback: that of the domain first, the physical one when
  the domain has none that wants it.
\<close>

definition assigned :: "backend \<Rightarrow> callback \<Rightarrow> listener option" where
  "assigned be cb =
     (case callback_domain cb of
        Some d \<Rightarrow> if domain_wants be d cb then Some (DomainListener d)
                  else if physical_wants be cb then Some PhysicalListener else None
      | None \<Rightarrow> if physical_wants be cb then Some PhysicalListener else None)"

text \<open>The configuration: everything but the counters and the traces.\<close>

definition settings :: "backend \<Rightarrow> (EntityId \<Rightarrow> (bool \<times> mask \<times> mask) option) \<times> bool \<times> mask \<times> mask" where
  "settings be = (\<lambda>d. map_option (\<lambda>m. (domain_listener m, domain_callback_mask m, data_mask m))
       (om_find (monitors_by_entity be) d),
     physical_listener be, physical_callback_mask be, physical_data_mask be)"

lemma domain_wants_settings:
  "domain_wants be d cb \<longleftrightarrow> (case fst (settings be) d of
     None \<Rightarrow> False
   | Some (l, cm, dm) \<Rightarrow> l \<and> bm_is_set cm (callback_value (callback_kind cb)) \<and>
       (callback_data cb = INVALID_DATA \<or> bm_is_set dm (datakind_value (callback_data cb))))"
  by (auto simp: domain_wants_def mask_wants_def settings_def split: option.split)

lemma assigned_settings: "settings be = settings be' \<Longrightarrow> assigned be = assigned be'"
  by (auto simp: fun_eq_iff assigned_def domain_wants_settings physical_wants_def settings_def
      split: option.split)

text \<open>The callback an event asks for, if any; the counters a discovery carries are left open.\<close>

definition monitored :: "backend \<Rightarrow> EntityId \<Rightarrow> bool" where
  "monitored be d \<longleftrightarrow> om_find (monitors_by_entity be) d \<noteq> None"

fun domain_callback :: "EntityKind \<Rightarrow> (EntityId \<Rightarrow> EntityId \<Rightarrow> instance_status \<Rightarrow> callback) option" where
  "domain_callback PARTICIPANT = Some OnParticipantDiscovery"
| "domain_callback TOPIC = Some OnTopicDiscovery"
| "domain_callback DATAREADER = Some OnDataReaderDiscovery"
| "domain_callback DATAWRITER = Some OnDataWriterDiscovery"
| "domain_callback _ = None"

fun physical_callback :: "EntityKind \<Rightarrow> (EntityId \<Rightarrow> instance_status \<Rightarrow> callback) option" where
  "physical_callback HOST = Some OnHostDiscovery"
| "physical_callback USER = Some OnUserDiscovery"
| "physical_callback PROCESS = Some OnProcessDiscovery"
| "physical_callback LOCATOR = Some OnLocatorDiscovery"
| "physical_callback _ = None"

fun announces :: "'q database \<Rightarrow> backend \<Rightarrow> event \<Rightarrow> callback option \<Rightarrow> bool" where
  "announces db be (PhysicalDiscovery e k ds) c \<longleftrightarrow>
     (case physical_callback k of
        Some f \<Rightarrow> if ds = UPDATE then c = None else \<exists>s. c = Some (f e s)
      | None \<Rightarrow> c = None)"
| "announces db be (DomainEntityDiscovery d e k ds) c \<longleftrightarrow>
     (case domain_callback k of
        Some f \<Rightarrow> if monitored be d then \<exists>s. c = Some (f d e s) else c = None
      | None \<Rightarrow> c = None)"
| "announces db be (AlertTriggered d e a x) c \<longleftrightarrow>
     c = (case get_entity_guid_nts db e of
            Inr g \<Rightarrow> if monitored be d then Some (OnAlertTriggered d e a g x) else None
          | Inl ex \<Rightarrow> None)"
| "announces db be (DataAvailable d e dk) c \<longleftrightarrow> c = (if monitored be d then Some (OnDataAvailable d e dk) else None)"
| "announces db be (StatusReported d e sk) c \<longleftrightarrow> c = (if monitored be d then Some (OnStatusReported d e sk) else None)"
| "announces db be (AlertTimedOut d a) c \<longleftrightarrow> c = (if monitored be d then Some (OnAlertTimeout d a) else None)"
| "announces db be (GraphUpdated d) c \<longleftrightarrow> c = Some (OnDomainViewGraphUpdate d)"

definition reaches :: "backend \<Rightarrow> callback option \<Rightarrow> (listener \<times> callback) list" where
  "reaches be c = (case c of
     None \<Rightarrow> []
   | Some cb \<Rightarrow> (case assigned be cb of None \<Rightarrow> [] | Some l \<Rightarrow> [(l, cb)]))"

definition routed :: "callback option \<Rightarrow> backend \<Rightarrow> backend \<Rightarrow> bool" where
  "routed c be be' \<longleftrightarrow> settings be' = settings be \<and> calls be' = calls be @ reaches be c"

lemma monitored_settings:
  assumes "settings be = settings be'"
  shows "monitored be d \<longleftrightarrow> monitored be' d"
proof -
  have "fst (settings be) d = fst (settings be') d" using assms by simp
  then have "fst (settings be) d = None \<longleftrightarrow> fst (settings be') d = None" by simp
  then show ?thesis by (simp add: settings_def monitored_def)
qed

lemma announces_settings:
  assumes "settings be = settings be'"
  shows "announces db be = announces db be'"
proof (intro ext)
  fix ev c
  show "announces db be ev c = announces db be' ev c"
    by (cases ev) (simp_all add: monitored_settings [OF assms] split: option.split sum.split)
qed

lemma reaches_settings: "settings be = settings be' \<Longrightarrow> reaches be = reaches be'"
  using assigned_settings [of be be'] by (intro ext) (simp add: reaches_def split: option.split)

lemma settings_simps [simp]:
  "settings (called l cb be) = settings be"
  "settings (be\<lparr>commands := cs\<rparr>) = settings be"
  "settings (be\<lparr>host_status := s\<rparr>) = settings be" "settings (be\<lparr>user_status := s\<rparr>) = settings be"
  "settings (be\<lparr>process_status := s\<rparr>) = settings be" "settings (be\<lparr>locator_status := s\<rparr>) = settings be"
  by (simp_all add: settings_def called_def)

lemma routed_refl [simp]: "routed None be be"
  by (simp add: routed_def reaches_def)

lemma call_listener_routed:
  assumes "om_find (monitors_by_entity be) d = Some m" and "callback_domain cb = Some d"
    and "callback_kind cb = ck" and "callback_data cb = dk"
  shows "routed (Some cb) be (call_listener d m ck dk cb be)"
  using assms should_call_wants(1) [OF assms(1,3,4)] should_call_wants(2) [OF assms(3,4)]
  by (simp add: routed_def reaches_def call_listener_def assigned_def)

lemma routed_commands: "routed c (be\<lparr>commands := cs\<rparr>) be' \<longleftrightarrow> routed c be be'"
  using reaches_settings [of "be\<lparr>commands := cs\<rparr>" be] by (simp add: routed_def)

lemma settings_put_monitor:
  assumes "backend_wf be" and "om_find (monitors_by_entity be) d = Some m"
    and "domain_listener m' = domain_listener m" "domain_callback_mask m' = domain_callback_mask m"
    "data_mask m' = data_mask m"
  shows "settings (be\<lparr>monitors_by_entity := om_put d m' (monitors_by_entity be)\<rparr>) = settings be"
  using assms by (auto simp: settings_def fun_eq_iff backend_wf_def om_find_put)

lemma report_domain_routed:
  assumes "backend_wf be" and m: "om_find (monitors_by_entity be) d = Some m"
    and "\<And>s. domain_listener (put s m) = domain_listener m \<and>
      domain_callback_mask (put s m) = domain_callback_mask m \<and> data_mask (put s m) = data_mask m"
    and "\<And>s. callback_domain (cb d e s) = Some d" "\<And>s. callback_kind (cb d e s) = ck"
    "\<And>s. callback_data (cb d e s) = INVALID_DATA"
  shows "\<exists>s. routed (Some (cb d e s)) be (report_domain_discovery get put ck cb d e ds m be)"
proof -
  let ?s = "prepare_entity_discovery_status ds (get m)"
  have st: "settings ((called l x be)\<lparr>monitors_by_entity := om_put d (put s m) (monitors_by_entity be)\<rparr>) =
      settings be" "settings (be\<lparr>monitors_by_entity := om_put d (put s m) (monitors_by_entity be)\<rparr>) = settings be" for l x s
    using settings_put_monitor [of "called l x be" d m "put s m"] settings_put_monitor [of be d m "put s m"] assms
    by simp_all
  have "routed (Some (cb d e ?s)) be (report_domain_discovery get put ck cb d e ds m be)"
    using should_call_wants(1) [OF m assms(5,6)] should_call_wants(2) [OF assms(5,6)]
    by (simp add: routed_def reaches_def report_domain_discovery_def Let_def st assigned_def assms(4))
     
  then show ?thesis by blast
qed

lemma report_physical_routed:
  assumes "\<And>s be. settings (put s be) = settings be" "\<And>s be. calls (put s be) = calls be"
    and "\<And>s. callback_domain (cb e s) = None" "\<And>s. callback_kind (cb e s) = ck"
    "\<And>s. callback_data (cb e s) = INVALID_DATA"
  shows "\<exists>s. routed (Some (cb e s)) be (report_physical_discovery get put ck cb e ds be)"
proof -
  have "routed (Some (cb e (prepare_entity_discovery_status ds (get be)))) be
      (report_physical_discovery get put ck cb e ds be)"
    using should_call_wants(2) [OF assms(4,5)]
    by (simp add: routed_def reaches_def report_physical_discovery_def Let_def assigned_def assms(1-3))
     
  then show ?thesis by blast
qed

lemma deliver_routed:
  assumes "backend_wf be"
  shows "\<exists>c. announces db be ev c \<and> routed c be (deliver db ev be)"
proof (cases ev)
  case (DomainEntityDiscovery d e k ds)
  show ?thesis
  proof (cases "om_find (monitors_by_entity be) d")
    case None
    then show ?thesis
      using DomainEntityDiscovery
      by (cases k) (simp_all add: on_domain_entity_discovery_def monitored_def)
  next
    case (Some m)
    have "\<exists>s. routed (Some (OnParticipantDiscovery d e s)) be (report_domain_discovery participant_status
        (\<lambda>s m. m\<lparr>participant_status := s\<rparr>) ON_PARTICIPANT_DISCOVERY OnParticipantDiscovery d e ds m be)"
      "\<exists>s. routed (Some (OnTopicDiscovery d e s)) be (report_domain_discovery topic_status
        (\<lambda>s m. m\<lparr>topic_status := s\<rparr>) ON_TOPIC_DISCOVERY OnTopicDiscovery d e ds m be)"
      "\<exists>s. routed (Some (OnDataWriterDiscovery d e s)) be (report_domain_discovery datawriter_status
        (\<lambda>s m. m\<lparr>datawriter_status := s\<rparr>) ON_DATAWRITER_DISCOVERY OnDataWriterDiscovery d e ds m be)"
      "\<exists>s. routed (Some (OnDataReaderDiscovery d e s)) be (report_domain_discovery datareader_status
        (\<lambda>s m. m\<lparr>datareader_status := s\<rparr>) ON_DATAREADER_DISCOVERY OnDataReaderDiscovery d e ds m be)"
      by (rule report_domain_routed [OF assms Some]; simp)+
    then show ?thesis
      using DomainEntityDiscovery Some
      by (cases k) (auto simp: on_domain_entity_discovery_def monitored_def)
  qed
next
  case (PhysicalDiscovery e k ds)
  have "\<exists>s. routed (Some (OnHostDiscovery e s)) be (report_physical_discovery host_status
      (\<lambda>s be. be\<lparr>host_status := s\<rparr>) ON_HOST_DISCOVERY OnHostDiscovery e ds be)"
    "\<exists>s. routed (Some (OnUserDiscovery e s)) be (report_physical_discovery user_status
      (\<lambda>s be. be\<lparr>user_status := s\<rparr>) ON_USER_DISCOVERY OnUserDiscovery e ds be)"
    "\<exists>s. routed (Some (OnProcessDiscovery e s)) be (report_physical_discovery process_status
      (\<lambda>s be. be\<lparr>process_status := s\<rparr>) ON_PROCESS_DISCOVERY OnProcessDiscovery e ds be)"
    "\<exists>s. routed (Some (OnLocatorDiscovery e s)) be (report_physical_discovery locator_status
      (\<lambda>s be. be\<lparr>locator_status := s\<rparr>) ON_LOCATOR_DISCOVERY OnLocatorDiscovery e ds be)"
    by (rule report_physical_routed; simp)+
  then show ?thesis
    using PhysicalDiscovery
    by (cases k) (auto simp: on_physical_entity_discovery_def)
next
  case (GraphUpdated d)
  have "routed (Some (OnDomainViewGraphUpdate d)) be (on_domain_view_graph_update d be)"
    using should_call_wants(2) [of "OnDomainViewGraphUpdate d" ON_DOMAIN_VIEW_GRAPH_UPDATE INVALID_DATA be]
    by (simp add: on_domain_view_graph_update_def routed_def reaches_def assigned_def)
  then show ?thesis using GraphUpdated by simp
next
  case (AlertTriggered d e a x)
  have "routed (Some (OnAlertTriggered d e a g x)) be
      (call_listener d m ON_ALERT_TRIGGERED INVALID_DATA (OnAlertTriggered d e a g x) (be\<lparr>commands := cs\<rparr>))"
    if "om_find (monitors_by_entity be) d = Some m" for m g cs
    using call_listener_routed [of "be\<lparr>commands := cs\<rparr>" d m "OnAlertTriggered d e a g x"] that
    by (simp add: routed_commands)
  moreover have "routed (Some (OnAlertTriggered d e a g x)) be
      (call_listener d m ON_ALERT_TRIGGERED INVALID_DATA (OnAlertTriggered d e a g x) be)"
    if "om_find (monitors_by_entity be) d = Some m" for m g
    using that by (intro call_listener_routed) simp_all
  ultimately show ?thesis
    using AlertTriggered
    by (cases "om_find (monitors_by_entity be) d"; cases "get_entity_guid_nts db e")
      (simp_all add: monitored_def on_alert_triggered_def Let_def split: option.split)
next
  case (AlertTimedOut d a)
  have "routed (Some (OnAlertTimeout d a)) be
      (call_listener d m ON_ALERT_TIMEOUT INVALID_DATA (OnAlertTimeout d a) (be\<lparr>commands := cs\<rparr>))"
    if "om_find (monitors_by_entity be) d = Some m" for m cs
    using call_listener_routed [of "be\<lparr>commands := cs\<rparr>" d m "OnAlertTimeout d a"] that
    by (simp add: routed_commands)
  then show ?thesis
    using AlertTimedOut by (cases "om_find (monitors_by_entity be) d") (simp_all add: monitored_def on_alert_timeout_def Let_def)
next
  case (DataAvailable d e dk)
  then show ?thesis
    by (cases "om_find (monitors_by_entity be) d") (simp_all add: monitored_def on_data_available_def call_listener_routed)
next
  case (StatusReported d e sk)
  then show ?thesis
    by (cases "om_find (monitors_by_entity be) d") (simp_all add: monitored_def on_status_reported_def call_listener_routed)
qed

lemma deliver_all_routed:
  "backend_wf be \<Longrightarrow>
     settings (fold (deliver db) evs be) = settings be \<and>
     (\<exists>cs. list_all2 (announces db be) evs cs \<and>
        calls (fold (deliver db) evs be) = calls be @ concat (map (reaches be) cs))"
proof (induction evs arbitrary: be)
  case Nil
  then show ?case by simp
next
  case (Cons ev evs)
  obtain c where c: "announces db be ev c" "routed c be (deliver db ev be)"
    using deliver_routed [OF Cons.prems] by blast
  have st: "settings (deliver db ev be) = settings be" using c(2) by (simp add: routed_def)
  obtain cs where "settings (fold (deliver db) evs (deliver db ev be)) = settings (deliver db ev be)"
    "list_all2 (announces db be) evs cs"
    "calls (fold (deliver db) evs (deliver db ev be)) = calls (deliver db ev be) @ concat (map (reaches be) cs)"
    using Cons.IH [OF deliver_wf [OF Cons.prems], of db ev] announces_settings [OF st, of db] reaches_settings [OF st]
    by auto
  then show ?case
    using c st by (intro conjI exI [of _ "c # cs"]) (simp_all add: routed_def)
qed

section \<open>Properties\<close>

definition new_monitor :: "EntityId \<Rightarrow> Monitor" where
  "new_monitor d = \<lparr>m_id = d, domain_listener = False, domain_callback_mask = 0, data_mask = 0,
     participant_status = new_status, topic_status = new_status, datareader_status = new_status,
     datawriter_status = new_status\<rparr>"

definition new_backend :: "EntityId list \<Rightarrow> backend" where
  "new_backend ds = \<lparr>monitors_by_entity = fold (\<lambda>d. om_put d (new_monitor d)) ds [],
     physical_listener = False, physical_callback_mask = 0, physical_data_mask = 0,
     host_status = new_status, user_status = new_status, process_status = new_status,
     locator_status = new_status, calls = [], commands = []\<rparr>"

text \<open>
  C27: the counters add up. For any sequence of events and each of the counters (one per kind of
  physical entity, one per kind of entity of a monitored domain), from a state in which nothing was
  counted: the total count is the number of discoveries, the current count the number of instances
  alive, and for both the changes reported in the callbacks plus the change not reported yet give
  the count. Every change is reported at most once, whichever listeners were called.
\<close>

theorem discovery_counts_add_up:
  assumes "backend_wf be" and "calls be = []" and "slot_status sl be = Some new_status"
    and "length evs < 2 ^ 31"
  shows "\<exists>s. slot_status sl (fold (deliver db) evs be) = Some s \<and>
    st_total_count s = of_nat (length (filter (\<lambda>ds. ds = DISCOVERY) (slot_events sl evs))) \<and>
    st_current_count s = of_nat (alive_after 0 (slot_events sl evs)) \<and>
    st_total_count s = st_total_count_change s +
      sum_list (map st_total_count_change (slot_reports sl (calls (fold (deliver db) evs be)))) \<and>
    st_current_count s = st_current_count_change s +
      sum_list (map st_current_count_change (slot_reports sl (calls (fold (deliver db) evs be))))"
proof -
  have "ledger sl 0 0 be"
    using assms(2,3) by (simp add: ledger_def new_status_def)
  from ledger_run [OF this assms(1), of evs db] assms(4) show ?thesis
    by (auto simp: ledger_def)
qed


text \<open>
  Unlike the other callbacks of \<open>DomainListener\<close>, \<open>on_domain_view_graph_update\<close> is never called on the
  listener of a domain.
\<close>

theorem graph_update_not_for_domain_listener:
  assumes "backend_wf be" and "calls be = []"
  shows "(DomainListener d, OnDomainViewGraphUpdate d') \<notin> set (calls (fold (deliver db) evs be))"
proof -
  obtain cs where "calls (fold (deliver db) evs be) = concat (map (reaches be) cs)"
    using deliver_all_routed [OF assms(1), of db evs] assms(2) by auto
  moreover have "(DomainListener d, OnDomainViewGraphUpdate d') \<notin> set (reaches be c)" for c
    by (cases c) (auto simp: reaches_def assigned_def split: option.splits if_splits)
  ultimately show ?thesis by auto
qed

definition example_backend :: backend where
  "example_backend = (new_backend [EntityId 1])\<lparr>monitors_by_entity := [(EntityId 1, (new_monitor (EntityId 1))
     \<lparr>domain_listener := True, domain_callback_mask := callback_value ON_TOPIC_DISCOVERY\<rparr>)],
     physical_listener := True, physical_callback_mask := bm_all\<rparr>"

definition example_events :: "event list" where
  "example_events = [DomainEntityDiscovery (EntityId 1) (EntityId 5) PARTICIPANT DISCOVERY,
     DomainEntityDiscovery (EntityId 1) (EntityId 6) TOPIC DISCOVERY,
     DomainEntityDiscovery (EntityId 1) (EntityId 5) PARTICIPANT UNDISCOVERY]"

theorem discovery_counts_add_up_witness:
  "map_option st_current_count (slot_status (ParticipantSlot (EntityId 1))
     (fold (deliver new_database) example_events example_backend)) = Some 0"
  using discovery_counts_add_up [of example_backend "ParticipantSlot (EntityId 1)" example_events new_database]
  by (auto simp: example_backend_def example_events_def new_backend_def new_monitor_def backend_wf_def om_wf_def
      slot_event_def)


end
