(* ===== verification/DbPhysical.thy ===== *)
theory DbPhysical
  imports PhysicalTree
begin

text \<open>
  \<open>Database::process_physical_entities_nts\<close> (\<open>database.cpp\<close>): finding or creating the host, the user
  and the process of a discovered participant, and linking the participant. The lemmas show that
  inserting hosts, users, processes and participants keeps the physical tree in order, and so does
  the whole discovery step; it finds what an earlier call created.
\<close>

section \<open>Operations\<close>

record physical_ids =
  host_entity :: EntityId
  user_entity :: EntityId
  process_entity :: EntityId

definition alloc_host :: "Host \<Rightarrow> 'q database \<Rightarrow> addr \<times> 'q database" where
  "alloc_host x db = (next_addr db, db\<lparr>next_addr := Suc (next_addr db),
     host_objs := (host_objs db)(next_addr db \<mapsto> x)\<rparr>)"

definition alloc_user :: "User \<Rightarrow> 'q database \<Rightarrow> addr \<times> 'q database" where
  "alloc_user x db = (next_addr db, db\<lparr>next_addr := Suc (next_addr db),
     user_objs := (user_objs db)(next_addr db \<mapsto> x)\<rparr>)"

definition alloc_process :: "Process \<Rightarrow> 'q database \<Rightarrow> addr \<times> 'q database" where
  "alloc_process x db = (next_addr db, db\<lparr>next_addr := Suc (next_addr db),
     process_objs := (process_objs db)(next_addr db \<mapsto> x)\<rparr>)"

text \<open>An object whose insertion throws is destroyed with the local \<open>shared_ptr\<close>.\<close>

definition free_host :: "addr \<Rightarrow> 'q database \<Rightarrow> 'q database" where
  "free_host a db = db\<lparr>host_objs := (host_objs db)(a := None)\<rparr>"

definition free_user :: "addr \<Rightarrow> 'q database \<Rightarrow> 'q database" where
  "free_user a db = db\<lparr>user_objs := (user_objs db)(a := None)\<rparr>"

definition free_process :: "addr \<Rightarrow> 'q database \<Rightarrow> 'q database" where
  "free_process a db = db\<lparr>process_objs := (process_objs db)(a := None)\<rparr>"

text \<open>An entity known from another source and now seen by discovery changes its source.\<close>

definition upgrade_source :: "DiscoverySource \<Rightarrow> 'a Entity_scheme \<Rightarrow> 'a Entity_scheme" where
  "upgrade_source src x =
     (if src = DISCOVERY_SOURCE \<and> e_discovery_source x \<noteq> DISCOVERY_SOURCE
      then x\<lparr>e_discovery_source := src\<rparr> else x)"

definition physical_host :: "string \<Rightarrow> DiscoverySource \<Rightarrow> ('q, addr) action" where
  "physical_host hname src db =
     (case get_entities_by_name_nts HOST hname db of
        Inl e \<Rightarrow> (Inl e, db)
      | Inr [] \<Rightarrow>
          (let (a, db) = alloc_host ((new_host hname OK_STATUS)\<lparr>e_discovery_source := src\<rparr>) db
           in case insert_host a invalid_id db of
               (Inl e, db) \<Rightarrow> (Inl e, free_host a db)
             | (Inr i, db) \<Rightarrow> (Inr a, db))
      | Inr ((d, i) # _) \<Rightarrow>
          (case get_entity_nts db i of
             Inl e \<Rightarrow> (Inl e, db)
           | Inr (HostRef a) \<Rightarrow>
               (Inr a, db\<lparr>host_objs := obj_update a (upgrade_source src) (host_objs db)\<rparr>)
           | Inr _ \<Rightarrow> (Inl NullDereference, db)))"

fun pick_user :: "'q database \<Rightarrow> addr \<Rightarrow> (EntityId \<times> EntityId) list \<Rightarrow> addr option result" where
  "pick_user db h [] = Inr None"
| "pick_user db h ((d, i) # is) =
     (case get_entity_nts db i of
        Inl e \<Rightarrow> Inl e
      | Inr (UserRef a) \<Rightarrow>
          (case user_objs db a of
             None \<Rightarrow> Inl NullDereference
           | Some u \<Rightarrow> if fragile_lock (host_objs db) (u_host u) = Some h then Inr (Some a)
                       else pick_user db h is)
      | Inr _ \<Rightarrow> Inl NullDereference)"

definition physical_user :: "string \<Rightarrow> DiscoverySource \<Rightarrow> addr \<Rightarrow> ('q, addr) action" where
  "physical_user uname src h db =
     (case bind_result (get_entities_by_name_nts USER uname db) (pick_user db h) of
        Inl e \<Rightarrow> (Inl e, db)
      | Inr (Some a) \<Rightarrow>
          (Inr a, db\<lparr>user_objs := obj_update a (upgrade_source src) (user_objs db)\<rparr>)
      | Inr None \<Rightarrow>
          (let (a, db) = alloc_user ((new_user uname (Some h) OK_STATUS)\<lparr>e_discovery_source := src\<rparr>) db
           in case insert_user a invalid_id db of
               (Inl e, db) \<Rightarrow> (Inl e, free_user a db)
             | (Inr i, db) \<Rightarrow> (Inr a, db)))"

fun pick_process :: "'q database \<Rightarrow> addr \<Rightarrow> (EntityId \<times> EntityId) list \<Rightarrow> addr option result" where
  "pick_process db u [] = Inr None"
| "pick_process db u ((d, i) # is) =
     (case get_entity_nts db i of
        Inl e \<Rightarrow> Inl e
      | Inr (ProcessRef a) \<Rightarrow>
          (case process_objs db a of
             None \<Rightarrow> Inl NullDereference
           | Some p \<Rightarrow> if fragile_lock (user_objs db) (p_user p) = Some u then Inr (Some a)
                       else pick_process db u is)
      | Inr _ \<Rightarrow> Inl NullDereference)"

text \<open>The result also says whether the process was created.\<close>

definition physical_process ::
  "string \<Rightarrow> string \<Rightarrow> DiscoverySource \<Rightarrow> addr \<Rightarrow> ('q, addr \<times> bool) action" where
  "physical_process pname ppid src u db =
     (case bind_result (get_entities_by_name_nts PROCESS pname db) (pick_process db u) of
        Inl e \<Rightarrow> (Inl e, db)
      | Inr (Some a) \<Rightarrow>
          (Inr (a, False), db\<lparr>process_objs := obj_update a (upgrade_source src) (process_objs db)\<rparr>)
      | Inr None \<Rightarrow>
          (let (a, db) = alloc_process
             ((new_process pname ppid (Some u) OK_STATUS)\<lparr>e_discovery_source := src\<rparr>) db
           in case insert_process a invalid_id db of
               (Inl e, db) \<Rightarrow> (Inl e, free_process a db)
             | (Inr i, db) \<Rightarrow> (Inr (a, True), db)))"

text \<open>
  The out arguments \<open>should_link_process_participant\<close> and \<open>physical_entities_ids\<close> are results; they
  keep what was written before an exception.
\<close>

definition process_physical_entities_nts ::
  "string \<Rightarrow> string \<Rightarrow> string \<Rightarrow> string \<Rightarrow> DiscoverySource \<Rightarrow> bool \<Rightarrow> EntityId \<Rightarrow> physical_ids \<Rightarrow>
   'q database \<Rightarrow> unit result \<times> bool \<times> physical_ids \<times> 'q database" where
  "process_physical_entities_nts hname uname pname ppid src link participant_id ids db =
     (case physical_host hname src db of
        (Inl e, db) \<Rightarrow> (Inl e, link, ids, db)
      | (Inr h, db) \<Rightarrow>
          let ids = ids\<lparr>host_entity := e_id (the (host_objs db h))\<rparr>
          in case physical_user uname src h db of
              (Inl e, db) \<Rightarrow> (Inl e, link, ids, db)
            | (Inr u, db) \<Rightarrow>
                let ids = ids\<lparr>user_entity := e_id (the (user_objs db u))\<rparr>
                in case physical_process pname ppid src u db of
                    (Inl e, db) \<Rightarrow> (Inl e, link, ids, db)
                  | (Inr (p, created), db) \<Rightarrow>
                      let link = (link \<or> created);
                          ids = ids\<lparr>process_entity := e_id (the (process_objs db p))\<rparr>
                      in if link \<and> participant_id \<noteq> invalid_id
                         then case link_participant_with_process_nts participant_id (process_entity ids) db of
                             (r, db) \<Rightarrow> (r, link, ids, db)
                         else (Inr (), link, ids, db))"

section \<open>Insertions keep the tree in order\<close>

lemma obj_update_twice [simp]: "obj_update a f (obj_update a g h) = obj_update a (f \<circ> g) h"
  by (auto simp: fun_eq_iff obj_update_apply option.map_comp)

lemma checked_insert_cases:
  assumes "checked_insert obj checks i commit db = (r, db')"
  shows "(\<exists>e. r = Inl e \<and> db' = db \<and> (obj = None \<or> (\<exists>x. obj = Some x \<and> checks x = Some e))) \<or>
    (\<exists>x j n. obj = Some x \<and> checks x = None \<and> assign_entity_id i db = (j, db\<lparr>next_id := n\<rparr>) \<and>
       commit x j (db\<lparr>next_id := n\<rparr>) = (r, db'))"
proof (cases "\<exists>x. obj = Some x \<and> checks x = None")
  case False
  then show ?thesis using assms by (auto simp: checked_insert_def split: option.splits)
next
  case True
  then obtain x where x: "obj = Some x" "checks x = None" by blast
  obtain j db1 where as: "assign_entity_id i db = (j, db1)" by fastforce
  then obtain n where "db1 = db\<lparr>next_id := n\<rparr>" using assign_entity_id_state by blast
  with as x assms show ?thesis by (auto simp: checked_insert_def)
qed

lemma db_inv_phys_owned: "db_inv db \<Longrightarrow> phys_owned db"
  using db_invD [of db] by (simp add: phys_owned_def entity_ids_def)

lemma child_active_other:
  assumes "a \<notin> snd ` set m"
  shows "child_active (obj_update a f ch) m = child_active ch m"
proof -
  have "obj_update a f ch (snd e) = ch (snd e)" if "e \<in> set m" for e
    using assms that by (auto simp: obj_update_apply)
  then show ?thesis unfolding child_active_def by (auto simp: case_prod_unfold)
qed

lemma insertion_fresh: "insertion_effect i (Inr j) db db' \<Longrightarrow> j \<notin> set (entity_ids db)"
  by (auto simp: insertion_effect_def)

lemma mirrors_new_child:
  assumes m: "mirrors_except {} ph pm kids ch" and c: "ch a = Some c" "\<not> active (f c)"
    and px: "(i, x) \<in> set pm" "ph x = Some p" and wf: "om_wf (kids p)" and j: "j \<notin> set (om_keys (kids p))"
    and notin: "\<And>i' y q k. (i', y) \<in> set pm \<Longrightarrow> ph y = Some q \<Longrightarrow> (k, a) \<notin> set (kids q)"
    and g: "\<And>p. kids (g p) = om_put j a (kids p)" "\<And>p. active (g p) = active p"
  shows "mirrors_except {} (obj_update x g ph) pm kids (obj_update a f ch)"
proof -
  have old: "child_active (obj_update a f ch) (kids q) = child_active ch (kids q)"
    if "(i', y) \<in> set pm" "ph y = Some q" for i' y q
    by (rule child_active_other) (use notin [OF that] in auto)
  have "set (om_put j a (kids p)) = insert (j, a) (set (kids p))"
    using om_put_set_fresh [OF wf] j by simp
  then have new: "child_active (obj_update a f ch) (om_put j a (kids p)) =
      child_active (obj_update a f ch) (kids p)"
    using c by (simp add: child_active_def obj_update_apply)
  show ?thesis
    unfolding mirrors_except_def
  proof (clarify)
    fix i' y q
    assume y: "(i', y) \<in> set pm" "obj_update x g ph y = Some q"
    show "active q = child_active (obj_update a f ch) (kids q)"
    proof (cases "y = x")
      case True
      then have "q = g p" using y(2) px(2) by (simp add: obj_update_apply)
      then show ?thesis
        using m px old [OF px] new g by (auto simp: mirrors_except_def)
    next
      case False
      then show ?thesis
        using m y old [OF y(1)] by (auto simp: mirrors_except_def obj_update_apply)
    qed
  qed
qed

lemma mirrors_parent_other:
  assumes "mirrors_except X ph pm kids ch" and "x \<notin> snd ` set pm"
  shows "mirrors_except X (obj_update x f ph) pm kids ch"
  using assms by (force simp: mirrors_except_def obj_update_apply)

lemma has_parent_put:
  assumes "has_parent h up m" and "om_wf m" and "i \<notin> set (om_keys m)"
    and "h a = Some c" and "up (f c) = Some b" and "\<And>c. up (f c) = up c"
  shows "has_parent (obj_update a f h) up (om_put i a m)"
proof -
  have "set (om_put i a m) = insert (i, a) (set m)" using om_put_set_fresh assms(2,3) by simp
  then show ?thesis
    using has_parent_update [OF assms(1,6), of a] assms(4,5) by (simp add: has_parent_def obj_update_apply)
qed

lemma insert_host_phys:
  assumes inv: "db_inv db" "phys_inv db" and arg: "id_argument i db"
    and h: "host_objs db a = Some h" "\<not> active h" "a \<notin> snd ` set (hosts db)"
    and run: "insert_host a i db = (r, db')"
  shows "phys_inv db'"
proof -
  have eff: "insertion_effect i r db db'" using insert_host_effect [OF inv(1) arg run] .
  then have ow: "phys_owned db'" by (simp add: insertion_effect_def db_inv_phys_owned)
  have P: "linked (host_objs db) (hosts db) h_users (user_objs db) (set (users db)) u_host"
    "mirrors_except {} (host_objs db) (hosts db) h_users (user_objs db)" "om_wf (hosts db)"
    using inv(2) by (auto simp: phys_inv_def phys_links_def phys_activity_def phys_owned_def owned_def)
  let ?db0 = "db\<lparr>host_objs := obj_update a clear_host (host_objs db)\<rparr>"
  from checked_insert_cases [OF run [unfolded insert_host_def Let_def]]
  consider "db' = ?db0" | j n where "r = Inr j" "db' = ?db0\<lparr>next_id := n,
      host_objs := obj_update a (\<lambda>x. x\<lparr>e_id := j\<rparr>) (host_objs ?db0), hosts := om_put j a (hosts db)\<rparr>"
    by auto
  then show ?thesis
  proof cases
    case 1
    then show ?thesis
      using ow inv(2) P linked_parent_other [OF P(1) h(3)] mirrors_parent_other [OF P(2) h(3)]
      by (simp add: phys_inv_def phys_links_def phys_activity_def)
  next
    case 2
    let ?f = "(\<lambda>x. x\<lparr>e_id := j\<rparr>) \<circ> clear_host"
    have j: "j \<notin> set (om_keys (hosts db))"
      using insertion_fresh [OF eff [unfolded 2(1)]] by (simp add: entity_ids_def)
    have f: "h_users (?f h) = []" "\<not> active (?f h)" using h(2) by (simp_all add: clear_defs)
    show ?thesis
      using ow inv(2) linked_new_parent [where f = ?f, OF P(1,3) j h(1,3) f(1)]
        mirrors_new_parent [where f = ?f, OF P(2,3) j h(1,3) f]
      by (simp add: 2(2) phys_inv_def phys_links_def phys_activity_def)
  qed
qed


text \<open>A parent that is an entry, for the maps the checks look through.\<close>

lemma parent_entry_in:
  assumes "owned h e_id m" and "points_to_entry (fragile_lock h p) (live h m)"
  shows "\<exists>x y i. p = Some x \<and> h x = Some y \<and> (i, x) \<in> set m"
  using parent_entry [OF assms] by (blast dest: map_of_SomeD)

lemma insert_user_phys:
  assumes inv: "db_inv db" "phys_inv db" and arg: "id_argument i db"
    and u: "user_objs db a = Some u" "\<not> active u" "a \<notin> snd ` set (users db)"
    and run: "insert_user a i db = (r, db')"
  shows "phys_inv db'"
proof -
  have eff: "insertion_effect i r db db'" using insert_user_effect [OF inv(1) arg run] .
  then have ow: "phys_owned db'" by (simp add: insertion_effect_def db_inv_phys_owned)
  have P: "linked (host_objs db) (hosts db) h_users (user_objs db) (set (users db)) u_host"
    "mirrors_except {} (host_objs db) (hosts db) h_users (user_objs db)"
    "linked (user_objs db) (users db) u_processes (process_objs db) (set (processes db)) p_user"
    "mirrors_except {} (user_objs db) (users db) u_processes (process_objs db)"
    "om_wf (users db)" "has_parent (user_objs db) u_host (users db)"
    using inv(2) by (auto simp: phys_inv_def phys_links_def phys_activity_def phys_owned_def owned_def)
  let ?db0 = "db\<lparr>user_objs := obj_update a clear_user (user_objs db)\<rparr>"
  have c: "u_host (clear_user x) = u_host x" "active (clear_user x) = active x" for x
    by (simp_all add: clear_defs)
  from checked_insert_cases [OF run [unfolded insert_user_def Let_def]]
  consider "db' = ?db0" | j n where "r = Inr j" "user_checks a (clear_user u) ?db0 = None"
    "db' = ?db0\<lparr>next_id := n, user_objs := obj_update a (\<lambda>x. x\<lparr>e_id := j\<rparr>) (user_objs ?db0),
      users := om_put j a (users db), host_objs := obj_update (the (u_host u))
        (\<lambda>h. h\<lparr>h_users := om_put j a (h_users h)\<rparr>) (host_objs db)\<rparr>"
    using u(1) c by (auto simp: obj_update_apply)
  then show ?thesis
  proof cases
    case 1
    then show ?thesis
      using ow inv(2) P linked_update_child [OF P(1) c(1)]
        linked_parent_other [OF P(3) u(3)] mirrors_parent_other [OF P(4) u(3)]
        has_parent_update [OF P(6) c(1)]
      by (simp add: mirrors_update_child [OF c(2)] phys_inv_def phys_links_def phys_activity_def)
  next
    case 2
    let ?f = "(\<lambda>x. x\<lparr>e_id := j\<rparr>) \<circ> clear_user"
    let ?g = "\<lambda>h :: Host. h\<lparr>h_users := om_put j a (h_users h)\<rparr>"
    have j: "j \<notin> set (om_keys (users db))"
      using insertion_fresh [OF eff [unfolded 2(1)]] by (simp add: entity_ids_def)
    have f: "u_processes (?f u) = []" "\<not> active (?f u)" "\<And>x. u_host (?f x) = u_host x"
      using u(2) by (simp_all add: clear_defs)
    have "owned (host_objs ?db0) e_id (hosts ?db0)"
      using inv(2) by (simp add: phys_inv_def phys_owned_def)
    from parent_entry_in [OF this, of "u_host u"] 2(2) obtain x h k where
      x: "u_host u = Some x" "host_objs db x = Some h" "(k, x) \<in> set (hosts db)"
      by (auto simp: user_checks_def c)
    have notin: "(k, a) \<notin> set (h_users q)" if "(i', y) \<in> set (hosts db)" "host_objs db y = Some q" for i' y q k
      using linkedD_parent [OF P(1) that(1)] that(2) u(3) by force
    have old: "(k, e) \<in> set (users db) \<Longrightarrow> k \<noteq> j \<and> e \<noteq> a" for k e using j u(3) by force
    have wf: "om_wf (h_users h)" "j \<notin> set (om_keys (h_users h))"
      using linkedD_parent [OF P(1) x(3)] x(2) old by (auto, blast)
    have users: "set (om_put j a (users db)) = insert (j, a) (set (users db))"
      using om_put_set_fresh [OF P(5)] j by simp
    have hl: "linked (obj_update x ?g (host_objs db)) (hosts db) h_users (obj_update a ?f (user_objs db))
        (insert (j, a) (set (users db))) u_host"
      by (rule link_level [OF P(1) u(1) x(3,2)]) (use old notin x(1) f(3) in auto)
    have hm: "mirrors_except {} (obj_update x ?g (host_objs db)) (hosts db) h_users
        (obj_update a ?f (user_objs db))"
      by (rule mirrors_new_child [where f = ?f and kids = h_users, OF P(2) u(1) f(2) x(3,2) wf]) (use notin in auto)
    show ?thesis
      using ow inv(2) hl hm x(1) linked_new_parent [where f = ?f, OF P(3,5) j u(1,3) f(1)]
        mirrors_new_parent [where f = ?f, OF P(4,5) j u(1,3) f(1,2)]
        has_parent_put [where f = ?f, OF P(6,5) j u(1) _ f(3)] f(3)
      by (simp add: 2(3) phys_inv_def phys_links_def phys_activity_def users)
  qed
qed

lemma insert_process_phys:
  assumes inv: "db_inv db" "phys_inv db" and arg: "id_argument i db"
    and p: "process_objs db a = Some p" "\<not> active p" "a \<notin> snd ` set (processes db)"
    and run: "insert_process a i db = (r, db')"
  shows "phys_inv db'"
proof -
  have eff: "insertion_effect i r db db'" using insert_process_effect [OF inv(1) arg run] .
  then have ow: "phys_owned db'" by (simp add: insertion_effect_def db_inv_phys_owned)
  have P: "linked (user_objs db) (users db) u_processes (process_objs db) (set (processes db)) p_user"
    "mirrors_except {} (user_objs db) (users db) u_processes (process_objs db)"
    "linked (process_objs db) (processes db) p_participants (participant_objs db)
       (entries_in (participants db)) dp_process"
    "mirrors_except {} (process_objs db) (processes db) p_participants (participant_objs db)"
    "om_wf (processes db)" "has_parent (process_objs db) p_user (processes db)"
    "linked (host_objs db) (hosts db) h_users (user_objs db) (set (users db)) u_host"
    "mirrors_except {} (host_objs db) (hosts db) h_users (user_objs db)"
    "has_parent (user_objs db) u_host (users db)"
    using inv(2) by (auto simp: phys_inv_def phys_links_def phys_activity_def phys_owned_def owned_def)
  let ?db0 = "db\<lparr>process_objs := obj_update a clear_process (process_objs db)\<rparr>"
  have c: "p_user (clear_process x) = p_user x" "active (clear_process x) = active x" for x
    by (simp_all add: clear_defs)
  from checked_insert_cases [OF run [unfolded insert_process_def Let_def]]
  consider "db' = ?db0" | j n where "r = Inr j" "process_checks a (clear_process p) ?db0 = None"
    "db' = ?db0\<lparr>next_id := n, process_objs := obj_update a (\<lambda>x. x\<lparr>e_id := j\<rparr>) (process_objs ?db0),
      processes := om_put j a (processes db), user_objs := obj_update (the (p_user p))
        (\<lambda>u. u\<lparr>u_processes := om_put j a (u_processes u)\<rparr>) (user_objs db)\<rparr>"
    using p(1) c by (auto simp: obj_update_apply)
  then show ?thesis
  proof cases
    case 1
    then show ?thesis
      using ow inv(2) P linked_update_child [OF P(1) c(1)]
        linked_parent_other [OF P(3) p(3)] mirrors_parent_other [OF P(4) p(3)]
        has_parent_update [OF P(6) c(1)]
      by (simp add: mirrors_update_child [OF c(2)] phys_inv_def phys_links_def phys_activity_def)
  next
    case 2
    let ?f = "(\<lambda>x. x\<lparr>e_id := j\<rparr>) \<circ> clear_process"
    let ?g = "\<lambda>u :: User. u\<lparr>u_processes := om_put j a (u_processes u)\<rparr>"
    have j: "j \<notin> set (om_keys (processes db))"
      using insertion_fresh [OF eff [unfolded 2(1)]] by (simp add: entity_ids_def)
    have f: "p_participants (?f p) = []" "\<not> active (?f p)" "\<And>x. p_user (?f x) = p_user x"
      using p(2) by (simp_all add: clear_defs)
    have "owned (user_objs ?db0) e_id (users ?db0)"
      using inv(2) by (simp add: phys_inv_def phys_owned_def)
    from parent_entry_in [OF this, of "p_user p"] 2(2) obtain x u k where
      x: "p_user p = Some x" "user_objs db x = Some u" "(k, x) \<in> set (users db)"
      by (auto simp: process_checks_def c)
    have notin: "(k, a) \<notin> set (u_processes q)"
      if "(i', y) \<in> set (users db)" "user_objs db y = Some q" for i' y q k
      using linkedD_parent [OF P(1) that(1)] that(2) p(3) by force
    have old: "(k, e) \<in> set (processes db) \<Longrightarrow> k \<noteq> j \<and> e \<noteq> a" for k e using j p(3) by force
    have wf: "om_wf (u_processes u)" "j \<notin> set (om_keys (u_processes u))"
      using linkedD_parent [OF P(1) x(3)] x(2) old by (auto, blast)
    have procs: "set (om_put j a (processes db)) = insert (j, a) (set (processes db))"
      using om_put_set_fresh [OF P(5)] j by simp
    have ul: "linked (obj_update x ?g (user_objs db)) (users db) u_processes
        (obj_update a ?f (process_objs db)) (insert (j, a) (set (processes db))) p_user"
      by (rule link_level [OF P(1) p(1) x(3,2)]) (use old notin x(1) f(3) in auto)
    have um: "mirrors_except {} (obj_update x ?g (user_objs db)) (users db) u_processes
        (obj_update a ?f (process_objs db))"
      by (rule mirrors_new_child [where f = ?f and kids = u_processes, OF P(2) p(1) f(2) x(3,2) wf]) (use notin in auto)
    have g: "\<And>y. u_host (?g y) = u_host y" "\<And>y. active (?g y) = active y" by simp_all
    let ?U = "obj_update x ?g (user_objs db)"
    let ?R = "obj_update a ?f (process_objs db)"
    let ?P = "om_put j a (processes db)"
    have hp: "has_parent ?R p_user ?P"
      by (rule has_parent_put [where f = ?f, OF P(6,5) j p(1) _ f(3)]) (use f(3) x(1) in simp)
    have pl: "linked ?R ?P p_participants (participant_objs db) (entries_in (participants db)) dp_process"
      by (rule linked_new_parent [where f = ?f, OF P(3,5) j p(1,3) f(1)])
    have hl: "linked (host_objs db) (hosts db) h_users ?U (set (users db)) u_host"
      using P(7) by (rule linked_update_child) simp
    have hu: "has_parent ?U u_host (users db)" 
      using P(9) by (rule has_parent_update) simp
    have "phys_links db'"
      using ul x(1) hp pl hl hu by (simp add: 2(3) phys_links_def procs)
    moreover have "mirrors_except {} (host_objs db) (hosts db) h_users ?U"
      using P(8) by (simp add: mirrors_update_child)
    then have "phys_activity db'"
      using um x(1) mirrors_new_parent [where f = ?f, OF P(4,5) j p(1,3) f(1,2)]
      by (simp add: 2(3) phys_activity_def)
    ultimately show ?thesis using ow by (simp add: phys_inv_def)
  qed
qed

section \<open>The discovery of the physical entities\<close>

text \<open>No object is stored from \<open>next_addr\<close> on, so the next allocation is a new object.\<close>

definition fresh_addresses :: "'q database \<Rightarrow> bool" where
  "fresh_addresses db \<longleftrightarrow> (\<forall>a \<ge> next_addr db.
     host_objs db a = None \<and> user_objs db a = None \<and> process_objs db a = None)"

text \<open>The invariants depend on the objects of the entries only.\<close>

lemma owned_store:
  assumes "\<And>a. a \<in> snd ` set m \<Longrightarrow> h' a = h a"
  shows "owned h' f m = owned h f m"
  using assms unfolding owned_def by force

lemma owned_new_object [simp]: "h a = None \<Longrightarrow> owned h f m \<Longrightarrow> owned (h(a \<mapsto> x)) f m"
  unfolding owned_def by force

lemma owned_not_entry: "owned h f m \<Longrightarrow> h a = None \<Longrightarrow> a \<notin> snd ` set m"
  unfolding owned_def by force

lemma linked_new_object:
  assumes "linked ph pm kids ch cm up"
  shows "ph a = None \<Longrightarrow> linked (ph(a \<mapsto> p)) pm kids ch cm up"
    and "ch a = None \<Longrightarrow> linked ph pm kids (ch(a \<mapsto> c)) cm up"
  using assms unfolding linked_def by (fastforce+)

lemma has_parent_new_object: "has_parent h up m \<Longrightarrow> h a = None \<Longrightarrow> has_parent (h(a \<mapsto> x)) up m"
  unfolding has_parent_def by fastforce

lemma mirrors_new_object:
  assumes m: "mirrors_except {} ph pm kids ch" and l: "linked ph pm kids ch cm up"
  shows "ph a = None \<Longrightarrow> mirrors_except {} (ph(a \<mapsto> p)) pm kids ch"
    and "ch a = None \<Longrightarrow> mirrors_except {} ph pm kids (ch(a \<mapsto> c))"
proof -
  assume a: "ph a = None"
  have "b \<noteq> a" if "(i, b) \<in> set pm" for i b using linkedD_parent [OF l that] a by auto
  then show "mirrors_except {} (ph(a \<mapsto> p)) pm kids ch" using m unfolding mirrors_except_def by fastforce
next
  assume a: "ch a = None"
  have "child_active (ch(a \<mapsto> c)) (kids q) = child_active ch (kids q)"
    if "(i, b) \<in> set pm" "ph b = Some q" for i b q
  proof -
    have "e \<noteq> a" if "(j, e) \<in> set (kids q)" for j e
      using linkedD_parent [OF l \<open>(i, b) \<in> set pm\<close>] \<open>ph b = Some q\<close> that a by fastforce
    then show ?thesis unfolding child_active_def by fastforce
  qed
  then show "mirrors_except {} ph pm kids (ch(a \<mapsto> c))"
    using m unfolding mirrors_except_def by fastforce
qed

lemma phys_inv_parts:
  assumes "phys_inv db"
  shows "linked (host_objs db) (hosts db) h_users (user_objs db) (set (users db)) u_host"
    "mirrors_except {} (host_objs db) (hosts db) h_users (user_objs db)"
    "linked (user_objs db) (users db) u_processes (process_objs db) (set (processes db)) p_user"
    "mirrors_except {} (user_objs db) (users db) u_processes (process_objs db)"
    "linked (process_objs db) (processes db) p_participants (participant_objs db)
       (entries_in (participants db)) dp_process"
    "mirrors_except {} (process_objs db) (processes db) p_participants (participant_objs db)"
    "has_parent (user_objs db) u_host (users db)" "has_parent (process_objs db) p_user (processes db)"
    "phys_owned db"
  using assms by (simp_all add: phys_inv_def phys_links_def phys_activity_def)

text \<open>Allocating an object that is not an entry changes nothing of the invariants.\<close>

definition discovery_ready :: "'q database \<Rightarrow> bool" where
  "discovery_ready db \<longleftrightarrow> db_inv db \<and> phys_inv db \<and> fresh_addresses db"

lemma alloc_ready:
  assumes "discovery_ready db"
  shows "discovery_ready (snd (alloc_host x db)) \<and> discovery_ready (snd (alloc_user y db)) \<and>
    discovery_ready (snd (alloc_process z db))"
proof -
  let ?a = "next_addr db"
  have inv: "db_inv db" "phys_inv db" "fresh_addresses db"
    using assms by (simp_all add: discovery_ready_def)
  note P = phys_inv_parts [OF inv(2)]
  have n: "host_objs db ?a = None" "user_objs db ?a = None" "process_objs db ?a = None"
    using inv(3) by (simp_all add: fresh_addresses_def)
  have f: "fresh_addresses (snd (alloc_host x db))" "fresh_addresses (snd (alloc_user y db))"
    "fresh_addresses (snd (alloc_process z db))"
    using inv(3) by (simp_all add: fresh_addresses_def alloc_host_def alloc_user_def alloc_process_def)
  note D = db_invD(1-9,12) [OF inv(1)]
  have sd: "db_struct (snd (alloc_host x db))" "db_struct (snd (alloc_user y db))"
    "db_struct (snd (alloc_process z db))"
    using D(10) D(1-9) owned_new_object [OF n(1) D(1)] owned_new_object [OF n(2) D(2)]
      owned_new_object [OF n(3) D(3)]
    unfolding db_struct_def db_owned_def topic_homes_def alloc_host_def alloc_user_def alloc_process_def
    by simp_all
  have i: "db_inv (snd (alloc_host x db))" "db_inv (snd (alloc_user y db))"
    "db_inv (snd (alloc_process z db))"
    using sd [THEN db_inv_same [OF inv(1)]]
    by (simp_all add: entity_ids_def alloc_host_def alloc_user_def alloc_process_def)
  have o: "phys_owned (snd (alloc_host x db))" "phys_owned (snd (alloc_user y db))"
    "phys_owned (snd (alloc_process z db))"
    using db_inv_phys_owned i by blast+
  have h: "phys_links (snd (alloc_host x db))" "phys_activity (snd (alloc_host x db))"
    using P n(1) linked_new_object(1) [OF P(1) n(1)] mirrors_new_object(1) [OF P(2,1) n(1)]
    by (simp_all add: phys_links_def phys_activity_def alloc_host_def)
  have u: "phys_links (snd (alloc_user y db))" "phys_activity (snd (alloc_user y db))"
    using P n(2) linked_new_object(2) [OF P(1) n(2)] mirrors_new_object(2) [OF P(2,1) n(2)]
      linked_new_object(1) [OF P(3) n(2)] mirrors_new_object(1) [OF P(4,3) n(2)]
      has_parent_new_object [OF P(7) n(2)]
    by (simp_all add: phys_links_def phys_activity_def alloc_user_def)
  have p: "phys_links (snd (alloc_process z db))" "phys_activity (snd (alloc_process z db))"
    using P n(3) linked_new_object(2) [OF P(3) n(3)] mirrors_new_object(2) [OF P(4,3) n(3)]
      linked_new_object(1) [OF P(5) n(3)] mirrors_new_object(1) [OF P(6,5) n(3)]
      has_parent_new_object [OF P(8) n(3)]
    by (simp_all add: phys_links_def phys_activity_def alloc_process_def)
  show ?thesis using f i o h u p by (simp add: discovery_ready_def phys_inv_def)
qed

lemma alloc_room:
  assumes "discovery_ready db"
  shows "host_objs (snd (alloc_host x db)) (next_addr db) = Some x"
    "user_objs (snd (alloc_user y db)) (next_addr db) = Some y"
    "process_objs (snd (alloc_process z db)) (next_addr db) = Some z"
    "next_addr db \<notin> snd ` set (hosts db)" "next_addr db \<notin> snd ` set (users db)"
    "next_addr db \<notin> snd ` set (processes db)"
proof -
  show "host_objs (snd (alloc_host x db)) (next_addr db) = Some x"
    "user_objs (snd (alloc_user y db)) (next_addr db) = Some y"
    "process_objs (snd (alloc_process z db)) (next_addr db) = Some z"
    by (simp_all add: alloc_host_def alloc_user_def alloc_process_def)
  have n: "host_objs db (next_addr db) = None" "user_objs db (next_addr db) = None"
    "process_objs db (next_addr db) = None" and inv: "db_inv db"
    using assms by (simp_all add: discovery_ready_def fresh_addresses_def)
  show "next_addr db \<notin> snd ` set (hosts db)" "next_addr db \<notin> snd ` set (users db)"
    "next_addr db \<notin> snd ` set (processes db)"
    using n db_invD(1-3) [OF inv] by (auto dest: owned_not_entry)
qed

text \<open>What an insertion without identifier does to \<open>next_id_\<close> and to the addresses.\<close>

definition room :: "int \<Rightarrow> 'q database \<Rightarrow> bool" where
  "room n db \<longleftrightarrow> next_id db + n < 2 ^ 63"

lemma room_id_argument: "db_inv db \<Longrightarrow> room n db \<Longrightarrow> 1 < n \<Longrightarrow> id_argument invalid_id db"
  by (simp add: room_def id_argument_def)

lemma checked_insert_invalid:
  assumes "checked_insert obj checks invalid_id commit db = (r, db')"
    and "0 \<le> next_id db" and "room n db" and "1 < n"
  shows "(\<exists>e. r = Inl e \<and> db' = db) \<or>
    (\<exists>x. obj = Some x \<and> checks x = None \<and>
       commit x (EntityId (next_id db)) (db\<lparr>next_id := next_id db + 1\<rparr>) = (r, db'))"
proof -
  have "\<not> is_valid_and_unique invalid_id"
    by (simp add: is_valid_and_unique_def is_valid_def invalid_id_def ENTITY_ID_INVALID_def)
  moreover have "wrap64 (next_id db + 1) = next_id db + 1"
    using assms(2-4) by (intro wrap64_id) (simp add: room_def int64_range_def)
  ultimately have "assign_entity_id invalid_id db = (EntityId (next_id db), db\<lparr>next_id := next_id db + 1\<rparr>)"
    by (simp add: assign_entity_id_def generate_entity_id_def)
  then show ?thesis using assms(1) by (auto simp: checked_insert_def split: option.splits)
qed

lemma discovery_readyD:
  assumes "discovery_ready db"
  shows "db_inv db" "phys_inv db" "fresh_addresses db" "0 \<le> next_id db"
  using assms db_invD(11) [of db] by (simp_all add: discovery_ready_def ids_below_def)

lemma insert_host_ready:
  assumes rd: "discovery_ready db" "room n db" "1 < n"
    and h: "host_objs db a = Some h" "\<not> active h" "a \<notin> snd ` set (hosts db)"
    and run: "insert_host a invalid_id db = (r, db')"
  shows "discovery_ready db' \<and> room (n - 1) db' \<and> (\<forall>e. r = Inl e \<longrightarrow> db' =
    db\<lparr>host_objs := obj_update a clear_host (host_objs db)\<rparr>)"
proof -
  note inv = discovery_readyD [OF rd(1)]
  note arg = room_id_argument [OF inv(1) rd(2,3)]
  have "db_inv db'" using insert_host_effect [OF inv(1) arg run] by (simp add: insertion_effect_def)
  moreover note insert_host_phys [OF inv(1,2) arg h run]
  moreover have "fresh_addresses db' \<and> room (n - 1) db' \<and> (\<forall>e. r = Inl e \<longrightarrow> db' =
      db\<lparr>host_objs := obj_update a clear_host (host_objs db)\<rparr>)"
    using checked_insert_invalid [OF run [unfolded insert_host_def Let_def], of n] inv(3,4) rd(2,3)
    by (auto simp: fresh_addresses_def obj_update_apply room_def)
  ultimately show ?thesis by (simp add: discovery_ready_def)
qed

lemma insert_user_ready:
  assumes rd: "discovery_ready db" "room n db" "1 < n"
    and u: "user_objs db a = Some u" "\<not> active u" "a \<notin> snd ` set (users db)"
    and run: "insert_user a invalid_id db = (r, db')"
  shows "discovery_ready db' \<and> room (n - 1) db' \<and> (\<forall>e. r = Inl e \<longrightarrow> db' =
    db\<lparr>user_objs := obj_update a clear_user (user_objs db)\<rparr>)"
proof -
  note inv = discovery_readyD [OF rd(1)]
  note arg = room_id_argument [OF inv(1) rd(2,3)]
  have "db_inv db'" using insert_user_effect [OF inv(1) arg run] by (simp add: insertion_effect_def)
  moreover note insert_user_phys [OF inv(1,2) arg u run]
  moreover have "fresh_addresses db' \<and> room (n - 1) db' \<and> (\<forall>e. r = Inl e \<longrightarrow> db' =
      db\<lparr>user_objs := obj_update a clear_user (user_objs db)\<rparr>)"
    using checked_insert_invalid [OF run [unfolded insert_user_def Let_def], of n] inv(3,4) rd(2,3)
    by (auto simp: fresh_addresses_def obj_update_apply room_def)
  ultimately show ?thesis by (simp add: discovery_ready_def)
qed

lemma insert_process_ready:
  assumes rd: "discovery_ready db" "room n db" "1 < n"
    and p: "process_objs db a = Some p" "\<not> active p" "a \<notin> snd ` set (processes db)"
    and run: "insert_process a invalid_id db = (r, db')"
  shows "discovery_ready db' \<and> room (n - 1) db' \<and> (\<forall>e. r = Inl e \<longrightarrow> db' =
    db\<lparr>process_objs := obj_update a clear_process (process_objs db)\<rparr>)"
proof -
  note inv = discovery_readyD [OF rd(1)]
  note arg = room_id_argument [OF inv(1) rd(2,3)]
  have "db_inv db'" using insert_process_effect [OF inv(1) arg run] by (simp add: insertion_effect_def)
  moreover note insert_process_phys [OF inv(1,2) arg p run]
  moreover have "fresh_addresses db' \<and> room (n - 1) db' \<and> (\<forall>e. r = Inl e \<longrightarrow> db' =
      db\<lparr>process_objs := obj_update a clear_process (process_objs db)\<rparr>)"
    using checked_insert_invalid [OF run [unfolded insert_process_def Let_def], of n] inv(3,4) rd(2,3)
    by (auto simp: fresh_addresses_def obj_update_apply room_def)
  ultimately show ?thesis by (simp add: discovery_ready_def)
qed

text \<open>Changing the discovery source concerns none of the invariants.\<close>

lemma upgrade_source_simps [simp]:
  "e_id (upgrade_source src x) = e_id x" "active (upgrade_source src x) = active x"
  "e_name (upgrade_source src x) = e_name x"
  "h_users (upgrade_source src h) = h_users h"
  "u_host (upgrade_source src u) = u_host u" "u_processes (upgrade_source src u) = u_processes u"
  "p_user (upgrade_source src p) = p_user p" "p_participants (upgrade_source src p) = p_participants p"
  by (simp_all add: upgrade_source_def)

lemma upgrade_source_ready:
  assumes "discovery_ready db"
  shows "discovery_ready (db\<lparr>host_objs := obj_update a (upgrade_source src) (host_objs db)\<rparr>)"
    "discovery_ready (db\<lparr>user_objs := obj_update a (upgrade_source src) (user_objs db)\<rparr>)"
    "discovery_ready (db\<lparr>process_objs := obj_update a (upgrade_source src) (process_objs db)\<rparr>)"
proof -
  note inv = discovery_readyD [OF assms]
  note P = phys_inv_parts [OF inv(2)] and D = db_invD [OF inv(1)]
  have f: "fresh_addresses (db\<lparr>host_objs := obj_update a (upgrade_source src) (host_objs db)\<rparr>)"
    "fresh_addresses (db\<lparr>user_objs := obj_update a (upgrade_source src) (user_objs db)\<rparr>)"
    "fresh_addresses (db\<lparr>process_objs := obj_update a (upgrade_source src) (process_objs db)\<rparr>)"
    using inv(3) by (simp_all add: fresh_addresses_def obj_update_apply)
  have i: "db_inv (db\<lparr>host_objs := obj_update a (upgrade_source src) (host_objs db)\<rparr>)"
    "db_inv (db\<lparr>user_objs := obj_update a (upgrade_source src) (user_objs db)\<rparr>)"
    "db_inv (db\<lparr>process_objs := obj_update a (upgrade_source src) (process_objs db)\<rparr>)"
    using D by (auto intro!: db_inv_same [OF inv(1)]
        simp: db_struct_def db_owned_def topic_homes_def entity_ids_def owned_update_same_id)
  have l: "phys_links (db\<lparr>host_objs := obj_update a (upgrade_source src) (host_objs db)\<rparr>)"
    "phys_links (db\<lparr>user_objs := obj_update a (upgrade_source src) (user_objs db)\<rparr>)"
    "phys_links (db\<lparr>process_objs := obj_update a (upgrade_source src) (process_objs db)\<rparr>)"
    using P by (simp_all add: phys_links_def linked_update_parent linked_update_child has_parent_update)
  have m: "phys_activity (db\<lparr>host_objs := obj_update a (upgrade_source src) (host_objs db)\<rparr>)"
    "phys_activity (db\<lparr>user_objs := obj_update a (upgrade_source src) (user_objs db)\<rparr>)"
    "phys_activity (db\<lparr>process_objs := obj_update a (upgrade_source src) (process_objs db)\<rparr>)"
    using P by (simp_all add: phys_activity_def mirrors_update_parent mirrors_update_child)
  show "discovery_ready (db\<lparr>host_objs := obj_update a (upgrade_source src) (host_objs db)\<rparr>)"
    "discovery_ready (db\<lparr>user_objs := obj_update a (upgrade_source src) (user_objs db)\<rparr>)"
    "discovery_ready (db\<lparr>process_objs := obj_update a (upgrade_source src) (process_objs db)\<rparr>)"
    using f i [THEN db_inv_phys_owned] i l m by (simp_all add: discovery_ready_def phys_inv_def)
qed

lemma lost_address_ready:
  assumes "discovery_ready db"
  shows "discovery_ready (db\<lparr>next_addr := Suc (next_addr db)\<rparr>)"
proof -
  let ?db = "db\<lparr>next_addr := Suc (next_addr db)\<rparr>"
  note inv = discovery_readyD [OF assms]
  note D = db_invD(1-9,12) [OF inv(1)]
  have "db_struct ?db" using D unfolding db_struct_def db_owned_def topic_homes_def by simp
  then have "db_inv ?db" by (rule db_inv_same [OF inv(1)]) (simp_all add: entity_ids_def)
  moreover have "phys_inv ?db"
    using inv(2) by (simp add: phys_inv_def phys_owned_def phys_links_def phys_activity_def)
  ultimately show ?thesis using inv(3) by (simp add: discovery_ready_def fresh_addresses_def)
qed

lemma room_simps [simp]:
  "room n (snd (alloc_host x db)) = room n db" "room n (snd (alloc_user y db)) = room n db"
  "room n (snd (alloc_process z db)) = room n db" "room n (db\<lparr>next_addr := k\<rparr>) = room n db"
  "room n (db\<lparr>host_objs := hh\<rparr>) = room n db" "room n (db\<lparr>user_objs := uu\<rparr>) = room n db"
  "room n (db\<lparr>process_objs := pp\<rparr>) = room n db"
  by (simp_all add: room_def alloc_host_def alloc_user_def alloc_process_def)

lemma room_less: "room n db \<Longrightarrow> room (n - 1) db"
  by (simp add: room_def)

lemma free_after_alloc:
  "discovery_ready db \<Longrightarrow> free_host (next_addr db) (snd (alloc_host x db)
      \<lparr>host_objs := obj_update (next_addr db) f (host_objs (snd (alloc_host x db)))\<rparr>) =
     db\<lparr>next_addr := Suc (next_addr db)\<rparr>"
  "discovery_ready db \<Longrightarrow> free_user (next_addr db) (snd (alloc_user y db)
      \<lparr>user_objs := obj_update (next_addr db) g (user_objs (snd (alloc_user y db)))\<rparr>) =
     db\<lparr>next_addr := Suc (next_addr db)\<rparr>"
  "discovery_ready db \<Longrightarrow> free_process (next_addr db) (snd (alloc_process z db)
      \<lparr>process_objs := obj_update (next_addr db) k (process_objs (snd (alloc_process z db)))\<rparr>) =
     db\<lparr>next_addr := Suc (next_addr db)\<rparr>"
  by (cases db, auto simp: discovery_ready_def fresh_addresses_def free_host_def free_user_def
      free_process_def alloc_host_def alloc_user_def alloc_process_def obj_update_def)+

lemma new_physical_inactive [simp]:
  "\<not> active ((new_host n st)\<lparr>e_discovery_source := src\<rparr>)"
  "\<not> active ((new_user n h st)\<lparr>e_discovery_source := src\<rparr>)"
  "\<not> active ((new_process n i u st)\<lparr>e_discovery_source := src\<rparr>)"
  by (simp_all add: entity_constructor_defs)

lemma physical_host_ready:
  assumes rd: "discovery_ready db" "room n db" "1 < n" and run: "physical_host hname src db = (r, db')"
  shows "discovery_ready db' \<and> room (n - 1) db'"
proof -
  let ?x = "(new_host hname OK_STATUS)\<lparr>e_discovery_source := src\<rparr>"
  define db1 where "db1 = snd (alloc_host ?x db)"
  have al: "alloc_host ?x db = (next_addr db, db1)" by (simp add: db1_def alloc_host_def)
  obtain r1 db2 where ins: "insert_host (next_addr db) invalid_id db1 = (r1, db2)" by fastforce
  have step: "discovery_ready db2 \<and> room (n - 1) db2 \<and> (\<forall>e. r1 = Inl e \<longrightarrow> db2 =
      db1\<lparr>host_objs := obj_update (next_addr db) clear_host (host_objs db1)\<rparr>)"
  proof (rule insert_host_ready [where h = ?x])
    show "discovery_ready db1" using alloc_ready [OF rd(1)] by (simp add: db1_def)
    show "next_addr db \<notin> snd ` set (hosts db1)" using alloc_room(4) [OF rd(1)] by (simp add: db1_def alloc_host_def)
  qed (use rd ins alloc_room(1) [OF rd(1)] in \<open>simp_all add: db1_def\<close>)
  show ?thesis
    using run rd step ins upgrade_source_ready(1) [OF rd(1)] free_after_alloc(1) [where x = ?x, OF rd(1), folded db1_def]
      lost_address_ready [OF rd(1)] room_less [OF rd(2)]
    by (auto simp: physical_host_def al split: sum.splits list.splits entity_ref.splits)
qed

lemma physical_user_ready:
  assumes rd: "discovery_ready db" "room n db" "1 < n" and run: "physical_user uname src h db = (r, db')"
  shows "discovery_ready db' \<and> room (n - 1) db'"
proof -
  let ?x = "(new_user uname (Some h) OK_STATUS)\<lparr>e_discovery_source := src\<rparr>"
  define db1 where "db1 = snd (alloc_user ?x db)"
  have al: "alloc_user ?x db = (next_addr db, db1)" by (simp add: db1_def alloc_user_def)
  obtain r1 db2 where ins: "insert_user (next_addr db) invalid_id db1 = (r1, db2)" by fastforce
  have step: "discovery_ready db2 \<and> room (n - 1) db2 \<and> (\<forall>e. r1 = Inl e \<longrightarrow> db2 =
      db1\<lparr>user_objs := obj_update (next_addr db) clear_user (user_objs db1)\<rparr>)"
  proof (rule insert_user_ready [where u = ?x])
    show "discovery_ready db1" using alloc_ready [OF rd(1)] by (simp add: db1_def)
    show "next_addr db \<notin> snd ` set (users db1)" using alloc_room(5) [OF rd(1)] by (simp add: db1_def alloc_user_def)
  qed (use rd ins alloc_room(2) [OF rd(1)] in \<open>simp_all add: db1_def\<close>)
  show ?thesis
    using run rd step ins upgrade_source_ready(2) [OF rd(1)] free_after_alloc(2) [where y = ?x, OF rd(1), folded db1_def]
      lost_address_ready [OF rd(1)] room_less [OF rd(2)]
    by (auto simp: physical_user_def al split: sum.splits option.splits)
qed

lemma physical_process_ready:
  assumes rd: "discovery_ready db" "room n db" "1 < n" and run: "physical_process pname ppid src u db = (r, db')"
  shows "discovery_ready db' \<and> room (n - 1) db'"
proof -
  let ?x = "(new_process pname ppid (Some u) OK_STATUS)\<lparr>e_discovery_source := src\<rparr>"
  define db1 where "db1 = snd (alloc_process ?x db)"
  have al: "alloc_process ?x db = (next_addr db, db1)" by (simp add: db1_def alloc_process_def)
  obtain r1 db2 where ins: "insert_process (next_addr db) invalid_id db1 = (r1, db2)" by fastforce
  have step: "discovery_ready db2 \<and> room (n - 1) db2 \<and> (\<forall>e. r1 = Inl e \<longrightarrow> db2 =
      db1\<lparr>process_objs := obj_update (next_addr db) clear_process (process_objs db1)\<rparr>)"
  proof (rule insert_process_ready [where p = ?x])
    show "discovery_ready db1" using alloc_ready [OF rd(1)] by (simp add: db1_def)
    show "next_addr db \<notin> snd ` set (processes db1)"
      using alloc_room(6) [OF rd(1)] by (simp add: db1_def alloc_process_def)
  qed (use rd ins alloc_room(3) [OF rd(1)] in \<open>simp_all add: db1_def\<close>)
  show ?thesis
    using run rd step ins upgrade_source_ready(3) [OF rd(1)] free_after_alloc(3) [where z = ?x, OF rd(1), folded db1_def]
      lost_address_ready [OF rd(1)] room_less [OF rd(2)]
    by (auto simp: physical_process_def al split: sum.splits option.splits)
qed

lemma example_tree_db_inv: "db_inv (example_tree joined)"
  by (simp add: db_inv_def db_struct_def db_owned_def owned_def owned_in_def topic_homes_def
      ids_below_def entity_ids_def keys_in_def new_database_def example_tree_def om_wf_def
      entity_constructor_defs)

text \<open>C4: Discovering the physical entities of a participant keeps the tree of hosts, users,
  processes and participants in order, whether the step finds the entities, creates them, links the
  participant, or throws on the way; what it allocates is never an object already in use.\<close>

theorem physical_discovery_keeps_tree:
  assumes "db_inv db" and "phys_inv db" and "fresh_addresses db" and "next_id db < 2 ^ 63 - 4"
    and "process_physical_entities_nts hname uname pname ppid src link participant_id ids db = (r, link', ids', db')"
  shows "phys_inv db'"
proof -
  have rd: "discovery_ready db" "room 4 db" using assms by (simp_all add: discovery_ready_def room_def)
  obtain r1 db1 where h: "physical_host hname src db = (r1, db1)" by fastforce
  have rd1: "discovery_ready db1" "room 3 db1" using physical_host_ready [OF rd _ h] by simp_all
  have d1: "phys_inv db1" using rd1 by (simp add: discovery_ready_def)
  show ?thesis
  proof (cases r1)
    case (Inl e)
    then show ?thesis using assms(5) h d1 by (auto simp: process_physical_entities_nts_def)
  next
    case hr: (Inr a)
    obtain r2 db2 where u: "physical_user uname src a db1 = (r2, db2)" by fastforce
    have rd2: "discovery_ready db2" "room 2 db2" using physical_user_ready [OF rd1 _ u] by simp_all
    have d2: "phys_inv db2" using rd2 by (simp add: discovery_ready_def)
    show ?thesis
    proof (cases r2)
      case (Inl e)
      then show ?thesis using assms(5) h hr u d2 by (auto simp: process_physical_entities_nts_def)
    next
      case ur: (Inr b)
      obtain r3 db3 where p: "physical_process pname ppid src b db2 = (r3, db3)" by fastforce
      have d3: "phys_inv db3" using physical_process_ready [OF rd2 _ p] by (simp add: discovery_ready_def)
      show ?thesis
        using assms(5) h hr u ur p d3 link_inv [OF d3]
        by (auto simp: process_physical_entities_nts_def Let_def split: sum.splits if_splits prod.splits)
    qed
  qed
qed

theorem physical_discovery_keeps_tree_witness:
  "\<exists>r link' ids' db'. process_physical_entities_nts ''h'' ''v'' ''p'' ''8'' DISCOVERY_SOURCE False (EntityId 4)
     \<lparr>host_entity = invalid_id, user_entity = invalid_id, process_entity = invalid_id\<rparr> (example_tree False)
     = (r, link', ids', db') \<and> phys_inv db'"
proof -
  obtain r link' ids' db' where run: "process_physical_entities_nts ''h'' ''v'' ''p'' ''8'' DISCOVERY_SOURCE
      False (EntityId 4) \<lparr>host_entity = invalid_id, user_entity = invalid_id, process_entity = invalid_id\<rparr>
      (example_tree False) = (r, link', ids', db')" by (metis prod_cases4)
  have "fresh_addresses (example_tree False)" "next_id (example_tree False) < 2 ^ 63 - 4"
    by (simp_all add: fresh_addresses_def example_tree_def new_database_def)
  from physical_discovery_keeps_tree [OF example_tree_db_inv example_tree_inv this run] run
  show ?thesis by blast
qed

section \<open>A host is discovered once\<close>

lemma get_entity_host:
  assumes "owned (host_objs db) e_id (hosts db)" and "(i, a) \<in> set (hosts db)"
  shows "get_entity_nts db i = Inr (HostRef a)"
proof -
  obtain x where x: "host_objs db a = Some x" "e_id x = i" using owned_find [OF assms] by blast
  then have "find_id i (host_objs db) (hosts db) = Some a"
    using find_id_owned [OF assms x(1)] by simp
  then show ?thesis by (simp add: get_entity_nts_def find_entity_def find_id_def)
qed

lemma named_set: "k \<in> set (named n (live h m) f) \<longleftrightarrow> (\<exists>a x. (k, a) \<in> set m \<and> h a = Some x \<and> f x = n)"
  by (force simp: named_def live_set)

lemma named_update:
  assumes "\<And>x. f (g x) = f x"
  shows "named n (live (obj_update a g h) m) f = named n (live h m) f"
  by (induction h m rule: live.induct) (auto simp: named_def obj_update_apply assms split: option.splits)

text \<open>An existing host is the first entry of its name.\<close>

lemma physical_host_found:
  assumes "owned (host_objs db) e_id (hosts db)"
    and "named hname (live (host_objs db) (hosts db)) e_name = i # is" and "(i, a) \<in> set (hosts db)"
  shows "physical_host hname src db =
    (Inr a, db\<lparr>host_objs := obj_update a (upgrade_source src) (host_objs db)\<rparr>)"
  using assms(2) get_entity_host [OF assms(1,3)] by (simp add: physical_host_def)

lemma physical_host_again:
  assumes rd: "discovery_ready db" "room n db" "1 < n" and name: "normalize_entity_name hname = hname"
    and run: "physical_host hname src db = (Inr a, db')"
  shows "\<exists>i is. named hname (live (host_objs db') (hosts db')) e_name = i # is \<and> (i, a) \<in> set (hosts db')"
proof (cases "named hname (live (host_objs db) (hosts db)) e_name")
  case (Cons i "is")
  then have "i \<in> set (named hname (live (host_objs db) (hosts db)) e_name)" by simp
  then obtain b x where b: "(i, b) \<in> set (hosts db)" by (auto simp: named_set)
  note found = physical_host_found [OF db_invD(1) [OF discovery_readyD(1) [OF rd(1)]] Cons b, where src = src]
  with run have "db' = db\<lparr>host_objs := obj_update a (upgrade_source src) (host_objs db)\<rparr>" "b = a"
    by auto
  then show ?thesis using Cons b by (simp add: named_update)
next
  case Nil
  let ?x = "(new_host hname OK_STATUS)\<lparr>e_discovery_source := src\<rparr>"
  let ?a = "next_addr db"
  define db1 where "db1 = snd (alloc_host ?x db)"
  have al: "alloc_host ?x db = (next_addr db, db1)" by (simp add: db1_def alloc_host_def)
  have rd1: "discovery_ready db1" using alloc_ready [OF rd(1)] by (simp add: db1_def)
  have ins: "insert_host ?a invalid_id db1 = (r, db2) \<Longrightarrow> r = Inr i \<Longrightarrow> a = ?a \<and> db' = db2" for r i db2
    using run Nil by (auto simp: physical_host_def al split: sum.splits)
  obtain r db2 where r: "insert_host ?a invalid_id db1 = (r, db2)" by fastforce
  then obtain i where ri: "r = Inr i" using run Nil by (auto simp: physical_host_def al split: sum.splits)
  have a: "a = ?a" "db' = db2" using ins [OF r ri] by simp_all
  have obj: "host_objs db1 ?a = Some ?x" "hosts db1 = hosts db" using alloc_room(1) [OF rd(1), of ?x]
    by (simp_all add: db1_def alloc_host_def)
  let ?h = "obj_update ?a (\<lambda>x. x\<lparr>e_id := i\<rparr>) (obj_update ?a clear_host (host_objs db1))"
  have d: "host_objs db' = ?h" "hosts db' = om_put i ?a (hosts db)"
    using checked_insert_invalid [OF r [unfolded insert_host_def Let_def], of n] rd ri a obj
      discovery_readyD(4) [OF rd1] by (auto simp: db1_def)
  have inn: "(i, ?a) \<in> set (hosts db')"
    using d(2) om_put_set [of "hosts db" i ?a] owned_wf [OF db_invD(1) [OF discovery_readyD(1) [OF rd(1)]]]
    by simp
  have "host_objs db' ?a = Some (?x\<lparr>e_id := i\<rparr>)"
    using d(1) obj(1) by (simp add: obj_update_apply clear_defs entity_constructor_defs)
  moreover have "e_name (?x\<lparr>e_id := i\<rparr>) = hname" using name by (simp add: entity_constructor_defs)
  ultimately have mem: "i \<in> set (named hname (live (host_objs db') (hosts db')) e_name)"
    using inn by (auto simp: named_set)
  have only: "k = i" if kin: "k \<in> set (named hname (live (host_objs db') (hosts db')) e_name)" for k
  proof (rule ccontr)
    assume ne: "k \<noteq> i"
    obtain b x where b: "(k, b) \<in> set (hosts db')" "host_objs db' b = Some x" "e_name x = hname"
      using kin by (auto simp: named_set)
    have kb: "(k, b) \<in> set (hosts db)"
      using b(1) ne om_put_set [of "hosts db" i ?a] owned_wf [OF db_invD(1) [OF discovery_readyD(1) [OF rd(1)]]]
      by (auto simp: d(2))
    then have "b \<noteq> ?a" using alloc_room(4) [OF rd(1)] by force
    then have "host_objs db b = Some x" using b(2) by (simp add: d(1) obj_update_apply db1_def alloc_host_def)
    with kb b(3) have "k \<in> set (named hname (live (host_objs db) (hosts db)) e_name)"
      by (auto simp: named_set)
    then show False using Nil by simp
  qed
  obtain k "is" where k: "named hname (live (host_objs db') (hosts db')) e_name = k # is"
    using mem by (metis list.set_cases)
  then have "k = i" by (intro only) simp
  then show ?thesis using k inn a(1) by blast
qed

text \<open>A host is discovered once: after a discovery step has found or created the host of a
  printable name, a later step with the same name finds the same object, inserts nothing and only
  may raise its discovery source.\<close>

theorem host_discovered_once:
  assumes "db_inv db" and "phys_inv db" and "fresh_addresses db" and "next_id db < 2 ^ 63 - 4"
    and "normalize_entity_name hname = hname" and "physical_host hname src db = (Inr a, db')"
  shows "physical_host hname src' db' =
    (Inr a, db'\<lparr>host_objs := obj_update a (upgrade_source src') (host_objs db')\<rparr>)"
proof -
  have rd: "discovery_ready db" "room 4 db" using assms by (simp_all add: discovery_ready_def room_def)
  have "owned (host_objs db') e_id (hosts db')"
    using physical_host_ready [OF rd _ assms(6)] by (simp add: discovery_ready_def db_invD(1))
  then show ?thesis
    using physical_host_again [OF rd _ assms(5,6)] physical_host_found by fastforce
qed

theorem host_discovered_once_witness:
  "\<exists>a db'. physical_host ''h'' DISCOVERY_SOURCE (new_database :: unit database) = (Inr a, db') \<and>
     physical_host ''h'' PROXY_SOURCE db' =
       (Inr a, db'\<lparr>host_objs := obj_update a (upgrade_source PROXY_SOURCE) (host_objs db')\<rparr>)"
proof -
  obtain r db' where run: "physical_host ''h'' DISCOVERY_SOURCE (new_database :: unit database) = (r, db')"
    by fastforce
  have n: "normalize_entity_name ''h'' = ''h''" by (simp add: normalize_entity_name_def printable_def)
  have "r = Inr 0"
    using run by (auto simp: physical_host_def named_def alloc_host_def free_host_def insert_eval
      entity_constructor_defs host_checks_def each_def n new_database_def)
  moreover have "phys_inv (new_database :: unit database)"
    by (simp add: phys_inv_def phys_owned_def phys_links_def phys_activity_def linked_def
      mirrors_except_def has_parent_def owned_def owned_in_def keys_in_def entries_in_def new_database_def)
  moreover have "fresh_addresses (new_database :: unit database)" "next_id (new_database :: unit database) < 2 ^ 63 - 4"
    by (simp_all add: fresh_addresses_def new_database_def)
  ultimately show ?thesis
    using host_discovered_once [OF new_database_inv _ _ _ n, of DISCOVERY_SOURCE 0 db' PROXY_SOURCE] run by blast
qed

lemma normalize_example: "normalize_entity_name [CHR 0xE9, CHR ''h''] = ''h''"
  by (simp add: normalize_entity_name_def printable_def)

text \<open>Two participants of one host whose name has a character outside the printable ASCII range:
  the second discovery looks the received name up, but the entity was stored under the normalized
  name, so the lookup misses, the insertion finds the normalized name taken, and the second discovery
  ends in \<open>BadParameter\<close> instead of finding the host.\<close>

theorem unprintable_host_not_found_again:
  "fst (physical_host [CHR 0xE9, CHR ''h''] src new_database) = Inr 0 \<and>
   fst (physical_host [CHR 0xE9, CHR ''h''] src
         (snd (physical_host [CHR 0xE9, CHR ''h''] src new_database))) =
     Inl (BadParameter ''Host with name h already exists in the database'')"
  by (simp add: physical_host_def named_def alloc_host_def free_host_def insert_eval
      entity_constructor_defs host_checks_def each_def normalize_example new_database_def)

end
