(* ===== verification/QueueData.thy ===== *)
theory QueueData
  imports DbSampleInv DbPhysical
begin

text \<open>
  Processing the statistics reports: \<open>DatabaseDataQueue<Data>::process_sample\<close> with the overloads of
  \<open>process_sample_type\<close> (\<open>database_queue.cpp\<close>) and the \<open>deserialize_*\<close> helpers
  (\<open>database_queue.hpp\<close>). The calls of \<open>on_data_available\<close> are the events \<open>DataAvailable\<close>. Between the
  lookup of the entities and the insertion of the sample nothing else runs here: the interleaving with
  the other threads that use the database is not part of this model.
\<close>

section \<open>Fast DDS\<close>

text \<open>
  What the queues use of Fast DDS: printing a GUID, a locator and an entity identifier, the value of a sequence number and
  the classification of an entity identifier.
\<close>

record fastdds =
  show_guid :: "GUID_s \<Rightarrow> string"
  show_locator :: "Locator_s \<Rightarrow> string"
  show_entity_id :: "octet list \<Rightarrow> string"
  to64long :: "32 word \<Rightarrow> 32 word \<Rightarrow> 64 word"
  participant_entity_id :: "octet list"
  is_reader :: "octet list \<Rightarrow> bool"
  is_writer :: "octet list \<Rightarrow> bool"

section \<open>The reports\<close>

text \<open>The \<open>float\<close> of a report is one of the values of \<open>double\<close>; storing it widens it without change.\<close>

record WriterReaderData =
  wr_reader_guid :: GUID_s
  wr_writer_guid :: GUID_s
  wr_data :: double

record Locator2LocatorData =
  ll_src_locator :: Locator_s
  ll_dst_locator :: Locator_s
  ll_data :: double

record EntityData =
  ed_guid :: GUID_s
  ed_data :: double

record Entity2LocatorTraffic =
  tr_src_guid :: GUID_s
  tr_dst_locator :: Locator_s
  packet_count :: "64 word"
  traffic_byte_count :: "64 word"
  byte_magnitude_order :: "16 word"

record EntityCount =
  ec_guid :: GUID_s
  ec_count :: "64 word"

record DiscoveryTimeData =
  dt_local_participant_guid :: GUID_s
  dt_remote_entity_guid :: GUID_s
  dt_time :: "64 word"

record SampleIdentityCount =
  si_writer_guid :: GUID_s
  si_high :: "32 word"
  si_low :: "32 word"
  si_count :: "64 word"

text \<open>
  The union \<open>Data\<close> with its discriminator: the generated class keeps the discriminator and the member
  in agreement.
\<close>

datatype Data =
    HISTORY2HISTORY_LATENCY_EVENT WriterReaderData
  | NETWORK_LATENCY_EVENT Locator2LocatorData
  | PUBLICATION_THROUGHPUT_EVENT EntityData
  | SUBSCRIPTION_THROUGHPUT_EVENT EntityData
  | RTPS_SENT_EVENT Entity2LocatorTraffic
  | RTPS_LOST_EVENT Entity2LocatorTraffic
  | RESENT_DATAS_EVENT EntityCount
  | HEARTBEAT_COUNT_EVENT EntityCount
  | ACKNACK_COUNT_EVENT EntityCount
  | NACKFRAG_COUNT_EVENT EntityCount
  | GAP_COUNT_EVENT EntityCount
  | DATA_COUNT_EVENT EntityCount
  | PDP_PACKETS_EVENT EntityCount
  | EDP_PACKETS_EVENT EntityCount
  | DISCOVERED_ENTITY_EVENT DiscoveryTimeData
  | SAMPLE_DATAS_EVENT SampleIdentityCount
  | PHYSICAL_DATA_EVENT

section \<open>Deserialization\<close>

definition deserialize_guid :: "fastdds \<Rightarrow> GUID_s \<Rightarrow> string" where
  "deserialize_guid f g = show_guid f g"

text \<open>A GUID in the address of a locator: twelve octets of prefix, four of entity identifier.\<close>

definition deserialize_locator_guid :: "fastdds \<Rightarrow> Locator_s \<Rightarrow> string result" where
  "deserialize_locator_guid f l =
     (if locator_port l \<noteq> 0 then Inl (Error ''Wrong format: src_locator.port must be 0'')
      else Inr (show_guid f \<lparr>guid_prefix = take 12 (locator_address l),
                  guid_entity = take 4 (drop 12 (locator_address l))\<rparr>))"

definition deserialize_locator :: "fastdds \<Rightarrow> Locator_s \<Rightarrow> string" where
  "deserialize_locator f l = show_locator f l"

definition deserialize_sequence_number :: "fastdds \<Rightarrow> SampleIdentityCount \<Rightarrow> 64 word" where
  "deserialize_sequence_number f x = to64long f (si_high x) (si_low x)"

definition deserialize_sample_identity :: "fastdds \<Rightarrow> SampleIdentityCount \<Rightarrow> string \<times> 64 word" where
  "deserialize_sample_identity f x = (deserialize_guid f (si_writer_guid x), deserialize_sequence_number f x)"

text \<open>A clock with a resolution of one nanosecond; the unsigned argument becomes a signed count.\<close>

definition nanoseconds_to_systemclock :: "64 word \<Rightarrow> Timestamp" where
  "nanoseconds_to_systemclock t = sint t"

section \<open>Finding the entities of a report\<close>

text \<open>\<open>try { get_entity_by_guid } catch (BadParameter&) { throw Error }\<close>.\<close>

definition lookup_entity :: "string \<Rightarrow> EntityKind \<Rightarrow> string \<Rightarrow> ('q, EntityId \<times> EntityId) action" where
  "lookup_entity what k g db =
     (case get_entity_by_guid_nts k g db of
        Inr p \<Rightarrow> (Inr p, db)
      | Inl (BadParameter s) \<Rightarrow> (Inl (Error (what @ '' '' @ g @ '' not found'')), db)
      | Inl e \<Rightarrow> (Inl e, db))"

text \<open>
  \<open>Database::insert\<close> of a locator that is not in the database yet; the new object is released when
  the insertion throws.
\<close>

definition get_or_create_locator :: "string \<Rightarrow> ('q, EntityId) action" where
  "get_or_create_locator n db =
     (case get_entities_by_name_nts LOCATOR n db of
        Inl e \<Rightarrow> (Inl e, db)
      | Inr (p # ps) \<Rightarrow> (Inr (snd p), db)
      | Inr [] \<Rightarrow>
          (let a = next_addr db;
               db = db\<lparr>next_addr := Suc a, locator_objs := (locator_objs db)(a \<mapsto> new_locator n)\<rparr>
           in case insert_locator a invalid_id db of
               (Inl e, db) \<Rightarrow> (Inl e, db\<lparr>locator_objs := (locator_objs db)(a := None)\<rparr>)
             | (Inr j, db) \<Rightarrow> (Inr j, emit (PhysicalDiscovery j LOCATOR DISCOVERY) db)))"

text \<open>
  The overloads of \<open>process_sample_type\<close>: the domain, the entity and the sample, whose fields of the
  base class (\<open>kind\<close>, \<open>src_ts\<close>) are those of the argument.
\<close>

definition history_latency_type ::
  "fastdds \<Rightarrow> EntityKind \<Rightarrow> StatisticsSample \<Rightarrow> WriterReaderData \<Rightarrow>
   ('q, EntityId \<times> EntityId \<times> HistoryLatencySample) action" where
  "history_latency_type f k s x =
     act_bind (lookup_entity ''Reader'' DATAREADER (deserialize_guid f (wr_reader_guid x))) (\<lambda>(_, r).
     act_bind (lookup_entity ''Entity'' k (deserialize_guid f (wr_writer_guid x))) (\<lambda>(d, e).
       act_return (d, e, \<lparr>sample_kind = sample_kind s, src_ts = src_ts s, sample_data = wr_data x,
         latency_reader = r\<rparr>)))"

text \<open>Here the exception of \<open>get_entity_by_guid\<close> is let through.\<close>

definition network_latency_type ::
  "fastdds \<Rightarrow> EntityKind \<Rightarrow> StatisticsSample \<Rightarrow> Locator2LocatorData \<Rightarrow>
   ('q, EntityId \<times> EntityId \<times> NetworkLatencySample) action" where
  "network_latency_type f k s x =
     act_bind (get_or_create_locator (deserialize_locator f (ll_dst_locator x))) (\<lambda>l db.
       case deserialize_locator_guid f (ll_src_locator x) of
         Inl e \<Rightarrow> (Inl e, db)
       | Inr g \<Rightarrow>
           (case get_entity_by_guid_nts k g db of
              Inl e \<Rightarrow> (Inl e, db)
            | Inr (d, e) \<Rightarrow> (Inr (d, e, \<lparr>sample_kind = sample_kind s, src_ts = src_ts s,
                sample_data = ll_data x, latency_remote_locator = l\<rparr>), db)))"

definition entity_data_type ::
  "fastdds \<Rightarrow> EntityKind \<Rightarrow> StatisticsSample \<Rightarrow> EntityData \<Rightarrow> ('q, EntityId \<times> EntityId \<times> EntityDataSample) action"
  where
  "entity_data_type f k s x =
     act_bind (lookup_entity ''Entity'' k (deserialize_guid f (ed_guid x))) (\<lambda>(d, e).
       act_return (d, e, \<lparr>sample_kind = sample_kind s, src_ts = src_ts s, sample_data = ed_data x\<rparr>))"

definition packets_type ::
  "fastdds \<Rightarrow> EntityKind \<Rightarrow> StatisticsSample \<Rightarrow> Entity2LocatorTraffic \<Rightarrow>
   ('q, EntityId \<times> EntityId \<times> EntityToLocatorCountSample) action" where
  "packets_type f k s x =
     act_bind (get_or_create_locator (deserialize_locator f (tr_dst_locator x))) (\<lambda>l.
     act_bind (lookup_entity ''Entity'' k (deserialize_guid f (tr_src_guid x))) (\<lambda>(d, e).
       act_return (d, e, \<lparr>sample_kind = sample_kind s, src_ts = src_ts s, sample_count = packet_count x,
         count_remote_locator = l\<rparr>)))"

definition bytes_type ::
  "fastdds \<Rightarrow> EntityKind \<Rightarrow> StatisticsSample \<Rightarrow> Entity2LocatorTraffic \<Rightarrow>
   ('q, EntityId \<times> EntityId \<times> ByteToLocatorCountSample) action" where
  "bytes_type f k s x =
     act_bind (get_or_create_locator (deserialize_locator f (tr_dst_locator x))) (\<lambda>l.
     act_bind (lookup_entity ''Entity'' k (deserialize_guid f (tr_src_guid x))) (\<lambda>(d, e).
       act_return (d, e, \<lparr>sample_kind = sample_kind s, src_ts = src_ts s, byte_count = traffic_byte_count x,
         magnitude_order = byte_magnitude_order x, byte_remote_locator = l\<rparr>)))"

definition entity_count_type ::
  "fastdds \<Rightarrow> EntityKind \<Rightarrow> StatisticsSample \<Rightarrow> EntityCount \<Rightarrow> ('q, EntityId \<times> EntityId \<times> EntityCountSample) action"
  where
  "entity_count_type f k s x =
     act_bind (lookup_entity ''Entity'' k (deserialize_guid f (ec_guid x))) (\<lambda>(d, e).
       act_return (d, e, \<lparr>sample_kind = sample_kind s, src_ts = src_ts s, sample_count = ec_count x\<rparr>))"

definition discovery_time_type ::
  "fastdds \<Rightarrow> EntityKind \<Rightarrow> StatisticsSample \<Rightarrow> DiscoveryTimeData \<Rightarrow>
   ('q, EntityId \<times> EntityId \<times> DiscoveryTimeSample) action" where
  "discovery_time_type f k s x =
     act_bind (lookup_entity ''Remote entity'' k (deserialize_guid f (dt_remote_entity_guid x))) (\<lambda>(_, r).
     act_bind (lookup_entity ''Entity'' k (deserialize_guid f (dt_local_participant_guid x))) (\<lambda>(d, e).
       act_return (d, e, \<lparr>sample_kind = sample_kind s, src_ts = src_ts s,
         sample_time = nanoseconds_to_systemclock (dt_time x), remote_entity = r, discovered = False\<rparr>)))"

definition sample_datas_type ::
  "fastdds \<Rightarrow> EntityKind \<Rightarrow> StatisticsSample \<Rightarrow> SampleIdentityCount \<Rightarrow>
   ('q, EntityId \<times> EntityId \<times> SampleDatasCountSample) action" where
  "sample_datas_type f k s x =
     (let (g, n) = deserialize_sample_identity f x
      in act_bind (lookup_entity ''Entity'' k g) (\<lambda>(d, e).
           act_return (d, e, \<lparr>sample_kind = sample_kind s, src_ts = src_ts s, sample_count = si_count x,
             sequence_number = n\<rparr>)))"

section \<open>Processing a report\<close>

text \<open>\<open>catch (const eprosima::statistics_backend::Exception&)\<close>: the failure is logged.\<close>

definition try_catch :: "('q, unit) action \<Rightarrow> ('q, unit) action" where
  "try_catch m db =
     (case m db of
        (Inl e, db') \<Rightarrow> if is_backend_exception e then (Inr (), db') else (Inl e, db')
      | (Inr u, db') \<Rightarrow> (Inr u, db'))"

definition announce :: "EntityId \<Rightarrow> EntityId \<Rightarrow> DataKind \<Rightarrow> ('q, unit) action" where
  "announce d e k db = (Inr (), emit (DataAvailable d e k) db)"

text \<open>The shape of a case: find the entities, insert the sample, announce it; all in one \<open>try\<close>.\<close>

definition store_report ::
  "(AlertId \<Rightarrow> Timestamp \<times> Timestamp \<times> Timestamp) \<Rightarrow> ('q, EntityId \<times> EntityId \<times> 's) action \<Rightarrow>
   ('s \<Rightarrow> sample_object) \<Rightarrow> DataKind list \<Rightarrow> ('q, unit) action" where
  "store_report clock look wrap ks =
     try_catch (act_bind look (\<lambda>(d, e, s).
       act_bind (insert_sample clock d e (wrap s) False False) (\<lambda>_.
         fold (\<lambda>k m. act_bind m (\<lambda>_. announce d e k)) ks (act_return ()))))"

definition process_traffic ::
  "fastdds \<Rightarrow> (AlertId \<Rightarrow> Timestamp \<times> Timestamp \<times> Timestamp) \<Rightarrow> Timestamp \<Rightarrow> Entity2LocatorTraffic \<Rightarrow>
   DataKind \<Rightarrow> (EntityToLocatorCountSample \<Rightarrow> sample_object) \<Rightarrow> DataKind \<Rightarrow>
   (ByteToLocatorCountSample \<Rightarrow> sample_object) \<Rightarrow> ('q, unit) action" where
  "process_traffic f clock ts x pk pwrap bk bwrap =
     act_bind (store_report clock (packets_type f DATAWRITER \<lparr>sample_kind = pk, src_ts = ts\<rparr> x) pwrap []) (\<lambda>_.
       store_report clock (bytes_type f DATAWRITER \<lparr>sample_kind = bk, src_ts = ts\<rparr> x) bwrap [pk, bk])"

definition process_data_sample ::
  "fastdds \<Rightarrow> (AlertId \<Rightarrow> Timestamp \<times> Timestamp \<times> Timestamp) \<Rightarrow> Timestamp \<Rightarrow> Data \<Rightarrow> ('q, unit) action" where
  "process_data_sample f clock ts item =
     (let new = (\<lambda>k. \<lparr>sample_kind = k, src_ts = ts\<rparr>);
          count = (\<lambda>k wrap dk x. store_report clock (entity_count_type f k (new dk) x) wrap [dk])
      in case item of
           HISTORY2HISTORY_LATENCY_EVENT x \<Rightarrow> store_report clock
             (history_latency_type f DATAWRITER (new FASTDDS_LATENCY) x) HistoryLatency [FASTDDS_LATENCY]
         | NETWORK_LATENCY_EVENT x \<Rightarrow> store_report clock
             (network_latency_type f PARTICIPANT (new NETWORK_LATENCY) x) NetworkLatency [NETWORK_LATENCY]
         | PUBLICATION_THROUGHPUT_EVENT x \<Rightarrow> store_report clock
             (entity_data_type f DATAWRITER (new PUBLICATION_THROUGHPUT) x) PublicationThroughput
             [PUBLICATION_THROUGHPUT]
         | SUBSCRIPTION_THROUGHPUT_EVENT x \<Rightarrow> store_report clock
             (entity_data_type f DATAREADER (new SUBSCRIPTION_THROUGHPUT) x) SubscriptionThroughput
             [SUBSCRIPTION_THROUGHPUT]
         | RTPS_SENT_EVENT x \<Rightarrow>
             process_traffic f clock ts x RTPS_PACKETS_SENT RtpsPacketsSent RTPS_BYTES_SENT RtpsBytesSent
         | RTPS_LOST_EVENT x \<Rightarrow>
             process_traffic f clock ts x RTPS_PACKETS_LOST RtpsPacketsLost RTPS_BYTES_LOST RtpsBytesLost
         | RESENT_DATAS_EVENT x \<Rightarrow> count DATAWRITER ResentData RESENT_DATA x
         | HEARTBEAT_COUNT_EVENT x \<Rightarrow> count DATAWRITER HeartbeatCount HEARTBEAT_COUNT x
         | ACKNACK_COUNT_EVENT x \<Rightarrow> count DATAREADER AcknackCount ACKNACK_COUNT x
         | NACKFRAG_COUNT_EVENT x \<Rightarrow> count DATAREADER NackfragCount NACKFRAG_COUNT x
         | GAP_COUNT_EVENT x \<Rightarrow> count DATAWRITER GapCount GAP_COUNT x
         | DATA_COUNT_EVENT x \<Rightarrow> count DATAWRITER DataCount DATA_COUNT x
         | PDP_PACKETS_EVENT x \<Rightarrow> count PARTICIPANT PdpCount PDP_PACKETS x
         | EDP_PACKETS_EVENT x \<Rightarrow> count PARTICIPANT EdpCount EDP_PACKETS x
         | DISCOVERED_ENTITY_EVENT x \<Rightarrow> store_report clock
             (discovery_time_type f PARTICIPANT (new DISCOVERY_TIME) x) DiscoveryTime [DISCOVERY_TIME]
         | SAMPLE_DATAS_EVENT x \<Rightarrow> store_report clock
             (sample_datas_type f DATAWRITER (new SAMPLE_DATAS) x) SampleDatas [SAMPLE_DATAS]
         | PHYSICAL_DATA_EVENT \<Rightarrow> act_return ())"

section \<open>What the insertions leave alone\<close>

text \<open>The events an insertion may add: discovered locators and triggered alerts.\<close>

fun insertion_event :: "event \<Rightarrow> bool" where
  "insertion_event (PhysicalDiscovery i k ds) = True"
| "insertion_event (AlertTriggered d e a x) = True"
| "insertion_event _ = False"

definition steady :: "'q database \<Rightarrow> 'q database \<Rightarrow> bool" where
  "steady db db' \<longleftrightarrow> next_id db' = next_id db \<and> next_addr db' = next_addr db \<and>
     locator_objs db' = locator_objs db \<and> locators db' = locators db \<and> participants db' = participants db \<and>
     datareaders db' = datareaders db \<and> datawriters db' = datawriters db \<and>
     (\<forall>a. map_option guid (participant_objs db' a) = map_option guid (participant_objs db a)) \<and>
     (\<forall>a. map_option guid (reader_objs db' a) = map_option guid (reader_objs db a)) \<and>
     (\<forall>a. map_option guid (writer_objs db' a) = map_option guid (writer_objs db a)) \<and>
     (\<exists>new. events db' = events db @ new \<and> list_all insertion_event new)"

lemma steady_refl [simp]: "steady db db"
  by (simp add: steady_def)

lemma steady_trans: "steady db db1 \<Longrightarrow> steady db1 db2 \<Longrightarrow> steady db db2"
  unfolding steady_def by fastforce

lemma steady_data [simp]:
  "steady db (set_participant_data a f db)" "steady db (set_reader_data a g db)"
  "steady db (set_writer_data a h db)"
  by (auto simp: steady_def set_participant_data_def set_reader_data_def set_writer_data_def obj_update_apply
      option.map_comp comp_def)

lemma steady_trigger [simp]: "steady db (snd (trigger_alerts_of_kind_nts clock d i e k v ob db))"
  by (auto simp: steady_def trigger_alerts_of_kind_nts_def split_beta list_all_iff)

lemma steady_on_entity:
  "(\<And>a x. steady db (snd (f a x db))) \<Longrightarrow> steady db (snd (on_entity what mm h d i f db))"
  by (simp add: on_entity_def split: option.split)

text \<open>How the insertion of a sample of a kind other than the traffic can end.\<close>

definition clean :: "unit result \<times> 'q database \<Rightarrow> bool" where
  "clean rd \<longleftrightarrow> fst rd = Inr () \<or> fst rd = Inl expired_reference \<or> fst rd = Inl UndefinedBehaviour \<or>
     (\<exists>s. fst rd = Inl (BadParameter s))"

lemma known_owned:
  assumes "owned_in h e_id mm" and "known mm d i = Some a"
  shows "\<exists>x. h a = Some x"
proof -
  obtain m where m: "om_find mm d = Some m" "om_find m i = Some a"
    using assms(2) by (auto simp: known_def split: option.splits)
  have "owned h e_id m" using assms(1) map_of_SomeD [OF m(1)] by (auto simp: owned_in_def)
  from owned_find [OF this map_of_SomeD [OF m(2)]] show ?thesis by blast
qed

lemma on_entity_clean:
  assumes "owned_in h e_id mm" and "\<And>a x. h a = Some x \<Longrightarrow> clean (f a x db)"
  shows "clean (on_entity what mm h d i f db)"
  using known_owned [OF assms(1)] assms(2)
  by (fastforce simp: on_entity_def clean_def not_known_def split: option.split)

lemma trigger_clean: "clean (trigger_alerts_of_kind_nts clock d i e k v ob db)"
  using trigger_result [of clock d i e k v ob db] by (auto simp: clean_def)

lemma clean_Inr [simp]: "clean (Inr u, db)" "clean (Inl UndefinedBehaviour, db)"
  by (simp_all add: clean_def)

lemma rejects_result:
  "map_rejects l r ts k m = Inl e \<Longrightarrow> e = UndefinedBehaviour"
  "push_keyed k s m' = Inl e \<Longrightarrow> e = UndefinedBehaviour"
  by (auto simp: push_keyed_def map_rejects_def bind_result_def split: sum.splits option.splits list.splits if_splits)

lemma plain_clean:
  assumes "db_inv db"
  shows "clean (insert_fastdds_latency s1 d i db)" "clean (insert_network_latency s2 d i db)"
    "clean (insert_discovery_time s3 d i db)" "clean (insert_sample_datas s4 d i db)"
    "clean (insert_publication_throughput s5 d i db)"
    "clean (insert_subscription_throughput clock s5 d i db)"
    "clean (insert_writer_count gw pw l r s6 d i db)" "clean (insert_reader_count gr pr l r s6 d i db)"
    "clean (insert_participant_count gp pp l r s6 d i db)" "clean (insert_data_count clock l r s6 d i db)"
  unfolding insert_publication_throughput_def insert_subscription_throughput_def insert_writer_count_def
    insert_reader_count_def insert_participant_count_def insert_data_count_def insert_fastdds_latency_def
    insert_network_latency_def insert_discovery_time_def insert_sample_datas_def
  by (auto intro!: on_entity_clean db_invD(7-9) [OF assms] trigger_clean dest!: rejects_result
      split: sum.split option.split bool.split)

lemma plain_steady:
  "steady db (snd (insert_fastdds_latency s1 d i db))" "steady db (snd (insert_network_latency s2 d i db))"
  "steady db (snd (insert_discovery_time s3 d i db))" "steady db (snd (insert_sample_datas s4 d i db))"
  "steady db (snd (insert_publication_throughput s5 d i db))"
  "steady db (snd (insert_subscription_throughput clock s5 d i db))"
  "steady db (snd (insert_writer_count gw pw l r s6 d i db))" "steady db (snd (insert_reader_count gr pr l r s6 d i db))"
  "steady db (snd (insert_participant_count gp pp l r s6 d i db))" "steady db (snd (insert_data_count clock l r s6 d i db))"
  unfolding insert_publication_throughput_def insert_subscription_throughput_def insert_writer_count_def
    insert_reader_count_def insert_participant_count_def insert_data_count_def insert_fastdds_latency_def
    insert_network_latency_def insert_discovery_time_def insert_sample_datas_def
  by (auto intro!: steady_on_entity split: sum.split option.split bool.split prod.split
      intro: steady_trans [OF steady_data(2) steady_trigger] steady_trans [OF steady_data(3) steady_trigger])

text \<open>The samples the queue builds for the kinds that carry no remote locator of traffic.\<close>

fun plain_sample :: "sample_object \<Rightarrow> bool" where
  "plain_sample (HistoryLatency s) = (sample_kind s = FASTDDS_LATENCY)"
| "plain_sample (NetworkLatency s) = (sample_kind s = NETWORK_LATENCY)"
| "plain_sample (PublicationThroughput s) = (sample_kind s = PUBLICATION_THROUGHPUT)"
| "plain_sample (SubscriptionThroughput s) = (sample_kind s = SUBSCRIPTION_THROUGHPUT)"
| "plain_sample (ResentData s) = (sample_kind s = RESENT_DATA)"
| "plain_sample (HeartbeatCount s) = (sample_kind s = HEARTBEAT_COUNT)"
| "plain_sample (AcknackCount s) = (sample_kind s = ACKNACK_COUNT)"
| "plain_sample (NackfragCount s) = (sample_kind s = NACKFRAG_COUNT)"
| "plain_sample (GapCount s) = (sample_kind s = GAP_COUNT)"
| "plain_sample (DataCount s) = (sample_kind s = DATA_COUNT)"
| "plain_sample (PdpCount s) = (sample_kind s = PDP_PACKETS)"
| "plain_sample (EdpCount s) = (sample_kind s = EDP_PACKETS)"
| "plain_sample (DiscoveryTime s) = (sample_kind s = DISCOVERY_TIME)"
| "plain_sample (SampleDatas s) = (sample_kind s = SAMPLE_DATAS)"
| "plain_sample _ = False"

definition stored_well :: "'q database \<Rightarrow> unit result \<times> 'q database \<Rightarrow> bool" where
  "stored_well db rd \<longleftrightarrow>
     (fst rd = Inr () \<or> (\<exists>e. fst rd = Inl e \<and> is_backend_exception e)) \<and> steady db (snd rd) \<and>
     samples_wf (snd rd) \<and> kept db (snd rd)"

lemma plain_stored_well:
  assumes "db_inv db" and "samples_wf db" and "plain_sample ob"
  shows "stored_well db (insert_sample clock d i ob False False db)"
proof -
  let ?rd = "insert_sample clock d i ob False False db"
  note C = insert_resent_datas_def insert_heartbeat_count_def insert_gap_count_def insert_acknack_count_def
    insert_nackfrag_count_def insert_pdp_packets_def insert_edp_packets_def
  have "clean ?rd"
    using assms(3) by (cases ob) (simp_all add: insert_sample_def Let_def C plain_clean [OF assms(1)], simp_all add: clean_def)
  moreover have "sample_effect db ?rd" by (rule insert_sample_effect [OF assms(2)])
  moreover have "steady db (snd ?rd)"
    using assms(3) by (cases ob) (simp_all add: insert_sample_def Let_def C plain_steady)
  moreover have "kept db (snd ?rd)"
    using assms(3) by (intro insert_sample_kept [OF assms(1)]) (cases ob; simp)
  ultimately show ?thesis
    by (auto simp: stored_well_def clean_def sample_effect_def expired_reference_def)
qed

section \<open>One step of the queue\<close>

definition fresh_locators :: "'q database \<Rightarrow> bool" where
  "fresh_locators db \<longleftrightarrow> (\<forall>a \<ge> next_addr db. locator_objs db a = None)"

definition report_ready :: "'q database \<Rightarrow> bool" where
  "report_ready db \<longleftrightarrow> db_inv db \<and> samples_wf db \<and> fresh_locators db"

text \<open>
  What a part of the processing may do to the database, when it creates at most \<open>n\<close> locators:
  \<open>evs\<close> are the events it adds.
\<close>

definition processed :: "int \<Rightarrow> event list \<Rightarrow> 'q database \<Rightarrow> 'q database \<Rightarrow> bool" where
  "processed n evs db db' \<longleftrightarrow> report_ready db' \<and> kept db db' \<and>
     next_id db \<le> next_id db' \<and> next_id db' \<le> next_id db + n \<and>
     (\<forall>k g. get_entity_by_guid_nts k g db' = get_entity_by_guid_nts k g db) \<and>
     events db' = events db @ evs"

lemma processed_refl: "report_ready db \<Longrightarrow> processed 0 [] db db"
  by (simp add: processed_def report_ready_def)

lemma processed_trans:
  "processed m evs db db1 \<Longrightarrow> processed n evs' db1 db2 \<Longrightarrow> processed (m + n) (evs @ evs') db db2"
  by (auto simp: processed_def intro: kept_trans)

lemma processed_mono: "processed m evs db db' \<Longrightarrow> m \<le> n \<Longrightarrow> processed n evs db db'"
  by (auto simp: processed_def)

lemma processed_ready: "processed n evs db db' \<Longrightarrow> report_ready db'"
  by (simp add: processed_def)

text \<open>A search by GUID depends on the GUIDs of the entries only.\<close>

lemma live_guids:
  assumes "\<forall>a. map_option f (h' a) = map_option f (h a)"
  shows "map (\<lambda>(k, a, x). (k, f x)) (live h' m) = map (\<lambda>(k, a, x). (k, f x)) (live h m)"
proof (induction m)
  case Nil
  then show ?case by simp
next
  case (Cons e m)
  obtain k a where e: "e = (k, a)" by (cases e)
  have "map_option f (h' a) = map_option f (h a)" using assms by blast
  then show ?case using Cons e by (cases "h' a"; cases "h a") auto
qed

lemma live_in_guids:
  assumes "\<forall>a. map_option f (h' a) = map_option f (h a)"
  shows "map (\<lambda>(d, k, a, x). (d, k, f x)) (live_in h' mm) = map (\<lambda>(d, k, a, x). (d, k, f x)) (live_in h mm)"
proof -
  have "map (\<lambda>(d, k, a, x). (d, k, f x)) (live_in h'' mm) =
      concat (map (\<lambda>(d, m). map (\<lambda>(k, x). (d, k, x)) (map (\<lambda>(k, a, x). (k, f x)) (live h'' m))) mm)" for h''
    by (simp add: live_in_def map_concat comp_def case_prod_unfold)
  then show ?thesis by (simp only: live_guids [OF assms])
qed

lemma find_guid_alt:
  "find_guid g xs f = map_option (\<lambda>(d, k, y). (d, k))
     (List.find (\<lambda>(d, k, y). y = g) (map (\<lambda>(d, k, a, x). (d, k, f x)) xs))"
  by (induction xs) (auto simp: find_guid_def)

lemma find_guid_same:
  assumes "\<forall>a. map_option f (h' a) = map_option f (h a)"
  shows "find_guid g (live_in h' mm) f = find_guid g (live_in h mm) f"
  by (simp only: find_guid_alt live_in_guids [OF assms])

lemma steady_lookup:
  assumes "steady db db'"
  shows "get_entity_by_guid_nts k g db' = get_entity_by_guid_nts k g db"
proof -
  have "find_guid g (live_in (participant_objs db') (participants db)) guid =
      find_guid g (live_in (participant_objs db) (participants db)) guid"
    "find_guid g (live_in (reader_objs db') (datareaders db)) guid =
      find_guid g (live_in (reader_objs db) (datareaders db)) guid"
    "find_guid g (live_in (writer_objs db') (datawriters db)) guid =
      find_guid g (live_in (writer_objs db) (datawriters db)) guid"
    using assms by (intro find_guid_same; simp add: steady_def)+
  then show ?thesis
    using assms by (cases k) (simp_all add: get_entity_by_guid_nts_def steady_def Let_def)
qed

lemma lookup_frame:
  assumes "participants db' = participants db" "datareaders db' = datareaders db" "datawriters db' = datawriters db"
    and "participant_objs db' = participant_objs db" "reader_objs db' = reader_objs db"
    "writer_objs db' = writer_objs db"
  shows "get_entity_by_guid_nts k g db' = get_entity_by_guid_nts k g db"
  by (cases k) (simp_all add: get_entity_by_guid_nts_def Let_def assms)

lemma insert_processed:
  assumes "report_ready db" and "plain_sample ob"
  shows "\<exists>new. list_all insertion_event new \<and>
    processed 0 new db (snd (insert_sample clock d i ob False False db)) \<and>
    (\<forall>e. fst (insert_sample clock d i ob False False db) = Inl e \<longrightarrow> is_backend_exception e)"
proof -
  have S: "stored_well db (insert_sample clock d i ob False False db)"
    using assms by (intro plain_stored_well) (simp_all add: report_ready_def)
  then obtain new where "list_all insertion_event new"
    "events (snd (insert_sample clock d i ob False False db)) = events db @ new"
    by (auto simp: stored_well_def steady_def)
  then show ?thesis
    using S assms(1) steady_lookup [of db "snd (insert_sample clock d i ob False False db)"]
    by (intro exI [of _ new])
      (auto simp: stored_well_def processed_def report_ready_def steady_def fresh_locators_def kept_def)
qed

lemma get_or_create_processed:
  assumes rd: "report_ready db" and room: "room 2 db" and run: "get_or_create_locator n db = (r, db')"
  shows "\<exists>new. list_all insertion_event new \<and> processed 1 new db db' \<and>
    participant_objs db' = participant_objs db \<and> reader_objs db' = reader_objs db \<and>
    writer_objs db' = writer_objs db \<and> (\<forall>e. r = Inl e \<longrightarrow> is_backend_exception e) \<and>
    (\<forall>l. r = Inr l \<longrightarrow> om_find (locators db') l \<noteq> None)"
proof (cases "named n (live (locator_objs db) (locators db)) e_name")
  case (Cons k ks)
  then have r: "r = Inr k" "db' = db" using run by (simp_all add: get_or_create_locator_def)
  have "k \<in> set (named n (live (locator_objs db) (locators db)) e_name)" using Cons by simp
  then obtain a where "(k, a) \<in> set (locators db)" by (auto simp: named_set)
  then have "om_find (locators db) k \<noteq> None" by (metis domI domIff map_of_eq_None_iff fst_conv image_eqI)
  then show ?thesis
    using processed_mono [OF processed_refl [OF rd], of 1] r by (intro exI [of _ "[]"]) simp
next
  case Nil
  let ?a = "next_addr db"
  let ?db0 = "db\<lparr>next_addr := Suc ?a, locator_objs := (locator_objs db)(?a \<mapsto> new_locator n)\<rparr>"
  have inv: "db_inv db" "samples_wf db" "fresh_locators db" using rd by (simp_all add: report_ready_def)
  have free: "locator_objs db ?a = None" using inv(3) by (simp add: fresh_locators_def)
  note D = db_invD(1-9,12) [OF inv(1)]
  have "db_struct ?db0"
    using D owned_new_object [OF free D(5)] unfolding db_struct_def db_owned_def topic_homes_def by simp
  then have inv0: "db_inv ?db0" by (rule db_inv_same [OF inv(1)]) (simp_all add: entity_ids_def)
  have arg: "id_argument invalid_id ?db0"
    using room by (simp add: id_argument_def room_def)
  obtain r1 db1 where ins: "insert_locator ?a invalid_id ?db0 = (r1, db1)" by fastforce
  have eff: "insertion_effect invalid_id r1 ?db0 db1" by (rule insert_locator_effect [OF inv0 arg ins])
  have w: "wrap64 (next_id db + 1) = next_id db + 1"
    using room db_invD(11) [OF inv(1)] by (intro wrap64_id) (simp add: room_def int64_range_def ids_below_def)
  show ?thesis
  proof (cases r1)
    case (Inl e)
    have d1: "db1 = ?db0\<lparr>locator_objs := obj_update ?a clear_locator (locator_objs ?db0)\<rparr>" and e: "is_backend_exception e"
      using ins Inl by (auto simp: insert_locator_def checked_insert_def Let_def obj_update_apply dest: locator_checks_result
          split: option.splits prod.splits)
    then have "db1\<lparr>locator_objs := (locator_objs db1)(?a := None)\<rparr> = db\<lparr>next_addr := Suc ?a\<rparr>"
      using free by (cases db) (auto simp: obj_update_def)
    then have "r = Inl e" "db' = db\<lparr>next_addr := Suc ?a\<rparr>"
      using run ins Inl Nil by (simp_all add: get_or_create_locator_def Let_def)
    then show ?thesis
      using inv keep_inv(5) [OF inv(1)] e
      by (intro exI [of _ "[]"]) (auto simp: processed_def report_ready_def kept_def fresh_locators_def
          samples_wf_def intro!: lookup_frame)
  next
    case (Inr j)
    have j: "j = EntityId (next_id db)" using eff Inr by (simp add: insertion_effect_def)
    have d1: "db1 = ?db0\<lparr>next_id := next_id db + 1,
        locator_objs := obj_update ?a (\<lambda>x. x\<lparr>e_id := j\<rparr>) (obj_update ?a clear_locator (locator_objs ?db0)),
        locators := om_put j ?a (locators db)\<rparr>"
      using ins Inr w by (auto simp: insert_locator_def checked_insert_def assign_entity_id_def generate_entity_id_def
          Let_def split: option.splits prod.splits if_splits)
    have "r = Inr j" "db' = emit (PhysicalDiscovery j LOCATOR DISCOVERY) db1"
      using run ins Inr Nil by (simp_all add: get_or_create_locator_def Let_def)
    moreover have "db_inv (emit ev db1)" for ev
      using keep_inv(4) [of db1, where al = "db_alerts db1" and ev = "events db1 @ [ev]"] eff by (simp add: emit_def insertion_effect_def)
    moreover have "om_wf (locators db)" using D(5) by (simp add: owned_def)
    ultimately show ?thesis
      using inv unfolding d1
      by (intro exI [of _ "[PhysicalDiscovery j LOCATOR DISCOVERY]"])
        (auto simp: processed_def report_ready_def kept_def fresh_locators_def samples_wf_def
          emit_def om_find_put obj_update_apply intro!: lookup_frame)
  qed
qed

section \<open>The contract of the overloads\<close>

text \<open>
  What \<open>process_sample\<close> relies on: an overload of \<open>process_sample_type\<close> creates at most one locator,
  fails with an exception of the library only, and otherwise returns a sample with the \<open>kind\<close> and
  \<open>src_ts\<close> it was given and the entity that has the reported GUID.
\<close>

definition found_by :: "EntityKind \<Rightarrow> string result \<Rightarrow> 'q database \<Rightarrow> EntityId \<Rightarrow> EntityId \<Rightarrow> bool" where
  "found_by k g db d e \<longleftrightarrow> (\<exists>s. g = Inr s \<and> get_entity_by_guid_nts k s db = Inr (d, e))"

definition same_objects :: "'q database \<Rightarrow> 'q database \<Rightarrow> bool" where
  "same_objects db db' \<longleftrightarrow> participant_objs db' = participant_objs db \<and> reader_objs db' = reader_objs db \<and>
     writer_objs db' = writer_objs db"

lemma same_objects_trans: "same_objects db db1 \<Longrightarrow> same_objects db1 db2 \<Longrightarrow> same_objects db db2"
  by (simp add: same_objects_def)

lemma same_objects_refl [simp]: "same_objects db db"
  by (simp add: same_objects_def)

locale report_lookup =
  fixes look :: "fastdds \<Rightarrow> EntityKind \<Rightarrow> StatisticsSample \<Rightarrow> 'x \<Rightarrow> 'q database \<Rightarrow>
      (EntityId \<times> EntityId \<times> 's) result \<times> 'q database"
    and reported_guid :: "fastdds \<Rightarrow> 'x \<Rightarrow> string result"
    and base :: "'s \<Rightarrow> StatisticsSample"
  assumes look: "report_ready db \<Longrightarrow> room 2 db \<Longrightarrow> look f k s x db = (r, db') \<Longrightarrow>
      \<exists>new. list_all insertion_event new \<and> processed 1 new db db' \<and> same_objects db db' \<and>
        (\<forall>ex. r = Inl ex \<longrightarrow> is_backend_exception ex) \<and>
        (\<forall>d e s'. r = Inr (d, e, s') \<longrightarrow> base s' = s \<and> found_by k (reported_guid f x) db d e)"
begin

lemma stored:
  assumes rd: "report_ready db" and room: "room 2 db" and wrap: "\<And>s'. base s' = s \<Longrightarrow> plain_sample (wrap s')"
    and run: "store_report clock (look f k s x) wrap [dk] db = (r, db')"
  shows "r = Inr () \<and> (\<exists>new. processed 1 new db db' \<and>
    (\<forall>ev \<in> set new. insertion_event ev \<or>
       (\<exists>d e. ev = DataAvailable d e dk \<and> found_by k (reported_guid f x) db d e)))"
proof -
  obtain q db1 where l: "look f k s x db = (q, db1)" by fastforce
  obtain new where new: "list_all insertion_event new" "processed 1 new db db1"
    "\<forall>ex. q = Inl ex \<longrightarrow> is_backend_exception ex"
    "\<forall>d e s'. q = Inr (d, e, s') \<longrightarrow> base s' = s \<and> found_by k (reported_guid f x) db d e"
    using look [OF rd room l] by blast
  show ?thesis
  proof (cases q)
    case (Inl ex)
    then have "r = Inr ()" "db' = db1"
      using run l new(3) by (simp_all add: store_report_def try_catch_def act_bind_def)
    then show ?thesis using new(1,2) by (auto simp: list_all_iff)
  next
    case (Inr y)
    obtain d e s' where y: "y = (d, e, s')" by (cases y)
    have s': "plain_sample (wrap s')" and found: "found_by k (reported_guid f x) db d e"
      using new(4) Inr y wrap by simp_all
    obtain q2 db2 where ins: "insert_sample clock d e (wrap s') False False db1 = (q2, db2)" by fastforce
    obtain new2 where new2: "list_all insertion_event new2" "processed 0 new2 db1 db2"
      "\<forall>ex. q2 = Inl ex \<longrightarrow> is_backend_exception ex"
      using insert_processed [OF processed_ready [OF new(2)] s', of clock d e] by (auto simp: ins)
    note P = processed_trans [OF new(2) new2(2)]
    show ?thesis
    proof (cases q2)
      case (Inl ex)
      then have "r = Inr ()" "db' = db2"
        using run l Inr y ins new2(3)
        by (simp_all add: store_report_def try_catch_def act_bind_def)
      then show ?thesis using P new(1) new2(1) by (intro conjI exI [of _ "new @ new2"]) (auto simp: list_all_iff)
    next
      case (Inr u)
      have "r = Inr ()" "db' = emit (DataAvailable d e dk) db2"
        using run l \<open>q = Inr y\<close> y ins Inr
        by (simp_all add: store_report_def try_catch_def act_bind_def act_return_def announce_def)
      moreover have "processed 0 [DataAvailable d e dk] db2 (emit (DataAvailable d e dk) db2)"
      proof -
        have r2: "report_ready db2" by (rule processed_ready [OF new2(2)])
        then have "db_inv (emit (DataAvailable d e dk) db2)"
          using keep_inv(4) [of db2, where al = "db_alerts db2" and ev = "events db2 @ [DataAvailable d e dk]"]
          by (simp add: emit_def report_ready_def)
        then show ?thesis
          using r2 by (auto simp: processed_def report_ready_def kept_def samples_wf_def fresh_locators_def emit_def
              intro!: lookup_frame)
      qed
      ultimately show ?thesis
        using processed_trans [OF P, of 0 "[DataAvailable d e dk]"] new(1) new2(1) found
        by (intro conjI exI [of _ "(new @ new2) @ [DataAvailable d e dk]"]) (auto simp: list_all_iff)
    qed
  qed
qed

text \<open>A report whose insertion is refused leaves no trace but the locator.\<close>

lemma refused:
  assumes rd: "report_ready db" and room: "room 2 db"
    and no: "\<And>d e s' (db1 :: 'q database). report_ready db1 \<Longrightarrow> base s' = s \<Longrightarrow> found_by k (reported_guid f x) db1 d e \<Longrightarrow>
      \<exists>m. insert_sample clock d e (wrap s') False False db1 = (Inl (BadParameter m), db1)"
    and run: "store_report clock (look f k s x) wrap dks db = (r, db')"
  shows "r = Inr () \<and> same_objects db db' \<and> (\<exists>new. list_all insertion_event new \<and> processed 1 new db db')"
proof -
  obtain q db1 where l: "look f k s x db = (q, db1)" by fastforce
  obtain new where new: "list_all insertion_event new" "processed 1 new db db1" "same_objects db db1"
    "\<forall>ex. q = Inl ex \<longrightarrow> is_backend_exception ex"
    "\<forall>d e s'. q = Inr (d, e, s') \<longrightarrow> base s' = s \<and> found_by k (reported_guid f x) db d e"
    using look [OF rd room l] by blast
  have "r = Inr () \<and> db' = db1"
  proof (cases q)
    case (Inl ex)
    then show ?thesis using run l new(4) by (simp add: store_report_def try_catch_def act_bind_def)
  next
    case (Inr y)
    obtain d e s' where y: "y = (d, e, s')" by (cases y)
    have "found_by k (reported_guid f x) db1 d e" "base s' = s"
      using new(5) Inr y new(2) by (auto simp: found_by_def processed_def)
    then obtain m where "insert_sample clock d e (wrap s') False False db1 = (Inl (BadParameter m), db1)"
      using no processed_ready [OF new(2)] by blast
    then show ?thesis using run l Inr y by (simp add: store_report_def try_catch_def act_bind_def)
  qed
  then show ?thesis using new by blast
qed

end

lemma guid_error: "get_entity_by_guid_nts k g db = Inl e \<Longrightarrow> \<exists>s. e = BadParameter s"
  by (cases k) (auto simp: get_entity_by_guid_nts_def Let_def no_such_guid_def split: option.splits)

lemma lookup_entity_cases:
  assumes "lookup_entity what k g db = (r, db')"
  shows "db' = db \<and> (\<forall>ex. r = Inl ex \<longrightarrow> is_backend_exception ex) \<and>
    (\<forall>p. r = Inr p \<longrightarrow> get_entity_by_guid_nts k g db = Inr p)"
  using assms guid_error [of k g db] by (auto simp: lookup_entity_def split: sum.splits)

lemma act_bind_pure:
  "act_bind m f db = (r, db') \<Longrightarrow> snd (m db) = db \<Longrightarrow>
     (\<exists>e. fst (m db) = Inl e \<and> r = Inl e \<and> db' = db) \<or> (\<exists>x. fst (m db) = Inr x \<and> f x db = (r, db'))"
  by (auto simp: act_bind_def split: prod.splits sum.splits)

text \<open>The overloads that only look entities up.\<close>

definition pure_lookup :: "'q database \<Rightarrow> (EntityId \<times> EntityId \<times> 's) result \<times> 'q database \<Rightarrow>
    ('s \<Rightarrow> StatisticsSample) \<Rightarrow> StatisticsSample \<Rightarrow> EntityKind \<Rightarrow> string result \<Rightarrow> bool" where
  "pure_lookup db rd base s k g \<longleftrightarrow> snd rd = db \<and> (\<forall>ex. fst rd = Inl ex \<longrightarrow> is_backend_exception ex) \<and>
     (\<forall>d e s'. fst rd = Inr (d, e, s') \<longrightarrow> base s' = s \<and> found_by k g db d e)"

lemma pure_lookup_contract:
  assumes "report_ready db" and "pure_lookup db (r, db') base s k g"
  shows "\<exists>new. list_all insertion_event new \<and> processed 1 new db db' \<and> same_objects db db' \<and>
    (\<forall>ex. r = Inl ex \<longrightarrow> is_backend_exception ex) \<and>
    (\<forall>d e s'. r = Inr (d, e, s') \<longrightarrow> base s' = s \<and> found_by k g db d e)"
  using assms processed_mono [OF processed_refl [OF assms(1)], of 1]
  by (intro exI [of _ "[]"]) (auto simp: pure_lookup_def)

lemma lookup_then:
  assumes "\<And>d e. base (sm d e) = s"
  shows "pure_lookup db (act_bind (lookup_entity what k g) (\<lambda>(d, e). act_return (d, e, sm d e)) db) base s k (Inr g)"
proof -
  obtain r db' where l: "lookup_entity what k g db = (r, db')" by fastforce
  show ?thesis
    using lookup_entity_cases [OF l] l assms
    by (cases r) (auto simp: pure_lookup_def act_bind_def act_return_def found_by_def)
qed

lemma lookup_before:
  assumes "\<And>d e. pure_lookup db (f d e db) base s k g"
  shows "pure_lookup db (act_bind (lookup_entity what k' g') (\<lambda>(d, e). f d e) db) base s k g"
proof -
  obtain r db' where l: "lookup_entity what k' g' db = (r, db')" by fastforce
  show ?thesis
    using lookup_entity_cases [OF l] l assms by (cases r) (auto simp: pure_lookup_def act_bind_def)
qed

lemma locator_then:
  assumes rd: "report_ready db" "room 2 db" and run: "act_bind (get_or_create_locator n) f db = (r, db')"
    and f: "\<And>l db1. pure_lookup db1 (f l db1) base s k g"
  shows "\<exists>new. list_all insertion_event new \<and> processed 1 new db db' \<and> same_objects db db' \<and>
    (\<forall>ex. r = Inl ex \<longrightarrow> is_backend_exception ex) \<and>
    (\<forall>d e s'. r = Inr (d, e, s') \<longrightarrow> base s' = s \<and> found_by k g db d e)"
proof -
  obtain q db1 where l: "get_or_create_locator n db = (q, db1)" by fastforce
  obtain new where new: "list_all insertion_event new" "processed 1 new db db1" "same_objects db db1"
    "\<forall>e. q = Inl e \<longrightarrow> is_backend_exception e"
    using get_or_create_processed [OF rd l] by (auto simp: same_objects_def)
  have fd: "found_by k g db1 d e = found_by k g db d e" for d e
    using new(2) by (simp add: found_by_def processed_def)
  show ?thesis
  proof (cases q)
    case (Inl e)
    then show ?thesis using run l new by (intro exI [of _ new]) (auto simp: act_bind_def)
  next
    case (Inr y)
    then show ?thesis
      using run l new f [where l = y and ?db1.0 = db1] by (intro exI [of _ new]) (auto simp: act_bind_def pure_lookup_def fd)
  qed
qed

text \<open>Every overload fulfils the contract.\<close>

lemmas truncate_simp = StatisticsSample.truncate_def

lemma overloads_pure:
  shows "pure_lookup db (history_latency_type f k s x1 db) StatisticsSample.truncate s k
      (Inr (deserialize_guid f (wr_writer_guid x1)))"
    and "pure_lookup db (entity_data_type f k s x2 db) StatisticsSample.truncate s k
      (Inr (deserialize_guid f (ed_guid x2)))"
    and "pure_lookup db (entity_count_type f k s x3 db) StatisticsSample.truncate s k
      (Inr (deserialize_guid f (ec_guid x3)))"
    and "pure_lookup db (discovery_time_type f k s x4 db) StatisticsSample.truncate s k
      (Inr (deserialize_guid f (dt_local_participant_guid x4)))"
    and "pure_lookup db (sample_datas_type f k s x5 db) StatisticsSample.truncate s k
      (Inr (deserialize_guid f (si_writer_guid x5)))"
  unfolding history_latency_type_def entity_data_type_def entity_count_type_def discovery_time_type_def
    sample_datas_type_def deserialize_sample_identity_def Let_def prod.case
  by (rule lookup_before lookup_then, (rule lookup_then)?, simp add: truncate_simp |
      rule lookup_then, simp add: truncate_simp)+

interpretation hl: report_lookup history_latency_type "\<lambda>f x. Inr (deserialize_guid f (wr_writer_guid x))" StatisticsSample.truncate
proof (unfold_locales, erule pure_lookup_contract)
  fix db :: "'q database" and f k s x r db'
  assume "history_latency_type f k s x db = (r, db')"
  then show "pure_lookup db (r, db') StatisticsSample.truncate s k (Inr (deserialize_guid f (wr_writer_guid x)))"
    using overloads_pure(1) [of db f k s x] by simp
qed

interpretation ed: report_lookup entity_data_type "\<lambda>f x. Inr (deserialize_guid f (ed_guid x))" StatisticsSample.truncate
proof (unfold_locales, erule pure_lookup_contract)
  fix db :: "'q database" and f k s x r db'
  assume "entity_data_type f k s x db = (r, db')"
  then show "pure_lookup db (r, db') StatisticsSample.truncate s k (Inr (deserialize_guid f (ed_guid x)))"
    using overloads_pure(2) [of db f k s x] by simp
qed

interpretation ec: report_lookup entity_count_type "\<lambda>f x. Inr (deserialize_guid f (ec_guid x))" StatisticsSample.truncate
proof (unfold_locales, erule pure_lookup_contract)
  fix db :: "'q database" and f k s x r db'
  assume "entity_count_type f k s x db = (r, db')"
  then show "pure_lookup db (r, db') StatisticsSample.truncate s k (Inr (deserialize_guid f (ec_guid x)))"
    using overloads_pure(3) [of db f k s x] by simp
qed

interpretation dt: report_lookup discovery_time_type "\<lambda>f x. Inr (deserialize_guid f (dt_local_participant_guid x))" StatisticsSample.truncate
proof (unfold_locales, erule pure_lookup_contract)
  fix db :: "'q database" and f k s x r db'
  assume "discovery_time_type f k s x db = (r, db')"
  then show "pure_lookup db (r, db') StatisticsSample.truncate s k (Inr (deserialize_guid f (dt_local_participant_guid x)))"
    using overloads_pure(4) [of db f k s x] by simp
qed

interpretation sd: report_lookup sample_datas_type "\<lambda>f x. Inr (deserialize_guid f (si_writer_guid x))" StatisticsSample.truncate
proof (unfold_locales, erule pure_lookup_contract)
  fix db :: "'q database" and f k s x r db'
  assume "sample_datas_type f k s x db = (r, db')"
  then show "pure_lookup db (r, db') StatisticsSample.truncate s k (Inr (deserialize_guid f (si_writer_guid x)))"
    using overloads_pure(5) [of db f k s x] by simp
qed

interpretation pk: report_lookup packets_type "\<lambda>f x. Inr (deserialize_guid f (tr_src_guid x))" StatisticsSample.truncate
proof (unfold_locales)
  fix db :: "'q database" and f k s x r db'
  assume "report_ready db" "room 2 db" "packets_type f k s x db = (r, db')"
  then show "\<exists>new. list_all insertion_event new \<and> processed 1 new db db' \<and> same_objects db db' \<and>
      (\<forall>ex. r = Inl ex \<longrightarrow> is_backend_exception ex) \<and> (\<forall>d e s'. r = Inr (d, e, s') \<longrightarrow>
        StatisticsSample.truncate s' = s \<and> found_by k (Inr (deserialize_guid f (tr_src_guid x))) db d e)"
    unfolding packets_type_def
    by (rule locator_then) (auto simp: truncate_simp intro!: lookup_then)
qed

interpretation bt: report_lookup bytes_type "\<lambda>f x. Inr (deserialize_guid f (tr_src_guid x))" StatisticsSample.truncate
proof (unfold_locales)
  fix db :: "'q database" and f k s x r db'
  assume "report_ready db" "room 2 db" "bytes_type f k s x db = (r, db')"
  then show "\<exists>new. list_all insertion_event new \<and> processed 1 new db db' \<and> same_objects db db' \<and>
      (\<forall>ex. r = Inl ex \<longrightarrow> is_backend_exception ex) \<and> (\<forall>d e s'. r = Inr (d, e, s') \<longrightarrow>
        StatisticsSample.truncate s' = s \<and> found_by k (Inr (deserialize_guid f (tr_src_guid x))) db d e)"
    unfolding bytes_type_def
    by (rule locator_then) (auto simp: truncate_simp intro!: lookup_then)
qed

interpretation nl: report_lookup network_latency_type "\<lambda>f x. deserialize_locator_guid f (ll_src_locator x)"
    StatisticsSample.truncate
proof (unfold_locales)
  fix db :: "'q database" and f k s x r db'
  assume "report_ready db" "room 2 db" "network_latency_type f k s x db = (r, db')"
  then show "\<exists>new. list_all insertion_event new \<and> processed 1 new db db' \<and> same_objects db db' \<and>
      (\<forall>ex. r = Inl ex \<longrightarrow> is_backend_exception ex) \<and> (\<forall>d e s'. r = Inr (d, e, s') \<longrightarrow>
        StatisticsSample.truncate s' = s \<and> found_by k (deserialize_locator_guid f (ll_src_locator x)) db d e)"
    unfolding network_latency_type_def
    by (rule locator_then) (auto simp: truncate_simp pure_lookup_def deserialize_locator_guid_def found_by_def
        split: sum.splits dest: guid_error)
qed

section \<open>Traffic is refused\<close>

text \<open>
  The queue looks the source of a traffic report up among the writers; the database stores traffic
  for participants only. No identifier belongs to both.
\<close>

lemma keys_in_iff: "k \<in> set (keys_in mm) \<longleftrightarrow> (\<exists>(d, m) \<in> set mm. k \<in> set (om_keys m))"
  by (auto simp: keys_in_def)

lemma live_in_key: "(d, k, a, x) \<in> set (live_in h mm) \<Longrightarrow> k \<in> set (keys_in mm)"
  by (force simp: live_in_set keys_in_iff)

lemma known_key: "known mm d i = Some a \<Longrightarrow> i \<in> set (keys_in mm)"
  by (force simp: known_def keys_in_iff split: option.splits dest!: map_of_SomeD)

lemma writer_is_no_participant:
  assumes "db_inv db" and "get_entity_by_guid_nts DATAWRITER g db = Inr (d, e)"
  shows "known (participants db) d' e = None"
proof -
  have "find_guid g (live_in (writer_objs db) (datawriters db)) guid = Some (d, e)"
    using assms(2) by (auto simp: get_entity_by_guid_nts_def split: option.splits)
  then obtain a w where "(d, e, a, w) \<in> set (live_in (writer_objs db) (datawriters db))"
    by (auto simp: find_guid_def find_Some_iff) (metis nth_mem)
  then have "e \<in> set (keys_in (datawriters db))" by (rule live_in_key)
  then have "e \<notin> set (keys_in (participants db))"
    using db_invD(10) [OF assms(1)] by (auto simp: entity_ids_def)
  then show ?thesis using known_key by (cases "known (participants db) d' e") auto
qed

lemma traffic_refused:
  assumes "report_ready db" and "found_by DATAWRITER (Inr g) db d e"
  shows "sample_kind s = RTPS_PACKETS_SENT \<Longrightarrow>
      \<exists>m. insert_sample clock d e (RtpsPacketsSent s) False False db = (Inl (BadParameter m), db)"
    and "sample_kind s = RTPS_PACKETS_LOST \<Longrightarrow>
      \<exists>m. insert_sample clock d e (RtpsPacketsLost s) False False db = (Inl (BadParameter m), db)"
    and "sample_kind b = RTPS_BYTES_SENT \<Longrightarrow>
      \<exists>m. insert_sample clock d e (RtpsBytesSent b) False False db = (Inl (BadParameter m), db)"
    and "sample_kind b = RTPS_BYTES_LOST \<Longrightarrow>
      \<exists>m. insert_sample clock d e (RtpsBytesLost b) False False db = (Inl (BadParameter m), db)"
proof -
  have "known (participants db) d e = None"
    using assms by (intro writer_is_no_participant) (auto simp: report_ready_def found_by_def)
  then show "sample_kind s = RTPS_PACKETS_SENT \<Longrightarrow>
      \<exists>m. insert_sample clock d e (RtpsPacketsSent s) False False db = (Inl (BadParameter m), db)"
    "sample_kind s = RTPS_PACKETS_LOST \<Longrightarrow>
      \<exists>m. insert_sample clock d e (RtpsPacketsLost s) False False db = (Inl (BadParameter m), db)"
    "sample_kind b = RTPS_BYTES_SENT \<Longrightarrow>
      \<exists>m. insert_sample clock d e (RtpsBytesSent b) False False db = (Inl (BadParameter m), db)"
    "sample_kind b = RTPS_BYTES_LOST \<Longrightarrow>
      \<exists>m. insert_sample clock d e (RtpsBytesLost b) False False db = (Inl (BadParameter m), db)"
    by (auto simp: insert_sample_def insert_rtps_packets_sent_def insert_rtps_packets_lost_def
        insert_rtps_bytes_sent_def insert_rtps_bytes_lost_def insert_rtps_packets_def insert_rtps_bytes_def
        on_entity_def not_known_def)
qed

lemma room_less_processed: "processed n evs db db' \<Longrightarrow> room (m + n) db \<Longrightarrow> room m db'"
  by (auto simp: processed_def room_def)

lemma truncated_kind: "StatisticsSample.truncate s = \<lparr>sample_kind = k, src_ts = t\<rparr> \<Longrightarrow> sample_kind s = k"
  by (simp add: truncate_simp)

lemma traffic_processed:
  assumes rd: "report_ready db" "room 3 db"
    and no: "\<And>d e s db1. report_ready (db1 :: 'q database) \<Longrightarrow> sample_kind s = pk \<Longrightarrow>
      found_by DATAWRITER (Inr (deserialize_guid f (tr_src_guid x))) db1 d e \<Longrightarrow>
      \<exists>m. insert_sample clock d e (pw s) False False db1 = (Inl (BadParameter m), db1)"
      "\<And>d e s db1. report_ready (db1 :: 'q database) \<Longrightarrow> sample_kind s = bk \<Longrightarrow>
      found_by DATAWRITER (Inr (deserialize_guid f (tr_src_guid x))) db1 d e \<Longrightarrow>
      \<exists>m. insert_sample clock d e (bw s) False False db1 = (Inl (BadParameter m), db1)"
    and run: "process_traffic f clock ts x pk pw bk bw (db :: 'q database) = (r, db')"
  shows "r = Inr () \<and> same_objects db db' \<and> (\<exists>new. list_all insertion_event new \<and> processed 2 new db db')"
proof -
  have room: "room 2 db" using rd(2) by (simp add: room_def)
  obtain r1 db1 where first: "store_report clock (packets_type f DATAWRITER \<lparr>sample_kind = pk, src_ts = ts\<rparr> x) pw [] db =
      (r1, db1)" by fastforce
  obtain new where new: "r1 = Inr ()" "same_objects db db1" "list_all insertion_event new" "processed 1 new db db1"
    using pk.refused [OF rd(1) room no(1) first] truncated_kind by blast
  have run2: "store_report clock (bytes_type f DATAWRITER \<lparr>sample_kind = bk, src_ts = ts\<rparr> x) bw [pk, bk] db1 = (r, db')"
    using run first new(1) by (simp add: process_traffic_def act_bind_def)
  have room1: "room 2 db1" using room_less_processed [OF new(4), of 2] rd(2) by simp
  obtain new2 where new2: "r = Inr ()" "same_objects db1 db'" "list_all insertion_event new2" "processed 1 new2 db1 db'"
    using bt.refused [OF processed_ready [OF new(4)] room1 no(2) run2] truncated_kind by blast
  show ?thesis
    using new new2 processed_trans [OF new(4) new2(4)] same_objects_trans [OF new(2) new2(2)]
    by (intro conjI exI [of _ "new @ new2"]) auto
qed

section \<open>Properties\<close>

text \<open>The kind of data of a report, and the kind and GUID of the entity it is about.\<close>

fun report_source :: "fastdds \<Rightarrow> Data \<Rightarrow> (DataKind \<times> EntityKind \<times> string result) option" where
  "report_source f (HISTORY2HISTORY_LATENCY_EVENT x) =
     Some (FASTDDS_LATENCY, DATAWRITER, Inr (deserialize_guid f (wr_writer_guid x)))"
| "report_source f (NETWORK_LATENCY_EVENT x) =
     Some (NETWORK_LATENCY, PARTICIPANT, deserialize_locator_guid f (ll_src_locator x))"
| "report_source f (PUBLICATION_THROUGHPUT_EVENT x) =
     Some (PUBLICATION_THROUGHPUT, DATAWRITER, Inr (deserialize_guid f (ed_guid x)))"
| "report_source f (SUBSCRIPTION_THROUGHPUT_EVENT x) =
     Some (SUBSCRIPTION_THROUGHPUT, DATAREADER, Inr (deserialize_guid f (ed_guid x)))"
| "report_source f (RESENT_DATAS_EVENT x) = Some (RESENT_DATA, DATAWRITER, Inr (deserialize_guid f (ec_guid x)))"
| "report_source f (HEARTBEAT_COUNT_EVENT x) =
     Some (HEARTBEAT_COUNT, DATAWRITER, Inr (deserialize_guid f (ec_guid x)))"
| "report_source f (ACKNACK_COUNT_EVENT x) = Some (ACKNACK_COUNT, DATAREADER, Inr (deserialize_guid f (ec_guid x)))"
| "report_source f (NACKFRAG_COUNT_EVENT x) =
     Some (NACKFRAG_COUNT, DATAREADER, Inr (deserialize_guid f (ec_guid x)))"
| "report_source f (GAP_COUNT_EVENT x) = Some (GAP_COUNT, DATAWRITER, Inr (deserialize_guid f (ec_guid x)))"
| "report_source f (DATA_COUNT_EVENT x) = Some (DATA_COUNT, DATAWRITER, Inr (deserialize_guid f (ec_guid x)))"
| "report_source f (PDP_PACKETS_EVENT x) = Some (PDP_PACKETS, PARTICIPANT, Inr (deserialize_guid f (ec_guid x)))"
| "report_source f (EDP_PACKETS_EVENT x) = Some (EDP_PACKETS, PARTICIPANT, Inr (deserialize_guid f (ec_guid x)))"
| "report_source f (DISCOVERED_ENTITY_EVENT x) =
     Some (DISCOVERY_TIME, PARTICIPANT, Inr (deserialize_guid f (dt_local_participant_guid x)))"
| "report_source f (SAMPLE_DATAS_EVENT x) =
     Some (SAMPLE_DATAS, DATAWRITER, Inr (deserialize_guid f (si_writer_guid x)))"
| "report_source f _ = None"

definition report_event :: "fastdds \<Rightarrow> Data \<Rightarrow> 'q database \<Rightarrow> event \<Rightarrow> bool" where
  "report_event f item db ev \<longleftrightarrow> insertion_event ev \<or>
     (\<exists>K k g d e. report_source f item = Some (K, k, g) \<and> ev = DataAvailable d e K \<and> found_by k g db d e)"

lemma process_data_processed:
  assumes rd: "report_ready db" "room 3 db" and run: "process_data_sample f clock ts item db = (r, db')"
  shows "r = Inr () \<and> (\<exists>new. processed 2 new db db' \<and> (\<forall>ev \<in> set new. report_event f item db ev))"
proof -
  have room: "room 2 db" using rd(2) by (simp add: room_def)
  note eqs = process_data_sample_def Let_def
  have traffic: "r = Inr () \<and> (\<exists>new. processed 2 new db db' \<and> (\<forall>ev \<in> set new. report_event f item db ev))"
    if "r = Inr () \<and> same_objects db db' \<and> (\<exists>new. list_all insertion_event new \<and> processed 2 new db db')"
    using that by (auto simp: list_all_iff report_event_def)
  have plain: "r = Inr () \<and> (\<exists>new. processed 2 new db db' \<and> (\<forall>ev \<in> set new. report_event f item db ev))"
    if src: "report_source f item = Some (K, k, g)" and st: "r = Inr () \<and> (\<exists>new. processed 1 new db db' \<and>
      (\<forall>ev \<in> set new. insertion_event ev \<or> (\<exists>d e. ev = DataAvailable d e K \<and> found_by k g db d e)))" for K k g
  proof -
    obtain new where "processed 1 new db db'" "\<forall>ev \<in> set new. insertion_event ev \<or>
        (\<exists>d e. ev = DataAvailable d e K \<and> found_by k g db d e)" using st by blast
    then show ?thesis
      using src st processed_mono [of 1 new db db' 2] by (intro conjI exI [of _ new]) (auto simp: report_event_def)
  qed
  show ?thesis
  proof (cases item)
    case (RTPS_SENT_EVENT x)
    show ?thesis
      by (rule traffic, rule traffic_processed [OF rd traffic_refused(1) traffic_refused(3)])
        (use run RTPS_SENT_EVENT in \<open>simp_all add: process_data_sample_def\<close>)
  next
    case (RTPS_LOST_EVENT x)
    show ?thesis
      by (rule traffic, rule traffic_processed [OF rd traffic_refused(2) traffic_refused(4)])
        (use run RTPS_LOST_EVENT in \<open>simp_all add: process_data_sample_def\<close>)
  next
    case PHYSICAL_DATA_EVENT
    then show ?thesis
      using run processed_mono [OF processed_refl [OF rd(1)], of 2]
      by (auto simp: process_data_sample_def act_return_def intro!: exI [of _ "[]"])
  next
    case (HISTORY2HISTORY_LATENCY_EVENT x)
    show ?thesis
      by (rule plain [OF _ hl.stored [OF rd(1) room _ run [unfolded eqs HISTORY2HISTORY_LATENCY_EVENT Data.case]]])
        (auto simp: HISTORY2HISTORY_LATENCY_EVENT dest: truncated_kind)
  next
    case (NETWORK_LATENCY_EVENT x)
    show ?thesis
      by (rule plain [OF _ nl.stored [OF rd(1) room _ run [unfolded eqs NETWORK_LATENCY_EVENT Data.case]]])
        (auto simp: NETWORK_LATENCY_EVENT dest: truncated_kind)
  next
    case (PUBLICATION_THROUGHPUT_EVENT x)
    show ?thesis
      by (rule plain [OF _ ed.stored [OF rd(1) room _ run [unfolded eqs PUBLICATION_THROUGHPUT_EVENT Data.case]]])
        (auto simp: PUBLICATION_THROUGHPUT_EVENT dest: truncated_kind)
  next
    case (SUBSCRIPTION_THROUGHPUT_EVENT x)
    show ?thesis
      by (rule plain [OF _ ed.stored [OF rd(1) room _ run [unfolded eqs SUBSCRIPTION_THROUGHPUT_EVENT Data.case]]])
        (auto simp: SUBSCRIPTION_THROUGHPUT_EVENT dest: truncated_kind)
  next
    case (RESENT_DATAS_EVENT x)
    show ?thesis
      by (rule plain [OF _ ec.stored [OF rd(1) room _ run [unfolded eqs RESENT_DATAS_EVENT Data.case]]])
        (auto simp: RESENT_DATAS_EVENT dest: truncated_kind)
  next
    case (HEARTBEAT_COUNT_EVENT x)
    show ?thesis
      by (rule plain [OF _ ec.stored [OF rd(1) room _ run [unfolded eqs HEARTBEAT_COUNT_EVENT Data.case]]])
        (auto simp: HEARTBEAT_COUNT_EVENT dest: truncated_kind)
  next
    case (ACKNACK_COUNT_EVENT x)
    show ?thesis
      by (rule plain [OF _ ec.stored [OF rd(1) room _ run [unfolded eqs ACKNACK_COUNT_EVENT Data.case]]])
        (auto simp: ACKNACK_COUNT_EVENT dest: truncated_kind)
  next
    case (NACKFRAG_COUNT_EVENT x)
    show ?thesis
      by (rule plain [OF _ ec.stored [OF rd(1) room _ run [unfolded eqs NACKFRAG_COUNT_EVENT Data.case]]])
        (auto simp: NACKFRAG_COUNT_EVENT dest: truncated_kind)
  next
    case (GAP_COUNT_EVENT x)
    show ?thesis
      by (rule plain [OF _ ec.stored [OF rd(1) room _ run [unfolded eqs GAP_COUNT_EVENT Data.case]]])
        (auto simp: GAP_COUNT_EVENT dest: truncated_kind)
  next
    case (DATA_COUNT_EVENT x)
    show ?thesis
      by (rule plain [OF _ ec.stored [OF rd(1) room _ run [unfolded eqs DATA_COUNT_EVENT Data.case]]])
        (auto simp: DATA_COUNT_EVENT dest: truncated_kind)
  next
    case (PDP_PACKETS_EVENT x)
    show ?thesis
      by (rule plain [OF _ ec.stored [OF rd(1) room _ run [unfolded eqs PDP_PACKETS_EVENT Data.case]]])
        (auto simp: PDP_PACKETS_EVENT dest: truncated_kind)
  next
    case (EDP_PACKETS_EVENT x)
    show ?thesis
      by (rule plain [OF _ ec.stored [OF rd(1) room _ run [unfolded eqs EDP_PACKETS_EVENT Data.case]]])
        (auto simp: EDP_PACKETS_EVENT dest: truncated_kind)
  next
    case (DISCOVERED_ENTITY_EVENT x)
    show ?thesis
      by (rule plain [OF _ dt.stored [OF rd(1) room _ run [unfolded eqs DISCOVERED_ENTITY_EVENT Data.case]]])
        (auto simp: DISCOVERED_ENTITY_EVENT dest: truncated_kind)
  next
    case (SAMPLE_DATAS_EVENT x)
    show ?thesis
      by (rule plain [OF _ sd.stored [OF rd(1) room _ run [unfolded eqs SAMPLE_DATAS_EVENT Data.case]]])
        (auto simp: SAMPLE_DATAS_EVENT dest: truncated_kind)
  qed
qed

text \<open>The consumer processes the reports one after the other.\<close>

primrec process_all ::
  "fastdds \<Rightarrow> ((AlertId \<Rightarrow> Timestamp \<times> Timestamp \<times> Timestamp) \<times> Timestamp \<times> Data) list \<Rightarrow> ('q, unit) action" where
  "process_all f [] = act_return ()"
| "process_all f (x # xs) =
     act_bind (process_data_sample f (fst x) (fst (snd x)) (snd (snd x))) (\<lambda>_. process_all f xs)"

lemma report_event_processed:
  "processed n evs db db1 \<Longrightarrow> report_event f item db1 ev = report_event f item db ev"
  by (simp add: report_event_def found_by_def processed_def)

lemma process_all_processed:
  assumes "report_ready db" and "room (2 * int (length xs) + 1) db" and "process_all f xs db = (r, db')"
  shows "r = Inr () \<and> (\<exists>new. processed (2 * int (length xs)) new db db' \<and>
    (\<forall>ev \<in> set new. \<exists>(c, t, item) \<in> set xs. report_event f item db ev))"
  using assms
proof (induction xs arbitrary: db)
  case Nil
  then show ?case using processed_refl [of db] by (auto simp: act_return_def intro!: exI [of _ "[]"])
next
  case (Cons x xs)
  obtain c t item where x: "x = (c, t, item)" by (cases x)
  obtain r1 db1 where first: "process_data_sample f c t item db = (r1, db1)" by fastforce
  have rm: "room 3 db" using Cons.prems(2) by (simp add: room_def)
  obtain new where new: "r1 = Inr ()" "processed 2 new db db1" "\<forall>ev \<in> set new. report_event f item db ev"
    using process_data_processed [OF Cons.prems(1) rm first] by blast
  have rm1: "room (2 * int (length xs) + 1) db1"
    using room_less_processed [OF new(2), of "2 * int (length xs) + 1"] Cons.prems(2) by (simp add: algebra_simps)
  have rest: "process_all f xs db1 = (r, db')"
    using Cons.prems(3) first new(1) by (simp add: x act_bind_def)
  obtain new2 where new2: "r = Inr ()" "processed (2 * int (length xs)) new2 db1 db'"
    "\<forall>ev \<in> set new2. \<exists>(c, t, item) \<in> set xs. report_event f item db1 ev"
    using Cons.IH [OF processed_ready [OF new(2)] rm1 rest] by blast
  show ?case
    using new new2 processed_trans [OF new(2) new2(2)] report_event_processed [OF new(2)]
    by (intro conjI exI [of _ "new @ new2"]) (auto simp: x algebra_simps)
qed

text \<open>
  C29: whatever reports arrive, in whatever order, the consumer gets through them: no exception leaves
  \<open>process_sample\<close>, the collections of entities and their identifiers stay in order, every container of
  samples stays sorted by time, and the only entities created are locators. New data is announced only
  for an entity of the database whose GUID is the one of a report, of the kind of entity the report is
  about.
\<close>

theorem reports_processed_safely:
  assumes "db_inv db" and "samples_wf db" and "fresh_locators db" and "room (2 * int (length xs) + 1) db"
    and "process_all f xs db = (r, db')"
  shows "r = Inr () \<and> kept db db' \<and> samples_wf db' \<and>
    (\<exists>new. events db' = events db @ new \<and>
       (\<forall>d e K. DataAvailable d e K \<in> set new \<longrightarrow>
          (\<exists>(c, t, item) \<in> set xs. \<exists>k g s. report_source f item = Some (K, k, g) \<and> g = Inr s \<and>
             get_entity_by_guid_nts k s db = Inr (d, e))))"
proof -
  have rd: "report_ready db" using assms(1-3) by (simp add: report_ready_def)
  obtain new where new: "r = Inr ()" "processed (2 * int (length xs)) new db db'"
    "\<forall>ev \<in> set new. \<exists>(c, t, item) \<in> set xs. report_event f item db ev"
    using process_all_processed [OF rd assms(4,5)] by blast
  have "\<exists>(c, t, item) \<in> set xs. \<exists>k g s. report_source f item = Some (K, k, g) \<and> g = Inr s \<and>
      get_entity_by_guid_nts k s db = Inr (d, e)" if ev: "DataAvailable d e K \<in> set new" for d e K
    using bspec [OF new(3) ev] by (fastforce simp: report_event_def found_by_def)
  then show ?thesis
    using new(1,2) by (intro conjI exI [of _ new]) (auto simp: processed_def report_ready_def)
qed

text \<open>
  C30: a report of RTPS traffic, sent or lost, is never stored and never announced, whatever GUID it
  carries: the queue looks its source up among the writers, the database keeps traffic for participants
  only, and no identifier is both.
\<close>

theorem traffic_never_stored:
  assumes "db_inv db" and "samples_wf db" and "fresh_locators db" and "room 3 db"
    and "item = RTPS_SENT_EVENT x \<or> item = RTPS_LOST_EVENT x"
    and "process_data_sample f clock ts item db = (r, db')"
  shows "participant_objs db' = participant_objs db \<and> reader_objs db' = reader_objs db \<and>
    writer_objs db' = writer_objs db \<and>
    (\<exists>new. events db' = events db @ new \<and> (\<forall>d e K. DataAvailable d e K \<notin> set new))"
proof -
  have rd: "report_ready db" using assms(1-3) by (simp add: report_ready_def)
  have "r = Inr () \<and> same_objects db db' \<and> (\<exists>new. list_all insertion_event new \<and> processed 2 new db db')"
    using assms(5)
  proof
    assume i: "item = RTPS_SENT_EVENT x"
    show ?thesis
      by (rule traffic_processed [OF rd assms(4) traffic_refused(1) traffic_refused(3)])
        (use assms(6) i in \<open>simp_all add: process_data_sample_def\<close>)
  next
    assume i: "item = RTPS_LOST_EVENT x"
    show ?thesis
      by (rule traffic_processed [OF rd assms(4) traffic_refused(2) traffic_refused(4)])
        (use assms(6) i in \<open>simp_all add: process_data_sample_def\<close>)
  qed
  then obtain new where new: "same_objects db db'" "list_all insertion_event new" "processed 2 new db db'" by blast
  have "DataAvailable d e K \<notin> set new" for d e K using new(2) by (auto simp: list_all_iff)
  then show ?thesis using new by (auto simp: same_objects_def processed_def)
qed

text \<open>
  A latency report between a known writer and a known reader, newer than the last one between the
  two, is appended to the series the writer keeps for the reader, and announced.
\<close>

theorem latency_report_stored:
  assumes "get_entity_by_guid_nts DATAREADER (show_guid f (wr_reader_guid x)) db = Inr (rd, r)"
    and "get_entity_by_guid_nts DATAWRITER (show_guid f (wr_writer_guid x)) db = Inr (d, e)"
    and "om_find (domains db) d \<noteq> None" and "known (datawriters db) d e = Some a"
    and "writer_objs db a = Some w" and "mdc_wf src_ts (history2history_latency (dw_data w))"
    and "\<forall>y \<in> set (om_get [] r (history2history_latency (dw_data w))). src_ts y < ts"
  shows "\<exists>db'. process_data_sample f clock ts (HISTORY2HISTORY_LATENCY_EVENT x) db = (Inr (), db') \<and>
    events db' = events db @ [DataAvailable d e FASTDDS_LATENCY] \<and>
    (\<exists>w'. writer_objs db' a = Some w' \<and>
       om_get [] r (history2history_latency (dw_data w')) =
         om_get [] r (history2history_latency (dw_data w)) @
           [\<lparr>sample_kind = FASTDDS_LATENCY, src_ts = ts, sample_data = wr_data x\<rparr>])"
proof -
  let ?m = "history2history_latency (dw_data w)"
  have "\<not> list_rejects False False ts (om_get [] r ?m)"
    using assms(7) last_in_set [of "om_get [] r ?m"] by (fastforce simp: list_rejects_def rejects_def)
  then have rej: "map_rejects False False ts r ?m = Inr False"
    using map_rejects_wf [OF assms(6)] by simp
  have "om_wf ?m" using assms(6) by (simp add: mdc_wf_def)
  then show ?thesis
    using assms(1-5) rej
    by (simp add: process_data_sample_def Let_def store_report_def try_catch_def act_bind_def history_latency_type_def
        lookup_entity_def deserialize_guid_def act_return_def insert_sample_def insert_fastdds_latency_def
        on_entity_def push_keyed_def EntityDataSample.truncate_def announce_def emit_def set_writer_data_def
        obj_update_apply om_update_def om_get_put)
qed

section \<open>Example\<close>

definition example_guid :: "octet \<Rightarrow> GUID_s" where
  "example_guid n = \<lparr>guid_prefix = replicate 12 1, guid_entity = [0, 0, 0, n]\<rparr>"

text \<open>A printer that tells the example's GUIDs apart.\<close>

definition example_fastdds :: fastdds where
  "example_fastdds = \<lparr>show_guid = \<lambda>g. map (\<lambda>b. char_of (unat b)) (guid_prefix g @ guid_entity g),
     show_locator = \<lambda>l. ''locator'', show_entity_id = \<lambda>e. map (\<lambda>b. char_of (unat b)) e,
     to64long = \<lambda>h l. ucast l, participant_entity_id = [0, 0, 1, 193],
     is_reader = \<lambda>e. e = [0, 0, 0, 4], is_writer = \<lambda>e. e = [0, 0, 0, 2]\<rparr>"

definition example_reports_db :: "unit database" where
  "example_reports_db = example_writer_db\<lparr>next_id := 5, next_addr := 1,
     datareaders := [(EntityId 0, [(EntityId 3, 0)])],
     reader_objs := [0 \<mapsto> (new_datareader ''r'' () (show_guid example_fastdds (example_guid 4)) None None None
       OK_STATUS UNKNOWN_APP [] DISCOVERY_SOURCE 0)\<lparr>e_id := EntityId 3\<rparr>],
     datawriters := [(EntityId 0, [(EntityId 4, 0)])],
     writer_objs := [0 \<mapsto> (new_datawriter ''w'' () (show_guid example_fastdds (example_guid 2)) None None None
       OK_STATUS UNKNOWN_APP [] DISCOVERY_SOURCE 0)\<lparr>e_id := EntityId 4\<rparr>]\<rparr>"

definition example_latency :: WriterReaderData where
  "example_latency = \<lparr>wr_reader_guid = example_guid 4, wr_writer_guid = example_guid 2, wr_data = Fin 7\<rparr>"

definition example_traffic :: Entity2LocatorTraffic where
  "example_traffic = \<lparr>tr_src_guid = example_guid 2, tr_dst_locator = \<lparr>locator_kind = 1, locator_port = 7400,
     locator_address = replicate 16 0\<rparr>, packet_count = 3, traffic_byte_count = 100, byte_magnitude_order = 0\<rparr>"

lemma example_reports_db_ready:
  "db_inv example_reports_db" "samples_wf example_reports_db" "fresh_locators example_reports_db"
  "room n example_reports_db \<longleftrightarrow> 5 + n < 2 ^ 63"
  by (simp_all add: db_inv_def db_struct_def db_owned_def owned_def owned_in_def topic_homes_def ids_below_def
      entity_ids_def keys_in_def new_database_def example_reports_db_def example_writer_db_def om_wf_def
      entity_constructor_defs endpoint_constructor_defs samples_wf_def empty_data_wf fresh_locators_def room_def)

lemma example_reports_db_lookup:
  "get_entity_by_guid_nts DATAREADER (show_guid example_fastdds (example_guid 4)) example_reports_db =
     Inr (EntityId 0, EntityId 3)"
  "get_entity_by_guid_nts DATAWRITER (show_guid example_fastdds (example_guid 2)) example_reports_db =
     Inr (EntityId 0, EntityId 4)"
  by (simp_all add: get_entity_by_guid_nts_def find_guid_def live_in_def example_reports_db_def
      entity_constructor_defs endpoint_constructor_defs)

lemma example_reports_db_writer:
  "\<exists>w. writer_objs example_reports_db 0 = Some w \<and> dw_data w = empty_writer_data"
  "om_find (domains example_reports_db) (EntityId 0) \<noteq> None"
  "known (datawriters example_reports_db) (EntityId 0) (EntityId 4) = Some 0"
  "events example_reports_db = []"
  by (simp_all add: known_def example_reports_db_def example_writer_db_def new_database_def
      entity_constructor_defs endpoint_constructor_defs)

theorem latency_report_stored_witness:
  "\<exists>db'. process_data_sample example_fastdds (\<lambda>_. (0, 0, 0)) 9 (HISTORY2HISTORY_LATENCY_EVENT example_latency)
     example_reports_db = (Inr (), db') \<and>
     events db' = [DataAvailable (EntityId 0) (EntityId 4) FASTDDS_LATENCY]"
proof -
  obtain w where w: "writer_objs example_reports_db 0 = Some w" "dw_data w = empty_writer_data"
    using example_reports_db_writer(1) by blast
  have "mdc_wf src_ts (history2history_latency (dw_data w))"
    "\<forall>y \<in> set (om_get [] (EntityId 3) (history2history_latency (dw_data w))). src_ts y < 9"
    by (simp_all add: w empty_writer_data_def mdc_wf_def om_wf_def om_get_def)
  from latency_report_stored [OF _ _ example_reports_db_writer(2,3) w(1) this, of example_fastdds example_latency]
  show ?thesis
    using example_reports_db_lookup example_reports_db_writer(4) by (auto simp: example_latency_def)
qed

theorem reports_processed_safely_witness:
  "fst (process_all example_fastdds [(\<lambda>_. (0, 0, 0), 9, HISTORY2HISTORY_LATENCY_EVENT example_latency),
     (\<lambda>_. (0, 0, 0), 10, RTPS_SENT_EVENT example_traffic)] example_reports_db) = Inr ()"
proof -
  let ?xs = "[(\<lambda>_. (0, 0, 0), 9, HISTORY2HISTORY_LATENCY_EVENT example_latency),
     (\<lambda>_. (0, 0, 0), 10, RTPS_SENT_EVENT example_traffic)]"
  obtain r db' where run: "process_all example_fastdds ?xs example_reports_db = (r, db')" by fastforce
  have "room (2 * int (length ?xs) + 1) example_reports_db"
    by (simp add: example_reports_db_ready)
  then have "r = Inr ()"
    by (rule conjunct1 [OF reports_processed_safely [OF example_reports_db_ready(1-3) _ run]])
  then show ?thesis by (simp only: run fst_conv)
qed

theorem traffic_never_stored_witness:
  "\<exists>r db'. process_data_sample example_fastdds (\<lambda>_. (0, 0, 0)) 9 (RTPS_SENT_EVENT example_traffic)
     example_reports_db = (r, db') \<and> participant_objs db' = participant_objs example_reports_db"
proof -
  obtain r db' where run: "process_data_sample example_fastdds (\<lambda>_. (0, 0, 0)) 9 (RTPS_SENT_EVENT example_traffic)
      example_reports_db = (r, db')" by fastforce
  have "room 3 example_reports_db" by (simp add: example_reports_db_ready)
  from traffic_never_stored [OF example_reports_db_ready(1-3) this disjI1 [OF refl] run] run
  show ?thesis by blast
qed

end
