(* ===== verification/DbLookup.thy ===== *)
theory DbLookup
  imports DbPhysical
begin

text \<open>
  What the lookup by identifier computes: the nine collections, searched one after the other, are one
  map from identifiers to entities.
\<close>

definition entries_under :: "(addr \<Rightarrow> entity_ref) \<Rightarrow> domain_collection \<Rightarrow> (EntityId \<times> entity_ref) list" where
  "entries_under c mm = concat (map (\<lambda>(d, m). map (\<lambda>(i, a). (i, c a)) m) mm)"

definition entity_entries :: "'q database \<Rightarrow> (EntityId \<times> entity_ref) list" where
  "entity_entries db =
     map (\<lambda>(i, a). (i, HostRef a)) (hosts db) @ map (\<lambda>(i, a). (i, UserRef a)) (users db) @
     map (\<lambda>(i, a). (i, ProcessRef a)) (processes db) @ map (\<lambda>(i, a). (i, DomainRef a)) (domains db) @
     map (\<lambda>(i, a). (i, LocatorRef a)) (locators db) @ entries_under TopicRef (topics db) @
     entries_under ParticipantRef (participants db) @ entries_under DataReaderRef (datareaders db) @
     entries_under DataWriterRef (datawriters db)"

lemma entries_under_keys: "map fst (entries_under c mm) = keys_in mm"
  by (simp add: entries_under_def keys_in_def map_concat comp_def case_prod_unfold)

lemma entity_entries_keys: "map fst (entity_entries db) = entity_ids db"
  by (simp add: entity_entries_def entity_ids_def entries_under_keys comp_def case_prod_unfold)

lemma entries_under_set: "(i, r) \<in> set (entries_under c mm) \<longleftrightarrow> (\<exists>d m a. (d, m) \<in> set mm \<and> (i, a) \<in> set m \<and> r = c a)"
  by (force simp: entries_under_def)

lemma find_addr_owned:
  assumes "owned h e_id m" and "find_addr (\<lambda>x. e_id x = i) (live h m) = Some a"
  shows "(i, a) \<in> set m"
proof -
  obtain k x where "(k, a, x) \<in> set (live h m)" "e_id x = i"
    using assms(2) by (auto simp: find_addr_def find_Some_iff) (metis nth_mem)
  then show ?thesis using owned_find [OF assms(1), of k a] by (auto simp: live_set)
qed

lemma find_addr_in_owned:
  assumes "owned_in h e_id mm" and "find_addr_in (\<lambda>x. e_id x = i) (live_in h mm) = Some a"
  shows "\<exists>d m. (d, m) \<in> set mm \<and> (i, a) \<in> set m"
proof -
  obtain d k x where "(d, k, a, x) \<in> set (live_in h mm)" and x: "e_id x = i"
    using assms(2) by (auto simp: find_addr_in_def find_Some_iff) (metis nth_mem)
  then obtain m where m: "(d, m) \<in> set mm" "(k, a) \<in> set m" "h a = Some x" by (auto simp: live_in_set)
  then have "owned h e_id m" using assms(1) by (auto simp: owned_in_def)
  then show ?thesis using owned_find [of h e_id m k a] m x by auto
qed

lemma find_addr_some:
  assumes "owned h e_id m" and "(i, a) \<in> set m"
  shows "\<exists>b. find_addr (\<lambda>x. e_id x = i) (live h m) = Some b"
proof -
  obtain x where "h a = Some x" "e_id x = i" using owned_find [OF assms] by blast
  then have "(i, a, x) \<in> set (live h m)" using assms(2) by (simp add: live_set)
  then have "List.find (\<lambda>(k, a, x). e_id x = i) (live h m) \<noteq> None"
    using \<open>e_id x = i\<close> by (auto simp: find_None_iff)
  then show ?thesis by (auto simp: find_addr_def)
qed

lemma find_addr_in_some:
  assumes "owned_in h e_id mm" and "(d, m) \<in> set mm" and "(i, a) \<in> set m"
  shows "\<exists>b. find_addr_in (\<lambda>x. e_id x = i) (live_in h mm) = Some b"
proof -
  have "owned h e_id m" using assms(1,2) by (auto simp: owned_in_def)
  from owned_find [OF this assms(3)] obtain x where "h a = Some x" "e_id x = i" by blast
  then have "(d, i, a, x) \<in> set (live_in h mm)" using assms(2,3) by (auto simp: live_in_set)
  then have "List.find (\<lambda>(d, k, a, x). e_id x = i) (live_in h mm) \<noteq> None"
    using \<open>e_id x = i\<close> by (auto simp: find_None_iff)
  then show ?thesis by (auto simp: find_addr_in_def)
qed

lemma first_some_in: "first_some xs = Some x \<Longrightarrow> Some x \<in> set xs"
  by (induction xs rule: first_some.induct) auto

lemma find_entity_entry:
  assumes "db_inv db" and "find_entity db i = Some r"
  shows "(i, r) \<in> set (entity_entries db)"
  using first_some_in [OF assms(2) [unfolded find_entity_def]] db_invD [OF assms(1)]
  by (auto simp: entity_entries_def entries_under_set dest!: sym [of "Some _" "map_option _ _"]
      dest: find_addr_owned find_addr_in_owned)

lemma entry_found:
  assumes "db_inv db" and "(i, r) \<in> set (entity_entries db)"
  shows "find_entity db i \<noteq> None"
  using assms(2) db_invD [OF assms(1)]
  by (auto simp: entity_entries_def entries_under_set find_entity_def dest: find_addr_some find_addr_in_some)

text \<open>
  C31: looking an entity up by its identifier, one collection after the other, is a lookup in the one
  map of all entities: it finds the entity that is registered under the identifier, whatever its
  kind, and throws exactly when there is none.
\<close>

theorem lookup_is_one_map:
  assumes "db_inv db"
  shows "get_entity_nts db i =
    (case map_of (entity_entries db) i of Some r \<Rightarrow> Inr r | None \<Rightarrow> Inl (no_such_entity i))"
proof -
  have d: "distinct (map fst (entity_entries db))"
    using assms by (simp add: entity_entries_keys db_inv_def)
  have "find_entity db i = map_of (entity_entries db) i"
  proof (cases "find_entity db i")
    case None
    then have "(i, r) \<notin> set (entity_entries db)" for r using entry_found [OF assms, of i r] by auto
    then have "map_of (entity_entries db) i = None" by (force simp: map_of_eq_None_iff)
    then show ?thesis using None by simp
  next
    case (Some r)
    then show ?thesis using find_entity_entry [OF assms Some] d by simp
  qed
  then show ?thesis by (simp add: get_entity_nts_def)
qed

theorem lookup_is_one_map_witness:
  "get_entity_nts (example_tree True) (EntityId 1) = Inr (UserRef 0) \<and>
   get_entity_nts (example_tree True) (EntityId 9) = Inl (no_such_entity (EntityId 9))"
proof -
  have "map_of (entity_entries (example_tree True)) (EntityId 1) = Some (UserRef 0)"
    "map_of (entity_entries (example_tree True)) (EntityId 9) = None"
    by (simp_all add: example_tree_def new_database_def entity_entries_def entries_under_def)
  then show ?thesis using lookup_is_one_map [OF example_tree_db_inv, of True] by simp
qed

lemma get_entity_entry:
  assumes "db_inv db" and "(i, r) \<in> set (entity_entries db)"
  shows "get_entity_nts db i = Inr r"
proof -
  obtain r' where r': "find_entity db i = Some r'" using entry_found [OF assms] by blast
  then have "(i, r') \<in> set (entity_entries db)" by (rule find_entity_entry [OF assms(1)])
  moreover have "distinct (map fst (entity_entries db))"
    using assms(1) by (simp add: entity_entries_keys db_inv_def)
  ultimately have "r' = r" using assms(2) by (metis map_of_eq_Some_iff option.inject)
  then show ?thesis using r' by (simp add: get_entity_nts_def)
qed

text \<open>The collections own all objects: nothing else keeps an entity alive.\<close>

definition stores_held :: "'q database \<Rightarrow> bool" where
  "stores_held db \<longleftrightarrow> (\<forall>r. entity_of db r \<noteq> None \<longrightarrow> (\<exists>i. (i, r) \<in> set (entity_entries db)))"

lemma entry_id:
  assumes "db_inv db" and "(i, r) \<in> set (entity_entries db)"
  shows "\<exists>x. entity_of db r = Some x \<and> e_id x = i"
proof -
  have o: "\<exists>y. h a = Some y \<and> e_id y = i" if "owned_in h e_id mm" "(d, m) \<in> set mm" "(i, a) \<in> set m" for h mm d m a
    using that owned_find [of h e_id m i a] by (auto simp: owned_in_def)
  show ?thesis
    using assms(2) db_invD [OF assms(1)]
    by (auto simp: entity_entries_def entries_under_set Entity.truncate_def dest: o owned_find)
qed

lemma held_lookup:
  assumes "db_inv db" and "stores_held db" and "entity_of db r = Some x"
  shows "get_entity_nts db (e_id x) = Inr r"
proof -
  obtain i where i: "(i, r) \<in> set (entity_entries db)" using assms(2,3) unfolding stores_held_def by blast
  with entry_id [OF assms(1) i] assms(3) have "e_id x = i" by simp
  then show ?thesis using get_entity_entry [OF assms(1) i] by simp
qed

end
