(* ===== verification/DomainGraph.thy ===== *)
theory DomainGraph
  imports DbNavigate DbLookup "HOL-Library.Sublist"
begin

text \<open>
  The domain view graph of \<open>database.cpp\<close>: one JSON document per monitored domain with its topics, and
  its hosts, users, processes, participants and endpoints nested in one another, each under its
  identifier. The graph is built by \<open>regenerate_domain_graph\<close> and kept up to date by the
  \<open>update_..._in_graph\<close> operations. The lemmas show that the graph has a node for exactly the
  entities that are active together with everything above them.
\<close>

section \<open>Names\<close>

fun entity_kind_str :: "EntityKind \<Rightarrow> string" where
  "entity_kind_str INVALID_ENTITY = ''invalid''"
| "entity_kind_str HOST = ''host''"
| "entity_kind_str USER = ''user''"
| "entity_kind_str PROCESS = ''process''"
| "entity_kind_str DOMAIN = ''domain''"
| "entity_kind_str TOPIC = ''topic''"
| "entity_kind_str PARTICIPANT = ''participant''"
| "entity_kind_str DATAWRITER = ''datawriter''"
| "entity_kind_str DATAREADER = ''datareader''"
| "entity_kind_str LOCATOR = ''locator''"

fun status_level_str :: "StatusLevel \<Rightarrow> string" where
  "status_level_str OK_STATUS = ''OK''"
| "status_level_str WARNING_STATUS = ''WARNING''"
| "status_level_str ERROR_STATUS = ''ERROR''"

fun discovery_source_str :: "DiscoverySource \<Rightarrow> string" where
  "discovery_source_str UNKNOWN_SOURCE = ''unknown''"
| "discovery_source_str DISCOVERY_SOURCE = ''discovery''"
| "discovery_source_str PROXY_SOURCE = ''proxy''"
| "discovery_source_str INFERRED_SOURCE = ''inferred''"

fun discovery_source_value :: "DiscoverySource \<Rightarrow> int" where
  "discovery_source_value UNKNOWN_SOURCE = 0"
| "discovery_source_value DISCOVERY_SOURCE = 1"
| "discovery_source_value PROXY_SOURCE = 2"
| "discovery_source_value INFERRED_SOURCE = 3"

fun app_id_str :: "AppId \<Rightarrow> string" where
  "app_id_str UNKNOWN_APP = ''UNKNOWN_APP''"
| "app_id_str DDS_MONITOR = ''DDS_MONITOR''"
| "app_id_str DDS_ROUTER = ''DDS_ROUTER''"
| "app_id_str SHAPES_DEMO = ''SHAPES_DEMO''"
| "app_id_str INTEGRATION_SERVICE = ''INTEGRATION_SERVICE''"
| "app_id_str FASTDDS_VISUALIZER = ''FASTDDS_VISUALIZER''"
| "app_id_str FASTDDS_SPY = ''FASTDDS_SPY''"
| "app_id_str DDS_RECORDER = ''DDS_RECORDER''"
| "app_id_str DDS_REPLAYER = ''DDS_REPLAYER''"
| "app_id_str AML_IP = ''AML_IP''"
| "app_id_str SUSTAINML = ''SUSTAINML''"

fun dds_vendor_str :: "DdsVendor \<Rightarrow> string" where
  "dds_vendor_str UNKNOWN_VENDOR = ''UNKNOWN''"
| "dds_vendor_str FASTDDS = ''FASTDDS''"
| "dds_vendor_str SAFEDDS = ''SAFEDDS''"

definition id_string :: "EntityId \<Rightarrow> string" where
  "id_string i = to_string_int (entity_value i)"

section \<open>The node of an entity\<close>

text \<open>
  The data of a node. The discovery source is compared with the enumerator, which a JSON string never
  equals. The switch on \<open>entity->kind\<close> is a case distinction on the reference: the constructors give
  every class its own kind.
\<close>

definition put_if_differs :: "string \<Rightarrow> json \<Rightarrow> json \<Rightarrow> bool json_action" where
  "put_if_differs k other v = js_at k (\<lambda>x. if x \<noteq> other then (Inr True, v) else (Inr False, x))"

definition endpoint_data :: "'q database \<Rightarrow> ('q, 'e) DDSEndpoint_scheme option \<Rightarrow> bool json_action" where
  "endpoint_data db x =
     (case x of None \<Rightarrow> js_throw NullDereference | Some x \<Rightarrow>
        js_bind (js_lift (fragile_get (topic_objs db) (ep_topic x))) (\<lambda>t.
        js_then (js_put ''topic'' (JString (id_string (e_id t))))
       (js_bind (js_put_changed ''app_id'' (JString (app_id_str (app_id x)))) (\<lambda>u1.
        js_bind (js_put_changed ''app_metadata'' (JString (app_metadata x))) (\<lambda>u2.
        js_return (u1 \<or> u2))))))"

definition participant_data :: "'q DomainParticipant option \<Rightarrow> bool json_action" where
  "participant_data x =
     (case x of None \<Rightarrow> js_throw NullDereference | Some x \<Rightarrow>
        js_bind (js_put_changed ''app_id'' (JString (app_id_str (app_id x)))) (\<lambda>u1.
        js_bind (js_put_changed ''app_metadata'' (JString (app_metadata x))) (\<lambda>u2.
        js_bind (js_put_changed ''dds_vendor'' (JString (dds_vendor_str (dds_vendor x)))) (\<lambda>u3.
        js_return (u1 \<or> u2 \<or> u3)))))"

definition process_data :: "Process option \<Rightarrow> bool json_action" where
  "process_data x =
     (case x of None \<Rightarrow> js_throw NullDereference | Some x \<Rightarrow>
        js_then (js_put ''pid'' (JString (pid x))) (js_return False))"

fun kind_data :: "'q database \<Rightarrow> entity_ref \<Rightarrow> bool json_action" where
  "kind_data db (ProcessRef a) = process_data (process_objs db a)"
| "kind_data db (ParticipantRef a) = participant_data (participant_objs db a)"
| "kind_data db (DataReaderRef a) = endpoint_data db (reader_objs db a)"
| "kind_data db (DataWriterRef a) = endpoint_data db (writer_objs db a)"
| "kind_data db _ = js_return False"

definition get_entity_subgraph_nts :: "'q database \<Rightarrow> EntityId \<Rightarrow> bool json_action" where
  "get_entity_subgraph_nts db i =
     js_bind (js_lift (get_entity_nts db i)) (\<lambda>r.
     js_bind (js_lift (case entity_of db r of None \<Rightarrow> Inl NullDereference | Some e \<Rightarrow> Inr e)) (\<lambda>e.
     let source = JString (discovery_source_str (e_discovery_source e)) in
     js_then (js_put ''kind'' (JString (entity_kind_str (e_kind e))))
    (js_then (js_put ''discovery_source'' source)
    (js_bind (put_if_differs ''discovery_source''
        (JNumber (discovery_source_value (e_discovery_source e))) source) (\<lambda>u1.
     js_bind (js_put_changed ''alias'' (JString (e_alias e))) (\<lambda>u2.
     js_then (js_put ''metatraffic'' (JBool (metatraffic e)))
    (js_bind (if ref_kind r \<noteq> TOPIC then js_put_changed ''status'' (JString (status_level_str (e_status e)))
              else js_return False) (\<lambda>u3.
     js_bind (kind_data db r) (\<lambda>u4.
     js_return (u1 \<or> u2 \<or> u3 \<or> u4))))))))))"

section \<open>Updates\<close>

text \<open>
  One level of an update: an entity that is active gets its node, in which the update goes on; the
  node of one that is not is erased, and the update ends. \<open>init\<close> is what is done with an empty node.
\<close>

definition update_level ::
  "'q database \<Rightarrow> string \<Rightarrow> unit json_action \<Rightarrow> EntityId \<Rightarrow> (bool \<Rightarrow> bool json_action) \<Rightarrow> bool \<Rightarrow> bool json_action"
  where
  "update_level db c init i rest upd =
     (if i = invalid_id \<or> i = all_id then js_return upd
      else js_bind (js_lift (is_active db i)) (\<lambda>b.
        if b
        then js_at c (js_at (id_string i) (js_then init
               (js_bind (get_entity_subgraph_nts db i) (\<lambda>u. rest (u \<or> upd)))))
        else js_at c (\<lambda>g. if js_has (id_string i) g
               then js_then (js_erase (id_string i)) (js_return True) g
               else (Inr upd, g))))"

definition init_node :: "string \<Rightarrow> unit json_action" where
  "init_node kids g = (if js_empty g then js_put kids (JObject []) g else (Inr (), g))"

text \<open>The sections of \<open>update_participant_in_graph_nts\<close>, from the host to the participant.\<close>

fun update_levels :: "'q database \<Rightarrow> (string \<times> string \<times> EntityId) list \<Rightarrow> bool \<Rightarrow> bool json_action" where
  "update_levels db [] upd = js_return upd"
| "update_levels db ((c, kids, i) # ls) upd =
     update_level db c (init_node kids) i (update_levels db ls) upd"

definition on_graph :: "EntityId \<Rightarrow> bool json_action \<Rightarrow> ('q, bool) action" where
  "on_graph d m db =
     (case om_find (domain_view_graph db) d of
        None \<Rightarrow> (Inr False, db)
      | Some g \<Rightarrow> (let (r, g') = m g in (r, db\<lparr>domain_view_graph := om_put d g' (domain_view_graph db)\<rparr>)))"

definition update_participant_in_graph_nts ::
  "EntityId \<Rightarrow> EntityId \<Rightarrow> EntityId \<Rightarrow> EntityId \<Rightarrow> EntityId \<Rightarrow> ('q, bool) action" where
  "update_participant_in_graph_nts d h u p x db =
     on_graph d (update_levels db
       [(''hosts'', ''users'', h), (''users'', ''processes'', u), (''processes'', ''participants'', p),
        (''participants'', ''endpoints'', x)] False) db"

text \<open>The identifiers above an entity; \<open>None\<close> where a reference is null.\<close>

definition above_user :: "'q database \<Rightarrow> User \<Rightarrow> EntityId option" where
  "above_user db u =
     (case fragile_lock (host_objs db) (u_host u) of
        None \<Rightarrow> None
      | Some a \<Rightarrow> Some (e_id (the (host_objs db a))))"

definition above_process :: "'q database \<Rightarrow> Process \<Rightarrow> (EntityId \<times> EntityId) option" where
  "above_process db p =
     (case fragile_lock (user_objs db) (p_user p) of
        None \<Rightarrow> None
      | Some b \<Rightarrow> map_option (Pair (e_id (the (user_objs db b)))) (above_user db (the (user_objs db b))))"

definition above_participant :: "'q database \<Rightarrow> 'q DomainParticipant \<Rightarrow> (EntityId \<times> EntityId \<times> EntityId) option"
  where
  "above_participant db x =
     (case fragile_lock (process_objs db) (dp_process x) of
        None \<Rightarrow> None
      | Some c \<Rightarrow> map_option (Pair (e_id (the (process_objs db c)))) (above_process db (the (process_objs db c))))"

text \<open>Going on in a node only when it is there.\<close>

definition enter_existing :: "string \<Rightarrow> EntityId \<Rightarrow> bool \<Rightarrow> bool json_action \<Rightarrow> bool json_action" where
  "enter_existing c i upd m =
     js_at c (\<lambda>g. if js_has (id_string i) g then js_at (id_string i) m g else (Inr upd, g))"

definition update_endpoint_node :: "'q database \<Rightarrow> EntityId \<Rightarrow> EntityId \<Rightarrow> bool \<Rightarrow> bool json_action" where
  "update_endpoint_node db x e upd =
     (if x = invalid_id \<or> x = all_id then js_return upd
      else js_bind (js_lift (get_entity_nts db x)) (\<lambda>r.
        js_bind (js_lift (case r of
            ParticipantRef a \<Rightarrow> (case participant_objs db a of None \<Rightarrow> Inl NullDereference | Some x \<Rightarrow> Inr x)
          | _ \<Rightarrow> Inl NullDereference)) (\<lambda>y.
        case above_participant db y of
          None \<Rightarrow> js_return upd
        | Some (p, u, h) \<Rightarrow>
            enter_existing ''hosts'' h upd (enter_existing ''users'' u upd (enter_existing ''processes'' p upd
              (enter_existing ''participants'' x upd
                (update_level db ''endpoints'' (js_return ()) e js_return upd)))))))"

definition update_endpoint_in_graph_nts ::
  "EntityId \<Rightarrow> EntityId \<Rightarrow> EntityId \<Rightarrow> EntityId \<Rightarrow> ('q, bool) action" where
  "update_endpoint_in_graph_nts d x t e db =
     on_graph d (js_bind (update_level db ''topics'' (js_return ()) t js_return False)
       (update_endpoint_node db x e)) db"

definition update_graph_on_updated_entity_nts :: "EntityId \<Rightarrow> EntityId \<Rightarrow> ('q, bool) action" where
  "update_graph_on_updated_entity_nts d i db =
     (let null = (Inl NullDereference, db); gone = (Inr False, db);
          endpoint = (\<lambda>p. case fragile_lock (participant_objs db) p of
              None \<Rightarrow> gone
            | Some a \<Rightarrow> update_endpoint_in_graph_nts d (e_id (the (participant_objs db a))) invalid_id i db)
      in case get_entity_nts db i of
          Inl e \<Rightarrow> (Inl e, db)
        | Inr (HostRef a) \<Rightarrow> update_participant_in_graph_nts d i invalid_id invalid_id invalid_id db
        | Inr (UserRef a) \<Rightarrow>
            (case user_objs db a of None \<Rightarrow> null | Some u \<Rightarrow>
              (case above_user db u of None \<Rightarrow> gone | Some h \<Rightarrow>
                update_participant_in_graph_nts d h i invalid_id invalid_id db))
        | Inr (ProcessRef a) \<Rightarrow>
            (case process_objs db a of None \<Rightarrow> null | Some p \<Rightarrow>
              (case above_process db p of None \<Rightarrow> gone | Some (u, h) \<Rightarrow>
                update_participant_in_graph_nts d h u i invalid_id db))
        | Inr (ParticipantRef a) \<Rightarrow>
            (case participant_objs db a of None \<Rightarrow> null | Some x \<Rightarrow>
              (case above_participant db x of None \<Rightarrow> gone | Some (p, u, h) \<Rightarrow>
                update_participant_in_graph_nts d h u p i db))
        | Inr (TopicRef a) \<Rightarrow> update_endpoint_in_graph_nts d invalid_id i invalid_id db
        | Inr (DataReaderRef a) \<Rightarrow>
            (case reader_objs db a of None \<Rightarrow> null | Some x \<Rightarrow> endpoint (ep_participant x))
        | Inr (DataWriterRef a) \<Rightarrow>
            (case writer_objs db a of None \<Rightarrow> null | Some x \<Rightarrow> endpoint (ep_participant x))
        | Inr _ \<Rightarrow> gone)"

section \<open>Initialisation and regeneration\<close>

definition domain_node :: "string \<Rightarrow> 32 word \<Rightarrow> unit json_action" where
  "domain_node n i =
     js_then (js_put ''kind'' (JString ''domain''))
    (js_then (js_at ''domain_info'' (js_put ''domain_name'' (JString n)))
    (js_then (js_at ''domain_info'' (js_put ''domain_id'' (JNumber (uint i))))
    (js_then (js_put ''topics'' (JObject [])) (js_put ''hosts'' (JObject [])))))"

text \<open>The documents are objects or missing, for which the assignments do not throw.\<close>

definition init_domain_view_graph_nts :: "string \<Rightarrow> 32 word \<Rightarrow> EntityId \<Rightarrow> ('q, unit) action" where
  "init_domain_view_graph_nts n i d db =
     (let (r, g) = domain_node n i (om_get JNull d (domain_view_graph db))
      in (r, db\<lparr>domain_view_graph := om_put d g (domain_view_graph db)\<rparr>))"

definition get_domain_view_graph_nts :: "EntityId \<Rightarrow> 'q database \<Rightarrow> json result" where
  "get_domain_view_graph_nts d db =
     (case om_find (domain_view_graph db) d of
        Some g \<Rightarrow> Inr g
      | None \<Rightarrow> Inl (BadParameter ''Invalid Domain EntityId''))"

text \<open>A loop over the entities found: a node for each that is active, filled by \<open>sub\<close>.\<close>

fun graph_children ::
  "'q database \<Rightarrow> string \<Rightarrow> (entity_ref \<Rightarrow> unit json_action) \<Rightarrow> entity_ref option list \<Rightarrow> unit json_action" where
  "graph_children db c sub [] = js_return ()"
| "graph_children db c sub (None # rs) = js_throw NullDereference"
| "graph_children db c sub (Some r # rs) =
     (case entity_of db r of
        None \<Rightarrow> js_throw NullDereference
      | Some x \<Rightarrow> js_then
          (if active x
           then js_at c (js_at (id_string (e_id x))
                  (js_then (js_bind (get_entity_subgraph_nts db (e_id x)) (\<lambda>_. js_return ())) (sub r)))
           else js_return ())
          (graph_children db c sub rs))"

definition graph_level ::
  "'q database \<Rightarrow> string \<Rightarrow> EntityKind \<Rightarrow> (entity_ref \<Rightarrow> unit json_action) \<Rightarrow> entity_ref \<Rightarrow> unit json_action" where
  "graph_level db c k sub r =
     js_then (js_put c (JObject []))
       (js_bind (js_lift (entities_from db k (Some r))) (graph_children db c sub))"

definition no_children :: "entity_ref \<Rightarrow> unit json_action" where
  "no_children r = js_return ()"

definition graph_endpoints :: "'q database \<Rightarrow> entity_ref \<Rightarrow> unit json_action" where
  "graph_endpoints db r =
     js_then (graph_level db ''endpoints'' DATAREADER no_children r)
       (js_bind (js_lift (entities_from db DATAWRITER (Some r))) (graph_children db ''endpoints'' no_children))"

definition graph_host :: "'q database \<Rightarrow> entity_ref \<Rightarrow> unit json_action" where
  "graph_host db =
     graph_level db ''users'' USER
       (graph_level db ''processes'' PROCESS
         (graph_level db ''participants'' PARTICIPANT (graph_endpoints db)))"

definition regenerate_domain_graph_nts :: "EntityId \<Rightarrow> ('q, bool) action" where
  "regenerate_domain_graph_nts d db =
     (if om_find (domain_view_graph db) d = None then (Inr False, db)
      else let keep = (\<lambda>g. db\<lparr>domain_view_graph := om_put d g (om_erase d (domain_view_graph db))\<rparr>)
       in case get_entity_nts db d of
           Inr (DomainRef a) \<Rightarrow>
             (case domain_objs db a of
                None \<Rightarrow> (Inl NullDereference, keep JNull)
              | Some x \<Rightarrow>
                  (let (r, g) =
                     js_then (domain_node (e_name x) (d_domain_id x))
                    (js_then (js_bind (js_lift (get_entities_nts db TOPIC d)) (graph_children db ''topics'' no_children))
                    (js_then (js_bind (js_lift (get_entities_nts db HOST d)) (graph_children db ''hosts'' (graph_host db)))
                      (js_return True))) JNull
                   in (r, keep g)))
         | Inr _ \<Rightarrow> (Inl UndefinedBehaviour, keep JNull)
         | Inl e \<Rightarrow> (Inl e, keep JNull))"

section \<open>What a node is made of\<close>

text \<open>A computation that changes nothing but the members in \<open>K\<close>, and the data of a node.\<close>

definition touches :: "string set \<Rightarrow> 'a json_action \<Rightarrow> bool" where
  "touches K m \<longleftrightarrow> (\<forall>g. js_obj g \<longrightarrow> js_obj (snd (m g)) \<and> (\<forall>k. k \<notin> K \<longrightarrow> member k (snd (m g)) = member k g))"

lemma touches_simps [intro!, simp]:
  "touches K (js_return x)" "touches K (js_throw e)" "touches K (js_lift r)"
  by (simp_all add: touches_def)

lemma touches_bind [intro]: "touches K m \<Longrightarrow> (\<And>x. touches K (f x)) \<Longrightarrow> touches K (js_bind m f)"
  by (auto simp: touches_def js_bind_def split: prod.split sum.split)

lemma touches_then [intro]: "touches K m \<Longrightarrow> touches K n \<Longrightarrow> touches K (js_then m n)"
  unfolding js_then_def by (rule touches_bind)

lemma touches_at [intro]: "k \<in> K \<Longrightarrow> touches K (js_at k m)"
proof (unfold touches_def, intro allI impI)
  fix g assume k: "k \<in> K" and g: "js_obj g"
  obtain r x where "m (member_or_null k g) = (r, x)" by fastforce
  from js_at_member [where k = k and m = m, OF g this] k
  show "js_obj (snd (js_at k m g)) \<and> (\<forall>k'. k' \<notin> K \<longrightarrow> member k' (snd (js_at k m g)) = member k' g)"
    by auto
qed

definition data_tags :: "string set" where
  "data_tags = {''kind'', ''discovery_source'', ''alias'', ''metatraffic'', ''status'', ''pid'', ''app_id'',
     ''app_metadata'', ''dds_vendor'', ''topic''}"

lemma touches_kind_data: "touches data_tags (kind_data db r)"
  by (cases r) (auto simp: process_data_def participant_data_def endpoint_data_def js_put_changed_def
      data_tags_def split: option.split intro!: touches_bind touches_then touches_at)

lemma touches_subgraph: "touches data_tags (get_entity_subgraph_nts db i)"
  unfolding get_entity_subgraph_nts_def Let_def js_put_changed_def put_if_differs_def
  by (intro touches_bind touches_then touches_kind_data) (auto simp: data_tags_def intro!: touches_bind touches_at)

text \<open>Entities whose node can always be filled: what an endpoint shows of its topic must exist.\<close>

definition showable :: "'q database \<Rightarrow> entity_ref \<Rightarrow> bool" where
  "showable db r \<longleftrightarrow> (case r of
     DataReaderRef a \<Rightarrow> (\<exists>x. reader_objs db a = Some x \<and> fragile_lock (topic_objs db) (ep_topic x) \<noteq> None)
   | DataWriterRef a \<Rightarrow> (\<exists>x. writer_objs db a = Some x \<and> fragile_lock (topic_objs db) (ep_topic x) \<noteq> None)
   | _ \<Rightarrow> entity_of db r \<noteq> None)"

definition node_shows :: "'a Entity_scheme \<Rightarrow> json \<Rightarrow> bool" where
  "node_shows x g \<longleftrightarrow>
     member ''kind'' g = Some (JString (entity_kind_str (e_kind x))) \<and>
     member ''discovery_source'' g = Some (JString (discovery_source_str (e_discovery_source x))) \<and>
     member ''alias'' g = Some (JString (e_alias x)) \<and>
     member ''metatraffic'' g = Some (JBool (metatraffic x))"

definition runs :: "'a json_action \<Rightarrow> json \<Rightarrow> ('a \<Rightarrow> json \<Rightarrow> bool) \<Rightarrow> bool" where
  "runs m g Q \<longleftrightarrow> (\<exists>x g'. m g = (Inr x, g') \<and> js_obj g' \<and> Q x g')"

lemma runs_bind:
  assumes "runs m g R" and "\<And>x g'. js_obj g' \<Longrightarrow> R x g' \<Longrightarrow> runs (f x) g' Q"
  shows "runs (js_bind m f) g Q"
  using assms unfolding runs_def js_bind_def by fastforce

lemma runs_lift [simp]: "runs (js_bind (js_lift (Inr x)) f) g Q = runs (f x) g Q"
  by (simp add: runs_def js_bind_def)

lemma runs_then: "runs m g R \<Longrightarrow> (\<And>x g'. js_obj g' \<Longrightarrow> R x g' \<Longrightarrow> runs n g' Q) \<Longrightarrow> runs (js_then m n) g Q"
  unfolding js_then_def by (rule runs_bind)

lemma runs_put: "js_obj g \<Longrightarrow> runs (js_put k v) g (\<lambda>_ g'. \<forall>k'. member k' g' = (if k' = k then Some v else member k' g))"
  using js_put_member [of g k v] by (auto simp: runs_def)

lemma runs_put_changed:
  "js_obj g \<Longrightarrow> runs (js_put_changed k v) g (\<lambda>_ g'. \<forall>k'. member k' g' = (if k' = k then Some v else member k' g))"
  using js_put_changed_member [of g k v] by (auto simp: runs_def)

lemma runs_at:
  assumes "js_obj g" and "runs m (member_or_null k g) Q"
  shows "runs (js_at k m) g (\<lambda>r g'. \<exists>x. Q r x \<and> js_obj x \<and> (\<forall>k'. member k' g' = (if k' = k then Some x else member k' g)))"
proof -
  obtain r x where "m (member_or_null k g) = (Inr r, x)" "js_obj x" "Q r x"
    using assms(2) by (auto simp: runs_def)
  with js_at_member [where k = k and m = m, OF assms(1) this(1)] show ?thesis by (auto simp: runs_def)
qed

lemma runs_return: "js_obj g \<Longrightarrow> Q x g \<Longrightarrow> runs (js_return x) g Q"
  by (simp add: runs_def)

lemma runs_weaken: "runs m g Q \<Longrightarrow> (\<And>x g'. js_obj g' \<Longrightarrow> Q x g' \<Longrightarrow> R x g') \<Longrightarrow> runs m g R"
  by (auto simp: runs_def)

lemma runs_put_if_differs:
  assumes "js_obj g" and "member k g = Some v" and "v \<noteq> other"
  shows "runs (put_if_differs k other v) g (\<lambda>u g'. u \<and> (\<forall>k'. member k' g' = member k' g))"
proof -
  have "(\<lambda>x. if x \<noteq> other then (Inr True, v) else (Inr False, x)) (member_or_null k g) = (Inr True, v)"
    using assms by simp
  from js_at_member [OF assms(1), of "\<lambda>x. if x \<noteq> other then (Inr True, v) else (Inr False, x)", OF this]
  obtain j' where "js_at k (\<lambda>x. if x \<noteq> other then (Inr True, v) else (Inr False, x)) g = (Inr True, j')"
    "js_obj j'" "\<forall>k'. member k' j' = (if k' = k then Some v else member k' g)" by blast
  then show ?thesis
    using assms(2) by (auto simp: runs_def put_if_differs_def)
qed

text \<open>What the data of the kind leave alone.\<close>

definition common_data :: "json \<Rightarrow> json option list" where
  "common_data g = map (\<lambda>k. member k g) [''kind'', ''discovery_source'', ''alias'', ''metatraffic'', ''status'']"

lemma endpoint_data_runs:
  assumes "fragile_lock (topic_objs db) (ep_topic x) \<noteq> None" and "js_obj g"
  shows "runs (endpoint_data db (Some x)) g (\<lambda>u g'. common_data g' = common_data g)"
proof -
  obtain t where t: "fragile_get (topic_objs db) (ep_topic x) = Inr t"
    using assms(1) by (auto simp: fragile_lock_def fragile_get_def split: option.splits)
  have "runs (js_then (js_put ''topic'' (JString (id_string (e_id t))))
     (js_bind (js_put_changed ''app_id'' (JString (app_id_str (app_id x)))) (\<lambda>u1.
      js_bind (js_put_changed ''app_metadata'' (JString (app_metadata x))) (\<lambda>u2.
      js_return (u1 \<or> u2))))) g (\<lambda>u g'. common_data g' = common_data g)"
    by (rule runs_then [OF runs_put [OF assms(2)]], rule runs_bind [OF runs_put_changed], assumption,
        rule runs_bind [OF runs_put_changed], assumption, rule runs_return) (simp_all add: common_data_def)
  then show ?thesis using t by (simp add: endpoint_data_def)
qed

lemma runs_kind_data:
  assumes "showable db r" and "js_obj g"
  shows "runs (kind_data db r) g (\<lambda>u g'. common_data g' = common_data g)"
proof -
  have p: "runs (participant_data (Some x)) g (\<lambda>u g'. common_data g' = common_data g)" for x :: "'a DomainParticipant"
    unfolding participant_data_def option.case
    by (rule runs_bind [OF runs_put_changed [OF assms(2)]], rule runs_bind [OF runs_put_changed], assumption,
        rule runs_bind [OF runs_put_changed], assumption, rule runs_return) (simp_all add: common_data_def)
  have q: "runs (process_data (Some x)) g (\<lambda>u g'. common_data g' = common_data g)" for x
    unfolding process_data_def option.case
    by (rule runs_then [OF runs_put [OF assms(2)]], rule runs_return) (simp_all add: common_data_def)
  show ?thesis
    using assms p q by (cases r) (auto simp: showable_def runs_return intro!: endpoint_data_runs)
qed

lemma subgraph_runs:
  assumes r: "get_entity_nts db i = Inr r" and s: "showable db r" and x: "entity_of db r = Some x" and g: "js_obj g"
  shows "runs (get_entity_subgraph_nts db i) g (\<lambda>u g'. u \<and> node_shows x g')"
proof -
  let ?src = "JString (discovery_source_str (e_discovery_source x))"
  have "runs (
     js_then (js_put ''kind'' (JString (entity_kind_str (e_kind x))))
    (js_then (js_put ''discovery_source'' ?src)
    (js_bind (put_if_differs ''discovery_source''
        (JNumber (discovery_source_value (e_discovery_source x))) ?src) (\<lambda>u1.
     js_bind (js_put_changed ''alias'' (JString (e_alias x))) (\<lambda>u2.
     js_then (js_put ''metatraffic'' (JBool (metatraffic x)))
    (js_bind (if ref_kind r \<noteq> TOPIC then js_put_changed ''status'' (JString (status_level_str (e_status x)))
              else js_return False) (\<lambda>u3.
     js_bind (kind_data db r) (\<lambda>u4.
     js_return (u1 \<or> u2 \<or> u3 \<or> u4))))))))) g (\<lambda>u g'. u \<and> node_shows x g')"
  proof (rule runs_then [OF runs_put [OF g]], rule runs_then [OF runs_put], assumption)
    fix g1 g2
    assume g2: "js_obj g2" "\<forall>k'. member k' g2 = (if k' = ''discovery_source'' then Some ?src else member k' g1)"
      and g1: "\<forall>k'. member k' g1 = (if k' = ''kind'' then Some (JString (entity_kind_str (e_kind x))) else member k' g)"
    have k2: "member ''kind'' g2 = Some (JString (entity_kind_str (e_kind x)))"
      "member ''discovery_source'' g2 = Some ?src"
      using g1 g2(2) by simp_all
    show "runs (js_bind (put_if_differs ''discovery_source''
        (JNumber (discovery_source_value (e_discovery_source x))) ?src) (\<lambda>u1.
     js_bind (js_put_changed ''alias'' (JString (e_alias x))) (\<lambda>u2.
     js_then (js_put ''metatraffic'' (JBool (metatraffic x)))
    (js_bind (if ref_kind r \<noteq> TOPIC then js_put_changed ''status'' (JString (status_level_str (e_status x)))
              else js_return False) (\<lambda>u3.
     js_bind (kind_data db r) (\<lambda>u4.
     js_return (u1 \<or> u2 \<or> u3 \<or> u4)))))) ) g2 (\<lambda>u g'. u \<and> node_shows x g')"
    proof (rule runs_bind [OF runs_put_if_differs [OF g2(1) k2(2)]], simp, elim conjE,
        rule runs_bind [OF runs_put_changed], assumption, rule runs_then [OF runs_put], assumption)
      fix u1 g3 u2 g4 u g5
      assume u1: "u1" and g3: "\<forall>k'. member k' g3 = member k' g2"
        and g4: "\<forall>k'. member k' g4 = (if k' = ''alias'' then Some (JString (e_alias x)) else member k' g3)"
        and g5: "js_obj g5" "\<forall>k'. member k' g5 = (if k' = ''metatraffic'' then Some (JBool (metatraffic x)) else member k' g4)"
      have n5: "node_shows x g5" using g3 g4 g5(2) k2 by (simp add: node_shows_def)
      have st: "runs (if ref_kind r \<noteq> TOPIC then js_put_changed ''status'' (JString (status_level_str (e_status x)))
              else js_return False) g5 (\<lambda>_ g'. \<forall>k'. k' \<noteq> ''status'' \<longrightarrow> member k' g' = member k' g5)"
        using runs_weaken [OF runs_put_changed [OF g5(1), of "''status''" "JString (status_level_str (e_status x))"]] g5(1)
        by (auto intro: runs_return)
      show "runs (js_bind (if ref_kind r \<noteq> TOPIC then js_put_changed ''status'' (JString (status_level_str (e_status x)))
              else js_return False) (\<lambda>u3. js_bind (kind_data db r) (\<lambda>u4. js_return (u1 \<or> u2 \<or> u3 \<or> u4))))
          g5 (\<lambda>u g'. u \<and> node_shows x g')"
        by (rule runs_bind [OF st], rule runs_bind [OF runs_kind_data [OF s]], assumption, rule runs_return)
          (use u1 n5 in \<open>simp_all add: node_shows_def common_data_def\<close>)
    qed
  qed
  then show ?thesis using r x by (simp add: get_entity_subgraph_nts_def Let_def)
qed

section \<open>The nodes of a graph\<close>

definition node :: "string \<Rightarrow> string \<Rightarrow> json \<Rightarrow> json option" where
  "node c i g = Option.bind (member c g) (member i)"

definition node_or_null :: "string \<Rightarrow> string \<Rightarrow> json \<Rightarrow> json" where
  "node_or_null c i g = (case node c i g of None \<Rightarrow> JNull | Some x \<Rightarrow> x)"

text \<open>
  A graph with nested containers \<open>cs\<close>, and whether it has a node under a path of identifiers, one for
  each container.
\<close>

fun shape :: "string list \<Rightarrow> json \<Rightarrow> bool" where
  "shape [] g = js_obj g"
| "shape (c # cs) g = (js_obj g \<and> (\<forall>j. member c g = Some j \<longrightarrow> js_obj j \<and> (\<forall>i x. member i j = Some x \<longrightarrow> shape cs x)))"

fun has_node :: "string list \<Rightarrow> string list \<Rightarrow> json \<Rightarrow> bool" where
  "has_node cs [] g = True"
| "has_node [] (i # is) g = False"
| "has_node (c # cs) (i # is) g = (case node c i g of None \<Rightarrow> False | Some x \<Rightarrow> has_node cs is x)"

lemma shape_obj: "shape cs g \<Longrightarrow> js_obj g"
  by (cases cs) simp_all

lemma shape_null [simp]: "shape cs JNull"
  by (cases cs) simp_all

lemma shape_node: "shape (c # cs) g \<Longrightarrow> shape cs (node_or_null c i g)"
  by (auto simp: node_or_null_def node_def split: option.split bind_splits)

lemma shape_cong:
  assumes "js_obj g'" and "\<And>k. k \<notin> data_tags \<Longrightarrow> member k g' = member k g" and "list_all (\<lambda>c. c \<notin> data_tags) cs"
    and "shape cs g"
  shows "shape cs g'"
  using assms by (cases cs) simp_all

lemma node_cong: "member c g' = member c g \<Longrightarrow> node c i g' = node c i g"
  by (simp add: node_def)

lemma has_node_cong:
  assumes "\<And>i. cs \<noteq> [] \<Longrightarrow> node (hd cs) i g' = node (hd cs) i g"
  shows "has_node cs p g' = has_node cs p g"
  using assms by (cases cs; cases p) simp_all

lemma node_null [simp]: "node c i JNull = None"
  by (simp add: node_def)

lemma has_node_null [simp]: "has_node cs p JNull \<longleftrightarrow> p = []"
  by (cases cs; cases p) (simp_all add: node_def)

lemma has_node_or_null: "has_node (c # cs) (i # p) g \<longleftrightarrow> node c i g \<noteq> None \<and> has_node cs p (node_or_null c i g)"
  by (auto simp: node_or_null_def split: option.split)

lemma runs_node:
  assumes g: "shape (c # cs) g" and m: "runs m (node_or_null c i g) Q" and Q: "\<And>x g'. Q x g' \<Longrightarrow> shape cs g'"
  shows "runs (js_at c (js_at i m)) g (\<lambda>r g'. \<exists>x. Q r x \<and> shape (c # cs) g' \<and>
    (\<forall>k. k \<noteq> c \<longrightarrow> member k g' = member k g) \<and> (\<forall>j. node c j g' = (if j = i then Some x else node c j g)))"
proof -
  let ?j = "member_or_null c g"
  have obj: "js_obj g" "js_obj ?j" using g by (auto simp: member_or_null_def split: option.split)
  have "member_or_null i ?j = node_or_null c i g"
    by (auto simp: member_or_null_def node_or_null_def node_def split: option.split)
  with m have "runs m (member_or_null i ?j) Q" by simp
  note R = runs_at [OF obj(1) runs_at [OF obj(2) this]]
  show ?thesis
  proof (rule runs_weaken [OF R])
    fix r g'
    assume obj': "js_obj g'"
      and "\<exists>y. (\<exists>x. Q r x \<and> js_obj x \<and> (\<forall>k. member k y = (if k = i then Some x else member k ?j))) \<and> js_obj y \<and>
        (\<forall>k. member k g' = (if k = c then Some y else member k g))"
    then obtain x y where x: "Q r x" and y: "js_obj y" "\<And>k. member k y = (if k = i then Some x else member k ?j)"
      and g': "\<And>k. member k g' = (if k = c then Some y else member k g)" by auto
    have mj: "member k ?j = node c k g" for k
      by (auto simp: member_or_null_def node_def split: option.split)
    have "shape cs z" if "member k y = Some z" for k z
      using that Q [OF x] g y(2) mj by (auto simp: node_def split: if_splits bind_splits)
    then show "\<exists>x. Q r x \<and> shape (c # cs) g' \<and> (\<forall>k. k \<noteq> c \<longrightarrow> member k g' = member k g) \<and>
        (\<forall>j. node c j g' = (if j = i then Some x else node c j g))"
      using x y obj' g' mj by (intro exI [of _ x]) (auto simp: node_def)
  qed
qed

lemma runs_drop:
  assumes g: "shape (c # cs) g"
  shows "runs (js_at c (\<lambda>g. if js_has i g then js_then (js_erase i) (js_return True) g else (Inr upd, g))) g
    (\<lambda>r g'. r = (upd \<or> node c i g \<noteq> None) \<and> shape (c # cs) g' \<and>
      (\<forall>k. k \<noteq> c \<longrightarrow> member k g' = member k g) \<and> (\<forall>j. node c j g' = (if j = i then None else node c j g)))"
proof -
  let ?j = "member_or_null c g" and ?m = "\<lambda>g. if js_has i g then js_then (js_erase i) (js_return True) g else (Inr upd, g)"
  have obj: "js_obj g" "js_obj ?j" using g by (auto simp: member_or_null_def split: option.split)
  have mj: "member k ?j = node c k g" for k
    by (auto simp: member_or_null_def node_def split: option.split)
  have "runs ?m ?j (\<lambda>r y. r = (upd \<or> node c i g \<noteq> None) \<and> (\<forall>k. member k y = (if k = i then None else member k ?j)))"
  proof (cases "js_has i ?j")
    case True
    then have "node c i g \<noteq> None" using js_has_member [OF obj(2), of i] mj by simp
    then show ?thesis
      using True js_erase_member [OF obj(2) True] by (auto simp: runs_def js_then_def js_bind_def)
  next
    case False
    then have "node c i g = None" using js_has_member [OF obj(2), of i] mj by simp
    then show ?thesis using False obj mj by (auto simp: runs_def)
  qed
  note R = runs_at [OF obj(1) this]
  show ?thesis
  proof (rule runs_weaken [OF R])
    fix r g'
    assume obj': "js_obj g'"
      and "\<exists>y. (r = (upd \<or> node c i g \<noteq> None) \<and> (\<forall>k. member k y = (if k = i then None else member k ?j))) \<and> js_obj y \<and>
        (\<forall>k. member k g' = (if k = c then Some y else member k g))"
    then obtain y where r: "r = (upd \<or> node c i g \<noteq> None)" and y: "js_obj y" "\<And>k. member k y = (if k = i then None else member k ?j)"
      and g': "\<And>k. member k g' = (if k = c then Some y else member k g)" by auto
    have "shape cs z" if "member k y = Some z" for k z
      using that g y(2) mj by (auto simp: node_def split: if_splits bind_splits)
    then show "r = (upd \<or> node c i g \<noteq> None) \<and> shape (c # cs) g' \<and> (\<forall>k. k \<noteq> c \<longrightarrow> member k g' = member k g) \<and>
        (\<forall>j. node c j g' = (if j = i then None else node c j g))"
      using r y obj' g' mj by (auto simp: node_def)
  qed
qed

section \<open>What an update does\<close>

text \<open>
  Of the identifiers of an update, those up to the first that is not valid count, and of these the
  ones up to the first that is not active get their nodes.
\<close>

definition update_path :: "EntityId list \<Rightarrow> EntityId list" where
  "update_path ids = takeWhile (\<lambda>i. i \<noteq> invalid_id \<and> i \<noteq> all_id) ids"

definition active_path :: "'q database \<Rightarrow> EntityId list \<Rightarrow> EntityId list" where
  "active_path db ids = takeWhile (\<lambda>i. is_active db i = Inr True) (update_path ids)"

definition known_path :: "'q database \<Rightarrow> EntityId list \<Rightarrow> bool" where
  "known_path db ids \<longleftrightarrow> (\<forall>i \<in> set (update_path ids). \<exists>r. get_entity_nts db i = Inr r \<and> showable db r)"

text \<open>The nodes after an update: those of the active path are there, those under the first inactive entity are not.\<close>

definition updated_nodes :: "'q database \<Rightarrow> EntityId list \<Rightarrow> (string list \<Rightarrow> bool) \<Rightarrow> string list \<Rightarrow> bool" where
  "updated_nodes db ids old p \<longleftrightarrow>
     prefix p (map id_string (active_path db ids)) \<or>
     old p \<and> \<not> (length (active_path db ids) < length (update_path ids) \<and>
       prefix (map id_string (take (Suc (length (active_path db ids))) (update_path ids))) p)"

lemma updated_nodes_invalid:
  "i = invalid_id \<or> i = all_id \<Longrightarrow> updated_nodes db (i # ids) old p \<longleftrightarrow> p = [] \<or> old p"
  by (auto simp: updated_nodes_def update_path_def active_path_def)

lemma updated_nodes_inactive:
  "i \<noteq> invalid_id \<Longrightarrow> i \<noteq> all_id \<Longrightarrow> is_active db i \<noteq> Inr True \<Longrightarrow>
     updated_nodes db (i # ids) old p \<longleftrightarrow> p = [] \<or> old p \<and> hd p \<noteq> id_string i"
  by (cases p) (auto simp: updated_nodes_def update_path_def active_path_def)

lemma updated_nodes_active:
  "i \<noteq> invalid_id \<Longrightarrow> i \<noteq> all_id \<Longrightarrow> is_active db i = Inr True \<Longrightarrow>
     updated_nodes db (i # ids) old (j # p) \<longleftrightarrow>
       (if j = id_string i then p = [] \<or> updated_nodes db ids (\<lambda>p. old (id_string i # p)) p else old (j # p))"
  by (auto simp: updated_nodes_def update_path_def active_path_def)

lemma known_path_Cons:
  "i \<noteq> invalid_id \<Longrightarrow> i \<noteq> all_id \<Longrightarrow> known_path db (i # ids) \<longleftrightarrow>
     (\<exists>r. get_entity_nts db i = Inr r \<and> showable db r) \<and> known_path db ids"
  by (auto simp: known_path_def update_path_def)

lemma showable_object: "showable db r \<Longrightarrow> \<exists>x. entity_of db r = Some x"
  by (cases r) (auto simp: showable_def)

lemma is_active_known:
  "get_entity_nts db i = Inr r \<Longrightarrow> entity_of db r = Some x \<Longrightarrow> is_active db i = Inr (active x)"
  by (simp add: is_active_def get_entity_field_def)

lemma subgraph_node_runs:
  assumes r: "get_entity_nts db i = Inr r" "showable db r" "entity_of db r = Some x"
    and g: "shape cs g" and cs: "list_all (\<lambda>c. c \<notin> data_tags) cs"
  shows "runs (get_entity_subgraph_nts db i) g (\<lambda>u g'. u \<and> node_shows x g' \<and> shape cs g' \<and>
    (\<forall>k. k \<notin> data_tags \<longrightarrow> member k g' = member k g))"
proof -
  have obj: "js_obj g" using g by (rule shape_obj)
  obtain g' where g': "get_entity_subgraph_nts db i g = (Inr True, g')" "js_obj g'" "node_shows x g'"
    using subgraph_runs [OF r obj] by (auto simp: runs_def)
  have "member k g' = member k g" if "k \<notin> data_tags" for k
    using touches_subgraph [of db i] obj that g'(1) unfolding touches_def by (metis snd_conv)
  moreover from shape_cong [OF g'(2) this cs g] have "shape cs g'" .
  ultimately show ?thesis using g' by (auto simp: runs_def)
qed

lemma init_node_runs:
  assumes g: "shape (d # cs) g" and d: "d \<notin> data_tags"
  shows "runs (init_node d) g (\<lambda>_ g'. shape (d # cs) g' \<and> (\<forall>i. node d i g' = node d i g) \<and>
    (\<forall>k. k \<noteq> d \<longrightarrow> member k g' = member k g))"
proof (cases "js_empty g")
  case True
  have obj: "js_obj g" using g by simp
  obtain g' where g': "js_put d (JObject []) g = (Inr (), g')" "js_obj g'"
    "\<And>k. member k g' = (if k = d then Some (JObject []) else member k g)"
    using js_put_member [OF obj, of d "JObject []"] by blast
  have "member d g = None" using True js_empty_member [OF obj] by simp
  then show ?thesis
    using True g' by (auto simp: init_node_def runs_def node_def)
qed (use g in \<open>auto simp: init_node_def runs_def\<close>)

fun level_containers :: "(string \<times> string \<times> EntityId) list \<Rightarrow> string list \<Rightarrow> bool" where
  "level_containers [] cs = True"
| "level_containers ((c, kids, i) # ls) cs =
     (case cs of c' # d # cs' \<Rightarrow> c = c' \<and> kids = d \<and> level_containers ls (d # cs') | _ \<Rightarrow> False)"

lemma update_levels_runs:
  assumes "level_containers ls cs" and "shape cs g" and "list_all (\<lambda>c. c \<notin> data_tags) cs"
    and "known_path db (map (\<lambda>(c, k, i). i) ls)"
  shows "runs (update_levels db ls upd) g (\<lambda>u g'. shape cs g' \<and>
    (u \<longleftrightarrow> upd \<or> active_path db (map (\<lambda>(c, k, i). i) ls) \<noteq> [] \<or>
       (\<exists>i. update_path (map (\<lambda>(c, k, i). i) ls) \<noteq> [] \<and> i = hd (update_path (map (\<lambda>(c, k, i). i) ls)) \<and>
         has_node cs [id_string i] g)) \<and>
    (\<forall>k. (cs = [] \<or> k \<noteq> hd cs) \<longrightarrow> member k g' = member k g) \<and>
    (\<forall>p. has_node cs p g' \<longleftrightarrow> updated_nodes db (map (\<lambda>(c, k, i). i) ls) (\<lambda>p. has_node cs p g) p))"
  using assms
proof (induction ls arbitrary: cs g upd)
  case Nil
  then show ?case
    by (auto simp: runs_def shape_obj updated_nodes_def active_path_def update_path_def)
next
  case (Cons l ls)
  obtain c d i cs' where l: "l = (c, d, i)" and cs: "cs = c # d # cs'" and lc: "level_containers ls (d # cs')"
    using Cons.prems(1) by (cases l; cases cs rule: remdups_adj.cases) auto
  let ?ids = "map (\<lambda>(c, k, i). i) ls"
  have tags: "c \<notin> data_tags" "d \<notin> data_tags" "list_all (\<lambda>c. c \<notin> data_tags) (d # cs')"
    using Cons.prems(3) by (simp_all add: cs)
  have g: "shape (c # d # cs') g" using Cons.prems(2) by (simp only: cs)
  show ?case
  proof (cases "i = invalid_id \<or> i = all_id")
    case True
    then show ?thesis
      using g by (auto simp: l cs update_level_def runs_def updated_nodes_invalid)
        (auto simp: active_path_def update_path_def)
  next
    case valid: False
    then obtain r where r: "get_entity_nts db i = Inr r" "showable db r" and known: "known_path db ?ids"
      using Cons.prems(4) by (auto simp: l known_path_Cons)
    obtain x where x: "entity_of db r = Some x" using showable_object [OF r(2)] by blast
    have act: "is_active db i = Inr (active x)" using is_active_known [OF r(1) x] .
    show ?thesis
    proof (cases "active x")
      case False
      have "runs (update_level db c (init_node d) i (update_levels db ls) upd) g
        (\<lambda>r g'. r = (upd \<or> node c (id_string i) g \<noteq> None) \<and> shape (c # d # cs') g' \<and>
          (\<forall>k. k \<noteq> c \<longrightarrow> member k g' = member k g) \<and>
          (\<forall>j. node c j g' = (if j = id_string i then None else node c j g)))"
        using runs_drop [OF g, of "id_string i" upd] valid act False by (simp add: update_level_def)
      then show ?thesis
        unfolding l update_levels.simps
      proof (rule runs_weaken, elim conjE)
        fix u g'
        assume g': "shape (c # d # cs') g'" "\<forall>j. node c j g' = (if j = id_string i then None else node c j g)"
          and u: "u = (upd \<or> node c (id_string i) g \<noteq> None)" and m: "\<forall>k. k \<noteq> c \<longrightarrow> member k g' = member k g"
        have ns: "has_node cs p g' \<longleftrightarrow> updated_nodes db (i # ?ids) (\<lambda>p. has_node cs p g) p" for p
          using valid act False g'(2) by (cases p) (auto simp: updated_nodes_inactive cs)
        have "active_path db (i # ?ids) = []" "update_path (i # ?ids) = i # update_path ?ids"
          using valid act False by (simp_all add: active_path_def update_path_def)
        then show "shape cs g' \<and> (u \<longleftrightarrow> upd \<or> active_path db (map (\<lambda>(c, k, i). i) ((c, d, i) # ls)) \<noteq> [] \<or>
          (\<exists>ia. update_path (map (\<lambda>(c, k, i). i) ((c, d, i) # ls)) \<noteq> [] \<and>
            ia = hd (update_path (map (\<lambda>(c, k, i). i) ((c, d, i) # ls))) \<and> has_node cs [id_string ia] g)) \<and>
          (\<forall>k. (cs = [] \<or> k \<noteq> hd cs) \<longrightarrow> member k g' = member k g) \<and>
          (\<forall>p. has_node cs p g' \<longleftrightarrow> updated_nodes db (map (\<lambda>(c, k, i). i) ((c, d, i) # ls)) (\<lambda>p. has_node cs p g) p)"
          using g'(1) u m ns by (auto simp: cs split: option.splits)
      qed
    next
      case True
      let ?n = "node_or_null c (id_string i) g"
      let ?Q = "\<lambda>u y. u \<and> shape (d # cs') y \<and> (\<forall>p. has_node (d # cs') p y \<longleftrightarrow>
          updated_nodes db ?ids (\<lambda>p. has_node (d # cs') p ?n) p)"
      have n: "shape (d # cs') ?n" using g by (rule shape_node)
      have "runs (js_then (init_node d) (js_bind (get_entity_subgraph_nts db i) (\<lambda>u. update_levels db ls (u \<or> upd)))) ?n ?Q"
      proof (rule runs_then [OF init_node_runs [OF n tags(2)]], elim conjE)
        fix g1 assume g1: "shape (d # cs') g1" "\<forall>j. node d j g1 = node d j ?n"
        show "runs (js_bind (get_entity_subgraph_nts db i) (\<lambda>u. update_levels db ls (u \<or> upd))) g1 ?Q"
        proof (rule runs_bind [OF subgraph_node_runs [OF r x g1(1) tags(3)]], elim conjE)
          fix u g2 assume u: u and g2: "shape (d # cs') g2" "\<forall>k. k \<notin> data_tags \<longrightarrow> member k g2 = member k g1"
          have "node d j g2 = node d j ?n" for j
            using g1(2) g2(2) tags(2) by (simp add: node_def)
          then have old: "(\<lambda>p. has_node (d # cs') p g2) = (\<lambda>p. has_node (d # cs') p ?n)"
            by (intro ext has_node_cong) simp
          show "runs (update_levels db ls (u \<or> upd)) g2 ?Q"
            by (rule runs_weaken [OF Cons.IH [OF lc g2(1) tags(3) known, of "u \<or> upd", unfolded old]])
              (use u in blast)
        qed
      qed
      note R = runs_node [where Q = ?Q, OF g this]
      have path: "active_path db (i # ?ids) = i # active_path db ?ids" "update_path (i # ?ids) = i # update_path ?ids"
        using valid act True by (simp_all add: active_path_def update_path_def)
      have "runs (update_level db c (init_node d) i (update_levels db ls) upd) g
        (\<lambda>r g'. \<exists>y. ?Q r y \<and> shape (c # d # cs') g' \<and> (\<forall>k. k \<noteq> c \<longrightarrow> member k g' = member k g) \<and>
          (\<forall>j. node c j g' = (if j = id_string i then Some y else node c j g)))"
        using R valid act True by (simp add: update_level_def)
      then show ?thesis
        unfolding l update_levels.simps
      proof (rule runs_weaken, elim exE conjE)
        fix u g' y
        assume u: u and y: "\<forall>p. has_node (d # cs') p y \<longleftrightarrow> updated_nodes db ?ids (\<lambda>p. has_node (d # cs') p ?n) p"
          and g': "shape (c # d # cs') g'" "\<forall>j. node c j g' = (if j = id_string i then Some y else node c j g)"
          and m: "\<forall>k. k \<noteq> c \<longrightarrow> member k g' = member k g"
        have old: "p = [] \<or> updated_nodes db ?ids (\<lambda>p. has_node cs (id_string i # p) g) p \<longleftrightarrow>
            updated_nodes db ?ids (\<lambda>p. has_node (d # cs') p ?n) p" for p
          by (cases p) (auto simp: cs updated_nodes_def node_or_null_def split: option.splits)
        have ns: "has_node cs p g' \<longleftrightarrow> updated_nodes db (i # ?ids) (\<lambda>p. has_node cs p g) p" for p
        proof (cases p)
          case Nil
          then show ?thesis by (simp add: updated_nodes_def)
        next
          case (Cons j q)
          then show ?thesis
            using valid act True g'(2) y old [of q] by (auto simp: updated_nodes_active) (auto simp: cs)
        qed
        show "shape cs g' \<and> (u \<longleftrightarrow> upd \<or> active_path db (map (\<lambda>(c, k, i). i) ((c, d, i) # ls)) \<noteq> [] \<or>
          (\<exists>ia. update_path (map (\<lambda>(c, k, i). i) ((c, d, i) # ls)) \<noteq> [] \<and>
            ia = hd (update_path (map (\<lambda>(c, k, i). i) ((c, d, i) # ls))) \<and> has_node cs [id_string ia] g)) \<and>
          (\<forall>k. (cs = [] \<or> k \<noteq> hd cs) \<longrightarrow> member k g' = member k g) \<and>
          (\<forall>p. has_node cs p g' \<longleftrightarrow> updated_nodes db (map (\<lambda>(c, k, i). i) ((c, d, i) # ls)) (\<lambda>p. has_node cs p g) p)"
          using g'(1) u m ns path by (simp add: cs)
      qed
    qed
  qed
qed

section \<open>What the regeneration builds\<close>

lemma to_string_int_inj: "to_string_int i = to_string_int j \<longleftrightarrow> i = j"
proof -
  have d: "hd (digits_of n) \<noteq> CHR ''-''" for n
  proof (induction n rule: digits_of.induct)
    case (1 n)
    have "char_of (n + 48) \<noteq> CHR ''-''" if "n < 10"
    proof
      assume "char_of (n + 48) = CHR ''-''"
      then have "of_char (char_of (n + 48) :: char) = (of_char CHR ''-'' :: nat)" by simp
      then show False using that by (simp add: of_char_of)
    qed
    then show ?case
      using 1 by (subst digits_of.simps) (simp add: digits_of_not_empty)
  qed
  have "digits_of m \<noteq> CHR ''-'' # xs" for m xs using d [of m] by (cases "digits_of m") auto
  from this this [symmetric] show ?thesis
    by (auto simp: to_string_int_def digits_of_inj)
qed

lemma id_string_inj: "id_string i = id_string j \<longleftrightarrow> i = j"
  by (auto simp: id_string_def to_string_int_inj EntityId.expand)

definition named_child :: "'q database \<Rightarrow> entity_ref option list \<Rightarrow> string \<Rightarrow> entity_ref \<Rightarrow> bool" where
  "named_child db rs j r \<longleftrightarrow> Some r \<in> set rs \<and> (\<exists>x. entity_of db r = Some x \<and> active x \<and> id_string (e_id x) = j)"

definition fills :: "string list \<Rightarrow> unit json_action \<Rightarrow> (string list \<Rightarrow> bool) \<Rightarrow> bool" where
  "fills cs m P \<longleftrightarrow> (\<forall>y. shape cs y \<longrightarrow> runs m y (\<lambda>_ y'. shape cs y' \<and> (\<forall>p. has_node cs p y' \<longleftrightarrow> P p)))"

text \<open>A list of children that can be shown, each filled as \<open>P\<close> says.\<close>

definition good_children ::
  "'q database \<Rightarrow> string list \<Rightarrow> (entity_ref \<Rightarrow> unit json_action) \<Rightarrow> (entity_ref \<Rightarrow> string list \<Rightarrow> bool) \<Rightarrow>
   entity_ref option list \<Rightarrow> bool" where
  "good_children db cs sub P rs \<longleftrightarrow> (\<forall>r \<in> set rs. \<exists>r' x. r = Some r' \<and> entity_of db r' = Some x \<and>
     get_entity_nts db (e_id x) = Inr r' \<and> showable db r' \<and> fills cs (sub r') (P r'))"

lemma named_child_unique:
  assumes "good_children db cs sub P rs" and "good_children db cs' sub' P' rs'"
    and "named_child db rs j r" and "named_child db rs' j r'"
  shows "r = r'"
proof -
  obtain x where x: "Some r \<in> set rs" "entity_of db r = Some x" "id_string (e_id x) = j"
    using assms(3) by (auto simp: named_child_def)
  obtain y where y: "Some r' \<in> set rs'" "entity_of db r' = Some y" "id_string (e_id y) = j"
    using assms(4) by (auto simp: named_child_def)
  have "get_entity_nts db (e_id x) = Inr r" using assms(1) x(1,2) by (fastforce simp: good_children_def)
  moreover have "get_entity_nts db (e_id y) = Inr r'" using assms(2) y(1,2) by (fastforce simp: good_children_def)
  moreover have "e_id x = e_id y" using x(3) y(3) by (simp add: id_string_inj [symmetric])
  ultimately show ?thesis by simp
qed

lemma good_children_Cons:
  "good_children db cs sub P (r # rs) \<longleftrightarrow> (\<exists>r' x. r = Some r' \<and> entity_of db r' = Some x \<and>
     get_entity_nts db (e_id x) = Inr r' \<and> showable db r' \<and> fills cs (sub r') (P r')) \<and> good_children db cs sub P rs"
  by (auto simp: good_children_def)

lemma named_child_Cons:
  "entity_of db r = Some x \<Longrightarrow> named_child db (Some r # rs) j r' \<longleftrightarrow>
     r' = r \<and> active x \<and> id_string (e_id x) = j \<or> named_child db rs j r'"
  by (auto simp: named_child_def)

text \<open>The node of one child.\<close>

lemma graph_child_runs:
  assumes r: "get_entity_nts db (e_id x) = Inr r" "showable db r" "entity_of db r = Some x"
    and f: "fills cs (sub r) P" and g: "shape (c # cs) g" and tags: "list_all (\<lambda>c. c \<notin> data_tags) (c # cs)"
  shows "runs (js_at c (js_at (id_string (e_id x))
      (js_then (js_bind (get_entity_subgraph_nts db (e_id x)) (\<lambda>_. js_return ())) (sub r)))) g
    (\<lambda>_ g'. shape (c # cs) g' \<and> (\<forall>k. k \<noteq> c \<longrightarrow> member k g' = member k g) \<and>
      (\<forall>j p. has_node (c # cs) (j # p) g' \<longleftrightarrow> (if j = id_string (e_id x) then P p else has_node (c # cs) (j # p) g)))"
proof -
  let ?n = "node_or_null c (id_string (e_id x)) g"
  have n: "shape cs ?n" using g by (rule shape_node)
  have "runs (js_then (js_bind (get_entity_subgraph_nts db (e_id x)) (\<lambda>_. js_return ())) (sub r)) ?n
    (\<lambda>_ y. shape cs y \<and> (\<forall>p. has_node cs p y \<longleftrightarrow> P p))"
  proof (rule runs_then)
    show "runs (js_bind (get_entity_subgraph_nts db (e_id x)) (\<lambda>_. js_return ())) ?n (\<lambda>_ y. shape cs y)"
      by (rule runs_bind [OF subgraph_node_runs [OF r n]]) (use tags in \<open>auto intro: runs_return\<close>)
  qed (use f in \<open>simp add: fills_def\<close>)
  note R = runs_node [where Q = "\<lambda>_ y. shape cs y \<and> (\<forall>p. has_node cs p y \<longleftrightarrow> P p)", OF g this]
  show ?thesis
    by (rule runs_weaken [OF R]) (auto simp: split: option.splits)
qed

lemma graph_children_runs:
  assumes "good_children db cs sub P rs" and "shape (c # cs) g" and "list_all (\<lambda>c. c \<notin> data_tags) (c # cs)"
  shows "runs (graph_children db c sub rs) g (\<lambda>_ g'. shape (c # cs) g' \<and> (\<forall>k. k \<noteq> c \<longrightarrow> member k g' = member k g) \<and>
    (\<forall>j p. has_node (c # cs) (j # p) g' \<longleftrightarrow>
      (\<exists>r'. named_child db rs j r' \<and> P r' p) \<or> (\<nexists>r'. named_child db rs j r') \<and> has_node (c # cs) (j # p) g))"
  using assms(1,2)
proof (induction rs arbitrary: g)
  case Nil
  then show ?case by (auto simp: named_child_def runs_def)
next
  case (Cons r0 rs)
  obtain r x where r0: "r0 = Some r" and r: "get_entity_nts db (e_id x) = Inr r" "showable db r" "entity_of db r = Some x"
    and f: "fills cs (sub r) (P r)" and rs: "good_children db cs sub P rs"
    using Cons.prems(1) unfolding good_children_Cons by blast
  show ?case
  proof (cases "active x")
    case False
    then have "named_child db (Some r # rs) = named_child db rs" by (auto simp: fun_eq_iff named_child_Cons [OF r(3)])
    then show ?thesis
      using Cons.IH [OF rs Cons.prems(2)] False r(3) by (simp add: r0 js_then_def js_bind_def)
  next
    case True
    have c: "graph_children db c sub (r0 # rs) = js_then (js_at c (js_at (id_string (e_id x))
      (js_then (js_bind (get_entity_subgraph_nts db (e_id x)) (\<lambda>_. js_return ())) (sub r)))) (graph_children db c sub rs)"
      using True r(3) by (simp add: r0)
    have same: "P r' p = P r p" if "named_child db rs (id_string (e_id x)) r'" for r' p
    proof -
      have "named_child db [Some r] (id_string (e_id x)) r" using r(3) True by (simp add: named_child_def)
      moreover have "good_children db cs sub P [Some r]" using r f by (simp add: good_children_def)
      ultimately show ?thesis using named_child_unique [OF rs _ that] by blast
    qed
    show ?thesis
      unfolding c
    proof (rule runs_then [OF graph_child_runs [where sub = sub, OF r f Cons.prems(2) assms(3)]], elim conjE)
      fix g1 assume g1: "shape (c # cs) g1" "\<forall>k. k \<noteq> c \<longrightarrow> member k g1 = member k g"
        "\<forall>j p. has_node (c # cs) (j # p) g1 \<longleftrightarrow> (if j = id_string (e_id x) then P r p else has_node (c # cs) (j # p) g)"
      show "runs (graph_children db c sub rs) g1 (\<lambda>_ g'. shape (c # cs) g' \<and> (\<forall>k. k \<noteq> c \<longrightarrow> member k g' = member k g) \<and>
        (\<forall>j p. has_node (c # cs) (j # p) g' \<longleftrightarrow>
          (\<exists>r'. named_child db (r0 # rs) j r' \<and> P r' p) \<or> (\<nexists>r'. named_child db (r0 # rs) j r') \<and> has_node (c # cs) (j # p) g))"
      proof (rule runs_weaken [OF Cons.IH [OF rs g1(1)]], elim conjE)
        fix u g'
        assume a: "shape (c # cs) g'" "\<forall>k. k \<noteq> c \<longrightarrow> member k g' = member k g1"
          and b: "\<forall>j p. has_node (c # cs) (j # p) g' \<longleftrightarrow>
            (\<exists>r'. named_child db rs j r' \<and> P r' p) \<or> (\<nexists>r'. named_child db rs j r') \<and> has_node (c # cs) (j # p) g1"
        have "has_node (c # cs) (j # p) g' \<longleftrightarrow>
          (\<exists>r'. named_child db (r0 # rs) j r' \<and> P r' p) \<or> (\<nexists>r'. named_child db (r0 # rs) j r') \<and> has_node (c # cs) (j # p) g" for j p
        proof (cases "j = id_string (e_id x)")
          case True
          have l: "has_node (c # cs) (j # p) g' \<longleftrightarrow>
              (\<exists>r'. named_child db rs j r' \<and> P r' p) \<or> (\<nexists>r'. named_child db rs j r') \<and> P r p"
            using b g1(3) True by simp
          have n: "named_child db (r0 # rs) j r' \<longleftrightarrow> r' = r \<or> named_child db rs j r'" for r'
            using True \<open>active x\<close> by (simp add: r0 named_child_Cons [OF r(3)])
          have s: "named_child db rs j r' \<Longrightarrow> P r' p = P r p" for r' using same True by simp
          show ?thesis unfolding l n using s by auto
        next
          case False
          then show ?thesis
            using b g1(3) by (simp only: r0 named_child_Cons [OF r(3)]) simp
        qed
        then show "shape (c # cs) g' \<and> (\<forall>k. k \<noteq> c \<longrightarrow> member k g' = member k g) \<and>
          (\<forall>j p. has_node (c # cs) (j # p) g' \<longleftrightarrow>
          (\<exists>r'. named_child db (r0 # rs) j r' \<and> P r' p) \<or> (\<nexists>r'. named_child db (r0 # rs) j r') \<and> has_node (c # cs) (j # p) g)"
          using a g1(2) by (intro conjI allI impI) simp_all
      qed
    qed
  qed
qed

lemma graph_level_runs:
  assumes e: "entities_from db k (Some r) = Inr rs" and good: "good_children db cs sub P rs"
    and g: "shape (c # cs) g" and tags: "list_all (\<lambda>c. c \<notin> data_tags) (c # cs)"
  shows "runs (graph_level db c k sub r) g (\<lambda>_ g'. shape (c # cs) g' \<and> (\<forall>k. k \<noteq> c \<longrightarrow> member k g' = member k g) \<and>
    (\<forall>j p. has_node (c # cs) (j # p) g' \<longleftrightarrow> (\<exists>r'. named_child db rs j r' \<and> P r' p)))"
proof -
  have obj: "js_obj g" using g by simp
  show ?thesis
    unfolding graph_level_def
  proof (rule runs_then [OF runs_put [OF obj]])
    fix g1 assume o: "js_obj g1" and m: "\<forall>k'. member k' g1 = (if k' = c then Some (JObject []) else member k' g)"
    have g1: "shape (c # cs) g1" "\<And>j. node c j g1 = None" using o m by (auto simp: node_def)
    show "runs (js_bind (js_lift (entities_from db k (Some r))) (graph_children db c sub)) g1
      (\<lambda>_ g'. shape (c # cs) g' \<and> (\<forall>k. k \<noteq> c \<longrightarrow> member k g' = member k g) \<and>
    (\<forall>j p. has_node (c # cs) (j # p) g' \<longleftrightarrow> (\<exists>r'. named_child db rs j r' \<and> P r' p)))"
      unfolding e runs_lift
      by (rule runs_weaken [OF graph_children_runs [OF good g1(1) tags]]) (use m g1(2) in auto)
  qed
qed

section \<open>The graph and the tree\<close>

text \<open>The entities directly below another one, and the paths of active entities below it.\<close>

fun below :: "'q database \<Rightarrow> entity_ref \<Rightarrow> entity_ref \<Rightarrow> bool" where
  "below db (ParticipantRef a) (DataReaderRef b) \<longleftrightarrow>
     b \<in> snd ` set (dp_data_readers (the (participant_objs db a))) \<and> reader_objs db b \<noteq> None"
| "below db (ParticipantRef a) (DataWriterRef b) \<longleftrightarrow>
     b \<in> snd ` set (dp_data_writers (the (participant_objs db a))) \<and> writer_objs db b \<noteq> None"
| "below db r r' \<longleftrightarrow> in_tree db r' \<and> tree_parent db r' = Some r"

fun active_branch :: "'q database \<Rightarrow> entity_ref \<Rightarrow> string list \<Rightarrow> bool" where
  "active_branch db r [] = True"
| "active_branch db r (j # p) = (\<exists>r' x. below db r r' \<and> entity_of db r' = Some x \<and> active x \<and>
     id_string (e_id x) = j \<and> active_branch db r' p)"

lemma active_branch_named:
  assumes "\<And>r'. Some r' \<in> set rs \<longleftrightarrow> below db r r'"
  shows "(\<exists>r'. named_child db rs j r' \<and> active_branch db r' p) \<longleftrightarrow> active_branch db r (j # p)"
  using assms by (auto simp: named_child_def)

lemma fills_children:
  assumes e: "entities_from db k (Some r) = Inr rs" and good: "good_children db cs sub (active_branch db) rs"
    and below: "\<And>r'. Some r' \<in> set rs \<longleftrightarrow> below db r r'" and tags: "list_all (\<lambda>c. c \<notin> data_tags) (c # cs)"
  shows "fills (c # cs) (graph_level db c k sub r) (active_branch db r)"
  unfolding fills_def
proof (intro allI impI)
  fix y assume y: "shape (c # cs) y"
  show "runs (graph_level db c k sub r) y (\<lambda>_ y'. shape (c # cs) y' \<and> (\<forall>p. has_node (c # cs) p y' = active_branch db r p))"
  proof (rule runs_weaken [OF graph_level_runs [OF e good y tags]], elim conjE, intro conjI allI)
    fix g' p
    assume h: "\<forall>j p. has_node (c # cs) (j # p) g' = (\<exists>r'. named_child db rs j r' \<and> active_branch db r' p)"
    show "has_node (c # cs) p g' = active_branch db r p"
      using h active_branch_named [OF below] by (cases p) (simp, metis)
  qed
qed

definition showable_all :: "'q database \<Rightarrow> bool" where
  "showable_all db \<longleftrightarrow> (\<forall>r. entity_of db r \<noteq> None \<longrightarrow> showable db r)"

definition graph_ready :: "'q database \<Rightarrow> bool" where
  "graph_ready db \<longleftrightarrow> db_inv db \<and> phys_inv db \<and> stores_held db \<and> showable_all db"

lemma good_childrenI:
  assumes "graph_ready db"
    and "\<And>r. r \<in> set rs \<Longrightarrow> \<exists>r'. r = Some r' \<and> entity_of db r' \<noteq> None \<and> fills cs (sub r') (P r')"
  shows "good_children db cs sub P rs"
proof (unfold good_children_def, rule ballI)
  fix r assume "r \<in> set rs"
  then obtain r' x where r: "r = Some r'" "entity_of db r' = Some x" "fills cs (sub r') (P r')"
    using assms(2) by blast
  then show "\<exists>r' x. r = Some r' \<and> entity_of db r' = Some x \<and> get_entity_nts db (e_id x) = Inr r' \<and>
      showable db r' \<and> fills cs (sub r') (P r')"
    using assms(1) held_lookup [OF _ _ r(2)] by (auto simp: graph_ready_def showable_all_def)
qed

lemma fills_no_children:
  assumes "\<And>r'. \<not> below db r r'"
  shows "fills [] (no_children r) (active_branch db r)"
proof -
  have "has_node [] p y \<longleftrightarrow> active_branch db r p" for p y using assms by (cases p) auto
  then show ?thesis by (auto simp: fills_def no_children_def runs_def)
qed

lemma nothing_below:
  "\<not> below db (DataReaderRef b) r'" "\<not> below db (DataWriterRef b) r'" "\<not> below db (TopicRef b) r'"
  by (cases r'; simp)+

lemma below_tree:
  "below db (HostRef a) r' \<longleftrightarrow> (\<exists>b. r' = UserRef b \<and> b \<in> user_addrs db \<and> u_host (the (user_objs db b)) = Some a)"
  "below db (UserRef a) r' \<longleftrightarrow> (\<exists>b. r' = ProcessRef b \<and> b \<in> process_addrs db \<and> p_user (the (process_objs db b)) = Some a)"
  "below db (ProcessRef a) r' \<longleftrightarrow>
     (\<exists>b. r' = ParticipantRef b \<and> b \<in> participant_addrs db \<and> dp_process (the (participant_objs db b)) = Some a)"
  by (cases r'; auto)+

lemma below_participant:
  "below db (ParticipantRef a) r' \<longleftrightarrow>
     (\<exists>b. r' = DataReaderRef b \<and> b \<in> snd ` set (dp_data_readers (the (participant_objs db a))) \<and> reader_objs db b \<noteq> None) \<or>
     (\<exists>b. r' = DataWriterRef b \<and> b \<in> snd ` set (dp_data_writers (the (participant_objs db a))) \<and> writer_objs db b \<noteq> None)"
  by (cases r') auto

declare below.simps [simp del]

lemma tree_object:
  assumes "phys_inv db"
  shows "b \<in> user_addrs db \<Longrightarrow> \<exists>x. user_objs db b = Some x" "c \<in> process_addrs db \<Longrightarrow> \<exists>x. process_objs db c = Some x"
    "d \<in> participant_addrs db \<Longrightarrow> \<exists>x. participant_objs db d = Some x" "a \<in> host_addrs db \<Longrightarrow> \<exists>x. host_objs db a = Some x"
  by (auto dest: tree_facts(1-4) [OF assms])

lemma live_refs_mem: "Some r \<in> set (live_refs c h m) \<longleftrightarrow> (\<exists>b. r = c b \<and> b \<in> snd ` set m \<and> h b \<noteq> None)"
  by (force simp: live_refs_def fragile_expired_def fragile_lock_def split: option.splits)

lemma live_refs_Some: "r \<in> set (live_refs c h m) \<Longrightarrow> \<exists>b y. r = Some (c b) \<and> h b = Some y"
  by (force simp: live_refs_def fragile_expired_def fragile_lock_def split: option.splits)

lemma fills_participant:
  assumes ready: "graph_ready db" and a: "a \<in> participant_addrs db"
  shows "fills [''endpoints''] (graph_endpoints db (ParticipantRef a)) (active_branch db (ParticipantRef a))"
  unfolding fills_def
proof (intro allI impI)
  fix y assume y: "shape [''endpoints''] y"
  obtain x where x: "participant_objs db a = Some x"
    using tree_facts(4) [OF _ a] ready by (auto simp: graph_ready_def)
  let ?r = "live_refs DataReaderRef (reader_objs db) (dp_data_readers x)"
  let ?w = "live_refs DataWriterRef (writer_objs db) (dp_data_writers x)"
  have e: "entities_from db DATAREADER (Some (ParticipantRef a)) = Inr ?r"
    "entities_from db DATAWRITER (Some (ParticipantRef a)) = Inr ?w"
    using x by (simp_all add: entities_from.simps)
  have good: "good_children db [] no_children (active_branch db) ?r" "good_children db [] no_children (active_branch db) ?w"
    by (rule good_childrenI [OF ready], drule live_refs_Some, auto intro!: fills_no_children simp: nothing_below)+
  have tags: "list_all (\<lambda>c. c \<notin> data_tags) [''endpoints'']" by (simp add: data_tags_def)
  have b: "below db (ParticipantRef a) r' \<longleftrightarrow> Some r' \<in> set ?r \<or> Some r' \<in> set ?w" for r'
    by (auto simp: below_participant live_refs_mem x)
  show "runs (graph_endpoints db (ParticipantRef a)) y
    (\<lambda>_ y'. shape [''endpoints''] y' \<and> (\<forall>p. has_node [''endpoints''] p y' = active_branch db (ParticipantRef a) p))"
    unfolding graph_endpoints_def
  proof (rule runs_then [OF graph_level_runs [OF e(1) good(1) y tags]], elim conjE)
    fix g1 assume g1: "shape [''endpoints''] g1"
      "\<forall>j p. has_node [''endpoints''] (j # p) g1 = (\<exists>r'. named_child db ?r j r' \<and> active_branch db r' p)"
    show "runs (js_bind (js_lift (entities_from db DATAWRITER (Some (ParticipantRef a)))) (graph_children db ''endpoints'' no_children)) g1
      (\<lambda>_ y'. shape [''endpoints''] y' \<and> (\<forall>p. has_node [''endpoints''] p y' = active_branch db (ParticipantRef a) p))"
      unfolding e(2) runs_lift
    proof (rule runs_weaken [OF graph_children_runs [OF good(2) g1(1) tags]], elim conjE, intro conjI allI)
      fix g' p
      assume h: "\<forall>j p. has_node [''endpoints''] (j # p) g' \<longleftrightarrow> (\<exists>r'. named_child db ?w j r' \<and> active_branch db r' p) \<or>
          (\<nexists>r'. named_child db ?w j r') \<and> has_node [''endpoints''] (j # p) g1"
      show "has_node [''endpoints''] p g' = active_branch db (ParticipantRef a) p"
      proof (cases p)
        case (Cons j q)
        have "active_branch db (ParticipantRef a) (j # q) \<longleftrightarrow>
          (\<exists>r'. (named_child db ?r j r' \<or> named_child db ?w j r') \<and> active_branch db r' q)"
          by (auto simp: named_child_def b)
        moreover have "has_node [''endpoints''] (j # q) g' \<longleftrightarrow> (\<exists>r'. named_child db ?w j r' \<and> active_branch db r' q) \<or>
            (\<nexists>r'. named_child db ?w j r') \<and> (\<exists>r'. named_child db ?r j r' \<and> active_branch db r' q)"
          using h g1(2) by blast
        moreover have "named_child db ?r j r' \<Longrightarrow> named_child db ?w j r'' \<Longrightarrow> r' = r''" for r' r''
          by (rule named_child_unique [OF good])
        ultimately show ?thesis unfolding Cons by blast
      qed simp
    qed
  qed
qed

lemma tree_children:
  assumes inv: "phys_inv db"
  shows "a \<in> host_addrs db \<Longrightarrow> \<exists>rs. entities_from db USER (Some (HostRef a)) = Inr rs \<and>
      set rs = Some ` UserRef ` {b \<in> user_addrs db. u_host (the (user_objs db b)) = Some a}"
    and "b \<in> user_addrs db \<Longrightarrow> \<exists>rs. entities_from db PROCESS (Some (UserRef b)) = Inr rs \<and>
      set rs = Some ` ProcessRef ` {c \<in> process_addrs db. p_user (the (process_objs db c)) = Some b}"
    and "c \<in> process_addrs db \<Longrightarrow> \<exists>rs. entities_from db PARTICIPANT (Some (ProcessRef c)) = Inr rs \<and>
      set rs = Some ` ParticipantRef ` {d \<in> participant_addrs db. dp_process (the (participant_objs db d)) = Some c}"
  using finds_children [OF inv] by (simp_all add: finds_def relatives_down)

lemma graph_tags:
  "list_all (\<lambda>c. c \<notin> data_tags) [''hosts'', ''users'', ''processes'', ''participants'', ''endpoints'']"
  "list_all (\<lambda>c. c \<notin> data_tags) [''users'', ''processes'', ''participants'', ''endpoints'']"
  "list_all (\<lambda>c. c \<notin> data_tags) [''processes'', ''participants'', ''endpoints'']"
  "list_all (\<lambda>c. c \<notin> data_tags) [''participants'', ''endpoints'']" "list_all (\<lambda>c. c \<notin> data_tags) [''topics'']"
  by (simp_all add: data_tags_def)

lemma fills_process:
  assumes ready: "graph_ready db" and c: "c \<in> process_addrs db"
  shows "fills [''participants'', ''endpoints''] (graph_level db ''participants'' PARTICIPANT (graph_endpoints db) (ProcessRef c))
    (active_branch db (ProcessRef c))"
proof -
  have inv: "phys_inv db" using ready by (simp add: graph_ready_def)
  obtain rs where e: "entities_from db PARTICIPANT (Some (ProcessRef c)) = Inr rs"
    and rs: "set rs = Some ` ParticipantRef ` {d \<in> participant_addrs db. dp_process (the (participant_objs db d)) = Some c}"
    using tree_children(3) [OF inv c] by blast
  show ?thesis
    by (rule fills_children [OF e good_childrenI [OF ready] _ graph_tags(4)])
      (use rs tree_object [OF inv] in \<open>auto simp: below_tree intro!: fills_participant [OF ready]\<close>)
qed

lemma fills_user:
  assumes ready: "graph_ready db" and b: "b \<in> user_addrs db"
  shows "fills [''processes'', ''participants'', ''endpoints'']
    (graph_level db ''processes'' PROCESS (graph_level db ''participants'' PARTICIPANT (graph_endpoints db)) (UserRef b))
    (active_branch db (UserRef b))"
proof -
  have inv: "phys_inv db" using ready by (simp add: graph_ready_def)
  obtain rs where e: "entities_from db PROCESS (Some (UserRef b)) = Inr rs"
    and rs: "set rs = Some ` ProcessRef ` {c \<in> process_addrs db. p_user (the (process_objs db c)) = Some b}"
    using tree_children(2) [OF inv b] by blast
  show ?thesis
    by (rule fills_children [OF e good_childrenI [OF ready] _ graph_tags(3)])
      (use rs tree_object [OF inv] in \<open>auto simp: below_tree intro!: fills_process [OF ready]\<close>)
qed

lemma fills_host:
  assumes ready: "graph_ready db" and a: "a \<in> host_addrs db"
  shows "fills [''users'', ''processes'', ''participants'', ''endpoints''] (graph_host db (HostRef a)) (active_branch db (HostRef a))"
proof -
  have inv: "phys_inv db" using ready by (simp add: graph_ready_def)
  obtain rs where e: "entities_from db USER (Some (HostRef a)) = Inr rs"
    and rs: "set rs = Some ` UserRef ` {b \<in> user_addrs db. u_host (the (user_objs db b)) = Some a}"
    using tree_children(1) [OF inv a] by blast
  show ?thesis
    unfolding graph_host_def
    by (rule fills_children [OF e good_childrenI [OF ready] _ graph_tags(2)])
      (use rs tree_object [OF inv] in \<open>auto simp: below_tree intro!: fills_user [OF ready]\<close>)
qed

end
