(* ===== verification/GraphSpec.thy ===== *)
theory GraphSpec
  imports DomainGraph
begin

text \<open>
  What the operations on the domain view graph guarantee, in terms of the nodes a graph has and of the
  tree of hosts, users, processes, participants and endpoints.
\<close>

definition graph_containers :: "string list" where
  "graph_containers = [''hosts'', ''users'', ''processes'', ''participants'', ''endpoints'']"

lemma graph_containers_tags: "list_all (\<lambda>c. c \<notin> data_tags) graph_containers"
  unfolding graph_containers_def by (rule graph_tags)

section \<open>Updates\<close>

text \<open>
  C32: updating the graph for a host, user, process and participant gives a node to each of them up to
  the first that is not active, erases the node of that one with everything under it, and leaves all
  other nodes, the topics and the rest of the database alone; the identifiers from the first invalid
  one on are ignored. The graph is reported as changed as soon as the host is active, whether or not
  anything changed.
\<close>

theorem graph_update_follows_activity:
  assumes "om_find (domain_view_graph db) d = Some g" and "shape graph_containers g"
    and "known_path db [h, u, p, x]"
  shows "\<exists>b g'. update_participant_in_graph_nts d h u p x db =
      (Inr b, db\<lparr>domain_view_graph := om_put d g' (domain_view_graph db)\<rparr>) \<and>
    shape graph_containers g' \<and> member ''topics'' g' = member ''topics'' g \<and>
    (\<forall>path. has_node graph_containers path g' \<longleftrightarrow>
       prefix path (map id_string (active_path db [h, u, p, x])) \<or>
       has_node graph_containers path g \<and>
         \<not> (length (active_path db [h, u, p, x]) < length (update_path [h, u, p, x]) \<and>
            prefix (map id_string (take (Suc (length (active_path db [h, u, p, x]))) (update_path [h, u, p, x]))) path)) \<and>
    (active_path db [h, u, p, x] \<noteq> [] \<longrightarrow> b)"
proof -
  let ?ls = "[(''hosts'', ''users'', h), (''users'', ''processes'', u), (''processes'', ''participants'', p),
        (''participants'', ''endpoints'', x)]"
  have lc: "level_containers ?ls graph_containers" by (simp add: graph_containers_def)
  have ids: "map (\<lambda>(c, k, i). i) ?ls = [h, u, p, x]" by simp
  have hd: "graph_containers = [] \<or> ''topics'' \<noteq> hd graph_containers" by (simp add: graph_containers_def)
  obtain b g' where run: "update_levels db ?ls False g = (Inr b, g')" and g': "shape graph_containers g'"
    "\<forall>k. (graph_containers = [] \<or> k \<noteq> hd graph_containers) \<longrightarrow> member k g' = member k g"
    "\<forall>q. has_node graph_containers q g' \<longleftrightarrow> updated_nodes db [h, u, p, x] (\<lambda>q. has_node graph_containers q g) q"
    "active_path db [h, u, p, x] \<noteq> [] \<longrightarrow> b"
    using update_levels_runs [OF lc assms(2) graph_containers_tags, of db False] assms(3)
    unfolding ids runs_def by blast
  have "update_participant_in_graph_nts d h u p x db =
      (Inr b, db\<lparr>domain_view_graph := om_put d g' (domain_view_graph db)\<rparr>)"
    using assms(1) run by (simp add: update_participant_in_graph_nts_def on_graph_def)
  moreover have "member ''topics'' g' = member ''topics'' g" using g'(2) hd by blast
  ultimately show ?thesis
    using g'(1,3,4) by (intro exI [of _ b] exI [of _ g'] conjI) (simp_all add: updated_nodes_def)
qed

text \<open>
  C33: the node of an entity shows the entity: its kind, source, alias and metatraffic flag, whatever the
  node held before. The operation always answers that the node has changed, because it compares the
  name of the discovery source with its enumerator.
\<close>

theorem graph_node_shows_entity:
  assumes "get_entity_nts db i = Inr r" and "showable db r" and "entity_of db r = Some x" and "js_obj g"
  shows "\<exists>g'. get_entity_subgraph_nts db i g = (Inr True, g') \<and> js_obj g' \<and>
    member ''kind'' g' = Some (JString (entity_kind_str (e_kind x))) \<and>
    member ''discovery_source'' g' = Some (JString (discovery_source_str (e_discovery_source x))) \<and>
    member ''alias'' g' = Some (JString (e_alias x)) \<and>
    member ''metatraffic'' g' = Some (JBool (metatraffic x)) \<and>
    (\<forall>k. k \<notin> data_tags \<longrightarrow> member k g' = member k g)"
proof -
  obtain g' where g': "get_entity_subgraph_nts db i g = (Inr True, g')" "js_obj g'" "node_shows x g'"
    using subgraph_runs [OF assms] by (auto simp: runs_def)
  have "member k g' = member k g" if "k \<notin> data_tags" for k
    using touches_subgraph [of db i] assms(4) that g'(1) unfolding touches_def by (metis snd_conv)
  then show ?thesis using g' by (simp add: node_shows_def)
qed

section \<open>Regeneration\<close>

definition host_of_domain :: "'q database \<Rightarrow> Domain \<Rightarrow> addr \<Rightarrow> bool" where
  "host_of_domain db x a \<longleftrightarrow> a \<in> host_addrs db \<and>
     (\<exists>b \<in> snd ` set (d_participants x). tree_below db (ParticipantRef b) (HostRef a))"

lemma domain_node_runs:
  "runs (domain_node n i) JNull (\<lambda>_ g. shape graph_containers g \<and> shape [''topics''] g \<and>
     (\<forall>j. node ''hosts'' j g = None) \<and> (\<forall>j. node ''topics'' j g = None))"
  unfolding domain_node_def
  by (rule runs_then [OF runs_put], simp, rule runs_then [OF runs_at], assumption, rule runs_put, simp,
      rule runs_then [OF runs_at], assumption, rule runs_put, force, rule runs_then [OF runs_put], assumption,
      rule runs_weaken [OF runs_put], assumption)
    (auto simp: graph_containers_def node_def)

lemma answer_set: "get_entities_nts db k i = bind_result (bind_result (get_entity_nts db i) (\<lambda>r. entities_from db k (Some r)))
    (\<lambda>xs. Inr (remdups_adj (sort_key pointer_value xs)))" if "i \<noteq> all_id"
  using that by (simp add: get_entities_nts_def)

lemma domain_hosts:
  assumes inv: "phys_inv db" and d: "get_entity_nts db d = Inr (DomainRef a)" "d \<noteq> all_id" and x: "domain_objs db a = Some x"
    and p: "\<forall>b \<in> snd ` set (d_participants x). b \<in> participant_addrs db"
  shows "\<exists>rs. get_entities_nts db HOST d = Inr rs \<and> set rs = Some ` HostRef ` {a'. host_of_domain db x a'}"
proof -
  have "\<forall>b \<in> snd ` set (d_participants x).
      finds (entities_from db HOST (Some (ParticipantRef b))) (relatives db HOST (ParticipantRef b))"
    using p finds_above_participant [OF inv] by blast
  from finds_map_refs [where c = ParticipantRef and S = "\<lambda>b. relatives db HOST (ParticipantRef b)", OF this]
  obtain rs where rs: "entities_from db HOST (Some (DomainRef a)) = Inr rs"
    and s: "set rs = Some ` (\<Union>b \<in> snd ` set (d_participants x). relatives db HOST (ParticipantRef b))"
    using x by (auto simp: finds_def entities_from.simps)
  have "(\<Union>b \<in> snd ` set (d_participants x). relatives db HOST (ParticipantRef b)) =
      HostRef ` {a'. host_of_domain db x a'}"
    unfolding relatives_def host_of_domain_def ref_kind_iff
    by (auto simp: tree_below_simps(1))
  then show ?thesis
    using d rs s by (simp add: answer_set)
qed

lemma domain_topics:
  assumes d: "get_entity_nts db d = Inr (DomainRef a)" "d \<noteq> all_id" and x: "domain_objs db a = Some x"
  shows "\<exists>rs. get_entities_nts db TOPIC d = Inr rs \<and> set rs = set (live_refs TopicRef (topic_objs db) (d_topics x))"
  using d x by (simp add: answer_set entities_from.simps)

text \<open>
  C34: the graph that is regenerated is a picture of the tree. Apart from the topics, which are the
  active ones of the domain, it has a node for exactly the active hosts that a participant of the
  domain runs on, and under each node exactly the active entities below it: the users of a host, their
  processes, the participants of these and their endpoints, of whatever domain they are.
\<close>

theorem regenerated_graph_mirrors_tree:
  assumes "graph_ready db" and "om_find (domain_view_graph db) d \<noteq> None" and "om_wf (domain_view_graph db)"
    and "(d, a) \<in> set (domains db)" and "domain_objs db a = Some x"
    and "\<forall>b \<in> snd ` set (d_participants x). b \<in> participant_addrs db"
  shows "\<exists>db' g. regenerate_domain_graph_nts d db = (Inr True, db') \<and>
    get_domain_view_graph_nts d db' = Inr g \<and>
    (\<forall>j path. has_node graph_containers (j # path) g \<longleftrightarrow>
       (\<exists>b h. host_of_domain db x b \<and> host_objs db b = Some h \<and> active h \<and> id_string (e_id h) = j \<and>
          active_branch db (HostRef b) path)) \<and>
    (\<forall>j. has_node [''topics''] [j] g \<longleftrightarrow>
       (\<exists>b t. b \<in> snd ` set (d_topics x) \<and> topic_objs db b = Some t \<and> active t \<and> id_string (e_id t) = j))"
proof -
  have inv: "db_inv db" "phys_inv db" using assms(1) by (simp_all add: graph_ready_def)
  have e: "(d, DomainRef a) \<in> set (entity_entries db)" using assms(4) by (force simp: entity_entries_def)
  have d: "get_entity_nts db d = Inr (DomainRef a)" by (rule get_entity_entry [OF inv(1) e])
  have "d \<in> set (entity_ids db)" using e by (force simp flip: entity_entries_keys)
  then have "0 \<le> entity_value d" using inv(1) by (auto simp: db_inv_def ids_below_def)
  then have all: "d \<noteq> all_id" by (auto simp: all_id_def ENTITY_ID_ALL_def)
  obtain hs where hs: "get_entities_nts db HOST d = Inr hs" "set hs = Some ` HostRef ` {a'. host_of_domain db x a'}"
    using domain_hosts [OF inv(2) d all assms(5,6)] by blast
  obtain tops where tops: "get_entities_nts db TOPIC d = Inr tops" "set tops = set (live_refs TopicRef (topic_objs db) (d_topics x))"
    using domain_topics [OF d all assms(5)] by blast
  have gt: "good_children db [] no_children (active_branch db) tops"
    by (rule good_childrenI [OF assms(1)], unfold tops(2), drule live_refs_Some)
      (auto intro!: fills_no_children simp: nothing_below)
  have gh: "good_children db [''users'', ''processes'', ''participants'', ''endpoints''] (graph_host db) (active_branch db) hs"
  proof (rule good_childrenI [OF assms(1)])
    fix r assume "r \<in> set hs"
    then obtain b where b: "r = Some (HostRef b)" "b \<in> host_addrs db" unfolding hs(2) by (auto simp: host_of_domain_def)
    then show "\<exists>r'. r = Some r' \<and> entity_of db r' \<noteq> None \<and>
        fills [''users'', ''processes'', ''participants'', ''endpoints''] (graph_host db r') (active_branch db r')"
      using fills_host [OF assms(1) b(2)] tree_object(4) [OF inv(2) b(2)] by auto
  qed
  let ?Q = "\<lambda>u g. u \<and> (\<forall>j p. has_node graph_containers (j # p) g \<longleftrightarrow> (\<exists>r. named_child db hs j r \<and> active_branch db r p)) \<and>
      (\<forall>j p. has_node [''topics''] (j # p) g \<longleftrightarrow> (\<exists>r. named_child db tops j r \<and> active_branch db r p))"
  have "runs (js_then (domain_node (e_name x) (d_domain_id x))
      (js_then (js_bind (js_lift (get_entities_nts db TOPIC d)) (graph_children db ''topics'' no_children))
      (js_then (js_bind (js_lift (get_entities_nts db HOST d)) (graph_children db ''hosts'' (graph_host db)))
        (js_return True)))) JNull ?Q"
  proof (rule runs_then [OF domain_node_runs], elim conjE, unfold tops(1))
    fix g1 assume g1: "shape graph_containers g1" "shape [''topics''] g1" "\<forall>j. node ''hosts'' j g1 = None"
      "\<forall>j. node ''topics'' j g1 = None"
    show "runs (js_then (js_bind (js_lift (Inr tops)) (graph_children db ''topics'' no_children))
      (js_then (js_bind (js_lift (get_entities_nts db HOST d)) (graph_children db ''hosts'' (graph_host db)))
        (js_return True))) g1 ?Q"
    proof (rule runs_then, unfold runs_lift, rule graph_children_runs [OF gt g1(2) graph_tags(5)], elim conjE, unfold hs(1))
      fix g2 assume g2: "js_obj g2" "shape [''topics''] g2" "\<forall>k. k \<noteq> ''topics'' \<longrightarrow> member k g2 = member k g1"
        "\<forall>j p. has_node [''topics''] (j # p) g2 \<longleftrightarrow> (\<exists>r'. named_child db tops j r' \<and> active_branch db r' p) \<or>
          (\<nexists>r'. named_child db tops j r') \<and> has_node [''topics''] (j # p) g1"
      have s2: "shape graph_containers g2" using g1(1) g2(1,3) by (simp add: graph_containers_def)
      have n2: "node ''hosts'' j g2 = None" for j using g1(3) g2(3) by (simp add: node_def)
      show "runs (js_then (js_bind (js_lift (Inr hs)) (graph_children db ''hosts'' (graph_host db)))
          (js_return True)) g2 ?Q"
      proof (rule runs_then, unfold runs_lift, rule graph_children_runs [OF gh s2 [unfolded graph_containers_def] graph_tags(1)],
          elim conjE, rule runs_return, assumption)
        fix g3
        assume m: "\<forall>k. k \<noteq> ''hosts'' \<longrightarrow> member k g3 = member k g2"
          and h: "\<forall>j p. has_node [''hosts'', ''users'', ''processes'', ''participants'', ''endpoints''] (j # p) g3 \<longleftrightarrow>
            (\<exists>r'. named_child db hs j r' \<and> active_branch db r' p) \<or>
            (\<nexists>r'. named_child db hs j r') \<and> has_node [''hosts'', ''users'', ''processes'', ''participants'', ''endpoints''] (j # p) g2"
        have t3: "node ''topics'' j g3 = node ''topics'' j g2" for j using m by (simp add: node_def)
        show "?Q True g3"
          using h g2(4) g1(4) n2 t3 by (simp add: graph_containers_def)
      qed
    qed
  qed
  then obtain g where run: "js_then (domain_node (e_name x) (d_domain_id x))
      (js_then (js_bind (js_lift (get_entities_nts db TOPIC d)) (graph_children db ''topics'' no_children))
      (js_then (js_bind (js_lift (get_entities_nts db HOST d)) (graph_children db ''hosts'' (graph_host db)))
        (js_return True))) JNull = (Inr True, g)" and Q: "?Q True g"
    by (auto simp: runs_def)
  let ?db = "db\<lparr>domain_view_graph := om_put d g (om_erase d (domain_view_graph db))\<rparr>"
  have "regenerate_domain_graph_nts d db = (Inr True, ?db)"
    using assms(2,5) d run by (simp add: regenerate_domain_graph_nts_def Let_def)
  moreover have "get_domain_view_graph_nts d ?db = Inr g"
    using om_find_put [OF om_erase_wf [OF assms(3)]] by (simp add: get_domain_view_graph_nts_def)
  moreover have n: "named_child db hs j r \<longleftrightarrow> (\<exists>b h. r = HostRef b \<and> host_of_domain db x b \<and> host_objs db b = Some h \<and>
      active h \<and> id_string (e_id h) = j)" for j r
    unfolding named_child_def hs(2) by (cases r) (fastforce simp: Entity.truncate_def)+
  moreover have "(\<exists>r. named_child db hs j r \<and> active_branch db r path) \<longleftrightarrow>
      (\<exists>b h. host_of_domain db x b \<and> host_objs db b = Some h \<and> active h \<and> id_string (e_id h) = j \<and>
          active_branch db (HostRef b) path)" for j path
    unfolding n by blast
  moreover have "(\<exists>r. named_child db tops j r \<and> active_branch db r []) \<longleftrightarrow>
      (\<exists>b t. b \<in> snd ` set (d_topics x) \<and> topic_objs db b = Some t \<and> active t \<and> id_string (e_id t) = j)" for j
    unfolding named_child_def tops(2) live_refs_mem by (fastforce simp: Entity.truncate_def)
  ultimately show ?thesis using Q by (intro exI [of _ ?db] exI [of _ g]) simp
qed

section \<open>Example\<close>

text \<open>An active host, user, process and participant of a domain whose graph is empty.\<close>

definition example_graph_db :: "unit database" where
  "example_graph_db = new_database\<lparr>next_addr := 1, next_id := 5,
     host_objs := [0 \<mapsto> (new_host ''h'' OK_STATUS)\<lparr>e_id := EntityId 0, active := True, h_users := [(EntityId 1, 0)]\<rparr>],
     user_objs := [0 \<mapsto> (new_user ''u'' (Some 0) OK_STATUS)
       \<lparr>e_id := EntityId 1, active := True, u_processes := [(EntityId 2, 0)]\<rparr>],
     process_objs := [0 \<mapsto> (new_process ''p'' ''7'' (Some 0) OK_STATUS)
       \<lparr>e_id := EntityId 2, active := True, p_participants := [(EntityId 4, 0)]\<rparr>],
     domain_objs := [0 \<mapsto> (new_domain ''0'' 0 OK_STATUS)\<lparr>e_id := EntityId 3, d_participants := [(EntityId 4, 0)]\<rparr>],
     participant_objs := [0 \<mapsto> (new_participant ''q'' () ''1.2'' None (Some 0) OK_STATUS UNKNOWN_APP []
       DISCOVERY_SOURCE 0)\<lparr>e_id := EntityId 4, dp_process := Some 0\<rparr>],
     hosts := [(EntityId 0, 0)], users := [(EntityId 1, 0)], processes := [(EntityId 2, 0)],
     domains := [(EntityId 3, 0)], participants := [(EntityId 3, [(EntityId 4, 0)])],
     domain_view_graph := [(EntityId 3, JNull)]\<rparr>"

lemma example_graph_ready: "graph_ready example_graph_db"
proof -
  have "phys_inv example_graph_db"
    by (simp add: phys_inv_def phys_owned_def phys_links_def phys_activity_def linked_def
      mirrors_except_def child_active_def has_parent_def owned_def owned_in_def keys_in_def entries_in_def
      om_wf_def example_graph_db_def new_database_def entity_constructor_defs)
  moreover have "db_inv example_graph_db"
    by (simp add: db_inv_def db_struct_def db_owned_def owned_def owned_in_def topic_homes_def om_wf_def
      ids_below_def entity_ids_def keys_in_def new_database_def example_graph_db_def)
  moreover have "stores_held example_graph_db"
  proof (unfold stores_held_def, intro allI impI)
    fix r assume "entity_of example_graph_db r \<noteq> None"
    then show "\<exists>i. (i, r) \<in> set (entity_entries example_graph_db)"
      by (cases r) (auto simp: example_graph_db_def new_database_def entity_entries_def entries_under_def split: if_splits)
  qed
  moreover have "showable_all example_graph_db"
  proof (unfold showable_all_def, intro allI impI)
    fix r assume "entity_of example_graph_db r \<noteq> None"
    then show "showable example_graph_db r"
      by (cases r) (auto simp: example_graph_db_def new_database_def showable_def)
  qed
  ultimately show ?thesis by (simp add: graph_ready_def)
qed

lemma example_graph_entries:
  "(EntityId 0, HostRef 0) \<in> set (entity_entries example_graph_db)"
  "(EntityId 1, UserRef 0) \<in> set (entity_entries example_graph_db)"
  "(EntityId 2, ProcessRef 0) \<in> set (entity_entries example_graph_db)"
  "(EntityId 4, ParticipantRef 0) \<in> set (entity_entries example_graph_db)"
  by (simp_all add: example_graph_db_def new_database_def entity_entries_def entries_under_def)

lemma example_graph_lookup:
  "get_entity_nts example_graph_db (EntityId 0) = Inr (HostRef 0)"
  "get_entity_nts example_graph_db (EntityId 1) = Inr (UserRef 0)"
  "get_entity_nts example_graph_db (EntityId 2) = Inr (ProcessRef 0)"
  "get_entity_nts example_graph_db (EntityId 4) = Inr (ParticipantRef 0)"
  using example_graph_ready get_entity_entry [OF _ example_graph_entries(1)] get_entity_entry [OF _ example_graph_entries(2)]
    get_entity_entry [OF _ example_graph_entries(3)] get_entity_entry [OF _ example_graph_entries(4)]
  by (simp_all add: graph_ready_def)

lemma example_graph_active:
  "is_active example_graph_db (EntityId 0) = Inr True" "is_active example_graph_db (EntityId 1) = Inr True"
  "is_active example_graph_db (EntityId 2) = Inr True" "is_active example_graph_db (EntityId 4) = Inr True"
  unfolding is_active_def get_entity_field_def example_graph_lookup
  by (simp_all add: example_graph_db_def entity_constructor_defs)

lemma example_graph_showable:
  "showable example_graph_db (HostRef 0)" "showable example_graph_db (UserRef 0)"
  "showable example_graph_db (ProcessRef 0)" "showable example_graph_db (ParticipantRef 0)"
  by (simp_all add: showable_def example_graph_db_def)

lemma example_update_path:
  "update_path [EntityId 0, EntityId 1, EntityId 2, EntityId 4] = [EntityId 0, EntityId 1, EntityId 2, EntityId 4]"
  by (simp add: update_path_def invalid_id_def all_id_def ENTITY_ID_INVALID_def ENTITY_ID_ALL_def)

lemma example_active_path:
  "active_path example_graph_db [EntityId 0, EntityId 1, EntityId 2, EntityId 4] =
     [EntityId 0, EntityId 1, EntityId 2, EntityId 4]"
  unfolding active_path_def example_update_path by (simp add: example_graph_active)

theorem graph_update_follows_activity_witness:
  "\<exists>db' g'. update_participant_in_graph_nts (EntityId 3) (EntityId 0) (EntityId 1) (EntityId 2) (EntityId 4) example_graph_db =
      (Inr True, db') \<and> om_find (domain_view_graph db') (EntityId 3) = Some g' \<and>
    has_node graph_containers (map id_string [EntityId 0, EntityId 1, EntityId 2, EntityId 4]) g'"
proof -
  have "om_find (domain_view_graph example_graph_db) (EntityId 3) = Some JNull"
    by (simp add: example_graph_db_def)
  moreover have "known_path example_graph_db [EntityId 0, EntityId 1, EntityId 2, EntityId 4]"
    unfolding known_path_def example_update_path using example_graph_lookup example_graph_showable by auto
  ultimately obtain b g' where "update_participant_in_graph_nts (EntityId 3) (EntityId 0) (EntityId 1) (EntityId 2) (EntityId 4)
      example_graph_db = (Inr b, example_graph_db\<lparr>domain_view_graph := om_put (EntityId 3) g' (domain_view_graph example_graph_db)\<rparr>)"
    "has_node graph_containers (map id_string [EntityId 0, EntityId 1, EntityId 2, EntityId 4]) g'" "b"
    using graph_update_follows_activity [OF _ shape_null, of example_graph_db "EntityId 3" "EntityId 0" "EntityId 1" "EntityId 2" "EntityId 4"]
    unfolding example_active_path by auto
  then show ?thesis by (auto simp: example_graph_db_def)
qed

theorem graph_node_shows_entity_witness:
  "\<exists>g'. get_entity_subgraph_nts example_graph_db (EntityId 2) JNull = (Inr True, g') \<and>
     member ''kind'' g' = Some (JString ''process'')"
proof -
  obtain x where x: "entity_of example_graph_db (ProcessRef 0) = Some x" "e_kind x = PROCESS"
    by (simp add: example_graph_db_def entity_constructor_defs)
  show ?thesis
    using graph_node_shows_entity [OF example_graph_lookup(3) example_graph_showable(3) x(1) js_obj_null(1)] x(2)
    by auto
qed

theorem regenerated_graph_mirrors_tree_witness:
  "\<exists>db' g. regenerate_domain_graph_nts (EntityId 3) example_graph_db = (Inr True, db') \<and>
     has_node graph_containers [id_string (EntityId 0)] g"
proof -
  let ?x = "the (domain_objs example_graph_db 0)"
  have a: "om_find (domain_view_graph example_graph_db) (EntityId 3) \<noteq> None" "om_wf (domain_view_graph example_graph_db)"
    "(EntityId 3, 0) \<in> set (domains example_graph_db)" "domain_objs example_graph_db 0 = Some ?x"
    "\<forall>b \<in> snd ` set (d_participants ?x). b \<in> participant_addrs example_graph_db"
    by (simp_all add: example_graph_db_def om_wf_def participant_addrs_def entries_in_def)
  have h: "host_of_domain example_graph_db ?x 0"
    by (simp add: host_of_domain_def host_addrs_def tree_below_simps example_graph_db_def entity_constructor_defs)
  obtain y where y: "host_objs example_graph_db 0 = Some y" "active y" "e_id y = EntityId 0"
    by (simp add: example_graph_db_def)
  show ?thesis
    using regenerated_graph_mirrors_tree [OF example_graph_ready a] h y
    by (metis active_branch.simps(1))
qed

end
