(* ===== verification/TypeNames.thy ===== *)
theory TypeNames
  imports DbState
begin

text \<open>
  The registry of data types of \<open>database::Database\<close> (\<open>database.cpp\<close>): \<open>insert_new_type_idl\<close>, which
  demangles the names and the IDL of ROS 2 types, and the getters. The string functions are those of
  \<open>std::string\<close>; a position is a natural number, \<open>None\<close> for \<open>npos\<close>. The loops of the first step index
  the string at positions a search returned, and may run on for ever on a text that is no IDL: that
  step is a partial function, the other loops terminate.
\<close>

section \<open>Searching and erasing\<close>

fun find_sub :: "string \<Rightarrow> string \<Rightarrow> nat option" where
  "find_sub k [] = (if k = [] then Some 0 else None)"
| "find_sub k (c # cs) = (if contains_at_start k (c # cs) then Some 0 else map_option Suc (find_sub k cs))"

text \<open>\<open>s.find(k, p)\<close> and \<open>s.find_first_not_of(c, p)\<close>.\<close>

definition str_find :: "string \<Rightarrow> nat \<Rightarrow> string \<Rightarrow> nat option" where
  "str_find k p s = (if p \<le> length s then map_option ((+) p) (find_sub k (drop p s)) else None)"

definition first_not_of :: "char \<Rightarrow> nat \<Rightarrow> string \<Rightarrow> nat option" where
  "first_not_of c p s =
     (let n = length (takeWhile (\<lambda>x. x = c) (drop p s))
      in if p + n < length s then Some (p + n) else None)"

text \<open>\<open>s.erase(p, n)\<close> for a position within the string.\<close>

definition str_erase :: "nat \<Rightarrow> nat \<Rightarrow> string \<Rightarrow> string" where
  "str_erase p n s = take p s @ drop (p + n) s"

text \<open>
  \<open>s.erase(b, e - p + k)\<close>, where the end \<open>e\<close> of a range may be \<open>npos\<close>: \<open>npos - p + k\<close> wraps around
  to \<open>k - 1 - p\<close> when \<open>p < k\<close>, and is beyond the end of the string otherwise.
\<close>

definition str_erase_span :: "nat \<Rightarrow> nat option \<Rightarrow> nat \<Rightarrow> nat \<Rightarrow> string \<Rightarrow> string" where
  "str_erase_span b e p k s =
     (case e of
        Some q \<Rightarrow> str_erase b (q - p + k) s
      | None \<Rightarrow> if p < k then str_erase b (k - 1 - p) s else take b s)"

lemma find_sub_None: "find_sub k s = None \<longleftrightarrow> \<not> str_contains k s"
  by (induction k s rule: find_sub.induct) auto

lemma find_sub_Some: "find_sub k s = Some p \<Longrightarrow> \<exists>b. drop p s = k @ b \<and> p \<le> length s"
  by (induction k s arbitrary: p rule: find_sub.induct) (auto simp: contains_at_start_iff split: if_splits)

lemma find_sub_bound: "find_sub k s = Some p \<Longrightarrow> p + length k \<le> length s"
proof -
  assume "find_sub k s = Some p"
  then obtain b where b: "drop p s = k @ b" "p \<le> length s" using find_sub_Some by blast
  then have "length s - p = length k + length b" by (metis length_append length_drop)
  with b(2) show ?thesis by linarith
qed

lemma str_erase_length: "p + n \<le> length s \<Longrightarrow> length (str_erase p n s) = length s - n"
  by (simp add: str_erase_def)

section \<open>Demangling\<close>

text \<open>
  \<open>while (s.find(k) != npos) s.erase(s.find(k), n)\<close>. In every use \<open>k\<close> is not empty and \<open>n\<close> is between
  one and the length of \<open>k\<close>, so that each round shortens the string; the guard says so.
\<close>

function erase_all :: "string \<Rightarrow> nat \<Rightarrow> string \<Rightarrow> string" where
  "erase_all k n s =
     (case find_sub k s of
        None \<Rightarrow> s
      | Some p \<Rightarrow> if 0 < n \<and> n \<le> length k then erase_all k n (str_erase p n s) else s)"
  by pat_completeness auto

termination erase_all
proof (relation "measure (\<lambda>(k, n, s). length s)")
  fix k s :: string and n p :: nat
  assume "find_sub k s = Some p" and n: "0 < n \<and> n \<le> length k"
  then have "p + n \<le> length s" using find_sub_bound [of k s p] by linarith
  with n show "((k, n, str_erase p n s), (k, n, s)) \<in> measure (\<lambda>(k, n, s). length s)"
    by (cases s) (simp_all add: str_erase_length)
qed simp

declare erase_all.simps [simp del]

text \<open>
  The third part of step 1: removing four characters at \<open>p\<close>, and going on with the next line, until
  the first character that is no space is a closing brace. Indexing at \<open>npos\<close> is undefined.
\<close>

partial_function (option) unindent :: "string \<Rightarrow> nat option \<Rightarrow> (string \<times> nat) result option" where
  "unindent s p =
     (case p of
        None \<Rightarrow> Some (Inl UndefinedBehaviour)
      | Some p \<Rightarrow>
          (case first_not_of (CHR '' '') p s of
             None \<Rightarrow> Some (Inl UndefinedBehaviour)
           | Some q \<Rightarrow>
               if s ! q = CHR ''}'' then Some (Inr (s, p))
               else let s' = str_erase p 4 s
                    in unindent s' (case first_not_of (CHR '' '') p s' of
                         None \<Rightarrow> None
                       | Some l \<Rightarrow> str_find ''   '' l s')))"

declare unindent.simps [code]

definition module_dds :: string where
  "module_dds = ''module dds_'' @ [CHR 0x0A]"

text \<open>
  Step 1, one module per round. The position of the module is at most the length of the string, also
  after the first erasure; \<open>find_first_not_of\<close> returning \<open>npos\<close> makes the second one erase the rest.
\<close>

partial_function (option) delete_modules :: "string \<Rightarrow> string result option" where
  "delete_modules s =
     (case str_find module_dds 0 s of
        None \<Rightarrow> Some (Inr s)
      | Some p \<Rightarrow>
          let s1 = str_erase_span p (str_find ''{'' p s) p 2 s;
              s2 = str_erase_span p (first_not_of (CHR '' '') p s1) p 0 s1
          in (case unindent s2 (str_find ''   '' p s2) of
                None \<Rightarrow> None
              | Some (Inl e) \<Rightarrow> Some (Inl e)
              | Some (Inr (s3, q)) \<Rightarrow>
                  if q = 0 then Some (Inl (OutOfRange ''basic_string::erase''))
                  else delete_modules (str_erase_span (q - 1) (str_find ''};'' q s3) q 3 s3)))"

declare delete_modules.simps [code]

text \<open>\<open>back()\<close> of an empty string is undefined.\<close>

function drop_underscores :: "string \<Rightarrow> string result" where
  "drop_underscores s =
     (if s = [] then Inl UndefinedBehaviour
      else if last s = CHR ''_'' then drop_underscores (butlast s)
      else Inr s)"
  by pat_completeness auto

termination drop_underscores
  by (relation "measure length") auto

declare drop_underscores.simps [simp del]

definition demangle_name :: "string \<Rightarrow> string result" where
  "demangle_name n = drop_underscores (erase_all ''::dds_::'' 6 n)"

text \<open>Step 3 on the IDL.\<close>

definition demangle_idl_names :: "string \<Rightarrow> string" where
  "demangle_idl_names s =
     erase_all ''_>'' 1 (erase_all (''_'' @ [CHR 0x0A]) 1 (erase_all ''_ '' 1 (erase_all ''__'' 2 s)))"

definition is_type_in_database :: "string \<Rightarrow> 'q database \<Rightarrow> bool" where
  "is_type_in_database n db \<longleftrightarrow> om_find (type_idls db) n \<noteq> None"

definition mangled :: "string \<Rightarrow> string \<Rightarrow> bool" where
  "mangled n idl \<longleftrightarrow> str_contains module_dds idl \<or> str_contains ''::dds_::'' idl \<or> str_contains ''dds_'' n"

text \<open>\<open>None\<close> when the loops of step 1 do not end.\<close>

definition insert_new_type_idl :: "string \<Rightarrow> string \<Rightarrow> 'q database \<Rightarrow> (unit result \<times> 'q database) option" where
  "insert_new_type_idl n idl db =
     (if n = [] then Some (Inr (), db)
      else if is_type_in_database n db \<and> idl = [] then Some (Inr (), db)
      else if mangled n idl
      then (case delete_modules idl of
              None \<Rightarrow> None
            | Some (Inl e) \<Rightarrow> Some (Inl e, db)
            | Some (Inr s) \<Rightarrow>
                (case demangle_name n of
                   Inl e \<Rightarrow> Some (Inl e, db)
                 | Inr n' \<Rightarrow> Some (Inr (), db\<lparr>
                     type_idls := om_put n (demangle_idl_names (erase_all ''::dds_::'' 6 s)) (type_idls db),
                     type_ros2_unmodified_idl := om_put n idl (type_ros2_unmodified_idl db),
                     type_ros2_modified_name := om_put n n' (type_ros2_modified_name db)\<rparr>)))
      else Some (Inr (), db\<lparr>type_idls := om_put n idl (type_idls db)\<rparr>))"

definition type_not_found :: "string \<Rightarrow> exn" where
  "type_not_found n = BadParameter (''Type '' @ n @ '' not found in the database'')"

definition get_type_idl_nts :: "string \<Rightarrow> 'q database \<Rightarrow> string result" where
  "get_type_idl_nts n db =
     (case om_find (type_idls db) n of Some s \<Rightarrow> Inr s | None \<Rightarrow> Inl (type_not_found n))"

definition get_ros2_type_name_nts :: "string \<Rightarrow> 'q database \<Rightarrow> string result" where
  "get_ros2_type_name_nts n db =
     (case om_find (type_ros2_modified_name db) n of
        Some m \<Rightarrow> Inr m
      | None \<Rightarrow>
          (case om_find (type_idls db) n of Some s \<Rightarrow> Inr n | None \<Rightarrow> Inl (type_not_found n)))"

definition get_ros2_type_idl_nts :: "string \<Rightarrow> 'q database \<Rightarrow> string result" where
  "get_ros2_type_idl_nts n db =
     (case om_find (type_ros2_unmodified_idl db) n of
        Some s \<Rightarrow> Inr s
      | None \<Rightarrow> get_type_idl_nts n db)"

section \<open>What demangling leaves\<close>

lemma erase_all_gone: "k \<noteq> [] \<Longrightarrow> 0 < n \<Longrightarrow> n \<le> length k \<Longrightarrow> \<not> str_contains k (erase_all k n s)"
proof (induction k n s rule: erase_all.induct)
  case (1 k n s)
  then show ?case
    by (cases "find_sub k s") (auto simp: erase_all.simps [of k n s] find_sub_None [symmetric])
qed

lemma find_sub_split:
  assumes "find_sub k s = Some p"
  shows "s = take p s @ k @ drop (p + length k) s"
proof -
  obtain b where b: "drop p s = k @ b" using find_sub_Some [OF assms] by blast
  then have "drop (p + length k) s = b" by (metis add.commute append_eq_conv_conj drop_drop)
  with b show ?thesis by (metis append_take_drop_id)
qed

text \<open>Erasing the first character of every occurrence of two characters brings no other pair about.\<close>

lemma str_contains_pair:
  "str_contains [x, y] s \<longleftrightarrow> (\<exists>i. Suc i < length s \<and> s ! i = x \<and> s ! Suc i = y)"
proof
  assume "str_contains [x, y] s"
  then obtain a b where "s = a @ [x, y] @ b" by (auto simp: str_contains_iff)
  then show "\<exists>i. Suc i < length s \<and> s ! i = x \<and> s ! Suc i = y"
    by (intro exI [of _ "length a"]) (simp add: nth_append)
next
  assume "\<exists>i. Suc i < length s \<and> s ! i = x \<and> s ! Suc i = y"
  then obtain i where i: "Suc i < length s" "s ! i = x" "s ! Suc i = y" by blast
  then have "s = take i s @ [x, y] @ drop (Suc (Suc i)) s"
    by (metis Cons_nth_drop_Suc Suc_lessD append_Cons append_Nil append_take_drop_id)
  then show "str_contains [x, y] s" unfolding str_contains_iff by blast
qed

lemma pair_append:
  "str_contains [x, y] (a @ b) \<longleftrightarrow> str_contains [x, y] a \<or> str_contains [x, y] b \<or>
     (a \<noteq> [] \<and> b \<noteq> [] \<and> last a = x \<and> hd b = y)"
proof (induction a)
  case (Cons c a)
  then show ?case by (cases a; cases b) auto
qed simp

lemma erase_one_keeps_away:
  assumes "\<not> str_contains [u, v] s" and "\<not> str_contains [u, u] s" and "find_sub [u, y] s = Some p"
  shows "\<not> str_contains [u, v] (str_erase p 1 s) \<and> \<not> str_contains [u, u] (str_erase p 1 s)"
proof -
  let ?a = "take p s" and ?b = "drop (p + 2) s"
  have s: "s = ?a @ [u, y] @ ?b" using find_sub_split [OF assms(3)] by simp
  have "drop (p + 1) s = y # ?b"
    using s find_sub_bound [OF assms(3)] by (metis Suc_1 add_Suc_right Cons_nth_drop_Suc One_nat_def
        add.right_neutral find_sub_Some [OF assms(3)] append_Cons append_Nil drop_Suc list.sel(3) tl_drop)
  then have e: "str_erase p 1 s = ?a @ y # ?b" by (simp add: str_erase_def)
  have away: "\<not> (?a \<noteq> [] \<and> last ?a = u)"
    using assms(2) s pair_append [of u u ?a "[u, y] @ ?b"] by auto
  have uv: "\<not> str_contains [u, v] ?a" "\<not> str_contains [u, v] (y # ?b)"
    using assms(1) s pair_append [of u v ?a "[u, y] @ ?b"] pair_append [of u v "[u]" "y # ?b"] by auto
  have uu: "\<not> str_contains [u, u] ?a" "\<not> str_contains [u, u] (y # ?b)"
    using assms(2) s pair_append [of u u ?a "[u, y] @ ?b"] pair_append [of u u "[u]" "y # ?b"] by auto
  from away uv uu e show ?thesis by (auto simp: pair_append)
qed

lemma erase_pairs_keep_away:
  "\<not> str_contains [u, v] s \<Longrightarrow> \<not> str_contains [u, u] s \<Longrightarrow>
     \<not> str_contains [u, v] (erase_all [u, y] 1 s) \<and> \<not> str_contains [u, u] (erase_all [u, y] 1 s)"
proof (induction "[u, y]" "1 :: nat" s rule: erase_all.induct)
  case (1 s)
  then show ?case
    using erase_one_keeps_away [of u v s y]
    by (cases "find_sub [u, y] s") (auto simp: erase_all.simps [of "[u, y]" "Suc 0" s])
qed

lemma demangle_idl_names_clean:
  assumes "k \<in> {''__'', ''_ '', ''_'' @ [CHR 0x0A], ''_>''}"
  shows "\<not> str_contains k (demangle_idl_names s)"
proof -
  define s1 where "s1 = erase_all ''__'' 2 s"
  define s2 where "s2 = erase_all ''_ '' 1 s1"
  define s3 where "s3 = erase_all (''_'' @ [CHR 0x0A]) 1 s2"
  have 1: "\<not> str_contains ''__'' s1" unfolding s1_def by (rule erase_all_gone) simp_all
  have 2: "\<not> str_contains ''__'' s2" "\<not> str_contains ''_ '' s2"
    using erase_pairs_keep_away [OF 1 1, of "CHR '' ''"] erase_all_gone [of "''_ ''" 1 s1]
    by (simp_all add: s2_def)
  have 3: "\<not> str_contains ''__'' s3" "\<not> str_contains ''_ '' s3" "\<not> str_contains (''_'' @ [CHR 0x0A]) s3"
    using erase_pairs_keep_away [OF 2(2,1), of "CHR 0x0A"] erase_all_gone [of "''_'' @ [CHR 0x0A]" 1 s2]
    by (simp_all add: s3_def)
  have "demangle_idl_names s = erase_all ''_>'' 1 s3"
    by (simp add: demangle_idl_names_def s1_def s2_def s3_def)
  then show ?thesis
    using assms erase_pairs_keep_away [OF 3(2,1), of "CHR ''>''"] erase_all_gone [of "''_>''" 1 s3]
      erase_pairs_keep_away [of "CHR ''_''" "CHR 0x0A" s3 "CHR ''>''"] 3 by auto
qed

lemma drop_underscores_result:
  "drop_underscores s = Inr t \<longleftrightarrow> (\<exists>n. s = t @ replicate n (CHR ''_'')) \<and> t \<noteq> [] \<and> last t \<noteq> CHR ''_''"
proof (induction s rule: drop_underscores.induct)
  case (1 s)
  show ?case
  proof (cases "s = []")
    case True
    then show ?thesis by (auto simp: drop_underscores.simps)
  next
    case s: False
    show ?thesis
    proof (cases "last s = CHR ''_''")
      case True
      have "(\<exists>n. butlast s = t @ replicate n (CHR ''_'')) \<longleftrightarrow> (\<exists>n. s = t @ replicate n (CHR ''_''))"
        if "t \<noteq> []" "last t \<noteq> CHR ''_''"
      proof
        assume "\<exists>n. butlast s = t @ replicate n (CHR ''_'')"
        then obtain n where n: "butlast s = t @ replicate n (CHR ''_'')" by blast
        then have "s = t @ replicate (Suc n) (CHR ''_'')"
          using s True by (metis append.assoc append_butlast_last_id replicate_append_same replicate_Suc)
        then show "\<exists>n. s = t @ replicate n (CHR ''_'')" by blast
      next
        assume "\<exists>n. s = t @ replicate n (CHR ''_'')"
        then obtain n where n: "s = t @ replicate n (CHR ''_'')" by blast
        with True that obtain m where "n = Suc m" by (cases n) auto
        with n have "s = (t @ replicate m (CHR ''_'')) @ [CHR ''_'']"
          by (simp add: replicate_append_same)
        then show "\<exists>n. butlast s = t @ replicate n (CHR ''_'')" by (metis butlast_snoc)
      qed
      then show ?thesis using 1 s True by (subst drop_underscores.simps) auto
    next
      case False
      have "n = 0" if "s = t @ replicate n (CHR ''_'')" for n
        using that False by (cases n) (auto split: if_splits)
      then show ?thesis using s False by (subst drop_underscores.simps) auto
    qed
  qed
qed

lemma drop_underscores_fails: "drop_underscores s = Inl e \<longleftrightarrow> e = UndefinedBehaviour \<and> set s \<subseteq> {CHR ''_''}"
proof (induction s rule: drop_underscores.induct)
  case (1 s)
  show ?case
  proof (cases "s = []")
    case False
    then obtain t c where "s = t @ [c]" by (metis append_butlast_last_id)
    then show ?thesis using 1 by (subst drop_underscores.simps) auto
  qed (auto simp: drop_underscores.simps)
qed

text \<open>
  What erasing six characters of every \<open>::dds_::\<close> amounts to, in one pass from left to right: each
  \<open>::dds_\<close> that has \<open>::\<close> behind it goes.
\<close>

fun without_dds :: "string \<Rightarrow> string" where
  "without_dds [] = []"
| "without_dds (c # cs) =
     (if contains_at_start ''::dds_::'' (c # cs) then without_dds (drop 5 cs) else c # without_dds cs)"

lemma find_sub_first: "find_sub k s = Some p \<Longrightarrow> i < p \<Longrightarrow> \<not> contains_at_start k (drop i s)"
proof (induction k s arbitrary: p i rule: find_sub.induct)
  case (2 k c cs)
  then show ?case by (cases i) (auto split: if_splits)
qed (auto split: if_splits)

lemma without_dds_prefix:
  "(\<And>i. i < length a \<Longrightarrow> \<not> contains_at_start ''::dds_::'' (drop i (a @ t))) \<Longrightarrow>
     without_dds (a @ t) = a @ without_dds t"
proof (induction a)
  case (Cons c a)
  have "\<not> contains_at_start ''::dds_::'' (drop i (a @ t))" if "i < length a" for i
    using Cons.prems [of "Suc i"] that by simp
  moreover have "\<not> contains_at_start ''::dds_::'' (c # a @ t)" using Cons.prems [of 0] by simp
  ultimately show ?case using Cons.IH by (simp del: contains_at_start.simps)
qed simp

text \<open>Erasing brings no occurrence about that begins before.\<close>

lemma dds_not_made:
  "a \<noteq> [] \<Longrightarrow> contains_at_start ''::dds_::'' (a @ ''::'' @ b) \<Longrightarrow> contains_at_start ''::dds_::'' (a @ ''::dds_::'' @ b)"
  unfolding contains_at_start_iff by (auto simp: append_eq_Cons_conv)

lemma erase_dds: "erase_all ''::dds_::'' 6 s = without_dds s"
proof (induction "length s" arbitrary: s rule: less_induct)
  case less
  show ?case
  proof (cases "find_sub ''::dds_::'' s")
    case None
    have "without_dds t = t" if "\<not> str_contains ''::dds_::'' t" for t
      using that by (induction t rule: without_dds.induct) (auto simp del: contains_at_start.simps)
    moreover have "erase_all ''::dds_::'' 6 s = s" using None by (simp add: erase_all.simps [of _ _ s])
    ultimately show ?thesis using None find_sub_None [of "''::dds_::''" s] by simp
  next
    case (Some p)
    define a b where "a = take p s" and "b = drop (p + 8) s"
    have s: "s = a @ ''::dds_::'' @ b" using find_sub_split [OF Some] by (simp add: a_def b_def eval_nat_numeral)
    have p: "p + 8 \<le> length s" using find_sub_bound [OF Some] by simp
    then have la: "length a = p" by (simp add: a_def)
    have e: "str_erase p 6 s = a @ ''::'' @ b" using s la by (simp add: str_erase_def)
    have first: "\<not> contains_at_start ''::dds_::'' (drop i (a @ ''::dds_::'' @ b))" if "i < length a" for i
      using find_sub_first [OF Some] that la s by simp
    then have "\<not> contains_at_start ''::dds_::'' (drop i (a @ ''::'' @ b))" if "i < length a" for i
      using that dds_not_made [of "drop i a" b] by fastforce
    then have "without_dds (a @ ''::'' @ b) = a @ without_dds (''::'' @ b)"
      by (intro without_dds_prefix)
    moreover have "without_dds s = a @ without_dds (''::dds_::'' @ b)"
      unfolding s using first by (intro without_dds_prefix)
    moreover have "without_dds (''::dds_::'' @ b) = without_dds (''::'' @ b)" by simp
    moreover have "erase_all ''::dds_::'' 6 s = erase_all ''::dds_::'' 6 (str_erase p 6 s)"
      using Some by (simp add: erase_all.simps [of _ _ s])
    moreover have "length (str_erase p 6 s) < length s" using e s by simp
    ultimately show ?thesis using less e by simp
  qed
qed

lemma delete_modules_none: "\<not> str_contains module_dds s \<Longrightarrow> delete_modules s = Some (Inr s)"
  by (subst delete_modules.simps) (simp add: str_find_def find_sub_None [THEN iffD2])

section \<open>The registry\<close>

lemma insert_type_value:
  "n = [] \<or> is_type_in_database n db \<and> idl = [] \<Longrightarrow> insert_new_type_idl n idl db = Some (Inr (), db)"
  "\<not> (n = [] \<or> is_type_in_database n db \<and> idl = []) \<Longrightarrow> \<not> mangled n idl \<Longrightarrow>
     insert_new_type_idl n idl db = Some (Inr (), db\<lparr>type_idls := om_put n idl (type_idls db)\<rparr>)"
  by (auto simp: insert_new_type_idl_def)

lemma insert_type_cases:
  assumes "insert_new_type_idl n idl db = Some (r, db')"
  shows "(r = Inr () \<and> db' = db \<and> (n = [] \<or> is_type_in_database n db \<and> idl = [])) \<or>
    ((\<exists>e. r = Inl e) \<and> db' = db) \<or>
    (\<exists>s n'. r = Inr () \<and> mangled n idl \<and> delete_modules idl = Some (Inr s) \<and> demangle_name n = Inr n' \<and> db' = db\<lparr>
       type_idls := om_put n (demangle_idl_names (erase_all ''::dds_::'' 6 s)) (type_idls db),
       type_ros2_unmodified_idl := om_put n idl (type_ros2_unmodified_idl db),
       type_ros2_modified_name := om_put n n' (type_ros2_modified_name db)\<rparr>) \<or>
    (r = Inr () \<and> \<not> mangled n idl \<and> db' = db\<lparr>type_idls := om_put n idl (type_idls db)\<rparr>)"
proof (cases "n = [] \<or> is_type_in_database n db \<and> idl = []")
  case True
  with assms show ?thesis by (auto simp: insert_type_value(1) [OF True])
next
  case False
  show ?thesis
  proof (cases "mangled n idl")
    case m: True
    have run: "insert_new_type_idl n idl db = (case delete_modules idl of
        None \<Rightarrow> None
      | Some (Inl e) \<Rightarrow> Some (Inl e, db)
      | Some (Inr s) \<Rightarrow>
          (case demangle_name n of
             Inl e \<Rightarrow> Some (Inl e, db)
           | Inr n' \<Rightarrow> Some (Inr (), db\<lparr>
               type_idls := om_put n (demangle_idl_names (erase_all ''::dds_::'' 6 s)) (type_idls db),
               type_ros2_unmodified_idl := om_put n idl (type_ros2_unmodified_idl db),
               type_ros2_modified_name := om_put n n' (type_ros2_modified_name db)\<rparr>)))"
      using False m by (auto simp: insert_new_type_idl_def)
    obtain res where res: "delete_modules idl = Some res"
      using assms run by (cases "delete_modules idl") simp_all
    show ?thesis
    proof (cases res)
      case (Inl e)
      with assms run res show ?thesis by auto
    next
      case (Inr s)
      with assms run res m show ?thesis by (cases "demangle_name n") auto
    qed
  next
    case plain: False
    with assms show ?thesis by (auto simp: insert_type_value(2) [OF False plain])
  qed
qed

definition types_wf :: "'q database \<Rightarrow> bool" where
  "types_wf db \<longleftrightarrow> om_wf (type_idls db) \<and> om_wf (type_ros2_unmodified_idl db) \<and>
     om_wf (type_ros2_modified_name db) \<and>
     dom (om_find (type_ros2_modified_name db)) = dom (om_find (type_ros2_unmodified_idl db)) \<and>
     dom (om_find (type_ros2_modified_name db)) \<subseteq> dom (om_find (type_idls db))"

lemma new_database_types: "types_wf new_database"
  by (simp add: types_wf_def new_database_def)

lemma insert_type_keeps_wf:
  assumes "types_wf db" and "insert_new_type_idl n idl db = Some (r, db')"
  shows "types_wf db'"
  using insert_type_cases [OF assms(2)] assms(1)
  by (elim disjE exE conjE) (simp_all add: types_wf_def omap_wf_intros omap_simps, blast+)

lemma demangled_name:
  assumes "demangle_name n = Inr m"
  shows "(\<exists>j. without_dds n = m @ replicate j (CHR ''_'')) \<and> m \<noteq> [] \<and> last m \<noteq> CHR ''_'' \<and>
    \<not> str_contains ''::dds_::'' m"
proof -
  obtain j where j: "erase_all ''::dds_::'' 6 n = m @ replicate j (CHR ''_'')" and l: "m \<noteq> []" "last m \<noteq> CHR ''_''"
    using assms by (auto simp: demangle_name_def drop_underscores_result)
  have "\<not> str_contains ''::dds_::'' (m @ replicate j (CHR ''_''))"
    using erase_all_gone [of "''::dds_::''" 6 n] j by simp
  then have "\<not> str_contains ''::dds_::'' m" unfolding str_contains_iff by (metis append.assoc)
  with j l show ?thesis unfolding erase_dds by blast
qed

lemmas type_getters = get_ros2_type_idl_nts_def get_ros2_type_name_nts_def get_type_idl_nts_def

lemma type_getters_local:
  assumes "om_find (type_idls db') k = om_find (type_idls db) k"
    and "om_find (type_ros2_unmodified_idl db') k = om_find (type_ros2_unmodified_idl db) k"
    and "om_find (type_ros2_modified_name db') k = om_find (type_ros2_modified_name db) k"
  shows "get_type_idl_nts k db' = get_type_idl_nts k db \<and>
    get_ros2_type_name_nts k db' = get_ros2_type_name_nts k db \<and>
    get_ros2_type_idl_nts k db' = get_ros2_type_idl_nts k db"
  unfolding type_getters assms by (auto split: option.splits)

text \<open>
  C40: what is registered for a type is found again. For a type with a name and an IDL text, whose
  registration succeeds and which is mangled now or never was before: the getter of the original text
  returns the text; the name given out for a mangled type is its name with each \<open>::dds_\<close> before a \<open>::\<close>
  removed and without the underscores at its end, and for another type the name itself; the getter of
  the text returns for a mangled type the text without its \<open>dds_\<close> modules, with each \<open>::dds_\<close> before a
  \<open>::\<close> removed and the names demangled; and no other type is affected.
\<close>

theorem type_idl_round_trip:
  assumes wf: "types_wf db" and ins: "insert_new_type_idl n idl db = Some (Inr (), db')"
    and n: "n \<noteq> []" and idl: "idl \<noteq> []"
    and fresh: "mangled n idl \<or> om_find (type_ros2_unmodified_idl db) n = None"
  shows "types_wf db' \<and> get_ros2_type_idl_nts n db' = Inr idl \<and>
    (mangled n idl \<longrightarrow>
       (\<exists>m j. get_ros2_type_name_nts n db' = Inr m \<and> without_dds n = m @ replicate j (CHR ''_'') \<and> m \<noteq> [] \<and>
          last m \<noteq> CHR ''_'' \<and> \<not> str_contains ''::dds_::'' m) \<and>
       (\<exists>s. delete_modules idl = Some (Inr s) \<and> get_type_idl_nts n db' = Inr (demangle_idl_names (without_dds s)))) \<and>
    (\<not> mangled n idl \<longrightarrow> get_ros2_type_name_nts n db' = Inr n \<and> get_type_idl_nts n db' = Inr idl) \<and>
    (\<forall>k. k \<noteq> n \<longrightarrow> get_type_idl_nts k db' = get_type_idl_nts k db \<and>
       get_ros2_type_name_nts k db' = get_ros2_type_name_nts k db \<and>
       get_ros2_type_idl_nts k db' = get_ros2_type_idl_nts k db)"
proof (cases "mangled n idl")
  case True
  then obtain s m where m: "demangle_name n = Inr m" and s: "delete_modules idl = Some (Inr s)" and db': "db' = db\<lparr>
       type_idls := om_put n (demangle_idl_names (without_dds s)) (type_idls db),
       type_ros2_unmodified_idl := om_put n idl (type_ros2_unmodified_idl db),
       type_ros2_modified_name := om_put n m (type_ros2_modified_name db)\<rparr>"
    using insert_type_cases [OF ins] n idl unfolding erase_dds by auto
  have "om_find (type_idls db') k = om_find (type_idls db) k \<and>
      om_find (type_ros2_unmodified_idl db') k = om_find (type_ros2_unmodified_idl db) k \<and>
      om_find (type_ros2_modified_name db') k = om_find (type_ros2_modified_name db) k" if "k \<noteq> n" for k
    using that wf by (simp add: db' types_wf_def omap_simps)
  moreover have "get_ros2_type_idl_nts n db' = Inr idl" "get_ros2_type_name_nts n db' = Inr m"
    "get_type_idl_nts n db' = Inr (demangle_idl_names (without_dds s))"
    using wf by (simp_all add: db' type_getters types_wf_def omap_simps)
  ultimately show ?thesis
    using True s insert_type_keeps_wf [OF wf ins] demangled_name [OF m] type_getters_local [of db' _ db]
    by simp
next
  case False
  then have db': "db' = db\<lparr>type_idls := om_put n idl (type_idls db)\<rparr>"
    using insert_type_cases [OF ins] n idl by auto
  have "om_find (type_ros2_modified_name db) n = None"
    using wf fresh False unfolding types_wf_def domIff [symmetric] by blast
  moreover have "om_find (type_idls db') k = om_find (type_idls db) k" if "k \<noteq> n" for k
    using that wf by (simp add: db' types_wf_def omap_simps)
  moreover have "om_find (type_idls db') n = Some idl" using wf by (simp add: db' types_wf_def omap_simps)
  ultimately show ?thesis
    using False fresh insert_type_keeps_wf [OF wf ins] type_getters_local [of db' _ db]
    by (simp add: db' type_getters)
qed

text \<open>The text of a type that is registered again without its mangled parts is not replaced.\<close>

theorem stale_type_idl:
  "case insert_new_type_idl ''A'' ''a::dds_::B'' (new_database :: unit database) of
     Some (_, db) \<Rightarrow> (case insert_new_type_idl ''A'' ''struct A'' db of
       Some (_, db) \<Rightarrow> get_type_idl_nts ''A'' db = Inr ''struct A'' \<and>
         get_ros2_type_idl_nts ''A'' db = Inr ''a::dds_::B''
     | None \<Rightarrow> False)
   | None \<Rightarrow> False"
  by code_simp

text \<open>
  Registering a type ends for every text without a \<open>dds_\<close> module, and fails only for a name made of
  underscores; what is stored of a mangled text has no mangled identifier left.
\<close>

theorem type_idl_without_module:
  assumes no: "\<not> str_contains module_dds idl"
  shows "\<exists>r db'. insert_new_type_idl n idl db = Some (r, db') \<and>
    (\<forall>e. r = Inl e \<longrightarrow> e = UndefinedBehaviour \<and> set (erase_all ''::dds_::'' 6 n) \<subseteq> {CHR ''_''}) \<and>
    (types_wf db \<and> r = Inr () \<and> mangled n idl \<and> n \<noteq> [] \<and> idl \<noteq> [] \<longrightarrow>
       (\<exists>s. om_find (type_idls db') n = Some s \<and> \<not> str_contains ''__'' s \<and> \<not> str_contains ''_ '' s \<and>
          \<not> str_contains (''_'' @ [CHR 0x0A]) s \<and> \<not> str_contains ''_>'' s))"
proof -
  have total: "insert_new_type_idl n idl db \<noteq> None"
    by (cases "demangle_name n") (auto simp: insert_new_type_idl_def delete_modules_none [OF no])
  then obtain r db' where run: "insert_new_type_idl n idl db = Some (r, db')" by auto
  have 1: "e = UndefinedBehaviour \<and> set (erase_all ''::dds_::'' 6 n) \<subseteq> {CHR ''_''}" if "r = Inl e" for e
    using run that by (auto simp: insert_new_type_idl_def delete_modules_none [OF no] demangle_name_def
        drop_underscores_fails split: if_splits sum.splits)
  have 2: "\<exists>s. om_find (type_idls db') n = Some (demangle_idl_names s)"
    if "types_wf db" "r = Inr ()" "mangled n idl" "n \<noteq> []" "idl \<noteq> []"
    using insert_type_cases [OF run] that by (auto simp: types_wf_def omap_simps)
  show ?thesis
    using run 1 2 demangle_idl_names_clean by blast
qed

lemma completed_case:
  "(case m of Some (Inr _, db) \<Rightarrow> P db | _ \<Rightarrow> False) \<Longrightarrow> \<exists>db. m = Some (Inr (), db) \<and> P db"
  for m :: "(('e + unit) \<times> 'd) option"
  by (simp split: option.split_asm prod.split_asm sum.split_asm)

definition plain_ros2_idl :: string where
  "plain_ros2_idl = ''struct S { a::dds_::B_ x; sequence<C_> y; };''"

theorem type_idl_round_trip_witness:
  "\<exists>db' :: unit database. insert_new_type_idl ''a::dds_::S_'' plain_ros2_idl new_database = Some (Inr (), db') \<and>
     get_ros2_type_idl_nts ''a::dds_::S_'' db' = Inr plain_ros2_idl \<and>
     get_ros2_type_name_nts ''a::dds_::S_'' db' = Inr ''a::S''"
proof -
  have m: "mangled ''a::dds_::S_'' plain_ros2_idl" and i: "plain_ros2_idl \<noteq> []" by code_simp+
  have "case insert_new_type_idl ''a::dds_::S_'' plain_ros2_idl (new_database :: unit database) of
      Some (Inr _, db') \<Rightarrow> get_ros2_type_name_nts ''a::dds_::S_'' db' = Inr ''a::S'' | _ \<Rightarrow> False"
    by code_simp
  from completed_case [OF this] obtain db' :: "unit database" where
    "insert_new_type_idl ''a::dds_::S_'' plain_ros2_idl new_database = Some (Inr (), db')"
    and "get_ros2_type_name_nts ''a::dds_::S_'' db' = Inr ''a::S''"
    by blast
  with type_idl_round_trip [OF new_database_types this(1) _ i] m show ?thesis by blast
qed

theorem type_idl_without_module_witness:
  "insert_new_type_idl ''a::dds_::S_'' plain_ros2_idl (new_database :: unit database) \<noteq> None"
proof -
  have no: "\<not> str_contains module_dds plain_ros2_idl" by code_simp
  obtain r and db' :: "unit database" where
    "insert_new_type_idl ''a::dds_::S_'' plain_ros2_idl new_database = Some (r, db')"
    using type_idl_without_module [OF no, of "''a::dds_::S_''" new_database] by (elim exE conjE)
  then show ?thesis by (simp only: option.simps not_False_eq_True)
qed

text \<open>A ROS 2 text with a module: the module goes, and its content moves one level up.\<close>

definition ros2_module_idl :: string where
  "ros2_module_idl = ''module std'' @ [CHR 0x0A] @ ''{'' @ [CHR 0x0A] @ ''    module dds_'' @ [CHR 0x0A] @
     ''    {'' @ [CHR 0x0A] @ ''        struct A_'' @ [CHR 0x0A] @ ''        {'' @ [CHR 0x0A] @
     ''            string data_;'' @ [CHR 0x0A] @ ''        };'' @ [CHR 0x0A] @ ''    };'' @ [CHR 0x0A] @
     ''};'' @ [CHR 0x0A]"

theorem ros2_module_removed:
  "delete_modules ros2_module_idl = Some (Inr (''module std'' @ [CHR 0x0A] @ ''{'' @ [CHR 0x0A] @
     ''    struct A_'' @ [CHR 0x0A] @ ''    {'' @ [CHR 0x0A] @ ''        string data_;'' @ [CHR 0x0A] @
     ''    };'' @ [CHR 0x0A] @ ''};'' @ [CHR 0x0A]))"
  by code_simp

end
