(* ===== verification/DbDiscovery.thy ===== *)
theory DbDiscovery
  imports QueueData DomainGraph DbClear TypeNames
begin

text \<open>
  The operations of \<open>database::Database\<close> that the queues call on a discovery (\<open>database.cpp\<close>): inserting
  a new participant, topic or endpoint, updating what is known of a participant, its quality of service
  and its alias, erasing a domain and clearing the inactive entities with their nodes in the graphs.
  An object that is created here is destroyed with the local \<open>shared_ptr\<close> when its insertion throws. A
  \<open>static_pointer_cast\<close> of an object of another class is undefined behaviour.
\<close>

section \<open>New entities\<close>

text \<open>Finding an entity and casting it; no check is made by the code.\<close>

definition get_domain :: "EntityId \<Rightarrow> 'q database \<Rightarrow> addr result" where
  "get_domain i db = bind_result (get_entity_nts db i)
     (\<lambda>r. case r of DomainRef a \<Rightarrow> Inr a | _ \<Rightarrow> Inl UndefinedBehaviour)"

definition get_topic :: "EntityId \<Rightarrow> 'q database \<Rightarrow> addr result" where
  "get_topic i db = bind_result (get_entity_nts db i)
     (\<lambda>r. case r of TopicRef a \<Rightarrow> Inr a | _ \<Rightarrow> Inl UndefinedBehaviour)"

definition get_participant :: "EntityId \<Rightarrow> 'q database \<Rightarrow> addr result" where
  "get_participant i db = bind_result (get_entity_nts db i)
     (\<lambda>r. case r of ParticipantRef a \<Rightarrow> Inr a | _ \<Rightarrow> Inl UndefinedBehaviour)"

definition insert_new_participant ::
  "('q \<Rightarrow> bool) \<Rightarrow> string \<Rightarrow> 'q \<Rightarrow> string \<Rightarrow> EntityId \<Rightarrow> StatusLevel \<Rightarrow> AppId \<Rightarrow> string \<Rightarrow> DiscoverySource \<Rightarrow>
   32 word \<Rightarrow> ('q, EntityId) action" where
  "insert_new_participant qos_empty n q g d st app meta src orig db =
     (case get_domain d db of
        Inl e \<Rightarrow> (Inl e, db)
      | Inr da \<Rightarrow>
          (let a = next_addr db;
               db = db\<lparr>next_addr := Suc a, participant_objs := (participant_objs db)
                 (a \<mapsto> new_participant n q g None (Some da) st app meta src orig)\<rparr>
           in case insert_participant qos_empty a invalid_id db of
               (Inl e, db) \<Rightarrow> (Inl e, db\<lparr>participant_objs := (participant_objs db)(a := None)\<rparr>)
             | (Inr i, db) \<Rightarrow> (Inr i, db)))"

text \<open>A topic that is unknown makes the answer \<open>false\<close>.\<close>

definition is_topic_in_database :: "string \<Rightarrow> EntityId \<Rightarrow> 'q database \<Rightarrow> bool result" where
  "is_topic_in_database ty i db =
     (case get_topic i db of
        Inl (BadParameter s) \<Rightarrow> Inr False
      | Inl e \<Rightarrow> Inl e
      | Inr a \<Rightarrow> (case topic_objs db a of None \<Rightarrow> Inl NullDereference | Some t \<Rightarrow> Inr (data_type t = ty)))"

definition insert_new_topic :: "string \<Rightarrow> string \<Rightarrow> string \<Rightarrow> EntityId \<Rightarrow> ('q, EntityId) action" where
  "insert_new_topic n ty alias d db =
     (case get_domain d db of
        Inl e \<Rightarrow> (Inl e, db)
      | Inr da \<Rightarrow>
          (let a = next_addr db;
               t = new_topic n ty (Some da) OK_STATUS;
               t = (if alias \<noteq> [] then t\<lparr>e_alias := alias\<rparr> else t);
               db = db\<lparr>next_addr := Suc a, topic_objs := (topic_objs db)(a \<mapsto> t)\<rparr>
           in case insert_topic a invalid_id db of
               (Inl e, db) \<Rightarrow> (Inl e, db\<lparr>topic_objs := (topic_objs db)(a := None)\<rparr>)
             | (Inr i, db) \<Rightarrow> (Inr i, db)))"

text \<open>The lambda \<open>process_locators\<close> for one locator: the known one of that name, or a new one.\<close>

definition process_locator :: "string \<Rightarrow> ('q, EntityId \<times> addr) action" where
  "process_locator n db =
     (case get_entities_by_name_nts LOCATOR n db of
        Inl e \<Rightarrow> (Inl e, db)
      | Inr (p # ps) \<Rightarrow>
          (case get_entity_nts db (snd p) of
             Inl e \<Rightarrow> (Inl e, db)
           | Inr (LocatorRef a) \<Rightarrow>
               (case locator_objs db a of None \<Rightarrow> (Inl NullDereference, db) | Some l \<Rightarrow> (Inr (e_id l, a), db))
           | Inr _ \<Rightarrow> (Inl UndefinedBehaviour, db))
      | Inr [] \<Rightarrow>
          (let a = next_addr db;
               db = db\<lparr>next_addr := Suc a, locator_objs := (locator_objs db)(a \<mapsto> new_locator n)\<rparr>
           in case insert_locator a invalid_id db of
               (Inl e, db) \<Rightarrow> (Inl e, db\<lparr>locator_objs := (locator_objs db)(a := None)\<rparr>)
             | (Inr j, db) \<Rightarrow> (Inr (j, a), emit (PhysicalDiscovery j LOCATOR DISCOVERY) db)))"

fun process_locators :: "string list \<Rightarrow> collection \<Rightarrow> ('q, collection) action" where
  "process_locators [] ls = act_return ls"
| "process_locators (n # ns) ls =
     act_bind (process_locator n) (\<lambda>(i, a). process_locators ns (om_put i a ls))"

record RemoteLocatorList =
  unicast :: "Locator_s list"
  multicast :: "Locator_s list"

text \<open>
  \<open>create_endpoint_nts\<close> with what \<open>insert_new_endpoint\<close> sets in the endpoint. Nothing refers to the
  endpoint before it is inserted, so it is allocated once its locators are known.
\<close>

definition create_endpoint ::
  "('q, 'e) DDSEndpoint_scheme \<Rightarrow> bool \<Rightarrow> string \<Rightarrow> collection \<Rightarrow> ('q, 'e) DDSEndpoint_scheme" where
  "create_endpoint e virt alias ls =
     (let e = e\<lparr>is_virtual_metatraffic := virt\<rparr>;
          e = (if alias \<noteq> [] then e\<lparr>e_alias := alias\<rparr> else e)
      in e\<lparr>ep_locators := ls\<rparr>)"

definition insert_created ::
  "('q, 'e) endpoint_class \<Rightarrow> ('q \<Rightarrow> bool) \<Rightarrow> ('q, 'e) DDSEndpoint_scheme \<Rightarrow> ('q, EntityId) action" where
  "insert_created C qos_empty e db =
     (let a = next_addr db;
          db = ec_set_objs C ((ec_objs C db)(a \<mapsto> e)) (db\<lparr>next_addr := Suc a\<rparr>)
      in case insert_endpoint C qos_empty a invalid_id db of
          (Inl ex, db) \<Rightarrow> (Inl ex, ec_set_objs C ((ec_objs C db)(a := None)) db)
        | (Inr i, db) \<Rightarrow> (Inr i, db))"

definition insert_new_endpoint ::
  "fastdds \<Rightarrow> ('q \<Rightarrow> bool) \<Rightarrow> string \<Rightarrow> string \<Rightarrow> string \<Rightarrow> 'q \<Rightarrow> bool \<Rightarrow> RemoteLocatorList \<Rightarrow> EntityKind \<Rightarrow>
   EntityId \<Rightarrow> EntityId \<Rightarrow> AppId \<times> string \<Rightarrow> DiscoverySource \<Rightarrow> 32 word \<Rightarrow> ('q, EntityId) action" where
  "insert_new_endpoint f qos_empty g n alias q virt locs k participant_id topic_id app_data src orig db =
     (case get_participant participant_id db of
        Inl e \<Rightarrow> (Inl e, db)
      | Inr pa \<Rightarrow>
          (case get_topic topic_id db of
             Inl e \<Rightarrow> (Inl e, db)
           | Inr ta \<Rightarrow>
               (let flag = map_option metatraffic (topic_objs db ta);
                    names = map (show_locator f) (unicast locs) @ map (show_locator f) (multicast locs)
                in act_bind (process_locators names []) (\<lambda>ls.
                  if k = DATAREADER
                  then insert_created reader_class qos_empty (create_endpoint
                    (new_datareader n q g (Some pa) (Some ta) flag OK_STATUS (fst app_data) (snd app_data) src orig)
                    virt alias ls)
                  else insert_created writer_class qos_empty (create_endpoint
                    (new_datawriter n q g (Some pa) (Some ta) flag OK_STATUS (fst app_data) (snd app_data) src orig)
                    virt alias ls)) db)))"

definition get_entity_kind_by_guid :: "fastdds \<Rightarrow> GUID_s \<Rightarrow> EntityKind result" where
  "get_entity_kind_by_guid f g =
     (if guid_entity g = participant_entity_id f then Inr PARTICIPANT
      else if is_reader f (guid_entity g) then Inr DATAREADER
      else if is_writer f (guid_entity g) then Inr DATAWRITER
      else Inl (BadParameter ''No Participant, Datawriter or Datareader with provided GUID exists''))"

section \<open>Quality of service and alias\<close>

definition not_dds_entity :: "EntityId \<Rightarrow> exn" where
  "not_dds_entity i = BadParameter
     (''Entity with id '' @ to_string_int (entity_value i) @ '' is not a DDS Entity'')"

text \<open>\<open>merge\<close> is \<open>merge_patch\<close> of the document; the result says whether the document changed.\<close>

definition update_qos_of ::
  "('q \<Rightarrow> 'q \<Rightarrow> 'q) \<Rightarrow> 'q \<Rightarrow> ('q, 'e) DDSEntity_scheme option \<Rightarrow> (('q, 'e) DDSEntity_scheme \<Rightarrow> 'q database) \<Rightarrow>
   ('q, bool) action" where
  "update_qos_of merge q obj store db =
     (case obj of
        None \<Rightarrow> (Inl NullDereference, db)
      | Some x \<Rightarrow> (let new = merge (qos x) q in (Inr (new \<noteq> qos x), store (x\<lparr>qos := new\<rparr>))))"

definition update_entity_qos_nts :: "('q \<Rightarrow> 'q \<Rightarrow> 'q) \<Rightarrow> EntityId \<Rightarrow> 'q \<Rightarrow> ('q, bool) action" where
  "update_entity_qos_nts merge i q db =
     (case get_entity_nts db i of
        Inl e \<Rightarrow> (Inl e, db)
      | Inr (ParticipantRef a) \<Rightarrow> update_qos_of merge q (participant_objs db a)
          (\<lambda>x. db\<lparr>participant_objs := (participant_objs db)(a \<mapsto> x)\<rparr>) db
      | Inr (DataReaderRef a) \<Rightarrow> update_qos_of merge q (reader_objs db a)
          (\<lambda>x. db\<lparr>reader_objs := (reader_objs db)(a \<mapsto> x)\<rparr>) db
      | Inr (DataWriterRef a) \<Rightarrow> update_qos_of merge q (writer_objs db a)
          (\<lambda>x. db\<lparr>writer_objs := (writer_objs db)(a \<mapsto> x)\<rparr>) db
      | Inr _ \<Rightarrow> (Inl (not_dds_entity i), db))"

fun set_alias_at :: "string \<Rightarrow> entity_ref \<Rightarrow> 'q database \<Rightarrow> 'q database" where
  "set_alias_at s (HostRef a) db = db\<lparr>host_objs := obj_update a (\<lambda>x. x\<lparr>e_alias := s\<rparr>) (host_objs db)\<rparr>"
| "set_alias_at s (UserRef a) db = db\<lparr>user_objs := obj_update a (\<lambda>x. x\<lparr>e_alias := s\<rparr>) (user_objs db)\<rparr>"
| "set_alias_at s (ProcessRef a) db =
     db\<lparr>process_objs := obj_update a (\<lambda>x. x\<lparr>e_alias := s\<rparr>) (process_objs db)\<rparr>"
| "set_alias_at s (DomainRef a) db = db\<lparr>domain_objs := obj_update a (\<lambda>x. x\<lparr>e_alias := s\<rparr>) (domain_objs db)\<rparr>"
| "set_alias_at s (TopicRef a) db = db\<lparr>topic_objs := obj_update a (\<lambda>x. x\<lparr>e_alias := s\<rparr>) (topic_objs db)\<rparr>"
| "set_alias_at s (ParticipantRef a) db =
     db\<lparr>participant_objs := obj_update a (\<lambda>x. x\<lparr>e_alias := s\<rparr>) (participant_objs db)\<rparr>"
| "set_alias_at s (DataReaderRef a) db =
     db\<lparr>reader_objs := obj_update a (\<lambda>x. x\<lparr>e_alias := s\<rparr>) (reader_objs db)\<rparr>"
| "set_alias_at s (DataWriterRef a) db =
     db\<lparr>writer_objs := obj_update a (\<lambda>x. x\<lparr>e_alias := s\<rparr>) (writer_objs db)\<rparr>"
| "set_alias_at s (LocatorRef a) db =
     db\<lparr>locator_objs := obj_update a (\<lambda>x. x\<lparr>e_alias := s\<rparr>) (locator_objs db)\<rparr>"

text \<open>The announcement of a graph that has changed.\<close>

definition announce_graph :: "EntityId \<Rightarrow> bool \<Rightarrow> ('q, unit) action" where
  "announce_graph d b db = (Inr (), if b then emit (GraphUpdated d) db else db)"

definition set_alias_nts :: "EntityId \<Rightarrow> string \<Rightarrow> ('q, unit) action" where
  "set_alias_nts i s db =
     (case get_entity_nts db i of
        Inl e \<Rightarrow> (Inl e, db)
      | Inr r \<Rightarrow>
          (case entity_of db r of
             None \<Rightarrow> (Inl NullDereference, db)
           | Some x \<Rightarrow>
               if e_alias x = s then (Inr (), db)
               else (let db = set_alias_at s r db
                     in case get_entities_nts db DOMAIN i of
                         Inl e \<Rightarrow> (Inl e, db)
                       | Inr [] \<Rightarrow> (Inr (), db)
                       | Inr (None # _) \<Rightarrow> (Inl NullDereference, db)
                       | Inr (Some y # _) \<Rightarrow>
                           (case entity_of db y of
                              None \<Rightarrow> (Inl NullDereference, db)
                            | Some home \<Rightarrow>
                                act_bind (update_graph_on_updated_entity_nts (e_id home) i)
                                  (announce_graph (e_id home)) db))))"

section \<open>Updating a participant\<close>

fun update_enabled :: "DiscoverySource \<Rightarrow> DiscoverySource \<Rightarrow> bool" where
  "update_enabled DISCOVERY_SOURCE new = (new = DISCOVERY_SOURCE)"
| "update_enabled PROXY_SOURCE new = (new = DISCOVERY_SOURCE \<or> new = PROXY_SOURCE)"
| "update_enabled INFERRED_SOURCE new =
     (new = DISCOVERY_SOURCE \<or> new = PROXY_SOURCE \<or> new = INFERRED_SOURCE)"
| "update_enabled UNKNOWN_SOURCE new = True"

text \<open>The process string is \<open>command:PID\<close>, cut at the last colon.\<close>

definition split_process :: "string \<Rightarrow> string \<times> string" where
  "split_process s =
     (if CHR '':'' \<in> set s
      then let pid = rev (takeWhile (\<lambda>c. c \<noteq> CHR '':'') (rev s))
           in (take (length s - length pid - 1) s, pid)
      else (s, s))"

text \<open>
  \<open>get_mutable_entity_nts\<close> searches the collections as \<open>get_entity_nts\<close> does, in the same order. The
  steps below take the address \<open>a\<close> of the participant. Its process, user and host are reached through
  \<open>fragile_ptr::operator->\<close>, which throws.
\<close>

definition get_mutable_entity_nts :: "'q database \<Rightarrow> EntityId \<Rightarrow> entity_ref result" where
  "get_mutable_entity_nts db i =
     (case find_entity db i of Some r \<Rightarrow> Inr r | None \<Rightarrow> Inl (no_such_entity i))"

definition process_of :: "addr \<Rightarrow> 'q database \<Rightarrow> addr result" where
  "process_of a db =
     (case participant_objs db a of
        None \<Rightarrow> Inl NullDereference
      | Some x \<Rightarrow>
          (case fragile_lock (process_objs db) (dp_process x) of
             None \<Rightarrow> Inl expired_reference
           | Some c \<Rightarrow> Inr c))"

definition user_of :: "addr \<Rightarrow> 'q database \<Rightarrow> addr result" where
  "user_of a db = bind_result (process_of a db) (\<lambda>c.
     case process_objs db c of
       None \<Rightarrow> Inl NullDereference
     | Some p \<Rightarrow>
         (case fragile_lock (user_objs db) (p_user p) of
            None \<Rightarrow> Inl expired_reference
          | Some b \<Rightarrow> Inr b))"

definition host_of :: "addr \<Rightarrow> 'q database \<Rightarrow> addr result" where
  "host_of a db = bind_result (user_of a db) (\<lambda>b.
     case user_objs db b of
       None \<Rightarrow> Inl NullDereference
     | Some u \<Rightarrow>
         (case fragile_lock (host_objs db) (u_host u) of
            None \<Rightarrow> Inl expired_reference
          | Some h \<Rightarrow> Inr h))"

text \<open>Doing something with a result that may be an exception.\<close>

definition act_with :: "('q database \<Rightarrow> 'a result) \<Rightarrow> ('a \<Rightarrow> ('q, 'b) action) \<Rightarrow> ('q, 'b) action" where
  "act_with f g db = (case f db of Inl e \<Rightarrow> (Inl e, db) | Inr x \<Rightarrow> g x db)"

definition modify :: "('q database \<Rightarrow> 'q database) \<Rightarrow> ('q, unit) action" where
  "modify f db = (Inr (), f db)"

text \<open>Whether a user is that user on that host; no exception is possible here.\<close>

definition user_matches :: "'q database \<Rightarrow> string \<Rightarrow> string \<Rightarrow> addr option \<Rightarrow> bool" where
  "user_matches db uname hname p =
     (case fragile_lock (user_objs db) p of
        None \<Rightarrow> False
      | Some b \<Rightarrow>
          (case user_objs db b of
             None \<Rightarrow> False
           | Some u \<Rightarrow> e_name u = uname \<and>
               (case fragile_lock (host_objs db) (u_host u) of
                  None \<Rightarrow> False
                | Some h \<Rightarrow> map_option e_name (host_objs db h) = Some hname)))"

text \<open>Case 1: a process of that name, with that user on that host, is there.\<close>

fun case_process :: "EntityId \<Rightarrow> addr \<Rightarrow> string \<Rightarrow> string \<Rightarrow> (EntityId \<times> EntityId) list \<Rightarrow> ('q, bool) action" where
  "case_process i a uname hname [] db = (Inr False, db)"
| "case_process i a uname hname ((d, j) # js) db =
     (case get_mutable_entity_nts db j of
        Inl e \<Rightarrow> (Inl e, db)
      | Inr (ProcessRef c) \<Rightarrow>
          (case process_objs db c of
             None \<Rightarrow> (Inl NullDereference, db)
           | Some p \<Rightarrow>
               if user_matches db uname hname (p_user p)
               then act_bind (modify (\<lambda>db. db\<lparr>participant_objs :=
                        obj_update a (\<lambda>x. x\<lparr>dp_process := None\<rparr>) (participant_objs db)\<rparr>))
                      (\<lambda>_. act_bind (link_participant_with_process_nts i (e_id p)) (\<lambda>_. act_return True)) db
               else case_process i a uname hname js db)
      | Inr _ \<Rightarrow> (Inl NullDereference, db))"

text \<open>Case 2: the process is the one of the placeholder; a user of that name on that host is there.\<close>

definition rename_process :: "addr \<Rightarrow> string \<Rightarrow> string \<Rightarrow> DiscoverySource \<Rightarrow> ('q, unit) action" where
  "rename_process a pname ppid src =
     act_with (process_of a) (\<lambda>c. modify (\<lambda>db. db\<lparr>process_objs := obj_update c
       (\<lambda>p. p\<lparr>e_name := pname, e_alias := pname, pid := ppid, e_discovery_source := src\<rparr>) (process_objs db)\<rparr>))"

fun case_user :: "addr \<Rightarrow> string \<Rightarrow> DiscoverySource \<Rightarrow> (EntityId \<times> EntityId) list \<Rightarrow> ('q, bool) action" where
  "case_user a hname src [] db = (Inr False, db)"
| "case_user a hname src ((d, j) # js) db =
     (case get_mutable_entity_nts db j of
        Inl e \<Rightarrow> (Inl e, db)
      | Inr (UserRef b) \<Rightarrow>
          (case user_objs db b of
             None \<Rightarrow> (Inl NullDereference, db)
           | Some u \<Rightarrow>
               (case fragile_lock (host_objs db) (u_host u) of
                  None \<Rightarrow> case_user a hname src js db
                | Some h \<Rightarrow>
                    if map_option e_name (host_objs db h) = Some hname
                    then act_with (process_of a) (\<lambda>c. act_bind (modify (\<lambda>db. db\<lparr>
                             user_objs := obj_update b (\<lambda>u. u\<lparr>e_discovery_source := src,
                               u_processes := om_put (e_id (the (process_objs db c))) c (u_processes u)\<rparr>) (user_objs db),
                             process_objs := obj_update c (\<lambda>p. p\<lparr>p_user := Some b\<rparr>) (process_objs db),
                             host_objs := obj_update h (\<lambda>h. h\<lparr>e_discovery_source := src\<rparr>) (host_objs db)\<rparr>))
                           (\<lambda>_. act_return True)) db
                    else case_user a hname src js db))
      | Inr _ \<Rightarrow> (Inl NullDereference, db))"

text \<open>Case 3: the user is the one of the placeholder; a host of that name is there.\<close>

definition rename_user :: "addr \<Rightarrow> string \<Rightarrow> DiscoverySource \<Rightarrow> ('q, unit) action" where
  "rename_user a uname src =
     act_with (user_of a) (\<lambda>b. modify (\<lambda>db. db\<lparr>user_objs := obj_update b
       (\<lambda>u. u\<lparr>e_name := uname, e_alias := uname, e_discovery_source := src\<rparr>) (user_objs db)\<rparr>))"

definition case_host :: "addr \<Rightarrow> DiscoverySource \<Rightarrow> (EntityId \<times> EntityId) list \<Rightarrow> ('q, bool) action" where
  "case_host a src js db =
     (case js of
        [] \<Rightarrow> (Inr False, db)
      | (d, j) # _ \<Rightarrow>
          (case get_mutable_entity_nts db j of
             Inl e \<Rightarrow> (Inl e, db)
           | Inr (HostRef h) \<Rightarrow>
               act_with (user_of a) (\<lambda>b. act_bind (modify (\<lambda>db. db\<lparr>
                   host_objs := obj_update h (\<lambda>h. h\<lparr>e_discovery_source := src,
                     h_users := om_put (e_id (the (user_objs db b))) b (h_users h)\<rparr>) (host_objs db),
                   user_objs := obj_update b (\<lambda>u. u\<lparr>u_host := Some h\<rparr>) (user_objs db)\<rparr>))
                 (\<lambda>_. act_return True)) db
           | Inr _ \<Rightarrow> (Inl NullDereference, db)))"

text \<open>Case 4: the whole placeholder is reused.\<close>

definition rename_host :: "addr \<Rightarrow> string \<Rightarrow> DiscoverySource \<Rightarrow> ('q, unit) action" where
  "rename_host a hname src =
     act_with (host_of a) (\<lambda>h. modify (\<lambda>db. db\<lparr>host_objs := obj_update h
       (\<lambda>x. x\<lparr>e_name := hname, e_alias := hname, e_discovery_source := src\<rparr>) (host_objs db)\<rparr>))"

definition update_physical ::
  "EntityId \<Rightarrow> addr \<Rightarrow> string \<Rightarrow> string \<Rightarrow> string \<Rightarrow> DiscoverySource \<Rightarrow> ('q, unit) action" where
  "update_physical i a hname uname proc src =
     (let (pname, ppid) = split_process proc
      in act_with (get_entities_by_name_nts PROCESS pname) (\<lambda>ps.
         act_bind (case_process i a uname hname ps) (\<lambda>found.
         if found then act_return ()
         else act_bind (rename_process a pname ppid src) (\<lambda>_.
           act_with (get_entities_by_name_nts USER uname) (\<lambda>us.
           act_bind (case_user a hname src us) (\<lambda>found.
           if found then act_return ()
           else act_bind (rename_user a uname src) (\<lambda>_.
             act_with (get_entities_by_name_nts HOST hname) (\<lambda>hs.
             act_bind (case_host a src hs) (\<lambda>found.
             if found then act_return () else rename_host a hname src)))))))))"

text \<open>The identifiers the graph is updated for; the map keeps what was written before an exception.\<close>

definition physical_ids_of :: "addr \<Rightarrow> 'q database \<Rightarrow> unit result \<times> physical_ids" where
  "physical_ids_of a db =
     (let ids = \<lparr>host_entity = invalid_id, user_entity = invalid_id, process_entity = invalid_id\<rparr>
      in case process_of a db of
          Inl e \<Rightarrow> (Inl e, ids)
        | Inr c \<Rightarrow>
            (let ids = ids\<lparr>process_entity := e_id (the (process_objs db c))\<rparr>
             in case user_of a db of
                 Inl e \<Rightarrow> (Inl e, ids)
               | Inr b \<Rightarrow>
                   (let ids = ids\<lparr>user_entity := e_id (the (user_objs db b))\<rparr>
                    in case host_of a db of
                        Inl e \<Rightarrow> (Inl e, ids)
                      | Inr h \<Rightarrow> (Inr (), ids\<lparr>host_entity := e_id (the (host_objs db h))\<rparr>))))"

text \<open>\<open>catch (const std::exception&)\<close>; undefined behaviour is not caught.\<close>

fun is_std_exception :: "exn \<Rightarrow> bool" where
  "is_std_exception NullDereference = False"
| "is_std_exception UndefinedBehaviour = False"
| "is_std_exception _ = True"

definition move_participant ::
  "EntityId \<Rightarrow> addr \<Rightarrow> string \<Rightarrow> string \<Rightarrow> string \<Rightarrow> DiscoverySource \<Rightarrow> ('q, physical_ids) action" where
  "move_participant i a hname uname proc src db =
     (let (r, db) = update_physical i a hname uname proc src db;
          (r, ids) = (case r of
             Inl e \<Rightarrow> (Inl e, \<lparr>host_entity = invalid_id, user_entity = invalid_id, process_entity = invalid_id\<rparr>)
           | Inr _ \<Rightarrow> physical_ids_of a db)
      in case r of
          Inl e \<Rightarrow> if is_std_exception e then (Inr ids, db) else (Inl e, db)
        | Inr _ \<Rightarrow> (Inr ids, db))"

definition update_participant_data ::
  "string \<Rightarrow> 'q \<Rightarrow> string \<Rightarrow> StatusLevel \<Rightarrow> AppId \<Rightarrow> string \<Rightarrow> DiscoverySource \<Rightarrow> 32 word \<Rightarrow>
   'q DomainParticipant \<Rightarrow> 'q DomainParticipant" where
  "update_participant_data n q g st app meta src orig x =
     (let x = x\<lparr>e_name := n, qos := q, guid := g, e_status := st, app_id := app, app_metadata := meta,
            e_discovery_source := src, dp_original_domain := orig\<rparr>
      in if e_alias x = [] \<or> e_alias x = ''Inferred Participant''
         then x\<lparr>e_alias := normalize_entity_name (e_name x)\<rparr> else x)"

definition not_a_participant :: "EntityId \<Rightarrow> exn" where
  "not_a_participant i = BadParameter
     (''Entity with id '' @ to_string_int (entity_value i) @ '' is not a Participant'')"

definition update_participant_discovery_info_nts ::
  "EntityId \<Rightarrow> string \<Rightarrow> string \<Rightarrow> string \<Rightarrow> string \<Rightarrow> 'q \<Rightarrow> string \<Rightarrow> EntityId \<Rightarrow> StatusLevel \<Rightarrow> AppId \<Rightarrow> string \<Rightarrow>
   DiscoverySource \<Rightarrow> 32 word \<Rightarrow> ('q, bool) action" where
  "update_participant_discovery_info_nts i hname uname proc n q g d st app meta src orig db =
     (case get_mutable_entity_nts db i of
        Inl e \<Rightarrow> (Inl e, db)
      | Inr (ParticipantRef a) \<Rightarrow>
          (case participant_objs db a of
             None \<Rightarrow> (Inl NullDereference, db)
           | Some x \<Rightarrow>
               if \<not> update_enabled (e_discovery_source x) src then (Inr False, db)
               else act_bind (modify (\<lambda>db. db\<lparr>participant_objs := obj_update a
                        (update_participant_data n q g st app meta src orig) (participant_objs db)\<rparr>))
                 (\<lambda>_. act_bind (move_participant i a hname uname proc src) (\<lambda>ids.
                  act_bind (update_participant_in_graph_nts d (host_entity ids) (user_entity ids)
                      (process_entity ids) i) (\<lambda>b.
                  if b then act_bind (announce_graph d True) (\<lambda>_.
                              act_bind (regenerate_domain_graph_nts d) (\<lambda>_. act_return b))
                  else act_return b))) db)
      | Inr _ \<Rightarrow> (Inl (not_a_participant i), db))"

section \<open>Clearing\<close>

fun regenerate_all :: "EntityId list \<Rightarrow> ('q, unit) action" where
  "regenerate_all [] = act_return ()"
| "regenerate_all (d # ds) =
     act_bind (regenerate_domain_graph_nts d) (\<lambda>b. act_bind (announce_graph d b) (\<lambda>_. regenerate_all ds))"

definition clear_inactive_entities :: "('q, unit) action" where
  "clear_inactive_entities db =
     (let db = clear_inactive_entities_nts db in regenerate_all (om_keys (domains db)) db)"

text \<open>Erasing a domain. A locator or process the collections do not hold would be a null entry.\<close>

fun unlink_locators :: "(Locator \<Rightarrow> Locator) \<Rightarrow> EntityId list \<Rightarrow> ('q, unit) action" where
  "unlink_locators del [] db = (Inr (), db)"
| "unlink_locators del (k # ks) db =
     (case om_find (locators db) k of
        None \<Rightarrow> (Inl NullDereference, db)
      | Some b \<Rightarrow>
          (case locator_objs db b of
             None \<Rightarrow> (Inl NullDereference, db)
           | Some l \<Rightarrow> unlink_locators del ks (db\<lparr>locator_objs := (locator_objs db)(b \<mapsto> del l)\<rparr>)))"

fun unlink_endpoints ::
  "('q database \<Rightarrow> addr \<Rightarrow> collection option) \<Rightarrow> (EntityId \<Rightarrow> Locator \<Rightarrow> Locator) \<Rightarrow> collection \<Rightarrow> ('q, unit) action"
  where
  "unlink_endpoints locs del [] db = (Inr (), db)"
| "unlink_endpoints locs del ((k, a) # m) db =
     (case locs db a of
        None \<Rightarrow> (Inl NullDereference, db)
      | Some ls \<Rightarrow> act_bind (unlink_locators (del k) (om_keys ls)) (\<lambda>_. unlink_endpoints locs del m) db)"

definition unlink_participant :: "EntityId \<Rightarrow> EntityId \<Rightarrow> addr \<Rightarrow> ('q, unit) action" where
  "unlink_participant d k a db =
     (case participant_objs db a of
        None \<Rightarrow> (Inl NullDereference, db)
      | Some x \<Rightarrow>
          (case fragile_lock (process_objs db) (dp_process x) of
             None \<Rightarrow> (Inr (), db)
           | Some c \<Rightarrow>
               (case om_find (processes db) (e_id (the (process_objs db c))) of
                  None \<Rightarrow> (Inl NullDereference, db)
                | Some c' \<Rightarrow>
                    (case process_objs db c' of
                       None \<Rightarrow> (Inl NullDereference, db)
                     | Some p \<Rightarrow>
                         let rest = om_erase k (p_participants p);
                             db = db\<lparr>process_objs := (process_objs db)(c' \<mapsto> p\<lparr>p_participants := rest\<rparr>)\<rparr>
                         in case some_active (participant_objs db) rest of
                             Inl e \<Rightarrow> (Inl e, db)
                           | Inr True \<Rightarrow> (Inr (), db)
                           | Inr False \<Rightarrow> change_entity_status_of_kind (e_id p) False PROCESS d db))))"

fun unlink_participants :: "EntityId \<Rightarrow> collection \<Rightarrow> ('q, unit) action" where
  "unlink_participants d [] = act_return ()"
| "unlink_participants d ((k, a) # m) =
     act_bind (unlink_participant d k a) (\<lambda>_. unlink_participants d m)"

definition free_all :: "collection \<Rightarrow> (addr \<Rightarrow> 'o option) \<Rightarrow> addr \<Rightarrow> 'o option" where
  "free_all m h a = (if a \<in> snd ` set m then None else h a)"

definition erase :: "EntityId \<Rightarrow> ('q, unit) action" where
  "erase d db =
     (case get_entity_kind db d of
        Inl e \<Rightarrow> (Inl e, db)
      | Inr k \<Rightarrow>
          if k \<noteq> DOMAIN then (Inl (BadParameter ''Incorrect EntityKind''), db)
          else (let readers = om_get [] d (datareaders db); writers = om_get [] d (datawriters db);
                    ts = om_get [] d (topics db); ps = om_get [] d (participants db)
            in act_bind (unlink_endpoints (\<lambda>db a. map_option ep_locators (reader_objs db a))
                 (\<lambda>k l. l\<lparr>l_data_readers := om_erase k (l_data_readers l)\<rparr>) readers) (\<lambda>_.
               act_bind (modify (\<lambda>db. db\<lparr>datareaders := om_erase d (datareaders db),
                 reader_objs := free_all readers (reader_objs db)\<rparr>)) (\<lambda>_.
               act_bind (unlink_endpoints (\<lambda>db a. map_option ep_locators (writer_objs db a))
                 (\<lambda>k l. l\<lparr>l_data_writers := om_erase k (l_data_writers l)\<rparr>) writers) (\<lambda>_.
               act_bind (modify (\<lambda>db. db\<lparr>datawriters := om_erase d (datawriters db),
                 writer_objs := free_all writers (writer_objs db), topics := om_erase d (topics db),
                 topic_objs := free_all ts (topic_objs db)\<rparr>)) (\<lambda>_.
               act_bind (unlink_participants d ps) (\<lambda>_.
               act_bind (modify (\<lambda>db. db\<lparr>participants := om_erase d (participants db),
                 participant_objs := free_all ps (participant_objs db)\<rparr>)) (\<lambda>_.
               act_with (\<lambda>db. case om_find (domains db) d of None \<Rightarrow> Inl NullDereference | Some a \<Rightarrow> Inr a) (\<lambda>a.
               act_bind (modify (\<lambda>db. db\<lparr>domain_objs := obj_update a clear_domain (domain_objs db)\<rparr>)) (\<lambda>_.
               act_bind (regenerate_domain_graph_nts d) (announce_graph d))))))))) db))"

end
