(* ===== verification/QueueEntities.thy ===== *)
theory QueueEntities
  imports DbDiscovery
begin

text \<open>
  Processing the discoveries: \<open>DatabaseEntityQueue::process_sample\<close> (\<open>database_queue.hpp\<close>) with
  \<open>process_participant\<close>, \<open>process_datareader\<close>, \<open>process_datawriter\<close> and \<open>process_endpoint_discovery\<close>
  (\<open>database_queue.cpp\<close>). The calls of \<open>on_domain_entity_discovery\<close> and \<open>on_domain_view_graph_update\<close> are
  events. The result is \<open>None\<close> when the demangling of the type of an endpoint does not end.
\<close>

section \<open>The discovery\<close>

record 'q EntityDiscoveryInfo =
  di_discovery_status :: DiscoveryStatus
  di_domain_id :: EntityId
  di_guid :: GUID_s
  di_qos :: 'q
  di_participant_guid :: GUID_s
  di_address :: string
  di_participant_name :: string
  di_app_id :: AppId
  di_app_metadata :: string
  di_host :: string
  di_user :: string
  di_process :: string
  di_topic_name :: string
  di_type_name :: string
  di_type_idl :: string
  di_locators :: RemoteLocatorList
  di_alias :: string
  di_is_virtual_metatraffic :: bool
  di_entity_status :: StatusLevel
  di_discovery_source :: DiscoverySource
  di_original_domain_id :: "32 word"
  di_is_proxy_undiscovery :: bool
  di_kind :: EntityKind

text \<open>A value of the class constructed with a kind; \<open>q\<close> is the empty document.\<close>

definition no_guid :: GUID_s where
  "no_guid = \<lparr>guid_prefix = replicate 12 0, guid_entity = replicate 4 0\<rparr>"

definition new_discovery_info :: "'q \<Rightarrow> EntityKind \<Rightarrow> 'q EntityDiscoveryInfo" where
  "new_discovery_info q k =
     \<lparr>di_discovery_status = DISCOVERY, di_domain_id = invalid_id, di_guid = no_guid, di_qos = q,
      di_participant_guid = no_guid, di_address = [], di_participant_name = [], di_app_id = UNKNOWN_APP,
      di_app_metadata = [], di_host = [], di_user = [], di_process = [], di_topic_name = [], di_type_name = [],
      di_type_idl = [], di_locators = \<lparr>unicast = [], multicast = []\<rparr>, di_alias = [],
      di_is_virtual_metatraffic = False, di_entity_status = OK_STATUS, di_discovery_source = UNKNOWN_SOURCE,
      di_original_domain_id = UNKNOWN_DOMAIN_ID, di_is_proxy_undiscovery = False, di_kind = k\<rparr>"

text \<open>Two hexadecimal digits per octet, separated by full stops.\<close>

definition hex_digit :: "nat \<Rightarrow> char" where
  "hex_digit n = char_of (if n < 10 then n + 48 else n + 87)"

definition hex_octet :: "octet \<Rightarrow> string" where
  "hex_octet b = [hex_digit (unat b div 16), hex_digit (unat b mod 16)]"

definition get_participant_id :: "GUID_s \<Rightarrow> string" where
  "get_participant_id g =
     concat (map (\<lambda>i. hex_octet (guid_prefix g ! (i + 8)) @ ''.'') [0 ..< 3]) @ hex_octet (guid_prefix g ! 11)"

definition participant_guid_of :: "fastdds \<Rightarrow> GUID_s \<Rightarrow> GUID_s" where
  "participant_guid_of f g = g\<lparr>guid_entity := participant_entity_id f\<rparr>"

section \<open>Participants\<close>

text \<open>The identifier and whether the participant is to be linked with its process.\<close>

definition find_or_insert_participant ::
  "fastdds \<Rightarrow> ('q \<Rightarrow> bool) \<Rightarrow> 'q EntityDiscoveryInfo \<Rightarrow> ('q, EntityId \<times> bool) action" where
  "find_or_insert_participant f qos_empty info db =
     (case act_with (get_entity_by_guid_nts PARTICIPANT (show_guid f (di_guid info))) (\<lambda>(d, i).
        act_bind (change_entity_status i (di_discovery_status info \<noteq> UNDISCOVERY)) (\<lambda>_.
        if di_discovery_status info = UPDATE
        then act_bind (update_participant_discovery_info_nts i (di_host info) (di_user info) (di_process info)
               (di_participant_name info) (di_qos info) (show_guid f (di_guid info)) (di_domain_id info)
               (di_entity_status info) (di_app_id info) (di_app_metadata info) (di_discovery_source info)
               (di_original_domain_id info)) (\<lambda>_. act_return (i, False))
        else act_return (i, False))) db of
        (Inl (BadParameter s), db) \<Rightarrow>
          if di_discovery_status info = DISCOVERY
          then let n = (if di_participant_name info = []
                        then di_address info @ '':'' @ get_participant_id (di_guid info)
                        else di_participant_name info)
               in act_bind (insert_new_participant qos_empty n (di_qos info) (show_guid f (di_guid info))
                    (di_domain_id info) (di_entity_status info) (di_app_id info) (di_app_metadata info)
                    (di_discovery_source info) (di_original_domain_id info)) (\<lambda>i. act_return (i, True)) db
          else (Inl (BadParameter ''Update or undiscover a participant which is not in the database''), db)
      | other \<Rightarrow> other)"

text \<open>\<open>catch (const std::exception&)\<close> around the physical entities; the identifiers found so far remain.\<close>

definition physical_entities_of :: "EntityId \<Rightarrow> bool \<Rightarrow> 'q EntityDiscoveryInfo \<Rightarrow> ('q, physical_ids) action" where
  "physical_entities_of i link info db =
     (let (pname, ppid) = split_process (di_process info)
      in case process_physical_entities_nts (di_host info) (di_user info) pname ppid (di_discovery_source info) link i
             \<lparr>host_entity = invalid_id, user_entity = invalid_id, process_entity = invalid_id\<rparr> db of
          (Inl e, _, ids, db) \<Rightarrow> if is_std_exception e then (Inr ids, db) else (Inl e, db)
        | (Inr _, _, ids, db) \<Rightarrow> (Inr ids, db))"

definition process_participant ::
  "fastdds \<Rightarrow> ('q \<Rightarrow> bool) \<Rightarrow> 'q EntityDiscoveryInfo \<Rightarrow> ('q, EntityId) action" where
  "process_participant f qos_empty info =
     act_bind (find_or_insert_participant f qos_empty info) (\<lambda>(i, link).
     act_bind (physical_entities_of i link info) (\<lambda>ids.
     act_bind (update_participant_in_graph_nts (di_domain_id info) (host_entity ids) (user_entity ids)
       (process_entity ids) i) (\<lambda>b.
     act_bind (announce_graph (di_domain_id info) b) (\<lambda>_. act_return i))))"

section \<open>Endpoints\<close>

text \<open>The participant of an endpoint, in the domain of the discovery; any exception becomes \<open>BadParameter\<close>.\<close>

definition endpoint_participant ::
  "fastdds \<Rightarrow> string \<Rightarrow> 'q EntityDiscoveryInfo \<Rightarrow> 'q database \<Rightarrow> (EntityId \<times> EntityId) result" where
  "endpoint_participant f verb info db =
     (let g = show_guid f (participant_guid_of f (di_guid info));
          missing = BadParameter (''endpoint '' @ show_guid f (di_guid info) @ verb @ g @
            '' but there is no such Participant in the database'')
      in case get_entity_by_guid_nts PARTICIPANT g db of
          Inl e \<Rightarrow> if is_backend_exception e then Inl missing else Inl e
        | Inr (d, i) \<Rightarrow> if d \<noteq> di_domain_id info then Inl missing else Inr (d, i))"

text \<open>The first topic of that name in that domain with that type; no identifier when there is none.\<close>

fun find_topic :: "EntityId \<Rightarrow> string \<Rightarrow> (EntityId \<times> EntityId) list \<Rightarrow> 'q database \<Rightarrow> EntityId result" where
  "find_topic d ty [] db = Inr invalid_id"
| "find_topic d ty ((d', i) # ts) db =
     (if d' = d
      then bind_result (is_topic_in_database ty i db) (\<lambda>b. if b then Inr i else find_topic d ty ts db)
      else find_topic d ty ts db)"

definition topic_of_info :: "'q EntityDiscoveryInfo \<Rightarrow> 'q database \<Rightarrow> EntityId result" where
  "topic_of_info info db =
     bind_result (get_entities_by_name_nts TOPIC (di_topic_name info) db)
       (\<lambda>ts. find_topic (di_domain_id info) (di_type_name info) ts db)"

definition get_or_create_topic :: "'q EntityDiscoveryInfo \<Rightarrow> ('q, EntityId) action" where
  "get_or_create_topic info =
     act_with (topic_of_info info) (\<lambda>t.
       if t = invalid_id
       then act_bind (insert_new_topic (di_topic_name info) (di_type_name info) (di_alias info) (di_domain_id info))
              (\<lambda>t db. (Inr t, emit (DomainEntityDiscovery (di_domain_id info) t TOPIC DISCOVERY) db))
       else act_return t)"

text \<open>The type is registered for endpoints seen by discovery only.\<close>

definition register_type :: "'q EntityDiscoveryInfo \<Rightarrow> 'q database \<Rightarrow> (unit result \<times> 'q database) option" where
  "register_type info db =
     (if di_discovery_source info = DISCOVERY_SOURCE \<and> \<not> di_is_virtual_metatraffic info
      then insert_new_type_idl (di_type_name info) (di_type_idl info) db
      else Some (Inr (), db))"

definition participant_app :: "EntityId \<Rightarrow> 'q database \<Rightarrow> AppId result" where
  "participant_app i db = bind_result (get_participant i db) (\<lambda>a.
     case participant_objs db a of None \<Rightarrow> Inl NullDereference | Some x \<Rightarrow> Inr (app_id x))"

definition create_discovered ::
  "fastdds \<Rightarrow> ('q \<Rightarrow> bool) \<Rightarrow> 'q EntityDiscoveryInfo \<Rightarrow> EntityId \<Rightarrow> EntityId \<Rightarrow> ('q, EntityId) action" where
  "create_discovered f qos_empty info p t =
     act_with (participant_app p) (\<lambda>app.
     act_bind (insert_new_endpoint f qos_empty (show_guid f (di_guid info))
       (di_topic_name info @ ''_'' @ show_entity_id f (guid_entity (di_guid info))) (di_alias info) (di_qos info)
       (di_is_virtual_metatraffic info) (di_locators info) (di_kind info) p t (app, []) (di_discovery_source info)
       (di_original_domain_id info)) (\<lambda>i.
     act_bind (change_entity_status i True) (\<lambda>_.
     act_bind (update_endpoint_in_graph_nts (di_domain_id info) p t i) (\<lambda>b.
     act_bind (announce_graph (di_domain_id info) b) (\<lambda>_. act_return i)))))"

definition process_endpoint_discovery ::
  "fastdds \<Rightarrow> ('q \<Rightarrow> bool) \<Rightarrow> 'q EntityDiscoveryInfo \<Rightarrow> 'q database \<Rightarrow> (EntityId result \<times> 'q database) option" where
  "process_endpoint_discovery f qos_empty info db =
     (case act_with (endpoint_participant f '' discovered on Participant '' info) (\<lambda>(d, p).
        act_bind (get_or_create_topic info) (\<lambda>t. act_return (p, t))) db of
        (Inl e, db) \<Rightarrow> Some (Inl e, db)
      | (Inr (p, t), db) \<Rightarrow>
          (case register_type info db of
             None \<Rightarrow> None
           | Some (Inl e, db) \<Rightarrow> Some (Inl e, db)
           | Some (Inr _, db) \<Rightarrow> Some (create_discovered f qos_empty info p t db)))"

text \<open>
  \<open>process_datareader\<close> and \<open>process_datawriter\<close> are the same but for the kind and a message.
\<close>

definition update_known_endpoint ::
  "fastdds \<Rightarrow> EntityKind \<Rightarrow> 'q EntityDiscoveryInfo \<Rightarrow> ('q, EntityId) action" where
  "update_known_endpoint f k info =
     act_with (get_entity_by_guid_nts k (show_guid f (di_guid info))) (\<lambda>(d, i).
     act_bind (change_entity_status i (di_discovery_status info \<noteq> UNDISCOVERY)) (\<lambda>_.
     act_with (endpoint_participant f '' undiscovered on Participant '' info) (\<lambda>(d, p).
     act_with (topic_of_info info) (\<lambda>t.
     act_bind (update_endpoint_in_graph_nts (di_domain_id info) p t i) (\<lambda>b.
     act_bind (announce_graph (di_domain_id info) b) (\<lambda>_. act_return i))))))"

definition process_endpoint ::
  "fastdds \<Rightarrow> ('q \<Rightarrow> bool) \<Rightarrow> EntityKind \<Rightarrow> string \<Rightarrow> 'q EntityDiscoveryInfo \<Rightarrow> 'q database \<Rightarrow>
   (EntityId result \<times> 'q database) option" where
  "process_endpoint f qos_empty k what info db =
     (case update_known_endpoint f k info db of
        (Inl (BadParameter s), db) \<Rightarrow>
          if di_discovery_status info = DISCOVERY then process_endpoint_discovery f qos_empty info db
          else Some (Inl (BadParameter (''Update or undiscover a '' @ what @ '' which is not in the database'')), db)
      | other \<Rightarrow> Some other)"

definition process_datareader ::
  "fastdds \<Rightarrow> ('q \<Rightarrow> bool) \<Rightarrow> 'q EntityDiscoveryInfo \<Rightarrow> 'q database \<Rightarrow> (EntityId result \<times> 'q database) option" where
  "process_datareader f qos_empty = process_endpoint f qos_empty DATAREADER ''subscriber''"

definition process_datawriter ::
  "fastdds \<Rightarrow> ('q \<Rightarrow> bool) \<Rightarrow> 'q EntityDiscoveryInfo \<Rightarrow> 'q database \<Rightarrow> (EntityId result \<times> 'q database) option" where
  "process_datawriter f qos_empty = process_endpoint f qos_empty DATAWRITER ''publisher''"

section \<open>One step of the queue\<close>

text \<open>The kind is one of the three, as the assertion of the code says; any other leaves the identifier invalid.\<close>

definition process_discovery ::
  "fastdds \<Rightarrow> ('q \<Rightarrow> bool) \<Rightarrow> 'q EntityDiscoveryInfo \<Rightarrow> 'q database \<Rightarrow> (EntityId result \<times> 'q database) option" where
  "process_discovery f qos_empty info db =
     (case di_kind info of
        PARTICIPANT \<Rightarrow> Some (process_participant f qos_empty info db)
      | DATAREADER \<Rightarrow> process_datareader f qos_empty info db
      | DATAWRITER \<Rightarrow> process_datawriter f qos_empty info db
      | _ \<Rightarrow> Some (Inr invalid_id, db))"

definition process_entity_sample ::
  "fastdds \<Rightarrow> ('q \<Rightarrow> bool) \<Rightarrow> 'q EntityDiscoveryInfo \<Rightarrow> 'q database \<Rightarrow> (unit result \<times> 'q database) option" where
  "process_entity_sample f qos_empty info db =
     (case process_discovery f qos_empty info db of
        None \<Rightarrow> None
      | Some (Inl e, db) \<Rightarrow> Some (if is_backend_exception e then Inr () else Inl e, db)
      | Some (Inr i, db) \<Rightarrow> Some (Inr (),
          emit (DomainEntityDiscovery (di_domain_id info) i (di_kind info) (di_discovery_status info)) db))"

end
