(* ===== verification/DbFrame.thy ===== *)
theory DbFrame
  imports QueueEntities
begin

text \<open>
  Relations between the database before and after an action that compose: what an action leaves alone
  follows from what its parts leave alone. The locale \<open>status_frame\<close> states what a relation has to
  allow for it to hold across changes of the activity of entities, links between participants and
  processes, updates of the graphs and announcements.
\<close>

definition keeps :: "('q database \<Rightarrow> 'q database \<Rightarrow> bool) \<Rightarrow> ('q, 'a) action \<Rightarrow> bool" where
  "keeps R m \<longleftrightarrow> (\<forall>db. R db (snd (m db)))"

named_theorems frame_intros "actions that keep a relation"

lemma keepsD: "keeps R m \<Longrightarrow> R db (snd (m db))"
  by (simp add: keeps_def)

locale action_frame =
  fixes R :: "'q database \<Rightarrow> 'q database \<Rightarrow> bool"
  assumes frame_refl: "R db db"
    and frame_trans: "R db db1 \<Longrightarrow> R db1 db2 \<Longrightarrow> R db db2"
begin

lemma keeps_return [frame_intros]: "keeps R (act_return x)"
  by (simp add: keeps_def act_return_def frame_refl)

lemma keeps_bind [frame_intros]: "keeps R m \<Longrightarrow> (\<And>x. keeps R (f x)) \<Longrightarrow> keeps R (act_bind m f)"
  unfolding keeps_def act_bind_def
  by (auto split: prod.split sum.split) (metis frame_trans snd_conv)+

lemma keeps_bindD:
  "keeps R m \<Longrightarrow> (\<And>x. keeps R (f x)) \<Longrightarrow> R db0 db \<Longrightarrow> R db0 (snd (act_bind m f db))"
  using keeps_bind [of m f] frame_trans unfolding keeps_def by blast

lemma keeps_then: "R db0 db \<Longrightarrow> keeps R m \<Longrightarrow> m db = (r, db') \<Longrightarrow> R db0 db'"
  using frame_trans keepsD by (metis snd_conv)

lemma keeps_with [frame_intros]: "(\<And>x. keeps R (g x)) \<Longrightarrow> keeps R (act_with f g)"
  by (simp add: keeps_def act_with_def frame_refl split: sum.split)

lemma keeps_modify [frame_intros]: "(\<And>db. R db (f db)) \<Longrightarrow> keeps R (modify f)"
  by (simp add: keeps_def modify_def)

lemma keeps_if [frame_intros]: "keeps R m \<Longrightarrow> keeps R n \<Longrightarrow> keeps R (if b then m else n)"
  by simp

end

locale status_frame = action_frame R
  for R :: "'q database \<Rightarrow> 'q database \<Rightarrow> bool" +
  assumes emit_frame: "R db (emit ev db)"
    and graph_frame: "R db (domain_view_graph_update g db)"
    and host_frame: "R db (db\<lparr>host_objs := obj_update a (set_active b) (host_objs db)\<rparr>)"
    and user_frame: "R db (db\<lparr>user_objs := obj_update a (set_active b) (user_objs db)\<rparr>)"
    and process_frame: "R db (db\<lparr>process_objs := obj_update a (set_active b) (process_objs db)\<rparr>)"
    and domain_frame: "R db (db\<lparr>domain_objs := obj_update a (set_active b) (domain_objs db)\<rparr>)"
    and topic_frame: "R db (db\<lparr>topic_objs := obj_update a (set_active b) (topic_objs db)\<rparr>)"
    and participant_frame: "R db (db\<lparr>participant_objs := obj_update a (set_active b) (participant_objs db)\<rparr>)"
    and endpoint_frames: "R db (ec_update reader_class a (set_active b) db)"
      "R db (ec_update writer_class a (set_active b) db)"
    and link_frame: "R db (db\<lparr>participant_objs := obj_update a (\<lambda>p. p\<lparr>dp_process := Some c\<rparr>) (participant_objs db),
        process_objs := obj_update c (\<lambda>pr. pr\<lparr>p_participants := om_put i a (p_participants pr)\<rparr>) (process_objs db)\<rparr>)"
begin

lemma emitted: "R db db' \<Longrightarrow> R db (emit ev db')"
  using frame_trans emit_frame by blast

lemma keeps_emit [frame_intros]: "keeps R (\<lambda>db. (r, emit ev db))"
  by (simp add: keeps_def emit_frame)

lemma keeps_announce_graph [frame_intros]: "keeps R (announce_graph d b)"
  by (simp add: keeps_def announce_graph_def emit_frame frame_refl)

lemma keeps_on_graph: "keeps R (on_graph d m)"
  by (simp add: keeps_def on_graph_def split_beta Let_def frame_refl graph_frame split: option.split)

lemma keeps_graph_updates [frame_intros]:
  "keeps R (update_participant_in_graph_nts d h u p x)"
  "keeps R (update_endpoint_in_graph_nts d x t e)"
  "keeps R (regenerate_domain_graph_nts d)"
  by (simp_all add: keeps_def update_participant_in_graph_nts_def update_endpoint_in_graph_nts_def
      keepsD [OF keeps_on_graph] regenerate_domain_graph_nts_def Let_def split_beta frame_refl graph_frame
      del: update_levels.simps split: option.split sum.split entity_ref.split)

lemma keeps_status_host: "keeps R (status_host i b)"
  by (simp add: keeps_def status_host_def frame_refl host_frame emitted split: option.split)

lemma keeps_status_user: "keeps R (status_user i b)"
  unfolding keeps_def status_user_def Let_def
  by (auto simp: frame_refl user_frame intro!: keeps_bindD keeps_status_host frame_intros split: option.split sum.split)

lemma keeps_status_process: "keeps R (status_process i b)"
  unfolding keeps_def status_process_def Let_def
  by (auto simp: frame_refl process_frame intro!: keeps_bindD keeps_status_user frame_intros
      split: option.split sum.split)

lemma keeps_status_topic: "keeps R (status_topic i b d)"
  by (simp add: keeps_def status_topic_def frame_refl topic_frame emitted split: option.split)

lemma keeps_status_endpoint:
  assumes "\<And>a db. R db (ec_update C a (set_active b) db)"
  shows "keeps R (status_endpoint C tu i b)"
  using assms frame_trans [OF assms keepsD [OF keeps_status_topic]]
  by (auto simp: keeps_def status_endpoint_def Let_def frame_refl split: option.split sum.split bool.split)

lemma keeps_status_endpoints:
  "keeps R (status_datawriter i b)" "keeps R (status_datareader i b)"
  unfolding status_datawriter_def status_datareader_def
  by (rule keeps_status_endpoint, rule endpoint_frames)+

lemma keeps_status_all: "(\<And>i. keeps R (f i b)) \<Longrightarrow> keeps R (status_all f b is)"
proof (induction "is")
  case (Cons i "is")
  have "status_all f b (i # is) = act_bind (f i b) (\<lambda>_. status_all f b is)" by (rule ext) simp
  with Cons show ?case by (auto intro!: frame_intros)
qed (simp add: keeps_def frame_refl)

lemma keeps_in_domain_of: "keeps R m \<Longrightarrow> keeps R (in_domain_of p m)"
  by (simp add: keeps_def in_domain_of_def frame_refl split: sum.split)

lemma keeps_status_participant: "keeps R (status_participant i b)"
proof -
  have 1: "keeps R (\<lambda>db. case fragile_get (process_objs db) p of
      Inl e \<Rightarrow> (Inr (), db)
    | Inr pr \<Rightarrow>
        (case parent_follows b (active pr) (some_active (participant_objs db) (p_participants pr)) of
           Inl e \<Rightarrow> (Inl e, db)
         | Inr c \<Rightarrow> if c then in_domain_of q (status_process (e_id pr) b) db else (Inr (), db)))" for p q
    by (simp add: keeps_def frame_refl keepsD [OF keeps_in_domain_of [OF keeps_status_process]]
        split: sum.split)
  show ?thesis
    unfolding keeps_def status_participant_def Let_def
    by (auto simp: frame_refl participant_frame intro!: keeps_bindD frame_intros 1 keeps_status_all
        keeps_in_domain_of keeps_status_endpoints split: option.split)
qed

lemma keeps_status_domain: "keeps R (status_domain i b)"
  by (simp add: keeps_def status_domain_def frame_refl domain_frame split: option.split)

lemma keeps_status_of_kind [frame_intros]: "keeps R (change_entity_status_of_kind i b k d)"
  by (cases k) (auto intro!: frame_intros keeps_status_host keeps_status_user keeps_status_process
      keeps_status_domain keeps_status_topic keeps_status_participant keeps_status_endpoints)

lemma keeps_status [frame_intros]: "keeps R (change_entity_status i b)"
  by (simp add: keeps_def change_entity_status_def frame_refl keepsD [OF keeps_status_of_kind] split: sum.split)

lemma keeps_link [frame_intros]: "keeps R (link_participant_with_process_nts i j)"
  unfolding keeps_def link_participant_with_process_nts_def Let_def
  by (auto simp: frame_refl link_frame
      intro!: frame_trans [OF link_frame keepsD [OF keeps_status_process]] split: option.split)

end

text \<open>The updates of a participant also change its process, and the data of the physical entities.\<close>

locale update_frame = status_frame R
  for R :: "'q database \<Rightarrow> 'q database \<Rightarrow> bool" +
  assumes host_update: "(\<And>x. e_id (f1 x) = e_id x) \<Longrightarrow> R db (db\<lparr>host_objs := obj_update a f1 (host_objs db)\<rparr>)"
    and user_update: "(\<And>x. e_id (f2 x) = e_id x) \<Longrightarrow> R db (db\<lparr>user_objs := obj_update a f2 (user_objs db)\<rparr>)"
    and process_update: "(\<And>x. e_id (f3 x) = e_id x) \<Longrightarrow> R db (db\<lparr>process_objs := obj_update a f3 (process_objs db)\<rparr>)"
    and unlink_frame: "R db (db\<lparr>participant_objs := obj_update a (\<lambda>x. x\<lparr>dp_process := None\<rparr>) (participant_objs db)\<rparr>)"
begin

lemma keeps_renames [frame_intros]:
  "keeps R (rename_process a n p src)" "keeps R (rename_user a n src)" "keeps R (rename_host a n src)"
  unfolding rename_process_def rename_user_def rename_host_def
  by (intro keeps_with keeps_modify process_update user_update host_update; simp)+

lemma keeps_case_process [frame_intros]: "keeps R (case_process i a uname hname js)"
proof (induction js)
  case (Cons j js)
  have "keeps R (act_bind (modify (\<lambda>db. db\<lparr>participant_objs :=
            obj_update a (\<lambda>x. x\<lparr>dp_process := None\<rparr>) (participant_objs db)\<rparr>))
          (\<lambda>_. act_bind (link_participant_with_process_nts i k) (\<lambda>_. act_return True)))" for k
    by (auto intro!: frame_intros unlink_frame)
  note step = keepsD [OF this]
  show ?case
    by (cases j) (simp add: keeps_def frame_refl step keepsD [OF Cons.IH]
        split: sum.split entity_ref.split option.split)
qed (simp add: keeps_def frame_refl)

lemma user_found_frame:
  "R db (db\<lparr>user_objs := obj_update b (\<lambda>u. u\<lparr>e_discovery_source := src, u_processes := f (u_processes u)\<rparr>)
       (user_objs db),
     process_objs := obj_update c (\<lambda>p. p\<lparr>p_user := Some b\<rparr>) (process_objs db),
     host_objs := obj_update h (\<lambda>h. h\<lparr>e_discovery_source := src\<rparr>) (host_objs db)\<rparr>)"
  using frame_trans [OF frame_trans [OF user_update process_update] host_update] by fastforce

lemma keeps_case_user [frame_intros]: "keeps R (case_user a hname src js)"
proof (induction js)
  case (Cons j js)
  have "keeps R (act_with (process_of a) (\<lambda>c. act_bind (modify (\<lambda>db. db\<lparr>
         user_objs := obj_update b (\<lambda>u. u\<lparr>e_discovery_source := src,
           u_processes := om_put (e_id (the (process_objs db c))) c (u_processes u)\<rparr>) (user_objs db),
         process_objs := obj_update c (\<lambda>p. p\<lparr>p_user := Some b\<rparr>) (process_objs db),
         host_objs := obj_update h (\<lambda>h. h\<lparr>e_discovery_source := src\<rparr>) (host_objs db)\<rparr>))
       (\<lambda>_. act_return True)))" for b h
    by (intro frame_intros user_found_frame)
  note step = keepsD [OF this]
  show ?case
    by (cases j) (simp add: keeps_def frame_refl step keepsD [OF Cons.IH]
        split: sum.split entity_ref.split option.split)
qed (simp add: keeps_def frame_refl)

lemma host_found_frame:
  "R db (db\<lparr>host_objs := obj_update h (\<lambda>h. h\<lparr>e_discovery_source := src, h_users := f (h_users h)\<rparr>) (host_objs db),
     user_objs := obj_update b (\<lambda>u. u\<lparr>u_host := Some h\<rparr>) (user_objs db)\<rparr>)"
  using frame_trans [OF host_update user_update] by fastforce

lemma keeps_case_host [frame_intros]: "keeps R (case_host a src js)"
proof -
  have "keeps R (act_with (user_of a) (\<lambda>b. act_bind (modify (\<lambda>db. db\<lparr>
       host_objs := obj_update h (\<lambda>h. h\<lparr>e_discovery_source := src,
         h_users := om_put (e_id (the (user_objs db b))) b (h_users h)\<rparr>) (host_objs db),
       user_objs := obj_update b (\<lambda>u. u\<lparr>u_host := Some h\<rparr>) (user_objs db)\<rparr>))
     (\<lambda>_. act_return True)))" for h
    by (intro frame_intros host_found_frame)
  note step = keepsD [OF this]
  show ?thesis
    by (simp add: keeps_def frame_refl case_host_def step split: list.split prod.split sum.split entity_ref.split)
qed

lemma keeps_update_physical [frame_intros]: "keeps R (update_physical i a hname uname proc src)"
  unfolding update_physical_def by (auto intro!: frame_intros split: prod.split)

lemma keeps_move_participant [frame_intros]: "keeps R (move_participant i a hname uname proc src)"
  by (simp add: keeps_def move_participant_def Let_def split_beta keepsD [OF keeps_update_physical]
      split: sum.split)

lemma keeps_participant_update:
  assumes "\<And>a x db. participant_objs db a = Some x \<Longrightarrow> update_enabled (e_discovery_source x) src \<Longrightarrow>
    R db (db\<lparr>participant_objs := obj_update a (update_participant_data n q g st app meta src orig) (participant_objs db)\<rparr>)"
  shows "keeps R (update_participant_discovery_info_nts i hname uname proc n q g d st app meta src orig)"
proof -
  have "keeps R (act_bind (move_participant i a hname uname proc src) (\<lambda>ids.
         act_bind (update_participant_in_graph_nts d (host_entity ids) (user_entity ids) (process_entity ids) i)
           (\<lambda>b. if b then act_bind (announce_graph d True) (\<lambda>_. act_bind (regenerate_domain_graph_nts d) (\<lambda>_. act_return b))
                else act_return b)))" for a
    by (auto intro!: frame_intros)
  note step = frame_trans [OF assms keepsD [OF this]]
  show ?thesis
    by (simp add: keeps_def frame_refl update_participant_discovery_info_nts_def act_bind_def [of "modify f" for f]
        modify_def step split: sum.split entity_ref.split option.split)
qed

end

end
