(* ===== verification/DiscoveryInv.thy ===== *)
theory DiscoveryInv
  imports DbFrame
begin

text \<open>
  What processing a discovery does to the database as a whole: the identifiers stay unique, every
  collection owns its objects, and an exception leaves no half-inserted entity behind.
\<close>

section \<open>Operations that insert nothing\<close>

definition same_shape :: "'q database \<Rightarrow> 'q database \<Rightarrow> bool" where
  "same_shape db db' \<longleftrightarrow>
     next_id db' = next_id db \<and> next_addr db' = next_addr db \<and>
     hosts db' = hosts db \<and> users db' = users db \<and> processes db' = processes db \<and> domains db' = domains db \<and>
     locators db' = locators db \<and> topics db' = topics db \<and> participants db' = participants db \<and>
     datareaders db' = datareaders db \<and> datawriters db' = datawriters db \<and>
     (\<forall>a. map_option e_id (host_objs db' a) = map_option e_id (host_objs db a)) \<and>
     (\<forall>a. map_option e_id (user_objs db' a) = map_option e_id (user_objs db a)) \<and>
     (\<forall>a. map_option e_id (process_objs db' a) = map_option e_id (process_objs db a)) \<and>
     (\<forall>a. map_option e_id (domain_objs db' a) = map_option e_id (domain_objs db a)) \<and>
     (\<forall>a. map_option e_id (locator_objs db' a) = map_option e_id (locator_objs db a)) \<and>
     (\<forall>a. map_option (\<lambda>t. (e_id t, t_domain t)) (topic_objs db' a) =
        map_option (\<lambda>t. (e_id t, t_domain t)) (topic_objs db a)) \<and>
     (\<forall>a. map_option e_id (participant_objs db' a) = map_option e_id (participant_objs db a)) \<and>
     (\<forall>a. map_option e_id (reader_objs db' a) = map_option e_id (reader_objs db a)) \<and>
     (\<forall>a. map_option e_id (writer_objs db' a) = map_option e_id (writer_objs db a))"

definition fresh_stores :: "'q database \<Rightarrow> bool" where
  "fresh_stores db \<longleftrightarrow> (\<forall>a \<ge> next_addr db.
     host_objs db a = None \<and> user_objs db a = None \<and> process_objs db a = None \<and> domain_objs db a = None \<and>
     locator_objs db a = None \<and> topic_objs db a = None \<and> participant_objs db a = None \<and>
     reader_objs db a = None \<and> writer_objs db a = None)"

definition database_ready :: "'q database \<Rightarrow> bool" where
  "database_ready db \<longleftrightarrow> db_inv db \<and> fresh_stores db"

lemma same_shape_refl [simp]: "same_shape db db"
  by (simp add: same_shape_def)

lemma same_shape_trans: "same_shape db db1 \<Longrightarrow> same_shape db1 db2 \<Longrightarrow> same_shape db db2"
  by (simp add: same_shape_def)

lemma owned_same_ids:
  assumes "owned h e_id m" and "\<And>a. map_option e_id (h' a) = map_option e_id (h a)"
  shows "owned h' e_id m"
  unfolding owned_def
proof (intro conjI ballI, goal_cases)
  case 1
  then show ?case using assms(1) by (simp add: owned_def)
next
  case (2 e)
  obtain k a where e: "e = (k, a)" by fastforce
  with 2 assms(1) obtain x where "h a = Some x" "e_id x = k" by (auto simp: owned_def)
  with assms(2) [of a] show ?case by (cases "h' a") (simp_all add: e)
qed

lemma owned_in_same_ids:
  assumes "owned_in h e_id mm" and "\<And>a. map_option e_id (h' a) = map_option e_id (h a)"
  shows "owned_in h' e_id mm"
  using assms owned_same_ids [OF _ assms(2)] unfolding owned_in_def by fastforce

lemma same_shapeD:
  assumes "same_shape db db'"
  shows "map_option e_id (host_objs db' a) = map_option e_id (host_objs db a)"
    "map_option e_id (user_objs db' a) = map_option e_id (user_objs db a)"
    "map_option e_id (process_objs db' a) = map_option e_id (process_objs db a)"
    "map_option e_id (domain_objs db' a) = map_option e_id (domain_objs db a)"
    "map_option e_id (locator_objs db' a) = map_option e_id (locator_objs db a)"
    "map_option (\<lambda>t. (e_id t, t_domain t)) (topic_objs db' a) =
       map_option (\<lambda>t. (e_id t, t_domain t)) (topic_objs db a)"
    "map_option e_id (participant_objs db' a) = map_option e_id (participant_objs db a)"
    "map_option e_id (reader_objs db' a) = map_option e_id (reader_objs db a)"
    "map_option e_id (writer_objs db' a) = map_option e_id (writer_objs db a)"
  using assms by (simp_all add: same_shape_def)

lemma map_option_pair:
  "map_option (\<lambda>t. (f t, g t)) x = map_option (\<lambda>t. (f t, g t)) y \<Longrightarrow> map_option f x = map_option f y"
  by (cases x; cases y) simp_all

lemma map_option_Some_pair:
  "map_option (\<lambda>t. (f t, g t)) x = map_option (\<lambda>t. (f t, g t)) y \<Longrightarrow> y = Some t \<Longrightarrow>
     \<exists>t'. x = Some t' \<and> f t' = f t \<and> g t' = g t"
  by (cases x) simp_all

lemma same_shape_ready:
  assumes "database_ready db" and s: "same_shape db db'"
  shows "database_ready db'"
proof -
  have inv: "db_inv db" and fr: "fresh_stores db" using assms(1) by (simp_all add: database_ready_def)
  note S = s [unfolded same_shape_def]
  have t: "map_option e_id (topic_objs db' a) = map_option e_id (topic_objs db a)" for a
    using S by (blast intro: map_option_pair)
  note D = db_invD [OF inv]
  have own: "db_owned db'"
    unfolding db_owned_def using D(1-9) S t by (auto intro: owned_same_ids owned_in_same_ids)
  have "topic_homes db'"
    unfolding topic_homes_def
  proof (clarify)
    fix d m k a
    assume m: "(d, m) \<in> set (topics db')" "(k, a) \<in> set m"
    have top: "map_option (\<lambda>t. (e_id t, t_domain t)) (topic_objs db' a) =
        map_option (\<lambda>t. (e_id t, t_domain t)) (topic_objs db a)" using S by blast
    obtain x b where x: "topic_objs db a = Some x" "t_domain x = Some b" "om_find (domains db) d = Some b"
      using D(12) S m unfolding topic_homes_def by fastforce
    show "\<exists>x b. topic_objs db' a = Some x \<and> t_domain x = Some b \<and> om_find (domains db') d = Some b"
      using map_option_Some_pair [OF top x(1)] x S by fastforce
  qed
  with own have "db_struct db'" by (simp add: db_struct_def)
  moreover have "entity_ids db' = entity_ids db" using S by (simp add: entity_ids_def)
  moreover have "next_id db \<le> next_id db'" using S by linarith
  ultimately have "db_inv db'" by (intro db_inv_same [OF inv])
  moreover have "fresh_stores db'"
    unfolding fresh_stores_def
  proof (intro allI impI)
    fix a
    assume "next_addr db' \<le> a"
    then have "host_objs db a = None \<and> user_objs db a = None \<and> process_objs db a = None \<and>
        domain_objs db a = None \<and> locator_objs db a = None \<and> topic_objs db a = None \<and>
        participant_objs db a = None \<and> reader_objs db a = None \<and> writer_objs db a = None"
      using fr S by (simp add: fresh_stores_def)
    with same_shapeD [OF s, of a] show "host_objs db' a = None \<and> user_objs db' a = None \<and>
        process_objs db' a = None \<and> domain_objs db' a = None \<and> locator_objs db' a = None \<and>
        topic_objs db' a = None \<and> participant_objs db' a = None \<and> reader_objs db' a = None \<and>
        writer_objs db' a = None"
      by simp
  qed
  ultimately show ?thesis by (simp add: database_ready_def)
qed

abbreviation keeps_shape :: "('q, 'a) action \<Rightarrow> bool" where
  "keeps_shape \<equiv> keeps same_shape"

lemma same_shape_type:
  "insert_new_type_idl n idl db = Some (r, db') \<Longrightarrow> same_shape db db'"
  by (auto dest!: insert_type_cases simp: same_shape_def)

lemma obj_update_ids: "(\<And>x. e_id (f x) = e_id x) \<Longrightarrow> map_option e_id (obj_update a f h b) = map_option e_id (h b)"
  by (simp add: obj_update_apply option.map_comp comp_def)

lemma obj_update_topic:
  "(\<And>x. e_id (f x) = e_id x \<and> t_domain (f x) = t_domain x) \<Longrightarrow>
     map_option (\<lambda>t. (e_id t, t_domain t)) (obj_update a f h b) = map_option (\<lambda>t. (e_id t, t_domain t)) (h b)"
  by (simp add: obj_update_apply option.map_comp comp_def)

lemma same_shape_obj_update:
  "(\<And>x. e_id (f1 x) = e_id x) \<Longrightarrow> same_shape db (db\<lparr>host_objs := obj_update a f1 (host_objs db)\<rparr>)"
  "(\<And>x. e_id (f2 x) = e_id x) \<Longrightarrow> same_shape db (db\<lparr>user_objs := obj_update a f2 (user_objs db)\<rparr>)"
  "(\<And>x. e_id (f3 x) = e_id x) \<Longrightarrow> same_shape db (db\<lparr>process_objs := obj_update a f3 (process_objs db)\<rparr>)"
  "(\<And>x. e_id (f4 x) = e_id x) \<Longrightarrow> same_shape db (db\<lparr>domain_objs := obj_update a f4 (domain_objs db)\<rparr>)"
  "(\<And>x. e_id (f5 x) = e_id x) \<Longrightarrow> same_shape db (db\<lparr>locator_objs := obj_update a f5 (locator_objs db)\<rparr>)"
  "(\<And>x. e_id (f6 x) = e_id x \<and> t_domain (f6 x) = t_domain x) \<Longrightarrow>
     same_shape db (db\<lparr>topic_objs := obj_update a f6 (topic_objs db)\<rparr>)"
  "(\<And>x. e_id (f7 x) = e_id x) \<Longrightarrow> same_shape db (db\<lparr>participant_objs := obj_update a f7 (participant_objs db)\<rparr>)"
  "(\<And>x. e_id (f8 x) = e_id x) \<Longrightarrow> same_shape db (db\<lparr>reader_objs := obj_update a f8 (reader_objs db)\<rparr>)"
  "(\<And>x. e_id (f9 x) = e_id x) \<Longrightarrow> same_shape db (db\<lparr>writer_objs := obj_update a f9 (writer_objs db)\<rparr>)"
  by (simp_all add: same_shape_def obj_update_ids obj_update_topic)

interpretation shape: update_frame same_shape
proof unfold_locales
  show "same_shape db (ec_update reader_class a (set_active b) db)"
    "same_shape db (ec_update writer_class a (set_active b) db)" for db :: "'a database" and a b
    by (simp_all add: ec_update_def reader_class_def writer_class_def same_shape_def obj_update_ids)
qed (auto simp: same_shape_def emit_def obj_update_ids obj_update_topic set_active_def)

lemma same_shape_emit [simp]: "same_shape db (emit ev db') = same_shape db db'"
  by (simp add: same_shape_def emit_def)

section \<open>Objects that are no entries\<close>

text \<open>Changing one store at an address that is no entry of its collection, or only the addresses.\<close>

lemma owned_outside:
  "owned h f m \<Longrightarrow> a \<notin> snd ` set m \<Longrightarrow> owned (h(a := x)) f m"
  by (force simp: owned_def)

lemma entry_address: "(d, m) \<in> set mm \<Longrightarrow> (k, a) \<in> set m \<Longrightarrow> a \<in> snd ` entries_in mm"
  by (metis entries_in_iff image_eqI snd_conv)

lemma owned_in_outside:
  assumes "owned_in h f mm" and "a \<notin> snd ` entries_in mm"
  shows "owned_in (h(a := x)) f mm"
  unfolding owned_in_def
proof (intro conjI ballI)
  show "om_wf mm" using assms(1) by (simp add: owned_in_def)
  fix e
  assume e: "e \<in> set mm"
  obtain d m where dm: "e = (d, m)" by fastforce
  have "owned h f m" using assms(1) e dm by (auto simp: owned_in_def)
  moreover have "a \<notin> snd ` set m" using assms(2) e dm entry_address [of d m mm] by fastforce
  ultimately show "case e of (d, m) \<Rightarrow> owned (h(a := x)) f m" by (simp add: dm owned_outside)
qed

lemma fresh_not_entry:
  assumes "owned h f m" and "h a = None"
  shows "a \<notin> snd ` set m"
  using assms by (force simp: owned_def)

lemma fresh_not_entry_in:
  assumes "owned_in h f mm" and "h a = None"
  shows "a \<notin> snd ` entries_in mm"
proof
  assume "a \<in> snd ` entries_in mm"
  then obtain d m k where "(d, m) \<in> set mm" "(k, a) \<in> set m" by (auto simp: entries_in_iff)
  then have "owned h f m" "(k, a) \<in> set m" using assms(1) by (auto simp: owned_in_def)
  then show False using assms(2) owned_find by fastforce
qed

lemma topic_homes_outside:
  assumes "topic_homes db" and "a \<notin> snd ` entries_in (topics db)"
  shows "topic_homes (db\<lparr>topic_objs := (topic_objs db)(a := x)\<rparr>)"
  unfolding topic_homes_def
proof (clarify)
  fix d m k b
  assume e: "(d, m) \<in> set (topics (db\<lparr>topic_objs := (topic_objs db)(a := x)\<rparr>))" "(k, b) \<in> set m"
  then have "b \<noteq> a" using assms(2) entry_address [of d m "topics db" k b] by auto
  moreover have "\<exists>t c. topic_objs db b = Some t \<and> t_domain t = Some c \<and> om_find (domains db) d = Some c"
    using assms(1) e unfolding topic_homes_def by fastforce
  ultimately show "\<exists>t c. topic_objs (db\<lparr>topic_objs := (topic_objs db)(a := x)\<rparr>) b = Some t \<and> t_domain t = Some c \<and>
      om_find (domains (db\<lparr>topic_objs := (topic_objs db)(a := x)\<rparr>)) d = Some c"
    by simp
qed

lemma topic_homes_other [simp]:
  "topic_homes (db\<lparr>next_addr := k\<rparr>) = topic_homes db"
  "topic_homes (db\<lparr>locator_objs := hl\<rparr>) = topic_homes db"
  "topic_homes (db\<lparr>participant_objs := hp\<rparr>) = topic_homes db"
  "topic_homes (db\<lparr>host_objs := hh\<rparr>) = topic_homes db"
  "topic_homes (db\<lparr>user_objs := hu\<rparr>) = topic_homes db"
  "topic_homes (db\<lparr>process_objs := hc\<rparr>) = topic_homes db"
  "topic_homes (db\<lparr>reader_objs := hr\<rparr>) = topic_homes db"
  "topic_homes (db\<lparr>writer_objs := hw\<rparr>) = topic_homes db"
  by (simp_all add: topic_homes_def)

lemma db_inv_outside:
  assumes inv: "db_inv db"
  shows "a \<notin> snd ` set (locators db) \<Longrightarrow> db_inv (db\<lparr>locator_objs := (locator_objs db)(a := x1)\<rparr>)"
    "a \<notin> snd ` entries_in (topics db) \<Longrightarrow> db_inv (db\<lparr>topic_objs := (topic_objs db)(a := x2)\<rparr>)"
    "a \<notin> snd ` entries_in (participants db) \<Longrightarrow>
       db_inv (db\<lparr>participant_objs := (participant_objs db)(a := x3)\<rparr>)"
    "a \<notin> snd ` entries_in (datareaders db) \<Longrightarrow> db_inv (db\<lparr>reader_objs := (reader_objs db)(a := x4)\<rparr>)"
    "a \<notin> snd ` entries_in (datawriters db) \<Longrightarrow> db_inv (db\<lparr>writer_objs := (writer_objs db)(a := x5)\<rparr>)"
    "a \<notin> snd ` set (hosts db) \<Longrightarrow> db_inv (db\<lparr>host_objs := (host_objs db)(a := x6)\<rparr>)"
    "a \<notin> snd ` set (users db) \<Longrightarrow> db_inv (db\<lparr>user_objs := (user_objs db)(a := x7)\<rparr>)"
    "a \<notin> snd ` set (processes db) \<Longrightarrow> db_inv (db\<lparr>process_objs := (process_objs db)(a := x8)\<rparr>)"
proof -
  note D = db_invD [OF inv]
  show "db_inv (db\<lparr>locator_objs := (locator_objs db)(a := x1)\<rparr>)"
    if "a \<notin> snd ` set (locators db)"
    using D(1-9,12) owned_outside [OF D(5) that]
    by (intro db_inv_same [OF inv]) (simp_all add: db_struct_def db_owned_def entity_ids_def)
  show "db_inv (db\<lparr>host_objs := (host_objs db)(a := x6)\<rparr>)" if "a \<notin> snd ` set (hosts db)"
    using D(1-9,12) owned_outside [OF D(1) that]
    by (intro db_inv_same [OF inv]) (simp_all add: db_struct_def db_owned_def entity_ids_def)
  show "db_inv (db\<lparr>user_objs := (user_objs db)(a := x7)\<rparr>)" if "a \<notin> snd ` set (users db)"
    using D(1-9,12) owned_outside [OF D(2) that]
    by (intro db_inv_same [OF inv]) (simp_all add: db_struct_def db_owned_def entity_ids_def)
  show "db_inv (db\<lparr>process_objs := (process_objs db)(a := x8)\<rparr>)" if "a \<notin> snd ` set (processes db)"
    using D(1-9,12) owned_outside [OF D(3) that]
    by (intro db_inv_same [OF inv]) (simp_all add: db_struct_def db_owned_def entity_ids_def)
  show "db_inv (db\<lparr>topic_objs := (topic_objs db)(a := x2)\<rparr>)"
    if "a \<notin> snd ` entries_in (topics db)"
    using D(1-9) owned_in_outside [OF D(6) that] topic_homes_outside [of db a x2] D(12) that
    by (intro db_inv_same [OF inv]) (simp_all add: db_struct_def db_owned_def entity_ids_def)
  show "db_inv (db\<lparr>participant_objs := (participant_objs db)(a := x3)\<rparr>)"
    if "a \<notin> snd ` entries_in (participants db)"
    using D(1-9,12) owned_in_outside [OF D(7) that]
    by (intro db_inv_same [OF inv]) (simp_all add: db_struct_def db_owned_def entity_ids_def)
  show "db_inv (db\<lparr>reader_objs := (reader_objs db)(a := x4)\<rparr>)"
    if "a \<notin> snd ` entries_in (datareaders db)"
    using D(1-9,12) owned_in_outside [OF D(8) that]
    by (intro db_inv_same [OF inv]) (simp_all add: db_struct_def db_owned_def entity_ids_def)
  show "db_inv (db\<lparr>writer_objs := (writer_objs db)(a := x5)\<rparr>)"
    if "a \<notin> snd ` entries_in (datawriters db)"
    using D(1-9,12) owned_in_outside [OF D(9) that]
    by (intro db_inv_same [OF inv]) (simp_all add: db_struct_def db_owned_def entity_ids_def)
qed

section \<open>The stores an insertion leaves\<close>

text \<open>No object appears or disappears.\<close>

definition stores_kept :: "'q database \<Rightarrow> 'q database \<Rightarrow> bool" where
  "stores_kept db db' \<longleftrightarrow> next_addr db' = next_addr db \<and> (\<forall>a.
     (host_objs db' a = None \<longleftrightarrow> host_objs db a = None) \<and> (user_objs db' a = None \<longleftrightarrow> user_objs db a = None) \<and>
     (process_objs db' a = None \<longleftrightarrow> process_objs db a = None) \<and> (domain_objs db' a = None \<longleftrightarrow> domain_objs db a = None) \<and>
     (locator_objs db' a = None \<longleftrightarrow> locator_objs db a = None) \<and> (topic_objs db' a = None \<longleftrightarrow> topic_objs db a = None) \<and>
     (participant_objs db' a = None \<longleftrightarrow> participant_objs db a = None) \<and>
     (reader_objs db' a = None \<longleftrightarrow> reader_objs db a = None) \<and> (writer_objs db' a = None \<longleftrightarrow> writer_objs db a = None))"

lemma stores_kept_refl [simp]: "stores_kept db db"
  by (simp add: stores_kept_def)

lemma stores_kept_trans: "stores_kept db db1 \<Longrightarrow> stores_kept db1 db2 \<Longrightarrow> stores_kept db db2"
  by (simp add: stores_kept_def)

lemma stores_kept_fresh: "stores_kept db db' \<Longrightarrow> fresh_stores db \<Longrightarrow> fresh_stores db'"
  by (simp add: stores_kept_def fresh_stores_def)

lemma obj_update_None [simp]: "obj_update a f h b = None \<longleftrightarrow> h b = None"
  by (auto simp: obj_update_apply)

lemma stores_kept_checked:
  assumes "\<And>x j n. stores_kept db (snd (commit x j (db\<lparr>next_id := n\<rparr>)))"
  shows "stores_kept db (snd (checked_insert obj checks i commit db))"
proof -
  obtain j db1 where as: "assign_entity_id i db = (j, db1)" by fastforce
  then obtain n where "db1 = db\<lparr>next_id := n\<rparr>" using assign_entity_id_state by blast
  then show ?thesis using assms as by (simp add: checked_insert_def split: option.split)
qed

lemma stores_kept_checked_from:
  assumes "stores_kept db0 db" and "\<And>x j n. stores_kept db (snd (commit x j (db\<lparr>next_id := n\<rparr>)))"
  shows "stores_kept db0 (snd (checked_insert obj checks i commit db))"
  using stores_kept_trans [OF assms(1) stores_kept_checked] assms(2) by blast

lemma insert_keeps_stores:
  "stores_kept db (snd (insert_topic a i db))" "stores_kept db (snd (insert_participant qe a i db))"
  "stores_kept db (snd (insert_locator a i db))"
  unfolding insert_topic_def insert_participant_def insert_locator_def Let_def
  by (rule stores_kept_checked_from;
      simp add: stores_kept_def split: sum.split option.split)+

definition endpoint_frame :: "('q, 'e) endpoint_class \<Rightarrow> bool" where
  "endpoint_frame C \<longleftrightarrow> (\<forall>db a f c. stores_kept db (ec_update C a f db) \<and> stores_kept db (ec_set_coll C c db) \<and>
     next_id (ec_update C a f db) = next_id db \<and> next_id (ec_set_coll C c db) = next_id db \<and>
     ec_coll C (ec_update C a f db) = ec_coll C db)"

lemma endpoint_frames: "endpoint_frame reader_class" "endpoint_frame writer_class"
  by (simp_all add: endpoint_frame_def ec_update_def reader_class_def writer_class_def stores_kept_def)

lemma link_locators_frame:
  assumes "endpoint_frame C"
  shows "stores_kept db (snd (link_locators C a i ls db)) \<and> next_id (snd (link_locators C a i ls db)) = next_id db"
proof (induction ls arbitrary: db)
  case (Cons e ls)
  obtain k b where e: "e = (k, b)" by fastforce
  let ?db1 = "db\<lparr>locator_objs := obj_update b (ec_add_locator C i a) (locator_objs db)\<rparr>"
  let ?f = "\<lambda>e :: ('q, 'e) DDSEndpoint_scheme. e\<lparr>ep_locators := om_put k b (ep_locators e)\<rparr>"
  have "stores_kept db ?db1" by (simp add: stores_kept_def)
  moreover have "stores_kept ?db1 (ec_update C a ?f ?db1)" "next_id (ec_update C a ?f ?db1) = next_id db"
    using assms by (simp_all add: endpoint_frame_def)
  ultimately show ?case
    using Cons.IH [of "ec_update C a ?f ?db1"] stores_kept_trans e by (auto split: if_splits) blast
qed simp

lemma link_endpoint_frame:
  assumes C: "endpoint_frame C"
  shows "stores_kept db (snd (link_endpoint C a i e db)) \<and> next_id (snd (link_endpoint C a i e db)) = next_id db"
proof -
  define db1 where "db1 = db\<lparr>participant_objs := obj_update (the (ep_participant e))
    (\<lambda>p. let p = ec_add_participant C i a p
       in if is_virtual_metatraffic e then p\<lparr>meta_traffic_endpoint := Some (ec_ref C a)\<rparr> else p)
    (participant_objs db)\<rparr>"
  have 1: "stores_kept db db1" "next_id db1 = next_id db" by (simp_all add: db1_def stores_kept_def)
  note run = link_endpoint_def [of C a i e db, unfolded Let_def, folded db1_def [unfolded Let_def]]
  show ?thesis
  proof (cases "actual_locators db1 (ep_locators e) []")
    case (Inl ex)
    then show ?thesis using 1 by (simp add: run)
  next
    case (Inr ls)
    define db2 where "db2 = ec_update C a (\<lambda>x. x\<lparr>ep_locators := []\<rparr>) db1"
    obtain r db3 where l: "link_locators C a i ls db2 = (r, db3)" by fastforce
    have 2: "stores_kept db db2" "next_id db2 = next_id db"
      using C 1 stores_kept_trans unfolding endpoint_frame_def db2_def by (blast, metis)
    have 3: "stores_kept db db3" "next_id db3 = next_id db"
      using link_locators_frame [OF C, of db2 a i ls] l 2 stores_kept_trans by (simp_all, blast)
    have 4: "stores_kept db (ec_set_coll C c (db3\<lparr>topic_objs := obj_update t f (topic_objs db3)\<rparr>)) \<and>
        next_id (ec_set_coll C c (db3\<lparr>topic_objs := obj_update t f (topic_objs db3)\<rparr>)) = next_id db" for c t f
    proof -
      have "stores_kept db (db3\<lparr>topic_objs := obj_update t f (topic_objs db3)\<rparr>)"
        using 3(1) by (simp add: stores_kept_def)
      then show ?thesis using C 3(2) stores_kept_trans unfolding endpoint_frame_def by fastforce
    qed
    show ?thesis
      using Inr l 3 4 by (auto simp: run act_bind_def db2_def split: sum.split)
  qed
qed

lemma next_id_checked:
  assumes "\<And>x j db. next_id (snd (commit x j db)) = next_id db" and "0 \<le> next_id db" and "room 2 db"
  shows "next_id db \<le> next_id (snd (checked_insert obj checks invalid_id commit db)) \<and>
    next_id (snd (checked_insert obj checks invalid_id commit db)) \<le> next_id db + 1"
proof -
  obtain r db' where run: "checked_insert obj checks invalid_id commit db = (r, db')" by fastforce
  have "next_id db' = next_id db \<or> next_id db' = next_id db + 1"
  proof -
    have "next_id db' = next_id db + 1" if "commit x j (db\<lparr>next_id := next_id db + 1\<rparr>) = (r, db')" for x j
      using assms(1) [of x j "db\<lparr>next_id := next_id db + 1\<rparr>"] that by simp
    then show ?thesis using checked_insert_invalid [OF run assms(2,3)] by auto
  qed
  then show ?thesis using run by auto
qed

text \<open>What an insertion without identifier does, beyond \<open>insertion_effect\<close>.\<close>

definition insert_frame :: "'q database \<Rightarrow> 'q database \<Rightarrow> bool" where
  "insert_frame db db' \<longleftrightarrow> stores_kept db db' \<and> next_id db \<le> next_id db' \<and> next_id db' \<le> next_id db + 1"

lemma insert_frame_checked:
  assumes "stores_kept db0 db" and "next_id db = next_id db0" and "0 \<le> next_id db0" and "room 2 db0"
    and "\<And>x j n. stores_kept db (snd (commit x j (db\<lparr>next_id := n\<rparr>)))"
    and "\<And>x j db. next_id (snd (commit x j db)) = next_id db"
  shows "insert_frame db0 (snd (checked_insert obj checks invalid_id commit db))"
proof -
  have "0 \<le> next_id db" "room 2 db" using assms(2-4) by (simp_all add: room_def)
  note n = next_id_checked [of commit, OF assms(6) this, of obj checks]
  have "stores_kept db0 (snd (checked_insert obj checks invalid_id commit db))"
    by (rule stores_kept_checked_from [OF assms(1)]) (rule assms(5))
  with n assms(2) show ?thesis by (simp add: insert_frame_def)
qed

lemma insert_frames:
  assumes "0 \<le> next_id db" and "room 2 db"
  shows "insert_frame db (snd (insert_topic a invalid_id db))"
    "insert_frame db (snd (insert_participant qe a invalid_id db))"
    "insert_frame db (snd (insert_locator a invalid_id db))"
    "insert_frame db (snd (insert_host a invalid_id db))"
    "insert_frame db (snd (insert_user a invalid_id db))"
    "insert_frame db (snd (insert_process a invalid_id db))"
  unfolding insert_topic_def insert_participant_def insert_locator_def insert_host_def insert_user_def
    insert_process_def Let_def
  by (rule insert_frame_checked [OF _ _ assms]; simp add: stores_kept_def split: sum.split option.split)+

lemma insert_endpoint_frame:
  assumes C: "endpoint_frame C" and n: "0 \<le> next_id db" "room 2 db"
  shows "insert_frame db (snd (insert_endpoint C qe a invalid_id db))"
  unfolding insert_endpoint_def insert_ddsendpoint_nts_def
proof (rule insert_frame_checked [OF _ _ n])
  show "stores_kept db (ec_update C a (ec_clear C) db)" "next_id (ec_update C a (ec_clear C) db) = next_id db"
    using C by (simp_all add: endpoint_frame_def)
  fix e j k and db' :: "'a database"
  have "stores_kept db' (ec_update C a (\<lambda>x. x\<lparr>e_id := j\<rparr>) (db'\<lparr>next_id := k\<rparr>))" for db' k
  proof -
    have "stores_kept db' (db'\<lparr>next_id := k\<rparr>)" by (simp add: stores_kept_def)
    then show ?thesis using C stores_kept_trans unfolding endpoint_frame_def by blast
  qed
  then show "stores_kept (ec_update C a (ec_clear C) db) (snd (link_endpoint C a j e
      (ec_update C a (\<lambda>x. x\<lparr>e_id := j\<rparr>) ((ec_update C a (ec_clear C) db)\<lparr>next_id := k\<rparr>))))"
    using link_endpoint_frame [OF C] stores_kept_trans by blast
  show "next_id (snd (link_endpoint C a j e (ec_update C a (\<lambda>x. x\<lparr>e_id := j\<rparr>) db'))) = next_id db'"
    using link_endpoint_frame [OF C] C by (simp add: endpoint_frame_def)
qed

text \<open>A part of the processing that may take \<open>n\<close> identifiers.\<close>

definition grown :: "int \<Rightarrow> 'q database \<Rightarrow> 'q database \<Rightarrow> bool" where
  "grown n db db' \<longleftrightarrow> database_ready db' \<and> next_id db \<le> next_id db' \<and> next_id db' \<le> next_id db + n \<and>
     set (entity_ids db) \<subseteq> set (entity_ids db')"

lemma grown_refl: "database_ready db \<Longrightarrow> grown 0 db db"
  by (simp add: grown_def)

lemma grown_trans: "grown m db db1 \<Longrightarrow> grown n db1 db2 \<Longrightarrow> grown (m + n) db db2"
  by (auto simp: grown_def)

lemma grown_mono: "grown m db db1 \<Longrightarrow> m \<le> n \<Longrightarrow> grown n db db1"
  by (auto simp: grown_def)

lemma grown_room: "grown m db db1 \<Longrightarrow> room n db \<Longrightarrow> room (n - m) db1"
  by (auto simp: grown_def room_def)

lemma same_shape_grown: "database_ready db \<Longrightarrow> same_shape db db' \<Longrightarrow> grown 0 db db'"
  using same_shape_ready [of db db'] by (simp add: grown_def) (simp add: same_shape_def entity_ids_def)

lemma grown_shape: "grown n db db1 \<Longrightarrow> same_shape db1 db2 \<Longrightarrow> grown n db db2"
  using grown_trans [of n db db1 0 db2] same_shape_grown [of db1 db2] by (auto simp: grown_def)

lemma readyD:
  assumes "database_ready db"
  shows "db_inv db" "fresh_stores db" "0 \<le> next_id db"
  using assms db_invD(11) [of db] by (simp_all add: database_ready_def ids_below_def)

text \<open>
  The steps every insertion of a new object has: the object is stored at the next address, the
  insertion runs, and an exception removes the object again.
\<close>

lemma inserted_grown:
  assumes rd: "database_ready db" and alloc: "db_inv db1" "entity_ids db1 = entity_ids db" "next_id db1 = next_id db"
      "fresh_stores db1"
    and eff: "insertion_effect invalid_id r db1 db2" and frame: "insert_frame db1 db2"
  shows "grown 1 db db2" and "r = Inr i \<Longrightarrow> i \<notin> set (entity_ids db) \<and> i \<in> set (entity_ids db2)"
    and "r = Inl e \<Longrightarrow> entity_ids db2 = entity_ids db"
proof -
  have inv: "db_inv db2" using eff by (simp add: insertion_effect_def)
  have "fresh_stores db2" using frame alloc(4) stores_kept_fresh by (auto simp: insert_frame_def)
  moreover have "set (entity_ids db) \<subseteq> set (entity_ids db2)"
    using eff alloc(2) by (auto simp: insertion_effect_def split: sum.splits dest!: mset_eq_setD [of _ "_ # _", simplified])
  ultimately show "grown 1 db db2"
    using inv frame alloc(3) by (simp add: grown_def database_ready_def insert_frame_def)
  show "r = Inr i \<Longrightarrow> i \<notin> set (entity_ids db) \<and> i \<in> set (entity_ids db2)"
    using eff alloc(2) by (auto simp: insertion_effect_def dest!: mset_eq_setD [of _ "_ # _", simplified])
  show "r = Inl e \<Longrightarrow> entity_ids db2 = entity_ids db"
    using eff alloc(2) by (simp add: insertion_effect_def)
qed

definition inserted_well :: "'q database \<Rightarrow> EntityId result \<Rightarrow> 'q database \<Rightarrow> bool" where
  "inserted_well db r db' \<longleftrightarrow> grown 1 db db' \<and>
     (case r of
        Inl e \<Rightarrow> entity_ids db' = entity_ids db
      | Inr i \<Rightarrow> i \<notin> set (entity_ids db) \<and> i \<in> set (entity_ids db'))"

lemma inserted_well_refl: "database_ready db \<Longrightarrow> inserted_well db (Inl e) db"
  using grown_mono [OF grown_refl, of db 1] by (simp add: inserted_well_def)

text \<open>A store with the addresses of its collection, and what holds of a new object in it.\<close>

definition created ::
  "('q database \<Rightarrow> addr \<Rightarrow> 'o option) \<Rightarrow> ((addr \<Rightarrow> 'o option) \<Rightarrow> 'q database \<Rightarrow> 'q database) \<Rightarrow>
   (addr \<Rightarrow> ('q, EntityId) action) \<Rightarrow> 'o \<Rightarrow> ('q, EntityId) action" where
  "created objs set_objs ins x db =
     (let a = next_addr db
      in case ins a (set_objs ((objs db)(a \<mapsto> x)) (db\<lparr>next_addr := Suc a\<rparr>)) of
          (Inl e, db) \<Rightarrow> (Inl e, set_objs ((objs db)(a := None)) db)
        | (Inr i, db) \<Rightarrow> (Inr i, db))"

lemma entity_ids_next_addr [simp]: "entity_ids (db\<lparr>next_addr := k\<rparr>) = entity_ids db"
  by (simp add: entity_ids_def)

locale object_store =
  fixes objs :: "'q database \<Rightarrow> addr \<Rightarrow> 'o option"
    and set_objs :: "(addr \<Rightarrow> 'o option) \<Rightarrow> 'q database \<Rightarrow> 'q database"
    and addrs :: "'q database \<Rightarrow> addr set"
  assumes set_other: "entity_ids (set_objs h db) = entity_ids db" "next_id (set_objs h db) = next_id db"
      "next_addr (set_objs h db) = next_addr db" "addrs (set_objs h db) = addrs db"
      "addrs (next_addr_update n db) = addrs db" "objs (next_addr_update n db) = objs db"
    and fresh_objs: "fresh_stores db \<Longrightarrow> next_addr db \<le> a \<Longrightarrow> objs db a = None"
    and fresh_set: "fresh_stores db \<Longrightarrow> (\<And>a. next_addr db \<le> a \<Longrightarrow> h a = None) \<Longrightarrow> fresh_stores (set_objs h db)"
    and entries: "db_inv db \<Longrightarrow> objs db a = None \<Longrightarrow> a \<notin> addrs db"
    and outside: "db_inv db \<Longrightarrow> a \<notin> addrs db \<Longrightarrow> db_inv (set_objs ((objs db)(a := x)) db)"
begin

lemma created_well:
  assumes rd: "database_ready db" "room 2 db"
    and eff: "\<And>a db1 r db2. db_inv db1 \<Longrightarrow> id_argument invalid_id db1 \<Longrightarrow> ins a db1 = (r, db2) \<Longrightarrow>
        insertion_effect invalid_id r db1 db2"
    and frame: "\<And>a db1. 0 \<le> next_id db1 \<Longrightarrow> room 2 db1 \<Longrightarrow> insert_frame db1 (snd (ins a db1))"
    and failed: "\<And>a db1 e db2. ins a db1 = (Inl e, db2) \<Longrightarrow> addrs db2 = addrs db1"
    and run: "created objs set_objs ins x db = (r, db')"
  shows "inserted_well db r db'"
proof -
  let ?a = "next_addr db"
  define db0 where "db0 = db\<lparr>next_addr := Suc ?a\<rparr>"
  define db1 where "db1 = set_objs ((objs db)(?a \<mapsto> x)) db0"
  note R = readyD [OF rd(1)]
  have inv0: "db_inv db0" using db_inv_same [OF R(1), of db0] db_invD(13) [OF R(1)]
    by (simp add: db0_def entity_ids_def db_struct_def db_owned_def)
  have na: "?a \<notin> addrs db0" using entries [OF inv0, of ?a] fresh_objs [OF R(2)] by (simp add: db0_def set_other)
  have "fresh_stores db0" using R(2) by (simp add: fresh_stores_def db0_def)
  then have al: "db_inv db1" "entity_ids db1 = entity_ids db" "next_id db1 = next_id db" "fresh_stores db1"
    using outside [OF inv0 na, of "Some x"] fresh_set [of db0 "(objs db)(?a \<mapsto> x)"] fresh_objs [OF R(2)]
    by (simp_all add: db1_def db0_def set_other)
  obtain r2 db2 where ins: "ins ?a db1 = (r2, db2)" by fastforce
  have arg: "0 \<le> next_id db1" "room 2 db1" "id_argument invalid_id db1"
    using R(3) rd(2) al by (simp_all add: room_def id_argument_def)
  have fr: "insert_frame db1 db2" using frame [OF arg(1,2), of ?a] ins by simp
  note G = inserted_grown [OF rd(1) al eff [OF al(1) arg(3) ins] fr]
  note run' = run [unfolded created_def Let_def, folded db0_def, folded db1_def]
  show ?thesis
  proof (cases r2)
    case (Inr i)
    then show ?thesis using run' ins G by (auto simp: inserted_well_def)
  next
    case (Inl e)
    let ?db3 = "set_objs ((objs db2)(?a := None)) db2"
    have "addrs db2 = addrs db0" using failed ins Inl by (auto simp: db1_def set_other)
    then have "db_inv ?db3" using outside [of db2 ?a None] na G(1) by (simp add: grown_def database_ready_def)
    moreover have "fresh_stores ?db3"
      using G(1) fresh_set [of db2 "(objs db2)(?a := None)"] fresh_objs [of db2]
      by (simp add: grown_def database_ready_def)
    ultimately have "grown 1 db ?db3" using G(1) by (simp add: grown_def database_ready_def set_other)
    then show ?thesis using run' ins Inl G(3) [OF Inl] by (auto simp: inserted_well_def set_other)
  qed
qed

end

interpretation locator_store: object_store locator_objs "\<lambda>h. locator_objs_update (\<lambda>_. h)" "\<lambda>db. snd ` set (locators db)"
proof unfold_locales
  show "db_inv (locator_objs_update (\<lambda>_. (locator_objs db)(a := x)) db)"
    if "db_inv db" "a \<notin> snd ` set (locators db)" for db :: "'q database" and a x
    using db_inv_outside(1) [OF that] by simp
qed (auto simp: fresh_stores_def entity_ids_def dest: fresh_not_entry [OF db_invD(5)])

interpretation topic_store: object_store topic_objs "\<lambda>h. topic_objs_update (\<lambda>_. h)" "\<lambda>db. snd ` entries_in (topics db)"
proof unfold_locales
  show "db_inv (topic_objs_update (\<lambda>_. (topic_objs db)(a := x)) db)"
    if "db_inv db" "a \<notin> snd ` entries_in (topics db)" for db :: "'q database" and a x
    using db_inv_outside(2) [OF that] by simp
qed (auto simp: fresh_stores_def entity_ids_def dest: fresh_not_entry_in [OF db_invD(6)])

interpretation participant_store: object_store participant_objs "\<lambda>h. participant_objs_update (\<lambda>_. h)"
  "\<lambda>db. snd ` entries_in (participants db)"
proof unfold_locales
  show "db_inv (participant_objs_update (\<lambda>_. (participant_objs db)(a := x)) db)"
    if "db_inv db" "a \<notin> snd ` entries_in (participants db)" for db :: "'q database" and a x
    using db_inv_outside(3) [OF that] by simp
qed (auto simp: fresh_stores_def entity_ids_def dest: fresh_not_entry_in [OF db_invD(7)])

interpretation host_store: object_store host_objs "\<lambda>h. host_objs_update (\<lambda>_. h)" "\<lambda>db. snd ` set (hosts db)"
proof unfold_locales
  show "db_inv (host_objs_update (\<lambda>_. (host_objs db)(a := x)) db)"
    if "db_inv db" "a \<notin> snd ` set (hosts db)" for db :: "'q database" and a x
    using db_inv_outside(6) [OF that] by simp
qed (auto simp: fresh_stores_def entity_ids_def dest: fresh_not_entry [OF db_invD(1)])

interpretation user_store: object_store user_objs "\<lambda>h. user_objs_update (\<lambda>_. h)" "\<lambda>db. snd ` set (users db)"
proof unfold_locales
  show "db_inv (user_objs_update (\<lambda>_. (user_objs db)(a := x)) db)"
    if "db_inv db" "a \<notin> snd ` set (users db)" for db :: "'q database" and a x
    using db_inv_outside(7) [OF that] by simp
qed (auto simp: fresh_stores_def entity_ids_def dest: fresh_not_entry [OF db_invD(2)])

interpretation process_store: object_store process_objs "\<lambda>h. process_objs_update (\<lambda>_. h)"
  "\<lambda>db. snd ` set (processes db)"
proof unfold_locales
  show "db_inv (process_objs_update (\<lambda>_. (process_objs db)(a := x)) db)"
    if "db_inv db" "a \<notin> snd ` set (processes db)" for db :: "'q database" and a x
    using db_inv_outside(8) [OF that] by simp
qed (auto simp: fresh_stores_def entity_ids_def dest: fresh_not_entry [OF db_invD(3)])

interpretation reader_store: object_store "ec_objs reader_class" "ec_set_objs reader_class"
  "\<lambda>db. snd ` entries_in (ec_coll reader_class db)"
proof unfold_locales
  show "db_inv (ec_set_objs reader_class ((ec_objs reader_class db)(a := x)) db)"
    if "db_inv db" "a \<notin> snd ` entries_in (ec_coll reader_class db)" for db :: "'q database" and a x
    using db_inv_outside(4) [of db a x] that by (simp add: reader_class_def)
qed (auto simp: reader_class_def fresh_stores_def entity_ids_def dest: fresh_not_entry_in [OF db_invD(8)])

interpretation writer_store: object_store "ec_objs writer_class" "ec_set_objs writer_class"
  "\<lambda>db. snd ` entries_in (ec_coll writer_class db)"
proof unfold_locales
  show "db_inv (ec_set_objs writer_class ((ec_objs writer_class db)(a := x)) db)"
    if "db_inv db" "a \<notin> snd ` entries_in (ec_coll writer_class db)" for db :: "'q database" and a x
    using db_inv_outside(5) [of db a x] that by (simp add: writer_class_def)
qed (auto simp: writer_class_def fresh_stores_def entity_ids_def dest: fresh_not_entry_in [OF db_invD(9)])

section \<open>New entities\<close>

lemma failed_insertion_collections:
  "insert_participant qe a i db = (Inl e, db') \<Longrightarrow> participants db' = participants db"
  "insert_topic a i db = (Inl e, db') \<Longrightarrow> topics db' = topics db"
  "insert_locator a i db = (Inl e, db') \<Longrightarrow> locators db' = locators db"
  "insert_host a i db = (Inl e, db') \<Longrightarrow> hosts db' = hosts db"
  "insert_user a i db = (Inl e, db') \<Longrightarrow> users db' = users db"
  "insert_process a i db = (Inl e, db') \<Longrightarrow> processes db' = processes db"
  by (auto simp: insert_participant_def insert_topic_def insert_locator_def insert_host_def insert_user_def
      insert_process_def checked_insert_def Let_def
      assign_entity_id_def generate_entity_id_def split: option.splits sum.splits prod.splits if_splits)

lemma failed_insertion_addresses:
  "insert_participant qe a i db = (Inl e, db') \<Longrightarrow> snd ` entries_in (participants db') = snd ` entries_in (participants db)"
  "insert_topic a i db = (Inl e, db') \<Longrightarrow> snd ` entries_in (topics db') = snd ` entries_in (topics db)"
  "insert_locator a i db = (Inl e, db') \<Longrightarrow> snd ` set (locators db') = snd ` set (locators db)"
  "insert_host a i db = (Inl e, db') \<Longrightarrow> snd ` set (hosts db') = snd ` set (hosts db)"
  "insert_user a i db = (Inl e, db') \<Longrightarrow> snd ` set (users db') = snd ` set (users db)"
  "insert_process a i db = (Inl e, db') \<Longrightarrow> snd ` set (processes db') = snd ` set (processes db)"
  by (drule failed_insertion_collections, simp)+

text \<open>An endpoint is entered in its collection last.\<close>

definition coll_frame :: "('q, 'e) endpoint_class \<Rightarrow> bool" where
  "coll_frame C \<longleftrightarrow> (\<forall>db a f n p l t. ec_coll C (ec_update C a f db) = ec_coll C db \<and>
     ec_coll C (db\<lparr>next_id := n\<rparr>) = ec_coll C db \<and> ec_coll C (db\<lparr>participant_objs := p\<rparr>) = ec_coll C db \<and>
     ec_coll C (db\<lparr>locator_objs := l\<rparr>) = ec_coll C db \<and> ec_coll C (db\<lparr>topic_objs := t\<rparr>) = ec_coll C db)"

lemma coll_frames: "coll_frame reader_class" "coll_frame writer_class"
  by (simp_all add: coll_frame_def ec_update_def reader_class_def writer_class_def)

lemma link_locators_coll: "coll_frame C \<Longrightarrow> ec_coll C (snd (link_locators C a i ls db)) = ec_coll C db"
  by (induction ls arbitrary: db) (auto simp: coll_frame_def)

lemma failed_link_coll:
  assumes "coll_frame C" and "link_endpoint C a i e db = (Inl ex, db')"
  shows "ec_coll C db' = ec_coll C db"
proof -
  have link: "ec_coll C db2 = ec_coll C db1" if "link_locators C a i ls db1 = (r, db2)" for ls db1 r db2
    using link_locators_coll [OF assms(1), of a i ls db1] that by simp
  show ?thesis
    using assms by (auto simp: link_endpoint_def act_bind_def Let_def coll_frame_def split: sum.splits prod.splits
        dest!: link)
qed

lemma failed_endpoint_coll:
  assumes C: "coll_frame C" and run: "insert_endpoint C qe a i db = (Inl ex, db')"
  shows "ec_coll C db' = ec_coll C db"
proof -
  define db0 where "db0 = ec_update C a (ec_clear C) db"
  note run' = run [unfolded insert_endpoint_def insert_ddsendpoint_nts_def, folded db0_def]
  have 0: "ec_coll C db0 = ec_coll C db" using C by (simp add: coll_frame_def db0_def)
  show ?thesis
    using checked_insert_cases [OF run'] failed_link_coll [OF C] 0 C by (fastforce simp: coll_frame_def)
qed

lemma insert_endpoint_effects:
  "db_inv db \<Longrightarrow> id_argument i db \<Longrightarrow> insert_endpoint reader_class qe a i db = (r, db') \<Longrightarrow> insertion_effect i r db db'"
  "db_inv db \<Longrightarrow> id_argument i db \<Longrightarrow> insert_endpoint writer_class qe a i db = (r, db') \<Longrightarrow> insertion_effect i r db db'"
  by (fact reader_ec.insert_endpoint_effect writer_ec.insert_endpoint_effect)+

lemma insert_created_created:
  "insert_created C qe z = created (ec_objs C) (ec_set_objs C) (\<lambda>a. insert_endpoint C qe a invalid_id) z"
  by (rule ext) (simp add: insert_created_def created_def Let_def)

lemma insert_created_well:
  assumes "database_ready db" and "room 2 db"
  shows "insert_created reader_class qe x db = (r, db') \<Longrightarrow> inserted_well db r db'"
    "insert_created writer_class qe y db = (r, db') \<Longrightarrow> inserted_well db r db'"
proof -
  show "inserted_well db r db'" if run: "insert_created reader_class qe x db = (r, db')"
    by (rule reader_store.created_well [OF assms insert_endpoint_effects(1) insert_endpoint_frame [OF endpoint_frames(1)]
          _ run [unfolded insert_created_created]])
      (simp_all add: failed_endpoint_coll [OF coll_frames(1)])
  show "inserted_well db r db'" if run: "insert_created writer_class qe y db = (r, db')"
    by (rule writer_store.created_well [OF assms insert_endpoint_effects(2) insert_endpoint_frame [OF endpoint_frames(2)]
          _ run [unfolded insert_created_created]])
      (simp_all add: failed_endpoint_coll [OF coll_frames(2)])
qed

lemma insert_new_participant_well:
  assumes "database_ready db" and "room 2 db"
    and "insert_new_participant qe n q g d st app meta src orig db = (r, db')"
  shows "inserted_well db r db'"
proof (cases "get_domain d db")
  case (Inr da)
  then have run: "created participant_objs (\<lambda>h. participant_objs_update (\<lambda>_. h))
      (\<lambda>a. insert_participant qe a invalid_id) (new_participant n q g None (Some da) st app meta src orig) db = (r, db')"
    using assms(3) by (simp add: insert_new_participant_def created_def Let_def)
  show ?thesis
    by (rule participant_store.created_well [OF assms(1,2) insert_participant_effect insert_frames(2) failed_insertion_addresses(1) run])
qed (use assms inserted_well_refl in \<open>auto simp: insert_new_participant_def\<close>)

lemma insert_new_topic_well:
  assumes "database_ready db" and "room 2 db" and "insert_new_topic n ty alias d db = (r, db')"
  shows "inserted_well db r db'"
proof (cases "get_domain d db")
  case (Inr da)
  then have run: "created topic_objs (\<lambda>h. topic_objs_update (\<lambda>_. h)) (\<lambda>a. insert_topic a invalid_id)
      (let t = new_topic n ty (Some da) OK_STATUS in if alias \<noteq> [] then t\<lparr>e_alias := alias\<rparr> else t) db = (r, db')"
    using assms(3) by (simp add: insert_new_topic_def created_def Let_def)
  show ?thesis
    by (rule topic_store.created_well [OF assms(1,2) insert_topic_effect insert_frames(1) failed_insertion_addresses(2) run])
qed (use assms inserted_well_refl in \<open>auto simp: insert_new_topic_def\<close>)

lemma create_locator_well:
  assumes "database_ready db" and "room 2 db"
    and "created locator_objs (\<lambda>h. locator_objs_update (\<lambda>_. h)) (\<lambda>a. insert_locator a invalid_id) x db = (r, db')"
  shows "inserted_well db r db'"
  by (rule locator_store.created_well [OF assms(1,2) insert_locator_effect insert_frames(3) failed_insertion_addresses(3) assms(3)])

lemma process_locator_grown:
  assumes "database_ready db" and "room 2 db" and "process_locator n db = (r, db')"
  shows "grown 1 db db'"
proof -
  have same: "grown 1 db db" using grown_mono [OF grown_refl [OF assms(1)], of 1] by simp
  obtain r1 db1 where c: "created locator_objs (\<lambda>h. locator_objs_update (\<lambda>_. h)) (\<lambda>a. insert_locator a invalid_id)
      (new_locator n) db = (r1, db1)" by fastforce
  have G: "grown 1 db db1" using create_locator_well [OF assms(1,2) c] by (simp add: inserted_well_def)
  then have G': "grown 1 db (emit ev db1)" for ev by (rule grown_shape) simp
  show ?thesis
    using assms(3) same c G G'
    by (auto simp: process_locator_def created_def Let_def split: sum.splits list.splits prod.splits entity_ref.splits
        option.splits)
qed

lemma process_locators_grown:
  "database_ready db \<Longrightarrow> room (int (length ns) + 2) db \<Longrightarrow> process_locators ns ls db = (r, db') \<Longrightarrow>
     grown (int (length ns)) db db'"
proof (induction ns arbitrary: ls db)
  case Nil
  then show ?case using grown_refl by (auto simp: act_return_def)
next
  case (Cons n ns)
  obtain r1 db1 where p: "process_locator n db = (r1, db1)" by fastforce
  have g: "grown 1 db db1"
    by (rule process_locator_grown [OF Cons.prems(1) _ p]) (use Cons.prems(2) in \<open>simp add: room_def\<close>)
  show ?case
  proof (cases r1)
    case (Inl e)
    then show ?thesis using Cons.prems(3) p grown_mono [OF g] by (auto simp: act_bind_def)
  next
    case (Inr x)
    obtain i a where x: "x = (i, a)" by fastforce
    have "process_locators ns (om_put i a ls) db1 = (r, db')"
      using Cons.prems(3) p Inr x by (simp add: act_bind_def)
    moreover have "room (int (length ns) + 2) db1" using grown_room [OF g Cons.prems(2)] by (simp add: room_def)
    moreover have "database_ready db1" using g by (simp add: grown_def)
    ultimately have "grown (int (length ns)) db1 db'" by (intro Cons.IH)
    from grown_trans [OF g this] show ?thesis by (simp add: add.commute)
  qed
qed

definition locator_count :: "RemoteLocatorList \<Rightarrow> int" where
  "locator_count ls = int (length (unicast ls) + length (multicast ls))"

lemma insert_new_endpoint_grown:
  assumes rd: "database_ready db" "room (locator_count locs + 3) db"
    and run: "insert_new_endpoint f qe g n alias q virt locs k p t app src orig db = (r, db')"
  shows "grown (locator_count locs + 1) db db'" and "r = Inr i \<Longrightarrow> i \<notin> set (entity_ids db) \<and> i \<in> set (entity_ids db')"
proof -
  define names where "names = map (show_locator f) (unicast locs) @ map (show_locator f) (multicast locs)"
  have ln: "int (length names) = locator_count locs" by (simp add: names_def locator_count_def)
  have keep: "grown (locator_count locs + 1) db db"
    by (rule grown_mono [OF grown_refl [OF rd(1)]]) (simp add: locator_count_def)
  obtain r1 db1 where ls: "process_locators names [] db = (r1, db1)" by fastforce
  have g: "grown (locator_count locs) db db1"
    unfolding ln [symmetric]
    by (rule process_locators_grown [OF rd(1) _ ls]) (use rd(2) ln in \<open>simp add: room_def\<close>)
  have rd1: "database_ready db1" "room 2 db1"
    using g grown_room [OF g rd(2)] by (simp_all add: grown_def room_def)
  have ins: "grown (locator_count locs + 1) db db' \<and> (\<forall>i. r = Inr i \<longrightarrow> i \<notin> set (entity_ids db) \<and> i \<in> set (entity_ids db'))"
    if "inserted_well db1 r db'"
    using that g grown_trans [OF g, of 1 db'] by (auto simp: inserted_well_def grown_def split: sum.splits)
  show "grown (locator_count locs + 1) db db'" "r = Inr i \<Longrightarrow> i \<notin> set (entity_ids db) \<and> i \<in> set (entity_ids db')"
    using run keep ls grown_mono [OF g] ins insert_created_well [OF rd1]
    by (auto simp: insert_new_endpoint_def Let_def act_bind_def names_def [symmetric] split: sum.splits if_splits)
qed

section \<open>The physical entities\<close>

lemma create_physical_well:
  assumes "database_ready db" and "room 2 db"
  shows "created host_objs (\<lambda>h. host_objs_update (\<lambda>_. h)) (\<lambda>a. insert_host a invalid_id) x db = (r, db') \<Longrightarrow>
      inserted_well db r db'"
    "created user_objs (\<lambda>h. user_objs_update (\<lambda>_. h)) (\<lambda>a. insert_user a invalid_id) y db = (r, db') \<Longrightarrow>
      inserted_well db r db'"
    "created process_objs (\<lambda>h. process_objs_update (\<lambda>_. h)) (\<lambda>a. insert_process a invalid_id) z db = (r, db') \<Longrightarrow>
      inserted_well db r db'"
proof -
  show "inserted_well db r db'"
    if run: "created host_objs (\<lambda>h. host_objs_update (\<lambda>_. h)) (\<lambda>a. insert_host a invalid_id) x db = (r, db')"
    by (rule host_store.created_well [OF assms insert_host_effect insert_frames(4) failed_insertion_addresses(4) run])
  show "inserted_well db r db'"
    if run: "created user_objs (\<lambda>h. user_objs_update (\<lambda>_. h)) (\<lambda>a. insert_user a invalid_id) y db = (r, db')"
    by (rule user_store.created_well [OF assms insert_user_effect insert_frames(5) failed_insertion_addresses(5) run])
  show "inserted_well db r db'"
    if run: "created process_objs (\<lambda>h. process_objs_update (\<lambda>_. h)) (\<lambda>a. insert_process a invalid_id) z db = (r, db')"
    by (rule process_store.created_well [OF assms insert_process_effect insert_frames(6) failed_insertion_addresses(6) run])
qed

lemma same_shape_upgrade:
  "same_shape db (db\<lparr>host_objs := obj_update a (upgrade_source src) (host_objs db)\<rparr>)"
  "same_shape db (db\<lparr>user_objs := obj_update a (upgrade_source src) (user_objs db)\<rparr>)"
  "same_shape db (db\<lparr>process_objs := obj_update a (upgrade_source src) (process_objs db)\<rparr>)"
  by (rule same_shape_obj_update; simp add: upgrade_source_def)+

lemma physical_host_grown:
  assumes rd: "database_ready db" "room 2 db" and run: "physical_host n src db = (r, db')"
  shows "grown 1 db db'"
proof -
  obtain r1 db1 where c: "created host_objs (\<lambda>h. host_objs_update (\<lambda>_. h)) (\<lambda>a. insert_host a invalid_id)
      ((new_host n OK_STATUS)\<lparr>e_discovery_source := src\<rparr>) db = (r1, db1)" by fastforce
  have G: "grown 1 db db1" using create_physical_well(1) [OF rd c] by (simp add: inserted_well_def)
  have S: "grown 1 db db2" if "same_shape db db2" for db2
    using grown_mono [OF same_shape_grown [OF rd(1) that], of 1] by simp
  show ?thesis
    using run c G S [OF same_shape_refl] S [OF same_shape_upgrade(1)]
    by (auto simp: physical_host_def created_def alloc_host_def free_host_def Let_def
        split: sum.splits list.splits prod.splits entity_ref.splits)
qed

lemma physical_user_grown:
  assumes rd: "database_ready db" "room 2 db" and run: "physical_user n src h db = (r, db')"
  shows "grown 1 db db'"
proof -
  obtain r1 db1 where c: "created user_objs (\<lambda>h. user_objs_update (\<lambda>_. h)) (\<lambda>a. insert_user a invalid_id)
      ((new_user n (Some h) OK_STATUS)\<lparr>e_discovery_source := src\<rparr>) db = (r1, db1)" by fastforce
  have G: "grown 1 db db1" using create_physical_well(2) [OF rd c] by (simp add: inserted_well_def)
  have S: "grown 1 db db2" if "same_shape db db2" for db2
    using grown_mono [OF same_shape_grown [OF rd(1) that], of 1] by simp
  show ?thesis
    using run c G S [OF same_shape_refl] S [OF same_shape_upgrade(2)]
    by (auto simp: physical_user_def created_def alloc_user_def free_user_def Let_def
        split: sum.splits option.splits prod.splits)
qed

lemma physical_process_grown:
  assumes rd: "database_ready db" "room 2 db" and run: "physical_process n pd src u db = (r, db')"
  shows "grown 1 db db'"
proof -
  obtain r1 db1 where c: "created process_objs (\<lambda>h. process_objs_update (\<lambda>_. h)) (\<lambda>a. insert_process a invalid_id)
      ((new_process n pd (Some u) OK_STATUS)\<lparr>e_discovery_source := src\<rparr>) db = (r1, db1)" by fastforce
  have G: "grown 1 db db1" using create_physical_well(3) [OF rd c] by (simp add: inserted_well_def)
  have S: "grown 1 db db2" if "same_shape db db2" for db2
    using grown_mono [OF same_shape_grown [OF rd(1) that], of 1] by simp
  show ?thesis
    using run c G S [OF same_shape_refl] S [OF same_shape_upgrade(3)]
    by (auto simp: physical_process_def created_def alloc_process_def free_process_def Let_def
        split: sum.splits option.splits prod.splits)
qed

lemma physical_entities_grown:
  assumes rd: "database_ready db" "room 5 db"
    and run: "process_physical_entities_nts hname uname pname ppid src link i ids db = (r, link', ids', db')"
  shows "grown 3 db db'"
proof -
  obtain r1 db1 where h: "physical_host hname src db = (r1, db1)" by fastforce
  have g1: "grown 1 db db1" by (rule physical_host_grown [OF rd(1) _ h]) (use rd(2) in \<open>simp add: room_def\<close>)
  have rd1: "database_ready db1" "room 4 db1" using g1 grown_room [OF g1 rd(2)] by (simp_all add: grown_def)
  show ?thesis
  proof (cases r1)
    case (Inl e)
    then show ?thesis using run h grown_mono [OF g1] by (auto simp: process_physical_entities_nts_def)
  next
    case hr: (Inr a)
    obtain r2 db2 where u: "physical_user uname src a db1 = (r2, db2)" by fastforce
    have "grown 1 db1 db2" by (rule physical_user_grown [OF rd1(1) _ u]) (use rd1(2) in \<open>simp add: room_def\<close>)
    then have g2: "grown 2 db db2" using grown_trans [OF g1] by fastforce
    have rd2: "database_ready db2" "room 3 db2" using g2 grown_room [OF g2 rd(2)] by (simp_all add: grown_def)
    show ?thesis
    proof (cases r2)
      case (Inl e)
      then show ?thesis using run h hr u grown_mono [OF g2] by (auto simp: process_physical_entities_nts_def)
    next
      case ur: (Inr b)
      obtain r3 db3 where p: "physical_process pname ppid src b db2 = (r3, db3)" by fastforce
      have "grown 1 db2 db3" by (rule physical_process_grown [OF rd2(1) _ p]) (use rd2(2) in \<open>simp add: room_def\<close>)
      then have g3: "grown 3 db db3" using grown_trans [OF g2] by fastforce
      have "grown 3 db (snd (link_participant_with_process_nts x y db3))" for x y
        by (rule grown_shape [OF g3 keepsD [OF shape.keeps_link]])
      then show ?thesis
        using run h hr u ur p g3
        by (auto simp: process_physical_entities_nts_def Let_def split: sum.splits if_splits prod.splits)
          (metis snd_conv)+
    qed
  qed
qed

lemma keeps_shape_update [frame_intros]:
  "keeps_shape (update_participant_discovery_info_nts i hname uname proc n q g d st app meta src orig)"
  by (rule shape.keeps_participant_update) (auto intro!: same_shape_obj_update simp: update_participant_data_def Let_def)

section \<open>The queue\<close>

definition grows :: "int \<Rightarrow> ('q, 'a) action \<Rightarrow> bool" where
  "grows n m \<longleftrightarrow> 0 \<le> n \<and> (\<forall>db. database_ready db \<longrightarrow> room (n + 2) db \<longrightarrow> grown n db (snd (m db)))"

lemma growsD: "grows n m \<Longrightarrow> database_ready db \<Longrightarrow> room (n + 2) db \<Longrightarrow> m db = (r, db') \<Longrightarrow> grown n db db'"
  by (metis grows_def snd_conv)

lemma growsI:
  assumes "0 \<le> n"
    and "\<And>db r db'. database_ready db \<Longrightarrow> room (n + 2) db \<Longrightarrow> m db = (r, db') \<Longrightarrow> grown n db db'"
  shows "grows n m"
  unfolding grows_def using assms by (metis surjective_pairing)

lemma keeps_grows: "keeps_shape m \<Longrightarrow> grows 0 m"
  by (simp add: grows_def keeps_def same_shape_grown)

lemma grows_mono:
  assumes "grows m f" and "m \<le> n"
  shows "grows n f"
proof (rule growsI)
  show "0 \<le> n" using assms by (simp add: grows_def)
  fix db r db'
  assume rd: "database_ready db" "room (n + 2) db" and run: "f db = (r, db')"
  have "grown m db db'" by (rule growsD [OF assms(1) rd(1) _ run]) (use rd(2) assms(2) in \<open>simp add: room_def\<close>)
  then show "grown n db db'" using assms(2) by (rule grown_mono)
qed

lemma grows_bind:
  assumes m: "grows n m" and f: "\<And>x. grows k (f x)"
  shows "grows (n + k) (act_bind m f)"
  unfolding grows_def
proof (intro conjI allI impI)
  show "0 \<le> n + k" using m f by (simp add: grows_def)
  fix db :: "'a database"
  assume rd: "database_ready db" "room (n + k + 2) db"
  obtain r db1 where r: "m db = (r, db1)" by fastforce
  have k: "0 \<le> k" using f by (simp add: grows_def)
  have g: "grown n db db1" by (rule growsD [OF m rd(1) _ r]) (use rd(2) k in \<open>simp add: room_def\<close>)
  show "grown (n + k) db (snd (act_bind m f db))"
  proof (cases r)
    case (Inl e)
    then show ?thesis using r grown_mono [OF g] k by (simp add: act_bind_def)
  next
    case (Inr x)
    have "grown k db1 (snd (f x db1))"
      using f [of x] g grown_room [OF g rd(2)] by (simp add: grows_def grown_def add.commute diff_diff_eq)
    then show ?thesis using r Inr grown_trans [OF g] by (simp add: act_bind_def)
  qed
qed

lemma grows_keeps: "grows n m \<Longrightarrow> (\<And>x. keeps_shape (f x)) \<Longrightarrow> grows n (act_bind m f)"
  using grows_bind [of n m 0 f] keeps_grows by force

lemma keeps_grows_bind: "keeps_shape m \<Longrightarrow> (\<And>x. grows n (f x)) \<Longrightarrow> grows n (act_bind m f)"
  using grows_bind [of 0 m n f] keeps_grows by force

lemma grows_with: "0 \<le> n \<Longrightarrow> (\<And>x. grows n (g x)) \<Longrightarrow> grows n (act_with f g)"
  unfolding grows_def act_with_def
  by (auto split: sum.split intro: grown_mono [OF grown_refl])

lemma grows_participant: "grows 1 (insert_new_participant qe n q g d st app meta src orig)"
proof (rule growsI)
  fix db r db'
  assume rd: "database_ready db" "room (1 + 2) db"
    and run: "insert_new_participant qe n q g d st app meta src orig db = (r, db')"
  have "inserted_well db r db'" by (rule insert_new_participant_well [OF rd(1) _ run]) (use rd(2) in \<open>simp add: room_def\<close>)
  then show "grown 1 db db'" by (simp add: inserted_well_def)
qed simp

lemma grows_topic: "grows 1 (insert_new_topic n ty alias d)"
proof (rule growsI)
  fix db r db'
  assume rd: "database_ready db" "room (1 + 2) db" and run: "insert_new_topic n ty alias d db = (r, db')"
  have "inserted_well db r db'" by (rule insert_new_topic_well [OF rd(1) _ run]) (use rd(2) in \<open>simp add: room_def\<close>)
  then show "grown 1 db db'" by (simp add: inserted_well_def)
qed simp

lemma grows_endpoint:
  "grows (locator_count locs + 1) (insert_new_endpoint f qe g n alias q virt locs k p t app src orig)"
  by (rule growsI, simp add: locator_count_def, erule insert_new_endpoint_grown(1) [rotated 2])
    (simp_all add: room_def)

lemma grows_physical: "grows 3 (physical_entities_of i link info)"
proof -
  have "grown 3 db (snd (physical_entities_of i link info db))"
    if rd: "database_ready db" "room 5 db" for db
  proof -
    obtain pn pp where sp: "split_process (di_process info) = (pn, pp)" by fastforce
    obtain r l ids db' where run: "process_physical_entities_nts (di_host info) (di_user info) pn pp
        (di_discovery_source info) link i
        \<lparr>host_entity = invalid_id, user_entity = invalid_id, process_entity = invalid_id\<rparr> db = (r, l, ids, db')"
      by (metis prod_cases4)
    show ?thesis
      using physical_entities_grown [OF rd run] run sp by (simp add: physical_entities_of_def split: sum.split)
  qed
  then show ?thesis by (simp add: grows_def)
qed

lemma grows_after:
  assumes "grows n m" and "database_ready db" and "room (n + 2) db" and "same_shape db db1"
  shows "grown n db (snd (m db1))"
proof -
  have g: "grown 0 db db1" by (rule same_shape_grown [OF assms(2,4)])
  have "grown n db1 (snd (m db1))"
    using assms(1) g grown_room [OF g assms(3)] by (simp add: grows_def grown_def)
  from grown_trans [OF g this] show ?thesis by simp
qed

lemma grows_find_or_insert: "grows 1 (find_or_insert_participant f qe info)"
proof (rule growsI)
  fix db r db'
  assume rd: "database_ready db" "room (1 + 2) db" and run: "find_or_insert_participant f qe info db = (r, db')"
  define m where "m = act_with (get_entity_by_guid_nts PARTICIPANT (show_guid f (di_guid info))) (\<lambda>(d, i).
        act_bind (change_entity_status i (di_discovery_status info \<noteq> UNDISCOVERY)) (\<lambda>_.
        if di_discovery_status info = UPDATE
        then act_bind (update_participant_discovery_info_nts i (di_host info) (di_user info) (di_process info)
               (di_participant_name info) (di_qos info) (show_guid f (di_guid info)) (di_domain_id info)
               (di_entity_status info) (di_app_id info) (di_app_metadata info) (di_discovery_source info)
               (di_original_domain_id info)) (\<lambda>_. act_return (i, False))
        else act_return (i, False)))"
  define ins where "ins = act_bind (insert_new_participant qe
         (if di_participant_name info = [] then di_address info @ '':'' @ get_participant_id (di_guid info)
          else di_participant_name info) (di_qos info) (show_guid f (di_guid info))
         (di_domain_id info) (di_entity_status info) (di_app_id info) (di_app_metadata info)
         (di_discovery_source info) (di_original_domain_id info)) (\<lambda>i. act_return (i, True))"
  obtain r1 db1 where m: "m db = (r1, db1)" by fastforce
  have "keeps_shape m" unfolding m_def by (auto intro!: frame_intros split: prod.split)
  then have S: "same_shape db db1" using m keepsD [of same_shape m db] by simp
  have G: "grown 1 db db1" by (rule grown_mono [OF same_shape_grown [OF rd(1) S]]) simp
  have "grows 1 ins" unfolding ins_def by (intro grows_keeps grows_participant frame_intros)
  note I = grows_after [OF this rd S]
  show "grown 1 db db'"
    using run m G I
    by (auto simp: find_or_insert_participant_def m_def [symmetric] ins_def [symmetric] Let_def
        split: sum.splits exn.splits if_splits)
qed simp

lemma grows_process_participant: "grows 4 (process_participant f qe info)"
proof -
  have "grows (1 + 3) (process_participant f qe info)"
    unfolding process_participant_def
    by (rule grows_bind [OF grows_find_or_insert]) (auto intro!: grows_keeps grows_physical frame_intros split: prod.split)
  then show ?thesis by simp
qed

lemma grows_get_topic: "grows 1 (get_or_create_topic info :: ('q, EntityId) action)"
  unfolding get_or_create_topic_def
proof (rule grows_with)
  fix t
  have "grows 1 (act_return t :: ('q, EntityId) action)" by (rule grows_mono [OF keeps_grows [OF shape.keeps_return]]) simp
  then show "grows 1 (if t = invalid_id
      then act_bind (insert_new_topic (di_topic_name info) (di_type_name info) (di_alias info) (di_domain_id info))
             (\<lambda>t db. (Inr t, emit (DomainEntityDiscovery (di_domain_id info) t TOPIC DISCOVERY) db))
      else act_return t :: ('q, EntityId) action)"
    using grows_keeps [OF grows_topic shape.keeps_emit] by auto
qed simp

lemma grows_create_discovered: "grows (locator_count (di_locators info) + 1) (create_discovered f qe info p t)"
  unfolding create_discovered_def
proof (rule grows_with)
  show "0 \<le> locator_count (di_locators info) + 1" by (simp add: locator_count_def)
qed (auto intro!: grows_keeps grows_endpoint frame_intros)

text \<open>The actions whose type may make them not return.\<close>

definition grows_option :: "int \<Rightarrow> ('q database \<Rightarrow> ('a result \<times> 'q database) option) \<Rightarrow> bool" where
  "grows_option n m \<longleftrightarrow> (\<forall>db r db'. database_ready db \<longrightarrow> room (n + 2) db \<longrightarrow> m db = Some (r, db') \<longrightarrow> grown n db db')"

lemma register_type_shape: "register_type info db = Some (r, db') \<Longrightarrow> same_shape db db'"
  using same_shape_type by (auto simp: register_type_def split: if_splits)

lemma grows_endpoint_discovery:
  "grows_option (locator_count (di_locators info) + 2) (process_endpoint_discovery f qe info)"
  unfolding grows_option_def
proof (intro allI impI)
  fix db :: "'a database" and r db'
  let ?L = "locator_count (di_locators info)"
  assume rd: "database_ready db" "room (?L + 2 + 2) db" and run: "process_endpoint_discovery f qe info db = Some (r, db')"
  define m where "m = act_with (endpoint_participant f '' discovered on Participant '' info) (\<lambda>(d, p).
      act_bind (get_or_create_topic info) (\<lambda>t. act_return (p, t)))"
  have L: "0 \<le> ?L" by (simp add: locator_count_def)
  obtain r1 db1 where r1: "m db = (r1, db1)" by fastforce
  have "grows 1 m" unfolding m_def by (rule grows_with) (auto intro!: grows_keeps grows_get_topic frame_intros split: prod.split)
  moreover have "room (1 + 2) db" using rd(2) L by (simp add: room_def)
  ultimately have g1: "grown 1 db db1" using growsD [of 1 m, OF _ rd(1) _ r1] by blast
  show "grown (?L + 2) db db'"
  proof (cases r1)
    case (Inl e)
    then show ?thesis using run r1 grown_mono [OF g1] L
      by (auto simp: process_endpoint_discovery_def m_def [symmetric])
  next
    case (Inr pt)
    obtain p t where pt: "pt = (p, t)" by fastforce
    obtain r2 db2 where r2: "register_type info db1 = Some (r2, db2)"
      using run r1 Inr pt by (auto simp: process_endpoint_discovery_def m_def [symmetric] split: option.splits)
    have g2: "grown 1 db db2" by (rule grown_shape [OF g1 register_type_shape [OF r2]])
    show ?thesis
    proof (cases r2)
      case (Inl e)
      then show ?thesis using run r1 \<open>r1 = Inr pt\<close> pt r2 grown_mono [OF g2] L
        by (auto simp: process_endpoint_discovery_def m_def [symmetric])
    next
      case (Inr u)
      have "grown (?L + 1) db2 (snd (create_discovered f qe info p t db2))"
        using grows_create_discovered [of info f qe p t] g2 grown_room [OF g2 rd(2)]
        by (simp add: grows_def grown_def algebra_simps)
      from grown_trans [OF g2 this] show ?thesis
        using run r1 \<open>r1 = Inr pt\<close> pt r2 Inr
        by (auto simp: process_endpoint_discovery_def m_def [symmetric] algebra_simps)
    qed
  qed
qed

lemma grows_process_endpoint:
  "grows_option (locator_count (di_locators info) + 2) (process_endpoint f qe k what info)"
  unfolding grows_option_def
proof (intro allI impI)
  fix db :: "'a database" and r db'
  let ?L = "locator_count (di_locators info)"
  assume rd: "database_ready db" "room (?L + 2 + 2) db" and run: "process_endpoint f qe k what info db = Some (r, db')"
  obtain r1 db1 where r1: "update_known_endpoint f k info db = (r1, db1)" by fastforce
  have "keeps_shape (update_known_endpoint f k info)"
    unfolding update_known_endpoint_def by (auto intro!: frame_intros split: prod.split)
  then have S: "same_shape db db1" using r1 keepsD by (metis snd_conv)
  have g0: "grown 0 db db1" by (rule same_shape_grown [OF rd(1) S])
  have g: "grown (?L + 2) db db1" by (rule grown_mono [OF g0]) (simp add: locator_count_def)
  have "grown (?L + 2) db db2" if "process_endpoint_discovery f qe info db1 = Some (r2, db2)" for r2 db2
  proof -
    have "database_ready db1" "room (?L + 2 + 2) db1" using g0 grown_room [OF g0 rd(2)] by (simp_all add: grown_def)
    then have "grown (?L + 2) db1 db2"
      using grows_endpoint_discovery [of info f qe] that unfolding grows_option_def by blast
    from grown_trans [OF g0 this] show ?thesis by simp
  qed
  then show "grown (?L + 2) db db'"
    using run r1 g by (auto simp: process_endpoint_def split: sum.splits exn.splits if_splits)
qed

lemma entity_sample_ready:
  assumes rd: "database_ready db"
    and room: "next_id db + locator_count (di_locators info) + 6 < 2 ^ 63"
    and run: "process_entity_sample f qos_empty info db = Some (r, db')"
  shows "database_ready db' \<and> set (entity_ids db) \<subseteq> set (entity_ids db') \<and>
    next_id db' \<le> next_id db + locator_count (di_locators info) + 4"
proof -
  let ?L = "locator_count (di_locators info)"
  have L: "0 \<le> ?L" by (simp add: locator_count_def)
  obtain r1 db1 where s: "process_discovery f qos_empty info db = Some (r1, db1)"
    using run unfolding process_entity_sample_def by (auto split: option.splits)
  have e: "same_shape db1 db'"
    using run s unfolding process_entity_sample_def by (auto split: sum.splits)
  have "grown (?L + 4) db db1"
  proof (cases "di_kind info = PARTICIPANT")
    case True
    then have "process_participant f qos_empty info db = (r1, db1)" using s by (simp add: process_discovery_def)
    then have "grown 4 db db1"
      by (rule growsD [OF grows_process_participant rd, rotated]) (use room L in \<open>simp add: room_def\<close>)
    then show ?thesis by (rule grown_mono) (use L in simp)
  next
    case np: False
    show ?thesis
    proof (cases "di_kind info = DATAREADER \<or> di_kind info = DATAWRITER")
      case True
      then obtain k what where "process_endpoint f qos_empty k what info db = Some (r1, db1)"
        using s by (auto simp: process_discovery_def process_datareader_def process_datawriter_def)
      then have "grown (?L + 2) db db1"
        using grows_process_endpoint [of info f qos_empty k what] rd room L by (simp add: grows_option_def room_def)
      then show ?thesis by (rule grown_mono) simp
    next
      case False
      with np s have "db1 = db" by (cases "di_kind info") (auto simp: process_discovery_def)
      then show ?thesis using grown_mono [OF grown_refl [OF rd]] L by simp
    qed
  qed
  from grown_shape [OF this e] show ?thesis by (simp add: grown_def)
qed

definition example_discovery_db :: "unit database" where
  "example_discovery_db = new_database\<lparr>next_id := 1, next_addr := 1, domains := [(EntityId 0, 0)],
     domain_objs := [0 \<mapsto> (new_domain ''0'' 0 OK_STATUS)\<lparr>e_id := EntityId 0\<rparr>]\<rparr>"

definition example_participant_guid :: GUID_s where
  "example_participant_guid = \<lparr>guid_prefix = replicate 12 1, guid_entity = [0, 0, 1, 193]\<rparr>"

definition example_participant :: "unit EntityDiscoveryInfo" where
  "example_participant = (new_discovery_info () PARTICIPANT)\<lparr>di_domain_id := EntityId 0, di_guid := example_participant_guid,
     di_participant_guid := example_participant_guid, di_participant_name := ''dp'', di_host := ''h'', di_user := ''u'',
     di_process := ''p:7'', di_discovery_source := DISCOVERY_SOURCE\<rparr>"


lemma example_participant_kind: "di_kind example_participant = PARTICIPANT"
  by (simp add: example_participant_def new_discovery_info_def)

lemma example_discovery_ready: "database_ready example_discovery_db"
  by (simp add: database_ready_def fresh_stores_def db_inv_def db_struct_def db_owned_def owned_def owned_in_def
      topic_homes_def ids_below_def entity_ids_def keys_in_def new_database_def example_discovery_db_def om_wf_def
      entity_constructor_defs)

end
