(* ===== verification/CreationFrame.thy ===== *)
theory CreationFrame
  imports DiscoveryInv
begin

text \<open>
  What creating physical entities, topics and locators leaves alone: everything about participants and
  endpoints. A relation that allows this and what \<open>update_frame\<close> asks for holds across the parts of
  a discovery other than the insertion of a participant or an endpoint.
\<close>

definition dds_same :: "'q database \<Rightarrow> 'q database \<Rightarrow> bool" where
  "dds_same db db' \<longleftrightarrow> next_addr db \<le> next_addr db' \<and>
     participants db' = participants db \<and> datareaders db' = datareaders db \<and> datawriters db' = datawriters db \<and>
     participant_objs db' = participant_objs db \<and> reader_objs db' = reader_objs db \<and> writer_objs db' = writer_objs db"

lemma dds_same_refl [simp]: "dds_same db db"
  by (simp add: dds_same_def)

lemma dds_same_trans: "dds_same db db1 \<Longrightarrow> dds_same db1 db2 \<Longrightarrow> dds_same db db2"
  by (simp add: dds_same_def)

lemma dds_same_checked:
  assumes "dds_same db0 db" and "\<And>x j n. dds_same db (snd (commit x j (db\<lparr>next_id := n\<rparr>)))"
  shows "dds_same db0 (snd (checked_insert obj checks i commit db))"
proof -
  obtain j db1 where as: "assign_entity_id i db = (j, db1)" by fastforce
  then obtain n where "db1 = db\<lparr>next_id := n\<rparr>" using assign_entity_id_state by blast
  then show ?thesis using assms as dds_same_trans by (simp add: checked_insert_def split: option.split) blast
qed

lemma dds_same_inserts:
  "dds_same db (snd (insert_host a i db))" "dds_same db (snd (insert_user a i db))"
  "dds_same db (snd (insert_process a i db))" "dds_same db (snd (insert_topic a i db))"
  "dds_same db (snd (insert_locator a i db))"
  unfolding insert_host_def insert_user_def insert_process_def insert_topic_def insert_locator_def Let_def
  by (rule dds_same_checked; simp add: dds_same_def split: sum.split option.split)+

lemma dds_same_insertD:
  "insert_host a i db = (r, db') \<Longrightarrow> dds_same db db'" "insert_user a i db = (r, db') \<Longrightarrow> dds_same db db'"
  "insert_process a i db = (r, db') \<Longrightarrow> dds_same db db'" "insert_topic a i db = (r, db') \<Longrightarrow> dds_same db db'"
  "insert_locator a i db = (r, db') \<Longrightarrow> dds_same db db'"
  by (metis dds_same_inserts snd_conv)+

lemma dds_same_topic: "dds_same db (snd (insert_new_topic n ty alias d db))"
  by (auto simp: insert_new_topic_def Let_def dds_same_def split: sum.split prod.split dest!: dds_same_insertD)

lemma dds_same_locator: "dds_same db (snd (process_locator n db))"
  by (auto simp: process_locator_def Let_def dds_same_def emit_def split: sum.split list.split prod.split
      entity_ref.split option.split dest!: dds_same_insertD)

lemma dds_same_physical:
  "dds_same db (snd (physical_host n src db))" "dds_same db (snd (physical_user n src h db))"
  "dds_same db (snd (physical_process n p src u db))"
  by (auto simp: physical_host_def physical_user_def physical_process_def alloc_host_def alloc_user_def
      alloc_process_def free_host_def free_user_def free_process_def Let_def dds_same_def
      split: sum.split list.split prod.split entity_ref.split option.split dest!: dds_same_insertD)

lemma dds_same_type: "insert_new_type_idl n idl db = Some (r, db') \<Longrightarrow> dds_same db db'"
  by (auto dest!: insert_type_cases simp: dds_same_def)

locale creation_frame = update_frame R
  for R :: "'q database \<Rightarrow> 'q database \<Rightarrow> bool" +
  assumes dds_frame: "dds_same db db' \<Longrightarrow> R db db'"
begin

lemma keeps_topic [frame_intros]: "keeps R (insert_new_topic n ty alias d)"
  by (simp add: keeps_def dds_frame dds_same_topic)

lemma keeps_locator [frame_intros]: "keeps R (process_locator n)"
  by (simp add: keeps_def dds_frame dds_same_locator)

lemma keeps_locators [frame_intros]: "keeps R (process_locators ns ls)"
proof (induction ns arbitrary: ls)
  case Nil
  have "process_locators [] ls = act_return ls" by (rule ext) simp
  then show ?case by (simp add: keeps_return)
next
  case (Cons n ns)
  have "process_locators (n # ns) ls =
      act_bind (process_locator n) (\<lambda>(i, a). process_locators ns (om_put i a ls))" by (rule ext) simp
  then show ?case by (auto intro!: keeps_bind keeps_locator Cons.IH)
qed

lemma keeps_physical [frame_intros]:
  "keeps R (physical_host n src)" "keeps R (physical_user n src h)" "keeps R (physical_process n p src u)"
  by (simp_all add: keeps_def dds_frame dds_same_physical)

lemma physical_entities_frame:
  assumes "process_physical_entities_nts hname uname pname ppid src link i ids db = (r, l, ids', db')"
  shows "R db db'"
proof -
  obtain r1 db1 where h: "physical_host hname src db = (r1, db1)" by fastforce
  note R1 = keeps_then [OF frame_refl keeps_physical(1) h]
  have R2: "R db db2" if "physical_user uname src a db1 = (r2, db2)" for a r2 db2
    by (rule keeps_then [OF R1 keeps_physical(2) that])
  have R3: "R db db3" if "physical_user uname src a db1 = (r2, db2)" and "physical_process pname ppid src b db2 = (r3, db3)"
    for a b r2 db2 r3 db3
    by (rule keeps_then [OF R2 [OF that(1)] keeps_physical(3) that(2)])
  have R4: "R db db4" if "physical_user uname src a db1 = (r2, db2)" and "physical_process pname ppid src b db2 = (r3, db3)"
    and "link_participant_with_process_nts i j db3 = (r4, db4)" for a b r2 db2 r3 db3 j r4 db4
    by (rule keeps_then [OF R3 [OF that(1,2)] keeps_link that(3)])
  show ?thesis
    using assms h R1
    by (auto simp: process_physical_entities_nts_def Let_def split: sum.splits prod.splits if_splits)
      (blast intro: R2 R3 R4)+
qed

lemma keeps_physical_entities [frame_intros]: "keeps R (physical_entities_of i link info)"
  by (auto simp: keeps_def physical_entities_of_def split: sum.split prod.split dest: physical_entities_frame)

lemma keeps_get_topic [frame_intros]: "keeps R (get_or_create_topic info)"
  unfolding get_or_create_topic_def by (auto intro!: frame_intros)

lemma register_type_frame: "register_type info db = Some (r, db') \<Longrightarrow> R db db'"
  by (auto simp: register_type_def frame_refl dds_frame dest!: dds_same_type split: if_splits)

lemma keeps_update_known [frame_intros]: "keeps R (update_known_endpoint f k info)"
  unfolding update_known_endpoint_def by (auto intro!: frame_intros split: prod.split)

end

end
