(* ===== verification/QueueMonitor.thy ===== *)
theory QueueMonitor
  imports QueueEntities DbMonitor
begin

text \<open>
  Processing the reports of the monitor service:
  \<open>DatabaseDataQueue<ExtendedMonitorServiceStatusData>::process_sample\<close> with the overloads of
  \<open>process_sample_type\<close> (\<open>database_queue.cpp\<close>) and \<open>serialize_guid\<close> (\<open>database_queue.hpp\<close>). The calls of
  \<open>on_status_reported\<close> are events; what is pushed to the queue of entities is collected in \<open>pushed\<close>.
\<close>

section \<open>Reading a GUID\<close>

text \<open>
  \<open>std::stoul(s, nullptr, 16)\<close> as \<open>strtoul\<close> reads it: white space, a sign, \<open>0x\<close>, digits. No digits is
  \<open>std::invalid_argument\<close>, a value beyond 64 bits \<open>std::out_of_range\<close>; a minus negates modulo 2^64.
\<close>

definition hex_value :: "char \<Rightarrow> nat option" where
  "hex_value c =
     (let n = of_char c :: nat
      in if 48 \<le> n \<and> n \<le> 57 then Some (n - 48)
         else if 97 \<le> n \<and> n \<le> 102 then Some (n - 87)
         else if 65 \<le> n \<and> n \<le> 70 then Some (n - 55)
         else None)"

definition is_hex :: "char \<Rightarrow> bool" where
  "is_hex c \<longleftrightarrow> hex_value c \<noteq> None"

definition is_space :: "char \<Rightarrow> bool" where
  "is_space c \<longleftrightarrow> (let n = of_char c :: nat in n = 32 \<or> 9 \<le> n \<and> n \<le> 13)"

definition hex_number :: "string \<Rightarrow> nat" where
  "hex_number s = foldl (\<lambda>n c. 16 * n + the (hex_value c)) 0 (takeWhile is_hex s)"

definition skip_sign :: "string \<Rightarrow> bool \<times> string" where
  "skip_sign s =
     (case s of
        c # cs \<Rightarrow> if c = CHR ''-'' then (True, cs) else if c = CHR ''+'' then (False, cs) else (False, s)
      | [] \<Rightarrow> (False, s))"

definition skip_0x :: "string \<Rightarrow> string" where
  "skip_0x s =
     (case s of
        a # b # c # cs \<Rightarrow> if a = CHR ''0'' \<and> (b = CHR ''x'' \<or> b = CHR ''X'') \<and> is_hex c then c # cs else s
      | _ \<Rightarrow> s)"

definition stoul_hex :: "string \<Rightarrow> nat result" where
  "stoul_hex s =
     (let (neg, t) = skip_sign (dropWhile is_space s); t = skip_0x t
      in if takeWhile is_hex t = [] then Inl InvalidArgument
         else if 2 ^ 64 \<le> hex_number t then Inl InvalidArgument
         else Inr (if neg then (2 ^ 64 - hex_number t) mod 2 ^ 64 else hex_number t))"

text \<open>
  An input stream: the text that is left, and whether its end was met. \<open>std::getline(iss, b, c)\<close> reads up to
  the delimiter, which is dropped; once the end was met it leaves the string \<open>b\<close> as it is.
\<close>

type_synonym istringstream = "string \<times> bool"

definition getline :: "char \<Rightarrow> string \<Rightarrow> istringstream \<Rightarrow> string \<times> istringstream" where
  "getline c b iss =
     (let (s, ended) = iss; rest = dropWhile (\<lambda>x. x \<noteq> c) s
      in if ended then (b, iss) else (takeWhile (\<lambda>x. x \<noteq> c) s, drop 1 rest, rest = []))"

text \<open>The octets that are read, with the delimiters \<open>cs\<close>; \<open>b\<close> is the string of the previous one.\<close>

fun read_octets :: "char list \<Rightarrow> string \<Rightarrow> istringstream \<Rightarrow> (octet list \<times> string \<times> istringstream) result" where
  "read_octets [] b iss = Inr ([], b, iss)"
| "read_octets (c # cs) b iss =
     (let (b, iss) = getline c b iss
      in bind_result (stoul_hex b) (\<lambda>n.
         bind_result (read_octets cs b iss) (\<lambda>(bs, b, iss). Inr (of_nat n # bs, b, iss))))"

definition serialize_guid :: "string \<Rightarrow> GUID_s result" where
  "serialize_guid s =
     bind_result (read_octets (replicate 11 (CHR ''.'') @ [CHR ''|'']) [] (s, False)) (\<lambda>(prefix, b, iss).
     bind_result (read_octets (replicate 4 (CHR ''.'')) b iss) (\<lambda>(entity, b, iss).
       Inr \<lparr>guid_prefix = prefix, guid_entity = entity\<rparr>))"

section \<open>The reports\<close>

text \<open>
  The union of the status data with its discriminator \<open>status_kind\<close>: the generated classes keep the
  discriminator and the member in agreement.
\<close>

datatype StatusData =
    PROXY_STATUS "octet list"
  | CONNECTION_LIST_STATUS "Connection list"
  | INCOMPATIBLE_QOS_STATUS IncompatibleQoSStatus_s
  | INCONSISTENT_TOPIC_STATUS BaseStatus_s
  | LIVELINESS_LOST_STATUS BaseStatus_s
  | LIVELINESS_CHANGED_STATUS LivelinessChangedStatus_s
  | DEADLINE_MISSED_STATUS DeadlineMissedStatus_s
  | SAMPLE_LOST_STATUS BaseStatus_s
  | EXTENDED_INCOMPATIBLE_QOS_STATUS "ExtendedIncompatibleQoSStatus_s list"
  | STATUSES_SIZE_STATUS

record 'q ExtendedMonitorServiceStatusData =
  em_local_entity :: GUID_s
  em_value :: StatusData
  em_info :: "'q EntityDiscoveryInfo"
  em_optional_qos :: 'q
  em_instance_handle :: "octet list"

text \<open>The overloads of \<open>process_sample_type\<close>: the domain, the entity and the sample with its status.\<close>

definition status_type ::
  "fastdds \<Rightarrow> GUID_s \<Rightarrow> 's \<Rightarrow> ('q, EntityId \<times> EntityId \<times> 's) action" where
  "status_type f g s =
     act_with (\<lambda>db. get_entity_kind_by_guid f g) (\<lambda>k.
     act_bind (lookup_entity ''Entity'' k (deserialize_guid f g)) (\<lambda>(d, e). act_return (d, e, s)))"

definition proxy_sample_of :: "Timestamp \<Rightarrow> octet list \<Rightarrow> ProxySample" where
  "proxy_sample_of ts x = \<lparr>ms_kind = PROXY, ms_status = OK_STATUS, ms_ts = ts, ms_value = x\<rparr>"

definition connection_list_sample_of :: "Timestamp \<Rightarrow> Connection list \<Rightarrow> ConnectionListSample" where
  "connection_list_sample_of ts x =
     \<lparr>ms_kind = CONNECTION_LIST, ms_status = OK_STATUS, ms_ts = ts, ms_value = x\<rparr>"

definition incompatible_qos_sample_of :: "Timestamp \<Rightarrow> IncompatibleQoSStatus_s \<Rightarrow> IncompatibleQosSample" where
  "incompatible_qos_sample_of ts x =
     \<lparr>ms_kind = INCOMPATIBLE_QOS,
      ms_status = (if incompatible_total_count x \<noteq> 0 then ERROR_STATUS else OK_STATUS), ms_ts = ts, ms_value = x\<rparr>"

definition inconsistent_topic_sample_of :: "Timestamp \<Rightarrow> BaseStatus_s \<Rightarrow> InconsistentTopicSample" where
  "inconsistent_topic_sample_of ts x =
     \<lparr>ms_kind = INCONSISTENT_TOPIC, ms_status = OK_STATUS, ms_ts = ts, ms_value = x\<rparr>"

definition liveliness_lost_sample_of :: "Timestamp \<Rightarrow> BaseStatus_s \<Rightarrow> LivelinessLostSample" where
  "liveliness_lost_sample_of ts x =
     \<lparr>ms_kind = LIVELINESS_LOST, ms_status = (if total_count x \<noteq> 0 then WARNING_STATUS else OK_STATUS),
      ms_ts = ts, ms_value = x\<rparr>"

definition liveliness_changed_sample_of :: "Timestamp \<Rightarrow> LivelinessChangedStatus_s \<Rightarrow> LivelinessChangedSample" where
  "liveliness_changed_sample_of ts x =
     \<lparr>ms_kind = LIVELINESS_CHANGED, ms_status = OK_STATUS, ms_ts = ts, ms_value = x\<rparr>"

definition deadline_missed_sample_of :: "Timestamp \<Rightarrow> DeadlineMissedStatus_s \<Rightarrow> DeadlineMissedSample" where
  "deadline_missed_sample_of ts x =
     \<lparr>ms_kind = DEADLINE_MISSED, ms_status = (if deadline_total_count x \<noteq> 0 then WARNING_STATUS else OK_STATUS),
      ms_ts = ts, ms_value = x\<rparr>"

definition sample_lost_sample_of :: "Timestamp \<Rightarrow> BaseStatus_s \<Rightarrow> SampleLostSample" where
  "sample_lost_sample_of ts x =
     \<lparr>ms_kind = SAMPLE_LOST, ms_status = (if total_count x \<noteq> 0 then WARNING_STATUS else OK_STATUS),
      ms_ts = ts, ms_value = x\<rparr>"

definition extended_incompatible_qos_sample_of ::
  "Timestamp \<Rightarrow> ExtendedIncompatibleQoSStatus_s list \<Rightarrow> ExtendedIncompatibleQosSample" where
  "extended_incompatible_qos_sample_of ts x =
     \<lparr>ms_kind = EXTENDED_INCOMPATIBLE_QOS, ms_status = (if x = [] then OK_STATUS else ERROR_STATUS),
      ms_ts = ts, ms_value = x\<rparr>"

section \<open>Processing a report\<close>

text \<open>The entity whose node is to be updated, with its domain.\<close>

type_synonym updated = "(EntityId \<times> EntityId) option"

text \<open>The cases other than \<open>PROXY\<close>, in one \<open>try\<close>; a failure is logged.\<close>

definition store_status ::
  "('q, EntityId \<times> EntityId \<times> 's) action \<Rightarrow> ('s \<Rightarrow> monitor_object) \<Rightarrow> StatusKind \<Rightarrow> ('q, updated) action" where
  "store_status look wrap k db =
     (case act_bind look (\<lambda>(d, e, s).
        act_bind (insert_status d e (wrap s)) (\<lambda>b db.
          (Inr (if b then Some (d, e) else None), emit (StatusReported d e k) db))) db of
        (Inl e, db) \<Rightarrow> (if is_backend_exception e then Inr None else Inl e, db)
      | done \<Rightarrow> done)"

text \<open>
  The members of the queue: the participants that were enqueued, the GUID of each instance handle of a
  proxy, and what was pushed to the queue of the entities.
\<close>

record 'q monitor_queue =
  participant_enqueued :: "GUID_s list"
  proxy_entity_handles_to_guid :: "(octet list, string) omap"
  pushed :: "'q EntityDiscoveryInfo list"

definition empty_monitor_queue :: "'q monitor_queue" where
  "empty_monitor_queue = \<lparr>participant_enqueued = [], proxy_entity_handles_to_guid = [], pushed = []\<rparr>"

definition known_or :: "string \<Rightarrow> string" where
  "known_or s = (if s = [] then ''Unknown'' else s)"

text \<open>The placeholder of a participant whose endpoint arrived first; \<open>q\<close> is the empty document.\<close>

definition inferred_participant :: "'q \<Rightarrow> 'q EntityDiscoveryInfo \<Rightarrow> 'q EntityDiscoveryInfo" where
  "inferred_participant q info = (new_discovery_info q PARTICIPANT)\<lparr>
     di_discovery_status := DISCOVERY, di_domain_id := di_domain_id info, di_guid := di_participant_guid info,
     di_qos := di_qos info, di_participant_guid := di_participant_guid info,
     di_participant_name := ''Inferred Participant'', di_app_id := UNKNOWN_APP,
     di_host := known_or (di_host info), di_user := known_or (di_user info), di_process := known_or (di_process info),
     di_entity_status := di_entity_status info, di_discovery_source := INFERRED_SOURCE,
     di_original_domain_id := di_original_domain_id info\<rparr>"

text \<open>The handler of an exception: the discovery goes to the queue of the entities.\<close>

definition enqueue_proxy ::
  "fastdds \<Rightarrow> 'q \<Rightarrow> 'q ExtendedMonitorServiceStatusData \<Rightarrow> 'q monitor_queue \<Rightarrow> 'q monitor_queue" where
  "enqueue_proxy f q item mq =
     (let info = em_info item;
          handle = (\<lambda>g mq. mq\<lparr>proxy_entity_handles_to_guid :=
            om_put (em_instance_handle item) (show_guid f g) (proxy_entity_handles_to_guid mq)\<rparr>);
          push = (\<lambda>i mq. mq\<lparr>pushed := pushed mq @ [i]\<rparr>);
          mark = (\<lambda>g mq. mq\<lparr>participant_enqueued := g # participant_enqueued mq\<rparr>)
      in if di_kind info = PARTICIPANT
         then if di_participant_guid info \<notin> set (participant_enqueued mq)
              then push (info\<lparr>di_discovery_status := DISCOVERY\<rparr>) (handle (di_guid info) (mark (di_guid info) mq))
              else push (info\<lparr>di_discovery_status := UPDATE\<rparr>) (handle (di_guid info) mq)
         else if di_participant_guid info \<notin> set (participant_enqueued mq)
         then handle (di_guid info) (push info
                (handle (di_participant_guid info) (mark (di_participant_guid info)
                  (push (inferred_participant q info) mq))))
         else handle (di_guid info) (push info mq))"

text \<open>An undiscovery; the result says whether the case was left with \<open>return\<close>.\<close>

definition undiscover_proxy ::
  "fastdds \<Rightarrow> 'q ExtendedMonitorServiceStatusData \<Rightarrow> 'q monitor_queue \<Rightarrow> 'q database \<Rightarrow>
   updated result \<times> 'q monitor_queue \<times> 'q database" where
  "undiscover_proxy f item mq db =
     (case om_find (proxy_entity_handles_to_guid mq) (em_instance_handle item) of
        None \<Rightarrow> (Inr None, mq, db)
      | Some s \<Rightarrow>
          (let gone = mq\<lparr>proxy_entity_handles_to_guid :=
                 om_erase (em_instance_handle item) (proxy_entity_handles_to_guid mq)\<rparr>
           in case act_with (\<lambda>db. bind_result (serialize_guid s) (get_entity_kind_by_guid f)) (\<lambda>k.
                act_with (get_entity_by_guid_nts k s) (\<lambda>(d, e).
                act_bind (change_entity_status e False) (\<lambda>_. act_return (d, e)))) db of
               (Inl e, db) \<Rightarrow> if is_backend_exception e then (Inr None, gone, db) else (Inl e, mq, db)
             | (Inr p, db) \<Rightarrow> (Inr (Some p), gone, db)))"

text \<open>Whether the participant was updated, in which case its handle is stored.\<close>

definition update_proxy ::
  "fastdds \<Rightarrow> ('q \<Rightarrow> 'q \<Rightarrow> 'q) \<Rightarrow> 'q ExtendedMonitorServiceStatusData \<Rightarrow> EntityId \<Rightarrow> ('q, bool) action" where
  "update_proxy f merge item e =
     (let info = em_info item
      in act_bind (update_entity_qos_nts merge e (em_optional_qos item)) (\<lambda>_.
         if di_kind info = PARTICIPANT
         then act_with (\<lambda>db. get_entity_field e_discovery_source db e) (\<lambda>src.
           if src \<noteq> DISCOVERY_SOURCE
           then act_bind (update_participant_discovery_info_nts e (di_host info) (di_user info) (di_process info)
               (di_participant_name info) (di_qos info) (show_guid f (di_guid info)) (di_domain_id info)
               (di_entity_status info) (di_app_id info) (di_app_metadata info) (di_discovery_source info)
               (di_original_domain_id info)) (\<lambda>_. act_return True)
           else act_return False)
         else act_return False))"

definition report_proxy ::
  "fastdds \<Rightarrow> ('q \<Rightarrow> 'q \<Rightarrow> 'q) \<Rightarrow> 'q \<Rightarrow> Timestamp \<Rightarrow> 'q ExtendedMonitorServiceStatusData \<Rightarrow> octet list \<Rightarrow>
   'q monitor_queue \<Rightarrow> 'q database \<Rightarrow> updated result \<times> 'q monitor_queue \<times> 'q database" where
  "report_proxy f merge q ts item x mq db =
     (let handler = (\<lambda>upd e db. if is_backend_exception e then (Inr upd, enqueue_proxy f q item mq, db)
                                else (Inl e, mq, db))
      in case act_bind (status_type f (em_local_entity item) (proxy_sample_of ts x)) (\<lambda>(d, e, s).
           act_bind (insert_status d e (ProxyObject s)) (\<lambda>b. act_return (d, e, b))) db of
          (Inl e, db) \<Rightarrow> handler None e db
        | (Inr (d, e, b), db) \<Rightarrow>
            (let upd = (if b then Some (d, e) else None)
             in case update_proxy f merge item e db of
                 (Inl ex, db) \<Rightarrow> handler upd ex db
               | (Inr stored, db) \<Rightarrow>
                   (Inr upd,
                    if stored
                    then mq\<lparr>proxy_entity_handles_to_guid := om_put (em_instance_handle item)
                           (show_guid f (di_guid (em_info item))) (proxy_entity_handles_to_guid mq)\<rparr>
                    else mq,
                    emit (StatusReported d e PROXY) db)))"

definition process_status ::
  "fastdds \<Rightarrow> ('q \<Rightarrow> 'q \<Rightarrow> 'q) \<Rightarrow> 'q \<Rightarrow> Timestamp \<Rightarrow> 'q ExtendedMonitorServiceStatusData \<Rightarrow> 'q monitor_queue \<Rightarrow>
   'q database \<Rightarrow> updated result \<times> 'q monitor_queue \<times> 'q database" where
  "process_status f merge q ts item mq db =
     (let g = em_local_entity item;
          store = (\<lambda>m. case m db of (r, db) \<Rightarrow> (r, mq, db))
      in case em_value item of
          PROXY_STATUS x \<Rightarrow>
            if di_is_proxy_undiscovery (em_info item) then undiscover_proxy f item mq db
            else report_proxy f merge q ts item x mq db
        | CONNECTION_LIST_STATUS x \<Rightarrow> store (store_status
            (status_type f g (connection_list_sample_of ts x)) ConnectionListObject CONNECTION_LIST)
        | INCOMPATIBLE_QOS_STATUS x \<Rightarrow> store (store_status
            (status_type f g (incompatible_qos_sample_of ts x)) IncompatibleQosObject INCOMPATIBLE_QOS)
        | INCONSISTENT_TOPIC_STATUS x \<Rightarrow> store (store_status
            (status_type f g (inconsistent_topic_sample_of ts x)) InconsistentTopicObject INCONSISTENT_TOPIC)
        | LIVELINESS_LOST_STATUS x \<Rightarrow> store (store_status
            (status_type f g (liveliness_lost_sample_of ts x)) LivelinessLostObject LIVELINESS_LOST)
        | LIVELINESS_CHANGED_STATUS x \<Rightarrow> store (store_status
            (status_type f g (liveliness_changed_sample_of ts x)) LivelinessChangedObject LIVELINESS_CHANGED)
        | DEADLINE_MISSED_STATUS x \<Rightarrow> store (store_status
            (status_type f g (deadline_missed_sample_of ts x)) DeadlineMissedObject DEADLINE_MISSED)
        | SAMPLE_LOST_STATUS x \<Rightarrow> store (store_status
            (status_type f g (sample_lost_sample_of ts x)) SampleLostObject SAMPLE_LOST)
        | EXTENDED_INCOMPATIBLE_QOS_STATUS x \<Rightarrow> store (store_status
            (status_type f g (extended_incompatible_qos_sample_of ts x)) ExtendedIncompatibleQosObject
            EXTENDED_INCOMPATIBLE_QOS)
        | STATUSES_SIZE_STATUS \<Rightarrow> (Inr None, mq, db))"

definition process_monitor_sample ::
  "fastdds \<Rightarrow> ('q \<Rightarrow> 'q \<Rightarrow> 'q) \<Rightarrow> 'q \<Rightarrow> Timestamp \<Rightarrow> 'q ExtendedMonitorServiceStatusData \<Rightarrow> 'q monitor_queue \<Rightarrow>
   'q database \<Rightarrow> unit result \<times> 'q monitor_queue \<times> 'q database" where
  "process_monitor_sample f merge q ts item mq db =
     (case process_status f merge q ts item mq db of
        (Inl e, mq, db) \<Rightarrow> (Inl e, mq, db)
      | (Inr None, mq, db) \<Rightarrow> (Inr (), mq, db)
      | (Inr (Some (d, e)), mq, db) \<Rightarrow>
          (case act_bind (update_graph_on_updated_entity_nts d e) (announce_graph d) db of
             (r, db) \<Rightarrow> (r, mq, db)))"

end
