(* ===== verification/MonitorFrame.thy ===== *)
theory MonitorFrame
  imports CreationFrame QueueMonitor
begin

text \<open>
  What processing a report of the monitor service leaves alone: besides what \<open>update_frame\<close> covers, it
  changes the monitor data and the status of participants and endpoints, and merges into their quality
  of service.
\<close>

locale monitor_frame = update_frame R
  for R :: "'q database \<Rightarrow> 'q database \<Rightarrow> bool" +
  fixes merge :: "'q \<Rightarrow> 'q \<Rightarrow> 'q"
  assumes participant_monitor: "participant_objs db a = Some p \<Longrightarrow>
      R db (db\<lparr>participant_objs := (participant_objs db)(a \<mapsto> p\<lparr>dp_monitor := mp\<rparr>)\<rparr>)"
    and participant_qos: "participant_objs db a = Some p \<Longrightarrow>
      R db (db\<lparr>participant_objs := (participant_objs db)(a \<mapsto> p\<lparr>qos := merge (qos p) q\<rparr>)\<rparr>)"
    and reader_data: "reader_objs db a = Some x \<Longrightarrow>
      R db (db\<lparr>reader_objs := (reader_objs db)(a \<mapsto> x\<lparr>dr_monitor := mr, e_status := s, qos := q\<rparr>)\<rparr>)"
    and writer_data: "writer_objs db a = Some y \<Longrightarrow>
      R db (db\<lparr>writer_objs := (writer_objs db)(a \<mapsto> y\<lparr>dw_monitor := mw, e_status := s, qos := q\<rparr>)\<rparr>)"
begin

lemma reader_parts: "reader_objs db a = Some x \<Longrightarrow>
    R db (db\<lparr>reader_objs := (reader_objs db)(a \<mapsto> x\<lparr>dr_monitor := mr\<rparr>)\<rparr>) \<and>
    R db (db\<lparr>reader_objs := (reader_objs db)(a \<mapsto> x\<lparr>dr_monitor := mr, e_status := s\<rparr>)\<rparr>) \<and>
    R db (db\<lparr>reader_objs := (reader_objs db)(a \<mapsto> x\<lparr>qos := q\<rparr>)\<rparr>)"
  using reader_data [where x = x and s = "e_status x" and q = "qos x" and mr = mr]
    reader_data [where x = x and s = s and q = "qos x" and mr = mr]
    reader_data [where x = x and s = "e_status x" and q = q and mr = "dr_monitor x"] by simp

lemma writer_parts: "writer_objs db a = Some y \<Longrightarrow>
    R db (db\<lparr>writer_objs := (writer_objs db)(a \<mapsto> y\<lparr>dw_monitor := mw\<rparr>)\<rparr>) \<and>
    R db (db\<lparr>writer_objs := (writer_objs db)(a \<mapsto> y\<lparr>dw_monitor := mw, e_status := s\<rparr>)\<rparr>) \<and>
    R db (db\<lparr>writer_objs := (writer_objs db)(a \<mapsto> y\<lparr>qos := q\<rparr>)\<rparr>)"
  using writer_data [where y = y and s = "e_status y" and q = "qos y" and mw = mw]
    writer_data [where y = y and s = s and q = "qos y" and mw = mw]
    writer_data [where y = y and s = "e_status y" and q = q and mw = "dw_monitor y"] by simp

lemma keeps_store_participant [frame_intros]: "keeps R (store_participant_status get put s r)"
  by (cases r) (auto simp: keeps_def frame_refl store_participant_status_def intro: participant_monitor
      split: sum.split option.split)

lemma keeps_store_reader [frame_intros]: "keeps R (store_reader_status u get put s r)"
  by (cases r) (auto simp: keeps_def frame_refl store_reader_status_def update_reader_status_def Let_def split_beta
      dest: reader_parts split: sum.split option.split)

lemma keeps_store_writer [frame_intros]: "keeps R (store_writer_status u get put s r)"
  by (cases r) (auto simp: keeps_def frame_refl store_writer_status_def update_writer_status_def Let_def split_beta
      dest: writer_parts split: sum.split option.split)

lemma keeps_error: "keeps R (\<lambda>db. (Inl e, db))"
  by (simp add: keeps_def frame_refl)

lemma keeps_insert_statuses [frame_intros]:
  "keeps R (insert_proxy s1 k r)" "keeps R (insert_connection_list s2 k r)" "keeps R (insert_incompatible_qos s3 k r)"
  "keeps R (insert_inconsistent_topic s4 k r)" "keeps R (insert_liveliness_lost s5 k r)"
  "keeps R (insert_liveliness_changed s6 k r)" "keeps R (insert_deadline_missed s7 k r)"
  "keeps R (insert_sample_lost s8 k r)" "keeps R (insert_extended_incompatible_qos s9 k r)"
  unfolding insert_proxy_def insert_connection_list_def insert_incompatible_qos_def insert_inconsistent_topic_def
    insert_liveliness_lost_def insert_liveliness_changed_def insert_deadline_missed_def insert_sample_lost_def
    insert_extended_incompatible_qos_def
  by (auto intro!: keeps_store_participant keeps_store_reader keeps_store_writer keeps_error)

lemma keeps_insert_status [frame_intros]: "keeps R (insert_status d i ob)"
  unfolding keeps_def insert_status_def
  by (cases ob; cases "monitor_kind ob")
    (auto simp: frame_refl keepsD [OF keeps_insert_statuses(1)] keepsD [OF keeps_insert_statuses(2)]
      keepsD [OF keeps_insert_statuses(3)] keepsD [OF keeps_insert_statuses(4)]
      keepsD [OF keeps_insert_statuses(5)] keepsD [OF keeps_insert_statuses(6)]
      keepsD [OF keeps_insert_statuses(7)] keepsD [OF keeps_insert_statuses(8)]
      keepsD [OF keeps_insert_statuses(9)] split: sum.split)

lemma keeps_update_qos [frame_intros]: "keeps R (update_entity_qos_nts merge i q)"
  by (auto simp: keeps_def update_entity_qos_nts_def update_qos_of_def Let_def frame_refl participant_qos
      dest: reader_parts writer_parts split: sum.split entity_ref.split option.split)

lemma keeps_graph_on_updated [frame_intros]: "keeps R (update_graph_on_updated_entity_nts d i)"
  by (simp add: keeps_def update_graph_on_updated_entity_nts_def Let_def split_beta frame_refl
      keepsD [OF keeps_graph_updates(1)] keepsD [OF keeps_graph_updates(2)]
      split: sum.split option.split entity_ref.split)

lemma keeps_lookup [frame_intros]: "keeps R (lookup_entity what k g)"
  by (simp add: keeps_def lookup_entity_def frame_refl split: sum.split exn.split)

lemma keeps_status_type [frame_intros]: "keeps R (status_type f g s)"
  unfolding status_type_def by (auto intro!: frame_intros split: prod.split)

lemma keeps_store_status [frame_intros]:
  assumes "keeps R look"
  shows "keeps R (store_status look wrap k)"
proof -
  have "keeps R (act_bind look (\<lambda>(d, e, s). act_bind (insert_status d e (wrap s)) (\<lambda>b db.
          (Inr (if b then Some (d, e) else None), emit (StatusReported d e k) db))))"
    using assms by (auto intro!: frame_intros split: prod.split)
  note step = keepsD [OF this]
  show ?thesis
    unfolding keeps_def store_status_def
  proof
    fix db
    show "R db (snd (case act_bind look (\<lambda>(d, e, s). act_bind (insert_status d e (wrap s)) (\<lambda>b db.
          (Inr (if b then Some (d, e) else None), emit (StatusReported d e k) db))) db of
        (Inl e, db) \<Rightarrow> (if is_backend_exception e then Inr None else Inl e, db)
      | (Inr x, db) \<Rightarrow> (Inr x, db)))"
      using step [of db] by (auto split: prod.splits sum.splits)
  qed
qed

text \<open>The updates of the participant are left to the user of the lemma.\<close>

definition updates_kept :: "fastdds \<Rightarrow> 'q EntityDiscoveryInfo \<Rightarrow> bool" where
  "updates_kept f info \<longleftrightarrow> (\<forall>e. keeps R (update_participant_discovery_info_nts e (di_host info) (di_user info)
     (di_process info) (di_participant_name info) (di_qos info) (show_guid f (di_guid info)) (di_domain_id info)
     (di_entity_status info) (di_app_id info) (di_app_metadata info) (di_discovery_source info)
     (di_original_domain_id info)))"

lemma keeps_update_proxy:
  "updates_kept f (em_info item) \<Longrightarrow> keeps R (update_proxy f merge item e)"
  unfolding update_proxy_def Let_def
  by (auto intro!: frame_intros simp: updates_kept_def)

lemma undiscover_proxy_frame:
  assumes "undiscover_proxy f item mq db = (r, mq', db')"
  shows "R db db'"
proof -
  have "keeps R (act_with (\<lambda>db. bind_result (serialize_guid s) (get_entity_kind_by_guid f)) (\<lambda>k.
      act_with (get_entity_by_guid_nts k s) (\<lambda>(d, e). act_bind (change_entity_status e False) (\<lambda>_. act_return (d, e)))))" for s
    by (auto intro!: frame_intros split: prod.split)
  note step = keeps_then [OF frame_refl this]
  show ?thesis
    using assms by (auto simp: undiscover_proxy_def Let_def frame_refl split: option.splits prod.splits sum.splits if_splits
        dest: step)
qed

lemma report_proxy_frame:
  assumes up: "updates_kept f (em_info item)" and run: "report_proxy f merge q ts item x mq db = (r, mq', db')"
  shows "R db db'"
proof -
  define m :: "('q, EntityId \<times> EntityId \<times> bool) action"
    where "m = act_bind (status_type f (em_local_entity item) (proxy_sample_of ts x)) (\<lambda>(d, e, s).
    act_bind (insert_status d e (ProxyObject s)) (\<lambda>b. act_return (d, e, b)))"
  have m: "keeps R m" unfolding m_def by (auto intro!: frame_intros split: prod.split)
  obtain r1 db1 where 1: "m db = (r1, db1)" by fastforce
  have R1: "R db db1" using keepsD [OF m, of db] 1 by simp
  have R2: "R db db2" if "update_proxy f merge item e db1 = (r2, db2)" for e r2 db2
    by (rule keeps_then [OF R1 keeps_update_proxy [OF up] that])
  have R3: "R db (emit ev db2)" if "update_proxy f merge item e db1 = (r2, db2)" for e r2 db2 ev
    using emitted [OF R2 [OF that]] .
  show ?thesis
    using run 1 R1
    by (auto simp: report_proxy_def m_def [symmetric] Let_def split: sum.splits prod.splits if_splits
        intro: R2 R3)
qed

lemma status_frame:
  assumes "updates_kept f (em_info item)" and "process_status f merge q ts item mq db = (r, mq', db')"
  shows "R db db'"
proof -
  have st: "R db db'" if "(case store_status (status_type f g s) wrap k db of (r, db) \<Rightarrow> (r, mq, db)) = (r, mq', db')"
    for g wrap k and s :: 's
    using that keepsD [OF keeps_store_status [OF keeps_status_type], of db f g s wrap k] by (simp split: prod.splits)
  show ?thesis
    using assms report_proxy_frame [OF assms(1)] undiscover_proxy_frame
    by (cases "em_value item") (auto simp: process_status_def frame_refl split: if_splits dest: st)
qed

lemma monitor_sample_frame:
  assumes "updates_kept f (em_info item)" and run: "process_monitor_sample f merge q ts item mq db = (r, mq', db')"
  shows "R db db'"
proof -
  obtain r1 mq1 db1 where s: "process_status f merge q ts item mq db = (r1, mq1, db1)" by (metis prod_cases3)
  have "keeps R (act_bind (update_graph_on_updated_entity_nts d e) (announce_graph d))" for d e
    by (auto intro!: frame_intros)
  note step = frame_trans [OF status_frame [OF assms(1) s] keepsD [OF this]]
  show ?thesis
    using run s status_frame [OF assms(1) s] step
    by (auto simp: process_monitor_sample_def split: sum.splits option.splits prod.splits) (metis snd_conv)+
qed

end

end
