(* ===== verification/QueueSteps.thy ===== *)
theory QueueSteps
  imports MonitorFrame
begin

text \<open>
  The two consumer threads that share the database, as steps in any order: one processes the
  discoveries (\<open>DatabaseEntityQueue\<close>), the other the reports of the monitor service.
\<close>

interpretation shape_monitor: monitor_frame same_shape merge for merge :: "'a \<Rightarrow> 'a \<Rightarrow> 'a"
  by unfold_locales (auto simp: same_shape_def)

lemma shape_updates: "shape_monitor.updates_kept f info"
  unfolding shape_monitor.updates_kept_def by (intro allI keeps_shape_update)

lemma monitor_sample_shape:
  "process_monitor_sample f merge q ts item mq db = (r, mq', db') \<Longrightarrow> same_shape db db'"
  by (rule shape_monitor.monitor_sample_frame [OF shape_updates])

text \<open>
  \<open>E\<close> and \<open>M\<close> say which discoveries and reports may arrive. A discovery is processed while there are
  identifiers left for what it may create. A step is a whole \<open>process_sample\<close>; the code takes the mutex
  of the database for each call of it, so the interleavings within the processing of one element
  are not covered.
\<close>

definition identifiers_left :: "'q EntityDiscoveryInfo \<Rightarrow> 'q database \<Rightarrow> bool" where
  "identifiers_left info db \<longleftrightarrow> next_id db + locator_count (di_locators info) + 6 < 2 ^ 63"

inductive queue_step ::
  "fastdds \<Rightarrow> ('q \<Rightarrow> bool) \<Rightarrow> ('q \<Rightarrow> 'q \<Rightarrow> 'q) \<Rightarrow> 'q \<Rightarrow> ('q EntityDiscoveryInfo \<Rightarrow> bool) \<Rightarrow>
   ('q ExtendedMonitorServiceStatusData \<Rightarrow> bool) \<Rightarrow> 'q monitor_queue \<times> 'q database \<Rightarrow> 'q monitor_queue \<times> 'q database \<Rightarrow> bool"
  for f qe merge q E M
where
  entity_step: "process_entity_sample f qe info db = Some (r, db') \<Longrightarrow> identifiers_left info db \<Longrightarrow> E info \<Longrightarrow>
    queue_step f qe merge q E M (mq, db) (mq, db')"
| monitor_step: "process_monitor_sample f merge q ts item mq db = (r, mq', db') \<Longrightarrow> M item \<Longrightarrow>
    queue_step f qe merge q E M (mq, db) (mq', db')"

text \<open>A relation that each of the two steps allows holds across any number of them.\<close>

lemma queue_steps_keep:
  assumes "(queue_step f qe merge q E M)\<^sup>*\<^sup>* s s'"
    and refl: "\<And>db. R db db" and trans: "\<And>db db1 db2. R db db1 \<Longrightarrow> R db1 db2 \<Longrightarrow> R db db2"
    and entity: "\<And>info db r db'. process_entity_sample f qe info db = Some (r, db') \<Longrightarrow> identifiers_left info db \<Longrightarrow>
      E info \<Longrightarrow> R db db'"
    and monitor: "\<And>ts item mq db r mq' db'. process_monitor_sample f merge q ts item mq db = (r, mq', db') \<Longrightarrow>
      M item \<Longrightarrow> R db db'"
  shows "R (snd s) (snd s')"
  using assms(1)
proof (induction rule: rtranclp_induct)
  case base
  then show ?case by (simp add: refl)
next
  case (step y z)
  from step.hyps(2) have "R (snd y) (snd z)"
    by (induction rule: queue_step.induct) (auto intro: entity monitor)
  with step.IH show ?case by (rule trans)
qed

definition database_goes_on :: "'q database \<Rightarrow> 'q database \<Rightarrow> bool" where
  "database_goes_on db db' \<longleftrightarrow>
     (database_ready db \<longrightarrow> database_ready db' \<and> set (entity_ids db) \<subseteq> set (entity_ids db'))"

text \<open>
  C36: whatever discoveries and reports the two queues process, in whatever order and whether their
  steps succeed or throw at any point, every collection stays well-formed and the owner of its objects,
  all identifiers stay distinct and below the counter, and no entity is lost.
\<close>

theorem queues_keep_database:
  assumes "(queue_step f qe merge q E M)\<^sup>*\<^sup>* (mq, db) (mq', db')" and "database_ready db"
  shows "database_ready db' \<and> set (entity_ids db) \<subseteq> set (entity_ids db')"
proof -
  have "database_goes_on (snd (mq, db)) (snd (mq', db'))"
  proof (rule queue_steps_keep [OF assms(1)])
    show "database_goes_on db1 db2"
      if "process_entity_sample f qe info db1 = Some (r, db2)" "identifiers_left info db1" for info db1 r db2
      using entity_sample_ready [OF _ _ that(1)] that(2) by (simp add: database_goes_on_def identifiers_left_def)
    show "database_goes_on db1 db2" if "process_monitor_sample f merge q ts item mq1 db1 = (r, mq2, db2)"
      for ts item mq1 db1 r mq2 db2
      using same_shape_grown [OF _ monitor_sample_shape [OF that]] by (simp add: database_goes_on_def grown_def)
  qed (auto simp: database_goes_on_def)
  then show ?thesis using assms(2) by (simp add: database_goes_on_def)
qed

text \<open>The discovery of a participant, and a report of the monitor service on it.\<close>

lemma participant_discovery_ends:
  "di_kind info = PARTICIPANT \<Longrightarrow> \<exists>r db'. process_entity_sample f qos_empty info db = Some (r, db')"
  by (cases "process_participant f qos_empty info db")
    (simp add: process_entity_sample_def process_discovery_def split: sum.split)

definition example_proxy :: "unit ExtendedMonitorServiceStatusData" where
  "example_proxy = \<lparr>em_local_entity = example_participant_guid, em_value = PROXY_STATUS [],
     em_info = example_participant\<lparr>di_participant_name := ''other'', di_discovery_source := PROXY_SOURCE\<rparr>,
     em_optional_qos = (), em_instance_handle = []\<rparr>"

lemma example_steps:
  "\<exists>mq' db'. (queue_step example_fastdds (\<lambda>_. False) (\<lambda>a b. b) () (\<lambda>i. i = example_participant) (\<lambda>m. m = example_proxy))\<^sup>*\<^sup>*
     (empty_monitor_queue, example_discovery_db) (mq', db')"
proof -
  let ?step = "queue_step example_fastdds (\<lambda>_. False) (\<lambda>a b. b) () (\<lambda>i. i = example_participant) (\<lambda>m. m = example_proxy)"
  obtain r db1 where d: "process_entity_sample example_fastdds (\<lambda>_. False) example_participant example_discovery_db = Some (r, db1)"
    using participant_discovery_ends [OF example_participant_kind] by blast
  have "identifiers_left example_participant example_discovery_db"
    by (simp add: identifiers_left_def example_discovery_db_def example_participant_def new_discovery_info_def locator_count_def)
  then have 1: "?step (empty_monitor_queue, example_discovery_db) (empty_monitor_queue, db1)"
    by (rule entity_step [OF d]) simp
  obtain r2 mq2 db2 where m: "process_monitor_sample example_fastdds (\<lambda>a b. b) () 5 example_proxy empty_monitor_queue db1 =
      (r2, mq2, db2)" by (metis prod_cases3)
  have 2: "?step (empty_monitor_queue, db1) (mq2, db2)" by (rule monitor_step [OF m]) simp
  show ?thesis using rtranclp_trans [OF r_into_rtranclp [of ?step, OF 1] r_into_rtranclp [of ?step, OF 2]] by blast
qed

theorem queues_keep_database_witness:
  "\<exists>mq' db'. (queue_step example_fastdds (\<lambda>_. False) (\<lambda>a b. b) () (\<lambda>i. i = example_participant) (\<lambda>m. m = example_proxy))\<^sup>*\<^sup>*
     (empty_monitor_queue, example_discovery_db) (mq', db') \<and> database_ready db' \<and> EntityId 0 \<in> set (entity_ids db')"
proof -
  obtain mq' db' where s: "(queue_step example_fastdds (\<lambda>_. False) (\<lambda>a b. b) () (\<lambda>i. i = example_participant)
      (\<lambda>m. m = example_proxy))\<^sup>*\<^sup>* (empty_monitor_queue, example_discovery_db) (mq', db')"
    using example_steps by blast
  have "EntityId 0 \<in> set (entity_ids example_discovery_db)"
    by (simp add: entity_ids_def example_discovery_db_def keys_in_def)
  with queues_keep_database [OF s example_discovery_ready] s show ?thesis by blast
qed

end
