(* ===== verification/DiscoveryTrust.thy ===== *)
theory DiscoveryTrust
  imports QueueSteps
begin

text \<open>
  The sources of a discovery and their order of trust: what discovery itself said of a participant is
  not overwritten by what the monitor service or an inference says.
\<close>

section \<open>The order of the sources\<close>

definition trust_level :: "DiscoverySource \<Rightarrow> nat" where
  "trust_level s = (case s of DISCOVERY_SOURCE \<Rightarrow> 3 | PROXY_SOURCE \<Rightarrow> 2 | INFERRED_SOURCE \<Rightarrow> 1 | UNKNOWN_SOURCE \<Rightarrow> 0)"

lemma update_enabled_trust: "update_enabled old new \<longleftrightarrow> trust_level old \<le> trust_level new"
  by (cases old; cases new) (simp_all add: trust_level_def)

text \<open>What a discovery says of a participant, but for the quality of service.\<close>

definition participant_identity ::
  "'q DomainParticipant \<Rightarrow> string \<times> string \<times> string \<times> AppId \<times> string \<times> StatusLevel \<times> DiscoverySource \<times> 32 word" where
  "participant_identity x =
     (e_name x, e_alias x, guid x, app_id x, app_metadata x, e_status x, e_discovery_source x, dp_original_domain x)"

text \<open>The quality of service is a result of merging into the one before, any number of times.\<close>

definition merged_from :: "('q \<Rightarrow> 'q \<Rightarrow> 'q) \<Rightarrow> 'q \<Rightarrow> 'q \<Rightarrow> bool" where
  "merged_from merge = (\<lambda>a b. \<exists>v. b = merge a v)\<^sup>*\<^sup>*"

lemma merged_from_refl [simp]: "merged_from merge q q"
  by (simp add: merged_from_def)

lemma merged_from_trans: "merged_from merge p q \<Longrightarrow> merged_from merge q r \<Longrightarrow> merged_from merge p r"
  unfolding merged_from_def by (rule rtranclp_trans)

lemma merged_from_merge [simp]: "merged_from merge q (merge q v)"
  unfolding merged_from_def by (rule r_into_rtranclp) blast

text \<open>What stays of a participant.\<close>

definition same_participant :: "('q \<Rightarrow> 'q \<Rightarrow> 'q) \<Rightarrow> 'q DomainParticipant \<Rightarrow> 'q DomainParticipant \<Rightarrow> bool" where
  "same_participant merge x y \<longleftrightarrow>
     participant_identity y = participant_identity x \<and> merged_from merge (qos x) (qos y)"

definition trusted_kept :: "('q \<Rightarrow> 'q \<Rightarrow> 'q) \<Rightarrow> 'q database \<Rightarrow> 'q database \<Rightarrow> bool" where
  "trusted_kept merge db db' \<longleftrightarrow> next_addr db \<le> next_addr db' \<and>
     (\<forall>a x. a < next_addr db \<and> participant_objs db a = Some x \<and> e_discovery_source x = DISCOVERY_SOURCE \<longrightarrow>
        (\<exists>y. participant_objs db' a = Some y \<and> same_participant merge x y))"

lemma same_participant_refl [simp]: "same_participant merge x x"
  by (simp add: same_participant_def)

lemma same_participant_trans:
  "same_participant merge x y \<Longrightarrow> same_participant merge y z \<Longrightarrow> same_participant merge x z"
  by (auto simp: same_participant_def intro: merged_from_trans)

lemma same_participant_source: "same_participant merge x y \<Longrightarrow> e_discovery_source y = e_discovery_source x"
  by (simp add: same_participant_def participant_identity_def)

lemma trusted_kept_refl [simp]: "trusted_kept merge db db"
  by (simp add: trusted_kept_def)

lemma trusted_kept_trans:
  assumes "trusted_kept merge db db1" and "trusted_kept merge db1 db2"
  shows "trusted_kept merge db db2"
  unfolding trusted_kept_def
proof (intro conjI allI impI)
  show "next_addr db \<le> next_addr db2" using assms by (simp add: trusted_kept_def)
  fix a x
  assume x: "a < next_addr db \<and> participant_objs db a = Some x \<and> e_discovery_source x = DISCOVERY_SOURCE"
  then obtain y where y: "participant_objs db1 a = Some y" "same_participant merge x y" "a < next_addr db1"
    using assms(1) by (force simp: trusted_kept_def)
  then obtain z where "participant_objs db2 a = Some z" "same_participant merge y z"
    using assms(2) x same_participant_source [OF y(2)] by (force simp: trusted_kept_def)
  then show "\<exists>z. participant_objs db2 a = Some z \<and> same_participant merge x z"
    using same_participant_trans [OF y(2)] by blast
qed

lemma trusted_kept_update:
  assumes "\<And>x. participant_objs db a = Some x \<Longrightarrow> e_discovery_source x = DISCOVERY_SOURCE \<Longrightarrow>
      same_participant merge x (f x)"
    and "next_addr db \<le> next_addr db'" and "participant_objs db' = obj_update a f (participant_objs db)"
  shows "trusted_kept merge db db'"
  using assms by (auto simp: trusted_kept_def obj_update_apply)

lemma trusted_kept_same:
  "next_addr db \<le> next_addr db' \<Longrightarrow> participant_objs db' = participant_objs db \<Longrightarrow> trusted_kept merge db db'"
  by (simp add: trusted_kept_def)

lemma trusted_kept_beyond:
  assumes "next_addr db \<le> next_addr db'" and "\<And>a. a < next_addr db \<Longrightarrow> participant_objs db' a = participant_objs db a"
  shows "trusted_kept merge db db'"
  using assms by (simp add: trusted_kept_def)

interpretation trust: creation_frame "trusted_kept merge" for merge :: "'a \<Rightarrow> 'a \<Rightarrow> 'a"
proof unfold_locales
  show "trusted_kept merge db db2" if "trusted_kept merge db db1" "trusted_kept merge db1 db2" for db db1 db2 :: "'a database"
    using that by (rule trusted_kept_trans)
  show "trusted_kept merge db (db\<lparr>participant_objs := obj_update a (set_active b) (participant_objs db)\<rparr>)"
    "trusted_kept merge db (db\<lparr>participant_objs := obj_update a (\<lambda>x. x\<lparr>dp_process := None\<rparr>) (participant_objs db)\<rparr>)"
    "trusted_kept merge db (db\<lparr>participant_objs := obj_update a (\<lambda>p. p\<lparr>dp_process := Some c\<rparr>) (participant_objs db),
        process_objs := obj_update c (\<lambda>pr. pr\<lparr>p_participants := om_put i a (p_participants pr)\<rparr>) (process_objs db)\<rparr>)"
    for db :: "'a database" and a b c i
    by (rule trusted_kept_update [where a = a]; simp add: same_participant_def participant_identity_def set_active_def)+
qed (auto intro!: trusted_kept_same simp: emit_def set_active_def same_participant_def participant_identity_def
    ec_update_def reader_class_def writer_class_def dds_same_def)

abbreviation keeps_trust :: "('q \<Rightarrow> 'q \<Rightarrow> 'q) \<Rightarrow> ('q, 'a) action \<Rightarrow> bool" where
  "keeps_trust merge \<equiv> keeps (trusted_kept merge)"

section \<open>The queue of the entities\<close>

lemma insert_participant_objs:
  assumes "insert_participant qe a i db = (r, db')"
  shows "next_addr db' = next_addr db" "b \<noteq> a \<Longrightarrow> participant_objs db' b = participant_objs db b"
  using assms by (auto simp: insert_participant_def checked_insert_def assign_entity_id_def generate_entity_id_def
      Let_def obj_update_apply split: option.splits sum.splits prod.splits if_splits)

lemma trust_new_participant [frame_intros]:
  "keeps_trust merge (insert_new_participant qe n q g d st app meta src orig)"
  by (auto simp: keeps_def insert_new_participant_def Let_def insert_participant_objs split: sum.split prod.split
      intro!: trusted_kept_beyond dest: insert_participant_objs)

definition endpoint_store :: "('q, 'e) endpoint_class \<Rightarrow> bool" where
  "endpoint_store C \<longleftrightarrow> (\<forall>(db :: 'q database) c h.
     participant_objs (ec_set_objs C h db) = participant_objs db \<and>
     participant_objs (ec_set_coll C c db) = participant_objs db \<and>
     next_addr (ec_set_objs C h db) = next_addr db \<and> next_addr (ec_set_coll C c db) = next_addr db) \<and>
     (\<forall>i a (p :: 'q DomainParticipant). participant_identity (ec_add_participant C i a p) = participant_identity p \<and>
       qos (ec_add_participant C i a p) = qos p)"

lemma endpoint_stores: "endpoint_store reader_class" "endpoint_store writer_class"
  by (simp_all add: endpoint_store_def reader_class_def writer_class_def participant_identity_def)

lemma trust_link_locators: "endpoint_store C \<Longrightarrow> keeps_trust merge (link_locators C a i ls)"
  unfolding keeps_def
proof (intro allI, induction ls)
  case (Cons e ls)
  obtain k b where e: "e = (k, b)" by fastforce
  have "trusted_kept merge db (ec_update C a g (db\<lparr>locator_objs := h\<rparr>))" for g h and db :: "'a database"
    using Cons.prems by (intro trusted_kept_same) (simp_all add: endpoint_store_def ec_update_def)
  from trusted_kept_trans [OF this Cons.IH [OF Cons.prems]] show ?case by (simp add: e)
qed simp

lemma trust_link_endpoint: 
  assumes C: "endpoint_store C"
  shows "keeps_trust merge (link_endpoint C a i e)"
  unfolding keeps_def
proof
  fix db :: "'a database"
  define db1 where "db1 = db\<lparr>participant_objs := obj_update (the (ep_participant e))
    (\<lambda>p. let p = ec_add_participant C i a p
       in if is_virtual_metatraffic e then p\<lparr>meta_traffic_endpoint := Some (ec_ref C a)\<rparr> else p)
    (participant_objs db)\<rparr>"
  have id: "participant_identity (p\<lparr>meta_traffic_endpoint := m\<rparr>) = participant_identity p" for p :: "'a DomainParticipant" and m
    by (simp add: participant_identity_def)
  have 1: "trusted_kept merge db db1"
    unfolding db1_def by (rule trusted_kept_update [where a = "the (ep_participant e)"])
      (use C in \<open>simp_all add: endpoint_store_def Let_def id same_participant_def\<close>)
  have 2: "trusted_kept merge db2 (ec_update C a g db2)" for g db2
    using C by (intro trusted_kept_same) (simp_all add: endpoint_store_def ec_update_def)
  have 3: "trusted_kept merge db2 (ec_set_coll C c (db2\<lparr>topic_objs := h\<rparr>))" for c h db2
    using C by (intro trusted_kept_same) (simp_all add: endpoint_store_def)
  have 4: "trusted_kept merge db db3" if "link_locators C a i ls (ec_update C a g db1) = (r, db3)" for ls g r db3
    using trusted_kept_trans [OF trusted_kept_trans [OF 1 2] keepsD [OF trust_link_locators [OF C]]] that
    by (metis snd_conv)
  have 5: "trusted_kept merge db (ec_set_coll C c (db3\<lparr>topic_objs := h\<rparr>))"
    if "link_locators C a i ls (ec_update C a g db1) = (r, db3)" for ls g r db3 c h
    using trusted_kept_trans [OF 4 [OF that] 3] .
  show "trusted_kept merge db (snd (link_endpoint C a i e db))"
    unfolding link_endpoint_def Let_def db1_def [symmetric, unfolded Let_def]
    using 1 by (auto simp: act_bind_def split: sum.split prod.split intro: 4 5)
qed

lemma trust_insert_endpoint:
  assumes C: "endpoint_store C"
  shows "keeps_trust merge (insert_endpoint C qe a i)"
  unfolding keeps_def
proof
  fix db :: "'a database"
  define db0 where "db0 = ec_update C a (ec_clear C) db"
  have up: "trusted_kept merge db1 (ec_update C a g db1)" for g db1
    using C by (intro trusted_kept_same) (simp_all add: endpoint_store_def ec_update_def)
  obtain j db1 where as: "assign_entity_id i db0 = (j, db1)" by fastforce
  then obtain n where n: "db1 = db0\<lparr>next_id := n\<rparr>" using assign_entity_id_state by blast
  have "trusted_kept merge db0 db1" using n by (intro trusted_kept_same) simp_all
  from trusted_kept_trans [OF up [of db "ec_clear C", folded db0_def] trusted_kept_trans [OF this up]]
  have "trusted_kept merge db (snd (link_endpoint C a j e (ec_update C a (\<lambda>x. x\<lparr>e_id := j\<rparr>) db1)))" for e
    using trusted_kept_trans keepsD [OF trust_link_endpoint [OF C]] by blast
  then show "trusted_kept merge db (snd (insert_endpoint C qe a i db))"
    using as up [of db "ec_clear C"]
    by (simp add: insert_endpoint_def insert_ddsendpoint_nts_def checked_insert_def db0_def [symmetric] split: option.split)
qed

lemma trust_insert_created:
  assumes C: "endpoint_store C"
  shows "keeps_trust merge (insert_created C qe e)"
  unfolding keeps_def
proof
  fix db :: "'a database"
  let ?db1 = "ec_set_objs C ((ec_objs C db)(next_addr db \<mapsto> e))
    (db\<lparr>next_addr := Suc (next_addr db)\<rparr>)"
  have "trusted_kept merge db ?db1" using C by (intro trusted_kept_same) (simp_all add: endpoint_store_def)
  then have 1: "trusted_kept merge db db2" if "insert_endpoint C qe (next_addr db) invalid_id ?db1 = (r, db2)" for r db2
    using trusted_kept_trans keepsD [OF trust_insert_endpoint [OF C]] that by (metis snd_conv)
  have "trusted_kept merge db2 (ec_set_objs C h db2)" for h db2
    using C by (intro trusted_kept_same) (simp_all add: endpoint_store_def)
  then have 2: "trusted_kept merge db (ec_set_objs C h db2)"
    if "insert_endpoint C qe (next_addr db) invalid_id ?db1 = (r, db2)" for r db2 h
    using trusted_kept_trans [OF 1 [OF that]] by blast
  show "trusted_kept merge db (snd (insert_created C qe e db))"
    by (auto simp: insert_created_def Let_def split: sum.split prod.split intro: 1 2)
qed

lemma trust_new_endpoint [frame_intros]:
  "keeps_trust merge (insert_new_endpoint f qe g n alias q virt locs k p t app src orig)"
proof -
  have "keeps_trust merge (act_bind (process_locators names []) (\<lambda>ls.
      if k = DATAREADER then insert_created reader_class qe (x ls) else insert_created writer_class qe (y ls)))"
    for names x y
    by (auto intro!: frame_intros trust_insert_created endpoint_stores)
  from keepsD [OF this] show ?thesis
    by (simp add: keeps_def insert_new_endpoint_def Let_def split: sum.split)
qed

lemma trust_update:
  assumes "src \<noteq> DISCOVERY_SOURCE"
  shows "keeps_trust merge (update_participant_discovery_info_nts i hname uname proc n q g d st app meta src orig)"
proof (rule trust.keeps_participant_update)
  fix a x and db :: "'a database"
  assume "participant_objs db a = Some x" "update_enabled (e_discovery_source x) src"
  then have "e_discovery_source y \<noteq> DISCOVERY_SOURCE" if "participant_objs db a = Some y" for y
    using that assms by auto
  then show "trusted_kept merge db (db\<lparr>participant_objs := obj_update a
      (update_participant_data n q g st app meta src orig) (participant_objs db)\<rparr>)"
    by (intro trusted_kept_update [where a = a]) auto
qed

text \<open>A discovery that may not overwrite.\<close>

definition cautious :: "'q EntityDiscoveryInfo \<Rightarrow> bool" where
  "cautious info \<longleftrightarrow> di_discovery_status info \<noteq> UPDATE \<or> di_discovery_source info \<noteq> DISCOVERY_SOURCE"

lemma trust_find_or_insert:
  assumes "cautious info"
  shows "keeps_trust merge (find_or_insert_participant f qe info)"
proof -
  define m where "m = act_with (get_entity_by_guid_nts PARTICIPANT (show_guid f (di_guid info))) (\<lambda>(d, i).
        act_bind (change_entity_status i (di_discovery_status info \<noteq> UNDISCOVERY)) (\<lambda>_.
        if di_discovery_status info = UPDATE
        then act_bind (update_participant_discovery_info_nts i (di_host info) (di_user info) (di_process info)
               (di_participant_name info) (di_qos info) (show_guid f (di_guid info)) (di_domain_id info)
               (di_entity_status info) (di_app_id info) (di_app_metadata info) (di_discovery_source info)
               (di_original_domain_id info)) (\<lambda>_. act_return (i, False))
        else act_return (i, False)))"
  have m: "keeps_trust merge m"
  proof (cases "di_discovery_status info = UPDATE")
    case True
    then have "di_discovery_source info \<noteq> DISCOVERY_SOURCE" using assms by (simp add: cautious_def)
    then show ?thesis unfolding m_def by (auto intro!: frame_intros trust_update split: prod.split)
  qed (auto simp: m_def intro!: frame_intros split: prod.split)
  have ins: "keeps_trust merge (act_bind (insert_new_participant qe n (di_qos info) (show_guid f (di_guid info))
         (di_domain_id info) (di_entity_status info) (di_app_id info) (di_app_metadata info)
         (di_discovery_source info) (di_original_domain_id info)) (\<lambda>i. act_return (i, True)))" for n
    by (auto intro!: frame_intros)
  have "trusted_kept merge db (snd (find_or_insert_participant f qe info db))" for db
    using keepsD [OF m, of db] trusted_kept_trans [OF keepsD [OF m, of db] keepsD [OF ins]]
    by (auto simp: find_or_insert_participant_def m_def [symmetric] Let_def split: sum.split prod.split exn.split)
  then show ?thesis by (simp add: keeps_def)
qed

lemma trust_process_participant: "cautious info \<Longrightarrow> keeps_trust merge (process_participant f qe info)"
  unfolding process_participant_def by (auto intro!: frame_intros trust_find_or_insert split: prod.split)

lemma trust_create_discovered: "keeps_trust merge (create_discovered f qe info p t)"
  unfolding create_discovered_def by (auto intro!: frame_intros)

lemma trust_endpoint_discovery:
  assumes "process_endpoint_discovery f qe info db = Some (r, db')"
  shows "trusted_kept merge db db'"
proof -
  define m :: "('a, EntityId \<times> EntityId) action"
    where "m = act_with (endpoint_participant f '' discovered on Participant '' info) (\<lambda>(d, p).
      act_bind (get_or_create_topic info) (\<lambda>t. act_return (p, t)))"
  have m: "keeps_trust merge m" unfolding m_def by (auto intro!: frame_intros split: prod.split)
  obtain r1 db1 where 1: "m db = (r1, db1)" by fastforce
  note R1 = trust.keeps_then [OF trusted_kept_refl m 1]
  have R2: "trusted_kept merge db db2" if "register_type info db1 = Some (r2, db2)" for r2 db2
    using trusted_kept_trans [OF R1 trust.register_type_frame [OF that]] .
  have R3: "trusted_kept merge db db3"
    if "register_type info db1 = Some (r2, db2)" and "create_discovered f qe info p t db2 = (r3, db3)" for r2 db2 p t r3 db3
    by (rule trust.keeps_then [OF R2 [OF that(1)] trust_create_discovered that(2)])
  show ?thesis
    using assms 1 R1
    by (auto simp: process_endpoint_discovery_def m_def [symmetric] split: sum.splits option.splits)
      (use R2 R3 in \<open>blast+\<close>)
qed

lemma trust_process_endpoint:
  assumes "process_endpoint f qe k what info db = Some (r, db')"
  shows "trusted_kept merge db db'"
proof -
  obtain r1 db1 where 1: "update_known_endpoint f k info db = (r1, db1)" by fastforce
  note R1 = trust.keeps_then [OF trusted_kept_refl trust.keeps_update_known 1]
  show ?thesis
    using assms 1 R1 trusted_kept_trans [OF R1 trust_endpoint_discovery]
    by (auto simp: process_endpoint_def split: sum.splits exn.splits if_splits)
qed

lemma trust_entity_sample:
  assumes "cautious info" and run: "process_entity_sample f qe info db = Some (r, db')"
  shows "trusted_kept merge db db'"
proof -
  obtain r1 db1 where 1: "process_discovery f qe info db = Some (r1, db1)"
    using run unfolding process_entity_sample_def by (auto split: option.splits)
  have "trusted_kept merge db db1"
    using 1 trust_process_endpoint trust.keeps_then [OF trusted_kept_refl trust_process_participant [OF assms(1)]]
    by (cases "di_kind info") (auto simp: process_discovery_def process_datareader_def process_datawriter_def)
  then show ?thesis
    using run 1 trust.emitted by (auto simp: process_entity_sample_def split: sum.splits)
qed

section \<open>The queue of the monitor service\<close>

interpretation trust_monitor: monitor_frame "trusted_kept merge" merge for merge :: "'a \<Rightarrow> 'a \<Rightarrow> 'a"
  by unfold_locales (auto intro!: trusted_kept_same trusted_kept_update simp: trusted_kept_def same_participant_def participant_identity_def)

lemma trust_updates:
  "di_discovery_source info \<noteq> DISCOVERY_SOURCE \<Longrightarrow> trust_monitor.updates_kept merge f info"
  by (simp add: trust_monitor.updates_kept_def trust_update)

section \<open>Both queues\<close>

text \<open>
  C37: what discovery said of a participant stays: whatever the monitor service, inferences and further
  discoveries report, in whatever order, its name, alias, GUID, status level, application data, source
  and original domain are not overwritten, it is never destroyed, and its quality of service changes
  only by documents of the monitor service merged into it. At any time an update of it from a source
  other than discovery changes nothing at all in the database. The updates that come from discovery
  itself are excepted. Whether the participant is active, its monitor data, its statistics and its
  process (which is linked once it is known) are not part of the claim.
\<close>

theorem discovered_participants_trusted:
  assumes steps: "(queue_step f qe merge q cautious (\<lambda>item. di_discovery_source (em_info item) \<noteq> DISCOVERY_SOURCE))\<^sup>*\<^sup>*
      (mq, db) (mq', db')"
    and "fresh_stores db" and x: "participant_objs db a = Some x" "e_discovery_source x = DISCOVERY_SOURCE"
  shows "(\<exists>y. participant_objs db' a = Some y \<and> participant_identity y = participant_identity x \<and>
      merged_from merge (qos x) (qos y)) \<and>
    (get_mutable_entity_nts db' i = Inr (ParticipantRef a) \<and> src \<noteq> DISCOVERY_SOURCE \<longrightarrow>
      update_participant_discovery_info_nts i hname uname proc n qu g d st app meta src orig db' = (Inr False, db'))"
proof -
  have "trusted_kept merge (snd (mq, db)) (snd (mq', db'))"
    by (rule queue_steps_keep [OF steps])
      (auto intro: trusted_kept_trans trust_entity_sample trust_monitor.monitor_sample_frame [OF trust_updates])
  moreover have "a < next_addr db" using assms(2) x(1) by (metis fresh_stores_def not_le option.distinct(1))
  ultimately obtain y where y: "participant_objs db' a = Some y" "same_participant merge x y"
    using x by (auto simp: trusted_kept_def)
  have "\<not> update_enabled (e_discovery_source y) src" if "src \<noteq> DISCOVERY_SOURCE"
    using that same_participant_source [OF y(2)] x(2) by (cases src) simp_all
  then show ?thesis
    using y by (auto simp: same_participant_def update_participant_discovery_info_nts_def)
qed

text \<open>A database with a discovered participant.\<close>

definition example_trusted_db :: "unit database" where
  "example_trusted_db = example_discovery_db\<lparr>next_id := 2, next_addr := 2,
     participants := [(EntityId 0, [(EntityId 1, 1)])],
     participant_objs := [1 \<mapsto> (new_participant ''dp'' () (show_guid example_fastdds example_participant_guid) None
       (Some 0) OK_STATUS UNKNOWN_APP [] DISCOVERY_SOURCE UNKNOWN_DOMAIN_ID)\<lparr>e_id := EntityId 1\<rparr>]\<rparr>"

lemma example_trusted_participant:
  "\<exists>x. participant_objs example_trusted_db 1 = Some x \<and> e_discovery_source x = DISCOVERY_SOURCE \<and> e_name x = ''dp''"
  "fresh_stores example_trusted_db" "di_discovery_source (em_info example_proxy) \<noteq> DISCOVERY_SOURCE"
  by (simp_all add: example_trusted_db_def example_discovery_db_def new_database_def entity_constructor_defs
      fresh_stores_def example_proxy_def normalize_entity_name_def printable_def)

theorem discovered_participants_trusted_witness:
  "\<exists>r mq' db' y. process_monitor_sample example_fastdds (\<lambda>a b. b) () 5 example_proxy empty_monitor_queue
       example_trusted_db = (r, mq', db') \<and> participant_objs db' 1 = Some y \<and> e_name y = ''dp''"
proof -
  let ?step = "queue_step example_fastdds (\<lambda>_. False) (\<lambda>a b. b) () cautious
    (\<lambda>item. di_discovery_source (em_info item) \<noteq> DISCOVERY_SOURCE)"
  obtain r mq' db' where run: "process_monitor_sample example_fastdds (\<lambda>a b. b) () 5 example_proxy
      empty_monitor_queue example_trusted_db = (r, mq', db')" by (metis prod_cases3)
  have "?step (empty_monitor_queue, example_trusted_db) (mq', db')"
    by (rule monitor_step [OF run]) (rule example_trusted_participant(3))
  then have steps: "?step\<^sup>*\<^sup>* (empty_monitor_queue, example_trusted_db) (mq', db')" by blast
  obtain x where x: "participant_objs example_trusted_db 1 = Some x" "e_discovery_source x = DISCOVERY_SOURCE" "e_name x = ''dp''"
    using example_trusted_participant(1) by blast
  from conjunct1 [OF discovered_participants_trusted [OF steps example_trusted_participant(2) x(1,2)]] run x(3)
  show ?thesis by (auto simp: participant_identity_def)
qed

end
