(* ===== verification/MonitorOrder.thy ===== *)
theory MonitorOrder
  imports MonitorFrame
begin

text \<open>
  The order of what the monitor service's queue hands over to the queue of the entities, and the GUIDs
  it keeps as text.
\<close>

section \<open>What one report pushes\<close>

definition same_pushes :: "'q monitor_queue \<Rightarrow> 'q monitor_queue \<Rightarrow> bool" where
  "same_pushes mq mq' \<longleftrightarrow> participant_enqueued mq' = participant_enqueued mq \<and> pushed mq' = pushed mq"

lemma same_pushes_refl [simp]: "same_pushes mq mq"
  by (simp add: same_pushes_def)

lemma undiscover_pushes: "undiscover_proxy f item mq db = (r, mq', db') \<Longrightarrow> same_pushes mq mq'"
  by (auto simp: undiscover_proxy_def Let_def same_pushes_def split: option.splits prod.splits sum.splits if_splits)

lemma report_pushes:
  "report_proxy f merge q ts item x mq db = (r, mq', db') \<Longrightarrow> same_pushes mq mq' \<or> mq' = enqueue_proxy f q item mq"
  by (auto simp: report_proxy_def Let_def same_pushes_def split: prod.splits sum.splits if_splits)

lemma status_pushes:
  assumes "process_status f merge q ts item mq db = (r, mq', db')"
  shows "same_pushes mq mq' \<or> mq' = enqueue_proxy f q item mq"
  using assms
  by (cases "em_value item")
    (auto simp: process_status_def split: if_splits prod.splits dest: report_pushes undiscover_pushes)

lemma monitor_pushes:
  assumes "process_monitor_sample f merge q ts item mq db = (r, mq', db')"
  shows "same_pushes mq mq' \<or> mq' = enqueue_proxy f q item mq"
proof -
  obtain r1 mq1 db1 where s: "process_status f merge q ts item mq db = (r1, mq1, db1)" by (metis prod_cases3)
  then have "mq' = mq1" using assms by (auto simp: process_monitor_sample_def split: sum.splits option.splits prod.splits)
  then show ?thesis using status_pushes [OF s] by simp
qed

section \<open>The order\<close>

definition is_participant :: "GUID_s \<Rightarrow> 'q EntityDiscoveryInfo \<Rightarrow> bool" where
  "is_participant g i \<longleftrightarrow> di_kind i = PARTICIPANT \<and> di_guid i = g"

definition well_placed :: "'q EntityDiscoveryInfo list \<Rightarrow> 'q EntityDiscoveryInfo \<Rightarrow> bool" where
  "well_placed before i \<longleftrightarrow>
     (if di_kind i = PARTICIPANT
      then di_discovery_status i = (if \<exists>p \<in> set before. is_participant (di_guid i) p then UPDATE else DISCOVERY)
      else \<exists>p \<in> set before. is_participant (di_participant_guid i) p)"

definition well_ordered :: "'q EntityDiscoveryInfo list \<Rightarrow> bool" where
  "well_ordered xs \<longleftrightarrow> (\<forall>ys i zs. xs = ys @ i # zs \<longrightarrow> well_placed ys i)"

lemma well_ordered_Nil [simp]: "well_ordered []"
  by (simp add: well_ordered_def)

lemma well_ordered_snoc [simp]: "well_ordered (xs @ [i]) \<longleftrightarrow> well_ordered xs \<and> well_placed xs i"
proof
  assume w: "well_ordered (xs @ [i])"
  have "well_placed ys j" if "xs = ys @ j # zs" for ys j zs
    using w that unfolding well_ordered_def by (metis append.assoc append_Cons)
  moreover have "well_placed xs i" using w unfolding well_ordered_def by blast
  ultimately show "well_ordered xs \<and> well_placed xs i" by (simp add: well_ordered_def)
next
  assume w: "well_ordered xs \<and> well_placed xs i"
  show "well_ordered (xs @ [i])"
    unfolding well_ordered_def
  proof (intro allI impI)
    fix ys j zs
    assume e: "xs @ [i] = ys @ j # zs"
    show "well_placed ys j"
    proof (cases zs rule: rev_cases)
      case Nil
      then show ?thesis using e w by simp
    next
      case (snoc zs' z)
      then have "xs = ys @ j # zs'" using e by simp
      then show ?thesis using w by (simp add: well_ordered_def)
    qed
  qed
qed

text \<open>The marks are exactly the participants that were pushed.\<close>

definition pushes_ok :: "'q monitor_queue \<Rightarrow> bool" where
  "pushes_ok mq \<longleftrightarrow> well_ordered (pushed mq) \<and>
     (\<forall>g. g \<in> set (participant_enqueued mq) \<longleftrightarrow> (\<exists>p \<in> set (pushed mq). is_participant g p))"

definition own_guid :: "'q EntityDiscoveryInfo \<Rightarrow> bool" where
  "own_guid i \<longleftrightarrow> (di_kind i = PARTICIPANT \<longrightarrow> di_guid i = di_participant_guid i)"

lemma enqueue_pushes_ok:
  assumes ok: "pushes_ok mq" and own: "own_guid (em_info item)"
  shows "pushes_ok (enqueue_proxy f q item mq)"
proof -
  let ?i = "em_info item"
  have m: "g \<in> set (participant_enqueued mq) \<longleftrightarrow> (\<exists>p \<in> set (pushed mq). is_participant g p)" for g
    using ok by (simp add: pushes_ok_def)
  have w: "well_ordered (pushed mq)" using ok by (simp add: pushes_ok_def)
  have p: "is_participant g (?i\<lparr>di_discovery_status := s\<rparr>) \<longleftrightarrow> is_participant g ?i" for g s
    by (simp add: is_participant_def)
  show ?thesis
  proof (cases "di_kind ?i = PARTICIPANT")
    case True
    then have g: "di_guid ?i = di_participant_guid ?i" using own by (simp add: own_guid_def)
    have i: "is_participant g ?i \<longleftrightarrow> g = di_guid ?i" for g using True by (auto simp: is_participant_def)
    show ?thesis
      using True w m m [of "di_guid ?i"] g
      by (auto simp: enqueue_proxy_def Let_def pushes_ok_def well_placed_def p i)
  next
    case False
    have n: "\<not> is_participant g ?i" for g using False by (simp add: is_participant_def)
    have inf: "is_participant g (inferred_participant q ?i) \<longleftrightarrow> g = di_participant_guid ?i" for g
      by (auto simp: is_participant_def inferred_participant_def new_discovery_info_def)
    have wi: "well_placed xs (inferred_participant q ?i)"
      if "\<not> (\<exists>p \<in> set xs. is_participant (di_participant_guid ?i) p)" for xs
      using that by (simp add: well_placed_def inferred_participant_def new_discovery_info_def)
    have "well_ordered (pushed mq @ [inferred_participant q ?i, ?i])"
      if "\<not> (\<exists>p \<in> set (pushed mq). is_participant (di_participant_guid ?i) p)"
    proof -
      have "well_ordered ((pushed mq @ [inferred_participant q ?i]) @ [?i])"
        using w wi [OF that] False inf by (simp only: well_ordered_snoc) (simp add: well_placed_def)
      then show ?thesis by simp
    qed
    then show ?thesis
      using False w m m [of "di_participant_guid ?i"]
      by (auto simp: enqueue_proxy_def Let_def pushes_ok_def n inf) (auto simp: well_placed_def)
  qed
qed

text \<open>
  The states of the queue of the monitor service: between two reports the other threads may have
  changed the database in any way.
\<close>

inductive monitor_reachable ::
  "fastdds \<Rightarrow> ('q \<Rightarrow> 'q \<Rightarrow> 'q) \<Rightarrow> 'q \<Rightarrow> 'q monitor_queue \<Rightarrow> bool" for f merge q where
  start: "monitor_reachable f merge q empty_monitor_queue"
| report: "monitor_reachable f merge q mq \<Longrightarrow> own_guid (em_info item) \<Longrightarrow>
    process_monitor_sample f merge q ts item mq db = (r, mq', db') \<Longrightarrow> monitor_reachable f merge q mq'"

lemma reachable_pushes_ok: "monitor_reachable f merge q mq \<Longrightarrow> pushes_ok mq"
proof (induction rule: monitor_reachable.induct)
  case start
  then show ?case by (simp add: pushes_ok_def empty_monitor_queue_def)
next
  case (report mq item ts db r mq' db')
  then show ?case
    using monitor_pushes [OF report.hyps(3)] enqueue_pushes_ok
    by (auto simp: same_pushes_def) (simp add: pushes_ok_def)
qed

text \<open>
  C38: whatever the monitor service reports and however the database changes in between, the queue of the
  entities receives the discovery of a participant before any endpoint of that participant, exactly one
  discovery per participant, and updates of it afterwards.
\<close>

theorem endpoint_after_participant:
  assumes "monitor_reachable f merge q mq" and "pushed mq = ys @ i # zs"
  shows "if di_kind i = PARTICIPANT
    then di_discovery_status i =
      (if \<exists>p \<in> set ys. di_kind p = PARTICIPANT \<and> di_guid p = di_guid i then UPDATE else DISCOVERY)
    else \<exists>p \<in> set ys. di_kind p = PARTICIPANT \<and> di_guid p = di_participant_guid i"
proof -
  have "well_placed ys i" using reachable_pushes_ok [OF assms(1)] assms(2) by (simp add: pushes_ok_def well_ordered_def)
  then show ?thesis unfolding well_placed_def is_participant_def .
qed

text \<open>The report of a writer whose participant is not known yet.\<close>

definition example_writer_report :: "unit ExtendedMonitorServiceStatusData" where
  "example_writer_report = \<lparr>em_local_entity = example_guid 2, em_value = PROXY_STATUS [],
     em_info = (new_discovery_info () DATAWRITER)\<lparr>di_domain_id := EntityId 0, di_guid := example_guid 2,
       di_participant_guid := example_participant_guid, di_discovery_source := PROXY_SOURCE\<rparr>,
     em_optional_qos = (), em_instance_handle = []\<rparr>"

lemma example_writer_report_parts:
  "di_kind (em_info example_writer_report) = DATAWRITER" "em_value example_writer_report = PROXY_STATUS []"
  "di_participant_guid (em_info example_writer_report) = example_participant_guid"
  "\<not> di_is_proxy_undiscovery (em_info example_writer_report)" "em_local_entity example_writer_report = example_guid 2"
  by (simp_all add: example_writer_report_def new_discovery_info_def)

lemma enqueue_new_endpoint:
  assumes "di_kind (em_info item) \<noteq> PARTICIPANT"
  shows "pushed (enqueue_proxy f q item empty_monitor_queue) = [inferred_participant q (em_info item), em_info item]"
  using assms by (simp add: enqueue_proxy_def Let_def empty_monitor_queue_def)

lemma example_writer_report_run:
  "process_monitor_sample example_fastdds merge q 5 example_writer_report empty_monitor_queue example_discovery_db =
     (Inr (), enqueue_proxy example_fastdds q example_writer_report empty_monitor_queue, example_discovery_db)"
proof -
  have k: "get_entity_kind_by_guid example_fastdds (example_guid 2) = Inr DATAWRITER"
    by (simp add: get_entity_kind_by_guid_def example_guid_def example_fastdds_def)
  have g: "get_entity_by_guid_nts DATAWRITER g example_discovery_db = Inl (no_such_guid DATAWRITER g)" for g
    by (simp add: get_entity_by_guid_nts_def example_discovery_db_def new_database_def find_guid_def live_in_def)
  have l: "lookup_entity w DATAWRITER g example_discovery_db = (Inl (Error (w @ '' '' @ g @ '' not found'')), example_discovery_db)"
    for w g
    unfolding lookup_entity_def g no_such_guid_def by simp
  have st: "status_type example_fastdds (example_guid 2) x example_discovery_db = (Inl (Error (''Entity'' @ '' '' @
      deserialize_guid example_fastdds (example_guid 2) @ '' not found'')), example_discovery_db)" for x
    unfolding status_type_def act_with_def k sum.case act_bind_def l prod.case ..
  show ?thesis
    unfolding process_monitor_sample_def process_status_def report_proxy_def
    by (simp add: example_writer_report_parts act_bind_def st)
qed

theorem endpoint_after_participant_witness:
  "\<exists>mq. monitor_reachable example_fastdds (\<lambda>a b. b) () mq \<and>
     pushed mq = [inferred_participant () (em_info example_writer_report), em_info example_writer_report] \<and>
     di_kind (inferred_participant () (em_info example_writer_report)) = PARTICIPANT"
proof -
  define mq where "mq = enqueue_proxy example_fastdds () example_writer_report empty_monitor_queue"
  have p: "pushed mq = [inferred_participant () (em_info example_writer_report)] @ em_info example_writer_report # []"
    by (simp add: mq_def enqueue_new_endpoint example_writer_report_parts)
  have "own_guid (em_info example_writer_report)" by (simp add: own_guid_def example_writer_report_parts)
  from monitor_reachable.report [OF monitor_reachable.start this example_writer_report_run]
  have r: "monitor_reachable example_fastdds (\<lambda>a b. b) () mq" by (simp only: mq_def)
  from endpoint_after_participant [OF r p] r p show ?thesis by (auto simp: example_writer_report_parts)
qed

end
