(* ===== verification/MonitorGuid.thy ===== *)
theory MonitorGuid
  imports QueueMonitor DiscoveryInv
begin

text \<open>
  Reading back a GUID: \<open>serialize_guid\<close> reads what the middleware prints, octets in hexadecimal digits
  separated by full stops and, after the prefix, a bar; the number of digits does not matter.
\<close>

definition hex_text :: "string \<Rightarrow> octet \<Rightarrow> bool" where
  "hex_text t b \<longleftrightarrow> t \<noteq> [] \<and> list_all is_hex t \<and> hex_number t = unat b"

definition delimited :: "string list \<Rightarrow> char list \<Rightarrow> string" where
  "delimited ts cs = concat (map2 (\<lambda>t c. t @ [c]) ts cs)"

definition guid_text :: "string list \<Rightarrow> string list \<Rightarrow> string" where
  "guid_text ts us = delimited ts (replicate 11 (CHR ''.'') @ [CHR ''|'']) @
     delimited (butlast us) (replicate 3 (CHR ''.'')) @ last us"

lemma is_hex_plain: "is_hex c \<Longrightarrow> \<not> is_space c \<and> c \<noteq> CHR ''-'' \<and> c \<noteq> CHR ''+'' \<and> c \<noteq> CHR ''x'' \<and> c \<noteq> CHR ''X'' \<and>
    c \<noteq> CHR ''.'' \<and> c \<noteq> CHR ''|''"
  by (auto simp: is_hex_def hex_value_def is_space_def Let_def split: if_splits)

lemma skip_0x_hex: "list_all is_hex t \<Longrightarrow> skip_0x t = t"
  by (auto simp: skip_0x_def dest: is_hex_plain split: list.split)

lemma stoul_hex_text:
  assumes "hex_text t b"
  shows "stoul_hex t = Inr (unat b)"
proof -
  have h: "t \<noteq> []" "list_all is_hex t" "hex_number t = unat b" using assms by (simp_all add: hex_text_def)
  have tw: "takeWhile is_hex t = t" using h(2) by (simp add: list_all_iff)
  have "dropWhile is_space t = t" "skip_sign t = (False, t)"
    using h(1,2) by (cases t; simp add: skip_sign_def is_hex_plain)+
  moreover have "unat b < 2 ^ LENGTH(8)" by (rule unsigned_less)
  ultimately show ?thesis using h by (simp add: stoul_hex_def skip_0x_hex tw del: takeWhile_eq_all_conv)
qed

lemma getline_text:
  assumes "c \<notin> set t"
  shows "getline c b (t @ c # s, False) = (t, s, False)" "getline c b (t, False) = (t, [], True)"
proof -
  have "takeWhile (\<lambda>x. x \<noteq> c) (t @ c # s) = t" "dropWhile (\<lambda>x. x \<noteq> c) (t @ c # s) = c # s"
    "takeWhile (\<lambda>x. x \<noteq> c) t = t" "dropWhile (\<lambda>x. x \<noteq> c) t = []"
    using assms by (induction t) auto
  then show "getline c b (t @ c # s, False) = (t, s, False)" "getline c b (t, False) = (t, [], True)"
    by (simp_all add: getline_def Let_def del: dropWhile_eq_Nil_conv takeWhile_eq_all_conv)
qed

definition delimiter :: "char \<Rightarrow> bool" where
  "delimiter c \<longleftrightarrow> c = CHR ''.'' \<or> c = CHR ''|''"

lemma delimiter_outside: "hex_text t b \<Longrightarrow> delimiter c \<Longrightarrow> c \<notin> set t"
  by (auto simp: hex_text_def delimiter_def list_all_iff dest: is_hex_plain)

lemma read_delimited:
  "length ts = length cs \<Longrightarrow> list_all2 hex_text ts bs \<Longrightarrow> list_all delimiter cs \<Longrightarrow>
     \<exists>b'. read_octets cs b (delimited ts cs @ s, False) = Inr (bs, b', s, False)"
proof (induction ts cs arbitrary: bs b rule: list_induct2)
  case Nil
  then show ?case by (simp add: delimited_def)
next
  case (Cons t ts c cs)
  obtain x xs where bs: "bs = x # xs" "hex_text t x" "list_all2 hex_text ts xs"
    using Cons.prems(1) by (auto simp: list_all2_Cons1)
  obtain b' where "read_octets cs t (delimited ts cs @ s, False) = Inr (xs, b', s, False)"
    using Cons.IH [OF bs(3)] Cons.prems(2) by auto
  moreover have "delimited (t # ts) (c # cs) @ s = t @ c # (delimited ts cs @ s)" by (simp add: delimited_def)
  moreover have "c \<notin> set t" using delimiter_outside [OF bs(2)] Cons.prems(2) by simp
  ultimately show ?case by (simp add: getline_text stoul_hex_text [OF bs(2)] bs(1))
qed

lemma read_octets_append:
  "read_octets (cs @ ds) b iss = bind_result (read_octets cs b iss) (\<lambda>(bs, b, iss).
     bind_result (read_octets ds b iss) (\<lambda>(bs', b, iss). Inr (bs @ bs', b, iss)))"
  by (induction cs arbitrary: b iss) (auto simp: bind_result_assoc split_beta bind_result_def split: sum.split)

text \<open>
  C39: the text of a GUID, whatever the number of digits of its octets, is read back as that GUID.
\<close>

theorem guid_text_round_trip:
  assumes "list_all2 hex_text ts (guid_prefix g)" and "length ts = 12"
    and us: "list_all2 hex_text us (guid_entity g)" "length us = 4"
  shows "serialize_guid (guid_text ts us) = Inr g"
proof -
  let ?ds = "replicate 3 (CHR ''.'')"
  obtain b1 where 1: "read_octets (replicate 11 (CHR ''.'') @ [CHR ''|'']) [] (guid_text ts us, False) =
      Inr (guid_prefix g, b1, delimited (butlast us) ?ds @ last us, False)"
    using read_delimited [OF _ assms(1), of "replicate 11 (CHR ''.'') @ [CHR ''|'']"] assms(2)
    by (fastforce simp: guid_text_def delimiter_def list_all_iff)
  obtain vs v where u: "us = vs @ [v]" "length vs = 3" using us(2)
    by (cases us rule: rev_cases) auto
  obtain bs x where e: "guid_entity g = bs @ [x]" "list_all2 hex_text vs bs" "hex_text v x"
    using us(1) by (auto simp: u(1) list_all2_append1 list_all2_Cons1)
  obtain b2 where 2: "read_octets ?ds b1 (delimited vs ?ds @ v, False) = Inr (bs, b2, v, False)"
    using read_delimited [OF _ e(2), of ?ds b1 v] u(2) by (fastforce simp: delimiter_def list_all_iff)
  have "CHR ''.'' \<notin> set v" by (rule delimiter_outside [OF e(3)]) (simp add: delimiter_def)
  then have 3: "read_octets [CHR ''.''] b2 (v, False) = Inr ([x], v, [], True)"
    by (simp add: getline_text stoul_hex_text [OF e(3)])
  have "replicate 4 (CHR ''.'') = ?ds @ [CHR ''.'']" by (simp add: numeral_eq_Suc)
  then have "read_octets (replicate 4 (CHR ''.'')) b1 (delimited vs ?ds @ v, False) = Inr (bs @ [x], v, [], True)"
    using read_octets_append [of ?ds "[CHR ''.'']" b1 "(delimited vs ?ds @ v, False)"] 2 3 by simp
  then show ?thesis using 1 e(1) u(1) by (simp add: serialize_guid_def)
qed

theorem guid_text_round_trip_witness:
  "serialize_guid (guid_text (replicate 12 ''01'') [''0'', ''0'', ''1'', ''c1'']) = Inr example_participant_guid"
proof (rule guid_text_round_trip)
  have "hex_text ''01'' 1" "hex_text ''0'' 0" "hex_text ''1'' 1" "hex_text ''c1'' 193"
    by (simp_all add: hex_text_def hex_number_def is_hex_def hex_value_def)
  then show "list_all2 hex_text (replicate 12 ''01'') (guid_prefix example_participant_guid)"
    "list_all2 hex_text [''0'', ''0'', ''1'', ''c1''] (guid_entity example_participant_guid)"
    by (simp add: example_participant_guid_def list_all2_conv_all_nth, simp add: example_participant_guid_def)
qed simp_all

text \<open>A text that is cut after an octet is read as well: the octet is repeated.\<close>

lemma repeated_octet:
  "stoul_hex b = Inr n \<Longrightarrow> read_octets cs b ([], True) = Inr (replicate (length cs) (of_nat n), b, [], True)"
  by (induction cs) (simp_all add: getline_def)

theorem cut_guid_text: "serialize_guid ''01'' = Inr \<lparr>guid_prefix = replicate 12 1, guid_entity = replicate 4 1\<rparr>"
proof -
  have b: "stoul_hex ''01'' = Inr 1"
    by (simp add: stoul_hex_def skip_sign_def skip_0x_def is_space_def is_hex_def hex_value_def hex_number_def)
  let ?cs = "replicate 10 (CHR ''.'') @ [CHR ''|'']"
  have g: "getline (CHR ''.'') [] (''01'', False) = (''01'', [], True)" by (simp add: getline_def)
  have "replicate 11 (CHR ''.'') @ [CHR ''|''] = CHR ''.'' # ?cs" by (simp add: numeral_eq_Suc)
  then have "read_octets (replicate 11 (CHR ''.'') @ [CHR ''|'']) [] (''01'', False) =
      Inr (1 # replicate (length ?cs) 1, ''01'', [], True)"
    by (simp only: read_octets.simps g Let_def prod.case b bind_result_simps repeated_octet [OF b]) simp
  moreover have "1 # replicate (length ?cs) 1 = replicate 12 (1 :: octet)" by (simp add: numeral_eq_Suc)
  ultimately show ?thesis by (simp only: serialize_guid_def bind_result_simps prod.case repeated_octet [OF b]) simp
qed

end
