(* ===== verification/DiscoveryKnown.thy ===== *)
theory DiscoveryKnown
  imports CreationFrame
begin

text \<open>
  A discovery makes its entity known: after the discovery of a participant, reader or writer whose GUID
  was unknown, the search for that GUID finds the entity the discovery returned.
\<close>

section \<open>Searches that are not affected\<close>

definition same_guids :: "'q database \<Rightarrow> 'q database \<Rightarrow> bool" where
  "same_guids db db' \<longleftrightarrow>
     participants db' = participants db \<and> datareaders db' = datareaders db \<and> datawriters db' = datawriters db \<and>
     (\<forall>a. map_option guid (participant_objs db' a) = map_option guid (participant_objs db a)) \<and>
     (\<forall>a. map_option guid (reader_objs db' a) = map_option guid (reader_objs db a)) \<and>
     (\<forall>a. map_option guid (writer_objs db' a) = map_option guid (writer_objs db a))"

lemma same_guids_refl [simp]: "same_guids db db"
  by (simp add: same_guids_def)

lemma same_guids_lookup:
  assumes "same_guids db db'"
  shows "get_entity_by_guid_nts k g db' = get_entity_by_guid_nts k g db"
proof -
  have "find_guid g (live_in (participant_objs db') (participants db)) guid =
      find_guid g (live_in (participant_objs db) (participants db)) guid"
    "find_guid g (live_in (reader_objs db') (datareaders db)) guid =
      find_guid g (live_in (reader_objs db) (datareaders db)) guid"
    "find_guid g (live_in (writer_objs db') (datawriters db)) guid =
      find_guid g (live_in (writer_objs db) (datawriters db)) guid"
    using assms by (intro find_guid_same; simp add: same_guids_def)+
  then show ?thesis using assms by (cases k) (simp_all add: get_entity_by_guid_nts_def same_guids_def Let_def)
qed

lemma obj_update_guids: "(\<And>x. f (u x) = f x) \<Longrightarrow> map_option f (obj_update a u h b) = map_option f (h b)"
  by (simp add: obj_update_apply option.map_comp comp_def)

interpretation guids: creation_frame same_guids
proof unfold_locales
  show "same_guids db (ec_update reader_class a (set_active b) db)"
    "same_guids db (ec_update writer_class a (set_active b) db)" for db :: "'a database" and a b
    by (simp_all add: ec_update_def reader_class_def writer_class_def same_guids_def obj_update_guids set_active_def)
qed (auto simp: same_guids_def emit_def obj_update_guids set_active_def dds_same_def)

section \<open>A new entry\<close>

lemma find_guid_unique:
  assumes "(d, k, a, x) \<in> set xs" and "f x = g"
    and "\<And>d' k' a' x'. (d', k', a', x') \<in> set xs \<Longrightarrow> f x' = g \<Longrightarrow> d' = d \<and> k' = k"
  shows "find_guid g xs f = Some (d, k)"
proof -
  obtain e where e: "List.find (\<lambda>(d, k, a, x). f x = g) xs = Some e"
    using assms(1,2) by (cases "List.find (\<lambda>(d, k, a, x). f x = g) xs") (auto simp: find_None_iff)
  obtain d' k' a' x' where "e = (d', k', a', x')" by (cases e)
  moreover have "e \<in> set xs" "case e of (d, k, a, x) \<Rightarrow> f x = g" using e
    by (auto simp: find_Some_iff) (metis nth_mem)
  ultimately show ?thesis using assms(3) e by (auto simp: find_guid_def)
qed

lemma find_guid_None: "find_guid g xs f = None \<longleftrightarrow> (\<forall>(d, k, a, x) \<in> set xs. f x \<noteq> g)"
  by (auto simp: find_guid_def find_None_iff)

lemma find_guid_new:
  assumes own: "owned_in h ef mm" and a: "h a = None" and none: "find_guid g (live_in h mm) f = None"
    and new: "map_option f (h' a) = Some g" and old: "\<And>b. b \<noteq> a \<Longrightarrow> map_option f (h' b) = map_option f (h b)"
  shows "find_guid g (live_in h' (om_update [] d (om_put i a) mm)) f = Some (d, i)"
proof -
  let ?m = "om_get [] d mm"
  have wf: "om_wf mm" using own by (simp add: owned_in_def)
  have wfm: "om_wf ?m"
    using own by (auto simp: om_get_def owned_in_def owned_def om_wf_Nil split: option.split dest!: map_of_SomeD)
  have sub: "(k, b) \<in> set ?m \<Longrightarrow> \<exists>m. (d, m) \<in> set mm \<and> (k, b) \<in> set m" for k b
    by (cases "om_find mm d") (auto simp: om_get_def dest: map_of_SomeD)
  have na: "a \<notin> snd ` entries_in mm" by (rule fresh_not_entry_in [OF own a])
  have up: "set (om_update [] d (om_put i a) mm) = insert (d, om_put i a ?m) {e \<in> set mm. fst e \<noteq> d}"
    by (simp add: om_update_def om_put_set [OF wf])
  have inner: "set (om_put i a ?m) = insert (i, a) {e \<in> set ?m. fst e \<noteq> i}" by (rule om_put_set [OF wfm])
  obtain x where x: "h' a = Some x" "f x = g" using new by auto
  have entry: "d' = d \<and> k' = i \<and> b = a \<or> (\<exists>m. (d', m) \<in> set mm \<and> (k', b) \<in> set m)"
    if e: "(d', k', b, y) \<in> set (live_in h' (om_update [] d (om_put i a) mm))" for d' k' b y
  proof -
    obtain m where m: "(d', m) \<in> set (om_update [] d (om_put i a) mm)" "(k', b) \<in> set m"
      using e by (auto simp: live_in_set)
    show ?thesis
    proof (cases "m = om_put i a ?m \<and> d' = d")
      case True
      then show ?thesis using m(2) inner sub [of k' b] by auto
    qed (use m up in auto)
  qed
  show ?thesis
  proof (rule find_guid_unique [where x = x])
    show "(d, i, a, x) \<in> set (live_in h' (om_update [] d (om_put i a) mm))"
      using x(1) by (auto simp: live_in_set up inner)
    show "f x = g" by (rule x(2))
    fix d' k' b y
    assume e: "(d', k', b, y) \<in> set (live_in h' (om_update [] d (om_put i a) mm))" "f y = g"
    show "d' = d \<and> k' = i"
    proof (rule ccontr)
      assume n: "\<not> (d' = d \<and> k' = i)"
      then obtain m where m: "(d', m) \<in> set mm" "(k', b) \<in> set m" using entry [OF e(1)] by blast
      then have "b \<noteq> a" using na entry_address by blast
      moreover have "h' b = Some y" using e(1) by (auto simp: live_in_set)
      ultimately have "\<exists>z. h b = Some z \<and> f z = g" using old [of b] e(2) by (cases "h b") auto
      then obtain z where "h b = Some z" "f z = g" by blast
      moreover from this(1) m have "(d', k', b, z) \<in> set (live_in h mm)" by (auto simp: live_in_set)
      ultimately show False using none by (force simp: find_guid_None)
    qed
  qed
qed

section \<open>Participants\<close>

text \<open>Finding the entity a lookup by GUID returns.\<close>

definition known_as :: "EntityKind \<Rightarrow> string \<Rightarrow> EntityId \<Rightarrow> 'q database \<Rightarrow> bool" where
  "known_as k g i db \<longleftrightarrow> (\<exists>d. get_entity_by_guid_nts k g db = Inr (d, i))"

lemma known_as_same: "same_guids db db' \<Longrightarrow> known_as k g i db' = known_as k g i db"
  by (simp add: known_as_def same_guids_lookup)

lemma unknown_guid:
  "get_entity_by_guid_nts PARTICIPANT g db = Inl e \<Longrightarrow>
     find_guid g (live_in (participant_objs db) (participants db)) guid = None"
  "get_entity_by_guid_nts DATAREADER g db = Inl e \<Longrightarrow>
     find_guid g (live_in (reader_objs db) (datareaders db)) guid = None"
  "get_entity_by_guid_nts DATAWRITER g db = Inl e \<Longrightarrow>
     find_guid g (live_in (writer_objs db) (datawriters db)) guid = None"
  by (auto simp: get_entity_by_guid_nts_def Let_def split: option.splits)

lemma new_participant_known:
  assumes rd: "database_ready db" and un: "get_entity_by_guid_nts PARTICIPANT g db = Inl e"
    and run: "insert_new_participant qe n q g d st app meta src orig db = (Inr i, db')"
  shows "known_as PARTICIPANT g i db'"
proof -
  note R = readyD [OF rd]
  let ?a = "next_addr db"
  have fresh: "participant_objs db ?a = None" using R(2) by (simp add: fresh_stores_def)
  obtain dd where p: "participants db' = om_update [] dd (om_put i ?a) (participants db)"
    "map_option guid (participant_objs db' ?a) = Some g"
    "\<And>b. b \<noteq> ?a \<Longrightarrow> map_option guid (participant_objs db' b) = map_option guid (participant_objs db b)"
  proof -
    assume goal: "\<And>dd. participants db' = om_update [] dd (om_put i ?a) (participants db) \<Longrightarrow>
      map_option guid (participant_objs db' ?a) = Some g \<Longrightarrow>
      (\<And>b. b \<noteq> ?a \<Longrightarrow> map_option guid (participant_objs db' b) = map_option guid (participant_objs db b)) \<Longrightarrow> thesis"
    show thesis
      using run
      by (auto simp: insert_new_participant_def insert_participant_def checked_insert_def assign_entity_id_def
          generate_entity_id_def Let_def obj_update_apply clear_defs new_participant_def entity_constructor_defs
          split: sum.splits option.splits prod.splits if_splits intro!: goal)
  qed
  have "find_guid g (live_in (participant_objs db') (participants db')) guid = Some (dd, i)"
    unfolding p(1) by (rule find_guid_new [OF db_invD(7) [OF R(1)] fresh unknown_guid(1) [OF un] p(2,3)])
  then show ?thesis by (simp add: known_as_def get_entity_by_guid_nts_def)
qed

section \<open>Endpoints\<close>

locale guid_template = endpoint_template C
  for C :: "('q, 'e) endpoint_class" +
  assumes clear_guid: "guid (ec_clear C e) = guid e"
    and coll_set: "ec_coll C (ec_set_coll C c db) = c" and objs_set_coll: "ec_objs C (ec_set_coll C c db) = ec_objs C db"
    and objs_next: "ec_objs C (next_addr_update m db) = ec_objs C db"
    and coll_next: "ec_coll C (next_addr_update m db) = ec_coll C db"
begin

definition class_guids :: "'q database \<Rightarrow> 'q database \<Rightarrow> bool" where
  "class_guids db db' \<longleftrightarrow> ec_coll C db' = ec_coll C db \<and>
     (\<forall>b. map_option guid (ec_objs C db' b) = map_option guid (ec_objs C db b))"

lemma class_guids_refl [simp]: "class_guids db db"
  by (simp add: class_guids_def)

lemma class_guids_trans: "class_guids db db1 \<Longrightarrow> class_guids db1 db2 \<Longrightarrow> class_guids db db2"
  by (simp add: class_guids_def)

lemma class_guids_update: "(\<And>e. guid (u e) = guid e) \<Longrightarrow> class_guids db (ec_update C a u db)"
  by (simp add: class_guids_def ec_update_def objs_set coll_set_objs obj_update_guids)

lemma class_guids_others:
  "class_guids db (participant_objs_update p db)" "class_guids db (locator_objs_update l db)"
  "class_guids db (topic_objs_update t db)" "class_guids db (next_id_update n db)"
  by (simp_all add: class_guids_def objs_other coll_other)

lemma link_locators_guids: "class_guids db (snd (link_locators C a i ls db))"
proof (induction ls arbitrary: db)
  case (Cons e ls)
  obtain k b where e: "e = (k, b)" by fastforce
  let ?db1 = "db\<lparr>locator_objs := obj_update b (ec_add_locator C i a) (locator_objs db)\<rparr>"
  let ?db2 = "ec_update C a (\<lambda>e. e\<lparr>ep_locators := om_put k b (ep_locators e)\<rparr>) ?db1"
  have "class_guids ?db1 ?db2" by (rule class_guids_update) simp
  from class_guids_trans [OF class_guids_trans [OF class_guids_others(2) this] Cons.IH] show ?case by (simp add: e)
qed simp

lemma linked_guids:
  assumes "link_endpoint C a i e db = (Inr j, db')"
  shows "j = i \<and> (\<exists>dd. ec_coll C db' = om_update [] dd (om_put i a) (ec_coll C db)) \<and>
    (\<forall>b. map_option guid (ec_objs C db' b) = map_option guid (ec_objs C db b))"
proof -
  define db1 where "db1 = db\<lparr>participant_objs := obj_update (the (ep_participant e))
    (\<lambda>p. let p = ec_add_participant C i a p
       in if is_virtual_metatraffic e then p\<lparr>meta_traffic_endpoint := Some (ec_ref C a)\<rparr> else p)
    (participant_objs db)\<rparr>"
  note run = assms [unfolded link_endpoint_def Let_def, folded db1_def [unfolded Let_def]]
  have 1: "class_guids db db1" unfolding db1_def by (rule class_guids_others)
  obtain ls where ls: "actual_locators db1 (ep_locators e) [] = Inr ls" using run by (auto split: sum.splits)
  obtain r db2 where 2: "link_locators C a i ls (ec_update C a (\<lambda>x. x\<lparr>ep_locators := []\<rparr>) db1) = (r, db2)" by fastforce
  have "class_guids db1 (ec_update C a (\<lambda>x. x\<lparr>ep_locators := []\<rparr>) db1)" by (rule class_guids_update) simp
  from class_guids_trans [OF class_guids_trans [OF 1 this] link_locators_guids, of a i ls] 2
  have 3: "class_guids db db2" by simp
  have "\<exists>dd. j = i \<and> db' = ec_set_coll C (om_update [] dd (om_put i a) (ec_coll C db2))
      (db2\<lparr>topic_objs := obj_update (the (ep_topic e)) (ec_add_topic C i a) (topic_objs db2)\<rparr>)"
    using run ls 2 by (auto simp: act_bind_def split: sum.splits)
  then show ?thesis using 3 by (auto simp: class_guids_def coll_set objs_set_coll objs_other)
qed

lemma insert_endpoint_guids:
  assumes run: "insert_endpoint C qe a invalid_id db = (Inr i, db')"
  shows "(\<exists>dd. ec_coll C db' = om_update [] dd (om_put i a) (ec_coll C db)) \<and>
    (\<forall>b. map_option guid (ec_objs C db' b) = map_option guid (ec_objs C db b))"
proof -
  define db0 where "db0 = ec_update C a (ec_clear C) db"
  have 0: "class_guids db db0" unfolding db0_def by (rule class_guids_update) (rule clear_guid)
  obtain j db1 where as: "assign_entity_id invalid_id db0 = (j, db1)" by fastforce
  then obtain n where n: "db1 = db0\<lparr>next_id := n\<rparr>" using assign_entity_id_state by blast
  obtain e where l: "link_endpoint C a j e (ec_update C a (\<lambda>x. x\<lparr>e_id := j\<rparr>) db1) = (Inr i, db')"
    using run as by (auto simp: insert_endpoint_def insert_ddsendpoint_nts_def checked_insert_def db0_def [symmetric]
        split: option.splits)
  have "class_guids db1 (ec_update C a (\<lambda>x. x\<lparr>e_id := j\<rparr>) db1)" by (rule class_guids_update) simp
  from class_guids_trans [OF class_guids_trans [OF 0 class_guids_others(4)] this [unfolded n]]
  have "class_guids db (ec_update C a (\<lambda>x. x\<lparr>e_id := j\<rparr>) db1)" unfolding n .
  with linked_guids [OF l] show ?thesis by (auto simp: class_guids_def)
qed

lemma insert_created_known:
  assumes own: "owned_in (ec_objs C db) e_id (ec_coll C db)" and fresh: "ec_objs C db (next_addr db) = None"
    and un: "find_guid (guid e) (live_in (ec_objs C db) (ec_coll C db)) guid = None"
    and run: "insert_created C qe e db = (Inr i, db')"
  shows "\<exists>d. find_guid (guid e) (live_in (ec_objs C db') (ec_coll C db')) guid = Some (d, i)"
proof -
  let ?a = "next_addr db"
  let ?db1 = "ec_set_objs C ((ec_objs C db)(?a \<mapsto> e)) (db\<lparr>next_addr := Suc ?a\<rparr>)"
  have "insert_endpoint C qe ?a invalid_id ?db1 = (Inr i, db')"
    using run by (auto simp: insert_created_def Let_def split: sum.splits prod.splits)
  from insert_endpoint_guids [OF this]
  obtain dd where c: "ec_coll C db' = om_update [] dd (om_put i ?a) (ec_coll C db)"
    and g: "\<And>b. map_option guid (ec_objs C db' b) = map_option guid (((ec_objs C db)(?a \<mapsto> e)) b)"
    by (auto simp: coll_set_objs coll_next objs_set)
  have "find_guid (guid e) (live_in (ec_objs C db') (ec_coll C db')) guid = Some (dd, i)"
    unfolding c by (rule find_guid_new [OF own fresh un]) (simp_all add: g)
  then show ?thesis ..
qed

end

interpretation reader_guids: guid_template reader_class
  by unfold_locales (simp_all add: reader_class_def clear_defs)

interpretation writer_guids: guid_template writer_class
  by unfold_locales (simp_all add: writer_class_def clear_defs)

lemma new_endpoint_guid [simp]:
  "guid (create_endpoint e virt alias ls) = guid e"
  "guid (new_datareader n q g p t flag st app meta src orig) = g"
  "guid (new_datawriter n q g p t flag st app meta src orig) = g"
  by (simp_all add: create_endpoint_def endpoint_constructor_defs entity_constructor_defs DDSEndpoint.defs DDSEntity.defs split: option.split)

lemma new_endpoint_known:
  assumes rd: "database_ready db" "room (locator_count locs + 3) db" and k: "k = DATAREADER \<or> k = DATAWRITER"
    and un: "get_entity_by_guid_nts k g db = Inl e"
    and run: "insert_new_endpoint f qe g n alias q virt locs k p t app src orig db = (Inr i, db')"
  shows "known_as k g i db'"
proof -
  define names where "names = map (show_locator f) (unicast locs) @ map (show_locator f) (multicast locs)"
  obtain ls db1 where ls: "process_locators names [] db = (Inr ls, db1)"
    using run by (auto simp: insert_new_endpoint_def Let_def act_bind_def names_def split: sum.splits prod.splits)
  have "grown (int (length names)) db db1"
    by (rule process_locators_grown [OF rd(1) _ ls]) (use rd(2) in \<open>simp add: names_def locator_count_def room_def\<close>)
  then have rd1: "database_ready db1" by (simp add: grown_def)
  note R = readyD [OF rd1]
  have "same_guids db db1" by (rule guids.keeps_then [OF same_guids_refl guids.keeps_locators ls])
  then have un1: "get_entity_by_guid_nts k g db1 = Inl e" using un by (simp add: same_guids_lookup)
  show ?thesis
  proof (cases "k = DATAREADER")
    case True
    then obtain x where x: "insert_created reader_class qe x db1 = (Inr i, db')" "guid x = g"
      using run ls by (auto simp: insert_new_endpoint_def Let_def act_bind_def names_def [symmetric] split: sum.splits)
    have "\<exists>d. find_guid (guid x) (live_in (ec_objs reader_class db') (ec_coll reader_class db')) guid = Some (d, i)"
      by (rule reader_guids.insert_created_known [OF _ _ _ x(1)])
        (use db_invD(8) [OF R(1)] R(2) unknown_guid(2) [of g db1 e] un1 True x(2) in
          \<open>simp_all add: reader_class_def fresh_stores_def\<close>)
    then show ?thesis using True x(2) by (auto simp: known_as_def get_entity_by_guid_nts_def reader_class_def)
  next
    case False
    then have w: "k = DATAWRITER" using k by simp
    then obtain x where x: "insert_created writer_class qe x db1 = (Inr i, db')" "guid x = g"
      using run ls by (auto simp: insert_new_endpoint_def Let_def act_bind_def names_def [symmetric] split: sum.splits)
    have "\<exists>d. find_guid (guid x) (live_in (ec_objs writer_class db') (ec_coll writer_class db')) guid = Some (d, i)"
      by (rule writer_guids.insert_created_known [OF _ _ _ x(1)])
        (use db_invD(9) [OF R(1)] R(2) unknown_guid(3) [of g db1 e] un1 w x(2) in
          \<open>simp_all add: writer_class_def fresh_stores_def\<close>)
    then show ?thesis using w x(2) by (auto simp: known_as_def get_entity_by_guid_nts_def writer_class_def)
  qed
qed

section \<open>The queue\<close>

text \<open>An action that returns \<open>i\<close> when it returns.\<close>

definition yields :: "'a \<Rightarrow> ('q, 'a) action \<Rightarrow> bool" where
  "yields i m \<longleftrightarrow> (\<forall>db j db'. m db = (Inr j, db') \<longrightarrow> j = i)"

lemma yields_return: "yields i (act_return i)"
  by (simp add: yields_def act_return_def)

lemma yields_bind: "(\<And>x. yields i (f x)) \<Longrightarrow> yields i (act_bind m f)"
  by (auto simp: yields_def act_bind_def split: prod.splits sum.splits)

lemma known_bind:
  assumes "\<And>x db1. m db = (Inr x, db1) \<Longrightarrow> known_as k g (h x) db1"
    and "\<And>x. keeps same_guids (f x)" and "\<And>x. yields (h x) (f x)"
    and "act_bind m f db = (Inr i, db')"
  shows "known_as k g i db'"
proof -
  obtain x db1 where x: "m db = (Inr x, db1)" "f x db1 = (Inr i, db')"
    using assms(4) by (auto simp: act_bind_def split: prod.splits sum.splits)
  have "same_guids db1 db'" using keepsD [OF assms(2), of db1 x] x(2) by simp
  moreover have "i = h x" using assms(3) x(2) by (auto simp: yields_def)
  ultimately show ?thesis using assms(1) [OF x(1)] known_as_same by blast
qed

lemma participant_known:
  assumes rd: "database_ready db" and un: "get_entity_by_guid_nts PARTICIPANT (show_guid f (di_guid info)) db = Inl e"
    and d: "di_discovery_status info = DISCOVERY" and run: "process_participant f qe info db = (Inr i, db')"
  shows "known_as PARTICIPANT (show_guid f (di_guid info)) i db'"
  using run unfolding process_participant_def
proof (rule known_bind [where h = fst, rotated 3])
  obtain s where "e = BadParameter s" using guid_error [OF un] by blast
  then show "known_as PARTICIPANT (show_guid f (di_guid info)) (fst x) db1"
    if x: "find_or_insert_participant f qe info db = (Inr x, db1)" for x db1
    using x un d new_participant_known [OF rd un]
    by (auto simp: find_or_insert_participant_def act_with_def act_bind_def act_return_def Let_def
        split: prod.splits sum.splits)
qed (auto intro!: frame_intros yields_bind yields_return split: prod.split)

lemma endpoint_known:
  assumes rd: "database_ready db" "room (locator_count (di_locators info) + 4) db"
    and k: "di_kind info = DATAREADER \<or> di_kind info = DATAWRITER"
    and un: "get_entity_by_guid_nts (di_kind info) (show_guid f (di_guid info)) db = Inl e"
    and run: "process_endpoint_discovery f qe info db = Some (Inr i, db')"
  shows "known_as (di_kind info) (show_guid f (di_guid info)) i db'"
proof -
  define m :: "('a, EntityId \<times> EntityId) action"
    where "m = act_with (endpoint_participant f '' discovered on Participant '' info) (\<lambda>(d, p).
      act_bind (get_or_create_topic info) (\<lambda>t. act_return (p, t)))"
  have m: "keeps same_guids m" "grows 1 m"
    unfolding m_def by (auto intro!: frame_intros grows_with grows_keeps grows_get_topic split: prod.split)
  obtain p t db1 db2 where 1: "m db = (Inr (p, t), db1)" and 2: "register_type info db1 = Some (Inr (), db2)"
    and 3: "create_discovered f qe info p t db2 = (Inr i, db')"
    using run by (auto simp: process_endpoint_discovery_def m_def [symmetric] split: sum.splits option.splits prod.splits)
  have "room (1 + 2) db" using rd(2) by (simp add: room_def locator_count_def)
  from growsD [OF m(2) rd(1) this 1] have g: "grown 1 db db2"
    using grown_shape register_type_shape [OF 2] by blast
  have rd2: "database_ready db2" "room (locator_count (di_locators info) + 3) db2"
    using g grown_room [OF g rd(2)] by (simp_all add: grown_def add.commute)
  have "same_guids db db2"
    using guids.keeps_then [OF same_guids_refl m(1) 1] guids.register_type_frame [OF 2] guids.frame_trans by blast
  then have un2: "get_entity_by_guid_nts (di_kind info) (show_guid f (di_guid info)) db2 = Inl e"
    using un by (simp add: same_guids_lookup)
  obtain app where "act_bind (insert_new_endpoint f qe (show_guid f (di_guid info))
       (di_topic_name info @ ''_'' @ show_entity_id f (guid_entity (di_guid info))) (di_alias info) (di_qos info)
       (di_is_virtual_metatraffic info) (di_locators info) (di_kind info) p t (app, []) (di_discovery_source info)
       (di_original_domain_id info)) (\<lambda>i.
     act_bind (change_entity_status i True) (\<lambda>_.
     act_bind (update_endpoint_in_graph_nts (di_domain_id info) p t i) (\<lambda>b.
     act_bind (announce_graph (di_domain_id info) b) (\<lambda>_. act_return i)))) db2 = (Inr i, db')"
    using 3 by (auto simp: create_discovered_def act_with_def split: sum.splits)
  then show ?thesis
    by (rule known_bind [where h = "\<lambda>x. x", rotated 3])
      (auto intro!: frame_intros yields_bind yields_return intro: new_endpoint_known [OF rd2 k un2])
qed

text \<open>
  C35: after the discovery of a participant, reader or writer whose GUID was unknown, the search for that
  GUID finds the entity that was announced.
\<close>

theorem discovered_entity_known:
  assumes rd: "database_ready db" and room: "next_id db + locator_count (di_locators info) + 6 < 2 ^ 63"
    and k: "di_kind info \<in> {PARTICIPANT, DATAREADER, DATAWRITER}"
    and un: "get_entity_by_guid_nts (di_kind info) (show_guid f (di_guid info)) db = Inl e"
    and d: "di_discovery_status info = DISCOVERY"
    and run: "process_discovery f qe info db = Some (Inr i, db')"
  shows "\<exists>d. get_entity_by_guid_nts (di_kind info) (show_guid f (di_guid info)) db' = Inr (d, i)"
proof -
  obtain s where s: "e = BadParameter s" using guid_error [OF un] by blast
  have "known_as (di_kind info) (show_guid f (di_guid info)) i db'"
  proof (cases "di_kind info = PARTICIPANT")
    case True
    then show ?thesis using run un d participant_known [OF rd] by (simp add: process_discovery_def)
  next
    case False
    then have k': "di_kind info = DATAREADER \<or> di_kind info = DATAWRITER" using k by auto
    have "update_known_endpoint f (di_kind info) info db = (Inl (BadParameter s), db)"
      using un s by (simp add: update_known_endpoint_def act_with_def)
    then have "process_endpoint_discovery f qe info db = Some (Inr i, db')"
      using run k' d by (auto simp: process_discovery_def process_datareader_def process_datawriter_def process_endpoint_def)
    moreover have "room (locator_count (di_locators info) + 4) db" using room by (simp add: room_def)
    ultimately show ?thesis using endpoint_known [OF rd _ k' un] by blast
  qed
  then show ?thesis by (simp add: known_as_def)
qed

text \<open>The discovery of a participant without a host: the physical entities are left out.\<close>

definition example_lone :: "unit EntityDiscoveryInfo" where
  "example_lone = example_participant\<lparr>di_host := []\<rparr>"

lemma example_lone_parts:
  "di_kind example_lone = PARTICIPANT" "di_guid example_lone = example_participant_guid"
  "di_discovery_status example_lone = DISCOVERY" "locator_count (di_locators example_lone) = 0"
  "di_host example_lone = []" "di_participant_name example_lone = ''dp''" "di_domain_id example_lone = EntityId 0"
  by (simp_all add: example_lone_def example_participant_def new_discovery_info_def locator_count_def)

lemma example_unknown:
  "get_entity_by_guid_nts PARTICIPANT g example_discovery_db = Inl (no_such_guid PARTICIPANT g)"
  by (simp add: get_entity_by_guid_nts_def example_discovery_db_def new_database_def find_guid_def live_in_def)

lemma example_insertion:
  assumes "g \<noteq> []"
  shows "\<exists>db'. insert_new_participant (\<lambda>_. False) ''dp'' () g (EntityId 0) st app meta src orig example_discovery_db =
    (Inr (EntityId 1), db') \<and> hosts db' = [] \<and> domain_view_graph db' = []"
  using assms
  by (simp add: insert_new_participant_def get_domain_def get_entity_nts_def find_entity_def insert_eval
      example_discovery_db_def new_database_def entity_constructor_defs live_in_def find_addr_def find_addr_in_def
      insert_participant_def participant_checks_def normalize_entity_name_def printable_def)

lemma no_host_name:
  assumes "hosts db = []"
  shows "\<exists>s db'. physical_host [] src db = (Inl (BadParameter s), db') \<and> domain_view_graph db' = domain_view_graph db"
  using assms by (simp add: physical_host_def named_def alloc_host_def free_host_def insert_host_def checked_insert_def
      host_checks_def throw_if_def entity_constructor_defs obj_update_def clear_host_def Let_def normalize_entity_name_def)

lemma example_lone_run:
  "\<exists>db'. process_discovery example_fastdds (\<lambda>_. False) example_lone example_discovery_db = Some (Inr (EntityId 1), db')"
proof -
  have g: "show_guid example_fastdds example_participant_guid \<noteq> []"
    by (simp add: example_fastdds_def example_participant_guid_def)
  obtain db1 where 1: "insert_new_participant (\<lambda>_. False) ''dp'' () (show_guid example_fastdds example_participant_guid)
      (EntityId 0) (di_entity_status example_lone) (di_app_id example_lone) (di_app_metadata example_lone)
      (di_discovery_source example_lone) (di_original_domain_id example_lone) example_discovery_db =
      (Inr (EntityId 1), db1)" "hosts db1 = []" "domain_view_graph db1 = []"
    using example_insertion [OF g] by blast
  obtain s db2 where 2: "physical_host [] (di_discovery_source example_lone) db1 = (Inl (BadParameter s), db2)"
    "domain_view_graph db2 = []" using no_host_name [OF 1(2)] 1(3) by fastforce
  have "find_or_insert_participant example_fastdds (\<lambda>_. False) example_lone example_discovery_db =
      (Inr (EntityId 1, True), db1)"
    using 1(1) by (simp add: find_or_insert_participant_def act_with_def example_unknown example_lone_parts
        no_such_guid_def act_bind_def act_return_def)
  moreover obtain ids where "physical_entities_of (EntityId 1) True example_lone db1 = (Inr ids, db2)"
    using 2(1) by (cases "split_process (di_process example_lone)")
      (simp add: physical_entities_of_def process_physical_entities_nts_def example_lone_parts)
  ultimately show ?thesis
    using 2(2) by (simp add: process_discovery_def process_participant_def example_lone_parts act_bind_def
        update_participant_in_graph_nts_def on_graph_def announce_graph_def act_return_def)
qed

theorem discovered_entity_known_witness:
  "\<exists>db' d. process_discovery example_fastdds (\<lambda>_. False) example_lone example_discovery_db = Some (Inr (EntityId 1), db') \<and>
     get_entity_by_guid_nts PARTICIPANT (show_guid example_fastdds example_participant_guid) db' = Inr (d, EntityId 1)"
proof -
  obtain db' where run: "process_discovery example_fastdds (\<lambda>_. False) example_lone example_discovery_db =
      Some (Inr (EntityId 1), db')" using example_lone_run by blast
  have "next_id example_discovery_db + locator_count (di_locators example_lone) + 6 < 2 ^ 63"
    by (simp add: example_discovery_db_def example_lone_parts)
  from discovered_entity_known [OF example_discovery_ready this _ _ _ run] run show ?thesis
    by (simp add: example_lone_parts example_unknown)
qed

end
