(* ===== verification/Spec2Isabelle.thy ===== *)
theory Spec2Isabelle
  imports DbQueue DbMonitor Listeners QueueData GraphSpec QueueSteps DiscoveryTrust MonitorOrder MonitorGuid
    DiscoveryKnown
begin

text \<open>
  The backend of the eProsima Fast DDS Statistics Backend library: the in-memory database that the
  discovery and statistics listeners fill and that the user queries, the queues that feed it, the
  alerts it raises and the callbacks it makes.

  Paths are relative to \<open>src/src/cpp\<close>, those of public headers to
  \<open>src/include/fastdds_statistics_backend\<close>.

  The parts and how they interact. Listeners of Fast DDS push discoveries and reports to three
  queues (\<open>database/database_queue.hpp\<close>, \<open>.cpp\<close>), each with a consumer thread of its own. A consumer
  takes one element at a time and calls the database (\<open>database/database.hpp\<close>, \<open>.cpp\<close>), which keeps
  the entities, their samples, the alerts and a JSON document of the entities per domain.
  The consumer then tells \<open>StatisticsBackendData\<close>, which chooses the listener of the user. The
  user reads the database through \<open>StatisticsBackend\<close>.

  The ground:
  \<^item> \<open>Prelude\<close>: results with exceptions, decimal printing, 64-bit wrap-around, \<open>std::map\<close> as an
    association list sorted by key, with its contract as a locale.
  \<^item> \<open>Backend_Types\<close>: \<open>EntityId\<close>, the enumerations, masks and time points of \<open>types/*.hpp\<close>;
    \<open>Doubles\<close>: the IEEE arithmetic of the samples and aggregators, without the sign of zero.
  \<^item> \<open>Json\<close>: the operations on \<open>nlohmann::json\<close> objects that the code uses, as actions that may throw
    \<open>type_error\<close>.

  Samples and what is kept per entity:
  \<^item> \<open>Samples\<close> (\<open>database/samples.hpp\<close>, \<open>.cpp\<close>), \<open>Containers\<close> (\<open>types/DataContainer.hpp\<close>,
    \<open>types/MapDataContainer.hpp\<close>), \<open>StatData\<close> (\<open>database/data.hpp\<close>, \<open>.cpp\<close>) and \<open>MonitorData\<close>, the
    same for the monitor service. The lemmas show that containers stay sorted and what clearing drops.
  \<^item> \<open>Alerts\<close>, \<open>Registries\<close> (\<open>types/Alerts.hpp\<close>, \<open>types/Notifiers.hpp\<close>, \<open>database.cpp\<close>): alerts and
    notifiers. The locale \<open>registry\<close> is the contract of the three collections that hand out 32-bit
    identifiers, up to the wrap-around of the counter.

  The database:
  \<^item> \<open>Entities\<close> (\<open>database/entities.hpp\<close>, \<open>.cpp\<close>): the entities as records in address-indexed stores;
    a \<open>shared_ptr\<close> or \<open>weak_ptr\<close> is an address, and an object is gone when its store has nothing there.
  \<^item> \<open>DbState\<close>, \<open>DbLookup\<close>: the state of \<open>class Database\<close> and the lookups by identifier, name and GUID.
    \<open>DbInsert\<close> with \<open>DbInsertInv\<close>: inserting each kind of entity, with all checks and exceptions; the
    collections keep owning their objects and identifiers stay distinct.
  \<^item> \<open>DbStatus\<close>, \<open>PhysicalTree\<close>, \<open>DbPhysical\<close>: activity of entities and the tree of hosts, users,
    processes and participants. One level of the tree is proved once over abstract stores and used
    for the three levels.
  \<^item> \<open>DbNavigate\<close>, \<open>DbClear\<close>: \<open>get_entities\<close> as the relation above and below in that tree; clearing of old
    samples and of inactive entities.
  \<^item> \<open>Reports\<close>, \<open>DbSample\<close>, \<open>DbSampleInv\<close>: inserting samples, the increments of cumulative reports, the
    alerts they trigger. \<open>DbMonitor\<close>: the samples of the monitor service and the statuses that follow.
  \<^item> \<open>DbSelect\<close>, \<open>Aggregation\<close>, \<open>GetData\<close>: \<open>select\<close>, the iterators and aggregators of \<open>detail/*.hpp\<close> and
    \<open>StatisticsBackend::get_data\<close>; a query with bins refines the query without.
  \<^item> \<open>TypeNames\<close>: the registry of types with the demangling of ROS 2 names.
  \<^item> \<open>DomainGraph\<close>, \<open>GraphSpec\<close>: the JSON document of a domain, its updates along a path and its
    regeneration; the regenerated document mirrors the active part of the entities.
  \<^item> \<open>DbDiscovery\<close>: the operations called on a discovery, built from the parts above.

  The queues and the callbacks:
  \<^item> \<open>DbQueue\<close>: the double buffer and the consumer thread as interleaved steps of producers, consumer,
    \<open>stop\<close>, \<open>start\<close> and \<open>flush\<close>; a step is one critical section.
  \<^item> \<open>QueueData\<close>, \<open>QueueEntities\<close>, \<open>QueueMonitor\<close>: \<open>process_sample\<close> of the three queues.
  \<^item> \<open>DbFrame\<close>, \<open>CreationFrame\<close>, \<open>MonitorFrame\<close>: what these steps leave alone, as locales over a relation
    between the database before and after: a relation that the primitive changes allow holds across
    every operation. \<open>DiscoveryInv\<close>, \<open>DiscoveryTrust\<close> and \<open>DiscoveryKnown\<close> interpret them.
  \<^item> \<open>QueueSteps\<close>: the two consumers that share the database, in any interleaving; \<open>MonitorOrder\<close>: the
    order in which the monitor service's queue hands over discoveries; \<open>MonitorGuid\<close>: GUIDs as text.
  \<^item> \<open>Listeners\<close> (\<open>StatisticsBackendData.cpp\<close>): which listener is called, with the discovery counters.

  Bounds and termination. Identifiers are \<open>int\<close> with \<open>wrap64\<close> where the code adds; the invariants ask for
  identifiers being left, which is the only bound on the length of a run. Counts are words and wrap as in
  the code. The functions are total but for the removal of ROS 2 modules, a partial function
  (\<open>None\<close> is a loop that does not end), and what calls it. No fuel is used; the loops of the
  consumer and of \<open>flush\<close> are steps of a relation.

  Assumed of Fast DDS, by the record \<open>fastdds\<close>, a parameter: the text of GUIDs, locators and entity
  identifiers, the value of a sequence number and the class of an entity identifier. \<open>merge_patch\<close> of
  \<open>nlohmann::json\<close> is a parameter too. Documents of QoS are values of a type variable.

  Not modelled: \<open>dump_database\<close> and \<open>load_database\<close> but for the flag that insertions read; \<open>get_info\<close>; what
  \<open>StatisticsBackend\<close> does besides \<open>get_data\<close>, \<open>get_entities\<close> and \<open>get_status_data\<close>, since it creates and
  deletes DDS entities; the DDS listeners and the user data subscriptions, which
  call the middleware; the translation of QoS structures (\<open>subscriber/QosSerializer.cpp\<close>); the
  generated topic types; \<open>nlohmann::json\<close> itself; logging; the execution of the notifiers' scripts;
  the examples.
\<close>

end
